(* ===== verification/Wire_Prelude.thy ===== *)
theory Wire_Prelude
  imports Main "HOL-Library.Word" "HOL-Library.Monad_Syntax"
begin

unbundle bit_operations_syntax

text \<open>
  Shared vocabulary of the development: the machine types of the C code, big-endian
  encoders and decoders (with the interface every fixed-width codec offers), bounds-checked
  access to C buffers, C strings, and the lemma collections the component theories extend.

  Conventions used by all theories.
  \<^item> A C buffer is a list of bytes; an access outside it is undefined behaviour and is the
    value \<open>None\<close> of the option type (\<open>mem_write\<close>, \<open>mem_read\<close>), so a theorem that an
    operation returns \<open>Some\<close> is a theorem that the code stays inside its buffers.
  \<^item> A pointer argument that the code compares with NULL is an \<open>option\<close>.
  \<^item> A C string is the list of its bytes up to the terminating NUL (\<open>c_str\<close>).
\<close>

section \<open>Machine types\<close>

type_synonym byte = "8 word"
type_synonym u16 = "16 word"
type_synonym u32 = "32 word"
type_synonym u64 = "64 word"

named_theorems wire_simps \<open>decoding what an encoder produced\<close>
named_theorems size_simps \<open>lengths of encoded values and of buffers\<close>
named_theorems safe_intros \<open>preservation of well-formedness\<close>

section \<open>Big-endian integers\<close>

definition be16 :: "u16 \<Rightarrow> byte list" where
  "be16 v = [ucast (drop_bit 8 v), ucast v]"

definition be32 :: "u32 \<Rightarrow> byte list" where
  "be32 v = [ucast (drop_bit 24 v), ucast (drop_bit 16 v), ucast (drop_bit 8 v), ucast v]"

definition be64 :: "u64 \<Rightarrow> byte list" where
  "be64 v = [ucast (drop_bit 56 v), ucast (drop_bit 48 v), ucast (drop_bit 40 v),
     ucast (drop_bit 32 v), ucast (drop_bit 24 v), ucast (drop_bit 16 v),
     ucast (drop_bit 8 v), ucast v]"

definition rd16 :: "byte list \<Rightarrow> u16" where
  "rd16 bs = push_bit 8 (ucast (bs ! 0)) OR ucast (bs ! 1)"

definition rd32 :: "byte list \<Rightarrow> u32" where
  "rd32 bs = push_bit 24 (ucast (bs ! 0)) OR push_bit 16 (ucast (bs ! 1)) OR
     push_bit 8 (ucast (bs ! 2)) OR ucast (bs ! 3)"

definition rd64 :: "byte list \<Rightarrow> u64" where
  "rd64 bs = push_bit 56 (ucast (bs ! 0)) OR push_bit 48 (ucast (bs ! 1)) OR
     push_bit 40 (ucast (bs ! 2)) OR push_bit 32 (ucast (bs ! 3)) OR
     push_bit 24 (ucast (bs ! 4)) OR push_bit 16 (ucast (bs ! 5)) OR
     push_bit 8 (ucast (bs ! 6)) OR ucast (bs ! 7)"

section \<open>C buffers and strings\<close>

definition mem_write :: "'a list \<Rightarrow> nat \<Rightarrow> 'a list \<Rightarrow> 'a list option" where
  "mem_write buf off bs =
     (if off + length bs \<le> length buf
      then Some (take off buf @ bs @ drop (off + length bs) buf) else None)"

definition mem_read :: "'a list \<Rightarrow> nat \<Rightarrow> nat \<Rightarrow> 'a list option" where
  "mem_read buf off n =
     (if off + n \<le> length buf then Some (take n (drop off buf)) else None)"

definition c_str :: "byte list \<Rightarrow> byte list" where
  "c_str bs = takeWhile (\<lambda>b. b \<noteq> 0) bs"

definition is_c_str :: "byte list \<Rightarrow> bool" where
  "is_c_str bs \<longleftrightarrow> 0 \<notin> set bs"

definition str :: "string \<Rightarrow> byte list" where
  "str s = map of_char s"

definition all_zero :: "byte list \<Rightarrow> bool" where
  "all_zero bs \<longleftrightarrow> list_all (\<lambda>b. b = 0) bs"

section \<open>Fixed-width codecs\<close>

text \<open>
  What a client of a fixed-width encoding relies on: its width, that decoding a buffer that
  starts with an encoded value gives the value back, and that only the first bytes matter.
\<close>

locale fixed_codec =
  fixes enc :: "'v \<Rightarrow> byte list" and dec :: "byte list \<Rightarrow> 'v" and width :: nat
  assumes enc_length: "length (enc v) = width"
    and dec_enc: "dec (enc v @ xs) = v"
    and enc_dec: "width \<le> length bs \<Longrightarrow> enc (dec bs) = take width bs"
begin

lemma dec_enc_Nil: "dec (enc v) = v"
  using dec_enc [of v "[]"] by simp

lemma enc_inj: "enc v = enc w \<longleftrightarrow> v = w"
  by (metis dec_enc_Nil)

lemma enc_append_inj: "enc v @ xs = enc w @ ys \<longleftrightarrow> v = w \<and> xs = ys"
  by (metis append_eq_append_conv enc_inj enc_length)

lemma drop_enc: "drop width (enc v @ xs) = xs"
  by (simp add: enc_length)

lemma take_enc: "take width (enc v @ xs) = enc v"
  by (simp add: enc_length)

lemma dec_take: "width \<le> length bs \<Longrightarrow> dec (take width bs) = dec bs"
  by (metis dec_enc_Nil enc_dec)

lemma enc_split: "width \<le> length bs \<Longrightarrow> bs = enc (dec bs) @ drop width bs"
  by (simp add: enc_dec)

end

lemma bit_byte_above [simp]: "8 \<le> n \<Longrightarrow> \<not> bit (b :: byte) n"
  using bit_imp_le_length by force

lemma take_two: "2 \<le> length bs \<Longrightarrow> take 2 bs = [bs ! 0, bs ! 1]"
  by (rule nth_equalityI) (auto simp: less_Suc_eq numeral_eq_Suc)

lemma take_four: "4 \<le> length bs \<Longrightarrow> take 4 bs = [bs ! 0, bs ! 1, bs ! 2, bs ! 3]"
  by (rule nth_equalityI) (auto simp: less_Suc_eq numeral_eq_Suc)

lemma take_eight: "8 \<le> length bs \<Longrightarrow>
    take 8 bs = [bs ! 0, bs ! 1, bs ! 2, bs ! 3, bs ! 4, bs ! 5, bs ! 6, bs ! 7]"
  by (rule nth_equalityI) (auto simp: less_Suc_eq numeral_eq_Suc)

lemma rd16_be16: "rd16 (be16 v @ xs) = v"
proof (rule bit_word_eqI)
  fix n assume "n < LENGTH(16)"
  then consider "n < 8" | "8 \<le> n" "n < 16" by fastforce
  then show "bit (rd16 (be16 v @ xs)) n = bit v n"
    by cases (simp_all add: rd16_def be16_def bit_simps less_diff_conv2)
qed

lemma rd32_be32: "rd32 (be32 v @ xs) = v"
proof (rule bit_word_eqI)
  fix n assume "n < LENGTH(32)"
  then consider "n < 8" | "8 \<le> n" "n < 16" | "16 \<le> n" "n < 24" | "24 \<le> n" "n < 32"
    by fastforce
  then show "bit (rd32 (be32 v @ xs)) n = bit v n"
    by cases (simp_all add: rd32_def be32_def bit_simps less_diff_conv2)
qed

lemma rd64_be64: "rd64 (be64 v @ xs) = v"
proof (rule bit_word_eqI)
  fix n assume "n < LENGTH(64)"
  then consider "n < 8" | "8 \<le> n" "n < 16" | "16 \<le> n" "n < 24" | "24 \<le> n" "n < 32"
    | "32 \<le> n" "n < 40" | "40 \<le> n" "n < 48" | "48 \<le> n" "n < 56" | "56 \<le> n" "n < 64"
    by fastforce
  then show "bit (rd64 (be64 v @ xs)) n = bit v n"
    by cases (simp_all add: rd64_def be64_def bit_simps less_diff_conv2)
qed

interpretation c16: fixed_codec be16 rd16 2
proof unfold_locales
  show "length (be16 v) = 2" for v by (simp add: be16_def)
  show "rd16 (be16 v @ xs) = v" for v xs by (rule rd16_be16)
  show "be16 (rd16 bs) = take 2 bs" if "2 \<le> length bs" for bs
    unfolding take_two [OF that] be16_def rd16_def
    by (simp, intro conjI; rule bit_word_eqI; simp add: bit_simps)
qed

interpretation c32: fixed_codec be32 rd32 4
proof unfold_locales
  show "length (be32 v) = 4" for v by (simp add: be32_def)
  show "rd32 (be32 v @ xs) = v" for v xs by (rule rd32_be32)
  show "be32 (rd32 bs) = take 4 bs" if "4 \<le> length bs" for bs
    unfolding take_four [OF that] be32_def rd32_def
    by (simp, intro conjI; rule bit_word_eqI; simp add: bit_simps)
qed

interpretation c64: fixed_codec be64 rd64 8
proof unfold_locales
  show "length (be64 v) = 8" for v by (simp add: be64_def)
  show "rd64 (be64 v @ xs) = v" for v xs by (rule rd64_be64)
  show "be64 (rd64 bs) = take 8 bs" if "8 \<le> length bs" for bs
    unfolding take_eight [OF that] be64_def rd64_def
    by (simp, intro conjI; rule bit_word_eqI; simp add: bit_simps)
qed

declare c16.enc_length [size_simps] c32.enc_length [size_simps] c64.enc_length [size_simps]
declare rd16_be16 [wire_simps] rd32_be32 [wire_simps] rd64_be64 [wire_simps]
declare c16.dec_enc_Nil [wire_simps] c32.dec_enc_Nil [wire_simps] c64.dec_enc_Nil [wire_simps]
declare c16.drop_enc [wire_simps] c32.drop_enc [wire_simps] c64.drop_enc [wire_simps]

section \<open>Generic lemmas\<close>

lemma mem_write_SomeI [simp]:
  "off + length bs \<le> length buf \<Longrightarrow>
     mem_write buf off bs = Some (take off buf @ bs @ drop (off + length bs) buf)"
  by (simp add: mem_write_def)

lemma mem_write_length: "mem_write buf off bs = Some buf' \<Longrightarrow> length buf' = length buf"
  by (auto simp: mem_write_def split: if_splits)

lemma mem_write_prefix:
  "mem_write buf off bs = Some buf' \<Longrightarrow> take (off + length bs) buf' = take off buf @ bs"
  by (auto simp: mem_write_def min_absorb1 min_absorb2 split: if_splits)

lemma c_str_id [simp]: "is_c_str s \<Longrightarrow> c_str s = s"
  by (auto simp: is_c_str_def c_str_def takeWhile_eq_all_conv)

lemma is_c_str_take [simp]: "is_c_str s \<Longrightarrow> is_c_str (take n s)"
  by (auto simp: is_c_str_def dest: in_set_takeD)

lemma length_c_str_le [simp]: "length (c_str s) \<le> length s"
  by (simp add: c_str_def length_takeWhile_le)

lemma all_zero_replicate [simp]: "all_zero (replicate n 0)"
  by (simp add: all_zero_def list_all_length)

lemma unat_lt32: "unat (w :: u32) < 4294967296"
  using unsigned_less [of w] by simp

lemma unat_lt64: "unat (w :: u64) < 18446744073709551616"
  using unsigned_less [of w] by simp

lemma unat_of_nat32: "n < 2 ^ 32 \<Longrightarrow> unat (word_of_nat n :: u32) = n"
  by (simp add: unat_of_nat take_bit_nat_eq_self)

lemma unat_add32: "unat a + unat b < 2 ^ 32 \<Longrightarrow> unat (a + b :: u32) = unat a + unat b"
  by (simp add: unat_add_lem [THEN iffD1])

end
