(* ===== verification/Pack.thy ===== *)
theory Pack
  imports Wire_Prelude
begin

text \<open>
  The PACK serialisation of \<open>softether_pack.c\<close>/\<open>softether_pack.h\<close>: the growable writer
  (\<open>pack_new\<close>, \<open>pack_reserve\<close>, \<open>pack_add_int\<close>, ..., on the buffer of capacity \<open>cap\<close>) and the
  bounds-safe readers (\<open>pack_get_int\<close>, ...). The abstract view of a PACK is a list of named
  values; the writer appends to it and a reader returns the first element of the wanted name
  and type.

  A reader's pointer pair \<open>(*p, end)\<close> is the list of the bytes between them; \<open>*p + n > end\<close> is
  \<open>length rest < n\<close> (addresses do not wrap). \<open>-1\<close> of a reader is \<open>None\<close>.
\<close>

section \<open>Data\<close>

definition PACK_TYPE_INT :: u32 where "PACK_TYPE_INT = 0"
definition PACK_TYPE_DATA :: u32 where "PACK_TYPE_DATA = 1"
definition PACK_TYPE_STR :: u32 where "PACK_TYPE_STR = 2"
definition PACK_TYPE_UNISTR :: u32 where "PACK_TYPE_UNISTR = 3"
definition PACK_TYPE_INT64 :: u32 where "PACK_TYPE_INT64 = 4"

lemmas pack_types =
  PACK_TYPE_INT_def PACK_TYPE_DATA_def PACK_TYPE_STR_def PACK_TYPE_UNISTR_def PACK_TYPE_INT64_def

definition PACK_INITIAL_CAP :: u32 where "PACK_INITIAL_CAP = 256"
definition PACK_MAX_ELEMENTS :: u32 where "PACK_MAX_ELEMENTS = 4096"
definition PACK_MAX_VALUES :: u32 where "PACK_MAX_VALUES = 65535"

record softether_pack =
  pk_data :: "byte list"
  pk_len :: u32
  pk_cap :: u32
  pk_num_elements :: u32

text \<open>
  The heap as the writer sees it: whether an allocation of a given size succeeds, and the
  indeterminate contents of fresh memory.
\<close>

record heap_env =
  alloc_ok :: "u32 \<Rightarrow> bool"
  junk :: "nat \<Rightarrow> byte"

definition c_malloc :: "heap_env \<Rightarrow> u32 \<Rightarrow> byte list option" where
  "c_malloc h n = (if alloc_ok h n then Some (map (junk h) [0..<unat n]) else None)"

definition c_realloc :: "heap_env \<Rightarrow> byte list \<Rightarrow> u32 \<Rightarrow> byte list option" where
  "c_realloc h buf n =
     (if alloc_ok h n
      then Some (take (unat n) buf @ map (junk h) [length buf..<unat n]) else None)"

definition strlen32 :: "byte list \<Rightarrow> u32" where
  "strlen32 s = word_of_nat (length s)"

definition PACK_NAME_SZ :: "byte list \<Rightarrow> u32" where
  "PACK_NAME_SZ n = 4 + strlen32 n"
definition PACK_ELEM_HDR_SZ :: "byte list \<Rightarrow> u32" where
  "PACK_ELEM_HDR_SZ n = PACK_NAME_SZ n + 8"
definition PACK_INT_SZ :: "byte list \<Rightarrow> u32" where
  "PACK_INT_SZ n = PACK_ELEM_HDR_SZ n + 4"
definition PACK_INT64_SZ :: "byte list \<Rightarrow> u32" where
  "PACK_INT64_SZ n = PACK_ELEM_HDR_SZ n + 8"
definition PACK_STR_SZ :: "byte list \<Rightarrow> byte list \<Rightarrow> u32" where
  "PACK_STR_SZ n v = PACK_ELEM_HDR_SZ n + 4 + strlen32 v"
definition PACK_DATA_SZ :: "byte list \<Rightarrow> u32 \<Rightarrow> u32" where
  "PACK_DATA_SZ n d = PACK_ELEM_HDR_SZ n + 4 + d"

lemmas pack_sizes =
  PACK_NAME_SZ_def PACK_ELEM_HDR_SZ_def PACK_INT_SZ_def PACK_INT64_SZ_def
  PACK_STR_SZ_def PACK_DATA_SZ_def

section \<open>Writer\<close>

text \<open>The write cursor \<open>uint8_t** buf\<close>: the buffer and the current offset in it.\<close>

type_synonym cursor = "byte list \<times> nat"

definition pack_write_bytes :: "cursor \<Rightarrow> byte list \<Rightarrow> cursor option" where
  "pack_write_bytes c bs =
     do { b \<leftarrow> mem_write (fst c) (snd c) bs; Some (b, snd c + length bs) }"

definition pack_write_uint32 :: "cursor \<Rightarrow> u32 \<Rightarrow> cursor option" where
  "pack_write_uint32 c v = pack_write_bytes c (be32 v)"

fun pack_write_uint64_from :: "nat \<Rightarrow> cursor \<Rightarrow> u64 \<Rightarrow> cursor option" where
  "pack_write_uint64_from 0 c v = Some c"
| "pack_write_uint64_from (Suc i) c v =
     do { c' \<leftarrow> pack_write_bytes c [ucast (drop_bit (i * 8) v)];
          pack_write_uint64_from i c' v }"

definition pack_write_uint64 :: "cursor \<Rightarrow> u64 \<Rightarrow> cursor option" where
  "pack_write_uint64 c v = pack_write_uint64_from 8 c v"

definition pack_write_elem_name :: "cursor \<Rightarrow> byte list \<Rightarrow> cursor option" where
  "pack_write_elem_name c name =
     do { c \<leftarrow> pack_write_uint32 c (strlen32 name + 1); pack_write_bytes c name }"

definition pack_write_str_val :: "cursor \<Rightarrow> byte list \<Rightarrow> cursor option" where
  "pack_write_str_val c s =
     do { c \<leftarrow> pack_write_uint32 c (strlen32 s); pack_write_bytes c s }"

definition pack_write_data_val :: "cursor \<Rightarrow> byte list option \<Rightarrow> u32 \<Rightarrow> cursor option" where
  "pack_write_data_val c data len =
     do { c \<leftarrow> pack_write_uint32 c len;
          (case data of
             Some d \<Rightarrow>
               if 0 < len
               then do { src \<leftarrow> mem_read d 0 (unat len); pack_write_bytes c src }
               else Some c
           | None \<Rightarrow> Some (fst c, snd c + unat len)) }"

text \<open>The doubling loop of \<open>pack_reserve\<close>; not returning is \<open>None\<close>.\<close>

partial_function (option) pack_grow_cap :: "u32 \<Rightarrow> u32 \<Rightarrow> u32 option" where
  "pack_grow_cap new_cap need =
     (if new_cap < need
      then if 0xFFFFFFFF div 2 < new_cap then Some need
           else pack_grow_cap (new_cap * 2) need
      else Some new_cap)"

definition pack_reserve :: "heap_env \<Rightarrow> softether_pack \<Rightarrow> u32 \<Rightarrow> (int \<times> softether_pack) option" where
  "pack_reserve h p add =
     (if 0xFFFFFFFF - pk_len p < add then Some (-1, p)
      else let need = pk_len p + add in
        if need \<le> pk_cap p then Some (0, p)
        else do {
          new_cap \<leftarrow> pack_grow_cap (if pk_cap p \<noteq> 0 then pk_cap p else PACK_INITIAL_CAP) need;
          Some (case c_realloc h (pk_data p) new_cap of
                  None \<Rightarrow> (-1, p)
                | Some nd \<Rightarrow> (0, p\<lparr>pk_data := nd, pk_cap := new_cap\<rparr>)) })"

definition pack_commit_element :: "softether_pack \<Rightarrow> u32 \<Rightarrow> softether_pack option" where
  "pack_commit_element p elem_size =
     (let p = p\<lparr>pk_len := pk_len p + elem_size, pk_num_elements := pk_num_elements p + 1\<rparr> in
      do { (b, _) \<leftarrow> pack_write_uint32 (pk_data p, 0) (pk_num_elements p);
           Some (p\<lparr>pk_data := b\<rparr>) })"

definition pack_new :: "heap_env \<Rightarrow> softether_pack option" where
  "pack_new h =
     (if \<not> alloc_ok h 24 then None
      else map_option (\<lambda>d. \<lparr>pk_data = d, pk_len = 4, pk_cap = PACK_INITIAL_CAP,
                             pk_num_elements = 0\<rparr>) (c_malloc h PACK_INITIAL_CAP))"

text \<open>
  The four \<open>pack_add_*\<close> functions share their shape: reserve, write name, type and count, write
  the value, commit. \<open>wr\<close> is the part that differs.
\<close>

definition pack_add_with ::
  "heap_env \<Rightarrow> softether_pack \<Rightarrow> byte list \<Rightarrow> u32 \<Rightarrow> u32 \<Rightarrow> (cursor \<Rightarrow> cursor option)
     \<Rightarrow> (int \<times> softether_pack) option" where
  "pack_add_with h p name elem_size ty wr =
     do { (rc, p) \<leftarrow> pack_reserve h p elem_size;
          if rc \<noteq> 0 then Some (-1, p)
          else do {
            c \<leftarrow> pack_write_elem_name (pk_data p, unat (pk_len p)) name;
            c \<leftarrow> pack_write_uint32 c ty;
            c \<leftarrow> pack_write_uint32 c 1;
            (b, _) \<leftarrow> wr c;
            p \<leftarrow> pack_commit_element (p\<lparr>pk_data := b\<rparr>) elem_size;
            Some (0, p) } }"

definition pack_add_int ::
  "heap_env \<Rightarrow> softether_pack \<Rightarrow> byte list option \<Rightarrow> u32 \<Rightarrow> (int \<times> softether_pack) option" where
  "pack_add_int h p name val =
     (case name of None \<Rightarrow> Some (-1, p)
      | Some nm \<Rightarrow> pack_add_with h p nm (PACK_INT_SZ nm) PACK_TYPE_INT
                    (\<lambda>c. pack_write_uint32 c val))"

definition pack_add_int64 ::
  "heap_env \<Rightarrow> softether_pack \<Rightarrow> byte list option \<Rightarrow> u64 \<Rightarrow> (int \<times> softether_pack) option" where
  "pack_add_int64 h p name val =
     (case name of None \<Rightarrow> Some (-1, p)
      | Some nm \<Rightarrow> pack_add_with h p nm (PACK_INT64_SZ nm) PACK_TYPE_INT64
                    (\<lambda>c. pack_write_uint64 c val))"

definition pack_add_str ::
  "heap_env \<Rightarrow> softether_pack \<Rightarrow> byte list option \<Rightarrow> byte list option \<Rightarrow> (int \<times> softether_pack) option"
where
  "pack_add_str h p name val =
     (case (name, val) of
        (Some nm, Some v) \<Rightarrow> pack_add_with h p nm (PACK_STR_SZ nm v) PACK_TYPE_STR
                               (\<lambda>c. pack_write_str_val c v)
      | _ \<Rightarrow> Some (-1, p))"

definition pack_add_data ::
  "heap_env \<Rightarrow> softether_pack \<Rightarrow> byte list option \<Rightarrow> byte list option \<Rightarrow> u32
     \<Rightarrow> (int \<times> softether_pack) option" where
  "pack_add_data h p name data dlen =
     (case name of None \<Rightarrow> Some (-1, p)
      | Some nm \<Rightarrow>
          if 0 < dlen \<and> data = None then Some (-1, p)
          else pack_add_with h p nm (PACK_DATA_SZ nm dlen) PACK_TYPE_DATA
                 (\<lambda>c. pack_write_data_val c data dlen))"

definition pack_length :: "softether_pack option \<Rightarrow> u32" where
  "pack_length p = (case p of None \<Rightarrow> 0 | Some p \<Rightarrow> pk_len p)"

section \<open>Readers\<close>

definition pack_read_uint32_safe :: "byte list \<Rightarrow> (u32 \<times> byte list) option" where
  "pack_read_uint32_safe p = (if length p < 4 then None else Some (rd32 p, drop 4 p))"

definition pack_read_uint64_safe :: "byte list \<Rightarrow> (u64 \<times> byte list) option" where
  "pack_read_uint64_safe p =
     (if length p < 8 then None
      else Some (foldl (\<lambda>v b. push_bit 8 v OR ucast b) 0 (take 8 p), drop 8 p))"

definition pack_skip_bytes_safe :: "byte list \<Rightarrow> u32 \<Rightarrow> byte list option" where
  "pack_skip_bytes_safe p len = (if length p < unat len then None else Some (drop (unat len) p))"

text \<open>\<open>out_size\<close> is positive at every call; the result is the buffer as written, with its NUL.\<close>

definition pack_read_string_safe :: "byte list \<Rightarrow> u32 \<Rightarrow> (byte list \<times> byte list) option" where
  "pack_read_string_safe p out_size =
     do { (len, p) \<leftarrow> pack_read_uint32_safe p;
          if length p < unat len then None
          else let copy_len = (if len < out_size - 1 then unat len else unat out_size - 1) in
               Some (take copy_len p @ [0], drop (unat len) p) }"

definition pack_skip_value_safe :: "byte list \<Rightarrow> u32 \<Rightarrow> byte list option" where
  "pack_skip_value_safe p ty =
     (if ty = PACK_TYPE_INT then pack_skip_bytes_safe p 4
      else if ty = PACK_TYPE_INT64 then pack_skip_bytes_safe p 8
      else if ty = PACK_TYPE_STR \<or> ty = PACK_TYPE_UNISTR \<or> ty = PACK_TYPE_DATA
      then do { (len, p) \<leftarrow> pack_read_uint32_safe p; pack_skip_bytes_safe p len }
      else None)"

fun pack_skip_values :: "nat \<Rightarrow> byte list \<Rightarrow> u32 \<Rightarrow> byte list option" where
  "pack_skip_values 0 p ty = Some p"
| "pack_skip_values (Suc n) p ty =
     do { p \<leftarrow> pack_skip_value_safe p ty; pack_skip_values n p ty }"

datatype match_result = Match "byte list" | NoMatch "byte list" | Malformed

definition pack_match_element :: "byte list \<Rightarrow> byte list \<Rightarrow> u32 \<Rightarrow> match_result" where
  "pack_match_element p field ty =
     (case pack_read_uint32_safe p of None \<Rightarrow> Malformed | Some (name_len_plus1, p) \<Rightarrow>
      if name_len_plus1 = 0 then Malformed else
      let name_len = name_len_plus1 - 1 in
      if length p < unat name_len then Malformed else
      let cp = (if name_len < 63 then unat name_len else 63);
          elem = c_str (take cp p);
          p = drop (unat name_len) p in
      (case pack_read_uint32_safe p of None \<Rightarrow> Malformed | Some (elem_type, p) \<Rightarrow>
      (case pack_read_uint32_safe p of None \<Rightarrow> Malformed | Some (num_values, p) \<Rightarrow>
      if PACK_MAX_VALUES < num_values then Malformed
      else if elem = c_str field \<and> elem_type = ty \<and> 1 \<le> num_values then Match p
      else (case pack_skip_values (unat num_values) p elem_type of
              None \<Rightarrow> Malformed | Some p \<Rightarrow> NoMatch p))))"

text \<open>The element loop shared by the four \<open>pack_get_*\<close>: the position of the first value of the
  first matching element.\<close>

fun pack_find :: "nat \<Rightarrow> byte list \<Rightarrow> byte list \<Rightarrow> u32 \<Rightarrow> byte list option" where
  "pack_find 0 p field ty = None"
| "pack_find (Suc n) p field ty =
     (case pack_match_element p field ty of
        Malformed \<Rightarrow> None
      | Match p \<Rightarrow> Some p
      | NoMatch p \<Rightarrow> pack_find n p field ty)"

definition pack_locate :: "byte list option \<Rightarrow> u32 \<Rightarrow> byte list option \<Rightarrow> u32 \<Rightarrow> byte list option" where
  "pack_locate body body_len field ty =
     (case (body, field) of
        (Some b, Some f) \<Rightarrow>
          if body_len < 4 then None
          else do { (num_elements, p) \<leftarrow> pack_read_uint32_safe (take (unat body_len) b);
                    if PACK_MAX_ELEMENTS < num_elements then None
                    else pack_find (unat num_elements) p f ty }
      | _ \<Rightarrow> None)"

definition pack_get_int :: "byte list option \<Rightarrow> u32 \<Rightarrow> byte list option \<Rightarrow> u32 option" where
  "pack_get_int body body_len field =
     do { p \<leftarrow> pack_locate body body_len field PACK_TYPE_INT;
          (v, _) \<leftarrow> pack_read_uint32_safe p; Some v }"

definition pack_get_int64 :: "byte list option \<Rightarrow> u32 \<Rightarrow> byte list option \<Rightarrow> u64 option" where
  "pack_get_int64 body body_len field =
     do { p \<leftarrow> pack_locate body body_len field PACK_TYPE_INT64;
          (v, _) \<leftarrow> pack_read_uint64_safe p; Some v }"

definition pack_get_str ::
  "byte list option \<Rightarrow> u32 \<Rightarrow> byte list option \<Rightarrow> u32 \<Rightarrow> byte list option" where
  "pack_get_str body body_len field out_size =
     (if out_size = 0 then None
      else do { p \<leftarrow> pack_locate body body_len field PACK_TYPE_STR;
                (s, _) \<leftarrow> pack_read_string_safe p out_size; Some s })"

definition pack_get_data ::
  "byte list option \<Rightarrow> u32 \<Rightarrow> byte list option \<Rightarrow> u32 \<Rightarrow> byte list option" where
  "pack_get_data body body_len field out_size =
     (if out_size = 0 then None
      else do { p \<leftarrow> pack_locate body body_len field PACK_TYPE_DATA;
                (data_len, p) \<leftarrow> pack_read_uint32_safe p;
                if length p < unat data_len then None
                else Some (take (if data_len < out_size then unat data_len else unat out_size) p) })"

section \<open>Abstract view\<close>

datatype pack_value = PInt u32 | PData "byte list" | PStr "byte list" | PInt64 u64

type_synonym pack_elem = "byte list \<times> pack_value"

fun value_type :: "pack_value \<Rightarrow> u32" where
  "value_type (PInt _) = PACK_TYPE_INT"
| "value_type (PData _) = PACK_TYPE_DATA"
| "value_type (PStr _) = PACK_TYPE_STR"
| "value_type (PInt64 _) = PACK_TYPE_INT64"

fun enc_value :: "pack_value \<Rightarrow> byte list" where
  "enc_value (PInt v) = be32 v"
| "enc_value (PData d) = be32 (word_of_nat (length d)) @ d"
| "enc_value (PStr s) = be32 (word_of_nat (length s)) @ s"
| "enc_value (PInt64 v) = be64 v"

definition enc_elem :: "pack_elem \<Rightarrow> byte list" where
  "enc_elem e = be32 (word_of_nat (length (fst e)) + 1) @ fst e @ be32 (value_type (snd e))
     @ be32 1 @ enc_value (snd e)"

definition enc_elems :: "pack_elem list \<Rightarrow> byte list" where
  "enc_elems es = concat (map enc_elem es)"

definition enc_pack :: "pack_elem list \<Rightarrow> byte list" where
  "enc_pack es = be32 (word_of_nat (length es)) @ enc_elems es"

text \<open>An element the 32-bit size arithmetic of the writer can represent, with a C string name.\<close>

definition elem_fits :: "pack_elem \<Rightarrow> bool" where
  "elem_fits e \<longleftrightarrow> is_c_str (fst e) \<and> length (enc_elem e) < 2 ^ 32"

definition pack_rep :: "softether_pack \<Rightarrow> pack_elem list \<Rightarrow> bool" where
  "pack_rep p es \<longleftrightarrow>
     length (pk_data p) = unat (pk_cap p) \<and> pk_len p \<le> pk_cap p \<and>
     unat (pk_len p) = 4 + length (enc_elems es) \<and>
     pk_num_elements p = word_of_nat (length es) \<and>
     drop 4 (take (unat (pk_len p)) (pk_data p)) = enc_elems es \<and>
     (es \<noteq> [] \<longrightarrow> take 4 (pk_data p) = be32 (pk_num_elements p))"

definition pack_add_value ::
  "heap_env \<Rightarrow> softether_pack \<Rightarrow> pack_elem \<Rightarrow> (int \<times> softether_pack) option" where
  "pack_add_value h p e =
     (case snd e of
        PInt v \<Rightarrow> pack_add_int h p (Some (fst e)) v
      | PInt64 v \<Rightarrow> pack_add_int64 h p (Some (fst e)) v
      | PStr s \<Rightarrow> pack_add_str h p (Some (fst e)) (Some s)
      | PData d \<Rightarrow> pack_add_data h p (Some (fst e)) (Some d) (word_of_nat (length d)))"

text \<open>The readers compare the first 63 bytes of an element's name with the wanted field.\<close>

definition elem_match :: "byte list \<Rightarrow> u32 \<Rightarrow> pack_elem \<Rightarrow> bool" where
  "elem_match field ty e \<longleftrightarrow> take 63 (fst e) = c_str field \<and> value_type (snd e) = ty"

definition find_elem :: "byte list \<Rightarrow> u32 \<Rightarrow> pack_elem list \<Rightarrow> pack_value option" where
  "find_elem field ty es = map_option snd (find (elem_match field ty) es)"

text \<open>A client's sequence of additions, continued while every call returns 0.\<close>

fun pack_add_all :: "heap_env \<Rightarrow> softether_pack \<Rightarrow> pack_elem list \<Rightarrow> softether_pack option" where
  "pack_add_all h p [] = Some p"
| "pack_add_all h p (e # es) =
     do { (rc, p) \<leftarrow> pack_add_value h p e; if rc = 0 then pack_add_all h p es else None }"

section \<open>The writer refines appending an element\<close>

text \<open>\<open>writes w bs\<close>: \<open>w\<close> stores \<open>bs\<close> at the cursor and moves it past them, wherever they fit.\<close>

definition writes :: "(cursor \<Rightarrow> cursor option) \<Rightarrow> byte list \<Rightarrow> bool" where
  "writes w bs \<longleftrightarrow> (\<forall>b off. off + length bs \<le> length b \<longrightarrow>
     w (b, off) = Some (take off b @ bs @ drop (off + length bs) b, off + length bs))"

lemma writes_bytes [safe_intros]: "writes (\<lambda>c. pack_write_bytes c bs) bs"
  by (simp add: writes_def pack_write_bytes_def)

lemma writes_Nil [safe_intros]: "writes Some []"
  by (simp add: writes_def)

lemma writes_bind [safe_intros]:
  assumes "writes w xs" and "writes w' ys"
  shows "writes (\<lambda>c. w c \<bind> w') (xs @ ys)"
  unfolding writes_def
proof (intro allI impI)
  fix b :: "byte list" and off
  assume fit: "off + length (xs @ ys) \<le> length b"
  let ?b = "take off b @ xs @ drop (off + length xs) b"
  have 1: "w (b, off) = Some (?b, off + length xs)"
    using assms(1) fit by (simp add: writes_def)
  have len: "length ?b = length b" using fit by simp
  have 2: "w' (?b, off + length xs) = Some (take (off + length xs) ?b @ ys @
      drop (off + length xs + length ys) ?b, off + length xs + length ys)"
    using assms(2) fit len by (simp add: writes_def del: append_assoc)
  have "take (off + length xs) ?b = take off b @ xs" using fit by simp
  moreover have "drop (off + length xs + length ys) ?b = drop (off + length (xs @ ys)) b"
    using fit by (simp add: ac_simps)
  ultimately show "(w (b, off) \<bind> w') =
      Some (take off b @ (xs @ ys) @ drop (off + length (xs @ ys)) b, off + length (xs @ ys))"
    using 1 2 by (simp add: add.assoc)
qed

lemma writes_uint32 [safe_intros]: "writes (\<lambda>c. pack_write_uint32 c v) (be32 v)"
  unfolding pack_write_uint32_def by (rule writes_bytes)

lemma writes_uint64 [safe_intros]: "writes (\<lambda>c. pack_write_uint64 c v) (be64 v)"
proof -
  have step: "writes (\<lambda>c. pack_write_bytes c [x] \<bind> w) (x # xs)" if "writes w xs" for x w xs
    using writes_bind [OF writes_bytes [of "[x]"] that] by simp
  show ?thesis
    unfolding pack_write_uint64_def be64_def
    by (simp add: eval_nat_numeral) (intro step writes_bytes)
qed

lemma writes_elem_name [safe_intros]:
  "writes (\<lambda>c. pack_write_elem_name c nm) (be32 (strlen32 nm + 1) @ nm)"
  unfolding pack_write_elem_name_def by (intro writes_bind writes_uint32 writes_bytes)

lemma writes_str_val [safe_intros]:
  "writes (\<lambda>c. pack_write_str_val c s) (be32 (strlen32 s) @ s)"
  unfolding pack_write_str_val_def by (intro writes_bind writes_uint32 writes_bytes)

lemma writes_data_val [safe_intros]:
  assumes "length d < 2 ^ 32"
  shows "writes (\<lambda>c. pack_write_data_val c (Some d) (word_of_nat (length d)))
           (be32 (word_of_nat (length d)) @ d)"
proof -
  have u: "unat (word_of_nat (length d) :: u32) = length d"
    using assms by (rule unat_of_nat32)
  show ?thesis
  proof (cases "d = []")
    case True
    then show ?thesis
      using writes_bind [OF writes_uint32 [of 0] writes_Nil]
      by (simp add: pack_write_data_val_def)
  next
    case False
    then have "0 < (word_of_nat (length d) :: u32)"
      using u by (metis length_0_conv unat_eq_zero word_gt_0)
    then show ?thesis
      using writes_bind [OF writes_uint32 [of "word_of_nat (length d)"] writes_bytes [of d]] u
      by (simp add: pack_write_data_val_def mem_read_def)
  qed
qed

lemma pack_grow_cap_returns:
  "0 < c \<Longrightarrow> \<exists>n. pack_grow_cap c need = Some n \<and> need \<le> n \<and> c \<le> n"
proof (induction "unat need - unat c" arbitrary: c rule: less_induct)
  case less
  show ?case
  proof (cases "c < need \<and> c \<le> 0x7FFFFFFF")
    case False
    then show ?thesis
      by (subst pack_grow_cap.simps) (auto simp: not_less not_le)
  next
    case True
    have "unat c \<le> 0x7FFFFFFF" using True by (simp add: word_le_nat_alt)
    then have dbl: "unat (c * 2) = unat c * 2"
      by (simp add: unat_mult_lem [THEN iffD1])
    have pos: "0 < unat c" using less.prems by (simp add: word_gt_0 unat_gt_0)
    have "unat c < unat need" using True by (simp add: word_less_nat_alt)
    then have "unat need - unat (c * 2) < unat need - unat c" using dbl pos by simp
    moreover have "0 < c * 2" using dbl pos by (simp add: word_less_nat_alt)
    ultimately obtain n where "pack_grow_cap (c * 2) need = Some n" "need \<le> n" "c * 2 \<le> n"
      using less.hyps by blast
    moreover have "c \<le> c * 2" using dbl by (simp add: word_le_nat_alt)
    moreover have "pack_grow_cap c need = pack_grow_cap (c * 2) need"
      using True by (subst pack_grow_cap.simps) (auto dest: leD)
    ultimately show ?thesis using order_trans by metis
  qed
qed

lemma c_realloc_SomeD:
  assumes "c_realloc h buf n = Some nd" and "length buf \<le> unat n"
  shows "length nd = unat n" and "take (length buf) nd = buf"
  using assms by (auto simp: c_realloc_def split: if_splits)

text \<open>\<open>pack_reserve\<close> always returns; on success the buffer has room for \<open>add\<close> more bytes and the
  written part is unchanged.\<close>

lemma pack_reserve_spec:
  assumes rep: "pack_rep p es"
  shows "\<exists>rc p'. pack_reserve h p add = Some (rc, p') \<and> pack_rep p' es \<and>
           pk_len p' = pk_len p \<and>
           (rc = 0 \<and> unat (pk_len p) + unat add \<le> length (pk_data p') \<or> rc = -1 \<and> p' = p)"
proof (cases "0xFFFFFFFF - pk_len p < add")
  case True
  then show ?thesis using rep by (simp add: pack_reserve_def)
next
  case False
  have "unat add \<le> unat (0xFFFFFFFF - pk_len p)" using False by (simp add: word_le_nat_alt not_less)
  also have "\<dots> = 0xFFFFFFFF - unat (pk_len p)"
    using unat_lt32 [of "pk_len p"] by (subst unat_sub) (simp_all add: word_le_nat_alt)
  finally have nowrap: "unat (pk_len p) + unat add < 2 ^ 32"
    using unat_lt32 [of "pk_len p"] by simp
  then have need: "unat (pk_len p + add) = unat (pk_len p) + unat add" by (rule unat_add32)
  show ?thesis
  proof (cases "pk_len p + add \<le> pk_cap p")
    case True
    then show ?thesis using rep False need
      by (auto simp: pack_reserve_def pack_rep_def word_le_nat_alt)
  next
    case big: False
    define c where "c = (if pk_cap p \<noteq> 0 then pk_cap p else PACK_INITIAL_CAP)"
    have "0 < c" by (simp add: c_def PACK_INITIAL_CAP_def word_gt_0)
    then obtain n where n: "pack_grow_cap c (pk_len p + add) = Some n" "pk_len p + add \<le> n" "c \<le> n"
      using pack_grow_cap_returns by blast
    have cap: "unat (pk_cap p) \<le> unat n" using n(3) by (auto simp: c_def word_le_nat_alt split: if_splits)
    have res: "pack_reserve h p add = Some (case c_realloc h (pk_data p) n of
        None \<Rightarrow> (-1, p) | Some nd \<Rightarrow> (0, p\<lparr>pk_data := nd, pk_cap := n\<rparr>))"
      using False big n(1) by (simp add: pack_reserve_def c_def Let_def)
    show ?thesis
    proof (cases "c_realloc h (pk_data p) n")
      case None
      then show ?thesis using res rep by simp
    next
      case (Some nd)
      have lenp: "length (pk_data p) = unat (pk_cap p)" "unat (pk_len p) \<le> unat (pk_cap p)"
        using rep by (auto simp: pack_rep_def word_le_nat_alt)
      have nd: "length nd = unat n" "take (unat (pk_cap p)) nd = pk_data p"
        using c_realloc_SomeD [OF Some] lenp cap by auto
      have t: "take k nd = take k (pk_data p)" if "k \<le> unat (pk_cap p)" for k
        using nd(2) that by (metis min.absorb1 take_take)
      have "4 \<le> unat (pk_len p)" using rep by (simp add: pack_rep_def)
      then have "pack_rep (p\<lparr>pk_data := nd, pk_cap := n\<rparr>) es"
        using rep nd(1) cap lenp t [of "unat (pk_len p)"] t [of 4]
        by (auto simp: pack_rep_def word_le_nat_alt)
      moreover have "unat (pk_len p) + unat add \<le> length nd"
        using nd(1) n(2) need by (simp add: word_le_nat_alt)
      ultimately show ?thesis using res Some by simp
    qed
  qed
qed

lemma enc_elem_length [size_simps]:
  "length (enc_elem (nm, v)) = 12 + length nm + length (enc_value v)"
  by (simp add: enc_elem_def size_simps)

lemma enc_elems_snoc: "enc_elems (es @ [e]) = enc_elems es @ enc_elem e"
  by (simp add: enc_elems_def)

lemma pack_commit_element_spec:
  assumes "4 \<le> length (pk_data p)"
  shows "pack_commit_element p n = Some (p\<lparr>pk_len := pk_len p + n,
           pk_num_elements := pk_num_elements p + 1,
           pk_data := be32 (pk_num_elements p + 1) @ drop 4 (pk_data p)\<rparr>)"
  using assms
  by (simp add: pack_commit_element_def pack_write_uint32_def pack_write_bytes_def size_simps)

lemma pack_add_with_spec:
  assumes rep: "pack_rep p es" and wr: "writes wr (enc_value v)"
    and sz: "unat elem_size = length (enc_elem (nm, v))"
  shows "\<exists>rc p'. pack_add_with h p nm elem_size (value_type v) wr = Some (rc, p') \<and>
           (rc = 0 \<and> pack_rep p' (es @ [(nm, v)]) \<or> rc = -1 \<and> p' = p)"
proof -
  obtain rc q where q: "pack_reserve h p elem_size = Some (rc, q)" "pack_rep q es"
      "pk_len q = pk_len p"
      "rc = 0 \<and> unat (pk_len p) + unat elem_size \<le> length (pk_data q) \<or> rc = -1 \<and> q = p"
    using pack_reserve_spec [OF rep] by blast
  show ?thesis
  proof (cases "rc = 0")
    case False
    then show ?thesis using q by (auto simp: pack_add_with_def)
  next
    case True
    let ?W = "\<lambda>c. pack_write_elem_name c nm \<bind> (\<lambda>c. pack_write_uint32 c (value_type v) \<bind>
                   (\<lambda>c. pack_write_uint32 c 1 \<bind> wr))"
    let ?off = "unat (pk_len q)" and ?b = "pk_data q" and ?E = "enc_elem (nm, v)"
    have "writes ?W ((be32 (strlen32 nm + 1) @ nm) @ be32 (value_type v) @ be32 1 @ enc_value v)"
      by (intro writes_bind writes_elem_name writes_uint32 wr)
    then have "writes ?W ?E" by (simp add: enc_elem_def strlen32_def)
    moreover have fit: "?off + length ?E \<le> length ?b" using q True sz by auto
    ultimately have W: "?W (?b, ?off) = Some (take ?off ?b @ ?E @ drop (?off + length ?E) ?b,
        ?off + length ?E)"
      by (simp add: writes_def)
    let ?d = "take ?off ?b @ ?E @ drop (?off + length ?E) ?b"
    have off: "4 \<le> ?off" "?off = 4 + length (enc_elems es)" "?off \<le> length ?b"
      using q(2) by (auto simp: pack_rep_def word_le_nat_alt)
    have "pack_add_with h p nm elem_size (value_type v) wr =
        (?W (?b, ?off) \<bind> (\<lambda>(b, _). pack_commit_element (q\<lparr>pk_data := b\<rparr>) elem_size \<bind>
           (\<lambda>p. Some (0, p))))"
      using q(1) True by (simp add: pack_add_with_def)
    also have "\<dots> = Some (0, q\<lparr>pk_data := be32 (pk_num_elements q + 1) @ drop 4 ?d,
        pk_len := pk_len q + elem_size, pk_num_elements := pk_num_elements q + 1\<rparr>)"
      unfolding W using off fit by (simp add: pack_commit_element_spec)
    finally have res: "pack_add_with h p nm elem_size (value_type v) wr = Some (0, q\<lparr>pk_data :=
        be32 (pk_num_elements q + 1) @ drop 4 ?d, pk_len := pk_len q + elem_size,
        pk_num_elements := pk_num_elements q + 1\<rparr>)" .
    have cap: "length ?b = unat (pk_cap q)" using q(2) by (simp add: pack_rep_def)
    have newlen: "unat (pk_len q + elem_size) = ?off + length ?E"
      using fit cap sz unat_lt32 [of "pk_cap q"] by (subst unat_add32) auto
    have "drop 4 (take ?off ?b) = enc_elems es" using q(2) unfolding pack_rep_def by blast
    then have body: "drop 4 ?d = enc_elems es @ ?E @ drop (?off + length ?E) ?b"
      using off by (simp add: drop_append)
    have "pack_rep (q\<lparr>pk_data := be32 (pk_num_elements q + 1) @ drop 4 ?d,
        pk_len := pk_len q + elem_size, pk_num_elements := pk_num_elements q + 1\<rparr>) (es @ [(nm, v)])"
      using q(2) off fit cap newlen
      by (simp add: pack_rep_def body enc_elems_snoc word_le_nat_alt size_simps)
    then show ?thesis using res by blast
  qed
qed

lemma pack_size_sums:
  "PACK_INT_SZ nm = strlen32 nm + 16" "PACK_INT64_SZ nm = strlen32 nm + 20"
  "PACK_STR_SZ nm s = strlen32 nm + (strlen32 s + 16)" "PACK_DATA_SZ nm d = strlen32 nm + (d + 16)"
  by (simp_all add: pack_sizes)

lemma pack_add_value_spec:
  assumes rep: "pack_rep p es" and fits: "elem_fits e"
  shows "\<exists>rc p'. pack_add_value h p e = Some (rc, p') \<and>
           (rc = 0 \<and> pack_rep p' (es @ [e]) \<or> rc = -1 \<and> p' = p)"
proof -
  obtain nm v where e: "e = (nm, v)" by (cases e)
  have sz: "12 + length nm + length (enc_value v) < 2 ^ 32"
    using fits by (simp add: elem_fits_def e enc_elem_length)
  have nm: "unat (strlen32 nm) = length nm"
    using sz by (simp add: strlen32_def unat_of_nat32)
  have num: "unat (strlen32 nm + k) = length nm + unat k" if "length nm + unat k < 2 ^ 32" for k
    using that nm by (simp add: unat_add32)
  show ?thesis
  proof (cases v)
    case (PInt x)
    have "unat (PACK_INT_SZ nm) = length (enc_elem (nm, v))"
      using sz num [of 16] PInt by (simp add: pack_size_sums size_simps)
    from pack_add_with_spec [OF rep _ this] show ?thesis
      using PInt e by (simp add: pack_add_value_def pack_add_int_def writes_uint32)
  next
    case (PInt64 x)
    have "unat (PACK_INT64_SZ nm) = length (enc_elem (nm, v))"
      using sz num [of 20] PInt64 by (simp add: pack_size_sums size_simps)
    from pack_add_with_spec [OF rep _ this] show ?thesis
      using PInt64 e by (simp add: pack_add_value_def pack_add_int64_def writes_uint64)
  next
    case (PStr s)
    have "unat (strlen32 s) = length s" using sz PStr by (simp add: strlen32_def unat_of_nat32 size_simps)
    then have "unat (PACK_STR_SZ nm s) = length (enc_elem (nm, v))"
      using sz num [of "strlen32 s + 16"] PStr unat_add32 [of "strlen32 s" 16]
      by (simp add: pack_size_sums size_simps)
    from pack_add_with_spec [OF rep _ this] show ?thesis
      using PStr e writes_str_val [of s] by (simp add: pack_add_value_def pack_add_str_def strlen32_def)
  next
    case (PData d)
    have d: "length d < 2 ^ 32" using sz PData by (simp add: size_simps)
    let ?n = "word_of_nat (length d) :: u32"
    have "unat ?n = length d" using d by (rule unat_of_nat32)
    then have "unat (PACK_DATA_SZ nm ?n) = length (enc_elem (nm, v))"
      using sz num [of "?n + 16"] PData unat_add32 [of ?n 16]
      by (simp add: pack_size_sums size_simps)
    from pack_add_with_spec [OF rep _ this] show ?thesis
      using PData e writes_data_val [OF d] by (simp add: pack_add_value_def pack_add_data_def)
  qed
qed

section \<open>The readers find what the writer stored\<close>

lemma read_uint32_enc [wire_simps]: "pack_read_uint32_safe (be32 v @ xs) = Some (v, xs)"
  by (simp add: pack_read_uint32_safe_def size_simps wire_simps)

lemma foldl_rd64: "8 \<le> length bs \<Longrightarrow> foldl (\<lambda>v b. push_bit 8 v OR ucast b) 0 (take 8 bs) = rd64 bs"
  by (simp add: take_eight rd64_def push_bit_or or.assoc)

lemma read_uint64_enc [wire_simps]: "pack_read_uint64_safe (be64 v @ xs) = Some (v, xs)"
  using foldl_rd64 [of "be64 v @ xs"]
  by (simp add: pack_read_uint64_safe_def size_simps wire_simps)

lemma skip_value_enc [wire_simps]:
  assumes "length (enc_value v) < 2 ^ 32"
  shows "pack_skip_value_safe (enc_value v @ xs) (value_type v) = Some xs"
proof -
  have "unat (word_of_nat (length d) :: u32) = length d" if "4 + length d < 4294967296" for d :: "byte list"
    using that by (simp add: unat_of_nat32)
  then show ?thesis using assms
    by (cases v) (auto simp: pack_skip_value_safe_def pack_types pack_skip_bytes_safe_def
        size_simps wire_simps)
qed

lemma elem_fits_bounds:
  assumes "elem_fits (nm, v)"
  shows "unat (word_of_nat (length nm) :: u32) = length nm"
    and "(word_of_nat (length nm) :: u32) + 1 \<noteq> 0" and "length (enc_value v) < 2 ^ 32"
    and "is_c_str nm"
proof -
  have sz: "12 + length nm + length (enc_value v) < 2 ^ 32"
    using assms by (simp add: elem_fits_def enc_elem_length)
  then show u: "unat (word_of_nat (length nm) :: u32) = length nm" by (simp add: unat_of_nat32)
  show "(word_of_nat (length nm) :: u32) + 1 \<noteq> 0"
    using sz u unat_add32 [of "word_of_nat (length nm)" 1] by (auto simp: unat_eq_zero [symmetric])
  show "length (enc_value v) < 2 ^ 32" using sz by simp
  show "is_c_str nm" using assms by (simp add: elem_fits_def)
qed

lemma match_element_enc [wire_simps]:
  assumes "elem_fits (nm, v)"
  shows "pack_match_element (enc_elem (nm, v) @ xs) field ty =
           (if elem_match field ty (nm, v)
            then Match (enc_value v @ xs) else NoMatch xs)"
proof -
  note b = elem_fits_bounds [OF assms]
  let ?n = "word_of_nat (length nm) :: u32"
  have "take (if ?n < 63 then unat ?n else 63) (nm @ ys) = take 63 nm" for ys
    using b(1) by (auto simp: word_less_nat_alt)
  then have elem: "c_str (take (if ?n < 63 then unat ?n else 63) (nm @ ys)) = take 63 nm" for ys
    using b(4) by simp
  show ?thesis using b
    by (simp add: elem elem_match_def pack_match_element_def enc_elem_def wire_simps PACK_MAX_VALUES_def Let_def
        del: take_append)
qed

lemma pack_find_enc:
  assumes "list_all elem_fits es"
  shows "pack_find (length es) (enc_elems es @ xs) field ty =
           (case dropWhile (\<lambda>e. \<not> elem_match field ty e) es of
              [] \<Rightarrow> None | e # es' \<Rightarrow> Some (enc_value (snd e) @ enc_elems es' @ xs))"
  using assms
proof (induction es)
  case Nil
  then show ?case by simp
next
  case (Cons e es)
  obtain nm v where e: "e = (nm, v)" by (cases e)
  then show ?case using Cons
    by (simp add: enc_elems_def match_element_enc)
qed

lemma pack_locate_enc:
  assumes rep: "pack_rep p es" and es: "es \<noteq> []" "length es \<le> 4096" "list_all elem_fits es"
  shows "pack_locate (Some (pk_data p)) (pk_len p) (Some field) ty =
           (case dropWhile (\<lambda>e. \<not> elem_match field ty e) es of
              [] \<Rightarrow> None | e # es' \<Rightarrow> Some (enc_value (snd e) @ enc_elems es'))"
proof -
  have len: "unat (pk_len p) = 4 + length (enc_elems es)" "unat (pk_len p) \<le> length (pk_data p)"
    and hd: "take 4 (pk_data p) = be32 (word_of_nat (length es))"
    and tl: "drop 4 (take (unat (pk_len p)) (pk_data p)) = enc_elems es"
    using rep es(1) by (auto simp: pack_rep_def word_le_nat_alt)
  have "take (unat (pk_len p)) (pk_data p) = take 4 (take (unat (pk_len p)) (pk_data p)) @
      drop 4 (take (unat (pk_len p)) (pk_data p))" by (rule append_take_drop_id [symmetric])
  also have "take 4 (take (unat (pk_len p)) (pk_data p)) = take 4 (pk_data p)"
    using len(1) by (simp add: min_absorb1)
  finally have bytes: "take (unat (pk_len p)) (pk_data p) =
      be32 (word_of_nat (length es)) @ enc_elems es" using hd tl by simp
  have n: "unat (word_of_nat (length es) :: u32) = length es"
    using es(2) by (simp add: unat_of_nat32)
  have "\<not> pk_len p < 4" using len(1) by (simp add: word_less_nat_alt)
  moreover have "\<not> PACK_MAX_ELEMENTS < (word_of_nat (length es) :: u32)"
    using n es(2) by (simp add: PACK_MAX_ELEMENTS_def word_less_nat_alt)
  ultimately show ?thesis
    using pack_find_enc [OF es(3), of "[]", unfolded append_Nil2] n
    by (simp add: pack_locate_def bytes wire_simps)
qed

lemma find_dropWhile: "find P xs = (case dropWhile (\<lambda>x. \<not> P x) xs of [] \<Rightarrow> None | x # _ \<Rightarrow> Some x)"
  by (induction xs) auto

lemma pack_locate_None:
  assumes "pack_rep p es" "es \<noteq> []" "length es \<le> 4096" "list_all elem_fits es"
    and "find_elem field ty es = None"
  shows "pack_locate (Some (pk_data p)) (pk_len p) (Some field) ty = None"
  using assms(5) unfolding pack_locate_enc [OF assms(1-4)] find_elem_def find_dropWhile
  by (simp del: dropWhile_eq_Nil_conv split: list.splits)

lemma pack_locate_Some:
  assumes "pack_rep p es" "es \<noteq> []" "length es \<le> 4096" "list_all elem_fits es"
    and find: "find_elem field ty es = Some v"
  obtains tail where "pack_locate (Some (pk_data p)) (pk_len p) (Some field) ty = Some (enc_value v @ tail)"
    and "value_type v = ty" and "length (enc_value v) < 2 ^ 32"
proof -
  let ?d = "dropWhile (\<lambda>e. \<not> elem_match field ty e) es"
  obtain e r where d: "?d = e # r" and v: "snd e = v"
    using find by (cases ?d) (simp_all add: find_elem_def find_dropWhile)
  have "elem_match field ty e" using hd_dropWhile [of "\<lambda>e. \<not> elem_match field ty e" es] d by simp
  then have ty: "value_type v = ty" using v by (simp add: elem_match_def)
  have "e \<in> set ?d" using d by simp
  then have "e \<in> set es" by (rule set_dropWhileD)
  then have "elem_fits (fst e, v)" using assms(4) v by (auto simp: list_all_iff)
  then have "length (enc_value v) < 2 ^ 32" by (rule elem_fits_bounds(3))
  with ty that show thesis
    using d v by (simp add: pack_locate_enc [OF assms(1-4)])
qed

lemma pack_get_int_enc:
  assumes "pack_rep p es" "es \<noteq> []" "length es \<le> 4096" "list_all elem_fits es"
  shows "pack_get_int (Some (pk_data p)) (pk_len p) (Some field) =
           (case find_elem field PACK_TYPE_INT es of Some (PInt v) \<Rightarrow> Some v | _ \<Rightarrow> None)"
proof (cases "find_elem field PACK_TYPE_INT es")
  case None
  then show ?thesis using pack_locate_None [OF assms] by (simp add: pack_get_int_def)
next
  case (Some v)
  obtain tail where "pack_locate (Some (pk_data p)) (pk_len p) (Some field) PACK_TYPE_INT =
      Some (enc_value v @ tail)" and "value_type v = PACK_TYPE_INT"
    by (rule pack_locate_Some [OF assms Some])
  then show ?thesis using Some
    by (cases v) (simp_all add: pack_get_int_def wire_simps pack_types)
qed

lemma pack_get_int64_enc:
  assumes "pack_rep p es" "es \<noteq> []" "length es \<le> 4096" "list_all elem_fits es"
  shows "pack_get_int64 (Some (pk_data p)) (pk_len p) (Some field) =
           (case find_elem field PACK_TYPE_INT64 es of Some (PInt64 v) \<Rightarrow> Some v | _ \<Rightarrow> None)"
proof (cases "find_elem field PACK_TYPE_INT64 es")
  case None
  then show ?thesis using pack_locate_None [OF assms] by (simp add: pack_get_int64_def)
next
  case (Some v)
  obtain tail where "pack_locate (Some (pk_data p)) (pk_len p) (Some field) PACK_TYPE_INT64 =
      Some (enc_value v @ tail)" and "value_type v = PACK_TYPE_INT64"
    by (rule pack_locate_Some [OF assms Some])
  then show ?thesis using Some
    by (cases v) (simp_all add: pack_get_int64_def wire_simps pack_types)
qed

lemma pack_get_str_enc:
  assumes "pack_rep p es" "es \<noteq> []" "length es \<le> 4096" "list_all elem_fits es" and pos: "0 < out_size"
  shows "pack_get_str (Some (pk_data p)) (pk_len p) (Some field) out_size =
           (case find_elem field PACK_TYPE_STR es of
              Some (PStr s) \<Rightarrow> Some (take (unat out_size - 1) s @ [0]) | _ \<Rightarrow> None)"
proof (cases "find_elem field PACK_TYPE_STR es")
  case None
  then show ?thesis using pack_locate_None [OF assms(1-4)] by (simp add: pack_get_str_def)
next
  case (Some v)
  obtain tail where loc: "pack_locate (Some (pk_data p)) (pk_len p) (Some field) PACK_TYPE_STR =
      Some (enc_value v @ tail)" and v: "value_type v = PACK_TYPE_STR" "length (enc_value v) < 2 ^ 32"
    by (rule pack_locate_Some [OF assms(1-4) Some])
  from v(1) obtain s where s: "v = PStr s" by (cases v) (auto simp: pack_types)
  have "unat (word_of_nat (length s) :: u32) = length s"
    using v(2) s by (simp add: size_simps unat_of_nat32)
  moreover have "unat (out_size - 1) = unat out_size - 1"
    using pos by (simp add: unat_sub word_le_nat_alt word_less_nat_alt)
  moreover have "out_size \<noteq> 0" using pos by auto
  ultimately show ?thesis using loc Some s
    by (simp add: pack_get_str_def pack_read_string_safe_def wire_simps word_less_nat_alt)
qed

lemma pack_get_data_enc:
  assumes "pack_rep p es" "es \<noteq> []" "length es \<le> 4096" "list_all elem_fits es" and pos: "0 < out_size"
  shows "pack_get_data (Some (pk_data p)) (pk_len p) (Some field) out_size =
           (case find_elem field PACK_TYPE_DATA es of
              Some (PData d) \<Rightarrow> Some (take (unat out_size) d) | _ \<Rightarrow> None)"
proof (cases "find_elem field PACK_TYPE_DATA es")
  case None
  then show ?thesis using pack_locate_None [OF assms(1-4)] by (simp add: pack_get_data_def)
next
  case (Some v)
  obtain tail where loc: "pack_locate (Some (pk_data p)) (pk_len p) (Some field) PACK_TYPE_DATA =
      Some (enc_value v @ tail)" and v: "value_type v = PACK_TYPE_DATA" "length (enc_value v) < 2 ^ 32"
    by (rule pack_locate_Some [OF assms(1-4) Some])
  from v(1) obtain d where d: "v = PData d" by (cases v) (auto simp: pack_types)
  have "unat (word_of_nat (length d) :: u32) = length d"
    using v(2) d by (simp add: size_simps unat_of_nat32)
  moreover have "out_size \<noteq> 0" using pos by auto
  ultimately show ?thesis using loc Some d
    by (simp add: pack_get_data_def wire_simps word_less_nat_alt)
qed

section \<open>Properties\<close>

lemma pack_new_rep: "pack_new h = Some p \<Longrightarrow> pack_rep p []"
  by (auto simp: pack_new_def c_malloc_def pack_rep_def PACK_INITIAL_CAP_def enc_elems_def
      split: if_splits)

lemma pack_add_all_rep:
  assumes "pack_rep p es" "list_all elem_fits es'" "pack_add_all h p es' = Some q"
  shows "pack_rep q (es @ es')"
  using assms
proof (induction es' arbitrary: p es)
  case Nil
  then show ?case by simp
next
  case (Cons e es')
  then obtain rc p' where p': "pack_add_value h p e = Some (rc, p')" "rc = 0" "pack_rep p' (es @ [e])"
    using pack_add_value_spec [of p es e h] by (fastforce split: if_splits)
  then have "pack_add_all h p' es' = Some q" using Cons.prems(3) by simp
  with Cons.IH [OF p'(3)] Cons.prems(2) show ?case by simp
qed

lemma pack_reserve_returns:
  "\<exists>rc p'. pack_reserve h p add = Some (rc, p') \<and>
     (rc = -1 \<and> p' = p \<or>
      rc = 0 \<and> pk_len p' = pk_len p \<and> pk_len p + add \<le> pk_cap p' \<and> add \<le> 0xFFFFFFFF - pk_len p)"
proof -
  define c where "c = (if pk_cap p \<noteq> 0 then pk_cap p else PACK_INITIAL_CAP)"
  have "0 < c" by (simp add: c_def PACK_INITIAL_CAP_def word_gt_0)
  then obtain n where n: "pack_grow_cap c (pk_len p + add) = Some n" "pk_len p + add \<le> n"
    using pack_grow_cap_returns by blast
  show ?thesis
    using n by (cases "c_realloc h (pk_data p) n")
      (auto simp: pack_reserve_def c_def [symmetric] Let_def not_less)
qed

text \<open>
  \<open>pack_reserve\<close> (and so its doubling loop) returns on every input: either -1 with the pack
  unchanged, or 0 with a capacity that holds the requested bytes, the sum not having wrapped.
\<close>

theorem pack_reserve_total:
  "\<exists>rc p'. pack_reserve h p add = Some (rc, p') \<and>
     (rc = -1 \<and> p' = p \<or>
      rc = 0 \<and> pk_len p' = pk_len p \<and> pk_len p + add \<le> pk_cap p' \<and> add \<le> 0xFFFFFFFF - pk_len p)"
  by (rule pack_reserve_returns)

text \<open>
  C31. Every \<open>pack_add_*\<close> call stays inside the buffer and refines appending one element to the
  list the pack represents: it returns 0 and the pack represents the longer list (buffer, length,
  capacity, element count and the patched count field agree), or it returns -1 and nothing changed.
\<close>

theorem pack_add_refines_append:
  assumes "pack_rep p es" and "elem_fits e"
  shows "\<exists>rc p'. pack_add_value h p e = Some (rc, p') \<and>
           (rc = 0 \<and> pack_rep p' (es @ [e]) \<or> rc = -1 \<and> p' = p)"
  using assms by (rule pack_add_value_spec)

definition demo_heap :: heap_env where
  "demo_heap = \<lparr>alloc_ok = (\<lambda>_. True), junk = (\<lambda>_. 0xAA)\<rparr>"

definition demo_pack :: softether_pack where
  "demo_pack = \<lparr>pk_data = map (\<lambda>_. 0xAA) [0..<256], pk_len = 4, pk_cap = 256, pk_num_elements = 0\<rparr>"

definition demo_elems :: "pack_elem list" where
  "demo_elems = [(str ''ok'', PInt 1), (str ''tran_id'', PInt64 7), (str ''opcode'', PStr (str ''x''))]"

lemma demo_pack_new: "pack_new demo_heap = Some demo_pack"
  by (simp add: pack_new_def demo_heap_def demo_pack_def c_malloc_def PACK_INITIAL_CAP_def)

lemma demo_elems_fit: "list_all elem_fits demo_elems"
  by (simp add: demo_elems_def elem_fits_def enc_elem_def size_simps str_def is_c_str_def)

theorem pack_add_refines_append_witness:
  "\<exists>rc p'. pack_add_value demo_heap demo_pack (str ''ok'', PInt 1) = Some (rc, p') \<and>
     (rc = 0 \<and> pack_rep p' [(str ''ok'', PInt 1)] \<or> rc = -1 \<and> p' = demo_pack)"
  using pack_add_refines_append [OF pack_new_rep [OF demo_pack_new], of "(str ''ok'', PInt 1)" demo_heap]
    demo_elems_fit by (simp add: demo_elems_def)

text \<open>
  C8. Round trip. A PACK built by \<open>pack_new\<close> and successful \<open>pack_add_*\<close> calls (at most 4096
  elements) is read back by the \<open>pack_get_*\<close> functions: each returns the value of the first
  element with the field's name (its first 63 bytes) and the reader's type, or fails when there
  is none; strings are cut to \<open>out_size - 1\<close> bytes and NUL-terminated, data to \<open>out_size\<close>.
\<close>

theorem pack_roundtrip:
  assumes "pack_new h = Some p0" and "pack_add_all h p0 es = Some p" and "list_all elem_fits es"
    and "es \<noteq> []" and "length es \<le> 4096" and "0 < out_size"
  shows "pack_get_int (Some (pk_data p)) (pk_len p) (Some field) =
           (case find_elem field PACK_TYPE_INT es of Some (PInt v) \<Rightarrow> Some v | _ \<Rightarrow> None) \<and>
         pack_get_int64 (Some (pk_data p)) (pk_len p) (Some field) =
           (case find_elem field PACK_TYPE_INT64 es of Some (PInt64 v) \<Rightarrow> Some v | _ \<Rightarrow> None) \<and>
         pack_get_str (Some (pk_data p)) (pk_len p) (Some field) out_size =
           (case find_elem field PACK_TYPE_STR es of
              Some (PStr s) \<Rightarrow> Some (take (unat out_size - 1) s @ [0]) | _ \<Rightarrow> None) \<and>
         pack_get_data (Some (pk_data p)) (pk_len p) (Some field) out_size =
           (case find_elem field PACK_TYPE_DATA es of
              Some (PData d) \<Rightarrow> Some (take (unat out_size) d) | _ \<Rightarrow> None)"
proof -
  have rep: "pack_rep p es"
    using pack_add_all_rep [OF pack_new_rep [OF assms(1)] assms(3) assms(2)] by simp
  note fits = rep assms(4,5,3)
  show ?thesis
    using pack_get_int_enc [OF fits] pack_get_int64_enc [OF fits] pack_get_str_enc [OF fits assms(6)]
      pack_get_data_enc [OF fits assms(6)] by simp
qed

lemma demo_add_all: "\<exists>p. pack_add_all demo_heap demo_pack demo_elems = Some p"
proof -
  have "pack_add_all demo_heap demo_pack demo_elems \<noteq> None" by code_simp
  then show ?thesis by simp
qed

theorem pack_roundtrip_witness:
  "\<exists>p. pack_add_all demo_heap demo_pack demo_elems = Some p \<and>
     pack_get_int64 (Some (pk_data p)) (pk_len p) (Some (str ''tran_id'')) = Some 7 \<and>
     pack_get_str (Some (pk_data p)) (pk_len p) (Some (str ''opcode'')) 32 = Some [0x78, 0]"
proof -
  obtain p where p: "pack_add_all demo_heap demo_pack demo_elems = Some p"
    using demo_add_all by blast
  note r = pack_roundtrip [OF demo_pack_new p demo_elems_fit, of 32]
  have "find_elem (str ''tran_id'') PACK_TYPE_INT64 demo_elems = Some (PInt64 7)"
    "find_elem (str ''opcode'') PACK_TYPE_STR demo_elems = Some (PStr [0x78])"
    by (simp_all add: demo_elems_def find_elem_def elem_match_def str_def c_str_def pack_types)
  then show ?thesis
    using p r [of "str ''tran_id''"] r [of "str ''opcode''"] by (simp add: demo_elems_def)
qed

lemma read_string_bound:
  assumes "pack_read_string_safe p n = Some (s, r)" and "n \<noteq> 0"
  shows "length s \<le> unat n \<and> last s = 0"
proof -
  obtain l b where "pack_read_uint32_safe p = Some (l, b)"
    using assms(1) by (auto simp: pack_read_string_safe_def bind_eq_Some_conv)
  then have s: "s = take (if l < n - 1 then unat l else unat n - 1) b @ [0]"
    using assms(1) by (cases "length b < unat l") (simp_all add: pack_read_string_safe_def Let_def)
  have "unat (n - 1) = unat n - 1" "0 < unat n"
    using assms(2) by (simp_all add: unat_minus_one unat_gt_0)
  then show ?thesis unfolding s by (auto simp: word_less_nat_alt min_def)
qed

text \<open>
  Whatever the bytes of the body, a string reader writes a NUL-terminated string of at most
  \<open>out_size\<close> bytes and the data reader at most \<open>out_size\<close> bytes.
\<close>

theorem pack_get_bounded:
  "(case pack_get_str body len field n of None \<Rightarrow> True | Some s \<Rightarrow> length s \<le> unat n \<and> last s = 0) \<and>
   (case pack_get_data body len field n of None \<Rightarrow> True | Some d \<Rightarrow> length d \<le> unat n)"
proof -
  have "length s \<le> unat n \<and> last s = 0" if get: "pack_get_str body len field n = Some s" for s
  proof -
    have "n \<noteq> 0" using get by (auto simp: pack_get_str_def)
    moreover obtain p r where "pack_read_string_safe p n = Some (s, r)"
      using get by (auto simp: pack_get_str_def bind_eq_Some_conv split: if_splits)
    ultimately show ?thesis using read_string_bound by blast
  qed
  moreover have "length d \<le> unat n" if "pack_get_data body len field n = Some d" for d
    using that by (auto simp: pack_get_data_def bind_eq_Some_conv word_less_nat_alt split: if_splits)
  ultimately show ?thesis by (simp split: option.split)
qed

lemma write_bytes_SomeD:
  "pack_write_bytes c bs = Some c' \<Longrightarrow>
     snd c' = snd c + length bs \<and> length (fst c') = length (fst c) \<and> snd c' \<le> length (fst c)"
  by (auto simp: pack_write_bytes_def mem_write_def split: if_splits)

text \<open>
  The size of a data element is computed in 32 bits: when name and data together reach
  4 GiB the reservation is made for the wrapped size and the copy leaves the buffer.
\<close>

theorem pack_add_data_wraps:
  assumes rep: "pack_rep p es" and data: "length d = unat dlen" and pos: "0 < dlen"
    and wrap: "2 ^ 32 \<le> 16 + length nm + length d" and nm: "length nm < 2 ^ 32 - 16"
    and room: "unat (pk_len p) + (16 + length nm + length d - 2 ^ 32) \<le> unat (pk_cap p)"
  shows "pack_add_data h p (Some nm) (Some d) dlen = None"
proof -
  let ?e = "PACK_DATA_SZ nm dlen"
  have b: "unat dlen < 2 ^ 32" "unat (pk_cap p) < 2 ^ 32" using unat_lt32 by simp_all
  have "unat (strlen32 nm + 16) = length nm + 16"
    using nm unat_add32 [of "strlen32 nm" 16] by (simp add: strlen32_def unat_of_nat32)
  moreover have "?e = dlen + (strlen32 nm + 16)" by (simp add: pack_size_sums)
  ultimately have u: "unat ?e = 16 + length nm + length d - 2 ^ 32"
    using wrap data b(1) nm by (simp add: unat_plus_if')
  then have fits: "unat (pk_len p) + unat ?e \<le> unat (pk_cap p)" using room by simp
  then have "\<not> 0xFFFFFFFF - pk_len p < ?e" and "pk_len p + ?e \<le> pk_cap p"
    using b(2) by (simp_all add: word_less_nat_alt word_le_nat_alt unat_sub unat_add32)
  then have res: "pack_reserve h p ?e = Some (0, p)" by (simp add: pack_reserve_def)
  have "length (pk_data p) < 2 ^ 32" using rep b(2) by (simp add: pack_rep_def)
  then have False if "pack_add_data h p (Some nm) (Some d) dlen = Some x" for x
    using that res wrap data pos
    by (auto simp: pack_add_data_def pack_add_with_def pack_write_data_val_def mem_read_def
        pack_write_elem_name_def bind_eq_Some_conv pack_write_uint32_def size_simps
        dest!: write_bytes_SomeD)
  then show ?thesis by (cases "pack_add_data h p (Some nm) (Some d) dlen") auto
qed

theorem pack_add_data_wraps_witness:
  "pack_add_data demo_heap demo_pack (Some []) (Some (replicate (2 ^ 32 - 16) 0)) 0xFFFFFFF0 = None"
  by (rule pack_add_data_wraps [OF pack_new_rep [OF demo_pack_new]]) (simp_all add: demo_pack_def)

end
