(* ===== verification/Byte_Fifo.thy ===== *)
theory Byte_Fifo
  imports Wire_Prelude
begin

text \<open>
  The ring buffer \<open>rt_fifo_t\<close> of \<open>rudp_transport.c\<close> (the byte queues between the R-UDP session
  and the application socket). The interface its clients rely on is the locale \<open>byte_queue\<close>:
  a bounded queue of bytes with all-or-nothing writes; it is interpreted on the ring buffer with
  the contents read off in ring order.
\<close>

section \<open>The ring buffer\<close>

record rt_fifo =
  ff_buf :: "byte list"
  ff_cap :: u32
  ff_head :: u32
  ff_size :: u32

text \<open>\<open>mem\<close> is the result of \<open>malloc(cap)\<close>: a block of \<open>cap\<close> bytes, or NULL.\<close>

definition rt_fifo_init :: "byte list option \<Rightarrow> u32 \<Rightarrow> rt_fifo" where
  "rt_fifo_init mem cap =
     (case mem of
        Some b \<Rightarrow> \<lparr>ff_buf = b, ff_cap = cap, ff_head = 0, ff_size = 0\<rparr>
      | None \<Rightarrow> \<lparr>ff_buf = [], ff_cap = 0, ff_head = 0, ff_size = 0\<rparr>)"

definition rt_fifo_free :: "rt_fifo \<Rightarrow> rt_fifo" where
  "rt_fifo_free f = \<lparr>ff_buf = [], ff_cap = 0, ff_head = 0, ff_size = 0\<rparr>"

definition rt_fifo_avail :: "rt_fifo \<Rightarrow> u32" where
  "rt_fifo_avail f = ff_cap f - ff_size f"

text \<open>Results: \<open>None\<close> is undefined behaviour (an access outside a buffer, or \<open>x % 0\<close>).\<close>

definition rt_fifo_write :: "rt_fifo \<Rightarrow> byte list \<Rightarrow> (int \<times> rt_fifo) option" where
  "rt_fifo_write f data =
     (let len = word_of_nat (length data) in
      if rt_fifo_avail f < len then Some (-1, f)
      else if ff_cap f = 0 then None
      else let off = (ff_head f + ff_size f) mod ff_cap f;
               n1 = ff_cap f - off;
               n1 = (if len < n1 then len else n1) in
        do { b \<leftarrow> mem_write (ff_buf f) (unat off) (take (unat n1) data);
             b \<leftarrow> (if n1 < len then mem_write b 0 (drop (unat n1) data) else Some b);
             Some (0, f\<lparr>ff_buf := b, ff_size := ff_size f + len\<rparr>) })"

definition rt_fifo_peek :: "rt_fifo \<Rightarrow> u32 \<Rightarrow> byte list option" where
  "rt_fifo_peek f len =
     (let len = (if ff_size f < len then ff_size f else len);
          n1 = ff_cap f - ff_head f;
          n1 = (if len < n1 then len else n1) in
      do { a \<leftarrow> mem_read (ff_buf f) (unat (ff_head f)) (unat n1);
           b \<leftarrow> (if n1 < len then mem_read (ff_buf f) 0 (unat (len - n1)) else Some []);
           Some (a @ b) })"

definition rt_fifo_advance :: "rt_fifo \<Rightarrow> u32 \<Rightarrow> rt_fifo option" where
  "rt_fifo_advance f len =
     (let len = (if ff_size f < len then ff_size f else len) in
      if ff_cap f = 0 then None
      else Some (f\<lparr>ff_head := (ff_head f + len) mod ff_cap f, ff_size := ff_size f - len\<rparr>))"

section \<open>Bounded byte queues\<close>

text \<open>
  A queue with invariant \<open>inv\<close>, contents, capacity; \<open>wr\<close> accepts all or nothing, \<open>peek\<close> reads a
  prefix and \<open>advance\<close> drops one.
\<close>

locale byte_queue =
  fixes inv :: "'q \<Rightarrow> bool" and contents :: "'q \<Rightarrow> byte list" and cap :: "'q \<Rightarrow> nat"
    and wr :: "'q \<Rightarrow> byte list \<Rightarrow> (int \<times> 'q) option"
    and peek :: "'q \<Rightarrow> u32 \<Rightarrow> byte list option"
    and advance :: "'q \<Rightarrow> u32 \<Rightarrow> 'q option"
  assumes write_ok: "inv q \<Longrightarrow> length (contents q) + length d \<le> cap q \<Longrightarrow>
      \<exists>q'. wr q d = Some (0, q') \<and> inv q' \<and> contents q' = contents q @ d \<and> cap q' = cap q"
    and write_full: "inv q \<Longrightarrow> length d < 2 ^ 32 \<Longrightarrow> cap q < length (contents q) + length d \<Longrightarrow>
      wr q d = Some (-1, q)"
    and peek_ok: "inv q \<Longrightarrow> peek q n = Some (take (unat n) (contents q))"
    and advance_ok: "inv q \<Longrightarrow>
      \<exists>q'. advance q n = Some q' \<and> inv q' \<and> contents q' = drop (unat n) (contents q) \<and> cap q' = cap q"
    and bounded: "inv q \<Longrightarrow> length (contents q) \<le> cap q"
begin

lemma write_cases:
  assumes "inv q" "length d < 2 ^ 32"
  obtains (stored) q' where "wr q d = Some (0, q')" "inv q'" "contents q' = contents q @ d"
      "cap q' = cap q" "length (contents q) + length d \<le> cap q"
    | (refused) "wr q d = Some (-1, q)" "cap q < length (contents q) + length d"
proof (cases "length (contents q) + length d \<le> cap q")
  case True
  then show thesis using write_ok [OF assms(1)] stored by blast
next
  case False
  then show thesis using write_full [OF assms] refused by simp
qed

text \<open>What is read with \<open>peek\<close> and removed with \<open>advance\<close> comes out in the order it was written.\<close>

lemma peek_advance:
  assumes "inv q"
  shows "\<exists>d q'. peek q n = Some d \<and> advance q n = Some q' \<and> contents q = d @ contents q' \<and>
           length d = min (unat n) (length (contents q))"
proof -
  obtain q' where "advance q n = Some q'" "contents q' = drop (unat n) (contents q)"
    using advance_ok [OF assms] by blast
  then show ?thesis using peek_ok [OF assms, of n] by simp
qed

lemma write_then_read:
  assumes "inv q" "contents q = []" "length d \<le> cap q" "length d \<le> unat n"
  shows "\<exists>q'. wr q d = Some (0, q') \<and> peek q' n = Some d"
proof -
  obtain q' where q': "wr q d = Some (0, q')" "inv q'" "contents q' = contents q @ d"
    using write_ok [OF assms(1), of d] assms(2,3) by auto
  then show ?thesis using peek_ok [OF q'(2), of n] assms(2,4) by simp
qed

end

section \<open>The ring buffer is a byte queue\<close>

definition fifo_inv :: "rt_fifo \<Rightarrow> bool" where
  "fifo_inv f \<longleftrightarrow> length (ff_buf f) = unat (ff_cap f) \<and> 0 < ff_cap f \<and> unat (ff_cap f) < 2 ^ 31 \<and>
     ff_head f < ff_cap f \<and> ff_size f \<le> ff_cap f"

definition ring :: "'a list \<Rightarrow> nat \<Rightarrow> nat \<Rightarrow> 'a list" where
  "ring buf h n = map (\<lambda>i. buf ! ((h + i) mod length buf)) [0..<n]"

definition fifo_contents :: "rt_fifo \<Rightarrow> byte list" where
  "fifo_contents f = ring (ff_buf f) (unat (ff_head f)) (unat (ff_size f))"

definition fifo_cap :: "rt_fifo \<Rightarrow> nat" where
  "fifo_cap f = unat (ff_cap f)"

lemma ring_length [simp]: "length (ring buf h n) = n"
  by (simp add: ring_def)

lemma ring_nth [simp]: "i < n \<Longrightarrow> ring buf h n ! i = buf ! ((h + i) mod length buf)"
  by (simp add: ring_def)

lemma ring_take: "take k (ring buf h n) = ring buf h (min k n)"
  by (simp add: ring_def take_map min_def)

lemma ring_drop: "drop k (ring buf h n) = ring buf ((h + k) mod length buf) (n - k)"
  by (rule nth_equalityI) (simp_all add: mod_simps add.assoc)

lemma ring_split:
  assumes "h < length buf" "n \<le> length buf"
  shows "ring buf h n = take (min n (length buf - h)) (drop h buf) @ take (n - (length buf - h)) buf"
proof (rule nth_equalityI)
  show "length (ring buf h n) =
      length (take (min n (length buf - h)) (drop h buf) @ take (n - (length buf - h)) buf)"
    using assms by simp
  fix i assume "i < length (ring buf h n)"
  then have i: "i < n" by simp
  show "ring buf h n ! i =
      (take (min n (length buf - h)) (drop h buf) @ take (n - (length buf - h)) buf) ! i"
  proof (cases "i < length buf - h")
    case True
    then show ?thesis using i assms by (simp add: nth_append)
  next
    case False
    then have "h + i = (i - (length buf - h)) + length buf" "i - (length buf - h) < length buf"
      using i assms by simp_all
    then have "(h + i) mod length buf = i - (length buf - h)"
      by (metis mod_add_self2 mod_less)
    then show ?thesis using i assms False by (simp add: nth_append)
  qed
qed

text \<open>Storing \<open>d\<close> at ring position \<open>off\<close>, in one or two pieces.\<close>

definition ring_put :: "'a list \<Rightarrow> nat \<Rightarrow> 'a list \<Rightarrow> 'a list" where
  "ring_put buf off d =
     (let n1 = min (length d) (length buf - off);
          b = take off buf @ take n1 d @ drop (off + n1) buf
      in drop n1 d @ drop (length d - n1) b)"

lemma ring_put_length [simp]:
  "off < length buf \<Longrightarrow> length d \<le> length buf \<Longrightarrow> length (ring_put buf off d) = length buf"
  by (auto simp: ring_put_def Let_def min_def)

lemma ring_put_nth:
  assumes "off < length buf" "length d \<le> length buf" "m < length buf"
  shows "ring_put buf off d ! ((off + m) mod length buf) =
           (if m < length d then d ! m else buf ! ((off + m) mod length buf))"
proof (cases "off + m < length buf")
  case True
  then have "(off + m) mod length buf = off + m" by simp
  then show ?thesis using assms True by (auto simp: ring_put_def Let_def nth_append min_def)
next
  case False
  then have "(off + m) mod length buf = off + m - length buf" using assms by (simp add: mod_if)
  then show ?thesis using assms False
    by (auto simp: ring_put_def Let_def nth_append min_def intro!: arg_cong [where f = "(!) d"])
qed

lemma ring_ring_put:
  assumes "h < length buf" "n + length d \<le> length buf"
  shows "ring (ring_put buf ((h + n) mod length buf) d) h (n + length d) = ring buf h n @ d"
proof (rule nth_equalityI)
  let ?off = "(h + n) mod length buf"
  have off: "?off < length buf" using assms(1) by (intro mod_less_divisor) linarith
  have len: "length (ring_put buf ?off d) = length buf" using off assms by simp
  show "length (ring (ring_put buf ?off d) h (n + length d)) = length (ring buf h n @ d)" by simp
  fix i assume "i < length (ring (ring_put buf ?off d) h (n + length d))"
  then have i: "i < n + length d" by simp
  show "ring (ring_put buf ?off d) h (n + length d) ! i = (ring buf h n @ d) ! i"
  proof (cases "i < n")
    case False
    then have "h + i = (h + n) + (i - n)" by simp
    then have m: "(h + i) mod length buf = (?off + (i - n)) mod length buf"
      by (simp only: mod_add_left_eq)
    have "i - n < length buf" "i - n < length d" using i False assms by simp_all
    then show ?thesis using i False ring_put_nth [OF off, of d "i - n"] assms(2)
      by (simp add: len m nth_append)
  next
    case True
    let ?m = "length buf - n + i"
    have "(h + n) + ?m = (h + i) + length buf" using True assms by simp
    then have "(?off + ?m) mod length buf = (h + i) mod length buf"
      by (metis mod_add_left_eq mod_add_self2)
    moreover have "?m < length buf" "\<not> ?m < length d" using True assms by simp_all
    ultimately show ?thesis using i True ring_put_nth [OF off, of d ?m] assms(2)
      by (simp add: len nth_append)
  qed
qed

lemma mem_write_ring:
  assumes "off < length buf" "length d \<le> length buf" "n1 = min (length d) (length buf - off)"
  shows "(mem_write buf off (take n1 d) \<bind>
           (\<lambda>b. (if n1 < length d then mem_write b 0 (drop n1 d) else Some b) \<bind> k)) =
         k (ring_put buf off d)"
  using assms by (auto simp: ring_put_def Let_def min_def)

lemma fifo_inv_unats:
  assumes "fifo_inv f"
  shows "length (ff_buf f) = unat (ff_cap f)" "unat (ff_head f) < unat (ff_cap f)"
    "unat (ff_size f) \<le> unat (ff_cap f)" "0 < unat (ff_cap f)"
    "unat (ff_head f + ff_size f) = unat (ff_head f) + unat (ff_size f)"
    "unat (ff_cap f - ff_size f) = unat (ff_cap f) - unat (ff_size f)"
    "unat (ff_cap f - ff_head f) = unat (ff_cap f) - unat (ff_head f)"
    "ff_cap f \<noteq> 0"
  using assms
  by (auto simp: fifo_inv_def word_less_nat_alt word_le_nat_alt unat_add32 unat_sub)

lemma fifo_write_ok:
  assumes inv: "fifo_inv f" and room: "length (fifo_contents f) + length d \<le> fifo_cap f"
  shows "\<exists>f'. rt_fifo_write f d = Some (0, f') \<and> fifo_inv f' \<and>
           fifo_contents f' = fifo_contents f @ d \<and> fifo_cap f' = fifo_cap f"
proof -
  note u = fifo_inv_unats [OF inv]
  let ?len = "word_of_nat (length d) :: u32"
  let ?off = "(ff_head f + ff_size f) mod ff_cap f"
  define n1 where "n1 = (if ?len < ff_cap f - ?off then ?len else ff_cap f - ?off)"
  have room': "unat (ff_size f) + length d \<le> unat (ff_cap f)"
    using room by (simp add: fifo_contents_def fifo_cap_def)
  then have len: "unat ?len = length d" using unat_lt32 [of "ff_cap f"] by (simp add: unat_of_nat32)
  have off: "unat ?off = (unat (ff_head f) + unat (ff_size f)) mod length (ff_buf f)"
    using u by (simp add: unat_mod)
  have offlt: "unat ?off < length (ff_buf f)" using u off by simp
  then have "?off \<le> ff_cap f" using u(1) by (simp add: word_le_nat_alt)
  then have n1: "unat n1 = min (length d) (length (ff_buf f) - unat ?off)"
    using len u(1) by (auto simp: n1_def word_less_nat_alt unat_sub)
  have "\<not> rt_fifo_avail f < ?len"
    using room' len u(6) by (simp add: rt_fifo_avail_def word_less_nat_alt)
  moreover have "n1 < ?len \<longleftrightarrow> unat n1 < length d" using len by (simp add: word_less_nat_alt)
  moreover have "length d \<le> length (ff_buf f)" using room' u(1) by simp
  ultimately have w: "rt_fifo_write f d = Some (0, f\<lparr>ff_buf := ring_put (ff_buf f) (unat ?off) d,
      ff_size := ff_size f + ?len\<rparr>)"
    unfolding rt_fifo_write_def Let_def n1_def [symmetric]
    using mem_write_ring [OF offlt _ n1] u(8) by simp
  have sz: "unat (ff_size f + ?len) = unat (ff_size f) + length d"
    using room' len unat_lt32 [of "ff_cap f"] by (simp add: unat_add32)
  have "fifo_inv (f\<lparr>ff_buf := ring_put (ff_buf f) (unat ?off) d, ff_size := ff_size f + ?len\<rparr>)"
    using inv u offlt room' sz by (simp add: fifo_inv_def word_le_nat_alt)
  moreover have "fifo_contents (f\<lparr>ff_buf := ring_put (ff_buf f) (unat ?off) d,
      ff_size := ff_size f + ?len\<rparr>) = fifo_contents f @ d"
    using ring_ring_put [of "unat (ff_head f)" "ff_buf f" "unat (ff_size f)" d] room' u(1,2) off
    by (simp add: fifo_contents_def sz)
  ultimately show ?thesis using w by (simp add: fifo_cap_def)
qed

lemma fifo_write_full:
  assumes inv: "fifo_inv f" and d: "length d < 2 ^ 32"
    and full: "fifo_cap f < length (fifo_contents f) + length d"
  shows "rt_fifo_write f d = Some (-1, f)"
proof -
  have "unat (ff_cap f - ff_size f) < unat (word_of_nat (length d) :: u32)"
    using full fifo_inv_unats [OF inv] unat_of_nat32 [OF d]
    by (simp add: fifo_contents_def fifo_cap_def)
  then show ?thesis by (simp add: rt_fifo_write_def rt_fifo_avail_def word_less_nat_alt)
qed

lemma fifo_peek_ok:
  assumes inv: "fifo_inv f"
  shows "rt_fifo_peek f n = Some (take (unat n) (fifo_contents f))"
proof -
  note u = fifo_inv_unats [OF inv]
  define len where "len = (if ff_size f < n then ff_size f else n)"
  define n1 where "n1 = (if len < ff_cap f - ff_head f then len else ff_cap f - ff_head f)"
  have len: "unat len = min (unat n) (unat (ff_size f))"
    by (auto simp: len_def word_less_nat_alt)
  have n1: "unat n1 = min (unat len) (length (ff_buf f) - unat (ff_head f))"
    using u by (auto simp: n1_def word_less_nat_alt)
  have "n1 \<le> len" by (auto simp: n1_def)
  then have rest: "unat (len - n1) = unat len - (length (ff_buf f) - unat (ff_head f))"
    using n1 by (simp add: unat_sub min_def)
  have b1: "unat (ff_head f) + unat n1 \<le> length (ff_buf f)" using n1 u(1,2) by linarith
  have b2: "unat (len - n1) \<le> length (ff_buf f)" using rest len u(1,3) by linarith
  have "n1 < len \<longleftrightarrow> unat (len - n1) \<noteq> 0"
    using n1 rest unfolding word_less_nat_alt by linarith
  then have "rt_fifo_peek f n = Some (take (unat n1) (drop (unat (ff_head f)) (ff_buf f)) @
      take (unat (len - n1)) (ff_buf f))"
    unfolding rt_fifo_peek_def Let_def len_def [symmetric] n1_def [symmetric] mem_read_def
    using b1 b2 by simp
  moreover have "take (unat n1) (drop (unat (ff_head f)) (ff_buf f)) @ take (unat (len - n1)) (ff_buf f) =
      ring (ff_buf f) (unat (ff_head f)) (unat len)"
  proof -
    have "unat len \<le> length (ff_buf f)" using u len by simp
    then show ?thesis
      using ring_split [of "unat (ff_head f)" "ff_buf f" "unat len"] u(1,2) by (simp only: n1 rest)
  qed
  ultimately show ?thesis by (simp add: fifo_contents_def ring_take len)
qed

lemma fifo_advance_ok:
  assumes inv: "fifo_inv f"
  shows "\<exists>f'. rt_fifo_advance f n = Some f' \<and> fifo_inv f' \<and>
           fifo_contents f' = drop (unat n) (fifo_contents f) \<and> fifo_cap f' = fifo_cap f"
proof -
  note u = fifo_inv_unats [OF inv]
  define len where "len = (if ff_size f < n then ff_size f else n)"
  have len: "unat len = min (unat n) (unat (ff_size f))"
    by (auto simp: len_def word_less_nat_alt)
  have "unat (ff_head f + len) = unat (ff_head f) + unat len"
  proof (rule unat_add32)
    have "unat len \<le> unat (ff_size f)" using len by simp
    then show "unat (ff_head f) + unat len < 2 ^ 32" using u(2,3) inv by (simp add: fifo_inv_def)
  qed
  then have h: "unat ((ff_head f + len) mod ff_cap f) = (unat (ff_head f) + unat len) mod length (ff_buf f)"
    using u by (simp add: unat_mod)
  have s: "unat (ff_size f - len) = unat (ff_size f) - unat n"
    using len by (simp add: unat_sub word_le_nat_alt min_def)
  let ?f = "f\<lparr>ff_head := (ff_head f + len) mod ff_cap f, ff_size := ff_size f - len\<rparr>"
  have r: "ring (ff_buf f) ((unat (ff_head f) + unat len) mod length (ff_buf f)) (unat (ff_size f) - unat n) =
      ring (ff_buf f) ((unat (ff_head f) + unat n) mod length (ff_buf f)) (unat (ff_size f) - unat n)"
    using len by (cases "unat n \<le> unat (ff_size f)") (simp_all add: ring_def)
  have "rt_fifo_advance f n = Some ?f" using u by (simp add: rt_fifo_advance_def len_def Let_def)
  moreover have "fifo_inv ?f" using inv u h s by (simp add: fifo_inv_def word_less_nat_alt word_le_nat_alt)
  moreover have "fifo_contents ?f = drop (unat n) (fifo_contents f)"
    by (simp add: fifo_contents_def ring_drop h s r)
  ultimately show ?thesis by (simp add: fifo_cap_def)
qed

interpretation rtf: byte_queue fifo_inv fifo_contents fifo_cap rt_fifo_write rt_fifo_peek rt_fifo_advance
proof unfold_locales
  show "length (fifo_contents q) \<le> fifo_cap q" if "fifo_inv q" for q
    using fifo_inv_unats [OF that] by (simp add: fifo_contents_def fifo_cap_def)
qed (fact fifo_write_ok fifo_write_full fifo_peek_ok fifo_advance_ok)+

lemma fifo_init_inv:
  assumes "length b = unat c" "0 < c" "unat c < 2 ^ 31"
  shows "fifo_inv (rt_fifo_init (Some b) c) \<and> fifo_contents (rt_fifo_init (Some b) c) = []"
  using assms by (simp add: rt_fifo_init_def fifo_inv_def fifo_contents_def ring_def)

lemma fifo_size_contents: "length (fifo_contents f) = unat (ff_size f)"
  by (simp add: fifo_contents_def)

section \<open>Properties\<close>

text \<open>
  C30. The ring buffer refines a bounded list queue: a write is stored whole at the end or refused
  with the buffer unchanged, exactly when it does not fit; peek returns a prefix of the queue and
  advance removes it; no operation leaves the buffer and all keep the ring invariant.
\<close>

theorem rt_fifo_refines_queue:
  assumes "fifo_inv f" and "length d < 2 ^ 32"
  shows "(\<exists>rc f'. rt_fifo_write f d = Some (rc, f') \<and> fifo_inv f' \<and>
            (if length (fifo_contents f) + length d \<le> fifo_cap f
             then rc = 0 \<and> fifo_contents f' = fifo_contents f @ d else rc = -1 \<and> f' = f)) \<and>
         (\<exists>xs f'. rt_fifo_peek f n = Some xs \<and> rt_fifo_advance f n = Some f' \<and> fifo_inv f' \<and>
            xs = take (unat n) (fifo_contents f) \<and> fifo_contents f = xs @ fifo_contents f')"
proof
  show "\<exists>rc f'. rt_fifo_write f d = Some (rc, f') \<and> fifo_inv f' \<and>
            (if length (fifo_contents f) + length d \<le> fifo_cap f
             then rc = 0 \<and> fifo_contents f' = fifo_contents f @ d else rc = -1 \<and> f' = f)"
    using assms by (cases rule: rtf.write_cases) (auto simp: assms(1))
  show "\<exists>xs f'. rt_fifo_peek f n = Some xs \<and> rt_fifo_advance f n = Some f' \<and> fifo_inv f' \<and>
            xs = take (unat n) (fifo_contents f) \<and> fifo_contents f = xs @ fifo_contents f'"
    using rtf.peek_ok [OF assms(1), of n] rtf.advance_ok [OF assms(1), of n] by auto
qed

definition demo_fifo :: rt_fifo where
  "demo_fifo = \<lparr>ff_buf = [1, 2, 3, 4], ff_cap = 4, ff_head = 3, ff_size = 2\<rparr>"

theorem rt_fifo_refines_queue_witness:
  "fifo_contents demo_fifo = [4, 1] \<and>
   (\<exists>f'. rt_fifo_write demo_fifo [7, 8] = Some (0, f') \<and> fifo_contents f' = [4, 1, 7, 8])"
proof -
  have c: "fifo_contents demo_fifo = [4, 1]"
    by (simp add: fifo_contents_def ring_def demo_fifo_def upt_rec)
  have "fifo_inv demo_fifo" by (simp add: fifo_inv_def demo_fifo_def)
  moreover have "fifo_cap demo_fifo = 4" by (simp add: fifo_cap_def demo_fifo_def)
  ultimately show ?thesis using rt_fifo_refines_queue [of demo_fifo "[7, 8]" 0] c by auto
qed

end
