(* ===== verification/Crypto.thy ===== *)
theory Crypto
  imports Wire_Prelude "HOL-Library.Multiset"
begin

text \<open>
  The cryptographic primitives the client implements itself in \<open>aes_wrapper.c\<close>: the RC4 stream
  cipher (\<open>rc4_crypt\<close>, used by both R-UDP layers) and the SHA-0 hash of the password chain
  (\<open>sha0_hash\<close>); and the zlib wrappers of \<open>compress.c\<close>, with zlib as a parameter.
  What the packet layers need of a cipher is the locale \<open>stream_cipher\<close>, interpreted on
  \<open>rc4_crypt\<close>. A reference SHA-0 in the style of its standard (recursive message schedule,
  rotations) is the specification of \<open>sha0_hash\<close>.
\<close>

section \<open>RC4\<close>

text \<open>The S-box is the array \<open>sbox\<close>; \<open>x & 0xFF\<close> on an unsigned sum is \<open>x mod 256\<close>.\<close>

definition rc4_swap :: "byte list \<Rightarrow> nat \<Rightarrow> nat \<Rightarrow> byte list" where
  "rc4_swap sbox i j = (let tmp = sbox ! i in (sbox[i := sbox ! j])[j := tmp])"

definition rc4_sbox_init :: "byte list" where
  "rc4_sbox_init = map word_of_nat [0..<256]"

definition rc4_key_step :: "byte list \<Rightarrow> nat \<times> byte list \<Rightarrow> nat \<Rightarrow> nat \<times> byte list" where
  "rc4_key_step key st i =
     (let (j, sbox) = st;
          j = (j + unat (sbox ! i) + unat (key ! (i mod length key))) mod 256
      in (j, rc4_swap sbox i j))"

definition rc4_key_schedule :: "byte list \<Rightarrow> byte list" where
  "rc4_key_schedule key = snd (foldl (rc4_key_step key) (0, rc4_sbox_init) [0..<256])"

fun rc4_stream :: "byte list \<Rightarrow> nat \<Rightarrow> nat \<Rightarrow> byte list \<Rightarrow> byte list" where
  "rc4_stream sbox i j [] = []"
| "rc4_stream sbox i j (x # xs) =
     (let i = (i + 1) mod 256;
          j = (j + unat (sbox ! i)) mod 256;
          sbox = rc4_swap sbox i j
      in (x XOR sbox ! ((unat (sbox ! i) + unat (sbox ! j)) mod 256)) # rc4_stream sbox i j xs)"

text \<open>An empty key (or a NULL pointer) leaves the data as it is.\<close>

definition rc4_crypt :: "byte list \<Rightarrow> byte list \<Rightarrow> byte list" where
  "rc4_crypt key data =
     (if key = [] then data else rc4_stream (rc4_key_schedule key) 0 0 data)"

section \<open>SHA-0\<close>

definition sha0_padded :: "nat \<Rightarrow> nat" where
  "sha0_padded mlen = ((mlen + 8) div 64 + 1) * 64"

fun sha0_put_bits :: "nat \<Rightarrow> nat \<Rightarrow> u64 \<Rightarrow> byte list \<Rightarrow> byte list option" where
  "sha0_put_bits 0 i bits buf = Some buf"
| "sha0_put_bits (Suc n) i bits buf =
     do { b \<leftarrow> mem_write buf (length buf - 1 - i) [ucast (drop_bit (8 * i) bits)];
          sha0_put_bits n (i + 1) bits b }"

definition sha0_pad :: "byte list \<Rightarrow> byte list option" where
  "sha0_pad data =
     (let mlen = length data; buf = replicate (sha0_padded mlen) 0 in
      do { buf \<leftarrow> mem_write buf 0 data;
           buf \<leftarrow> mem_write buf mlen [0x80];
           sha0_put_bits 8 0 (word_of_nat mlen * 8) buf })"

definition sha0_load_block :: "byte list \<Rightarrow> nat \<Rightarrow> u32 list" where
  "sha0_load_block buf off = map (\<lambda>i. rd32 (drop (off + i * 4) buf)) [0..<16]"

fun sha0_expand :: "nat \<Rightarrow> u32 list \<Rightarrow> u32 list" where
  "sha0_expand 0 w = w"
| "sha0_expand (Suc n) w =
     (let i = length w in
      sha0_expand n (w @ [w ! (i - 3) XOR w ! (i - 8) XOR w ! (i - 14) XOR w ! (i - 16)]))"

type_synonym sha0_state = "u32 \<times> u32 \<times> u32 \<times> u32 \<times> u32"

definition sha0_init :: sha0_state where
  "sha0_init = (0x67452301, 0xEFCDAB89, 0x98BADCFE, 0x10325476, 0xC3D2E1F0)"

definition sha0_round :: "u32 list \<Rightarrow> sha0_state \<Rightarrow> nat \<Rightarrow> sha0_state" where
  "sha0_round w st i =
     (let (a, b, c, d, e) = st;
          (f, k) =
            (if i < 20 then ((b AND c) OR (NOT b AND d), 0x5A827999)
             else if i < 40 then (b XOR c XOR d, 0x6ED9EBA1)
             else if i < 60 then ((b AND c) OR (b AND d) OR (c AND d), 0x8F1BBCDC)
             else (b XOR c XOR d, 0xCA62C1D6));
          t = (push_bit 5 a OR drop_bit 27 a) + f + e + k + w ! i
      in (t, a, push_bit 30 b OR drop_bit 2 b, c, d))"

definition sha0_add :: "sha0_state \<Rightarrow> sha0_state \<Rightarrow> sha0_state" where
  "sha0_add h s =
     (case (h, s) of ((h0, h1, h2, h3, h4), (a, b, c, d, e)) \<Rightarrow>
        (h0 + a, h1 + b, h2 + c, h3 + d, h4 + e))"

definition sha0_block :: "byte list \<Rightarrow> sha0_state \<Rightarrow> nat \<Rightarrow> sha0_state" where
  "sha0_block buf h off =
     sha0_add h (foldl (sha0_round (sha0_expand 64 (sha0_load_block buf off))) h [0..<80])"

definition sha0_output :: "sha0_state \<Rightarrow> byte list" where
  "sha0_output h =
     (case h of (h0, h1, h2, h3, h4) \<Rightarrow> be32 h0 @ be32 h1 @ be32 h2 @ be32 h3 @ be32 h4)"

text \<open>
  \<open>sha0_hash ok data hash\<close>: \<open>ok\<close> is whether \<open>calloc\<close> succeeds; on failure the caller's buffer
  keeps its old contents. \<open>None\<close> would be an access outside the padded buffer.
\<close>

definition sha0_hash :: "bool \<Rightarrow> byte list \<Rightarrow> byte list \<Rightarrow> byte list option" where
  "sha0_hash calloc_ok data hash =
     (if \<not> calloc_ok then Some hash
      else do { buf \<leftarrow> sha0_pad data;
                Some (sha0_output (foldl (sha0_block buf) sha0_init
                  (map (\<lambda>k. k * 64) [0..<length buf div 64]))) })"

section \<open>Compression wrappers\<close>

text \<open>
  zlib is a parameter: \<open>compress2 dest_cap src\<close> and \<open>uncompress dest_cap src\<close> are the bytes
  written, or \<open>None\<close> for any result other than \<open>Z_OK\<close>. NULL arguments (-1) are \<open>None\<close> pointers.
\<close>

datatype zresult = ZOk "byte list" | ZErr int

definition z_wrap :: "(nat \<Rightarrow> byte list \<Rightarrow> byte list option) \<Rightarrow> byte list option \<Rightarrow> nat option \<Rightarrow> zresult" where
  "z_wrap z src dest =
     (case (src, dest) of
        (Some s, Some cap) \<Rightarrow>
          if s = [] then ZOk []
          else (case z cap s of None \<Rightarrow> ZErr (-2) | Some out \<Rightarrow> ZOk out)
      | _ \<Rightarrow> ZErr (-1))"

definition compress_data ::
  "(nat \<Rightarrow> byte list \<Rightarrow> byte list option) \<Rightarrow> byte list option \<Rightarrow> nat option \<Rightarrow> zresult" where
  "compress_data compress2 src dest = z_wrap compress2 src dest"

definition uncompress_data ::
  "(nat \<Rightarrow> byte list \<Rightarrow> byte list option) \<Rightarrow> byte list option \<Rightarrow> nat option \<Rightarrow> zresult" where
  "uncompress_data uncompress src dest = z_wrap uncompress src dest"

section \<open>Reference SHA-0\<close>

definition spec_pad :: "byte list \<Rightarrow> byte list" where
  "spec_pad m = m @ [0x80] @ replicate ((119 - length m mod 64) mod 64) 0 @ be64 (word_of_nat (8 * length m))"

fun spec_w :: "u32 list \<Rightarrow> nat \<Rightarrow> u32" where
  "spec_w M t = (if t < 16 then M ! t
     else spec_w M (t - 3) XOR spec_w M (t - 8) XOR spec_w M (t - 14) XOR spec_w M (t - 16))"

declare spec_w.simps [simp del]

definition spec_f :: "nat \<Rightarrow> u32 \<Rightarrow> u32 \<Rightarrow> u32 \<Rightarrow> u32" where
  "spec_f t x y z =
     (if t div 20 = 0 then (x AND y) XOR (NOT x AND z)
      else if t div 20 = 2 then (x AND y) XOR (x AND z) XOR (y AND z)
      else x XOR y XOR z)"

definition spec_k :: "nat \<Rightarrow> u32" where
  "spec_k t = [0x5A827999, 0x6ED9EBA1, 0x8F1BBCDC, 0xCA62C1D6] ! (t div 20)"

fun spec_rounds :: "u32 list \<Rightarrow> nat \<Rightarrow> sha0_state \<Rightarrow> sha0_state" where
  "spec_rounds M 0 s = s"
| "spec_rounds M (Suc t) s =
     (case spec_rounds M t s of (a, b, c, d, e) \<Rightarrow>
        (word_rotl 5 a + spec_f t b c d + e + spec_k t + spec_w M t, a, word_rotl 30 b, c, d))"

fun spec_blocks :: "sha0_state \<Rightarrow> byte list list \<Rightarrow> sha0_state" where
  "spec_blocks h [] = h"
| "spec_blocks h (B # Bs) =
     spec_blocks (sha0_add h (spec_rounds (map (\<lambda>i. rd32 (drop (4 * i) B)) [0..<16]) 80 h)) Bs"

definition spec_sha0 :: "byte list \<Rightarrow> byte list" where
  "spec_sha0 m =
     (let p = spec_pad m in
      sha0_output (spec_blocks sha0_init
        (map (\<lambda>k. take 64 (drop (64 * k) p)) [0..<length p div 64])))"

section \<open>Stream ciphers\<close>

text \<open>What the packet layers rely on: encryption keeps the length and undoes itself.\<close>

locale stream_cipher =
  fixes crypt :: "byte list \<Rightarrow> byte list \<Rightarrow> byte list"
  assumes length_crypt: "length (crypt key xs) = length xs"
    and crypt_crypt: "crypt key (crypt key xs) = xs"
begin

lemma crypt_inj: "crypt key xs = crypt key ys \<longleftrightarrow> xs = ys"
  by (metis crypt_crypt)

lemma crypt_eq_iff: "crypt key xs = ys \<longleftrightarrow> xs = crypt key ys"
  by (metis crypt_crypt)

lemma crypt_Nil: "crypt key [] = []"
  using length_crypt [of key "[]"] by simp

end

lemma rc4_stream_length: "length (rc4_stream sbox i j xs) = length xs"
  by (induction sbox i j xs rule: rc4_stream.induct) (simp_all add: Let_def)

lemma rc4_stream_twice: "rc4_stream sbox i j (rc4_stream sbox i j xs) = xs"
  by (induction sbox i j xs rule: rc4_stream.induct) (simp_all add: Let_def xor.assoc)

interpretation rc4: stream_cipher rc4_crypt
  by unfold_locales (simp_all add: rc4_crypt_def rc4_stream_length rc4_stream_twice)

declare rc4.length_crypt [size_simps] rc4.crypt_crypt [wire_simps]

lemma rc4_stream_take: "take n (rc4_stream sbox i j xs) = rc4_stream sbox i j (take n xs)"
  by (induction sbox i j xs arbitrary: n rule: rc4_stream.induct)
    (simp_all add: Let_def take_Cons split: nat.split)

lemma rc4_crypt_take: "take n (rc4_crypt key xs) = rc4_crypt key (take n xs)"
  by (simp add: rc4_crypt_def rc4_stream_take)

text \<open>The S-box stays a permutation of all byte values, so every index used is inside it.\<close>

definition is_sbox :: "byte list \<Rightarrow> bool" where
  "is_sbox sbox \<longleftrightarrow> mset sbox = mset rc4_sbox_init"

lemma is_sbox_length: "is_sbox sbox \<Longrightarrow> length sbox = 256"
  unfolding is_sbox_def by (drule mset_eq_length) (simp add: rc4_sbox_init_def)

lemma is_sbox_swap [safe_intros]:
  assumes "is_sbox sbox" "i < 256" "j < 256"
  shows "is_sbox (rc4_swap sbox i j)"
  using assms is_sbox_length [OF assms(1)]
  by (simp add: is_sbox_def rc4_swap_def Let_def mset_swap)

lemma rc4_key_step_sbox [safe_intros]:
  "is_sbox (snd st) \<Longrightarrow> i < 256 \<Longrightarrow> is_sbox (snd (rc4_key_step key st i))"
  by (cases st) (simp add: rc4_key_step_def Let_def is_sbox_swap)

lemma foldl_key_step_sbox:
  "is_sbox (snd st) \<Longrightarrow> list_all (\<lambda>i. i < 256) is \<Longrightarrow> is_sbox (snd (foldl (rc4_key_step key) st is))"
  by (induction "is" arbitrary: st) (simp_all add: rc4_key_step_sbox)

lemma rc4_key_schedule_sbox: "is_sbox (rc4_key_schedule key)"
  unfolding rc4_key_schedule_def
  by (rule foldl_key_step_sbox) (simp_all add: is_sbox_def list_all_iff)

lemma sbox_init_distinct: "distinct rc4_sbox_init"
proof -
  have "inj_on (word_of_nat :: nat \<Rightarrow> byte) {0..<256}"
  proof (rule inj_onI)
    fix x y :: nat assume "x \<in> {0..<256}" "y \<in> {0..<256}" "(word_of_nat x :: byte) = word_of_nat y"
    then show "x = y" by (auto simp: unsigned_of_nat take_bit_nat_eq_self dest!: arg_cong [where f = unat])
  qed
  then show ?thesis by (simp add: rc4_sbox_init_def distinct_map)
qed

lemma is_sbox_perm:
  assumes "is_sbox sbox"
  shows "length sbox = 256 \<and> distinct sbox \<and> set sbox = UNIV"
proof -
  have d: "distinct sbox"
    using assms sbox_init_distinct mset_eq_imp_distinct_iff by (metis is_sbox_def)
  have l: "length sbox = 256" using assms by (rule is_sbox_length)
  have "card (set sbox) = card (UNIV :: byte set)"
    using distinct_card [OF d] l by (simp add: card_word)
  then have "set sbox = UNIV" by (intro card_subset_eq) simp_all
  with d l show ?thesis by simp
qed

section \<open>The hash is SHA-0\<close>

lemma sha0_put_bits_spec:
  assumes "length t = 8"
  shows "sha0_put_bits 8 0 bits (pre @ t) = Some (pre @ be64 bits)"
proof -
  obtain t0 t1 t2 t3 t4 t5 t6 t7 where "t = [t0, t1, t2, t3, t4, t5, t6, t7]"
    using assms by (auto simp: length_Suc_conv numeral_eq_Suc)
  moreover have "sha0_put_bits 8 0 bits b = sha0_put_bits (Suc (Suc (Suc (Suc (Suc (Suc (Suc (Suc 0)))))))) 0 bits b"
    for b by (simp add: numeral_eq_Suc)
  ultimately show ?thesis
    by (simp add: mem_write_def be64_def)
qed

lemma sha0_padded_eq: "sha0_padded m = m + 1 + (119 - m mod 64) mod 64 + 8"
proof -
  define q r where "q = m div 64" and "r = m mod 64"
  then have m: "m = 64 * q + r" "r < 64" by simp_all
  show ?thesis
  proof (cases "r \<le> 55")
    case True
    then have "119 - r = (55 - r) + 64" by simp
    then have "(119 - r) mod 64 = (55 - r) mod 64" by (simp only: mod_add_self2)
    then have "(m + 8) div 64 = q" "(119 - m mod 64) mod 64 = 55 - r"
      using m True by (simp_all add: r_def [symmetric])
    then show ?thesis using m True by (simp add: sha0_padded_def)
  next
    case False
    then have "(m + 8) div 64 = Suc q" "(119 - m mod 64) mod 64 = 119 - r"
      using m by (simp_all add: r_def [symmetric])
    then show ?thesis using m False by (simp add: sha0_padded_def)
  qed
qed

lemma sha0_pad_spec: "sha0_pad m = Some (spec_pad m)"
proof -
  define z where "z = (119 - length m mod 64) mod 64"
  let ?n = "length m"
  have p: "sha0_padded ?n = ?n + (1 + (z + 8))" by (simp add: sha0_padded_eq z_def)
  have 1: "mem_write (replicate (sha0_padded ?n) 0) 0 m = Some (m @ replicate (1 + (z + 8)) 0)"
    by (simp add: p)
  have 2: "mem_write (m @ replicate (1 + (z + 8)) 0) ?n [0x80] =
      Some ((m @ [0x80] @ replicate z 0) @ replicate 8 0)"
    using replicate_add [of z 8 "0 :: byte"] by (simp add: add.commute [of 8])
  have 3: "sha0_put_bits 8 0 b ((m @ [0x80] @ replicate z 0) @ replicate 8 0) =
      Some ((m @ [0x80] @ replicate z 0) @ be64 b)" for b
    by (rule sha0_put_bits_spec) simp
  show ?thesis
    unfolding sha0_pad_def Let_def 1 2 Option.bind.bind_lunit 3
    by (simp add: spec_pad_def z_def mult.commute [of 8])
qed

lemma spec_pad_length: "length (spec_pad m) = sha0_padded (length m)"
  by (simp add: spec_pad_def sha0_padded_eq size_simps)

lemma sha0_expand_spec:
  assumes "16 \<le> length w" "\<And>t. t < length w \<Longrightarrow> w ! t = spec_w M t" "t < length w + n"
  shows "sha0_expand n w ! t = spec_w M t"
  using assms
proof (induction n arbitrary: w)
  case 0
  then show ?case by simp
next
  case (Suc n)
  let ?i = "length w"
  let ?w = "w @ [w ! (?i - 3) XOR w ! (?i - 8) XOR w ! (?i - 14) XOR w ! (?i - 16)]"
  have "?w ! t = spec_w M t" if "t < length ?w" for t
    using that Suc.prems(1,2) spec_w.simps [of M ?i] by (cases "t = ?i") (auto simp: nth_append)
  then show ?case using Suc.IH [of ?w] Suc.prems by (simp add: Let_def)
qed

lemma word_rotl_shifts:
  assumes "k < 32"
  shows "word_rotl k (a :: u32) = push_bit k a OR drop_bit (32 - k) a"
proof (rule bit_word_eqI)
  fix n assume n: "n < LENGTH(32)"
  show "bit (word_rotl k a) n = bit (push_bit k a OR drop_bit (32 - k) a) n"
  proof (cases "n < k")
    case True
    then have "(n + (32 - k)) mod 32 = 32 - k + n" using assms by simp
    then show ?thesis using n assms True by (simp add: bit_simps bit_word_rotl_iff)
  next
    case False
    then have "n + (32 - k) = (n - k) + 32" using assms by simp
    then have "(n + (32 - k)) mod 32 = n - k" using n by (simp only: mod_add_self2) simp
    moreover have "\<not> bit a (32 - k + n)" using False assms bit_imp_le_length [of a "32 - k + n"] by auto
    ultimately show ?thesis using n assms False by (simp add: bit_simps bit_word_rotl_iff)
  qed
qed

lemma rotl5: "word_rotl 5 (a :: u32) = push_bit 5 a OR drop_bit 27 a"
  using word_rotl_shifts [of 5 a] by simp

lemma rotl30: "word_rotl 30 (a :: u32) = push_bit 30 a OR drop_bit 2 a"
  using word_rotl_shifts [of 30 a] by simp

lemma sha0_choice: "(x AND y) OR (NOT x AND z) = (x AND y) XOR (NOT x AND (z :: u32))"
  by (rule bit_word_eqI) (auto simp: bit_simps)

lemma sha0_majority:
  "(x AND y) OR (x AND z) OR (y AND z) = (x AND y) XOR (x AND z) XOR (y AND (z :: u32))"
  by (rule bit_word_eqI) (auto simp: bit_simps)

lemma sha0_rounds_spec:
  assumes "\<And>i. i < 80 \<Longrightarrow> w ! i = spec_w M i" "t \<le> 80"
  shows "foldl (sha0_round w) h [0..<t] = spec_rounds M t h"
  using assms(2)
proof (induction t)
  case 0
  then show ?case by simp
next
  case (Suc t)
  then consider "t < 20" "t div 20 = 0" | "20 \<le> t" "t < 40" "t div 20 = 1"
    | "40 \<le> t" "t < 60" "t div 20 = 2" | "60 \<le> t" "t div 20 = 3"
    by fastforce
  then show ?case using Suc assms(1) [of t]
    by cases (simp_all add: sha0_round_def spec_f_def spec_k_def rotl5 rotl30 sha0_choice
        sha0_majority Let_def split: prod.splits)
qed

lemma foldl_blocks_spec:
  assumes "list_all (\<lambda>k. 64 * k + 64 \<le> length p) ks"
  shows "foldl (sha0_block p) h (map (\<lambda>k. k * 64) ks) =
           spec_blocks h (map (\<lambda>k. take 64 (drop (64 * k) p)) ks)"
  using assms
proof (induction ks arbitrary: h)
  case Nil
  then show ?case by simp
next
  case (Cons k ks)
  let ?B = "take 64 (drop (64 * k) p)"
  let ?M = "map (\<lambda>i. rd32 (drop (4 * i) ?B)) [0..<16]"
  have "rd32 (drop (4 * i) ?B) = rd32 (drop (k * 64 + i * 4) p)" if "i < 16" for i
    using that Cons.prems by (simp add: rd32_def drop_take add.commute mult.commute)
  then have M: "sha0_load_block p (k * 64) = ?M" by (simp add: sha0_load_block_def)
  have w: "sha0_expand 64 ?M ! i = spec_w ?M i" if "i < 80" for i
    using that by (intro sha0_expand_spec) (simp_all add: spec_w.simps)
  have "sha0_block p h (k * 64) = sha0_add h (spec_rounds ?M 80 h)"
    unfolding sha0_block_def M using sha0_rounds_spec [OF w, of 80] by simp
  then show ?case using Cons by simp
qed

lemma sha0_output_length [size_simps]: "length (sha0_output h) = 20"
  by (simp add: sha0_output_def size_simps split: prod.split)

lemma sha0_hash_spec: "sha0_hash True m out = Some (spec_sha0 m)"
proof -
  let ?p = "spec_pad m"
  have "list_all (\<lambda>k. 64 * k + 64 \<le> length ?p) [0..<length ?p div 64]"
    by (auto simp: list_all_iff)
  from foldl_blocks_spec [OF this] show ?thesis
    by (simp add: sha0_hash_def sha0_pad_spec spec_sha0_def Let_def)
qed

section \<open>Properties\<close>


text \<open>
  C39. \<open>sha0_hash\<close> never leaves its padded buffer and computes SHA-0: with memory it returns the
  20 bytes of the reference hash, without memory the output buffer is unchanged.
\<close>

theorem sha0_hash_correct:
  "sha0_hash ok data out = Some (if ok then spec_sha0 data else out) \<and>
   length (spec_sha0 data) = 20"
  by (cases ok) (simp_all add: sha0_hash_spec sha0_output_length spec_sha0_def Let_def,
      simp_all add: sha0_hash_def)

end
