(* ===== verification/Inet_Checksum.thy ===== *)
theory Inet_Checksum
  imports Wire_Prelude
begin

text \<open>
  The Internet checksum as the client computes it: the carry folding loop of the ICMP framing in
  \<open>rudp_transport.c\<close> (\<open>rt_send_udp\<close>) and the two-step folding of \<open>ip_checksum\<close> in
  \<open>dhcp_client.c\<close>. The interface is the locale \<open>carry_fold\<close> (a 16-bit value congruent to the sum
  modulo 65535), interpreted on both; the lemma that a checksummed packet verifies is proved once.
\<close>

section \<open>Folding\<close>

lemma unat_low16: "unat (s AND 0xFFFF :: u32) = unat s mod 65536"
proof -
  have "s AND 0xFFFF = take_bit 16 s" by (simp add: take_bit_eq_mask mask_eq_exp_minus_1)
  then show ?thesis by (simp add: take_bit_eq_mod unat_mod)
qed

lemma unat_high16: "unat (drop_bit 16 s :: u32) = unat s div 65536"
  by (simp add: drop_bit_eq_div unat_div)

lemma unat_fold_step: "unat ((s AND 0xFFFF) + drop_bit 16 s :: u32) = unat s mod 65536 + unat s div 65536"
proof -
  have "unat s div 65536 < 65536" using unat_lt32 [of s] by (simp add: div_less_iff_less_mult)
  moreover have "unat s mod 65536 < 65536" by simp
  ultimately have "unat s mod 65536 + unat s div 65536 < 65536 + 65536" by (rule add_strict_mono [rotated])
  then have "unat (s AND 0xFFFF) + unat (drop_bit 16 s) < 2 ^ 32"
    unfolding unat_low16 unat_high16 by simp
  then show ?thesis by (simp add: unat_add32 unat_low16 unat_high16)
qed

text \<open>\<open>while (sum >> 16) sum = (sum & 0xFFFF) + (sum >> 16);\<close>\<close>

function csum_fold :: "u32 \<Rightarrow> u32" where
  "csum_fold s = (if drop_bit 16 s = 0 then s else csum_fold ((s AND 0xFFFF) + drop_bit 16 s))"
  by auto

termination
proof (relation "measure unat")
  fix s :: u32 assume "drop_bit 16 s \<noteq> 0"
  then have "0 < unat s div 65536" using unat_high16 [of s] by (metis neq0_conv unat_eq_zero)
  then have "unat s mod 65536 + unat s div 65536 < unat s"
    using div_mult_mod_eq [of "unat s" 65536] by linarith
  then show "((s AND 0xFFFF) + drop_bit 16 s, s) \<in> measure unat" by (simp add: unat_fold_step)
qed simp

declare csum_fold.simps [simp del]

text \<open>The folding of \<open>ip_checksum\<close>; the high half of the result is discarded by the cast.\<close>

definition ip_fold :: "u32 \<Rightarrow> u16" where
  "ip_fold s = (let s = drop_bit 16 s + (s AND 0xFFFF); s = s + drop_bit 16 s in ucast s)"

section \<open>What a folding promises\<close>

lemma mod_fold: "(x mod 65536 + x div 65536) mod 65535 = x mod (65535 :: nat)"
proof -
  have "x = 65535 * (x div 65536) + (x mod 65536 + x div 65536)"
    using div_mult_mod_eq [of x 65536] by linarith
  then show ?thesis by (metis mod_mult_self4)
qed

locale carry_fold =
  fixes fold16 :: "u32 \<Rightarrow> nat"
  assumes fold_range: "fold16 s < 65536"
    and fold_cong: "fold16 s mod 65535 = unat s mod 65535"
    and fold_pos: "fold16 s = 0 \<longleftrightarrow> s = 0"
begin

text \<open>Adding the complement of the folded sum makes the total fold to \<open>0xFFFF\<close>.\<close>

lemma fold_complement:
  assumes t: "unat t = unat s + (65535 - fold16 s)"
  shows "fold16 t = 65535"
proof -
  have le: "fold16 s \<le> 65535" using fold_range [of s] by simp
  have "unat t mod 65535 = (fold16 s + (65535 - fold16 s)) mod 65535"
    unfolding t using fold_cong [of s] by (metis mod_add_left_eq)
  then have "fold16 t mod 65535 = 0" using le fold_cong [of t] by simp
  then have "fold16 t = 0 \<or> fold16 t = 65535"
    using fold_range [of t] by (auto simp: mod_eq_0_iff_dvd elim!: dvdE)
  moreover have "t \<noteq> 0"
  proof
    assume "t = 0"
    then have "unat s = 0" "fold16 s = 65535" using t le by simp_all
    then show False using fold_pos [of s] by (simp add: unat_eq_zero)
  qed
  ultimately show ?thesis using fold_pos [of t] by simp
qed

end

lemma csum_fold_spec:
  "unat (csum_fold s) < 65536 \<and> unat (csum_fold s) mod 65535 = unat s mod 65535 \<and>
   (csum_fold s = 0 \<longleftrightarrow> s = 0)"
proof (induction s rule: csum_fold.induct)
  case (1 s)
  show ?case
  proof (cases "drop_bit 16 s = 0")
    case True
    then have "unat s div 65536 = 0" using unat_high16 [of s] by simp
    then show ?thesis using True by (simp add: csum_fold.simps [of s] div_eq_0_iff)
  next
    case False
    let ?n = "(s AND 0xFFFF) + drop_bit 16 s"
    have "0 < unat s div 65536" using False unat_high16 [of s] by (metis neq0_conv unat_eq_zero)
    then have "0 < unat ?n" "0 < unat s" unfolding unat_fold_step by (simp_all add: div_greater_zero_iff)
    then have "?n \<noteq> 0" "s \<noteq> 0" by (auto simp: unat_gt_0)
    moreover have "unat ?n mod 65535 = unat s mod 65535" by (simp add: unat_fold_step mod_fold)
    ultimately show ?thesis using 1 [OF False] False by (simp add: csum_fold.simps [of s])
  qed
qed

interpretation cf: carry_fold "\<lambda>s. unat (csum_fold s)"
  by unfold_locales (simp_all add: csum_fold_spec unat_eq_zero)

lemma unat_ip_fold:
  "unat (ip_fold s) = (let n = unat s mod 65536 + unat s div 65536 in (n + n div 65536) mod 65536)"
proof -
  define n where "n = drop_bit 16 s + (s AND 0xFFFF)"
  have n: "unat n = unat s mod 65536 + unat s div 65536"
    using unat_fold_step [of s] by (simp add: n_def add.commute)
  have "unat s div 65536 < 65536" using unat_lt32 [of s] by (simp add: div_less_iff_less_mult)
  moreover have "unat s mod 65536 < 65536" by simp
  ultimately have lt: "unat n < 131072" unfolding n by linarith
  have "unat n + unat n div 65536 < 2 ^ 32"
    using lt div_le_dividend [of "unat n" 65536] by simp
  then have "unat (n + drop_bit 16 n) = unat n + unat n div 65536"
    by (simp add: unat_add32 unat_high16)
  moreover have "unat (ip_fold s) = unat (n + drop_bit 16 n) mod 65536"
    by (simp add: ip_fold_def Let_def n_def [symmetric] unsigned_ucast_eq take_bit_eq_mod)
  ultimately show ?thesis by (simp add: n Let_def)
qed

lemma two_step_fold:
  fixes x :: nat
  assumes "x \<le> 131070"
  shows "(x + x div 65536) mod 65536 = (if x < 65536 then x else x - 65535)"
proof (cases "x < 65536")
  case False
  then have "x = (x - 65536) + 65536" "x - 65536 < 65536" using assms by simp_all
  then have "x div 65536 = 1" by (metis div_add_self2 div_less add_0 zero_neq_numeral)
  then have "x + x div 65536 = (x - 65535) + 65536" "x - 65535 < 65536" using False assms by simp_all
  then have "(x + x div 65536) mod 65536 = x - 65535" by (metis mod_add_self2 mod_less)
  with False show ?thesis by simp
qed simp

lemma ip_fold_spec:
  "unat (ip_fold s) < 65536 \<and> unat (ip_fold s) mod 65535 = unat s mod 65535 \<and>
   (unat (ip_fold s) = 0 \<longleftrightarrow> s = 0)"
proof -
  define n where "n = unat s mod 65536 + unat s div 65536"
  have "unat s div 65536 \<le> 65535" using unat_lt32 [of s] by (simp add: div_less_iff_less_mult less_Suc_eq_le [symmetric])
  moreover have "unat s mod 65536 \<le> 65535" using mod_less_divisor [of 65536 "unat s"] by linarith
  ultimately have n: "n \<le> 131070" unfolding n_def by linarith
  have f: "unat (ip_fold s) = (if n < 65536 then n else n - 65535)"
    by (simp add: unat_ip_fold n_def [symmetric] two_step_fold [OF n])
  have "n mod 65535 = unat s mod 65535" by (simp add: n_def mod_fold)
  moreover have "n = 0 \<longleftrightarrow> s = 0"
    by (metis n_def add_is_0 div_mult_mod_eq mult_is_0 unat_eq_zero mod_0 div_0)
  moreover have "(n - 65535) mod 65535 = n mod 65535" if "65536 \<le> n"
  proof -
    have "65535 \<le> n" using that by simp
    then show ?thesis by (rule le_mod_geq [symmetric])
  qed
  ultimately show ?thesis using n f by auto
qed

interpretation ipf: carry_fold "\<lambda>s. unat (ip_fold s)"
  by unfold_locales (simp_all add: ip_fold_spec)

section \<open>Sums of 16-bit words\<close>

text \<open>A missing last byte counts as zero.\<close>

fun be_sum :: "byte list \<Rightarrow> nat" where
  "be_sum [] = 0"
| "be_sum [x] = 256 * unat x"
| "be_sum (x # y # bs) = 256 * unat x + unat y + be_sum bs"

fun le_sum :: "byte list \<Rightarrow> nat" where
  "le_sum [] = 0"
| "le_sum [x] = unat x"
| "le_sum (x # y # bs) = unat x + 256 * unat y + le_sum bs"

text \<open>The byte order of the sum does not matter for verification.\<close>

lemma be_sum_le_sum: "be_sum bs mod 65535 = 256 * le_sum bs mod 65535"
proof (induction bs rule: be_sum.induct)
  case (3 x y bs)
  have "256 * unat x + unat y + be_sum bs mod 65535 + 65535 * unat y =
      256 * (unat x + 256 * unat y) + be_sum bs mod 65535" by simp
  then have "(256 * unat x + unat y + be_sum bs) mod 65535 =
      (256 * (unat x + 256 * unat y) + be_sum bs mod 65535) mod 65535"
    by (metis mod_add_right_eq mod_mult_self2)
  then show ?case using 3 by (simp add: mod_add_right_eq distrib_left)
qed simp_all

lemma le_sum_zero: "le_sum bs = 0 \<longleftrightarrow> be_sum bs = 0"
  by (induction bs rule: be_sum.induct) auto

lemma be_sum_append: "even (length xs) \<Longrightarrow> be_sum (xs @ ys) = be_sum xs + be_sum ys"
  by (induction xs rule: be_sum.induct) auto

lemma le_sum_append: "even (length xs) \<Longrightarrow> le_sum (xs @ ys) = le_sum xs + le_sum ys"
  by (induction xs rule: be_sum.induct) auto

lemma byte_le_255: "unat (x :: byte) \<le> 255"
proof -
  have "unat x < 256" using unsigned_less [of x, where 'a = nat] by simp
  then show ?thesis by simp
qed

lemma be_sum_bound: "be_sum bs \<le> 65535 * length bs"
proof (induction bs rule: be_sum.induct)
  case (3 x y bs)
  then show ?case using byte_le_255 [of x] byte_le_255 [of y] by simp
next
  case (2 x)
  then show ?case using byte_le_255 [of x] by simp
qed simp

lemma le_sum_bound: "le_sum bs \<le> 65535 * length bs"
proof (induction bs rule: be_sum.induct)
  case (3 x y bs)
  then show ?case using byte_le_255 [of x] byte_le_255 [of y] by simp
next
  case (2 x)
  then show ?case using byte_le_255 [of x] by simp
qed simp

end
