(* ===== verification/Rt_Wire.thy ===== *)
theory Rt_Wire
  imports Byte_Fifo Crypto Inet_Checksum
begin

text \<open>
  The R-UDP transport of \<open>rudp_transport.c\<close>, part one: its data, its environment and the wire.
  A segment is signed, RC4-encrypted and padded by \<open>rt_send_segment_now\<close>, framed for plain UDP,
  DNS or ICMP by \<open>rt_send_udp\<close>, unframed by the worker (\<open>rt_strip_frame\<close>) and verified, decrypted
  and taken apart by the first half of \<open>rt_handle_udp_packet\<close> (\<open>rt_decode_packet\<close>).

  SHA-1 (OpenSSL) is a parameter of the definitions. The clock, the random generator, the
  datagrams sent and the two directions of the application's socket pair are the record \<open>rt_io\<close>:
  \<open>io_tick k\<close> is what the \<open>k\<close>-th call of \<open>rt_tick64\<close> returns and \<open>io_rand k n\<close> what the \<open>k\<close>-th
  request for \<open>n\<close> random bytes returns (\<open>None\<close>: the generator failed). \<open>None\<close> as the result of an
  operation is undefined behaviour: an access outside a buffer.
\<close>

section \<open>Constants and data\<close>

abbreviation RUDP_T_SHA1_SIZE :: nat where "RUDP_T_SHA1_SIZE \<equiv> 20"
definition RUDP_T_RESEND_TIMER :: u32 where "RUDP_T_RESEND_TIMER = 200"
definition RUDP_T_RESEND_TIMER_MAX :: u32 where "RUDP_T_RESEND_TIMER_MAX = 4792"
definition RUDP_T_KEEPALIVE_MIN :: u32 where "RUDP_T_KEEPALIVE_MIN = 2500"
definition RUDP_T_KEEPALIVE_MAX :: u32 where "RUDP_T_KEEPALIVE_MAX = 4792"
definition RUDP_T_TIMEOUT_MS :: u64 where "RUDP_T_TIMEOUT_MS = 12000"
definition RUDP_T_LOOP_WAIT_MS :: u64 where "RUDP_T_LOOP_WAIT_MS = 100"
definition RUDP_T_MAX_SEGMENT_SIZE :: nat where "RUDP_T_MAX_SEGMENT_SIZE = 512"
definition RUDP_T_MAX_NUM_ACK :: nat where "RUDP_T_MAX_NUM_ACK = 64"
definition RUDP_T_MAX_FIFO_SIZE :: u32 where "RUDP_T_MAX_FIFO_SIZE = 512 * 1024"
definition RUDP_T_MAX_PACKET_SIZE :: nat where
  "RUDP_T_MAX_PACKET_SIZE = RUDP_T_MAX_SEGMENT_SIZE + 8 * RUDP_T_MAX_NUM_ACK +
     RUDP_T_SHA1_SIZE * 2 + 8 * 4 + 4 + 255"

lemmas rt_consts = RUDP_T_RESEND_TIMER_def RUDP_T_RESEND_TIMER_MAX_def RUDP_T_KEEPALIVE_MIN_def
  RUDP_T_KEEPALIVE_MAX_def RUDP_T_TIMEOUT_MS_def RUDP_T_LOOP_WAIT_MS_def
  RUDP_T_MAX_SEGMENT_SIZE_def RUDP_T_MAX_NUM_ACK_def RUDP_T_MAX_FIFO_SIZE_def

datatype rt_status = CONNECT_SENT | ESTABLISHED | DISCONNECTED
datatype rt_mode = MODE_UDP | MODE_DNS | MODE_ICMP

text \<open>
  The used bytes of the array \<open>data[512]\<close> and the field \<open>size\<close> are one list; arrays with a count
  (\<open>send_segments\<close>/\<open>send_count\<close>, ...) are lists.
\<close>

record rt_segment =
  sg_seq :: u64
  sg_data :: "byte list"
  sg_next_send_tick :: u64
  sg_num_sent :: u32

record rt_session =
  se_status :: rt_status
  se_key_init :: "byte list"
  se_key_send :: "byte list"
  se_key_recv :: "byte list"
  se_magic_req :: "byte list"
  se_magic_resp :: "byte list"
  se_magic_disconnect :: u64
  se_next_iv :: "byte list"
  se_next_send_seq :: u64
  se_last_recv_complete_seq :: u64
  se_your_tick :: u64
  se_latest_recv_my_tick :: u64
  se_latest_recv_my_tick2 :: u64
  se_current_rtt :: u32
  se_last_sent_tick :: u64
  se_next_keepalive_interval :: u64
  se_created_tick :: u64
  se_next_icmp_echo_tick :: u64
  se_your_ip :: u32
  se_your_port :: u16
  se_send_segments :: "rt_segment list"
  se_recv_segments :: "rt_segment list"
  se_reply_acks :: "u64 list"
  se_send_fifo :: rt_fifo
  se_recv_fifo :: rt_fifo

record rudp_transport =
  tr_error_code :: int
  tr_halt :: bool
  tr_connect_timeout_ms :: u32
  tr_result_ready :: bool
  tr_result_ok :: bool
  tr_mode :: rt_mode
  tr_dns_tran_id :: u16
  tr_icmp_id :: "byte list"
  tr_icmp_seq :: "byte list"
  tr_icmp_type :: byte
  tr_svc_name_hash :: "byte list option"
  tr_se :: rt_session

section \<open>The environment\<close>

text \<open>Results of \<open>send\<close> and \<open>recv\<close> on the worker's end of the socket pair.\<close>

datatype app_send = Sent nat | SendAgain | SendErr
datatype app_recv = Got "byte list" | RecvAgain | RecvEof | RecvErr

record rt_io =
  io_tick :: "nat \<Rightarrow> u64"
  io_ticks :: nat
  io_rand :: "nat \<Rightarrow> nat \<Rightarrow> byte list option"
  io_rands :: nat
  io_junk :: "nat \<Rightarrow> byte list"
  io_sent :: "byte list list"
  io_app_send :: "app_send list"
  io_app_recv :: "app_recv list"
  io_app_out :: "byte list"
  io_shutdown :: bool

definition rt_tick64 :: "rt_io \<Rightarrow> u64 \<times> rt_io" where
  "rt_tick64 io = (io_tick io (io_ticks io), io\<lparr>io_ticks := io_ticks io + 1\<rparr>)"

definition generate_random_bytes :: "nat \<Rightarrow> rt_io \<Rightarrow> byte list option \<times> rt_io" where
  "generate_random_bytes n io = (io_rand io (io_rands io) n, io\<lparr>io_rands := io_rands io + 1\<rparr>)"

definition rt_rand_u32 :: "rt_io \<Rightarrow> u32 \<times> rt_io" where
  "rt_rand_u32 io =
     (let (b, io) = generate_random_bytes 4 io in
      ((case b of None \<Rightarrow> 0 | Some b \<Rightarrow> rd32 b), io))"

section \<open>Framing\<close>

definition hex_digit :: "byte \<Rightarrow> byte" where
  "hex_digit n = str ''0123456789abcdef'' ! unat n"

definition dns_hex :: "byte list \<Rightarrow> byte list" where
  "dns_hex bs = concat (map (\<lambda>b. [hex_digit (drop_bit 4 b AND 0x0F), hex_digit (b AND 0x0F)]) bs)"

definition rt_dns_frame :: "u16 \<Rightarrow> byte list \<Rightarrow> byte list \<Rightarrow> byte list" where
  "rt_dns_frame tran_id rand_data data =
     [ucast (drop_bit 8 tran_id), ucast tran_id] @
     [0x01, 0x00, 0x00, 0x01, 0x00, 0x00, 0x00, 0x00, 0x00, 0x01, 0x08] @
     dns_hex rand_data @
     [0x00, 0x00, 0x30, 0x00, 0x01, 0x00, 0x29, 0x10, 0x00, 0x00, 0x00, 0x80, 0x00] @
     be16 (word_of_nat (length data)) @ data"

fun icmp_sum :: "byte list \<Rightarrow> u32" where
  "icmp_sum [] = 0"
| "icmp_sum [x] = ucast (push_bit 8 (ucast x :: u16))"
| "icmp_sum (x # y # bs) = ucast (push_bit 8 (ucast x) OR ucast y :: u16) + icmp_sum bs"

definition icmp_checksum :: "byte list \<Rightarrow> u16" where
  "icmp_checksum pkt = ucast (NOT (csum_fold (icmp_sum pkt)) AND 0xFFFF)"

definition rt_icmp_frame ::
  "(byte list \<Rightarrow> byte list) \<Rightarrow> byte \<Rightarrow> byte list \<Rightarrow> byte list \<Rightarrow> byte list \<Rightarrow> byte list" where
  "rt_icmp_frame sha1 ty icmp_id icmp_seq data =
     (let body = icmp_id @ icmp_seq @ sha1 data @ data;
          cksum = icmp_checksum ([ty, 0, 0, 0] @ body)
      in [ty, 0, ucast (drop_bit 8 cksum), ucast cksum] @ body)"

text \<open>
  \<open>rt_send_udp\<close>: frame and send, then note the send tick and pick the next IV. The frame is built
  in \<open>pkt[RUDP_T_MAX_PACKET_SIZE + 64]\<close>.
\<close>

definition rt_frame ::
  "(byte list \<Rightarrow> byte list) \<Rightarrow> rudp_transport \<Rightarrow> rt_io \<Rightarrow> byte list \<Rightarrow> (byte list \<times> rt_io) option" where
  "rt_frame sha1 t io data =
     (case tr_mode t of
        MODE_DNS \<Rightarrow>
          (let (r, io) = generate_random_bytes 4 io;
               rand_data = (case r of Some b \<Rightarrow> b | None \<Rightarrow> io_junk io 4);
               pkt = rt_dns_frame (tr_dns_tran_id t) rand_data data
           in if length pkt \<le> RUDP_T_MAX_PACKET_SIZE + 64 then Some (pkt, io) else None)
      | MODE_ICMP \<Rightarrow>
          (let pkt = rt_icmp_frame sha1 (tr_icmp_type t) (tr_icmp_id t) (tr_icmp_seq t) data
           in if length pkt \<le> RUDP_T_MAX_PACKET_SIZE + 64 then Some (pkt, io) else None)
      | MODE_UDP \<Rightarrow> Some (data, io))"

definition rt_send_udp ::
  "(byte list \<Rightarrow> byte list) \<Rightarrow> rudp_transport \<Rightarrow> rt_io \<Rightarrow> byte list \<Rightarrow> (rudp_transport \<times> rt_io) option"
where
  "rt_send_udp sha1 t io data =
     do { (pkt, io) \<leftarrow> rt_frame sha1 t io data;
          let io = io\<lparr>io_sent := io_sent io @ [pkt]\<rparr>;
          let size = length data;
          let (t, io) =
            (if 1 \<le> size
             then let (now, io) = rt_tick64 io in
                  (t\<lparr>tr_se := (tr_se t)\<lparr>se_last_sent_tick := now\<rparr>\<rparr>, io)
             else (t, io));
          (if tr_mode t = MODE_UDP
           then let (r, io) = rt_rand_u32 io;
                    pos = unat r mod (if RUDP_T_SHA1_SIZE < size then size - RUDP_T_SHA1_SIZE else 1)
                in do { iv \<leftarrow> mem_read data pos RUDP_T_SHA1_SIZE;
                        Some (t\<lparr>tr_se := (tr_se t)\<lparr>se_next_iv := iv\<rparr>\<rparr>, io) }
           else let (r, io) = generate_random_bytes RUDP_T_SHA1_SIZE io in
                Some (t\<lparr>tr_se := (tr_se t)\<lparr>se_next_iv :=
                  (case r of Some iv \<Rightarrow> iv | None \<Rightarrow> se_next_iv (tr_se t))\<rparr>\<rparr>, io)) }"

section \<open>Segments\<close>

definition xor_bytes :: "byte list \<Rightarrow> byte list \<Rightarrow> byte list" where
  "xor_bytes xs ys = map2 (XOR) xs ys"

definition rt_sign :: "(byte list \<Rightarrow> byte list) \<Rightarrow> byte list option \<Rightarrow> byte list \<Rightarrow> byte list" where
  "rt_sign sha1 svc pkt =
     (case svc of None \<Rightarrow> sha1 pkt | Some h \<Rightarrow> xor_bytes (sha1 pkt) h)"

definition rt_segment_plain ::
  "u64 \<Rightarrow> u64 \<Rightarrow> u64 \<Rightarrow> u64 list \<Rightarrow> u64 \<Rightarrow> byte list \<Rightarrow> byte \<Rightarrow> byte list" where
  "rt_segment_plain tick your_tick max_ack acks seq data padlen =
     be64 tick @ be64 your_tick @ be64 max_ack @ be32 (word_of_nat (length acks)) @
     concat (map be64 acks) @ be64 seq @ data @ replicate (unat padlen) padlen"

definition rt_seal ::
  "(byte list \<Rightarrow> byte list) \<Rightarrow> byte list option \<Rightarrow> byte list \<Rightarrow> byte list \<Rightarrow> byte list \<Rightarrow> byte list" where
  "rt_seal sha1 svc key_send iv plain =
     (let enc = rc4_crypt (sha1 (iv @ key_send)) plain
      in rt_sign sha1 svc (key_send @ iv @ enc) @ iv @ enc)"

text \<open>The packet is assembled in \<open>pkt[RUDP_T_MAX_PACKET_SIZE]\<close>; \<open>padlen\<close> is 1 to 255.\<close>

definition rt_send_segment_now ::
  "(byte list \<Rightarrow> byte list) \<Rightarrow> rudp_transport \<Rightarrow> rt_io \<Rightarrow> u64 \<Rightarrow> byte list \<Rightarrow> (rudp_transport \<times> rt_io) option"
where
  "rt_send_segment_now sha1 t io seq data =
     (let se = tr_se t;
          (tick, io) = rt_tick64 io;
          acks = take RUDP_T_MAX_NUM_ACK (se_reply_acks se);
          se = se\<lparr>se_reply_acks := []\<rparr>;
          (r, io) = rt_rand_u32 io;
          padlen = ucast (r mod 255) + 1;
          plain = rt_segment_plain tick (se_your_tick se) (se_last_recv_complete_seq se) acks seq data padlen;
          pkt = rt_seal sha1 (tr_svc_name_hash t) (se_key_send se) (se_next_iv se) plain;
          current_size = length pkt
      in if RUDP_T_MAX_PACKET_SIZE < current_size then None
         else do {
           (t, io) \<leftarrow> rt_send_udp sha1 (t\<lparr>tr_se := se\<rparr>) io pkt;
           let (t, io) =
             (if 1 \<le> length data
              then let (now, io) = rt_tick64 io in
                   (t\<lparr>tr_se := (tr_se t)\<lparr>se_last_sent_tick := now\<rparr>\<rparr>, io)
              else (t, io));
           let (r, io) = rt_rand_u32 io;
           iv \<leftarrow> mem_read pkt (unat r mod (current_size - RUDP_T_SHA1_SIZE)) RUDP_T_SHA1_SIZE;
           Some (t\<lparr>tr_se := (tr_se t)\<lparr>se_next_iv := iv\<rparr>\<rparr>, io) })"

record rt_header =
  rh_my_tick :: u64
  rh_your_tick :: u64
  rh_max_ack :: u64
  rh_acks :: "u64 list"
  rh_seq :: u64
  rh_payload :: "byte list"

definition rt_parse_plain :: "byte list \<Rightarrow> rt_header option" where
  "rt_parse_plain enc =
     (let enc_len = length enc in
      if enc_len < 1 then None else
      let padlen = unat (enc ! (enc_len - 1)) in
      if padlen = 0 then None
      else if enc_len < padlen then None else
      let enc = take (enc_len - padlen) enc; enc_len = enc_len - padlen in
      if enc_len < 8 + 8 + 8 + 4 + 8 then None else
      let num_ack = unat (rd32 (drop 24 enc)) in
      if RUDP_T_MAX_NUM_ACK < num_ack then None
      else if enc_len < 8 + 8 + 8 + 4 + num_ack * 8 + 8 then None
      else Some \<lparr>rh_my_tick = rd64 enc, rh_your_tick = rd64 (drop 8 enc), rh_max_ack = rd64 (drop 16 enc),
                  rh_acks = map (\<lambda>i. rd64 (drop (28 + 8 * i) enc)) [0..<num_ack],
                  rh_seq = rd64 (drop (28 + 8 * num_ack) enc),
                  rh_payload = drop (36 + 8 * num_ack) enc\<rparr>)"

definition rt_decode_packet ::
  "(byte list \<Rightarrow> byte list) \<Rightarrow> byte list option \<Rightarrow> byte list \<Rightarrow> byte list \<Rightarrow> rt_header option" where
  "rt_decode_packet sha1 svc key_recv buf =
     (if length buf < RUDP_T_SHA1_SIZE then None else
      let pkt = take RUDP_T_MAX_PACKET_SIZE buf;
          sign = take RUDP_T_SHA1_SIZE pkt;
          rest = drop RUDP_T_SHA1_SIZE pkt
      in if sign \<noteq> rt_sign sha1 svc (key_recv @ rest) then None
         else if length pkt < RUDP_T_SHA1_SIZE * 2 then None
         else rt_parse_plain (rc4_crypt (sha1 (take RUDP_T_SHA1_SIZE rest @ key_recv))
                (drop RUDP_T_SHA1_SIZE rest)))"

text \<open>The unframing in \<open>rt_worker\<close>: the payload and the new DNS transaction id, or \<open>None\<close> to skip.\<close>

definition rt_strip_frame :: "rt_mode \<Rightarrow> u16 \<Rightarrow> byte list \<Rightarrow> (byte list \<times> u16) option" where
  "rt_strip_frame mode tran_id buf =
     (case mode of
        MODE_UDP \<Rightarrow> Some (buf, tran_id)
      | MODE_DNS \<Rightarrow> if 42 < length buf then Some (drop 42 buf, rd16 buf) else None
      | MODE_ICMP \<Rightarrow>
          (let ip_header_size =
             (if 20 \<le> length buf \<and> drop_bit 4 (buf ! 0) = 4 then unat (buf ! 0 AND 0x0F) * 4 else 0)
           in if ip_header_size + 28 \<le> length buf
              then let ty = buf ! ip_header_size in
                   if ty = 0 \<or> ty = 7 \<or> ty = 15 \<or> ty = 8
                   then Some (drop (ip_header_size + 8 + RUDP_T_SHA1_SIZE) buf, tran_id) else None
              else None))"

section \<open>A sealed segment is read back\<close>

lemma max_packet_size: "RUDP_T_MAX_PACKET_SIZE = 1355"
  by (simp add: RUDP_T_MAX_PACKET_SIZE_def rt_consts)

lemma acks_length [size_simps]: "length (concat (map be64 acks)) = 8 * length acks"
  by (induction acks) (simp_all add: size_simps)

lemma rd64_acks:
  "i < length acks \<Longrightarrow> rd64 (drop (8 * i) (concat (map be64 acks) @ xs)) = acks ! i"
proof (induction acks arbitrary: i)
  case (Cons a acks)
  then show ?case
  proof (cases i)
    case (Suc j)
    have "drop (8 * i) (concat (map be64 (a # acks)) @ xs) = drop (8 * j) (concat (map be64 acks) @ xs)"
      using Suc by (simp add: size_simps)
    then show ?thesis using Cons Suc by simp
  qed (simp add: wire_simps)
qed simp

lemma map_rd64_acks:
  "map (\<lambda>i. rd64 (drop (8 * i) (concat (map be64 acks) @ xs))) [0..<length acks] = acks"
  by (rule nth_equalityI) (simp_all add: rd64_acks del: drop_append)

lemma rt_parse_segment_plain:
  assumes "length acks \<le> 64" "padlen \<noteq> 0"
  shows "rt_parse_plain (rt_segment_plain tick yt ma acks seq data padlen) =
           Some \<lparr>rh_my_tick = tick, rh_your_tick = yt, rh_max_ack = ma, rh_acks = acks, rh_seq = seq,
                  rh_payload = data\<rparr>"
proof -
  let ?A = "concat (map be64 acks)"
  let ?n = "be32 (word_of_nat (length acks))"
  define m where "m = be64 tick @ be64 yt @ be64 ma @ ?n @ ?A @ be64 seq @ data"
  let ?p = "replicate (unat padlen) padlen"
  have pos: "0 < unat padlen" using assms(2) by (simp add: unat_gt_0)
  have e: "rt_segment_plain tick yt ma acks seq data padlen = m @ ?p"
    by (simp add: rt_segment_plain_def m_def)
  have last: "(m @ ?p) ! (length (m @ ?p) - 1) = padlen"
  proof -
    have "length (m @ ?p) - 1 = length m + (unat padlen - 1)" using pos by simp
    then show ?thesis using pos by (simp only: nth_append_length_plus) simp
  qed
  have len: "length m = 36 + 8 * length acks + length data"
    by (simp add: m_def size_simps)
  have n: "unat (rd32 (drop 24 m)) = length acks"
    using assms(1) by (simp add: m_def size_simps wire_simps unat_of_nat32)
  have d1: "rd64 m = tick" "rd64 (drop 8 m) = yt" "rd64 (drop 16 m) = ma"
    by (simp_all add: m_def size_simps wire_simps)
  have d2: "drop (28 + 8 * i) m = drop (8 * i) (?A @ be64 seq @ data)" for i
    by (simp add: m_def size_simps)
  have d3: "drop (36 + 8 * length acks) m = data"
    by (simp add: m_def size_simps)
  have seq: "rd64 (drop (28 + 8 * length acks) m) = seq"
    unfolding d2 by (simp add: size_simps wire_simps)
  show ?thesis
    unfolding rt_parse_plain_def e last Let_def
    using pos len assms(1) seq
    by (simp add: n d1 d2 d3 map_rd64_acks RUDP_T_MAX_NUM_ACK_def del: drop_append)
qed

lemma rt_sign_length [size_simps]:
  assumes "\<And>m. length (sha1 m) = 20" "\<And>h. svc = Some h \<Longrightarrow> length h = 20"
  shows "length (rt_sign sha1 svc pkt) = 20"
  using assms by (auto simp: rt_sign_def xor_bytes_def split: option.split)

lemma rt_seal_length:
  assumes "\<And>m. length (sha1 m) = 20" "\<And>h. svc = Some h \<Longrightarrow> length h = 20" "length iv = 20"
  shows "length (rt_seal sha1 svc k iv plain) = 40 + length plain"
  using assms rt_sign_length [of sha1 svc] by (simp add: rt_seal_def Let_def rc4.length_crypt)

lemma rt_decode_seal:
  assumes sha: "\<And>m. length (sha1 m) = 20" and svc: "\<And>h. svc = Some h \<Longrightarrow> length h = 20"
    and iv: "length iv = 20" and fit: "40 + length plain \<le> 1355"
  shows "rt_decode_packet sha1 svc k (rt_seal sha1 svc k iv plain) = rt_parse_plain plain"
proof -
  let ?enc = "rc4_crypt (sha1 (iv @ k)) plain"
  have s: "length (rt_sign sha1 svc (k @ iv @ ?enc)) = 20" using rt_sign_length [OF sha svc] .
  have len: "length (rt_seal sha1 svc k iv plain) = 40 + length plain"
    by (rule rt_seal_length [OF sha svc iv])
  have t: "take RUDP_T_MAX_PACKET_SIZE (rt_seal sha1 svc k iv plain) = rt_seal sha1 svc k iv plain"
    using fit len by (simp add: max_packet_size)
  show ?thesis
    unfolding rt_decode_packet_def Let_def t
    using len s iv by (simp add: rt_seal_def Let_def rc4.crypt_crypt)
qed

lemma rt_plain_length [size_simps]:
  "length (rt_segment_plain tick yt ma acks seq data padlen) =
     36 + 8 * length acks + length data + unat padlen"
  by (simp add: rt_segment_plain_def size_simps)

section \<open>Framing lemmas\<close>

lemma dns_hex_length [size_simps]: "length (dns_hex bs) = 2 * length bs"
  by (induction bs) (simp_all add: dns_hex_def)

lemma rt_dns_frame_length [size_simps]:
  "length (rt_dns_frame tid r data) = 28 + 2 * length r + length data"
  by (simp add: rt_dns_frame_def size_simps)

lemma rt_icmp_frame_length [size_simps]:
  "length (rt_icmp_frame sha1 ty i q data) = 4 + length i + length q + length (sha1 data) + length data"
  by (simp add: rt_icmp_frame_def Let_def)

lemma unat_icmp_word:
  "unat (ucast (push_bit 8 (ucast x) OR ucast y :: u16) :: u32) = 256 * unat x + unat (y :: byte)"
  for x :: byte
proof -
  have x: "unat (push_bit 8 (ucast x) :: u16) = 256 * unat x"
    using byte_le_255 [of x]
    by (simp add: push_bit_eq_mult unat_word_ariths unsigned_ucast_eq take_bit_eq_mod mult.commute)
  have "\<not> bit (push_bit 8 (ucast x) :: u16) n \<or> \<not> bit (ucast y :: u16) n" for n
    by (auto simp: bit_simps)
  then have "push_bit 8 (ucast x) OR ucast y = push_bit 8 (ucast x) + (ucast y :: u16)"
    by (simp add: disjunctive_add)
  moreover have "unat (push_bit 8 (ucast x) + (ucast y :: u16)) = 256 * unat x + unat y"
    using byte_le_255 [of x] byte_le_255 [of y] x
    by (simp add: unat_word_ariths unsigned_ucast_eq take_bit_eq_mod)
  ultimately show ?thesis
    using byte_le_255 [of x] byte_le_255 [of y] by (simp add: unsigned_ucast_eq take_bit_eq_mod)
qed

lemma unat_icmp_sum:
  "65535 * length bs < 2 ^ 32 \<Longrightarrow> unat (icmp_sum bs) = be_sum bs"
proof (induction bs rule: be_sum.induct)
  case (3 x y bs)
  then have "unat (icmp_sum bs) = be_sum bs" by simp
  moreover have "256 * unat x + unat y + be_sum bs < 2 ^ 32"
    using be_sum_bound [of "x # y # bs"] 3(2) by simp
  ultimately show ?case by (simp add: unat_add32 unat_icmp_word)
next
  case (2 x)
  then show ?case using unat_icmp_word [of x 0] by simp
qed simp

text \<open>A receiver that sums all 16-bit words of an ICMP frame, the checksum included, gets \<open>0xFFFF\<close>.\<close>

lemma word_eqI_unat: "unat a = unat b \<Longrightarrow> a = (b :: u32)"
  by (simp add: word_unat_eq_iff)

lemma unat_icmp_checksum: "unat (icmp_checksum pkt) = 65535 - unat (csum_fold (icmp_sum pkt))"
proof -
  let ?w = "csum_fold (icmp_sum pkt)"
  have lt: "unat ?w < 65536" by (rule cf.fold_range)
  then have e: "?w AND 0xFFFF = ?w" using unat_low16 [of ?w] by (intro word_eqI_unat) simp
  have "NOT m AND (v AND m) = 0" for v m :: u32
    by (rule bit_word_eqI) (auto simp: bit_and_iff bit_not_iff)
  from this [of "0xFFFF" ?w] have w: "NOT 0xFFFF AND ?w = 0" unfolding e .
  have "NOT ?w AND 0xFFFF = 0xFFFF - ?w"
    unfolding disjunctive_diff_eq_and_not [OF w] by (rule and.commute)
  moreover have "unat (0xFFFF - ?w) = 65535 - unat ?w"
    using lt by (simp add: unat_sub word_le_nat_alt)
  ultimately show ?thesis by (simp add: icmp_checksum_def unsigned_ucast_eq take_bit_eq_mod)
qed

lemma be_sum_be16: "be_sum (be16 c) = unat c"
proof -
  have "unat (ucast c :: u32) = 256 * unat (ucast (drop_bit 8 c) :: byte) + unat (ucast c :: byte)"
    using unat_icmp_word [of "ucast (drop_bit 8 c)" "ucast c"] rd16_be16 [of c "[]"]
    by (simp add: be16_def rd16_def)
  moreover have "unat (ucast c :: u32) = unat c"
    using unsigned_less [of c, where 'a = nat] by (simp add: unsigned_ucast_eq take_bit_nat_eq_self)
  ultimately show ?thesis by (simp add: be16_def)
qed

lemma icmp_frame_sum:
  assumes "length icmp_id = 2" "length icmp_seq = 2" "\<And>m. length (sha1 m) = 20" "length data \<le> 2000"
  shows "csum_fold (icmp_sum (rt_icmp_frame sha1 ty icmp_id icmp_seq data)) = 0xFFFF"
proof -
  let ?body = "icmp_id @ icmp_seq @ sha1 data @ data"
  let ?p = "[ty, 0, 0, 0] @ ?body" and ?f = "rt_icmp_frame sha1 ty icmp_id icmp_seq data"
  let ?c = "icmp_checksum ?p"
  have c: "be_sum [ucast (drop_bit 8 ?c), ucast ?c] = unat ?c"
    using be_sum_be16 [of ?c] by (simp add: be16_def)
  have "unat (icmp_sum ?p) = be_sum ?p" "unat (icmp_sum ?f) = be_sum ?f"
    by (rule unat_icmp_sum, use assms in \<open>simp add: rt_icmp_frame_length\<close>)+
  moreover have "be_sum ?f = be_sum ?p + unat ?c"
    using c by (simp add: rt_icmp_frame_def Let_def)
  ultimately have "unat (icmp_sum ?f) = unat (icmp_sum ?p) + (65535 - unat (csum_fold (icmp_sum ?p)))"
    by (simp only: unat_icmp_checksum)
  from cf.fold_complement [OF this] show ?thesis by (intro word_eqI_unat) simp
qed

lemma strip_icmp:
  assumes "length icmp_id = 2" "length icmp_seq = 2" "\<And>m. length (sha1 m) = 20"
    and "ty \<in> {0, 7, 8, 15}" and "length h = 20" "h ! 0 = 0x45"
  shows "rt_strip_frame MODE_ICMP tid (h @ rt_icmp_frame sha1 ty icmp_id icmp_seq data) = Some (data, tid)"
proof -
  have "(h @ rt_icmp_frame sha1 ty icmp_id icmp_seq data) ! 20 = ty"
    using assms(5) by (simp add: nth_append rt_icmp_frame_def Let_def)
  moreover have "drop 48 (h @ rt_icmp_frame sha1 ty icmp_id icmp_seq data) = data"
    using assms by (simp add: rt_icmp_frame_def Let_def)
  ultimately show ?thesis
    using assms by (auto simp: rt_strip_frame_def Let_def nth_append rt_icmp_frame_length)
qed

section \<open>Properties\<close>

text \<open>
  ICMP framing: the frame built by \<open>rt_send_udp\<close> carries a valid Internet checksum (all its
  16-bit words sum to \<open>0xFFFF\<close> with carries folded), and behind an IPv4 header without options the
  worker strips it back to the original packet for every ICMP type it accepts.
\<close>

theorem rt_icmp_frame_roundtrip:
  assumes "length icmp_id = 2" and "length icmp_seq = 2" and "\<And>m. length (sha1 m) = 20"
    and "length data \<le> RUDP_T_MAX_PACKET_SIZE" and "ty \<in> {0, 7, 8, 15}"
    and "length h = 20" and "h ! 0 = 0x45"
  shows "csum_fold (icmp_sum (rt_icmp_frame sha1 ty icmp_id icmp_seq data)) = 0xFFFF \<and>
         rt_strip_frame MODE_ICMP tid (h @ rt_icmp_frame sha1 ty icmp_id icmp_seq data) = Some (data, tid)"
proof
  have "length data \<le> 2000" using assms(4) by (simp add: max_packet_size)
  then show "csum_fold (icmp_sum (rt_icmp_frame sha1 ty icmp_id icmp_seq data)) = 0xFFFF"
    using assms(1-3) by (intro icmp_frame_sum) simp_all
  show "rt_strip_frame MODE_ICMP tid (h @ rt_icmp_frame sha1 ty icmp_id icmp_seq data) = Some (data, tid)"
    by (rule strip_icmp [OF assms(1-3,5-7)])
qed

theorem rt_icmp_frame_roundtrip_witness:
  "rt_strip_frame MODE_ICMP 5 ((0x45 # replicate 19 0) @ rt_icmp_frame (\<lambda>_. replicate 20 1) 7 [1, 2] [3, 4] [9, 8, 7])
     = Some ([9, 8, 7], 5)"
  using rt_icmp_frame_roundtrip [of "[1, 2]" "[3, 4]" "\<lambda>_. replicate 20 1" "[9, 8, 7]" 7 "0x45 # replicate 19 0" 5]
  by (simp add: max_packet_size del: append_Cons)

end
