(* ===== verification/Rt_Session.thy ===== *)
theory Rt_Session
  imports Rt_Wire
begin

text \<open>
  The R-UDP transport of \<open>rudp_transport.c\<close>, part two: the session. Acknowledgements, the receive
  buffer, the packet handler, the pumps between the byte queues and the application, the send
  window, the periodic \<open>rt_interrupt\<close>, the worker's iteration and the setup of a connection.
\<close>

section \<open>Segments in flight\<close>

definition rt_queue_segment :: "rt_session \<Rightarrow> byte list \<Rightarrow> rt_session" where
  "rt_queue_segment se data =
     (if RUDP_T_MAX_NUM_ACK \<le> length (se_send_segments se) then se
      else se\<lparr>se_send_segments := se_send_segments se @
                [\<lparr>sg_seq = se_next_send_seq se, sg_data = data, sg_next_send_tick = 0, sg_num_sent = 0\<rparr>],
              se_next_send_seq := se_next_send_seq se + 1\<rparr>)"

fun rt_remove_seq :: "u64 \<Rightarrow> rt_segment list \<Rightarrow> rt_segment list" where
  "rt_remove_seq seq [] = []"
| "rt_remove_seq seq (s # ss) = (if sg_seq s = seq then ss else s # rt_remove_seq seq ss)"

definition rt_process_ack :: "rt_session \<Rightarrow> u64 \<Rightarrow> rt_session" where
  "rt_process_ack se seq = se\<lparr>se_send_segments := rt_remove_seq seq (se_send_segments se)\<rparr>"

fun rt_remove_upto :: "u64 \<Rightarrow> rt_segment list \<Rightarrow> rt_segment list" where
  "rt_remove_upto max_seq [] = []"
| "rt_remove_upto max_seq (s # ss) =
     (if sg_seq s \<le> max_seq then rt_remove_upto max_seq ss else s # rt_remove_upto max_seq ss)"

definition rt_process_ack2 :: "rt_session \<Rightarrow> u64 \<Rightarrow> rt_session" where
  "rt_process_ack2 se max_seq = se\<lparr>se_send_segments := rt_remove_upto max_seq (se_send_segments se)\<rparr>"

definition rt_add_ack :: "rt_session \<Rightarrow> u64 \<Rightarrow> rt_session" where
  "rt_add_ack se seq =
     (if seq \<in> set (se_reply_acks se) then se
      else if length (se_reply_acks se) < RUDP_T_MAX_NUM_ACK
      then se\<lparr>se_reply_acks := se_reply_acks se @ [seq]\<rparr> else se)"

definition rt_process_recv_payload :: "rt_session \<Rightarrow> u64 \<Rightarrow> byte list \<Rightarrow> rt_session" where
  "rt_process_recv_payload se seq payload =
     (if se_last_recv_complete_seq se + word_of_nat RUDP_T_MAX_NUM_ACK < seq then se
      else if seq \<le> se_last_recv_complete_seq se then rt_add_ack se seq
      else if seq \<in> sg_seq ` set (se_recv_segments se) then rt_add_ack se seq
      else if RUDP_T_MAX_NUM_ACK \<le> length (se_recv_segments se) then se
      else rt_add_ack (se\<lparr>se_recv_segments := se_recv_segments se @
             [\<lparr>sg_seq = seq, sg_data = payload, sg_next_send_tick = 0, sg_num_sent = 0\<rparr>]\<rparr>) seq)"

section \<open>Session state\<close>

definition upd_se :: "(rt_session \<Rightarrow> rt_session) \<Rightarrow> rudp_transport \<Rightarrow> rudp_transport" where
  "upd_se f t = t\<lparr>tr_se := f (tr_se t)\<rparr>"

definition rt_signal_result :: "rudp_transport \<Rightarrow> bool \<Rightarrow> rudp_transport" where
  "rt_signal_result t ok =
     (if \<not> tr_result_ready t then t\<lparr>tr_result_ready := True, tr_result_ok := ok\<rparr> else t)"

fun rt_send_disconnects ::
  "(byte list \<Rightarrow> byte list) \<Rightarrow> nat \<Rightarrow> rudp_transport \<Rightarrow> rt_io \<Rightarrow> (rudp_transport \<times> rt_io) option" where
  "rt_send_disconnects sha1 0 t io = Some (t, io)"
| "rt_send_disconnects sha1 (Suc n) t io =
     do { (t, io) \<leftarrow> rt_send_segment_now sha1 t io (se_magic_disconnect (tr_se t)) [];
          rt_send_disconnects sha1 n t io }"

definition rt_set_disconnected ::
  "(byte list \<Rightarrow> byte list) \<Rightarrow> rudp_transport \<Rightarrow> rt_io \<Rightarrow> bool \<Rightarrow> (rudp_transport \<times> rt_io) option" where
  "rt_set_disconnected sha1 t io by_you =
     (if se_status (tr_se t) = DISCONNECTED then Some (t, io)
      else do {
        (t, io) \<leftarrow> (if \<not> by_you \<and> se_status (tr_se t) = ESTABLISHED
                   then rt_send_disconnects sha1 5 t io else Some (t, io));
        Some (rt_signal_result (upd_se (\<lambda>se. se\<lparr>se_status := DISCONNECTED\<rparr>) t) False,
              io\<lparr>io_shutdown := True\<rparr>) })"

text \<open>Tick and round-trip-time processing of a received header.\<close>

definition rt_tick_update :: "rt_session \<Rightarrow> u64 \<Rightarrow> u64 \<Rightarrow> rt_io \<Rightarrow> rt_session \<times> rt_io" where
  "rt_tick_update se my_tick your_tick io =
     (let my_tick = (if 2 \<le> my_tick then my_tick - 1 else my_tick);
          se = (if se_your_tick se < my_tick then se\<lparr>se_your_tick := my_tick\<rparr> else se);
          se = (if se_latest_recv_my_tick se < your_tick
                then se\<lparr>se_latest_recv_my_tick := your_tick\<rparr> else se)
      in if se_latest_recv_my_tick2 se \<noteq> se_latest_recv_my_tick se
         then let (now_ms, io) = rt_tick64 io in
              (se\<lparr>se_latest_recv_my_tick2 := se_latest_recv_my_tick se,
                  se_current_rtt := (if se_latest_recv_my_tick se \<le> now_ms
                    then ucast (now_ms - se_latest_recv_my_tick se) else 0)\<rparr>, io)
         else (se, io))"

definition rt_handle_udp_packet ::
  "(byte list \<Rightarrow> byte list) \<Rightarrow> rudp_transport \<Rightarrow> rt_io \<Rightarrow> u32 \<Rightarrow> u16 \<Rightarrow> byte list
     \<Rightarrow> (rudp_transport \<times> rt_io) option" where
  "rt_handle_udp_packet sha1 t io src_ip src_port buf =
     (if se_status (tr_se t) = DISCONNECTED then Some (t, io)
      else if length buf < RUDP_T_SHA1_SIZE then Some (t, io)
      else if length buf < 20 then
        Some (if se_status (tr_se t) = CONNECT_SENT \<and> src_ip = se_your_ip (tr_se t)
              then upd_se (\<lambda>se. se\<lparr>se_your_port := src_port\<rparr>) t else t, io)
      else case rt_decode_packet sha1 (tr_svc_name_hash t) (se_key_recv (tr_se t)) buf of
        None \<Rightarrow> Some (t, io)
      | Some h \<Rightarrow>
        (let (now, io) = rt_tick64 io in
         if now < rh_your_tick h then Some (t, io) else
         let se = tr_se t;
             se = (if 1 \<le> rh_max_ack h then rt_process_ack2 se (rh_max_ack h) else se);
             se = foldl rt_process_ack se (rh_acks h);
             (se, io) = rt_tick_update se (rh_my_tick h) (rh_your_tick h) io;
             t = t\<lparr>tr_se := se\<rparr>
         in if rh_seq h = 0 then Some (t, io)
            else if rh_seq h = se_magic_disconnect se then rt_set_disconnected sha1 t io True
            else
              let payload = (if RUDP_T_MAX_SEGMENT_SIZE < length (rh_payload h) then [] else rh_payload h);
                  t = (if 1 \<le> length payload
                       then upd_se (\<lambda>se. rt_process_recv_payload se (rh_seq h) payload) t else t);
                  t = (if se_status (tr_se t) = CONNECT_SENT
                       then rt_signal_result (upd_se (\<lambda>se. se\<lparr>se_status := ESTABLISHED\<rparr>) t) True else t)
              in Some (upd_se (\<lambda>se. se\<lparr>se_your_port := src_port\<rparr>) t, io)))"

section \<open>Pumps\<close>

text \<open>
  \<open>io_app_send\<close>/\<open>io_app_recv\<close> list the results of the next system calls on the socket pair; when a
  list is used up the call would block (\<open>EAGAIN\<close>).
\<close>

fun rt_pump_recv_loop ::
  "(byte list \<Rightarrow> byte list) \<Rightarrow> app_send list \<Rightarrow> rudp_transport \<Rightarrow> rt_io \<Rightarrow> (rudp_transport \<times> rt_io) option"
where
  "rt_pump_recv_loop sha1 rs t io =
     (let f = se_recv_fifo (tr_se t); io = io\<lparr>io_app_send := rs\<rparr> in
      if ff_size f < 1 then Some (t, io)
      else let n = (if word_of_nat RUDP_T_MAX_SEGMENT_SIZE < ff_size f
                    then word_of_nat RUDP_T_MAX_SEGMENT_SIZE else ff_size f) in
        do { tmp \<leftarrow> rt_fifo_peek f n;
             (case rs of
                [] \<Rightarrow> Some (t, io)
              | SendAgain # rs' \<Rightarrow> Some (t, io\<lparr>io_app_send := rs'\<rparr>)
              | SendErr # rs' \<Rightarrow> rt_set_disconnected sha1 t (io\<lparr>io_app_send := rs'\<rparr>) False
              | Sent k # rs' \<Rightarrow>
                  (let w = min k (unat n); io = io\<lparr>io_app_send := rs'\<rparr> in
                   if w = 0 then Some (t, io)
                   else do { f' \<leftarrow> rt_fifo_advance f (word_of_nat w);
                             rt_pump_recv_loop sha1 rs' (upd_se (\<lambda>se. se\<lparr>se_recv_fifo := f'\<rparr>) t)
                               (io\<lparr>io_app_out := io_app_out io @ take w tmp\<rparr>) })) })"

definition rt_pump_recv_to_pair ::
  "(byte list \<Rightarrow> byte list) \<Rightarrow> rudp_transport \<Rightarrow> rt_io \<Rightarrow> (rudp_transport \<times> rt_io) option" where
  "rt_pump_recv_to_pair sha1 t io = rt_pump_recv_loop sha1 (io_app_send io) t io"

fun rt_pump_send_loop ::
  "(byte list \<Rightarrow> byte list) \<Rightarrow> app_recv list \<Rightarrow> rudp_transport \<Rightarrow> rt_io \<Rightarrow> (rudp_transport \<times> rt_io) option"
where
  "rt_pump_send_loop sha1 rs t io =
     (let f = se_send_fifo (tr_se t); io = io\<lparr>io_app_recv := rs\<rparr> in
      if RUDP_T_MAX_FIFO_SIZE \<le> ff_size f then Some (t, io)
      else (case rs of
          [] \<Rightarrow> Some (t, io)
        | RecvAgain # rs' \<Rightarrow> Some (t, io\<lparr>io_app_recv := rs'\<rparr>)
        | RecvErr # rs' \<Rightarrow> rt_set_disconnected sha1 t (io\<lparr>io_app_recv := rs'\<rparr>) False
        | RecvEof # rs' \<Rightarrow> rt_set_disconnected sha1 t (io\<lparr>io_app_recv := rs'\<rparr>) False
        | Got tmp # rs' \<Rightarrow>
            do { (_, f') \<leftarrow> rt_fifo_write f tmp;
                 rt_pump_send_loop sha1 rs' (upd_se (\<lambda>se. se\<lparr>se_send_fifo := f'\<rparr>) t) io }))"

definition rt_pump_pair_to_send ::
  "(byte list \<Rightarrow> byte list) \<Rightarrow> rudp_transport \<Rightarrow> rt_io \<Rightarrow> (rudp_transport \<times> rt_io) option" where
  "rt_pump_pair_to_send sha1 t io = rt_pump_send_loop sha1 (io_app_recv io) t io"

section \<open>The send window\<close>

definition rt_seq_min :: "rt_session \<Rightarrow> u64" where
  "rt_seq_min se = (case se_send_segments se of [] \<Rightarrow> 0 | s # _ \<Rightarrow> sg_seq s)"

partial_function (option) rt_segment_send_fifo :: "rt_session \<Rightarrow> rt_session option" where
  "rt_segment_send_fifo se =
     (let seq_min = rt_seq_min se in
      if seq_min \<noteq> 0 \<and> seq_min + word_of_nat RUDP_T_MAX_NUM_ACK - 1 < se_next_send_seq se then Some se
      else if ff_size (se_send_fifo se) = 0 then Some se
      else let size = (if word_of_nat RUDP_T_MAX_SEGMENT_SIZE < ff_size (se_send_fifo se)
                       then word_of_nat RUDP_T_MAX_SEGMENT_SIZE else ff_size (se_send_fifo se)) in
        do { tmp \<leftarrow> rt_fifo_peek (se_send_fifo se) size;
             f \<leftarrow> rt_fifo_advance (se_send_fifo se) size;
             rt_segment_send_fifo ((rt_queue_segment se tmp)\<lparr>se_send_fifo := f\<rparr>) })"

section \<open>Periodic processing\<close>

definition rt_send_icmp_echo ::
  "(byte list \<Rightarrow> byte list) \<Rightarrow> rudp_transport \<Rightarrow> rt_io \<Rightarrow> (rudp_transport \<times> rt_io) option" where
  "rt_send_icmp_echo sha1 t io =
     (let (r, io) = rt_rand_u32 io;
          size = unat (r mod 64 + 64);
          (b, io) = generate_random_bytes size io
      in rt_send_udp sha1 t io (case b of Some b \<Rightarrow> b | None \<Rightarrow> io_junk io size))"

definition rt_next_icmp_tick :: "u64 \<Rightarrow> rudp_transport \<times> rt_io \<Rightarrow> rudp_transport \<times> rt_io" where
  "rt_next_icmp_tick now ti =
     (let (r, io) = rt_rand_u32 (snd ti) in
      (upd_se (\<lambda>se. se\<lparr>se_next_icmp_echo_tick := now + 1000 + ucast (r mod (3000 - 1000))\<rparr>) (fst ti), io))"

definition rt_interrupt_connect ::
  "(byte list \<Rightarrow> byte list) \<Rightarrow> rudp_transport \<Rightarrow> rt_io \<Rightarrow> u64 \<Rightarrow> (rudp_transport \<times> rt_io) option" where
  "rt_interrupt_connect sha1 t io now =
     do { (t, io) \<leftarrow>
            (if se_last_sent_tick (tr_se t) = 0
                \<or> ucast RUDP_T_RESEND_TIMER \<le> now - se_last_sent_tick (tr_se t)
             then let (b, io) = generate_random_bytes 19 io;
                      tmp = se_key_init (tr_se t) @ (case b of Some b \<Rightarrow> b | None \<Rightarrow> io_junk io 19)
                  in do { (t, io) \<leftarrow>
                            (if tr_mode t = MODE_ICMP
                             then do { ti \<leftarrow> rt_send_icmp_echo sha1 t io;
                                       let (t, io) = rt_next_icmp_tick now ti;
                                       (t, io) \<leftarrow> rt_send_udp sha1 t io tmp;
                                       Some (t\<lparr>tr_icmp_type := 7\<rparr>, io) }
                             else rt_send_udp sha1 t io tmp);
                          Some (upd_se (\<lambda>se. se\<lparr>se_last_sent_tick := now\<rparr>) t, io) }
             else Some (t, io));
          (t, io) \<leftarrow>
            (if ucast (tr_connect_timeout_ms t) \<le> now - se_created_tick (tr_se t)
             then rt_set_disconnected sha1 (t\<lparr>tr_error_code := 2\<rparr>) io False else Some (t, io));
          (if tr_mode t = MODE_ICMP \<and> se_next_icmp_echo_tick (tr_se t) \<le> now
           then map_option (rt_next_icmp_tick now) (rt_send_icmp_echo sha1 t io) else Some (t, io)) }"

fun rt_drain :: "rt_session \<Rightarrow> u64 \<Rightarrow> rt_segment list \<Rightarrow> nat \<Rightarrow> (rt_session \<times> nat) option" where
  "rt_drain se cur [] drained = Some (se, drained)"
| "rt_drain se cur (s # ss) drained =
     (let cur = cur + 1; done = (\<lambda>se. se\<lparr>se_last_recv_complete_seq := sg_seq s\<rparr>) in
      if sg_seq s \<noteq> cur then Some (se, drained)
      else if length (sg_data s) = RUDP_T_SHA1_SIZE \<and> sg_data s = se_magic_req se
      then rt_drain (done (if se_send_segments se = [] then rt_queue_segment se (se_magic_resp se) else se))
             cur ss (drained + 1)
      else if length (sg_data s) = RUDP_T_SHA1_SIZE \<and> sg_data s = se_magic_resp se
      then rt_drain (done se) cur ss (drained + 1)
      else do { (rc, f) \<leftarrow> rt_fifo_write (se_recv_fifo se) (sg_data s);
                if rc \<noteq> 0 then Some (se, drained)
                else rt_drain (done (se\<lparr>se_recv_fifo := f\<rparr>)) cur ss (drained + 1) })"

definition rt_drain_recv :: "rt_session \<Rightarrow> rt_session option" where
  "rt_drain_recv se =
     do { (se', drained) \<leftarrow> rt_drain se (se_last_recv_complete_seq se) (se_recv_segments se) 0;
          Some (se'\<lparr>se_recv_segments := drop drained (se_recv_segments se)\<rparr>) }"

definition rt_resend_interval :: "u32 \<Rightarrow> u32 \<Rightarrow> u32" where
  "rt_resend_interval current_rtt num_sent =
     (let shift = (if num_sent < 10 then num_sent else 10);
          interval =
            (if current_rtt \<noteq> 0 then (current_rtt * 120 div 100) * push_bit (unat shift) 1
             else RUDP_T_RESEND_TIMER * push_bit (unat shift) 1)
      in if RUDP_T_RESEND_TIMER_MAX < interval then RUDP_T_RESEND_TIMER_MAX else interval)"

fun rt_retransmit ::
  "(byte list \<Rightarrow> byte list) \<Rightarrow> u64 \<Rightarrow> u64 \<Rightarrow> nat \<Rightarrow> nat \<Rightarrow> rudp_transport \<Rightarrow> rt_io
     \<Rightarrow> (rudp_transport \<times> rt_io) option" where
  "rt_retransmit sha1 now seq_min 0 j t io = Some (t, io)"
| "rt_retransmit sha1 now seq_min (Suc n) j t io =
     (let s = se_send_segments (tr_se t) ! j in
      if seq_min + word_of_nat RUDP_T_MAX_NUM_ACK - 1 < sg_seq s
         \<or> sg_next_send_tick s \<noteq> 0 \<and> now < sg_next_send_tick s
      then rt_retransmit sha1 now seq_min n (j + 1) t io
      else let s' = s\<lparr>sg_num_sent := sg_num_sent s + 1,
                      sg_next_send_tick := now + ucast (rt_resend_interval (se_current_rtt (tr_se t)) (sg_num_sent s))\<rparr>;
               t = upd_se (\<lambda>se. se\<lparr>se_send_segments := (se_send_segments se)[j := s']\<rparr>) t
           in do { (t, io) \<leftarrow> rt_send_segment_now sha1 t io (sg_seq s') (sg_data s');
                   rt_retransmit sha1 now seq_min n (j + 1) t io })"

partial_function (option) rt_flush_acks ::
  "(byte list \<Rightarrow> byte list) \<Rightarrow> rudp_transport \<Rightarrow> rt_io \<Rightarrow> (rudp_transport \<times> rt_io) option" where
  "rt_flush_acks sha1 t io =
     (if 1 \<le> length (se_reply_acks (tr_se t))
      then do { (t, io) \<leftarrow> rt_send_segment_now sha1 t io (se_next_send_seq (tr_se t)) [];
                rt_flush_acks sha1 t io }
      else Some (t, io))"

definition rt_keepalive :: "rudp_transport \<Rightarrow> rt_io \<Rightarrow> u64 \<Rightarrow> rudp_transport \<times> rt_io" where
  "rt_keepalive t io now =
     (let se = tr_se t in
      if se_last_sent_tick se = 0 \<or> se_last_sent_tick se + se_next_keepalive_interval se \<le> now
      then let se = (if se_send_segments se = [] then rt_queue_segment se (se_magic_req se) else se);
               (r, io) = rt_rand_u32 io
           in (t\<lparr>tr_se := se\<lparr>se_next_keepalive_interval :=
                 ucast (RUDP_T_KEEPALIVE_MIN + r mod (RUDP_T_KEEPALIVE_MAX - RUDP_T_KEEPALIVE_MIN))\<rparr>\<rparr>, io)
      else (t, io))"

definition rt_interrupt_established ::
  "(byte list \<Rightarrow> byte list) \<Rightarrow> rudp_transport \<Rightarrow> rt_io \<Rightarrow> u64 \<Rightarrow> (rudp_transport \<times> rt_io) option" where
  "rt_interrupt_established sha1 t io now =
     (if se_latest_recv_my_tick (tr_se t) + RUDP_T_TIMEOUT_MS \<le> now
      then rt_set_disconnected sha1 (t\<lparr>tr_error_code := 2\<rparr>) io False
      else do {
        se \<leftarrow> rt_drain_recv (tr_se t);
        (t, io) \<leftarrow> rt_pump_recv_to_pair sha1 (t\<lparr>tr_se := se\<rparr>) io;
        (t, io) \<leftarrow> rt_pump_pair_to_send sha1 t io;
        se \<leftarrow> rt_segment_send_fifo (tr_se t);
        let (t, io) = rt_keepalive (t\<lparr>tr_se := se\<rparr>) io now;
        (t, io) \<leftarrow> (if tr_mode t = MODE_ICMP \<and> se_next_icmp_echo_tick (tr_se t) \<le> now
                   then map_option (rt_next_icmp_tick now) (rt_send_icmp_echo sha1 t io) else Some (t, io));
        (t, io) \<leftarrow> rt_retransmit sha1 now (rt_seq_min (tr_se t)) (length (se_send_segments (tr_se t))) 0 t io;
        rt_flush_acks sha1 t io })"

definition rt_interrupt ::
  "(byte list \<Rightarrow> byte list) \<Rightarrow> rudp_transport \<Rightarrow> rt_io \<Rightarrow> u64 \<Rightarrow> (rudp_transport \<times> rt_io) option" where
  "rt_interrupt sha1 t io now =
     (case se_status (tr_se t) of
        CONNECT_SENT \<Rightarrow> rt_interrupt_connect sha1 t io now
      | ESTABLISHED \<Rightarrow> rt_interrupt_established sha1 t io now
      | DISCONNECTED \<Rightarrow> Some (t, io))"

definition rt_poll_deadline :: "rudp_transport \<Rightarrow> u64 \<Rightarrow> u64" where
  "rt_poll_deadline t now =
     (let se = tr_se t; deadline = now + RUDP_T_LOOP_WAIT_MS in
      case se_status se of
        CONNECT_SENT \<Rightarrow>
          (let nx = se_last_sent_tick se + ucast RUDP_T_RESEND_TIMER;
               deadline = (if nx < deadline then nx else deadline);
               cto = se_created_tick se + ucast (tr_connect_timeout_ms t)
           in if cto < deadline then cto else deadline)
      | ESTABLISHED \<Rightarrow>
          (let ka = se_last_sent_tick se + se_next_keepalive_interval se;
               deadline = (if ka < deadline then ka else deadline);
               deadline = foldl (\<lambda>d s. if sg_next_send_tick s \<noteq> 0 \<and> sg_next_send_tick s < d
                                       then sg_next_send_tick s else d) deadline (se_send_segments se);
               tmo = se_latest_recv_my_tick se + RUDP_T_TIMEOUT_MS;
               deadline = (if tmo < deadline then tmo else deadline)
           in if 1 \<le> length (se_reply_acks se) \<or> 1 \<le> ff_size (se_recv_fifo se)
                 \<or> 1 \<le> ff_size (se_send_fifo se) then now else deadline)
      | DISCONNECTED \<Rightarrow> deadline)"

definition rt_compute_poll_timeout :: "rudp_transport \<Rightarrow> u64 \<Rightarrow> u64" where
  "rt_compute_poll_timeout t now =
     (let deadline = rt_poll_deadline t now in
      if deadline \<le> now then 0
      else let diff = deadline - now in if 1000 < diff then 1000 else diff)"

section \<open>The worker\<close>

fun rt_worker_drain ::
  "(byte list \<Rightarrow> byte list) \<Rightarrow> (u32 \<times> u16 \<times> byte list) list \<Rightarrow> rudp_transport \<Rightarrow> rt_io
     \<Rightarrow> (rudp_transport \<times> rt_io) option" where
  "rt_worker_drain sha1 [] t io = Some (t, io)"
| "rt_worker_drain sha1 ((src_ip, src_port, dgram) # ds) t io =
     (let buf = take RUDP_T_MAX_PACKET_SIZE dgram in
      if buf = [] then Some (t, io)
      else case rt_strip_frame (tr_mode t) (tr_dns_tran_id t) buf of
        None \<Rightarrow> rt_worker_drain sha1 ds t io
      | Some (payload, tid) \<Rightarrow>
          do { (t, io) \<leftarrow> rt_handle_udp_packet sha1 (t\<lparr>tr_dns_tran_id := tid\<rparr>) io src_ip src_port payload;
               rt_worker_drain sha1 ds t io })"

text \<open>One turn of the loop of \<open>rt_worker\<close> up to its \<open>poll\<close>; the flag says whether it goes on.\<close>

definition rt_worker_iter ::
  "(byte list \<Rightarrow> byte list) \<Rightarrow> (u32 \<times> u16 \<times> byte list) list \<Rightarrow> rudp_transport \<Rightarrow> rt_io
     \<Rightarrow> (rudp_transport \<times> rt_io \<times> bool) option" where
  "rt_worker_iter sha1 ds t io =
     do { (t, io) \<leftarrow> rt_worker_drain sha1 ds t (snd (rt_tick64 io));
          (t, io) \<leftarrow> (if se_status (tr_se t) \<noteq> DISCONNECTED
                     then let (now, io) = rt_tick64 io in rt_interrupt sha1 t io now
                     else Some (t, io));
          Some (t, io, \<not> tr_halt t \<and> \<not> (se_status (tr_se t) = DISCONNECTED \<and> tr_result_ready t)) }"

section \<open>Setting up a session\<close>

definition rt_derive_key :: "(byte list \<Rightarrow> byte list) \<Rightarrow> byte list \<Rightarrow> byte list \<Rightarrow> byte list" where
  "rt_derive_key sha1 init_key s = sha1 (init_key @ be32 (word_of_nat (length s) + 1) @ s)"

definition rt_derive_keys :: "(byte list \<Rightarrow> byte list) \<Rightarrow> rt_session \<Rightarrow> rt_io \<Rightarrow> rt_session \<times> rt_io" where
  "rt_derive_keys sha1 se io =
     (let key1 = rt_derive_key sha1 (se_key_init se) (str ''zurukko'');
          key2 = sha1 (se_key_init se @ key1 @ be32 12 @ str ''yasushineko'');
          (rnd, io) = generate_random_bytes 4 io;
          low = (case rnd of Some r \<Rightarrow> ucast (rd32 r) | None \<Rightarrow> ucast (rd32 (se_key_init se)))
      in (se\<lparr>se_key_send := key2, se_key_recv := key1,
             se_magic_req := rt_derive_key sha1 (se_key_init se) (str ''Magic_KeepAliveRequest''),
             se_magic_resp := rt_derive_key sha1 (se_key_init se) (str ''Magic_KeepAliveResponse''),
             se_magic_disconnect := 0xffffffff00000000 OR low\<rparr>, io))"

definition rt_compute_svc_name_hash :: "(byte list \<Rightarrow> byte list) \<Rightarrow> byte list \<Rightarrow> byte list" where
  "rt_compute_svc_name_hash sha1 name =
     sha1 (map (\<lambda>c. if of_char CHR ''A'' \<le> c \<and> c \<le> of_char CHR ''Z''
                    then c + (of_char CHR ''a'' - of_char CHR ''A'') else c) (take 127 (c_str name)))"

declare rt_pump_recv_loop.simps [simp del] rt_pump_send_loop.simps [simp del]

section \<open>Well-formedness\<close>

definition sha1_ok :: "(byte list \<Rightarrow> byte list) \<Rightarrow> bool" where
  "sha1_ok sha1 \<longleftrightarrow> (\<forall>m. length (sha1 m) = 20)"

definition rand_ok :: "rt_io \<Rightarrow> bool" where
  "rand_ok io \<longleftrightarrow> (\<forall>k n. case io_rand io k n of Some b \<Rightarrow> length b = n | None \<Rightarrow> True) \<and>
     (\<forall>n. length (io_junk io n) = n)"

definition recv_ok :: "app_recv \<Rightarrow> bool" where
  "recv_ok r \<longleftrightarrow> (case r of Got b \<Rightarrow> b \<noteq> [] \<and> length b \<le> 512 | _ \<Rightarrow> True)"

definition io_ok :: "rt_io \<Rightarrow> bool" where
  "io_ok io \<longleftrightarrow> rand_ok io \<and> list_all recv_ok (io_app_recv io)"

text \<open>\<open>io_quiet io io'\<close>: time passed, random bytes were drawn and datagrams sent, nothing else.\<close>

definition io_quiet :: "rt_io \<Rightarrow> rt_io \<Rightarrow> bool" where
  "io_quiet io io' \<longleftrightarrow> io_rand io' = io_rand io \<and> io_junk io' = io_junk io \<and>
     io_app_send io' = io_app_send io \<and> io_app_recv io' = io_app_recv io \<and>
     io_app_out io' = io_app_out io \<and> io_shutdown io' = io_shutdown io \<and>
     (\<exists>ps. io_sent io' = io_sent io @ ps)"

definition seg_ok :: "rt_segment \<Rightarrow> bool" where
  "seg_ok s \<longleftrightarrow> length (sg_data s) \<le> 512"

definition se_ok :: "rt_session \<Rightarrow> bool" where
  "se_ok se \<longleftrightarrow> length (se_key_init se) = 20 \<and> length (se_key_send se) = 20 \<and>
     length (se_key_recv se) = 20 \<and> length (se_next_iv se) = 20 \<and>
     length (se_magic_req se) = 20 \<and> length (se_magic_resp se) = 20 \<and>
     length (se_send_segments se) \<le> 64 \<and> list_all seg_ok (se_send_segments se) \<and>
     length (se_recv_segments se) \<le> 64 \<and> list_all seg_ok (se_recv_segments se) \<and>
     distinct (map sg_seq (se_recv_segments se)) \<and>
     length (se_reply_acks se) \<le> 64 \<and> distinct (se_reply_acks se) \<and>
     fifo_inv (se_send_fifo se) \<and> fifo_cap (se_send_fifo se) = 524288 \<and>
     fifo_inv (se_recv_fifo se) \<and> fifo_cap (se_recv_fifo se) = 524288"

text \<open>The caller of \<open>rudp_transport_connect\<close> is told success exactly when the session was established.\<close>

definition result_inv :: "rt_status \<Rightarrow> bool \<Rightarrow> bool \<Rightarrow> bool" where
  "result_inv status ready ok \<longleftrightarrow>
     (case status of CONNECT_SENT \<Rightarrow> \<not> ready | ESTABLISHED \<Rightarrow> ready \<and> ok | DISCONNECTED \<Rightarrow> ready)"

definition rt_ok :: "rudp_transport \<Rightarrow> bool" where
  "rt_ok t \<longleftrightarrow> result_inv (se_status (tr_se t)) (tr_result_ready t) (tr_result_ok t) \<and>
     length (tr_icmp_id t) = 2 \<and> length (tr_icmp_seq t) = 2 \<and>
     (\<forall>h. tr_svc_name_hash t = Some h \<longrightarrow> length h = 20) \<and> se_ok (tr_se t)"

lemma upd_se_simps [simp]:
  "tr_se (upd_se f t) = f (tr_se t)" "tr_mode (upd_se f t) = tr_mode t"
  "tr_svc_name_hash (upd_se f t) = tr_svc_name_hash t" "tr_icmp_id (upd_se f t) = tr_icmp_id t"
  "tr_icmp_seq (upd_se f t) = tr_icmp_seq t" "tr_halt (upd_se f t) = tr_halt t"
  "tr_result_ready (upd_se f t) = tr_result_ready t" "tr_result_ok (upd_se f t) = tr_result_ok t"
  "upd_se f (upd_se g t) = upd_se (f \<circ> g) t"
  by (simp_all add: upd_se_def)

lemma signal_result_simps [simp]:
  "tr_se (rt_signal_result t b) = tr_se t" "tr_mode (rt_signal_result t b) = tr_mode t"
  "tr_result_ready (rt_signal_result t b)"
  by (simp_all add: rt_signal_result_def)

lemma rt_ok_upd_se [safe_intros]:
  "rt_ok t \<Longrightarrow> se_ok (f (tr_se t)) \<Longrightarrow> se_status (f (tr_se t)) = se_status (tr_se t) \<Longrightarrow> rt_ok (upd_se f t)"
  by (simp add: rt_ok_def)

lemma rt_ok_set_se:
  "rt_ok t \<Longrightarrow> se_ok se \<Longrightarrow> se_status se = se_status (tr_se t) \<Longrightarrow> rt_ok (t\<lparr>tr_se := se\<rparr>)"
  using rt_ok_upd_se [of t "\<lambda>_. se"] by (simp add: upd_se_def)

lemma rt_ok_disconnect:
  "rt_ok t \<Longrightarrow> rt_ok (rt_signal_result (upd_se (\<lambda>se. se\<lparr>se_status := DISCONNECTED\<rparr>) t) b)"
  by (simp add: rt_ok_def result_inv_def rt_signal_result_def se_ok_def)

lemma rt_ok_establish:
  "rt_ok t \<Longrightarrow> se_status (tr_se t) = CONNECT_SENT \<Longrightarrow>
     rt_ok (rt_signal_result (upd_se (\<lambda>se. se\<lparr>se_status := ESTABLISHED\<rparr>) t) True)"
  by (simp add: rt_ok_def result_inv_def rt_signal_result_def se_ok_def)

lemma rt_ok_se: "rt_ok t \<Longrightarrow> se_ok (tr_se t)"
  by (simp add: rt_ok_def)

lemma io_quiet_refl [simp]: "io_quiet io io"
  by (simp add: io_quiet_def)

lemma io_quiet_trans: "io_quiet a b \<Longrightarrow> io_quiet b c \<Longrightarrow> io_quiet a c"
  by (auto simp: io_quiet_def)

lemma io_quiet_counts [simp]:
  "io_quiet io (io'\<lparr>io_ticks := k\<rparr>) = io_quiet io io'" "io_quiet io (io'\<lparr>io_rands := k\<rparr>) = io_quiet io io'"
  "io_quiet io io' \<Longrightarrow> io_quiet io (io'\<lparr>io_sent := io_sent io' @ ps\<rparr>)"
  by (auto simp: io_quiet_def)

lemma io_quiet_ok: "io_quiet io io' \<Longrightarrow> io_ok io \<Longrightarrow> io_ok io'"
  by (simp add: io_quiet_def io_ok_def rand_ok_def)

lemma rand_okD:
  assumes "rand_ok io"
  shows "io_rand io k n = Some b \<Longrightarrow> length b = n" and "length (io_junk io n) = n"
  using assms by (auto simp: rand_ok_def split: option.splits)

lemma rt_tick64_quiet: "rt_tick64 io = (tk, io') \<Longrightarrow> io_quiet io io'"
  by (auto simp: rt_tick64_def)

lemma rand_quiet: "generate_random_bytes n io = (r, io') \<Longrightarrow> io_quiet io io'"
  by (auto simp: generate_random_bytes_def)

lemma rand_u32_quiet: "rt_rand_u32 io = (r, io') \<Longrightarrow> io_quiet io io'"
  by (auto simp: rt_rand_u32_def generate_random_bytes_def)

lemma rand_or_junk_length:
  assumes "rand_ok io" "generate_random_bytes n io = (r, io')"
  shows "length (case r of Some b \<Rightarrow> b | None \<Rightarrow> io_junk io' n) = n"
  using assms rand_okD [OF assms(1)] by (auto simp: generate_random_bytes_def split: option.split)

section \<open>Sending stays inside the buffers\<close>

text \<open>\<open>framed sha1 t pkt fr\<close>: the datagram \<open>fr\<close> carries \<open>pkt\<close> in the transport's mode.\<close>

definition framed :: "(byte list \<Rightarrow> byte list) \<Rightarrow> rudp_transport \<Rightarrow> byte list \<Rightarrow> byte list \<Rightarrow> bool" where
  "framed sha1 t pkt fr \<longleftrightarrow>
     (case tr_mode t of
        MODE_UDP \<Rightarrow> fr = pkt
      | MODE_DNS \<Rightarrow> (\<exists>r. length r = 4 \<and> fr = rt_dns_frame (tr_dns_tran_id t) r pkt)
      | MODE_ICMP \<Rightarrow> fr = rt_icmp_frame sha1 (tr_icmp_type t) (tr_icmp_id t) (tr_icmp_seq t) pkt)"

lemma framed_upd_se [simp]: "framed sha1 (upd_se f t) pkt fr = framed sha1 t pkt fr"
  by (simp add: framed_def upd_se_def split: rt_mode.split)

lemma rt_frame_ok:
  assumes "sha1_ok sha1" "rt_ok t" "rand_ok io" "length data \<le> 1355"
  shows "\<exists>pkt io'. rt_frame sha1 t io data = Some (pkt, io') \<and> framed sha1 t data pkt \<and>
           io_quiet io io' \<and> io_sent io' = io_sent io"
proof (cases "tr_mode t")
  case MODE_UDP
  then show ?thesis by (simp add: rt_frame_def framed_def)
next
  case MODE_DNS
  obtain r io' where g: "generate_random_bytes 4 io = (r, io')" by force
  then have "io_sent io' = io_sent io" by (auto simp: generate_random_bytes_def)
  then show ?thesis
    using MODE_DNS assms(4) rand_or_junk_length [OF assms(3) g] rand_quiet [OF g]
    by (auto simp add: rt_frame_def framed_def g rt_dns_frame_length max_packet_size)
next
  case MODE_ICMP
  then show ?thesis using assms
    by (simp add: rt_frame_def framed_def rt_icmp_frame_length max_packet_size sha1_ok_def rt_ok_def)
qed

lemma mod_window:
  assumes "20 < n"
  shows "r mod (n - 20) + 20 \<le> (n :: nat)"
proof -
  have "r mod (n - 20) < n - 20" using assms by (intro mod_less_divisor) simp
  then show ?thesis by linarith
qed

lemma rt_send_udp_ok:
  assumes "sha1_ok sha1" "rt_ok t" "rand_ok io" "20 \<le> length data" "length data \<le> 1355"
  shows "\<exists>tk iv io' fr. rt_send_udp sha1 t io data =
           Some (upd_se (\<lambda>se. se\<lparr>se_last_sent_tick := tk, se_next_iv := iv\<rparr>) t, io') \<and>
           length iv = 20 \<and> io_quiet io io' \<and> framed sha1 t data fr \<and> io_sent io' = io_sent io @ [fr]"
proof -
  obtain pkt io1 where fr: "rt_frame sha1 t io data = Some (pkt, io1)" "framed sha1 t data pkt"
      "io_quiet io io1" "io_sent io1 = io_sent io"
    using rt_frame_ok [OF assms(1-3,5)] by blast
  let ?io2 = "io1\<lparr>io_sent := io_sent io1 @ [pkt], io_ticks := io_ticks io1 + 1\<rparr>"
  let ?tk = "io_tick io1 (io_ticks io1)"
  have q2: "io_quiet io ?io2" using fr(3) by (auto simp: io_quiet_def)
  have ne: "data \<noteq> []" using assms(4) by auto
  have len: "length (se_next_iv (tr_se t)) = 20" using assms(2) by (simp add: rt_ok_def se_ok_def)
  show ?thesis
  proof (cases "tr_mode t = MODE_UDP")
    case True
    obtain r io3 where r: "rt_rand_u32 ?io2 = (r, io3)" by force
    then have s: "io_sent io3 = io_sent io @ [pkt]"
      using fr(4) by (auto simp: rt_rand_u32_def generate_random_bytes_def)
    let ?m = "if 20 < length data then length data - 20 else 1"
    let ?pos = "unat r mod ?m"
    have "?pos + 20 \<le> length data" using assms(4) mod_window [of "length data" "unat r"] by simp
    then have iv: "mem_read data ?pos 20 = Some (take 20 (drop ?pos data))"
      "length (take 20 (drop ?pos data)) = 20" by (simp_all add: mem_read_def)
    have "rt_send_udp sha1 t io data = Some (upd_se (\<lambda>se. se\<lparr>se_last_sent_tick := ?tk,
        se_next_iv := take 20 (drop ?pos data)\<rparr>) t, io3)"
      using True fr(1) ne r iv(1)
      by (simp add: rt_send_udp_def rt_tick64_def upd_se_def Let_def Suc_le_eq)
    then show ?thesis
      using fr(2) io_quiet_trans [OF q2 rand_u32_quiet [OF r]] s iv(2) by blast
  next
    case False
    obtain r io3 where r: "generate_random_bytes 20 ?io2 = (r, io3)" by force
    then have s: "io_sent io3 = io_sent io @ [pkt]"
      using fr(4) by (auto simp: generate_random_bytes_def)
    have "rand_ok ?io2" using assms(3) q2 by (simp add: rand_ok_def io_quiet_def)
    then have "length b = 20" if "r = Some b" for b
      using r that rand_okD(1) by (auto simp: generate_random_bytes_def)
    then have iv: "length (case r of Some iv \<Rightarrow> iv | None \<Rightarrow> se_next_iv (tr_se t)) = 20"
      using len by (simp split: option.split)
    have "rt_send_udp sha1 t io data = Some (upd_se (\<lambda>se. se\<lparr>se_last_sent_tick := ?tk,
        se_next_iv := (case r of Some iv \<Rightarrow> iv | None \<Rightarrow> se_next_iv (tr_se t))\<rparr>) t, io3)"
      using False fr(1) ne r
      by (simp add: rt_send_udp_def rt_tick64_def upd_se_def Let_def Suc_le_eq split: option.split)
    then show ?thesis
      using fr(2) io_quiet_trans [OF q2 rand_quiet [OF r]] s iv by blast
  qed
qed

lemma padlen_range: "ucast (r mod 255 :: u32) + 1 \<noteq> (0 :: byte)"
proof -
  have "unat (r mod 255) < 255" by (simp add: unat_mod)
  then have "unat (ucast (r mod 255) :: byte) < 255"
    by (simp add: unsigned_ucast_eq take_bit_nat_eq_self)
  then have "unat (ucast (r mod 255) + 1 :: byte) = unat (ucast (r mod 255) :: byte) + 1"
    by (simp add: unat_word_ariths)
  then show ?thesis by (metis Suc_eq_plus1 nat.distinct(1) unat_0)
qed

text \<open>
  \<open>rt_send_segment_now\<close>: the packet fits its buffer, it decodes to what was meant, and only the
  pending acknowledgements, the send tick and the next IV of the session change.
\<close>

lemma rt_send_segment_now_ok:
  assumes sha: "sha1_ok sha1" and t: "rt_ok t" and io: "io_ok io" and d: "length data \<le> 512"
  shows "\<exists>tk iv io' pkt fr. rt_send_segment_now sha1 t io seq data =
           Some (upd_se (\<lambda>se. se\<lparr>se_reply_acks := [], se_last_sent_tick := tk, se_next_iv := iv\<rparr>) t, io') \<and>
           length iv = 20 \<and> io_quiet io io' \<and> io_sent io' = io_sent io @ [fr] \<and> framed sha1 t pkt fr \<and>
           length pkt \<le> RUDP_T_MAX_PACKET_SIZE \<and>
           rt_decode_packet sha1 (tr_svc_name_hash t) (se_key_send (tr_se t)) pkt =
             Some \<lparr>rh_my_tick = fst (rt_tick64 io), rh_your_tick = se_your_tick (tr_se t),
                    rh_max_ack = se_last_recv_complete_seq (tr_se t),
                    rh_acks = se_reply_acks (tr_se t), rh_seq = seq, rh_payload = data\<rparr>"
proof -
  obtain tick io1 where tk: "rt_tick64 io = (tick, io1)" by force
  obtain r io2 where r: "rt_rand_u32 io1 = (r, io2)" by force
  define pad :: byte where "pad = ucast (r mod 255) + 1"
  let ?se = "tr_se t"
  define plain where "plain = rt_segment_plain tick (se_your_tick ?se) (se_last_recv_complete_seq ?se)
      (se_reply_acks ?se) seq data pad"
  define pkt where "pkt = rt_seal sha1 (tr_svc_name_hash t) (se_key_send ?se) (se_next_iv ?se) plain"
  let ?t1 = "upd_se (\<lambda>se. se\<lparr>se_reply_acks := []\<rparr>) t"
  have ok: "length (se_reply_acks ?se) \<le> 64" "length (se_next_iv ?se) = 20"
      "\<And>h. tr_svc_name_hash t = Some h \<Longrightarrow> length h = 20" "\<And>m. length (sha1 m) = 20"
    using t sha by (auto simp: rt_ok_def se_ok_def sha1_ok_def)
  have q: "io_quiet io io2" "io_sent io2 = io_sent io"
    using io_quiet_trans [OF rt_tick64_quiet [OF tk] rand_u32_quiet [OF r]] tk r
    by (auto simp: rt_tick64_def rt_rand_u32_def generate_random_bytes_def)
  have plen: "length plain = 36 + 8 * length (se_reply_acks ?se) + length data + unat pad"
    by (simp add: plain_def rt_plain_length)
  have len: "length pkt = 40 + length plain"
    unfolding pkt_def by (rule rt_seal_length) (use ok in auto)
  have sz: "40 \<le> length pkt" "length pkt \<le> 1355"
    using len plen ok(1) d byte_le_255 [of pad] by simp_all
  have dec: "rt_decode_packet sha1 (tr_svc_name_hash t) (se_key_send ?se) pkt = rt_parse_plain plain"
    unfolding pkt_def by (rule rt_decode_seal) (use ok sz len in auto)
  have "rt_ok ?t1" using t by (intro rt_ok_upd_se) (simp_all add: rt_ok_def se_ok_def)
  moreover have "rand_ok io2" using io_quiet_ok [OF q(1) io] by (simp add: io_ok_def)
  ultimately obtain tk1 iv1 io3 fr where u: "rt_send_udp sha1 ?t1 io2 pkt =
      Some (upd_se (\<lambda>se. se\<lparr>se_last_sent_tick := tk1, se_next_iv := iv1\<rparr>) ?t1, io3)"
      "io_quiet io2 io3" "framed sha1 ?t1 pkt fr" "io_sent io3 = io_sent io2 @ [fr]"
    using rt_send_udp_ok [OF sha, of ?t1 io2 pkt] sz by auto
  let ?io4 = "if data = [] then io3 else snd (rt_tick64 io3)"
  let ?tk = "if data = [] then tk1 else fst (rt_tick64 io3)"
  obtain r2 io5 where r2: "rt_rand_u32 ?io4 = (r2, io5)" by force
  have q5: "io_quiet io3 io5" "io_sent io5 = io_sent io3"
    using rand_u32_quiet [OF r2] r2
    by (auto simp: rt_tick64_def rt_rand_u32_def generate_random_bytes_def io_quiet_def split: if_splits)
  let ?pos = "unat r2 mod (length pkt - 20)"
  have "?pos + 20 \<le> length pkt" using sz by (intro mod_window) simp
  then have iv: "mem_read pkt ?pos 20 = Some (take 20 (drop ?pos pkt))" "length (take 20 (drop ?pos pkt)) = 20"
    by (simp_all add: mem_read_def)
  have "rt_send_segment_now sha1 t io seq data =
      Some (upd_se (\<lambda>se. se\<lparr>se_reply_acks := [], se_last_sent_tick := ?tk,
        se_next_iv := take 20 (drop ?pos pkt)\<rparr>) t, io5)"
    using ok(1) sz u(1) iv(1) r2 unfolding rt_send_segment_now_def tk
    by (auto simp: r Let_def pad_def [symmetric] plain_def [symmetric] pkt_def [symmetric]
        RUDP_T_MAX_NUM_ACK_def max_packet_size upd_se_def Suc_le_eq split: prod.split)
  moreover have "io_quiet io io5" using q(1) u(2) q5(1) io_quiet_trans by blast
  moreover have "rt_decode_packet sha1 (tr_svc_name_hash t) (se_key_send ?se) pkt =
      Some \<lparr>rh_my_tick = fst (rt_tick64 io), rh_your_tick = se_your_tick ?se,
      rh_max_ack = se_last_recv_complete_seq ?se, rh_acks = se_reply_acks ?se, rh_seq = seq,
      rh_payload = data\<rparr>"
    unfolding dec plain_def tk fst_conv
    by (rule rt_parse_segment_plain [OF ok(1)]) (simp add: pad_def padlen_range)
  moreover have "framed sha1 t pkt fr" using u(3) by simp
  moreover have "length pkt \<le> RUDP_T_MAX_PACKET_SIZE" using sz(2) by (simp add: max_packet_size)
  moreover have "io_sent io5 = io_sent io @ [fr]" using q(2) q5(2) u(4) by simp
  ultimately show ?thesis using iv(2) by blast
qed

section \<open>Every operation returns and keeps the session well formed\<close>

definition runs_ok :: "(rudp_transport \<times> rt_io) option \<Rightarrow> bool" where
  "runs_ok r \<longleftrightarrow> (\<exists>t io. r = Some (t, io) \<and> rt_ok t \<and> io_ok io)"

lemma runs_ok_Some [simp]: "runs_ok (Some (t, io)) \<longleftrightarrow> rt_ok t \<and> io_ok io"
  by (simp add: runs_ok_def)

lemma runs_ok_bind:
  assumes "runs_ok r" and "\<And>t io. rt_ok t \<Longrightarrow> io_ok io \<Longrightarrow> runs_ok (k t io)"
  shows "runs_ok (r \<bind> (\<lambda>(t, io). k t io))"
  using assms by (auto simp: runs_ok_def)

lemma status_simps [simp]:
  "se_status (rt_process_ack se q) = se_status se" "se_status (rt_process_ack2 se q) = se_status se"
  "se_status (rt_add_ack se q) = se_status se"
  "se_status (rt_process_recv_payload se q d) = se_status se"
  "se_status (rt_queue_segment se d) = se_status se"
  by (simp_all add: rt_process_ack_def rt_process_ack2_def rt_add_ack_def rt_process_recv_payload_def
      rt_queue_segment_def)

lemma status_acks [simp]: "se_status (foldl rt_process_ack se qs) = se_status se"
  by (induction qs arbitrary: se) simp_all

lemma se_ok_queue [safe_intros]: "se_ok se \<Longrightarrow> length data \<le> 512 \<Longrightarrow> se_ok (rt_queue_segment se data)"
  by (simp add: rt_queue_segment_def se_ok_def seg_ok_def RUDP_T_MAX_NUM_ACK_def)

lemma rt_remove_seq_set: "set (rt_remove_seq q ss) \<subseteq> set ss" "length (rt_remove_seq q ss) \<le> length ss"
  by (induction ss) auto

lemma rt_remove_upto_filter: "rt_remove_upto m ss = filter (\<lambda>s. \<not> sg_seq s \<le> m) ss"
  by (induction ss) auto

lemma se_ok_ack [safe_intros]: "se_ok se \<Longrightarrow> se_ok (rt_process_ack se q)"
  using rt_remove_seq_set [of q "se_send_segments se"]
  by (auto simp: rt_process_ack_def se_ok_def list_all_iff)

lemma se_ok_acks [safe_intros]: "se_ok se \<Longrightarrow> se_ok (foldl rt_process_ack se qs)"
  by (induction qs arbitrary: se) (simp_all add: se_ok_ack)

lemma se_ok_ack2 [safe_intros]: "se_ok se \<Longrightarrow> se_ok (rt_process_ack2 se m)"
  by (auto simp: rt_process_ack2_def se_ok_def list_all_iff rt_remove_upto_filter
      intro: order_trans [OF length_filter_le])

lemma se_ok_add_ack [safe_intros]: "se_ok se \<Longrightarrow> se_ok (rt_add_ack se q)"
  by (auto simp: rt_add_ack_def se_ok_def RUDP_T_MAX_NUM_ACK_def)

lemma se_ok_recv_payload [safe_intros]:
  "se_ok se \<Longrightarrow> length d \<le> 512 \<Longrightarrow> se_ok (rt_process_recv_payload se q d)"
  unfolding rt_process_recv_payload_def
  by (auto intro!: se_ok_add_ack simp: RUDP_T_MAX_NUM_ACK_def) (auto simp: se_ok_def seg_ok_def)

lemma se_ok_fields [simp]:
  "se_ok (se\<lparr>se_status := st\<rparr>) = se_ok se" "se_ok (se\<lparr>se_your_port := p\<rparr>) = se_ok se"
  "se_ok (se\<lparr>se_last_sent_tick := k\<rparr>) = se_ok se"
  "se_ok (se\<lparr>se_next_icmp_echo_tick := k\<rparr>) = se_ok se"
  "se_ok (se\<lparr>se_next_keepalive_interval := k\<rparr>) = se_ok se"
  "se_ok (se\<lparr>se_last_recv_complete_seq := k\<rparr>) = se_ok se"
  "se_ok (se\<lparr>se_your_tick := k\<rparr>) = se_ok se" "se_ok (se\<lparr>se_latest_recv_my_tick := k\<rparr>) = se_ok se"
  "se_ok (se\<lparr>se_latest_recv_my_tick2 := k\<rparr>) = se_ok se" "se_ok (se\<lparr>se_current_rtt := r\<rparr>) = se_ok se"
  by (simp_all add: se_ok_def)

lemma se_ok_tick_update:
  assumes "se_ok se" "rt_tick_update se mt yt io = (se', io')"
  shows "se_ok se'" "io_quiet io io'" "se_status se' = se_status se"
proof -
  let ?mt = "if 2 \<le> mt then mt - 1 else mt"
  define se1 where "se1 = (if se_your_tick se < ?mt then se\<lparr>se_your_tick := ?mt\<rparr> else se)"
  define se2 where "se2 = (if se_latest_recv_my_tick se1 < yt then se1\<lparr>se_latest_recv_my_tick := yt\<rparr> else se1)"
  have ok: "se_ok se2" "se_status se2 = se_status se" using assms(1) by (simp_all add: se2_def se1_def)
  show "se_ok se'" "io_quiet io io'" "se_status se' = se_status se"
    using assms(2) ok unfolding rt_tick_update_def Let_def se1_def [symmetric] se2_def [symmetric]
    by (auto simp: rt_tick64_def split: if_splits)
qed

lemma rt_ok_fields [simp]:
  "rt_ok (t\<lparr>tr_error_code := c\<rparr>) = rt_ok t" "rt_ok (t\<lparr>tr_icmp_type := y\<rparr>) = rt_ok t"
  "rt_ok (t\<lparr>tr_dns_tran_id := i\<rparr>) = rt_ok t"
  by (simp_all add: rt_ok_def)

lemma io_ok_fields [simp]:
  "io_ok (io\<lparr>io_app_send := a\<rparr>) = io_ok io" "io_ok (io\<lparr>io_app_out := a2\<rparr>) = io_ok io"
  "io_ok (io\<lparr>io_shutdown := b\<rparr>) = io_ok io" "io_ok (io\<lparr>io_ticks := k\<rparr>) = io_ok io"
  by (simp_all add: io_ok_def rand_ok_def)

lemma send_udp_runs_ok:
  assumes "sha1_ok sha1" "rt_ok t" "io_ok io" "20 \<le> length data" "length data \<le> 1355"
  shows "runs_ok (rt_send_udp sha1 t io data)"
proof -
  obtain tk iv io' where "rt_send_udp sha1 t io data =
      Some (upd_se (\<lambda>se. se\<lparr>se_last_sent_tick := tk, se_next_iv := iv\<rparr>) t, io')" "length iv = 20"
      "io_quiet io io'"
    using rt_send_udp_ok [OF assms(1,2) _ assms(4,5)] assms(3) io_ok_def by blast
  then show ?thesis
    using assms(2) io_quiet_ok [OF _ assms(3)] by (auto intro!: rt_ok_upd_se simp: rt_ok_def se_ok_def)
qed

lemma send_segment_runs_ok:
  assumes "sha1_ok sha1" "rt_ok t" "io_ok io" "length data \<le> 512"
  shows "runs_ok (rt_send_segment_now sha1 t io seq data)"
proof -
  obtain tk iv io' where "rt_send_segment_now sha1 t io seq data = Some (upd_se
      (\<lambda>se. se\<lparr>se_reply_acks := [], se_last_sent_tick := tk, se_next_iv := iv\<rparr>) t, io')"
      "length iv = 20" "io_quiet io io'"
    using rt_send_segment_now_ok [OF assms] by blast
  then show ?thesis
    using assms(2) io_quiet_ok [OF _ assms(3)] by (auto intro!: rt_ok_upd_se simp: rt_ok_def se_ok_def)
qed

lemma send_disconnects_runs_ok:
  "sha1_ok sha1 \<Longrightarrow> rt_ok t \<Longrightarrow> io_ok io \<Longrightarrow> runs_ok (rt_send_disconnects sha1 n t io)"
  by (induction n arbitrary: t io) (auto intro!: runs_ok_bind send_segment_runs_ok)

lemma set_disconnected_runs_ok:
  assumes "sha1_ok sha1" "rt_ok t" "io_ok io"
  shows "runs_ok (rt_set_disconnected sha1 t io by_you)"
  unfolding rt_set_disconnected_def using assms
  by (auto intro!: runs_ok_bind send_disconnects_runs_ok rt_ok_disconnect)

lemma handle_packet_runs_ok:
  assumes sha: "sha1_ok sha1" and t: "rt_ok t" and io: "io_ok io"
  shows "runs_ok (rt_handle_udp_packet sha1 t io ip port buf)"
proof (cases "rt_decode_packet sha1 (tr_svc_name_hash t) (se_key_recv (tr_se t)) buf")
  case None
  then show ?thesis using t io by (auto simp: rt_handle_udp_packet_def intro!: rt_ok_upd_se rt_ok_se)
next
  case (Some h)
  define se1 where "se1 = foldl rt_process_ack
    (if 1 \<le> rh_max_ack h then rt_process_ack2 (tr_se t) (rh_max_ack h) else tr_se t) (rh_acks h)"
  have s1: "se_ok se1" unfolding se1_def using rt_ok_se [OF t] by (auto intro!: safe_intros)
  obtain now io1 where tk: "rt_tick64 io = (now, io1)" by force
  obtain se2 io2 where u: "rt_tick_update se1 (rh_my_tick h) (rh_your_tick h) io1 = (se2, io2)" by force
  have s2: "se_ok se2" by (rule se_ok_tick_update(1) [OF s1 u])
  have st: "se_status se2 = se_status (tr_se t)" using se_ok_tick_update(3) [OF s1 u] by (simp add: se1_def)
  have io1: "io_ok io1" using io_quiet_ok [OF rt_tick64_quiet [OF tk] io] .
  have io2: "io_ok io2" using io_quiet_ok [OF se_ok_tick_update(2) [OF s1 u] io1] .
  have t2: "rt_ok (t\<lparr>tr_se := se2\<rparr>)" by (rule rt_ok_set_se [OF t s2 st])
  let ?d = "if RUDP_T_MAX_SEGMENT_SIZE < length (rh_payload h) then [] else rh_payload h"
  define t3 where "t3 = (if 1 \<le> length ?d
      then upd_se (\<lambda>se. rt_process_recv_payload se (rh_seq h) ?d) (t\<lparr>tr_se := se2\<rparr>) else t\<lparr>tr_se := se2\<rparr>)"
  have "length ?d \<le> 512" by (simp add: RUDP_T_MAX_SEGMENT_SIZE_def)
  then have t3: "rt_ok t3" unfolding t3_def using t2 s2 by (simp add: rt_ok_upd_se se_ok_recv_payload)
  define t4 where "t4 = (if se_status (tr_se t3) = CONNECT_SENT
      then rt_signal_result (upd_se (\<lambda>se. se\<lparr>se_status := ESTABLISHED\<rparr>) t3) True else t3)"
  have t4: "rt_ok t4" unfolding t4_def using t3 rt_ok_establish [OF t3] by simp
  have "rt_ok (upd_se (\<lambda>se. se\<lparr>se_your_port := port\<rparr>) t4)"
    by (rule rt_ok_upd_se [OF t4]) (simp_all add: rt_ok_se [OF t4])
  then show ?thesis
    unfolding rt_handle_udp_packet_def Some Let_def option.case tk split_conv se1_def [symmetric] u
      t3_def [symmetric] t4_def [symmetric]
    using t io io1 io2 t2 rt_ok_se [OF t]
    by (auto intro!: rt_ok_upd_se set_disconnected_runs_ok [OF sha])
qed

lemma pump_recv_runs_ok:
  assumes "sha1_ok sha1" "rt_ok t" "io_ok io"
  shows "runs_ok (rt_pump_recv_loop sha1 rs t io)"
  using assms(2,3)
proof (induction rs arbitrary: t io)
  case Nil
  then show ?case
    using rtf.peek_ok [of "se_recv_fifo (tr_se t)"]
    by (subst rt_pump_recv_loop.simps) (simp add: Let_def rt_ok_def se_ok_def)
next
  case (Cons r rs)
  have inv: "fifo_inv (se_recv_fifo (tr_se t))" "fifo_cap (se_recv_fifo (tr_se t)) = 524288"
    using Cons.prems by (simp_all add: rt_ok_def se_ok_def)
  have adv: "\<exists>f'. rt_fifo_advance (se_recv_fifo (tr_se t)) w = Some f' \<and>
      rt_ok (upd_se (\<lambda>se. se\<lparr>se_recv_fifo := f'\<rparr>) t)" for w
    using rtf.advance_ok [OF inv(1), of w] inv Cons.prems by (auto simp: rt_ok_def se_ok_def)
  show ?case
  proof (cases r)
    case (Sent k)
    define w where "w = min k (unat (if word_of_nat RUDP_T_MAX_SEGMENT_SIZE < ff_size (se_recv_fifo (tr_se t))
                    then word_of_nat RUDP_T_MAX_SEGMENT_SIZE else ff_size (se_recv_fifo (tr_se t))))"
    obtain f' where "rt_fifo_advance (se_recv_fifo (tr_se t)) (word_of_nat w) = Some f'"
        "rt_ok (upd_se (\<lambda>se. se\<lparr>se_recv_fifo := f'\<rparr>) t)" using adv by blast
    then show ?thesis using Cons Sent
      by (subst rt_pump_recv_loop.simps) (simp add: Let_def rtf.peek_ok [OF inv(1)] w_def [symmetric])
  qed (use Cons.prems in \<open>subst rt_pump_recv_loop.simps,
      simp add: Let_def rtf.peek_ok [OF inv(1)] set_disconnected_runs_ok [OF assms(1)]\<close>)+
qed

lemma pump_send_runs_ok:
  assumes "sha1_ok sha1" "rt_ok t" "io_ok io" "list_all recv_ok rs"
  shows "runs_ok (rt_pump_send_loop sha1 rs t io)"
  using assms(2-4)
proof (induction rs arbitrary: t io)
  case Nil
  then show ?case by (subst rt_pump_send_loop.simps) (simp add: Let_def io_ok_def rand_ok_def)
next
  case (Cons r rs)
  have inv: "fifo_inv (se_send_fifo (tr_se t))" "fifo_cap (se_send_fifo (tr_se t)) = 524288"
    using Cons.prems by (simp_all add: rt_ok_def se_ok_def)
  have io: "io_ok (io\<lparr>io_app_recv := rs\<rparr>)" "io_ok (io\<lparr>io_app_recv := r # rs\<rparr>)"
    using Cons.prems by (simp_all add: io_ok_def rand_ok_def)
  show ?case
  proof (cases r)
    case (Got d)
    then have "length d < 2 ^ 32" using Cons.prems(3) by (simp add: recv_ok_def)
    then obtain rc f' where "rt_fifo_write (se_send_fifo (tr_se t)) d = Some (rc, f')"
        "rt_ok (upd_se (\<lambda>se. se\<lparr>se_send_fifo := f'\<rparr>) t)"
      using Cons.prems(1) inv
      by (cases rule: rtf.write_cases [OF inv(1)]) (auto simp: rt_ok_def se_ok_def)
    then show ?thesis using Cons Got io
      by (subst rt_pump_send_loop.simps) (simp add: Let_def)
  qed (use Cons.prems io in \<open>subst rt_pump_send_loop.simps,
      simp add: Let_def set_disconnected_runs_ok [OF assms(1)]\<close>)+
qed

lemma queue_segment_simps [simp]:
  "se_send_fifo (rt_queue_segment se d) = se_send_fifo se"
  "se_recv_fifo (rt_queue_segment se d) = se_recv_fifo se"
  "se_recv_segments (rt_queue_segment se d) = se_recv_segments se"
  "se_last_recv_complete_seq (rt_queue_segment se d) = se_last_recv_complete_seq se"
  "se_magic_req (rt_queue_segment se d) = se_magic_req se"
  "se_magic_resp (rt_queue_segment se d) = se_magic_resp se"
  by (simp_all add: rt_queue_segment_def)

definition chunk :: "rt_session \<Rightarrow> u32" where
  "chunk se = (if word_of_nat RUDP_T_MAX_SEGMENT_SIZE < ff_size (se_send_fifo se)
               then word_of_nat RUDP_T_MAX_SEGMENT_SIZE else ff_size (se_send_fifo se))"

lemma chunk_unat: "unat (chunk se) = min 512 (length (fifo_contents (se_send_fifo se)))"
  by (auto simp: chunk_def RUDP_T_MAX_SEGMENT_SIZE_def fifo_size_contents word_less_nat_alt)

definition window_full :: "rt_session \<Rightarrow> bool" where
  "window_full se \<longleftrightarrow> rt_seq_min se \<noteq> 0 \<and>
     rt_seq_min se + word_of_nat RUDP_T_MAX_NUM_ACK - 1 < se_next_send_seq se"

text \<open>One turn of the segmentation loop.\<close>

lemma segment_step:
  assumes "se_ok se" "\<not> window_full se" "fifo_contents (se_send_fifo se) \<noteq> []"
  obtains f where "rt_segment_send_fifo se = rt_segment_send_fifo
      ((rt_queue_segment se (take 512 (fifo_contents (se_send_fifo se))))\<lparr>se_send_fifo := f\<rparr>)"
    and "fifo_inv f" "fifo_cap f = fifo_cap (se_send_fifo se)"
    and "fifo_contents f = drop 512 (fifo_contents (se_send_fifo se))"
proof -
  let ?f = "se_send_fifo se"
  have inv: "fifo_inv ?f" using assms(1) by (simp add: se_ok_def)
  obtain f where f: "rt_fifo_advance ?f (chunk se) = Some f" "fifo_inv f" "fifo_cap f = fifo_cap ?f"
      "fifo_contents f = drop (unat (chunk se)) (fifo_contents ?f)"
    using rtf.advance_ok [OF inv, of "chunk se"] by auto
  have t: "take (unat (chunk se)) (fifo_contents ?f) = take 512 (fifo_contents ?f)"
    "drop (unat (chunk se)) (fifo_contents ?f) = drop 512 (fifo_contents ?f)"
    by (simp_all add: chunk_unat min_def)
  have "ff_size ?f \<noteq> 0" using assms(3) fifo_size_contents [of ?f] by (metis length_0_conv unat_0)
  then have "rt_segment_send_fifo se = rt_segment_send_fifo
      ((rt_queue_segment se (take 512 (fifo_contents ?f)))\<lparr>se_send_fifo := f\<rparr>)"
    using assms(2) f(1) rtf.peek_ok [OF inv, of "chunk se"] t
    by (subst rt_segment_send_fifo.simps) (auto simp: window_full_def chunk_def [symmetric] Let_def)
  with f t show thesis using that by simp
qed

lemma segment_stop:
  assumes "window_full se \<or> fifo_contents (se_send_fifo se) = []"
  shows "rt_segment_send_fifo se = Some se"
proof -
  have "ff_size (se_send_fifo se) = 0" if "fifo_contents (se_send_fifo se) = []"
    using that fifo_size_contents [of "se_send_fifo se"] by (simp add: unat_eq_zero)
  then show ?thesis using assms
    by (subst rt_segment_send_fifo.simps) (auto simp: window_full_def Let_def)
qed

lemma segment_send_fifo_ok:
  "se_ok se \<Longrightarrow> \<exists>se'. rt_segment_send_fifo se = Some se' \<and> se_ok se' \<and> se_status se' = se_status se"
proof (induction "length (fifo_contents (se_send_fifo se))" arbitrary: se rule: less_induct)
  case less
  show ?case
  proof (cases "window_full se \<or> fifo_contents (se_send_fifo se) = []")
    case True
    then show ?thesis using less.prems by (simp add: segment_stop)
  next
    case False
    then obtain f where f: "rt_segment_send_fifo se = rt_segment_send_fifo
        ((rt_queue_segment se (take 512 (fifo_contents (se_send_fifo se))))\<lparr>se_send_fifo := f\<rparr>)"
        "fifo_inv f" "fifo_cap f = fifo_cap (se_send_fifo se)"
        "fifo_contents f = drop 512 (fifo_contents (se_send_fifo se))"
      using segment_step [OF less.prems] by blast
    let ?se = "(rt_queue_segment se (take 512 (fifo_contents (se_send_fifo se))))\<lparr>se_send_fifo := f\<rparr>"
    have "se_ok ?se"
      using se_ok_queue [OF less.prems, of "take 512 (fifo_contents (se_send_fifo se))"] f(2,3)
      by (simp add: se_ok_def)
    moreover have "length (fifo_contents (se_send_fifo ?se)) < length (fifo_contents (se_send_fifo se))"
      using f(4) False by simp
    ultimately show ?thesis using less.hyps [of ?se] f(1) by simp
  qed
qed

lemma drain_ok:
  assumes "se_ok se" "list_all seg_ok ss"
  shows "\<exists>se' d. rt_drain se cur ss k = Some (se', d) \<and> se_ok se' \<and> k \<le> d \<and> d \<le> k + length ss \<and>
           se_recv_segments se' = se_recv_segments se \<and> se_status se' = se_status se"
  using assms
proof (induction ss arbitrary: se cur k)
  case Nil
  then show ?case by simp
next
  case (Cons s ss)
  let ?done = "\<lambda>se. se\<lparr>se_last_recv_complete_seq := sg_seq s\<rparr>"
  define P where "P r \<longleftrightarrow> (\<exists>se' d. r = Some (se', d) \<and> se_ok se' \<and> k \<le> d \<and>
      d \<le> k + length (s # ss) \<and> se_recv_segments se' = se_recv_segments se \<and>
      se_status se' = se_status se)" for r
  have rec: "P (rt_drain (?done se1) (cur + 1) ss (Suc k))"
    if "se_ok se1" "se_recv_segments se1 = se_recv_segments se" "se_status se1 = se_status se" for se1
    unfolding P_def using Cons.IH [of "?done se1" "cur + 1" "Suc k"] that Cons.prems(2) by fastforce
  have stop: "P (Some (se, k))" using Cons.prems(1) by (simp add: P_def)
  have inv: "fifo_inv (se_recv_fifo se)" "length (sg_data s) < 2 ^ 32"
    using Cons.prems by (simp_all add: se_ok_def seg_ok_def)
  have resp: "length (se_magic_resp se) \<le> 512" using Cons.prems(1) by (simp add: se_ok_def)
  note rec2 = rec [of se] rec [of "rt_queue_segment se (se_magic_resp se)"]
  have "P (rt_drain se cur (s # ss) k)"
  proof (cases rule: rtf.write_cases [OF inv])
    case (1 f)
    then have "se_ok (se\<lparr>se_recv_fifo := f\<rparr>)" using Cons.prems(1) by (simp add: se_ok_def)
    with 1(1) show ?thesis
      using rec2 rec [of "se\<lparr>se_recv_fifo := f\<rparr>"] stop
        Cons.prems(1) se_ok_queue [OF Cons.prems(1) resp]
      by (auto simp: Let_def)
  next
    case 2
    then show ?thesis
      using rec2 stop Cons.prems(1) se_ok_queue [OF Cons.prems(1) resp]
      by (auto simp: Let_def)
  qed
  then show ?case by (simp add: P_def)
qed

lemma drain_recv_ok:
  assumes "se_ok se"
  shows "\<exists>se'. rt_drain_recv se = Some se' \<and> se_ok se' \<and> se_status se' = se_status se"
proof -
  obtain se' d where d: "rt_drain se (se_last_recv_complete_seq se) (se_recv_segments se) 0 = Some (se', d)"
      "se_ok se'" "se_recv_segments se' = se_recv_segments se" "se_status se' = se_status se"
    using drain_ok [OF assms, of "se_recv_segments se"] assms unfolding se_ok_def by blast
  then have "se_ok (se'\<lparr>se_recv_segments := drop d (se_recv_segments se)\<rparr>)"
    by (auto simp: se_ok_def list_all_iff drop_map [symmetric] dest: in_set_dropD)
  with d show ?thesis by (simp add: rt_drain_recv_def)
qed

lemma keepalive_ok:
  assumes "rt_ok t" "io_ok io" "rt_keepalive t io now = (t', io')"
  shows "rt_ok t' \<and> io_ok io'"
proof -
  obtain r io1 where r: "rt_rand_u32 io = (r, io1)" by force
  have se: "se_ok (tr_se t)" "length (se_magic_req (tr_se t)) \<le> 512"
    using assms(1) by (simp_all add: rt_ok_def se_ok_def)
  show ?thesis
    using assms se_ok_queue [OF se] io_quiet_ok [OF rand_u32_quiet [OF r]] se(1)
    by (auto simp: rt_keepalive_def Let_def r rt_ok_def split: if_splits)
qed

lemma next_icmp_tick_ok:
  "rt_ok (fst ti) \<Longrightarrow> io_ok (snd ti) \<Longrightarrow> rt_ok (fst (rt_next_icmp_tick now ti)) \<and> io_ok (snd (rt_next_icmp_tick now ti))"
proof -
  obtain r io1 where r: "rt_rand_u32 (snd ti) = (r, io1)" by force
  assume "rt_ok (fst ti)" "io_ok (snd ti)"
  then show ?thesis
    using io_quiet_ok [OF rand_u32_quiet [OF r]] by (simp add: rt_next_icmp_tick_def r rt_ok_upd_se rt_ok_se)
qed

lemma icmp_echo_runs_ok:
  assumes "sha1_ok sha1" "rt_ok t" "io_ok io"
  shows "runs_ok (rt_send_icmp_echo sha1 t io)"
proof -
  obtain r io1 where r: "rt_rand_u32 io = (r, io1)" by force
  define size where "size = unat (r mod 64 + 64)"
  have "unat (r mod 64) < 64" by (simp add: unat_mod)
  then have sz: "64 \<le> size" "size < 128" unfolding size_def by (subst unat_add32; simp)+
  obtain b io2 where b: "generate_random_bytes size io1 = (b, io2)" by force
  have q: "io_ok io1" "io_ok io2"
    using io_quiet_ok [OF rand_u32_quiet [OF r] assms(3)] io_quiet_ok [OF rand_quiet [OF b]] by simp_all
  have "length (case b of Some x \<Rightarrow> x | None \<Rightarrow> io_junk io2 size) = size"
    using q(1) by (intro rand_or_junk_length [OF _ b]) (simp add: io_ok_def)
  then show ?thesis
    unfolding rt_send_icmp_echo_def r Let_def split_conv size_def [symmetric] b
    using sz by (intro send_udp_runs_ok [OF assms(1,2) q(2)]) simp_all
qed

lemma icmp_tick_runs_ok:
  assumes "sha1_ok sha1" "rt_ok t" "io_ok io"
  shows "runs_ok (map_option (rt_next_icmp_tick now) (rt_send_icmp_echo sha1 t io))"
proof -
  obtain t' io' where "rt_send_icmp_echo sha1 t io = Some (t', io')" "rt_ok t'" "io_ok io'"
    using icmp_echo_runs_ok [OF assms] by (auto simp: runs_ok_def)
  then show ?thesis
    using next_icmp_tick_ok [of "(t', io')" now] by (cases "rt_next_icmp_tick now (t', io')") simp
qed

lemma se_ok_update_segment:
  assumes "se_ok se" "seg_ok s"
  shows "se_ok (se\<lparr>se_send_segments := (se_send_segments se)[j := s]\<rparr>)"
proof -
  have "set ((se_send_segments se)[j := s]) \<subseteq> insert s (set (se_send_segments se))"
    by (rule set_update_subset_insert)
  then show ?thesis using assms by (auto simp: se_ok_def list_all_iff)
qed

lemma retransmit_runs_ok:
  assumes "sha1_ok sha1"
  shows "rt_ok t \<Longrightarrow> io_ok io \<Longrightarrow> j + n \<le> length (se_send_segments (tr_se t)) \<Longrightarrow>
           runs_ok (rt_retransmit sha1 now mn n j t io)"
proof (induction n arbitrary: j t io)
  case 0
  then show ?case by simp
next
  case (Suc n)
  let ?s = "se_send_segments (tr_se t) ! j"
  let ?s' = "?s\<lparr>sg_num_sent := sg_num_sent ?s + 1,
      sg_next_send_tick := now + ucast (rt_resend_interval (se_current_rtt (tr_se t)) (sg_num_sent ?s))\<rparr>"
  let ?t = "upd_se (\<lambda>se. se\<lparr>se_send_segments := (se_send_segments se)[j := ?s']\<rparr>) t"
  have "?s \<in> set (se_send_segments (tr_se t))" using Suc.prems(3) by simp
  then have s: "seg_ok ?s" using rt_ok_se [OF Suc.prems(1)] by (auto simp: se_ok_def list_all_iff)
  then have t: "rt_ok ?t"
    using Suc.prems(1) by (intro rt_ok_upd_se se_ok_update_segment rt_ok_se) (simp_all add: seg_ok_def)
  obtain tk iv io' where snd: "rt_send_segment_now sha1 ?t io (sg_seq ?s) (sg_data ?s) = Some (upd_se
      (\<lambda>se. se\<lparr>se_reply_acks := [], se_last_sent_tick := tk, se_next_iv := iv\<rparr>) ?t, io')"
      "length iv = 20" "io_quiet io io'"
    using rt_send_segment_now_ok [OF assms t Suc.prems(2) s [unfolded seg_ok_def], of "sg_seq ?s"] by blast
  let ?t2 = "upd_se (\<lambda>se. se\<lparr>se_reply_acks := [], se_last_sent_tick := tk, se_next_iv := iv\<rparr>) ?t"
  have "se_ok ((tr_se ?t)\<lparr>se_reply_acks := [], se_last_sent_tick := tk, se_next_iv := iv\<rparr>)"
    using rt_ok_se [OF t] snd(2) by (simp add: se_ok_def)
  then have t2: "rt_ok ?t2" by (rule rt_ok_upd_se [OF t]) simp
  have "j + 1 + n \<le> length (se_send_segments (tr_se ?t2))" using Suc.prems(3) by simp
  from Suc.IH [OF t2 io_quiet_ok [OF snd(3) Suc.prems(2)] this]
  have "runs_ok (rt_retransmit sha1 now mn n (j + 1) ?t2 io')" .
  then show ?case
    using snd(1) Suc.IH [OF Suc.prems(1,2), of "j + 1"] Suc.prems(3) by (simp add: Let_def del: upd_se_simps)
qed

lemma flush_acks_runs_ok:
  assumes "sha1_ok sha1" "rt_ok t" "io_ok io"
  shows "runs_ok (rt_flush_acks sha1 t io)"
proof (cases "se_reply_acks (tr_se t) = []")
  case True
  then show ?thesis using assms by (subst rt_flush_acks.simps) simp
next
  case False
  obtain t' io' where s: "rt_send_segment_now sha1 t io (se_next_send_seq (tr_se t)) [] = Some (t', io')"
      "rt_ok t'" "io_ok io'"
    using send_segment_runs_ok [OF assms, of "[]" "se_next_send_seq (tr_se t)"] unfolding runs_ok_def by auto
  then have "se_reply_acks (tr_se t') = []"
    using rt_send_segment_now_ok [OF assms, of "[]" "se_next_send_seq (tr_se t)"] by auto
  then have "rt_flush_acks sha1 t' io' = Some (t', io')" by (subst rt_flush_acks.simps) simp
  then show ?thesis using False s by (subst rt_flush_acks.simps) (simp add: Suc_le_eq)
qed

lemma interrupt_connect_runs_ok:
  assumes sha: "sha1_ok sha1" and t: "rt_ok t" and io: "io_ok io"
  shows "runs_ok (rt_interrupt_connect sha1 t io now)"
proof -
  obtain b io1 where b: "generate_random_bytes 19 io = (b, io1)" by force
  let ?tmp = "se_key_init (tr_se t) @ (case b of Some b \<Rightarrow> b | None \<Rightarrow> io_junk io1 19)"
  have io1: "io_ok io1" using io_quiet_ok [OF rand_quiet [OF b] io] .
  have "length (case b of Some b \<Rightarrow> b | None \<Rightarrow> io_junk io1 19) = 19"
    using io by (intro rand_or_junk_length [OF _ b]) (simp add: io_ok_def)
  then have len: "length ?tmp = 39" using t by (simp add: rt_ok_def se_ok_def)
  have send: "runs_ok (rt_send_udp sha1 t' io' ?tmp)" if "rt_ok t'" "io_ok io'" for t' io'
    using len by (intro send_udp_runs_ok [OF sha that]) simp_all
  have icmp: "runs_ok (rt_send_icmp_echo sha1 t io1 \<bind> (\<lambda>ti. let (t, io) = rt_next_icmp_tick now ti in
      rt_send_udp sha1 t io ?tmp \<bind> (\<lambda>(t, io). Some (t\<lparr>tr_icmp_type := 7\<rparr>, io))))"
  proof -
    obtain t2 io2 where 2: "rt_send_icmp_echo sha1 t io1 = Some (t2, io2)" "rt_ok t2" "io_ok io2"
      using icmp_echo_runs_ok [OF sha t io1] unfolding runs_ok_def by auto
    obtain t3 io3 where 3: "rt_next_icmp_tick now (t2, io2) = (t3, io3)" by force
    have "rt_ok t3" "io_ok io3" using next_icmp_tick_ok [of "(t2, io2)" now] 2 3 by simp_all
    then have "runs_ok (rt_send_udp sha1 t3 io3 ?tmp \<bind> (\<lambda>(t, io). Some (t\<lparr>tr_icmp_type := 7\<rparr>, io)))"
      by (intro runs_ok_bind send) simp_all
    then show ?thesis using 2 3 by simp
  qed
  show ?thesis
    unfolding rt_interrupt_connect_def b Let_def split_conv
    by (rule runs_ok_bind)
      (auto intro!: runs_ok_bind send icmp [unfolded Let_def] rt_ok_upd_se
        set_disconnected_runs_ok [OF sha] icmp_tick_runs_ok [OF sha] simp: t io io1 rt_ok_se simp del: Option.bind_assoc)
qed

lemma interrupt_established_runs_ok:
  assumes sha: "sha1_ok sha1" and t: "rt_ok t" and io: "io_ok io"
  shows "runs_ok (rt_interrupt_established sha1 t io now)"
proof -
  obtain se1 where 1: "rt_drain_recv (tr_se t) = Some se1" "se_ok se1" "se_status se1 = se_status (tr_se t)"
    using drain_recv_ok [OF rt_ok_se [OF t]] by blast
  have t1: "rt_ok (t\<lparr>tr_se := se1\<rparr>)" by (rule rt_ok_set_se [OF t 1(2,3)])
  have tail: "runs_ok (rt_segment_send_fifo (tr_se t2) \<bind> (\<lambda>se.
      let (t, io) = rt_keepalive (t2\<lparr>tr_se := se\<rparr>) io2 now in
      (if tr_mode t = MODE_ICMP \<and> se_next_icmp_echo_tick (tr_se t) \<le> now
       then map_option (rt_next_icmp_tick now) (rt_send_icmp_echo sha1 t io) else Some (t, io)) \<bind> (\<lambda>(t, io).
      rt_retransmit sha1 now (rt_seq_min (tr_se t)) (length (se_send_segments (tr_se t))) 0 t io \<bind> (\<lambda>(t, io).
      rt_flush_acks sha1 t io))))" if ok2: "rt_ok t2" "io_ok io2" for t2 io2
  proof -
    obtain se2 where 2: "rt_segment_send_fifo (tr_se t2) = Some se2" "se_ok se2"
        "se_status se2 = se_status (tr_se t2)"
      using segment_send_fifo_ok [OF rt_ok_se [OF ok2(1)]] by blast
    obtain t3 io3 where 3: "rt_keepalive (t2\<lparr>tr_se := se2\<rparr>) io2 now = (t3, io3)" by force
    have "rt_ok (t2\<lparr>tr_se := se2\<rparr>)" by (rule rt_ok_set_se [OF ok2(1) 2(2,3)])
    then have ok3: "rt_ok t3" "io_ok io3" using keepalive_ok [OF _ ok2(2) 3] by simp_all
    show ?thesis
      unfolding 2(1) Option.bind.bind_lunit 3 Let_def split_conv
      by (intro runs_ok_bind flush_acks_runs_ok [OF sha] retransmit_runs_ok [OF sha])
        (auto simp: ok3 icmp_tick_runs_ok [OF sha])
  qed
  show ?thesis
  proof (cases "se_latest_recv_my_tick (tr_se t) + RUDP_T_TIMEOUT_MS \<le> now")
    case True
    then show ?thesis
      using t io by (simp add: rt_interrupt_established_def set_disconnected_runs_ok [OF sha])
  next
    case False
    have send: "runs_ok (rt_pump_pair_to_send sha1 t' io')" if "rt_ok t'" "io_ok io'" for t' io'
      using that pump_send_runs_ok [OF sha that] by (simp add: rt_pump_pair_to_send_def io_ok_def)
    have "runs_ok (rt_pump_recv_to_pair sha1 (t\<lparr>tr_se := se1\<rparr>) io)"
      unfolding rt_pump_recv_to_pair_def by (rule pump_recv_runs_ok [OF sha t1 io])
    then show ?thesis
      unfolding rt_interrupt_established_def 1(1) Option.bind.bind_lunit
      using False by (simp only: if_False) (intro runs_ok_bind send tail)
  qed
qed

lemma interrupt_runs_ok:
  assumes "sha1_ok sha1" "rt_ok t" "io_ok io"
  shows "runs_ok (rt_interrupt sha1 t io now)"
  using assms by (cases "se_status (tr_se t)")
    (simp_all add: rt_interrupt_def interrupt_connect_runs_ok interrupt_established_runs_ok)

lemma worker_drain_runs_ok:
  assumes "sha1_ok sha1"
  shows "rt_ok t \<Longrightarrow> io_ok io \<Longrightarrow> runs_ok (rt_worker_drain sha1 ds t io)"
proof (induction ds arbitrary: t io)
  case Nil
  then show ?case by simp
next
  case (Cons d ds)
  obtain ip port dg where d: "d = (ip, port, dg)" by (metis prod_cases3)
  show ?case
    using Cons
    by (auto simp: d Let_def intro!: runs_ok_bind handle_packet_runs_ok [OF assms] split: option.split)
qed

section \<open>Acknowledgements, window, delivery\<close>

lemma rt_remove_seq_filter:
  "distinct (map sg_seq ss) \<Longrightarrow> rt_remove_seq q ss = filter (\<lambda>s. sg_seq s \<noteq> q) ss"
proof (induction ss)
  case (Cons s ss)
  then have "filter (\<lambda>x. sg_seq x \<noteq> sg_seq s) ss = ss" by (auto simp: filter_id_conv) (metis image_eqI)
  with Cons show ?case by auto
qed simp

lemma acks_filter:
  assumes "distinct (map sg_seq (se_send_segments se))"
  shows "se_send_segments (foldl rt_process_ack se qs) =
           filter (\<lambda>s. sg_seq s \<notin> set qs) (se_send_segments se)"
  using assms
proof (induction qs arbitrary: se)
  case Nil
  then show ?case by simp
next
  case (Cons q qs)
  have "distinct (map sg_seq (se_send_segments (rt_process_ack se q)))"
    using Cons.prems by (simp add: rt_process_ack_def rt_remove_seq_filter distinct_map_filter)
  from Cons.IH [OF this] show ?case
    using Cons.prems by (simp add: rt_process_ack_def rt_remove_seq_filter)
qed

lemma magic_acks: "se_magic_disconnect (foldl rt_process_ack se qs) = se_magic_disconnect se"
  by (induction qs arbitrary: se) (simp_all add: rt_process_ack_def)

lemma send_segments_recv_payload:
  "se_send_segments (rt_process_recv_payload se q d) = se_send_segments se"
  by (simp add: rt_process_recv_payload_def rt_add_ack_def)

text \<open>The send window: sequence numbers increase along the queue and lie below the next one.\<close>

definition window_inv :: "rt_session \<Rightarrow> bool" where
  "window_inv se \<longleftrightarrow> sorted_wrt (<) (map sg_seq (se_send_segments se)) \<and>
     list_all (\<lambda>s. sg_seq s \<noteq> 0 \<and> sg_seq s < se_next_send_seq se) (se_send_segments se) \<and>
     0 < se_next_send_seq se"

lemma sorted_words_length:
  fixes xs :: "u64 list"
  assumes "sorted_wrt (<) xs" "\<forall>x \<in> set xs. a \<le> unat x \<and> unat x < b"
  shows "length xs \<le> b - a"
proof -
  have "distinct (map unat xs)"
    using assms(1) by (simp add: distinct_map strict_sorted_iff inj_on_def word_unat_eq_iff)
  then have "length xs = card (set (map unat xs))" by (metis distinct_card length_map)
  also have "\<dots> \<le> card {a..<b}" using assms(2) by (intro card_mono) auto
  finally show ?thesis by simp
qed

lemma unat_window_end: "unat m + 64 < 2 ^ 64 \<Longrightarrow> unat (m + word_of_nat RUDP_T_MAX_NUM_ACK - 1 :: u64) = unat m + 63"
proof -
  assume "unat m + 64 < 2 ^ 64"
  then have "unat (m + 63) = unat m + 63" by (simp add: unat_word_ariths)
  moreover have "m + word_of_nat RUDP_T_MAX_NUM_ACK - 1 = m + 63" by (simp add: RUDP_T_MAX_NUM_ACK_def)
  ultimately show ?thesis by (simp only:)
qed

text \<open>As long as the window is not full, \<open>rt_queue_segment\<close> has a free slot.\<close>

lemma window_room:
  assumes inv: "window_inv se" and open_: "\<not> window_full se" and small: "unat (se_next_send_seq se) + 64 < 2 ^ 64"
  shows "length (se_send_segments se) < 64"
proof (cases "se_send_segments se")
  case (Cons s ss)
  let ?m = "sg_seq s" and ?n = "se_next_send_seq se"
  have m: "rt_seq_min se = ?m" using Cons by (simp add: rt_seq_min_def)
  have lt: "?m < ?n" "?m \<noteq> 0" using inv Cons by (simp_all add: window_inv_def)
  then have "unat (?m + word_of_nat RUDP_T_MAX_NUM_ACK - 1) = unat ?m + 63"
    using small by (intro unat_window_end) (simp add: word_less_nat_alt)
  moreover have "\<not> ?m + word_of_nat RUDP_T_MAX_NUM_ACK - 1 < ?n"
    using open_ m lt(2) by (simp add: window_full_def)
  ultimately have "unat ?n \<le> unat ?m + 63" by (simp add: word_less_nat_alt)
  moreover have "length (map sg_seq (se_send_segments se)) \<le> unat ?n - unat ?m"
    using inv Cons
    by (intro sorted_words_length) (auto simp: window_inv_def list_all_iff word_less_nat_alt)
  ultimately show ?thesis by simp
qed simp

lemma window_queue:
  assumes inv: "window_inv se" and room: "length (se_send_segments se) < 64"
    and small: "unat (se_next_send_seq se) + 64 < 2 ^ 64"
  shows "window_inv (rt_queue_segment se d)"
    and "unat (se_next_send_seq (rt_queue_segment se d)) = unat (se_next_send_seq se) + 1"
    and "se_send_segments (rt_queue_segment se d) = se_send_segments se @
       [\<lparr>sg_seq = se_next_send_seq se, sg_data = d, sg_next_send_tick = 0, sg_num_sent = 0\<rparr>]"
proof -
  let ?n = "se_next_send_seq se"
  have u: "unat (?n + 1) = unat ?n + 1" using small by (simp add: unat_word_ariths)
  then have lt: "?n < ?n + 1" "0 < ?n + 1" by (simp_all add: word_less_nat_alt)
  have q: "rt_queue_segment se d = se\<lparr>se_send_segments := se_send_segments se @
       [\<lparr>sg_seq = ?n, sg_data = d, sg_next_send_tick = 0, sg_num_sent = 0\<rparr>], se_next_send_seq := ?n + 1\<rparr>"
    using room by (simp add: rt_queue_segment_def RUDP_T_MAX_NUM_ACK_def)
  show "unat (se_next_send_seq (rt_queue_segment se d)) = unat ?n + 1"
    "se_send_segments (rt_queue_segment se d) = se_send_segments se @
       [\<lparr>sg_seq = ?n, sg_data = d, sg_next_send_tick = 0, sg_num_sent = 0\<rparr>]"
    by (simp_all add: q u)
  have "sg_seq s < ?n + 1" if "s \<in> set (se_send_segments se)" for s
    using inv that lt(1) by (auto simp: window_inv_def list_all_iff intro: less_trans)
  then show "window_inv (rt_queue_segment se d)"
    using inv lt by (auto simp: q window_inv_def sorted_wrt_append list_all_iff)
qed

lemma segment_lossless:
  assumes "se_ok se" "window_inv se"
    and "unat (se_next_send_seq se) + length (fifo_contents (se_send_fifo se)) + 64 < 2 ^ 64"
  shows "\<exists>se' new. rt_segment_send_fifo se = Some se' \<and> window_inv se' \<and>
           se_send_segments se' = se_send_segments se @ new \<and>
           concat (map sg_data new) @ fifo_contents (se_send_fifo se') = fifo_contents (se_send_fifo se) \<and>
           map (unat \<circ> sg_seq) new =
             [unat (se_next_send_seq se)..<unat (se_next_send_seq se) + length new] \<and>
           list_all seg_ok new \<and> length (se_send_segments se') \<le> 64 \<and>
           (window_full se' \<or> fifo_contents (se_send_fifo se') = [])"
  using assms
proof (induction "length (fifo_contents (se_send_fifo se))" arbitrary: se rule: less_induct)
  case less
  let ?c = "fifo_contents (se_send_fifo se)"
  show ?case
  proof (cases "window_full se \<or> ?c = []")
    case True
    then show ?thesis using less.prems by (auto simp: segment_stop se_ok_def)
  next
    case False
    then obtain f where f: "rt_segment_send_fifo se = rt_segment_send_fifo
        ((rt_queue_segment se (take 512 ?c))\<lparr>se_send_fifo := f\<rparr>)"
        "fifo_inv f" "fifo_cap f = fifo_cap (se_send_fifo se)" "fifo_contents f = drop 512 ?c"
      using segment_step [OF less.prems(1)] by blast
    let ?q = "rt_queue_segment se (take 512 ?c)" and ?n = "se_next_send_seq se"
    let ?se = "?q\<lparr>se_send_fifo := f\<rparr>"
    let ?s = "\<lparr>sg_seq = ?n, sg_data = take 512 ?c, sg_next_send_tick = 0, sg_num_sent = 0\<rparr>"
    have small: "unat ?n + 64 < 2 ^ 64" using less.prems(3) by linarith
    have room: "length (se_send_segments se) < 64" using window_room [OF less.prems(2) _ small] False by simp
    note w = window_queue [OF less.prems(2) room small, of "take 512 ?c"]
    have pos: "0 < length ?c" using False by simp
    have ok: "se_ok ?se" using se_ok_queue [OF less.prems(1), of "take 512 ?c"] f(2,3) by (simp add: se_ok_def)
    have wi: "window_inv ?se" using w(1) by (simp add: window_inv_def)
    have "unat (se_next_send_seq ?se) + length (fifo_contents (se_send_fifo ?se)) + 64 < 2 ^ 64"
    proof -
      have "length (fifo_contents f) < length ?c" using f(4) pos by simp
      then show ?thesis using w(2) less.prems(3) by simp
    qed
    then obtain se' new where r: "rt_segment_send_fifo ?se = Some se'" "window_inv se'"
        "se_send_segments se' = se_send_segments ?se @ new"
        "concat (map sg_data new) @ fifo_contents (se_send_fifo se') = drop 512 ?c"
        "map (unat \<circ> sg_seq) new = [unat ?n + 1..<unat ?n + 1 + length new]"
        "list_all seg_ok new" "length (se_send_segments se') \<le> 64"
        "window_full se' \<or> fifo_contents (se_send_fifo se') = []"
      using less.hyps [of ?se, OF _ ok wi] f(4) pos w(2) by auto
    have "map (unat \<circ> sg_seq) (?s # new) = [unat ?n..<unat ?n + length (?s # new)]"
      using r(5) by (simp add: upt_conv_Cons del: upt_Suc)
    moreover have "concat (map sg_data (?s # new)) @ fifo_contents (se_send_fifo se') = ?c"
      using r(4) by simp
    moreover have "se_send_segments se' = se_send_segments se @ (?s # new)" using r(3) w(3) by simp
    moreover have "list_all seg_ok (?s # new)" using r(6) by (simp add: seg_ok_def)
    ultimately show ?thesis using f(1) r(1,2,7,8) by metis
  qed
qed

text \<open>The payload a drained segment contributes: keep-alive markers contribute nothing.\<close>

definition is_keepalive :: "rt_session \<Rightarrow> rt_segment \<Rightarrow> bool" where
  "is_keepalive se s \<longleftrightarrow> sg_data s = se_magic_req se \<or> sg_data s = se_magic_resp se"

definition delivered :: "rt_session \<Rightarrow> rt_segment list \<Rightarrow> byte list" where
  "delivered se ss = concat (map (\<lambda>s. if is_keepalive se s then [] else sg_data s) ss)"

lemma drain_in_order:
  assumes "se_ok se" "list_all seg_ok ss"
    and "map sg_seq ss = map (\<lambda>i. cur + 1 + word_of_nat i) [0..<length ss]"
    and "length (fifo_contents (se_recv_fifo se)) + length (delivered se ss) \<le> 524288"
  shows "\<exists>se'. rt_drain se cur ss k = Some (se', k + length ss) \<and>
           fifo_contents (se_recv_fifo se') = fifo_contents (se_recv_fifo se) @ delivered se ss \<and>
           (ss \<noteq> [] \<longrightarrow> se_last_recv_complete_seq se' = cur + word_of_nat (length ss))"
  using assms
proof (induction ss arbitrary: se cur k)
  case Nil
  then show ?case by (simp add: delivered_def)
next
  case (Cons s ss)
  have seq: "sg_seq s = cur + 1" using Cons.prems(3) by (simp add: upt_conv_Cons del: upt_Suc)
  have seqs: "map sg_seq ss = map (\<lambda>i. cur + 1 + 1 + word_of_nat i) [0..<length ss]"
  proof -
    have "map sg_seq ss = map (\<lambda>i. cur + 1 + word_of_nat i) [Suc 0..<Suc (length ss)]"
      using Cons.prems(3) by (simp add: upt_conv_Cons del: upt_Suc)
    then show ?thesis by (simp add: map_Suc_upt [symmetric] add.assoc del: upt_Suc map_Suc_upt)
  qed
  let ?done = "\<lambda>se. se\<lparr>se_last_recv_complete_seq := sg_seq s\<rparr>"
  have rec: "\<exists>se'. rt_drain (?done se1) (cur + 1) ss (Suc k) = Some (se', k + length (s # ss)) \<and>
      fifo_contents (se_recv_fifo se') = fifo_contents (se_recv_fifo se) @ delivered se (s # ss) \<and>
      se_last_recv_complete_seq se' = cur + word_of_nat (length (s # ss))"
    if st: "se_ok se1" "se_magic_req se1 = se_magic_req se" "se_magic_resp se1 = se_magic_resp se"
      "fifo_contents (se_recv_fifo se1) = fifo_contents (se_recv_fifo se) @ delivered se [s]" for se1
  proof -
    have d: "delivered se1 = delivered se" using st by (simp add: delivered_def is_keepalive_def fun_eq_iff)
    have d2: "delivered (?done se1) = delivered se1" by (simp add: delivered_def is_keepalive_def fun_eq_iff)
    have app: "delivered se (s # ss) = delivered se [s] @ delivered se ss" by (simp add: delivered_def)
    obtain se' where se': "rt_drain (?done se1) (cur + 1) ss (Suc k) = Some (se', Suc k + length ss)"
        "fifo_contents (se_recv_fifo se') = fifo_contents (se_recv_fifo se1) @ delivered se ss"
        "ss \<noteq> [] \<longrightarrow> se_last_recv_complete_seq se' = cur + 1 + word_of_nat (length ss)"
      using Cons.IH [of "?done se1" "cur + 1" "Suc k"] st Cons.prems(2,4) seqs by (auto simp: d d2 app)
    moreover have "se_last_recv_complete_seq se' = cur + 1" if "ss = []"
      using se'(1) that seq by auto
    ultimately show ?thesis using st(4) app by (cases "ss = []") (auto simp: add.assoc)
  qed
  have inv: "fifo_inv (se_recv_fifo se)" "fifo_cap (se_recv_fifo se) = 524288" "length (sg_data s) < 2 ^ 32"
    using Cons.prems(1,2) by (simp_all add: se_ok_def seg_ok_def)
  have len: "length (se_magic_req se) = 20" "length (se_magic_resp se) = 20"
    using Cons.prems(1) by (simp_all add: se_ok_def)
  show ?case
  proof (cases "is_keepalive se s")
    case True
    then have "delivered se [s] = []" by (simp add: delivered_def)
    then show ?thesis
      using True seq len rec [of se] rec [of "rt_queue_segment se (se_magic_resp se)"]
        Cons.prems(1) se_ok_queue [OF Cons.prems(1), of "se_magic_resp se"]
      by (auto simp: Let_def is_keepalive_def)
  next
    case False
    then have d: "delivered se [s] = sg_data s" by (simp add: delivered_def)
    then have "length (fifo_contents (se_recv_fifo se)) + length (sg_data s) \<le> fifo_cap (se_recv_fifo se)"
      using Cons.prems(4) inv(2) False by (simp add: delivered_def)
    from rtf.write_ok [OF inv(1) this] obtain f where f: "rt_fifo_write (se_recv_fifo se) (sg_data s) = Some (0, f)"
        "fifo_inv f" "fifo_contents f = fifo_contents (se_recv_fifo se) @ sg_data s" "fifo_cap f = 524288"
      using inv(2) by auto
    have "se_ok (se\<lparr>se_recv_fifo := f\<rparr>)" using Cons.prems(1) f by (simp add: se_ok_def)
    then show ?thesis
      using False seq f rec [of "se\<lparr>se_recv_fifo := f\<rparr>"] d by (auto simp: Let_def is_keepalive_def)
  qed
qed

text \<open>Events on the receiving side: a data segment arrives, or the periodic drain runs.\<close>

datatype rx_event = RxSegment u64 "byte list" | RxDrain

fun rx_run :: "rt_session \<Rightarrow> rx_event list \<Rightarrow> rt_session option" where
  "rx_run se [] = Some se"
| "rx_run se (RxSegment q d # es) = rx_run (rt_process_recv_payload se q d) es"
| "rx_run se (RxDrain # es) = do { se \<leftarrow> rt_drain_recv se; rx_run se es }"

definition stuck :: "rt_session \<Rightarrow> bool" where
  "stuck se \<longleftrightarrow> se_recv_segments se \<noteq> [] \<and>
     sg_seq (hd (se_recv_segments se)) \<noteq> se_last_recv_complete_seq se + 1"

lemma stuck_recv:
  "stuck se \<Longrightarrow> stuck (rt_process_recv_payload se q d) \<and>
     se_last_recv_complete_seq (rt_process_recv_payload se q d) = se_last_recv_complete_seq se \<and>
     se_recv_fifo (rt_process_recv_payload se q d) = se_recv_fifo se"
  by (auto simp: stuck_def rt_process_recv_payload_def rt_add_ack_def)

lemma stuck_drain: "stuck se \<Longrightarrow> rt_drain_recv se = Some se"
  by (cases "se_recv_segments se") (auto simp: stuck_def rt_drain_recv_def Let_def)

lemma stuck_forever:
  assumes "stuck se"
  shows "\<exists>se'. rx_run se es = Some se' \<and> se_recv_fifo se' = se_recv_fifo se \<and>
           se_last_recv_complete_seq se' = se_last_recv_complete_seq se"
  using assms
proof (induction se es rule: rx_run.induct)
  case (2 se q d es)
  then show ?case using stuck_recv [of se q d] by simp
next
  case (3 se es)
  then show ?case by (simp add: stuck_drain)
qed simp

section \<open>Timers\<close>

lemma foldl_deadline:
  fixes d :: u64
  shows "foldl (\<lambda>d s. if sg_next_send_tick s \<noteq> 0 \<and> sg_next_send_tick s < d then sg_next_send_tick s else d) d ss \<le> d"
    and "s \<in> set ss \<Longrightarrow> sg_next_send_tick s \<noteq> 0 \<Longrightarrow>
      foldl (\<lambda>d s. if sg_next_send_tick s \<noteq> 0 \<and> sg_next_send_tick s < d then sg_next_send_tick s else d) d ss
        \<le> sg_next_send_tick s"
proof (induction ss arbitrary: d)
  case (Cons x ss)
  let ?f = "\<lambda>d s. if sg_next_send_tick s \<noteq> 0 \<and> sg_next_send_tick s < d then sg_next_send_tick s else (d :: u64)"
  {
    case 1
    show ?case using Cons.IH(1) [of "?f d x"] by (auto intro: order_trans)
  next
    case 2
    have "?f d x \<le> sg_next_send_tick s" if "s = x" using 2(2) that by (auto simp: not_less)
    then show ?case
      using 2 Cons.IH(1) [of "?f d x"] Cons.IH(2) [of "?f d x"] by (auto intro: order_trans)
  }
qed simp_all

text \<open>Sleeping until a deadline that is at most 100 ms away.\<close>

lemma sleep_until:
  fixes now d :: u64
  assumes "unat now + 100 < 2 ^ 64" "d \<le> now + 100"
  defines "w \<equiv> if d \<le> now then 0 else let diff = d - now in if 1000 < diff then 1000 else diff"
  shows "w \<le> 100" and "now + w = (if d \<le> now then now else d)"
proof -
  have u: "unat (now + 100) = unat now + 100" using assms(1) by (simp add: unat_word_ariths)
  then have le: "unat d \<le> unat now + 100" using assms(2) by (simp add: word_le_nat_alt)
  have "unat (d - now) \<le> 100" if "\<not> d \<le> now"
    using that le by (simp add: unat_sub word_le_nat_alt)
  then have "d - now \<le> 100" if "\<not> d \<le> now" using that by (simp add: word_le_nat_alt)
  moreover from this have "\<not> 1000 < d - now" if "\<not> d \<le> now"
    using that by (auto simp: word_less_nat_alt word_le_nat_alt)
  ultimately show "w \<le> 100" "now + w = (if d \<le> now then now else d)"
    by (auto simp: w_def Let_def)
qed

lemma if_less_min: "(if a < b then a else b) = min a (b :: u64)"
  by (simp add: min_def not_less order.order_iff_strict)

lemma poll_deadline_le:
  assumes "unat now + 100 < 2 ^ 64"
  shows "rt_poll_deadline t now \<le> now + 100"
proof -
  let ?f = "\<lambda>d s. if sg_next_send_tick s \<noteq> 0 \<and> sg_next_send_tick s < d then sg_next_send_tick s else (d :: u64)"
  have n: "now \<le> now + 100" using assms by (simp add: word_le_nat_alt unat_word_ariths)
  have "foldl ?f (min ka (now + 100)) ss \<le> now + 100" for ka and ss :: "rt_segment list"
    using foldl_deadline(1) [of "min ka (now + 100)" ss] by (auto intro: order_trans)
  then show ?thesis
    by (cases "se_status (tr_se t)")
      (simp_all add: rt_poll_deadline_def Let_def RUDP_T_LOOP_WAIT_MS_def if_less_min n min_le_iff_disj)
qed

lemma poll_deadline_segment:
  assumes "se_status (tr_se t) = ESTABLISHED" "s \<in> set (se_send_segments (tr_se t))" "sg_next_send_tick s \<noteq> 0"
  shows "rt_poll_deadline t now \<le> max now (sg_next_send_tick s)"
  using foldl_deadline(2) [OF assms(2,3)] assms(1)
  by (simp add: rt_poll_deadline_def Let_def if_less_min min_le_iff_disj le_max_iff_disj)

lemma poll_timeout_bounds:
  assumes now: "unat now + 100 < 2 ^ 64"
  shows "rt_compute_poll_timeout t now \<le> 100"
    and "se_status (tr_se t) = ESTABLISHED \<Longrightarrow> s \<in> set (se_send_segments (tr_se t)) \<Longrightarrow>
      sg_next_send_tick s \<noteq> 0 \<Longrightarrow> now + rt_compute_poll_timeout t now \<le> max now (sg_next_send_tick s)"
proof -
  note sl = sleep_until [OF now poll_deadline_le [OF now, of t]]
  show "rt_compute_poll_timeout t now \<le> 100"
    using sl(1) by (simp add: rt_compute_poll_timeout_def Let_def)
  show "now + rt_compute_poll_timeout t now \<le> max now (sg_next_send_tick s)"
    if "se_status (tr_se t) = ESTABLISHED" "s \<in> set (se_send_segments (tr_se t))" "sg_next_send_tick s \<noteq> 0"
  proof -
    have "now + rt_compute_poll_timeout t now = (if rt_poll_deadline t now \<le> now then now else rt_poll_deadline t now)"
      using sl(2) by (simp add: rt_compute_poll_timeout_def Let_def)
    then show ?thesis using poll_deadline_segment [OF that, of now] by simp
  qed
qed

lemma unat_shifted:
  assumes "sh \<le> 10" "unat b * 1024 < 2 ^ 32"
  shows "unat (b * push_bit sh 1 :: u32) = unat b * 2 ^ sh"
proof -
  have "(2::nat) ^ sh \<le> 2 ^ 10" using assms(1) by (intro power_increasing) simp_all
  then have le: "(2::nat) ^ sh \<le> 1024" by simp
  then have "unat b * 2 ^ sh \<le> unat b * 1024" by (intro mult_left_mono) simp_all
  then have lt: "unat b * 2 ^ sh < 2 ^ 32" using assms(2) by linarith
  have "b * push_bit sh 1 = word_of_nat (unat b * 2 ^ sh)" by (simp add: push_bit_eq_mult)
  then show ?thesis using unat_of_nat32 [OF lt] by simp
qed

lemma resend_interval_range:
  assumes rtt: "rtt \<le> 3000000"
  shows "0 < rt_resend_interval rtt n \<and> rt_resend_interval rtt n \<le> RUDP_T_RESEND_TIMER_MAX"
proof -
  define b where "b = (if rtt \<noteq> 0 then rtt * 120 div 100 else RUDP_T_RESEND_TIMER)"
  define sh where "sh = unat (if n < 10 then n else 10)"
  have r: "unat rtt \<le> 3000000" using rtt by (simp add: word_le_nat_alt)
  then have "unat (rtt * 120) = unat rtt * 120" by (simp add: unat_word_ariths)
  then have "unat (rtt * 120 div 100) = unat rtt * 120 div 100" by (simp add: unat_div)
  moreover have "0 < unat rtt" if "rtt \<noteq> 0" using that by (simp add: unat_gt_0)
  ultimately have b: "0 < unat b" "unat b \<le> 3600000" using r
    by (auto simp: b_def RUDP_T_RESEND_TIMER_def div_greater_zero_iff)
  have "sh \<le> 10" by (auto simp: sh_def word_less_nat_alt)
  then have u: "unat (b * push_bit sh 1) = unat b * 2 ^ sh" using b(2) by (intro unat_shifted) simp_all
  have "rt_resend_interval rtt n =
      (if RUDP_T_RESEND_TIMER_MAX < b * push_bit sh 1 then RUDP_T_RESEND_TIMER_MAX else b * push_bit sh 1)"
    by (simp add: rt_resend_interval_def b_def sh_def Let_def)
  moreover have "0 < b * push_bit sh 1" using u b(1) by (simp add: word_less_nat_alt)
  ultimately show ?thesis by (auto simp: RUDP_T_RESEND_TIMER_MAX_def)
qed

section \<open>Properties\<close>

text \<open>
  C24. One turn of the worker is memory safe and returns, whatever datagrams arrive, whatever the
  clock and the random generator give and whatever the application's socket does: no buffer is
  left, all loops end, and the session stays well formed (at most 64 segments of at most 512
  bytes in each direction, no duplicate in the receive buffer, at most 64 distinct pending ACKs,
  intact byte queues, the connect result consistent with the session's status).
\<close>

theorem rt_worker_iter_safe:
  assumes "sha1_ok sha1" and "rt_ok t" and "io_ok io"
  shows "\<exists>t' io' go. rt_worker_iter sha1 ds t io = Some (t', io', go) \<and> rt_ok t' \<and> io_ok io'"
proof -
  have "io_ok (snd (rt_tick64 io))" using assms(3) by (simp add: rt_tick64_def)
  then obtain t1 io1 where 1: "rt_worker_drain sha1 ds t (snd (rt_tick64 io)) = Some (t1, io1)" "rt_ok t1" "io_ok io1"
    using worker_drain_runs_ok [OF assms(1,2)] unfolding runs_ok_def by blast
  obtain now io2 where 2: "rt_tick64 io1 = (now, io2)" by force
  have "io_ok io2" using io_quiet_ok [OF rt_tick64_quiet [OF 2] 1(3)] .
  then obtain t3 io3 where "rt_interrupt sha1 t1 io2 now = Some (t3, io3)" "rt_ok t3" "io_ok io3"
    using interrupt_runs_ok [OF assms(1) 1(2)] unfolding runs_ok_def by blast
  then show ?thesis using 1 2 by (simp add: rt_worker_iter_def)
qed

definition demo_sha1 :: "byte list \<Rightarrow> byte list" where
  "demo_sha1 m = replicate 20 0"

definition demo_rt_fifo :: rt_fifo where
  "demo_rt_fifo = rt_fifo_init (Some (replicate 524288 0)) 524288"

definition demo_session :: rt_session where
  "demo_session = \<lparr>se_status = ESTABLISHED, se_key_init = replicate 20 1, se_key_send = replicate 20 2,
     se_key_recv = replicate 20 3, se_magic_req = replicate 20 4, se_magic_resp = replicate 20 5,
     se_magic_disconnect = 0xffffffff00000001, se_next_iv = replicate 20 6, se_next_send_seq = 1,
     se_last_recv_complete_seq = 0, se_your_tick = 0, se_latest_recv_my_tick = 50,
     se_latest_recv_my_tick2 = 50, se_current_rtt = 0, se_last_sent_tick = 0,
     se_next_keepalive_interval = 2500, se_created_tick = 1, se_next_icmp_echo_tick = 0,
     se_your_ip = 1, se_your_port = 443, se_send_segments = [], se_recv_segments = [],
     se_reply_acks = [], se_send_fifo = demo_rt_fifo, se_recv_fifo = demo_rt_fifo\<rparr>"

definition demo_transport :: rudp_transport where
  "demo_transport = \<lparr>tr_error_code = 1, tr_halt = False, tr_connect_timeout_ms = 12000,
     tr_result_ready = True, tr_result_ok = True, tr_mode = MODE_UDP, tr_dns_tran_id = 0,
     tr_icmp_id = [0, 1], tr_icmp_seq = [0, 1], tr_icmp_type = 0, tr_svc_name_hash = None,
     tr_se = demo_session\<rparr>"

definition demo_io :: rt_io where
  "demo_io = \<lparr>io_tick = (\<lambda>k. 100 + word_of_nat k), io_ticks = 0, io_rand = (\<lambda>k n. Some (replicate n 7)),
     io_rands = 0, io_junk = (\<lambda>n. replicate n 0), io_sent = [], io_app_send = [],
     io_app_recv = [Got [1, 2, 3]], io_app_out = [], io_shutdown = False\<rparr>"

lemma demo_rt_fifo_ok: "fifo_inv demo_rt_fifo" "fifo_cap demo_rt_fifo = 524288" "fifo_contents demo_rt_fifo = []"
  unfolding demo_rt_fifo_def using fifo_init_inv [of "replicate 524288 0" 524288]
  by (simp_all add: fifo_cap_def rt_fifo_init_def)

lemma demo_ok: "sha1_ok demo_sha1" "rt_ok demo_transport" "io_ok demo_io" "se_ok demo_session"
  by (simp_all add: sha1_ok_def demo_sha1_def rt_ok_def demo_transport_def demo_session_def se_ok_def
      result_inv_def demo_rt_fifo_ok io_ok_def rand_ok_def demo_io_def recv_ok_def)

theorem rt_worker_iter_safe_witness:
  "\<exists>t' io' go. rt_worker_iter demo_sha1 [(1, 443, [1, 2, 3])] demo_transport demo_io = Some (t', io', go) \<and>
     rt_ok t' \<and> io_ok io'"
  by (rule rt_worker_iter_safe [OF demo_ok(1-3)])

text \<open>
  C32. Wire round trip. \<open>rt_send_segment_now\<close> sends one datagram whose packet fits
  \<open>RUDP_T_MAX_PACKET_SIZE\<close>, and a peer whose receive key is the sender's send key (and whose
  service-name hash agrees) verifies, decrypts and parses it back to the sender's clock, its
  cumulative and pending acknowledgements, the sequence number and the exact payload.
\<close>

theorem rt_segment_roundtrip:
  assumes "sha1_ok sha1" and "rt_ok t" and "io_ok io" and "length data \<le> 512"
    and "se_key_recv (tr_se peer) = se_key_send (tr_se t)"
    and "tr_svc_name_hash peer = tr_svc_name_hash t"
  shows "\<exists>t' io' pkt fr. rt_send_segment_now sha1 t io seq data = Some (t', io') \<and>
           io_sent io' = io_sent io @ [fr] \<and> framed sha1 t pkt fr \<and>
           length pkt \<le> RUDP_T_MAX_PACKET_SIZE \<and> se_reply_acks (tr_se t') = [] \<and>
           rt_decode_packet sha1 (tr_svc_name_hash peer) (se_key_recv (tr_se peer)) pkt =
             Some \<lparr>rh_my_tick = fst (rt_tick64 io), rh_your_tick = se_your_tick (tr_se t),
                    rh_max_ack = se_last_recv_complete_seq (tr_se t),
                    rh_acks = se_reply_acks (tr_se t), rh_seq = seq, rh_payload = data\<rparr>"
proof -
  obtain tk iv io' pkt fr where r: "rt_send_segment_now sha1 t io seq data = Some (upd_se (\<lambda>se. se\<lparr>se_reply_acks := [],
        se_last_sent_tick := tk, se_next_iv := iv\<rparr>) t, io')"
      "io_sent io' = io_sent io @ [fr]" "framed sha1 t pkt fr" "length pkt \<le> RUDP_T_MAX_PACKET_SIZE"
      "rt_decode_packet sha1 (tr_svc_name_hash t) (se_key_send (tr_se t)) pkt =
             Some \<lparr>rh_my_tick = fst (rt_tick64 io), rh_your_tick = se_your_tick (tr_se t),
                    rh_max_ack = se_last_recv_complete_seq (tr_se t),
                    rh_acks = se_reply_acks (tr_se t), rh_seq = seq, rh_payload = data\<rparr>"
    using rt_send_segment_now_ok [OF assms(1-4), of seq] by blast
  then show ?thesis using assms(5,6) by (intro exI conjI) (assumption | simp)+
qed

definition demo_peer :: rudp_transport where
  "demo_peer = upd_se (\<lambda>se. se\<lparr>se_key_recv := replicate 20 2\<rparr>) demo_transport"

theorem rt_segment_roundtrip_witness:
  "\<exists>t' io' pkt fr. rt_send_segment_now demo_sha1 demo_transport demo_io 9 [1, 2, 3] = Some (t', io') \<and>
     io_sent io' = [fr] \<and> framed demo_sha1 demo_transport pkt fr \<and>
     rt_decode_packet demo_sha1 (tr_svc_name_hash demo_peer) (se_key_recv (tr_se demo_peer)) pkt =
       Some \<lparr>rh_my_tick = 100, rh_your_tick = 0, rh_max_ack = 0, rh_acks = [], rh_seq = 9,
              rh_payload = [1, 2, 3]\<rparr>"
proof -
  have "se_key_recv (tr_se demo_peer) = se_key_send (tr_se demo_transport)"
    "tr_svc_name_hash demo_peer = tr_svc_name_hash demo_transport"
    by (simp_all add: demo_peer_def demo_transport_def demo_session_def)
  moreover have "fst (rt_tick64 demo_io) = 100" "io_sent demo_io = []"
      "se_your_tick (tr_se demo_transport) = 0" "se_last_recv_complete_seq (tr_se demo_transport) = 0"
      "se_reply_acks (tr_se demo_transport) = []"
    by (simp_all add: rt_tick64_def demo_io_def demo_transport_def demo_session_def)
  ultimately show ?thesis
    using rt_segment_roundtrip [OF demo_ok(1-3), of "[1, 2, 3]" demo_peer 9] by auto
qed

text \<open>
  C29. The send window is lossless: \<open>rt_segment_send_fifo\<close> ends, moves bytes from the send queue
  into new segments (at most 512 bytes each, numbered consecutively from \<open>next_send_seq\<close>) without
  dropping, duplicating or reordering any, never overflows the 64 slots although
  \<open>rt_queue_segment\<close> silently drops when they are full, and stops only when the window is full or
  the queue is empty.
\<close>

theorem rt_segment_send_fifo_lossless:
  assumes "se_ok se" and "window_inv se"
    and "unat (se_next_send_seq se) + length (fifo_contents (se_send_fifo se)) + 64 < 2 ^ 64"
  shows "\<exists>se' new. rt_segment_send_fifo se = Some se' \<and> window_inv se' \<and>
           se_send_segments se' = se_send_segments se @ new \<and>
           concat (map sg_data new) @ fifo_contents (se_send_fifo se') = fifo_contents (se_send_fifo se) \<and>
           map (unat \<circ> sg_seq) new =
             [unat (se_next_send_seq se)..<unat (se_next_send_seq se) + length new] \<and>
           list_all seg_ok new \<and> length (se_send_segments se') \<le> 64 \<and>
           (window_full se' \<or> fifo_contents (se_send_fifo se') = [])"
  using assms by (rule segment_lossless)

theorem rt_segment_send_fifo_lossless_witness:
  "\<exists>se' new. rt_segment_send_fifo demo_session = Some se' \<and> se_send_segments se' = new \<and>
     length new \<le> 64"
proof -
  have "window_inv demo_session" by (simp add: window_inv_def demo_session_def)
  moreover have "unat (se_next_send_seq demo_session) + length (fifo_contents (se_send_fifo demo_session)) + 64 < 2 ^ 64"
    by (simp add: demo_session_def demo_rt_fifo_ok)
  moreover have "se_send_segments demo_session = []" by (simp add: demo_session_def)
  ultimately show ?thesis using rt_segment_send_fifo_lossless [OF demo_ok(4)] by auto
qed

text \<open>
  C33. In-order delivery: when the received segments are consecutive from the next expected
  sequence number and fit the receive queue, the drain of \<open>rt_interrupt\<close> delivers exactly their
  payloads in order (keep-alive markers left out), empties the buffer and advances the cumulative
  acknowledgement past all of them.
\<close>

theorem rt_drain_in_order:
  assumes "se_ok se"
    and "map sg_seq (se_recv_segments se) =
           map (\<lambda>i. se_last_recv_complete_seq se + 1 + word_of_nat i) [0..<length (se_recv_segments se)]"
    and "length (fifo_contents (se_recv_fifo se)) + length (delivered se (se_recv_segments se)) \<le> 524288"
  shows "\<exists>se'. rt_drain_recv se = Some se' \<and> se_recv_segments se' = [] \<and>
           fifo_contents (se_recv_fifo se') =
             fifo_contents (se_recv_fifo se) @ delivered se (se_recv_segments se) \<and>
           (se_recv_segments se \<noteq> [] \<longrightarrow> se_last_recv_complete_seq se' =
              se_last_recv_complete_seq se + word_of_nat (length (se_recv_segments se)))"
proof -
  have "list_all seg_ok (se_recv_segments se)" using assms(1) by (simp add: se_ok_def)
  from drain_in_order [OF assms(1) this assms(2,3), of 0] show ?thesis
    by (auto simp: rt_drain_recv_def)
qed

definition demo_segment :: "u64 \<Rightarrow> byte list \<Rightarrow> rt_segment" where
  "demo_segment q d = \<lparr>sg_seq = q, sg_data = d, sg_next_send_tick = 0, sg_num_sent = 0\<rparr>"

definition demo_received :: rt_session where
  "demo_received = demo_session\<lparr>se_recv_segments := [demo_segment 1 [10], demo_segment 2 [20, 30]]\<rparr>"

theorem rt_drain_in_order_witness:
  "\<exists>se'. rt_drain_recv demo_received = Some se' \<and> fifo_contents (se_recv_fifo se') = [10, 20, 30] \<and>
     se_last_recv_complete_seq se' = 2"
proof -
  have ok: "se_ok demo_received"
    using demo_ok(4) by (simp add: demo_received_def se_ok_def demo_segment_def seg_ok_def)
  have d: "delivered demo_received (se_recv_segments demo_received) = [10, 20, 30]"
    by (auto simp: demo_received_def delivered_def is_keepalive_def demo_segment_def demo_session_def
        numeral_eq_Suc)
  have f: "fifo_contents (se_recv_fifo demo_received) = []" "se_last_recv_complete_seq demo_received = 0"
      "se_recv_segments demo_received = [demo_segment 1 [10], demo_segment 2 [20, 30]]"
    by (simp_all add: demo_received_def demo_session_def demo_rt_fifo_ok)
  have "map sg_seq (se_recv_segments demo_received) = map (\<lambda>i. se_last_recv_complete_seq demo_received + 1 +
      word_of_nat i) [0..<length (se_recv_segments demo_received)]"
    by (simp add: f demo_segment_def)
  from rt_drain_in_order [OF ok this] show ?thesis unfolding d unfolding f by auto
qed

text \<open>
  Reordering stalls the stream for good. The receive buffer is filled in arrival order but
  drained in array order, so when a segment other than the next expected one arrives into an
  empty buffer, no later event (the missing segment and its retransmissions included) ever
  delivers a byte or advances the cumulative acknowledgement again.
\<close>

theorem rt_reorder_stall:
  assumes "se_recv_segments se = []" and "se_last_recv_complete_seq se < q"
    and "q \<noteq> se_last_recv_complete_seq se + 1" and "q \<le> se_last_recv_complete_seq se + 64"
  shows "\<exists>se'. rx_run se (RxSegment q d # es) = Some se' \<and> se_recv_fifo se' = se_recv_fifo se \<and>
           se_last_recv_complete_seq se' = se_last_recv_complete_seq se"
proof -
  let ?se = "rt_process_recv_payload se q d"
  have "stuck ?se \<and> se_recv_fifo ?se = se_recv_fifo se \<and>
      se_last_recv_complete_seq ?se = se_last_recv_complete_seq se"
    using assms by (auto simp: stuck_def rt_process_recv_payload_def rt_add_ack_def RUDP_T_MAX_NUM_ACK_def not_less)
  then show ?thesis using stuck_forever [of ?se es] by simp
qed

theorem rt_reorder_stall_witness:
  "\<exists>se'. rx_run demo_session [RxSegment 2 [20], RxSegment 1 [10], RxDrain, RxSegment 1 [10], RxDrain] = Some se' \<and>
     fifo_contents (se_recv_fifo se') = [] \<and> se_last_recv_complete_seq se' = 0"
  using rt_reorder_stall [of demo_session 2 "[20]" "[RxSegment 1 [10], RxDrain, RxSegment 1 [10], RxDrain]"]
  by (auto simp: demo_session_def demo_rt_fifo_ok)

text \<open>
  C34. Acknowledgements are exact: after an accepted packet (other than the peer's disconnect
  signal) the segments still in flight are precisely those neither covered by the cumulative
  acknowledgement nor acknowledged by number, in their old order.
\<close>

theorem rt_ack_exact:
  assumes "rt_decode_packet sha1 (tr_svc_name_hash t) (se_key_recv (tr_se t)) buf = Some h"
    and "se_status (tr_se t) \<noteq> DISCONNECTED" and "20 \<le> length buf"
    and "rh_your_tick h \<le> fst (rt_tick64 io)"
    and "rh_seq h \<noteq> se_magic_disconnect (tr_se t)"
    and "distinct (map sg_seq (se_send_segments (tr_se t)))"
  shows "\<exists>t' io'. rt_handle_udp_packet sha1 t io ip port buf = Some (t', io') \<and>
           se_send_segments (tr_se t') =
             filter (\<lambda>s. \<not> (1 \<le> rh_max_ack h \<and> sg_seq s \<le> rh_max_ack h) \<and> sg_seq s \<notin> set (rh_acks h))
               (se_send_segments (tr_se t))"
proof -
  define se0 where "se0 = (if 1 \<le> rh_max_ack h then rt_process_ack2 (tr_se t) (rh_max_ack h) else tr_se t)"
  define se1 where "se1 = foldl rt_process_ack se0 (rh_acks h)"
  have d0: "distinct (map sg_seq (se_send_segments se0))"
    using assms(6) by (simp add: se0_def rt_process_ack2_def rt_remove_upto_filter distinct_map_filter)
  have seg: "se_send_segments se1 =
      filter (\<lambda>s. \<not> (1 \<le> rh_max_ack h \<and> sg_seq s \<le> rh_max_ack h) \<and> sg_seq s \<notin> set (rh_acks h))
        (se_send_segments (tr_se t))"
    unfolding se1_def acks_filter [OF d0]
    by (auto simp: se0_def rt_process_ack2_def rt_remove_upto_filter intro: filter_cong)
  obtain now io1 where tk: "rt_tick64 io = (now, io1)" by force
  obtain se2 io2 where u: "rt_tick_update se1 (rh_my_tick h) (rh_your_tick h) io1 = (se2, io2)" by force
  have se2: "se_send_segments se2 = se_send_segments se1" "se_magic_disconnect se2 = se_magic_disconnect se1"
    using u by (auto simp: rt_tick_update_def rt_tick64_def Let_def split: if_splits)
  have m: "se_magic_disconnect se1 = se_magic_disconnect (tr_se t)"
    by (simp add: se1_def se0_def magic_acks rt_process_ack2_def)
  have "\<not> now < rh_your_tick h" using assms(4) tk by simp
  then show ?thesis
    unfolding rt_handle_udp_packet_def assms(1) Let_def option.case tk split_conv
      se0_def [symmetric] se1_def [symmetric] u
    using assms(2,3,5) se2 m seg by (simp add: send_segments_recv_payload)
qed

definition demo_inflight :: rudp_transport where
  "demo_inflight = upd_se (\<lambda>se. se\<lparr>se_send_segments := [demo_segment 1 [1], demo_segment 2 [2], demo_segment 3 [3],
     demo_segment 4 [4]]\<rparr>) demo_transport"

definition demo_ack_packet :: "byte list" where
  "demo_ack_packet = rt_seal demo_sha1 None (replicate 20 3) (replicate 20 9)
     (rt_segment_plain 70 60 2 [4] 1 [] 5)"

theorem rt_ack_exact_witness:
  "\<exists>t' io'. rt_handle_udp_packet demo_sha1 demo_inflight demo_io 1 443 demo_ack_packet = Some (t', io') \<and>
     se_send_segments (tr_se t') = [demo_segment 3 [3]]"
proof -
  have f: "tr_svc_name_hash demo_inflight = None" "se_key_recv (tr_se demo_inflight) = replicate 20 3"
      "se_status (tr_se demo_inflight) = ESTABLISHED" "fst (rt_tick64 demo_io) = 100"
      "se_magic_disconnect (tr_se demo_inflight) = 0xffffffff00000001"
      "se_send_segments (tr_se demo_inflight) =
         [demo_segment 1 [1], demo_segment 2 [2], demo_segment 3 [3], demo_segment 4 [4]]"
    by (simp_all add: demo_inflight_def demo_transport_def demo_session_def rt_tick64_def demo_io_def)
  have "rt_decode_packet demo_sha1 None (replicate 20 3) demo_ack_packet =
      Some \<lparr>rh_my_tick = 70, rh_your_tick = 60, rh_max_ack = 2, rh_acks = [4], rh_seq = 1, rh_payload = []\<rparr>"
    unfolding demo_ack_packet_def
    by (subst rt_decode_seal) (simp_all add: demo_sha1_def rt_plain_length rt_parse_segment_plain)
  moreover have "length demo_ack_packet = 40 + length (rt_segment_plain 70 60 2 [4] 1 [] 5)"
    unfolding demo_ack_packet_def by (rule rt_seal_length) (simp_all add: demo_sha1_def)
  ultimately show ?thesis
    using rt_ack_exact [of demo_sha1 demo_inflight demo_ack_packet _ demo_io 1 443]
    by (simp add: f demo_segment_def)
qed

text \<open>
  \<open>rt_pump_pair_to_send\<close> ignores the result of \<open>rt_fifo_write\<close>: when the send queue is not
  full but has less room than the bytes just read from the application, those bytes are consumed
  from the socket and vanish.
\<close>

theorem rt_pump_drops_bytes:
  assumes "rt_ok t" and "io_app_recv io = [Got d]" and "length d \<le> 512"
    and "length (fifo_contents (se_send_fifo (tr_se t))) < 524288"
    and "524288 < length (fifo_contents (se_send_fifo (tr_se t))) + length d"
  shows "rt_pump_pair_to_send sha1 t io = Some (t, io\<lparr>io_app_recv := []\<rparr>)"
proof -
  let ?f = "se_send_fifo (tr_se t)"
  have inv: "fifo_inv ?f" "fifo_cap ?f = 524288" using assms(1) by (simp_all add: rt_ok_def se_ok_def)
  have w: "rt_fifo_write ?f d = Some (-1, ?f)" by (rule rtf.write_full) (use inv assms in simp_all)
  have open_: "\<not> RUDP_T_MAX_FIFO_SIZE \<le> ff_size ?f"
    using assms(4) fifo_size_contents [of ?f] by (simp add: RUDP_T_MAX_FIFO_SIZE_def word_le_nat_alt)
  have "upd_se (\<lambda>se. se\<lparr>se_send_fifo := ?f\<rparr>) t = t" by (simp add: upd_se_def)
  then show ?thesis
    using w open_ assms(2)
    by (simp add: rt_pump_pair_to_send_def rt_pump_send_loop.simps [of _ "[]"]
        rt_pump_send_loop.simps [of _ "[Got d]"] Let_def)
qed

definition demo_nearly_full :: rudp_transport where
  "demo_nearly_full = upd_se (\<lambda>se. se\<lparr>se_send_fifo := \<lparr>ff_buf = replicate 524288 0, ff_cap = 524288,
     ff_head = 0, ff_size = 524287\<rparr>\<rparr>) demo_transport"

theorem rt_pump_drops_bytes_witness:
  "rt_pump_pair_to_send demo_sha1 demo_nearly_full demo_io = Some (demo_nearly_full, demo_io\<lparr>io_app_recv := []\<rparr>)"
proof -
  have f: "length (fifo_contents (se_send_fifo (tr_se demo_nearly_full))) = 524287"
    by (simp add: demo_nearly_full_def fifo_size_contents)
  have "rt_ok demo_nearly_full"
    unfolding demo_nearly_full_def
    by (rule rt_ok_upd_se [OF demo_ok(2)])
      (use demo_ok(4) in \<open>simp_all add: se_ok_def demo_transport_def fifo_inv_def fifo_cap_def\<close>)
  then show ?thesis
    by (rule rt_pump_drops_bytes [where d = "[1, 2, 3]"]) (simp_all add: f demo_io_def)
qed

text \<open>
  The worker never sleeps through a timer: the poll timeout is at most 100 ms, and the wait
  ends no later than any armed retransmission of an established session (or at once when it is due).
\<close>

theorem rt_poll_timeout_bounded:
  assumes "unat now + 100 < 2 ^ 64"
  shows "rt_compute_poll_timeout t now \<le> 100 \<and>
    (se_status (tr_se t) = ESTABLISHED \<longrightarrow>
      list_all (\<lambda>s. sg_next_send_tick s = 0 \<or>
        now + rt_compute_poll_timeout t now \<le> max now (sg_next_send_tick s)) (se_send_segments (tr_se t)))"
  using poll_timeout_bounds [OF assms, of t] by (auto simp: list_all_iff)

theorem rt_poll_timeout_bounded_witness:
  "rt_compute_poll_timeout demo_inflight 1000 \<le> 100"
  using rt_poll_timeout_bounded [of 1000 demo_inflight] by simp

text \<open>
  Retransmission backoff: for every round-trip time up to 50 minutes and every number of
  transmissions the 32-bit interval computation does not wrap; the interval is positive and at
  most \<open>RUDP_T_RESEND_TIMER_MAX\<close>.
\<close>

theorem rt_resend_interval_bounds:
  assumes "rtt \<le> 3000000"
  shows "0 < rt_resend_interval rtt num_sent \<and> rt_resend_interval rtt num_sent \<le> RUDP_T_RESEND_TIMER_MAX"
  using assms by (rule resend_interval_range)

theorem rt_resend_interval_bounds_witness:
  "0 < rt_resend_interval 200 12 \<and> rt_resend_interval 200 12 \<le> RUDP_T_RESEND_TIMER_MAX"
  using rt_resend_interval_bounds [of 200 12] by simp

text \<open>A short datagram never reaches the port-learning branch of \<open>rt_handle_udp_packet\<close>.\<close>

lemma rt_short_packet_ignored:
  "length buf < 20 \<Longrightarrow> rt_handle_udp_packet sha1 t io ip port buf = Some (t, io)"
  by (simp add: rt_handle_udp_packet_def)

end
