(* ===== verification/Net_World.thy ===== *)
theory Net_World
  imports Wire_Prelude
begin

text \<open>
  The environment of the data path: the clock, the random generator, UDP and TCP sockets and the
  TLS library. Every call the code makes to it consumes the next answer of a script that is part
  of the state \<open>net\<close>, so a theorem about all states is a theorem about all behaviours of the
  network. A read script that has run out answers like a connection the peer has closed.

  \<^item> \<open>nt_tick k\<close> is the answer of the \<open>k\<close>-th reading of the monotonic clock.
  \<^item> \<open>nt_rand k n\<close> is the answer of the \<open>k\<close>-th call for \<open>n\<close> random bytes (\<open>None\<close>: the generator failed).
  \<^item> A TLS object or a TCP socket answers a read with some bytes (never more than asked: what does
    not fit stays for the next read), with end of file or with an error; it answers a write by
    accepting some bytes or failing.
  \<^item> \<open>nt_crand k\<close> is the answer of the \<open>k\<close>-th call of the C library's \<open>rand\<close>; \<open>nt_malloc\<close> and
    \<open>nt_thread\<close> say which allocations and thread creations succeed (all, once the list is used up).
  \<^item> \<open>nt_sock k\<close> is the answer of the \<open>k\<close>-th attempt to open and bind a UDP socket.
\<close>

section \<open>Addresses and answers\<close>

datatype sock_addr = Sa_in u32 u16 | Sa_in6 "byte list" u16

fun is_in6 :: "sock_addr \<Rightarrow> bool" where
  "is_in6 (Sa_in a p) = False"
| "is_in6 (Sa_in6 a p) = True"

datatype sock_answer = Sock_fail | Bind_fail int | Sock_ok int u16

datatype errno = EAGAIN | EINTR | E_other

datatype ssl_err = SSL_WANT_READ | SSL_WANT_WRITE | SSL_SYSCALL | SSL_ZERO_RETURN | SSL_LIB

datatype rx_answer = Rx "byte list" | Rx_eof | Rx_err ssl_err errno

datatype tx_answer = Tx nat | Tx_err errno

datatype hs_answer = Hs_ok | Hs_want | Hs_fail

datatype poll_answer = Poll_timeout | Poll_err | Poll_ready "int \<Rightarrow> bool \<times> bool \<times> bool"

text \<open>
  \<open>st_left\<close> is what a read left over of the last delivery (for TLS: the bytes \<open>SSL_pending\<close> reports).
  A poll answer gives for each descriptor \<open>POLLIN\<close>, \<open>POLLERR|POLLHUP\<close> and \<open>POLLNVAL\<close>.
\<close>

record stream =
  st_left :: "byte list"
  st_rx :: "rx_answer list"
  st_tx :: "tx_answer list"
  st_out :: "byte list"

record ssl_context =
  sc_ctx :: bool
  sc_ssl :: "stream option"
  sc_connected :: bool
  sc_hs :: "hs_answer list"
  sc_freed :: bool

text \<open>
  Locks of the data path in their global order, and the events recorded in \<open>nt_trace\<close>: taking and
  releasing a lock, and a use of the \<open>SSL\<close> object of a context.
\<close>

datatype lock = L_connect | L_lifetime | L_write | L_io int | L_tls_rd | L_tls_wr | L_openssl

datatype lock_event = Lock lock | Unlock lock | Touch nat

record net =
  nt_tick :: "nat \<Rightarrow> u64"
  nt_ticks :: nat
  nt_rand :: "nat \<Rightarrow> nat \<Rightarrow> byte list option"
  nt_rands :: nat
  nt_crand :: "nat \<Rightarrow> nat"
  nt_crands :: nat
  nt_sock :: "nat \<Rightarrow> sock_answer"
  nt_socks :: nat
  nt_udp_in :: "(byte list \<times> sock_addr) list"
  nt_udp_out :: "(byte list \<times> sock_addr) list"
  nt_udp_send :: "bool list"
  nt_tcp :: "int \<Rightarrow> stream"
  nt_tls :: "nat \<Rightarrow> ssl_context"
  nt_closed :: "int list"
  nt_poll :: "poll_answer list"
  nt_malloc :: "bool list"
  nt_thread :: "bool list"
  nt_trace :: "lock_event list"

section \<open>Clock and random numbers\<close>

definition softether_tick_ms :: "net \<Rightarrow> u64 \<times> net" where
  "softether_tick_ms nt = (nt_tick nt (nt_ticks nt), nt\<lparr>nt_ticks := nt_ticks nt + 1\<rparr>)"

definition random_bytes :: "nat \<Rightarrow> net \<Rightarrow> byte list option \<times> net" where
  "random_bytes n nt = (nt_rand nt (nt_rands nt) n, nt\<lparr>nt_rands := nt_rands nt + 1\<rparr>)"

text \<open>\<open>generate_random_bytes\<close> filling a buffer: on failure the buffer keeps what it held.\<close>

definition fill_random :: "byte list \<Rightarrow> net \<Rightarrow> byte list \<times> net" where
  "fill_random old nt =
     (let (r, nt) = random_bytes (length old) nt in
      ((case r of None \<Rightarrow> old | Some b \<Rightarrow> b), nt))"

definition rand_u32 :: "net \<Rightarrow> u32 \<times> net" where
  "rand_u32 nt =
     (let (r, nt) = random_bytes 4 nt in ((case r of None \<Rightarrow> 0 | Some b \<Rightarrow> rd32 b), nt))"

definition net_close :: "int \<Rightarrow> net \<Rightarrow> net" where
  "net_close fd nt = nt\<lparr>nt_closed := nt_closed nt @ [fd]\<rparr>"

definition net_malloc :: "net \<Rightarrow> bool \<times> net" where
  "net_malloc nt = (case nt_malloc nt of [] \<Rightarrow> (True, nt) | b # bs \<Rightarrow> (b, nt\<lparr>nt_malloc := bs\<rparr>))"

definition net_thread :: "net \<Rightarrow> bool \<times> net" where
  "net_thread nt = (case nt_thread nt of [] \<Rightarrow> (True, nt) | b # bs \<Rightarrow> (b, nt\<lparr>nt_thread := bs\<rparr>))"

definition c_rand :: "net \<Rightarrow> nat \<times> net" where
  "c_rand nt = (nt_crand nt (nt_crands nt), nt\<lparr>nt_crands := nt_crands nt + 1\<rparr>)"

definition net_poll :: "net \<Rightarrow> poll_answer \<times> net" where
  "net_poll nt = (case nt_poll nt of [] \<Rightarrow> (Poll_timeout, nt) | p # ps \<Rightarrow> (p, nt\<lparr>nt_poll := ps\<rparr>))"

definition net_ev :: "lock_event \<Rightarrow> net \<Rightarrow> net" where
  "net_ev e nt = nt\<lparr>nt_trace := nt_trace nt @ [e]\<rparr>"

section \<open>Streams\<close>

text \<open>
  One call for at most \<open>len\<close> bytes: what is left over first, then the next answer. An answer of no
  bytes is end of file.
\<close>

definition stream_read :: "nat \<Rightarrow> stream \<Rightarrow> rx_answer \<times> stream" where
  "stream_read len s =
     (if st_left s \<noteq> [] then (Rx (take len (st_left s)), s\<lparr>st_left := drop len (st_left s)\<rparr>)
      else case st_rx s of
        [] \<Rightarrow> (Rx_eof, s)
      | Rx bs # rx \<Rightarrow>
          if bs = [] then (Rx_eof, s\<lparr>st_rx := rx\<rparr>)
          else (Rx (take len bs), s\<lparr>st_left := drop len bs, st_rx := rx\<rparr>)
      | a # rx \<Rightarrow> (a, s\<lparr>st_rx := rx\<rparr>))"

text \<open>One call to write \<open>bs\<close>: the number of bytes accepted, or the error.\<close>

definition stream_write :: "byte list \<Rightarrow> stream \<Rightarrow> tx_answer \<times> stream" where
  "stream_write bs s =
     (case st_tx s of
        [] \<Rightarrow> (Tx (length bs), s\<lparr>st_out := st_out s @ bs\<rparr>)
      | Tx n # tx \<Rightarrow> (Tx (min n (length bs)), s\<lparr>st_tx := tx, st_out := st_out s @ take n bs\<rparr>)
      | Tx_err e # tx \<Rightarrow> (Tx_err e, s\<lparr>st_tx := tx\<rparr>))"

text \<open>The random generator delivers as many bytes as asked, whenever it delivers any.\<close>

definition rand_ok :: "net \<Rightarrow> bool" where
  "rand_ok nt \<longleftrightarrow> (\<forall>k n b. nt_rand nt k n = Some b \<longrightarrow> length b = n)"

lemma fill_random_length [simp]:
  "rand_ok nt \<Longrightarrow> fill_random old nt = (b, nt') \<Longrightarrow> length b = length old"
  by (auto simp: fill_random_def random_bytes_def rand_ok_def split: option.splits)

end
