(* ===== verification/Frame_Queue.thy ===== *)
theory Frame_Queue
  imports Byte_Fifo
begin

text \<open>
  The fixed arrays of frame slots the data path uses as ring queues: \<open>recv_queue\<close> of
  \<open>softether_connection_t\<close> (64 slots of 2048 bytes) and \<open>recv_queue\<close> of \<open>rudp_context_t\<close> (256
  slots of 1600 bytes), each with its \<open>head\<close>, \<open>tail\<close> and \<open>count\<close>. The code first writes into the
  slot at \<open>tail\<close> (\<open>slot_store\<close>) and then makes it visible (\<open>slot_commit\<close>), so a reader never sees
  a half-written frame. The interface the clients rely on is the locale \<open>frame_fifo\<close>, interpreted
  on the ring for both sizes in the theories that own the queues.

  The C code keeps \<open>head\<close>, \<open>tail\<close> and \<open>count\<close> as \<open>int\<close>; each decrement is guarded by a test that
  the count is positive and each index is reduced modulo the size, so natural numbers represent them.
\<close>

section \<open>The ring of slots\<close>

record queued_frame =
  qf_data :: "byte list"
  qf_len :: u32

record frame_ring =
  fr_slots :: "queued_frame list"
  fr_head :: nat
  fr_tail :: nat
  fr_count :: nat

text \<open>Writing into a slot: \<open>None\<close> is a write outside the array or outside \<open>entry->data\<close>.\<close>

definition slot_store :: "byte list \<Rightarrow> frame_ring \<Rightarrow> frame_ring option" where
  "slot_store d q =
     (if fr_tail q < length (fr_slots q)
      then do { b \<leftarrow> mem_write (qf_data (fr_slots q ! fr_tail q)) 0 d;
                Some (q\<lparr>fr_slots := (fr_slots q)[fr_tail q := (fr_slots q ! fr_tail q)\<lparr>qf_data := b\<rparr>]\<rparr>) }
      else None)"

definition slot_commit :: "nat \<Rightarrow> u32 \<Rightarrow> frame_ring \<Rightarrow> frame_ring option" where
  "slot_commit N len q =
     (if fr_tail q < length (fr_slots q)
      then Some (q\<lparr>fr_slots := (fr_slots q)[fr_tail q := (fr_slots q ! fr_tail q)\<lparr>qf_len := len\<rparr>],
                   fr_tail := (fr_tail q + 1) mod N, fr_count := fr_count q + 1\<rparr>)
      else None)"

definition frame_put :: "nat \<Rightarrow> byte list \<Rightarrow> frame_ring \<Rightarrow> frame_ring option" where
  "frame_put N d q = do { q \<leftarrow> slot_store d q; slot_commit N (word_of_nat (length d)) q }"

definition frame_len :: "frame_ring \<Rightarrow> u32 option" where
  "frame_len q =
     (if fr_head q < length (fr_slots q) then Some (qf_len (fr_slots q ! fr_head q)) else None)"

definition frame_get :: "frame_ring \<Rightarrow> byte list option" where
  "frame_get q =
     (if fr_head q < length (fr_slots q)
      then mem_read (qf_data (fr_slots q ! fr_head q)) 0 (unat (qf_len (fr_slots q ! fr_head q)))
      else None)"

definition frame_pop :: "nat \<Rightarrow> frame_ring \<Rightarrow> frame_ring" where
  "frame_pop N q = q\<lparr>fr_head := (fr_head q + 1) mod N, fr_count := fr_count q - 1\<rparr>"

section \<open>Bounded queues of frames\<close>

text \<open>
  What the users of a receive queue rely on: storing into the free slot changes nothing that can
  be read, committing it appends the frame, the head is the oldest frame and popping removes it.
\<close>

locale frame_fifo =
  fixes inv :: "'q \<Rightarrow> bool" and contents :: "'q \<Rightarrow> byte list list" and cap :: nat and slot :: nat
    and put :: "byte list \<Rightarrow> 'q \<Rightarrow> 'q option"
    and len :: "'q \<Rightarrow> u32 option" and get :: "'q \<Rightarrow> byte list option" and pop :: "'q \<Rightarrow> 'q"
  assumes put_ok: "inv q \<Longrightarrow> length (contents q) < cap \<Longrightarrow> length d \<le> slot \<Longrightarrow>
      \<exists>q'. put d q = Some q' \<and> inv q' \<and> contents q' = contents q @ [d]"
    and get_ok: "inv q \<Longrightarrow> contents q = d # ds \<Longrightarrow> get q = Some d"
    and len_ok: "inv q \<Longrightarrow> contents q = d # ds \<Longrightarrow> len q = Some (word_of_nat (length d))"
    and pop_ok: "inv q \<Longrightarrow> contents q = d # ds \<Longrightarrow> inv (pop q) \<and> contents (pop q) = ds"
    and bounded: "inv q \<Longrightarrow> length (contents q) \<le> cap"
    and slots: "inv q \<Longrightarrow> d \<in> set (contents q) \<Longrightarrow> length d \<le> slot"
    and slot_small: "slot < 2 ^ 32"
begin

lemma unat_len:
  assumes "inv q" "contents q = d # ds"
  shows "len q = Some (word_of_nat (length d)) \<and> unat (word_of_nat (length d) :: u32) = length d"
proof -
  have "length d \<le> slot" using slots [OF assms(1), of d] assms(2) by simp
  then show ?thesis using len_ok [OF assms] slot_small by (simp add: unat_of_nat32)
qed

text \<open>What is put into an empty queue comes out, in order.\<close>

fun put_all :: "byte list list \<Rightarrow> 'q \<Rightarrow> 'q option" where
  "put_all [] q = Some q"
| "put_all (d # ds) q = do { q \<leftarrow> put d q; put_all ds q }"

fun get_all :: "nat \<Rightarrow> 'q \<Rightarrow> byte list list option" where
  "get_all 0 q = Some []"
| "get_all (Suc n) q = do { d \<leftarrow> get q; ds \<leftarrow> get_all n (pop q); Some (d # ds) }"

lemma put_all_ok:
  "inv q \<Longrightarrow> length (contents q) + length ds \<le> cap \<Longrightarrow> \<forall>d \<in> set ds. length d \<le> slot \<Longrightarrow>
     \<exists>q'. put_all ds q = Some q' \<and> inv q' \<and> contents q' = contents q @ ds"
proof (induction ds arbitrary: q)
  case Nil then show ?case by simp
next
  case (Cons d ds)
  obtain q1 where "put d q = Some q1" "inv q1" "contents q1 = contents q @ [d]"
    using put_ok [OF Cons.prems(1), of d] Cons.prems by auto
  then show ?case using Cons.IH [of q1] Cons.prems by simp
qed

lemma get_all_ok: "inv q \<Longrightarrow> get_all (length (contents q)) q = Some (contents q)"
proof (induction "contents q" arbitrary: q)
  case Nil then show ?case using Nil.hyps [symmetric] by simp
next
  case (Cons d ds)
  have "get_all (length (contents (pop q))) (pop q) = Some (contents (pop q))"
    by (rule Cons.hyps(1)) (use pop_ok [OF Cons.prems Cons.hyps(2) [symmetric]] in simp_all)
  then show ?case
    using get_ok [OF Cons.prems Cons.hyps(2) [symmetric]] pop_ok [OF Cons.prems Cons.hyps(2) [symmetric]]
    by (simp flip: Cons.hyps(2))
qed

lemma in_order:
  assumes "inv q" "contents q = []" "length ds \<le> cap" "\<forall>d \<in> set ds. length d \<le> slot"
  shows "(put_all ds q \<bind> get_all (length ds)) = Some ds"
  using put_all_ok [OF assms(1), of ds] assms get_all_ok by fastforce

end

section \<open>The ring of slots is a bounded queue\<close>

definition frame_inv :: "nat \<Rightarrow> nat \<Rightarrow> frame_ring \<Rightarrow> bool" where
  "frame_inv N S q \<longleftrightarrow> length (fr_slots q) = N \<and> fr_head q < N \<and> fr_count q \<le> N \<and>
     fr_tail q = (fr_head q + fr_count q) mod N \<and>
     (\<forall>e \<in> set (fr_slots q). length (qf_data e) = S) \<and>
     (\<forall>e \<in> set (ring (fr_slots q) (fr_head q) (fr_count q)). unat (qf_len e) \<le> S)"

definition qf_frame :: "queued_frame \<Rightarrow> byte list" where
  "qf_frame e = take (unat (qf_len e)) (qf_data e)"

definition frame_contents :: "frame_ring \<Rightarrow> byte list list" where
  "frame_contents q = map qf_frame (ring (fr_slots q) (fr_head q) (fr_count q))"

definition frame_empty :: "nat \<Rightarrow> nat \<Rightarrow> frame_ring" where
  "frame_empty N S =
     \<lparr>fr_slots = replicate N \<lparr>qf_data = replicate S 0, qf_len = 0\<rparr>, fr_head = 0, fr_tail = 0, fr_count = 0\<rparr>"

lemma ring_0 [simp]: "ring buf h 0 = []"
  by (simp add: ring_def)

lemma frame_contents_length [simp]: "length (frame_contents q) = fr_count q"
  by (simp add: frame_contents_def)

lemma frame_empty_inv: "0 < N \<Longrightarrow> frame_inv N S (frame_empty N S) \<and> frame_contents (frame_empty N S) = []"
  by (simp add: frame_inv_def frame_empty_def frame_contents_def)

lemma mod_distinct:
  assumes "i < j" "j < i + (n :: nat)"
  shows "(h + i) mod n \<noteq> (h + j) mod n"
proof
  assume eq: "(h + i) mod n = (h + j) mod n"
  have "h + i \<le> h + j" using assms by simp
  from mod_eq_dvd_iff_nat [OF this, of n] eq have "n dvd (h + j) - (h + i)" by (simp only: eq)
  then have "n dvd j - i" by simp
  then have "n \<le> j - i" by (rule dvd_imp_le) (use assms in simp)
  then show False using assms by simp
qed

lemma ring_other_slot:
  assumes "n < length xs"
  shows "ring (xs[(h + n) mod length xs := e]) h n = ring xs h n"
proof (rule nth_equalityI)
  fix i assume "i < length (ring (xs[(h + n) mod length xs := e]) h n)"
  then have i: "i < n" by simp
  then show "ring (xs[(h + n) mod length xs := e]) h n ! i = ring xs h n ! i"
    using mod_distinct [of i n "length xs" h] assms by simp
qed simp

lemma ring_Suc: "ring xs h (Suc n) = ring xs h n @ [xs ! ((h + n) mod length xs)]"
  by (simp add: ring_def)

lemma ring_Cons: "ring xs h (Suc n) = xs ! (h mod length xs) # ring xs ((h + 1) mod length xs) n"
  using ring_drop [of 1 xs h "Suc n"] by (simp add: ring_def upt_conv_Cons del: upt_Suc)

text \<open>Replacing the entry at \<open>tail\<close> of a queue that is not full is invisible to the reader.\<close>

definition slot_update :: "frame_ring \<Rightarrow> queued_frame \<Rightarrow> frame_ring" where
  "slot_update q e = q\<lparr>fr_slots := (fr_slots q)[fr_tail q := e]\<rparr>"

lemma slot_update_ring:
  assumes "frame_inv N S q" "fr_count q < N"
  shows "ring (fr_slots (slot_update q e)) (fr_head q) (fr_count q) = ring (fr_slots q) (fr_head q) (fr_count q)"
  using ring_other_slot [of "fr_count q" "fr_slots q" "fr_head q" e] assms
  by (simp add: frame_inv_def slot_update_def)

lemma slot_update_ok:
  assumes "frame_inv N S q" "fr_count q < N" "length (qf_data e) = S"
  shows "frame_inv N S (slot_update q e)" "frame_contents (slot_update q e) = frame_contents q"
proof -
  have "length (qf_data e') = S" if "e' \<in> set (fr_slots (slot_update q e))" for e'
    using that assms set_update_subset_insert [of "fr_slots q" "fr_tail q" e]
    by (auto simp: slot_update_def frame_inv_def)
  then show "frame_inv N S (slot_update q e)"
    using assms slot_update_ring [OF assms(1,2), of e]
    by (auto simp: frame_inv_def) (simp_all add: slot_update_def)
  show "frame_contents (slot_update q e) = frame_contents q"
    using slot_update_ring [OF assms(1,2), of e] by (simp add: frame_contents_def) (simp add: slot_update_def)
qed

lemma slot_store_ok:
  assumes "frame_inv N S q" "fr_count q < N" "length d \<le> S"
  shows "\<exists>q'. slot_store d q = Some q' \<and> frame_inv N S q' \<and> frame_contents q' = frame_contents q \<and>
           fr_count q' = fr_count q \<and> take (length d) (qf_data (fr_slots q' ! fr_tail q')) = d"
proof -
  have t: "fr_tail q < length (fr_slots q)" using assms by (simp add: frame_inv_def)
  let ?e = "fr_slots q ! fr_tail q"
  have S: "length (qf_data ?e) = S" using assms t by (simp add: frame_inv_def)
  let ?e' = "?e\<lparr>qf_data := d @ drop (length d) (qf_data ?e)\<rparr>"
  have "slot_store d q = Some (slot_update q ?e')"
    using t S assms(3) by (simp add: slot_store_def slot_update_def)
  then show ?thesis
    using slot_update_ok [OF assms(1,2), of ?e'] S assms(3) t by (simp add: slot_update_def)
qed

lemma slot_commit_ok:
  assumes "frame_inv N S q" "fr_count q < N" "unat len \<le> S"
  shows "\<exists>q'. slot_commit N len q = Some q' \<and> frame_inv N S q' \<and>
           frame_contents q' = frame_contents q @ [take (unat len) (qf_data (fr_slots q ! fr_tail q))]"
proof -
  have t: "fr_tail q < length (fr_slots q)" "fr_tail q = (fr_head q + fr_count q) mod N"
    "length (fr_slots q) = N" using assms by (simp_all add: frame_inv_def)
  let ?e = "(fr_slots q ! fr_tail q)\<lparr>qf_len := len\<rparr>"
  let ?u = "slot_update q ?e"
  let ?q = "?u\<lparr>fr_tail := (fr_tail q + 1) mod N, fr_count := fr_count q + 1\<rparr>"
  have S: "length (qf_data ?e) = S" using assms t by (simp add: frame_inv_def)
  note u = slot_update_ok [OF assms(1,2) S]
  have ring: "ring (fr_slots ?q) (fr_head ?q) (fr_count ?q) =
      ring (fr_slots ?u) (fr_head ?u) (fr_count ?u) @ [?e]"
    using t by (simp add: ring_Suc slot_update_def)
  have c: "fr_count ?u = fr_count q" by (simp add: slot_update_def)
  have "slot_commit N len q = Some ?q"
    using t by (simp add: slot_commit_def slot_update_def)
  moreover have "frame_inv N S ?q"
    unfolding frame_inv_def ring using u(1) assms t c
    by (auto simp: frame_inv_def slot_update_def mod_Suc_eq)
  moreover have "frame_contents ?q = frame_contents q @ [take (unat len) (qf_data (fr_slots q ! fr_tail q))]"
    using u(2) unfolding frame_contents_def ring by (simp add: qf_frame_def)
  ultimately show ?thesis by blast
qed

lemma frame_put_ok:
  assumes "S < 2 ^ 32" "frame_inv N S q" "length (frame_contents q) < N" "length d \<le> S"
  shows "\<exists>q'. frame_put N d q = Some q' \<and> frame_inv N S q' \<and> frame_contents q' = frame_contents q @ [d]"
proof -
  obtain q1 where q1: "slot_store d q = Some q1" "frame_inv N S q1" "frame_contents q1 = frame_contents q"
    "fr_count q1 = fr_count q" "take (length d) (qf_data (fr_slots q1 ! fr_tail q1)) = d"
    using slot_store_ok [OF assms(2) _ assms(4)] assms(3) by auto
  have "unat (word_of_nat (length d) :: u32) = length d" using assms by (simp add: unat_of_nat32)
  then show ?thesis
    using slot_commit_ok [OF q1(2), of "word_of_nat (length d)"] q1 assms by (auto simp: frame_put_def)
qed

lemma frame_head_ok:
  assumes "frame_inv N S q" "frame_contents q = d # ds"
  shows "\<exists>e. fr_head q < length (fr_slots q) \<and> fr_slots q ! fr_head q = e \<and> qf_frame e = d \<and>
           length (qf_data e) = S \<and> unat (qf_len e) \<le> S"
    and "frame_inv N S (frame_pop N q)" "frame_contents (frame_pop N q) = ds"
proof -
  obtain n where n: "fr_count q = Suc n"
    using assms(2) frame_contents_length [of q] by (metis length_Cons)
  have h: "fr_head q < length (fr_slots q)" "length (fr_slots q) = N" "fr_head q < N"
    using assms by (simp_all add: frame_inv_def)
  have ring: "ring (fr_slots q) (fr_head q) (fr_count q) =
      fr_slots q ! fr_head q # ring (fr_slots q) ((fr_head q + 1) mod N) n"
    using h by (simp add: n ring_Cons)
  show "\<exists>e. fr_head q < length (fr_slots q) \<and> fr_slots q ! fr_head q = e \<and> qf_frame e = d \<and>
           length (qf_data e) = S \<and> unat (qf_len e) \<le> S"
    using assms h unfolding frame_inv_def frame_contents_def ring by auto
  show "frame_contents (frame_pop N q) = ds"
    using assms(2) unfolding frame_contents_def ring by (simp add: frame_pop_def n)
  show "frame_inv N S (frame_pop N q)"
    using assms(1) ring h unfolding frame_inv_def by (auto simp: frame_pop_def n mod_Suc_eq mod_add_left_eq)
qed

lemma frame_fifo_ring:
  assumes "S < 2 ^ 32"
  shows "frame_fifo (frame_inv N S) frame_contents N S (frame_put N) frame_len frame_get (frame_pop N)"
proof
  show "\<exists>q'. frame_put N d q = Some q' \<and> frame_inv N S q' \<and> frame_contents q' = frame_contents q @ [d]"
    if "frame_inv N S q" "length (frame_contents q) < N" "length d \<le> S" for q d
    using frame_put_ok [OF assms that] .
  show "frame_get q = Some d" if "frame_inv N S q" "frame_contents q = d # ds" for q d ds
    using frame_head_ok(1) [OF that] by (auto simp: frame_get_def mem_read_def qf_frame_def)
  show "frame_len q = Some (word_of_nat (length d))" if "frame_inv N S q" "frame_contents q = d # ds" for q d ds
    using frame_head_ok(1) [OF that] by (auto simp: frame_len_def qf_frame_def min_absorb2)
  show "frame_inv N S (frame_pop N q) \<and> frame_contents (frame_pop N q) = ds"
    if "frame_inv N S q" "frame_contents q = d # ds" for q d ds
    using frame_head_ok(2,3) [OF that] by simp
  show "length (frame_contents q) \<le> N" if "frame_inv N S q" for q
    using that by (simp add: frame_inv_def)
  show "length d \<le> S" if "frame_inv N S q" "d \<in> set (frame_contents q)" for q d
    using that by (auto simp: frame_inv_def frame_contents_def qf_frame_def)
qed (rule assms)

end
