(* ===== verification/Rudp.thy ===== *)
theory Rudp
  imports Net_World Crypto Frame_Queue
begin

text \<open>
  UDP acceleration (\<open>softether_rudp.c\<close>): the context with its keys, ticks, receive queue and
  loss-adaptive send budget, the operations on it, and the datagram format of both versions
  (V1: RC4 under a per-packet SHA-1 key; V2: ChaCha20-Poly1305).

  Code outside the repository enters as the record \<open>rudp_lib\<close>: SHA-1 and the AEAD cipher of
  OpenSSL, zlib, and the address parser of the C library. \<open>None\<close> as the result of an operation is
  an access outside a buffer.
\<close>

section \<open>Constants and the context\<close>

definition RUDP_COMMON_KEY_SIZE_V1 :: nat where "RUDP_COMMON_KEY_SIZE_V1 = 20"
definition RUDP_PACKET_IV_SIZE_V1 :: nat where "RUDP_PACKET_IV_SIZE_V1 = 20"
definition RUDP_COMMON_KEY_SIZE_V2 :: nat where "RUDP_COMMON_KEY_SIZE_V2 = 128"
definition RUDP_PACKET_IV_SIZE_V2 :: nat where "RUDP_PACKET_IV_SIZE_V2 = 12"
definition RUDP_PACKET_MAC_SIZE_V2 :: nat where "RUDP_PACKET_MAC_SIZE_V2 = 16"
definition RUDP_TMP_BUF_SIZE :: nat where "RUDP_TMP_BUF_SIZE = 2048"
definition RUDP_WINDOW_SIZE_MSEC :: u64 where "RUDP_WINDOW_SIZE_MSEC = 30 * 1000"
definition RUDP_MAX_PAYLOAD_SIZE :: nat where "RUDP_MAX_PAYLOAD_SIZE = 1600"
definition RUDP_MAX_PADDING_SIZE :: u32 where "RUDP_MAX_PADDING_SIZE = 32"
definition RUDP_REQUIRE_CONTINUOUS :: u64 where "RUDP_REQUIRE_CONTINUOUS = 10 * 1000"
definition RUDP_KA_INTERVAL_MIN :: u64 where "RUDP_KA_INTERVAL_MIN = 1000"
definition RUDP_KA_INTERVAL_MAX :: u64 where "RUDP_KA_INTERVAL_MAX = 3000"
definition RUDP_KA_TIMEOUT :: u64 where "RUDP_KA_TIMEOUT = 9000"
definition RUDP_KA_INTERVAL_MIN_FAST :: u64 where "RUDP_KA_INTERVAL_MIN_FAST = 500"
definition RUDP_KA_INTERVAL_MAX_FAST :: u64 where "RUDP_KA_INTERVAL_MAX_FAST = 1000"
definition RUDP_KA_TIMEOUT_FAST :: u64 where "RUDP_KA_TIMEOUT_FAST = 2100"
definition RUDP_DEFAULT_MSS :: u32 where "RUDP_DEFAULT_MSS = 1355"
definition RUDP_DEFAULT_MSS_V2 :: u32 where "RUDP_DEFAULT_MSS_V2 = 1363"
definition RUDP_DEFAULT_MSS_IPV6 :: u32 where "RUDP_DEFAULT_MSS_IPV6 = 1335"
definition RUDP_DEFAULT_MSS_V2_IPV6 :: u32 where "RUDP_DEFAULT_MSS_V2_IPV6 = 1343"
definition RUDP_MAX_UDP_PACKET_IPV4 :: u32 where "RUDP_MAX_UDP_PACKET_IPV4 = 1472"
definition RUDP_MAX_UDP_PACKET_IPV6 :: u32 where "RUDP_MAX_UDP_PACKET_IPV6 = 1452"
definition RUDP_FLAG_COMPRESSED :: byte where "RUDP_FLAG_COMPRESSED = 1"
definition RUDP_RECV_QUEUE_SIZE :: nat where "RUDP_RECV_QUEUE_SIZE = 256"
definition RUDP_OVERFLOW_SUSPEND_THRESHOLD :: u32 where "RUDP_OVERFLOW_SUSPEND_THRESHOLD = 8"
definition RUDP_UDP_SUSPEND_MS :: u64 where "RUDP_UDP_SUSPEND_MS = 30 * 1000"
definition RUDP_PEER_TICK_LOSS_GAP :: u64 where "RUDP_PEER_TICK_LOSS_GAP = 10 * 1000"
definition RUDP_CWIN_START :: u64 where "RUDP_CWIN_START = 256 * 1024"
definition RUDP_CWIN_MIN :: u64 where "RUDP_CWIN_MIN = 32 * 1024"
definition RUDP_CWIN_MAX :: u64 where "RUDP_CWIN_MAX = 8 * 1024 * 1024"
definition RUDP_CWIN_GROW_BPS :: u64 where "RUDP_CWIN_GROW_BPS = 4 * 1024 * 1024"
definition RUDP_SUSPEND_BACKOFF_MAX_SHIFT :: nat where "RUDP_SUSPEND_BACKOFF_MAX_SHIFT = 3"
definition RUDP_CLEAN_RESET_MS :: u64 where "RUDP_CLEAN_RESET_MS = 5 * 60 * 1000"

lemmas rudp_sizes = RUDP_COMMON_KEY_SIZE_V1_def RUDP_PACKET_IV_SIZE_V1_def RUDP_COMMON_KEY_SIZE_V2_def
  RUDP_PACKET_IV_SIZE_V2_def RUDP_PACKET_MAC_SIZE_V2_def RUDP_TMP_BUF_SIZE_def RUDP_MAX_PAYLOAD_SIZE_def
  RUDP_RECV_QUEUE_SIZE_def

lemmas rudp_times = RUDP_WINDOW_SIZE_MSEC_def RUDP_REQUIRE_CONTINUOUS_def RUDP_KA_INTERVAL_MIN_def
  RUDP_KA_INTERVAL_MAX_def RUDP_KA_TIMEOUT_def RUDP_KA_INTERVAL_MIN_FAST_def RUDP_KA_INTERVAL_MAX_FAST_def
  RUDP_KA_TIMEOUT_FAST_def RUDP_UDP_SUSPEND_MS_def RUDP_PEER_TICK_LOSS_GAP_def RUDP_CLEAN_RESET_MS_def

lemmas rudp_cwin_consts = RUDP_CWIN_START_def RUDP_CWIN_MIN_def RUDP_CWIN_MAX_def RUDP_CWIN_GROW_BPS_def

text \<open>
  The cipher contexts are represented by the key they were initialised with (ChaCha20-Poly1305
  uses the first 32 bytes of the 128-byte key). \<open>ru_freed\<close> records that \<open>rudp_destroy_final\<close> ran.
\<close>

record rudp_context =
  ru_refcount :: int
  ru_destroying :: bool
  ru_freed :: bool
  ru_udp_fd :: int
  ru_is_client_mode :: bool
  ru_inited :: bool
  ru_version :: nat
  ru_my_key :: "byte list"
  ru_your_key :: "byte list"
  ru_my_key_v2 :: "byte list"
  ru_your_key_v2 :: "byte list"
  ru_next_iv :: "byte list"
  ru_next_iv_v2 :: "byte list"
  ru_evp_encrypt_ctx :: "byte list option"
  ru_evp_decrypt_ctx :: "byte list option"
  ru_v2_cipher_inited :: bool
  ru_my_cookie :: u32
  ru_your_cookie :: u32
  ru_my_port :: u16
  ru_peer_addr :: sock_addr
  ru_peer_addr_set :: bool
  ru_is_ipv6 :: bool
  ru_now :: u64
  ru_last_recv_tick :: u64
  ru_last_recv_your_tick :: u64
  ru_last_recv_my_tick :: u64
  ru_next_send_keepalive :: u64
  ru_first_stable_receive_tick :: u64
  ru_mss :: u32
  ru_max_udp_packet_size :: u32
  ru_use_compress :: bool
  ru_recv_queue :: frame_ring
  ru_fatal_error :: bool
  ru_recv_queue_overflow_count :: u64
  ru_udp_rx_packets :: u64
  ru_peer_tick_gap_events :: u64
  ru_last_peer_tick_seen :: u64
  ru_recent_overflows :: u32
  ru_udp_data_suspended :: bool
  ru_udp_data_resume_tick :: u64
  ru_suspension_count :: u32
  ru_last_loss_event_tick :: u64
  ru_cwin_bytes :: u64
  ru_cwin_last_refill_tick :: u64
  ru_cwin_inited :: bool

text \<open>
  \<open>lb_seal key iv plain\<close> is ciphertext and 16-byte tag; \<open>lb_open key iv ct tag\<close> is the plaintext of
  an authentic pair. \<open>lb_compress cap s\<close> and \<open>lb_uncompress cap s\<close> are zlib with an output buffer of
  \<open>cap\<close> bytes.
\<close>

record rudp_lib =
  lb_sha1 :: "byte list \<Rightarrow> byte list"
  lb_seal :: "byte list \<Rightarrow> byte list \<Rightarrow> byte list \<Rightarrow> byte list \<times> byte list"
  lb_open :: "byte list \<Rightarrow> byte list \<Rightarrow> byte list \<Rightarrow> byte list \<Rightarrow> byte list option"
  lb_compress :: "nat \<Rightarrow> byte list \<Rightarrow> byte list option"
  lb_uncompress :: "nat \<Rightarrow> byte list \<Rightarrow> byte list option"
  lb_pton4 :: "byte list \<Rightarrow> u32 option"
  lb_pton6 :: "byte list \<Rightarrow> byte list option"

definition calc_key :: "rudp_lib \<Rightarrow> byte list \<Rightarrow> byte list \<Rightarrow> byte list" where
  "calc_key L common_key iv =
     lb_sha1 L (take RUDP_COMMON_KEY_SIZE_V1 common_key @ take RUDP_PACKET_IV_SIZE_V1 iv)"

section \<open>Lifetime\<close>

text \<open>
  The calls in one thread: the reference is refused once teardown has begun, and the context is
  freed when the last one is dropped. The interleavings are in \<open>Rudp_Ref\<close>.
\<close>

definition rudp_ref_acquire :: "rudp_context \<Rightarrow> rudp_context option" where
  "rudp_ref_acquire c =
     (if ru_refcount c \<le> 0 then None
      else if ru_destroying c then None
      else Some (c\<lparr>ru_refcount := ru_refcount c + 1\<rparr>))"

definition rudp_destroy_final :: "rudp_context \<Rightarrow> net \<Rightarrow> rudp_context \<times> net" where
  "rudp_destroy_final c nt =
     (let c = c\<lparr>ru_evp_encrypt_ctx := None, ru_evp_decrypt_ctx := None\<rparr> in
      if 0 \<le> ru_udp_fd c
      then (c\<lparr>ru_udp_fd := -1, ru_freed := True\<rparr>, net_close (ru_udp_fd c) nt)
      else (c\<lparr>ru_freed := True\<rparr>, nt))"

definition rudp_ref_release :: "rudp_context \<Rightarrow> net \<Rightarrow> rudp_context \<times> net" where
  "rudp_ref_release c nt =
     (let c = c\<lparr>ru_refcount := ru_refcount c - 1\<rparr> in
      if ru_refcount c = 0 then rudp_destroy_final c nt else (c, nt))"

definition rudp_destroy :: "rudp_context \<Rightarrow> net \<Rightarrow> rudp_context \<times> net" where
  "rudp_destroy c nt = rudp_ref_release (c\<lparr>ru_destroying := True\<rparr>) nt"

section \<open>Creation and configuration\<close>

definition rudp_create_udp_socket :: "rudp_context \<Rightarrow> bool \<Rightarrow> net \<Rightarrow> int \<times> rudp_context \<times> net" where
  "rudp_create_udp_socket c v6 nt =
     (let (c, nt) = (if 0 \<le> ru_udp_fd c then (c\<lparr>ru_udp_fd := -1\<rparr>, net_close (ru_udp_fd c) nt) else (c, nt));
          a = nt_sock nt (nt_socks nt);
          nt = nt\<lparr>nt_socks := nt_socks nt + 1\<rparr>
      in case a of
           Sock_fail \<Rightarrow> (-1, c\<lparr>ru_udp_fd := -1\<rparr>, nt)
         | Bind_fail fd \<Rightarrow> (-1, c\<lparr>ru_udp_fd := -1\<rparr>, net_close fd nt)
         | Sock_ok fd port \<Rightarrow> (0, c\<lparr>ru_udp_fd := fd, ru_my_port := port, ru_is_ipv6 := v6\<rparr>, nt))"

text \<open>
  The cookie loops of \<open>rudp_create\<close>: draw again while the value is zero or equal to a forbidden
  one. \<open>None\<close> is a loop that never ends (the generator returning 0 for ever).
\<close>

partial_function (option) rudp_pick_cookie :: "u32 option \<Rightarrow> net \<Rightarrow> (u32 \<times> net) option" where
  "rudp_pick_cookie other nt =
     (let (v, nt) = rand_u32 nt in
      if v = 0 \<or> other = Some v then rudp_pick_cookie other nt else Some (v, nt))"

definition rudp_zero :: rudp_context where
  "rudp_zero = \<lparr>ru_refcount = 0, ru_destroying = False, ru_freed = False, ru_udp_fd = 0,
     ru_is_client_mode = False, ru_inited = False, ru_version = 0,
     ru_my_key = replicate RUDP_COMMON_KEY_SIZE_V1 0, ru_your_key = replicate RUDP_COMMON_KEY_SIZE_V1 0,
     ru_my_key_v2 = replicate RUDP_COMMON_KEY_SIZE_V2 0, ru_your_key_v2 = replicate RUDP_COMMON_KEY_SIZE_V2 0,
     ru_next_iv = replicate RUDP_PACKET_IV_SIZE_V1 0, ru_next_iv_v2 = replicate RUDP_PACKET_IV_SIZE_V2 0,
     ru_evp_encrypt_ctx = None, ru_evp_decrypt_ctx = None, ru_v2_cipher_inited = False,
     ru_my_cookie = 0, ru_your_cookie = 0, ru_my_port = 0, ru_peer_addr = Sa_in 0 0,
     ru_peer_addr_set = False, ru_is_ipv6 = False, ru_now = 0, ru_last_recv_tick = 0,
     ru_last_recv_your_tick = 0, ru_last_recv_my_tick = 0, ru_next_send_keepalive = 0,
     ru_first_stable_receive_tick = 0, ru_mss = 0, ru_max_udp_packet_size = 0, ru_use_compress = False,
     ru_recv_queue = frame_empty RUDP_RECV_QUEUE_SIZE RUDP_MAX_PAYLOAD_SIZE,
     ru_fatal_error = False, ru_recv_queue_overflow_count = 0, ru_udp_rx_packets = 0,
     ru_peer_tick_gap_events = 0, ru_last_peer_tick_seen = 0, ru_recent_overflows = 0,
     ru_udp_data_suspended = False, ru_udp_data_resume_tick = 0, ru_suspension_count = 0,
     ru_last_loss_event_tick = 0, ru_cwin_bytes = 0, ru_cwin_last_refill_tick = 0,
     ru_cwin_inited = False\<rparr>"

text \<open>
  \<open>mem\<close> says whether \<open>calloc\<close> succeeds. The outer \<open>None\<close> is a call that does not return, the inner
  one the NULL result.
\<close>

definition rudp_create :: "bool \<Rightarrow> bool \<Rightarrow> net \<Rightarrow> (rudp_context option \<times> net) option" where
  "rudp_create mem is_client nt =
     (if \<not> mem then Some (None, nt)
      else let c = rudp_zero\<lparr>ru_refcount := 1, ru_destroying := False, ru_is_client_mode := is_client,
                     ru_version := 1, ru_mss := RUDP_DEFAULT_MSS,
                     ru_max_udp_packet_size := RUDP_MAX_UDP_PACKET_IPV4, ru_udp_fd := -1\<rparr>;
               (r, c, nt) = rudp_create_udp_socket c False nt
           in if r \<noteq> 0 then Some (None, nt)
              else let (k, nt) = fill_random (ru_my_key c) nt; c = c\<lparr>ru_my_key := k\<rparr>;
                       (k, nt) = fill_random (ru_your_key c) nt; c = c\<lparr>ru_your_key := k\<rparr>;
                       (k, nt) = fill_random (ru_my_key_v2 c) nt; c = c\<lparr>ru_my_key_v2 := k\<rparr>;
                       (k, nt) = fill_random (ru_your_key_v2 c) nt; c = c\<lparr>ru_your_key_v2 := k\<rparr>;
                       (k, nt) = fill_random (ru_next_iv c) nt; c = c\<lparr>ru_next_iv := k\<rparr>;
                       (k, nt) = fill_random (ru_next_iv_v2 c) nt; c = c\<lparr>ru_next_iv_v2 := k\<rparr>
                   in do { (m, nt) \<leftarrow> rudp_pick_cookie None nt;
                           (y, nt) \<leftarrow> rudp_pick_cookie (Some m) nt;
                           let (now, nt) = softether_tick_ms nt;
                           Some (Some (c\<lparr>ru_my_cookie := m, ru_your_cookie := y, ru_now := now\<rparr>), nt) })"

text \<open>\<open>enc\<close> and \<open>dec\<close> say whether the two \<open>EVP_CIPHER_CTX_new\<close> calls succeed.\<close>

definition rudp_init_v2_cipher :: "bool \<Rightarrow> bool \<Rightarrow> rudp_context \<Rightarrow> rudp_context" where
  "rudp_init_v2_cipher enc dec c =
     (if \<not> enc \<or> \<not> dec
      then c\<lparr>ru_evp_encrypt_ctx := None, ru_evp_decrypt_ctx := None, ru_v2_cipher_inited := False\<rparr>
      else c\<lparr>ru_evp_encrypt_ctx := Some (take 32 (ru_my_key_v2 c)),
             ru_evp_decrypt_ctx := Some (take 32 (ru_your_key_v2 c)), ru_v2_cipher_inited := True\<rparr>)"

text \<open>The peer's address and the sizes that depend on its family (shared by both initialisers).\<close>

definition rudp_set_peer :: "rudp_lib \<Rightarrow> byte list \<Rightarrow> u16 \<Rightarrow> rudp_context \<Rightarrow> net \<Rightarrow> int \<times> rudp_context \<times> net" where
  "rudp_set_peer L ip port c nt =
     (let ipv6 = (lb_pton6 L ip \<noteq> None) in
      if \<not> ipv6 \<and> lb_pton4 L ip = None then (-1, c, nt)
      else let (r, c, nt) = (if ipv6 \<noteq> ru_is_ipv6 c then rudp_create_udp_socket c ipv6 nt else (0, c, nt)) in
        if r \<noteq> 0 then (-1, c, nt)
        else (case lb_pton6 L ip of
                Some a \<Rightarrow> (0, c\<lparr>ru_peer_addr := Sa_in6 a port, ru_peer_addr_set := True,
                    ru_mss := RUDP_DEFAULT_MSS_IPV6, ru_max_udp_packet_size := RUDP_MAX_UDP_PACKET_IPV6\<rparr>, nt)
              | None \<Rightarrow> (0, c\<lparr>ru_peer_addr := Sa_in (the (lb_pton4 L ip)) port, ru_peer_addr_set := True,
                    ru_mss := RUDP_DEFAULT_MSS, ru_max_udp_packet_size := RUDP_MAX_UDP_PACKET_IPV4\<rparr>, nt)))"

definition rudp_take_key :: "bool \<Rightarrow> bool \<Rightarrow> byte list \<Rightarrow> rudp_context \<Rightarrow> rudp_context" where
  "rudp_take_key enc dec key c =
     (let c = (if RUDP_COMMON_KEY_SIZE_V1 \<le> length key
               then let c = c\<lparr>ru_your_key := take RUDP_COMMON_KEY_SIZE_V1 key\<rparr> in
                    (if RUDP_COMMON_KEY_SIZE_V2 \<le> length key
                     then c\<lparr>ru_your_key_v2 := take RUDP_COMMON_KEY_SIZE_V2 key\<rparr> else c)
               else c)
      in if RUDP_COMMON_KEY_SIZE_V2 \<le> length key then rudp_init_v2_cipher enc dec c else c)"

definition rudp_init_client ::
  "rudp_lib \<Rightarrow> bool \<Rightarrow> bool \<Rightarrow> byte list \<Rightarrow> byte list option \<Rightarrow> u16 \<Rightarrow> u32 \<Rightarrow> u32 \<Rightarrow> rudp_context \<Rightarrow> net \<Rightarrow>
     int \<times> rudp_context \<times> net" where
  "rudp_init_client L enc dec server_key server_ip server_port server_cookie client_cookie c nt =
     (case server_ip of
        None \<Rightarrow> (-1, c, nt)
      | Some ip \<Rightarrow>
          let (r, c, nt) = rudp_set_peer L ip server_port c nt in
          if r \<noteq> 0 then (-1, c, nt)
          else let c = rudp_take_key enc dec server_key c;
                   (now, nt) = softether_tick_ms nt
               in (0, c\<lparr>ru_your_cookie := server_cookie, ru_my_cookie := client_cookie,
                        ru_inited := True, ru_now := now\<rparr>, nt))"

definition rudp_init_server ::
  "rudp_lib \<Rightarrow> bool \<Rightarrow> bool \<Rightarrow> byte list \<Rightarrow> byte list option \<Rightarrow> u16 \<Rightarrow> rudp_context \<Rightarrow> net \<Rightarrow>
     int \<times> rudp_context \<times> net" where
  "rudp_init_server L enc dec client_key client_ip client_port c nt =
     (case client_ip of
        None \<Rightarrow> (-1, c, nt)
      | Some ip \<Rightarrow>
          let (r, c, nt) = rudp_set_peer L ip client_port c nt in
          if r \<noteq> 0 then (-1, c, nt)
          else let c = rudp_take_key enc dec client_key c;
                   (now, nt) = softether_tick_ms nt
               in (0, c\<lparr>ru_inited := True, ru_now := now\<rparr>, nt))"

definition rudp_set_udp_family :: "bool \<Rightarrow> rudp_context \<Rightarrow> net \<Rightarrow> int \<times> rudp_context \<times> net" where
  "rudp_set_udp_family v6 c nt =
     (if ru_is_ipv6 c = v6 then (0, c, nt) else rudp_create_udp_socket c v6 nt)"

definition rudp_set_tick :: "u64 \<Rightarrow> rudp_context \<Rightarrow> rudp_context" where
  "rudp_set_tick t c = c\<lparr>ru_now := t\<rparr>"

definition rudp_set_version :: "int \<Rightarrow> rudp_context \<Rightarrow> rudp_context" where
  "rudp_set_version v c = c\<lparr>ru_version := (if 2 \<le> v \<and> ru_v2_cipher_inited c then 2 else 1)\<rparr>"

definition rudp_set_compress :: "bool \<Rightarrow> rudp_context \<Rightarrow> rudp_context" where
  "rudp_set_compress e c = c\<lparr>ru_use_compress := e\<rparr>"

definition rudp_set_fast_detect :: "bool \<Rightarrow> rudp_context \<Rightarrow> rudp_context" where
  "rudp_set_fast_detect f c =
     c\<lparr>ru_mss := (if f then ru_mss c OR 0x80000000 else ru_mss c AND NOT 0x80000000)\<rparr>"

definition rudp_get_udp_fd :: "rudp_context \<Rightarrow> net \<Rightarrow> int \<times> rudp_context \<times> net" where
  "rudp_get_udp_fd c nt =
     (case rudp_ref_acquire c of
        None \<Rightarrow> (-1, c, nt)
      | Some c \<Rightarrow> let fd = ru_udp_fd c; (c, nt) = rudp_ref_release c nt in (fd, c, nt))"

definition rudp_is_active :: "rudp_context \<Rightarrow> net \<Rightarrow> bool \<times> rudp_context \<times> net" where
  "rudp_is_active c nt =
     (case rudp_ref_acquire c of
        None \<Rightarrow> (False, c, nt)
      | Some c \<Rightarrow>
          let active = (if \<not> ru_inited c then False else if \<not> ru_peer_addr_set c then False
                        else if ru_fatal_error c then False
                        else if ru_first_stable_receive_tick c = 0 then False else True);
              (c, nt) = rudp_ref_release c nt
          in (active, c, nt))"

definition rudp_calc_mss :: "rudp_context option \<Rightarrow> u32" where
  "rudp_calc_mss c =
     (case c of
        None \<Rightarrow> RUDP_DEFAULT_MSS
      | Some c \<Rightarrow>
          if ru_is_ipv6 c
          then (if 2 \<le> ru_version c then RUDP_DEFAULT_MSS_V2_IPV6 else RUDP_DEFAULT_MSS_IPV6)
          else (if 2 \<le> ru_version c then RUDP_DEFAULT_MSS_V2 else RUDP_DEFAULT_MSS))"

record rudp_stats =
  rs_recv_queue_overflow_count :: u64
  rs_udp_rx_packets :: u64
  rs_peer_tick_gap_events :: u64
  rs_udp_data_suspended :: bool

definition rudp_get_stats :: "rudp_context option \<Rightarrow> rudp_stats" where
  "rudp_get_stats c =
     (case c of
        None \<Rightarrow> \<lparr>rs_recv_queue_overflow_count = 0, rs_udp_rx_packets = 0, rs_peer_tick_gap_events = 0,
                 rs_udp_data_suspended = False\<rparr>
      | Some c \<Rightarrow> \<lparr>rs_recv_queue_overflow_count = ru_recv_queue_overflow_count c,
                 rs_udp_rx_packets = ru_udp_rx_packets c,
                 rs_peer_tick_gap_events = ru_peer_tick_gap_events c,
                 rs_udp_data_suspended = ru_udp_data_suspended c\<rparr>)"

section \<open>Send budget and readiness\<close>

definition rudp_cwin_refill :: "rudp_context \<Rightarrow> rudp_context" where
  "rudp_cwin_refill c =
     (if \<not> ru_cwin_inited c
      then c\<lparr>ru_cwin_bytes := RUDP_CWIN_START, ru_cwin_last_refill_tick := ru_now c, ru_cwin_inited := True\<rparr>
      else if ru_now c \<le> ru_cwin_last_refill_tick c then c
      else let dt = ru_now c - ru_cwin_last_refill_tick c;
               b = ru_cwin_bytes c + (RUDP_CWIN_GROW_BPS * dt) div 1000
           in c\<lparr>ru_cwin_last_refill_tick := ru_now c,
                ru_cwin_bytes := (if RUDP_CWIN_MAX < b then RUDP_CWIN_MAX else b)\<rparr>)"

definition rudp_cwin_on_loss :: "rudp_context \<Rightarrow> rudp_context" where
  "rudp_cwin_on_loss c =
     (let b = ru_cwin_bytes c div 2
      in c\<lparr>ru_last_loss_event_tick := ru_now c,
           ru_cwin_bytes := (if b < RUDP_CWIN_MIN then RUDP_CWIN_MIN else b)\<rparr>)"

definition rudp_timeout_value :: "rudp_context \<Rightarrow> u64" where
  "rudp_timeout_value c = (if ru_mss c AND 0x80000000 \<noteq> 0 then RUDP_KA_TIMEOUT_FAST else RUDP_KA_TIMEOUT)"

definition rudp_clean_reset :: "rudp_context \<Rightarrow> rudp_context" where
  "rudp_clean_reset c =
     (if \<not> ru_udp_data_suspended c \<and> ru_last_loss_event_tick c \<noteq> 0 \<and> ru_last_loss_event_tick c < ru_now c \<and>
         RUDP_CLEAN_RESET_MS \<le> ru_now c - ru_last_loss_event_tick c
      then c\<lparr>ru_suspension_count := 0, ru_recent_overflows := 0\<rparr> else c)"

text \<open>\<open>suspension_count\<close> is copied to an \<open>int\<close> before the shift is capped; \<open>sint\<close> is that conversion.\<close>

definition rudp_suspend_shift :: "u32 \<Rightarrow> int" where
  "rudp_suspend_shift n =
     (let s = sint n in if int RUDP_SUSPEND_BACKOFF_MAX_SHIFT < s then int RUDP_SUSPEND_BACKOFF_MAX_SHIFT else s)"

definition rudp_is_send_ready_nolock :: "bool \<Rightarrow> rudp_context \<Rightarrow> bool \<times> rudp_context" where
  "rudp_is_send_ready_nolock check_keepalive c =
     (let c = rudp_clean_reset (rudp_cwin_refill c) in
      if ru_udp_data_suspended c \<and> ru_now c < ru_udp_data_resume_tick c then (False, c)
      else let c = (if ru_udp_data_suspended c
                    then c\<lparr>ru_udp_data_suspended := False, ru_recent_overflows := 0\<rparr> else c) in
      if RUDP_OVERFLOW_SUSPEND_THRESHOLD \<le> ru_recent_overflows c
      then let suspend_ms = push_bit (nat (rudp_suspend_shift (ru_suspension_count c))) RUDP_UDP_SUSPEND_MS
           in (False, c\<lparr>ru_suspension_count := ru_suspension_count c + 1, ru_udp_data_suspended := True,
                        ru_udp_data_resume_tick := ru_now c + suspend_ms\<rparr>)
      else if check_keepalive
      then (if ru_last_recv_tick c = 0 \<or> ru_last_recv_tick c + rudp_timeout_value c < ru_now c
            then (False, c\<lparr>ru_first_stable_receive_tick := 0\<rparr>)
            else if ru_first_stable_receive_tick c + RUDP_REQUIRE_CONTINUOUS \<le> ru_now c
            then (if ru_cwin_bytes c = 0 then (False, c) else (True, c))
            else (False, c))
      else (True, c))"

definition rudp_is_send_ready :: "bool \<Rightarrow> rudp_context \<Rightarrow> net \<Rightarrow> bool \<times> rudp_context \<times> net" where
  "rudp_is_send_ready check_keepalive c nt =
     (if \<not> ru_inited c \<or> \<not> ru_peer_addr_set c then (False, c, nt)
      else case rudp_ref_acquire c of
        None \<Rightarrow> (False, c, nt)
      | Some c \<Rightarrow>
          let (r, c) = rudp_is_send_ready_nolock check_keepalive c;
              (c, nt) = rudp_ref_release c nt
          in (r, c, nt))"

section \<open>Receiving\<close>

record rudp_inner =
  in_cookie :: u32
  in_my_tick :: u64
  in_your_tick :: u64
  in_flag :: byte
  in_data :: "byte list"

text \<open>The fields of a decrypted packet; \<open>None\<close> when a field or the data does not fit.\<close>

definition rudp_parse_inner :: "u32 \<Rightarrow> bool \<Rightarrow> byte list \<Rightarrow> rudp_inner option" where
  "rudp_parse_inner my_cookie verify_padding buf =
     (if length buf < 4 then None
      else let cookie = rd32 buf; buf = drop 4 buf in
      if cookie \<noteq> my_cookie then None
      else if length buf < 8 then None
      else let my_tick = rd64 buf; buf = drop 8 buf in
      if length buf < 8 then None
      else let your_tick = rd64 buf; buf = drop 8 buf in
      if length buf < 2 then None
      else let inner_size = unat (rd16 buf); buf = drop 2 buf in
      if length buf < 1 then None
      else let flag = buf ! 0; buf = drop 1 buf in
      if length buf < inner_size then None
      else let data = take inner_size buf; buf = drop inner_size buf in
      if verify_padding \<and> \<not> (RUDP_PACKET_IV_SIZE_V1 \<le> length buf \<and>
            all_zero (drop (length buf - RUDP_PACKET_IV_SIZE_V1) buf)) then None
      else Some \<lparr>in_cookie = cookie, in_my_tick = my_tick, in_your_tick = your_tick, in_flag = flag,
                 in_data = data\<rparr>)"

text \<open>Ticks, loss detection, peer address and stability, from an accepted packet.\<close>

definition rudp_note_packet :: "u64 \<Rightarrow> u64 \<Rightarrow> sock_addr \<Rightarrow> rudp_context \<Rightarrow> rudp_context" where
  "rudp_note_packet my_tick your_tick from c =
     (let c = c\<lparr>ru_last_recv_my_tick := (if ru_last_recv_my_tick c < your_tick then your_tick else ru_last_recv_my_tick c),
                ru_last_recv_your_tick := (if ru_last_recv_your_tick c < my_tick then my_tick else ru_last_recv_your_tick c)\<rparr>;
          c = (if ru_last_peer_tick_seen c \<noteq> 0 \<and> ru_last_peer_tick_seen c + RUDP_PEER_TICK_LOSS_GAP < my_tick
               then rudp_cwin_on_loss (c\<lparr>ru_peer_tick_gap_events := ru_peer_tick_gap_events c + 1\<rparr>) else c);
          c = c\<lparr>ru_last_peer_tick_seen := my_tick, ru_udp_rx_packets := ru_udp_rx_packets c + 1,
                ru_peer_addr := from, ru_peer_addr_set := True, ru_is_ipv6 := is_in6 from\<rparr>
      in if ru_last_recv_my_tick c \<noteq> 0 \<and> ru_now c \<le> ru_last_recv_my_tick c + RUDP_WINDOW_SIZE_MSEC
         then c\<lparr>ru_last_recv_tick := ru_now c,
                ru_first_stable_receive_tick :=
                  (if ru_first_stable_receive_tick c = 0 then ru_now c else ru_first_stable_receive_tick c)\<rparr>
         else c)"

definition rudp_queue_block :: "byte list \<Rightarrow> rudp_context \<Rightarrow> rudp_context option" where
  "rudp_queue_block d c =
     (if length d \<le> RUDP_MAX_PAYLOAD_SIZE \<and> fr_count (ru_recv_queue c) < RUDP_RECV_QUEUE_SIZE
      then do { q \<leftarrow> frame_put RUDP_RECV_QUEUE_SIZE d (ru_recv_queue c); Some (c\<lparr>ru_recv_queue := q\<rparr>) }
      else if length d \<le> RUDP_MAX_PAYLOAD_SIZE
      then Some (rudp_cwin_on_loss (c\<lparr>ru_recv_queue_overflow_count := ru_recv_queue_overflow_count c + 1,
                   ru_recent_overflows := ru_recent_overflows c + 1\<rparr>))
      else Some c)"

definition rudp_process_inner ::
  "rudp_lib \<Rightarrow> byte list \<Rightarrow> sock_addr \<Rightarrow> bool \<Rightarrow> rudp_context \<Rightarrow> (int \<times> rudp_context) option" where
  "rudp_process_inner L buf from verify_padding c =
     (case rudp_parse_inner (ru_my_cookie c) verify_padding buf of
        None \<Rightarrow> Some (-1, c)
      | Some i \<Rightarrow>
          if in_my_tick i < ru_last_recv_your_tick c \<and>
             RUDP_WINDOW_SIZE_MSEC \<le> ru_last_recv_your_tick c - in_my_tick i then Some (-1, c)
          else let c = rudp_note_packet (in_my_tick i) (in_your_tick i) from c in
            if in_data i = [] then Some (0, c)
            else if in_flag i AND RUDP_FLAG_COMPRESSED \<noteq> 0
            then (case uncompress_data (lb_uncompress L) (Some (in_data i)) (Some (RUDP_MAX_PAYLOAD_SIZE + 256)) of
                    ZErr e \<Rightarrow> Some (-1, c)
                  | ZOk d \<Rightarrow> do { c \<leftarrow> rudp_queue_block d c; Some (0, c) })
            else do { c \<leftarrow> rudp_queue_block (in_data i) c; Some (0, c) })"

text \<open>One datagram of at least 25 bytes, for the negotiated version.\<close>

definition rudp_handle_datagram ::
  "rudp_lib \<Rightarrow> byte list \<Rightarrow> sock_addr \<Rightarrow> rudp_context \<Rightarrow> (int \<times> rudp_context) option" where
  "rudp_handle_datagram L pkt from c =
     (if ru_version c = 1
      then rudp_process_inner L (rc4_crypt (calc_key L (ru_your_key c) (take RUDP_PACKET_IV_SIZE_V1 pkt))
             (drop RUDP_PACKET_IV_SIZE_V1 pkt)) from True c
      else if ru_version c = 2
      then (if length pkt < RUDP_PACKET_IV_SIZE_V2 + RUDP_PACKET_MAC_SIZE_V2 + 4 + 1 then Some (-1, c)
            else do { key \<leftarrow> ru_evp_decrypt_ctx c;
                      let body = drop RUDP_PACKET_IV_SIZE_V2 pkt;
                      let n = length body - RUDP_PACKET_MAC_SIZE_V2;
                      case lb_open L key (take RUDP_PACKET_IV_SIZE_V2 pkt) (take n body) (drop n body) of
                        None \<Rightarrow> Some (-1, c)
                      | Some plain \<Rightarrow> rudp_process_inner L plain from False c })
      else Some (-1, c))"

text \<open>The receive loop: \<open>recvfrom\<close> truncates to the buffer; an empty datagram ends the loop.\<close>

fun rudp_recv_loop ::
  "rudp_lib \<Rightarrow> (byte list \<times> sock_addr) list \<Rightarrow> rudp_context \<Rightarrow> net \<Rightarrow> (rudp_context \<times> net) option" where
  "rudp_recv_loop L [] c nt = Some (c, nt\<lparr>nt_udp_in := []\<rparr>)"
| "rudp_recv_loop L ((d, from) # ds) c nt =
     (if d = [] then Some (c, nt\<lparr>nt_udp_in := ds\<rparr>)
      else let pkt = take RUDP_TMP_BUF_SIZE d in
      if length pkt < RUDP_PACKET_IV_SIZE_V1 + 4 + 1 then rudp_recv_loop L ds c nt
      else let (now, nt) = softether_tick_ms nt in
        do { (r, c) \<leftarrow> rudp_handle_datagram L pkt from (c\<lparr>ru_now := now\<rparr>);
             rudp_recv_loop L ds c nt })"

section \<open>Sending\<close>

definition rudp_header :: "rudp_context \<Rightarrow> nat \<Rightarrow> byte \<Rightarrow> byte list" where
  "rudp_header c send_size flag =
     be32 (ru_your_cookie c) @ be64 (if ru_now c = 0 then 1 else ru_now c) @
     be64 (ru_last_recv_your_tick c) @ be16 (word_of_nat send_size) @ [flag]"

definition rudp_padding :: "u32 \<Rightarrow> rudp_context \<Rightarrow> net \<Rightarrow> byte list \<times> net" where
  "rudp_padding current_size c nt =
     (if current_size < ru_max_udp_packet_size c
      then let pad = ru_max_udp_packet_size c - current_size;
               pad = (if RUDP_MAX_PADDING_SIZE < pad then RUDP_MAX_PADDING_SIZE else pad);
               (r, nt) = rand_u32 nt
           in (replicate (unat (r mod (pad + 1))) 0, nt)
      else ([], nt))"

text \<open>The payload that travels and its flag: compressed when negotiated and possible.\<close>

definition rudp_payload :: "rudp_lib \<Rightarrow> rudp_context \<Rightarrow> byte list \<Rightarrow> byte \<Rightarrow> byte list \<times> byte" where
  "rudp_payload L c data flag =
     (if ru_use_compress c \<and> 1 < length data
      then (case compress_data (lb_compress L) (Some data) (Some (RUDP_MAX_PAYLOAD_SIZE + 256)) of
              ZOk z \<Rightarrow> (z, flag OR RUDP_FLAG_COMPRESSED)
            | ZErr e \<Rightarrow> (data, flag))
      else (data, flag))"

text \<open>
  Building the datagram in the 2048-byte buffer \<open>tmp\<close>: \<open>Some None\<close> is the code's own refusal, \<open>None\<close>
  an access outside the buffer. The guard on the data is the 32-bit comparison of the source.
\<close>

definition rudp_build_v1 ::
  "rudp_lib \<Rightarrow> rudp_context \<Rightarrow> byte list \<Rightarrow> byte \<Rightarrow> net \<Rightarrow> ((byte list \<times> rudp_context) option \<times> net) option" where
  "rudp_build_v1 L c z flag nt =
     (let size = RUDP_PACKET_IV_SIZE_V1 + 4 + 8 + 8 + 2 + 1 in
      if z \<noteq> [] \<and> word_of_nat (RUDP_TMP_BUF_SIZE - RUDP_PACKET_IV_SIZE_V1 - 8) < (word_of_nat size + word_of_nat (length z) :: u32)
      then Some (None, nt)
      else let (pad, nt) = rudp_padding (word_of_nat (size + length z + RUDP_PACKET_IV_SIZE_V1)) c nt;
               plain = rudp_header c (length z) flag @ z @ pad @ replicate RUDP_PACKET_IV_SIZE_V1 0
           in if RUDP_TMP_BUF_SIZE < RUDP_PACKET_IV_SIZE_V1 + length plain then None
              else let body = rc4_crypt (calc_key L (ru_my_key c) (ru_next_iv c)) plain
                   in Some (Some (ru_next_iv c @ body,
                        c\<lparr>ru_next_iv := drop (length body - RUDP_PACKET_IV_SIZE_V1) body\<rparr>), nt))"

definition rudp_build_v2 ::
  "rudp_lib \<Rightarrow> rudp_context \<Rightarrow> byte list \<Rightarrow> byte \<Rightarrow> net \<Rightarrow> ((byte list \<times> rudp_context) option \<times> net) option" where
  "rudp_build_v2 L c z flag nt =
     (let size = RUDP_PACKET_IV_SIZE_V2 + 4 + 8 + 8 + 2 + 1 in
      if z \<noteq> [] \<and> word_of_nat (RUDP_TMP_BUF_SIZE - RUDP_PACKET_IV_SIZE_V1 - 8) < (word_of_nat size + word_of_nat (length z) :: u32)
      then Some (None, nt)
      else let current_size = word_of_nat (size + length z + RUDP_PACKET_MAC_SIZE_V2);
               (pad, nt) = rudp_padding current_size c nt
           in if RUDP_TMP_BUF_SIZE < size + length z + length pad then None
              else if word_of_nat RUDP_TMP_BUF_SIZE < current_size + word_of_nat (length pad)
              then Some (None, nt)
              else do { key \<leftarrow> ru_evp_encrypt_ctx c;
                        let (ct, tag) = lb_seal L key (ru_next_iv_v2 c) (rudp_header c (length z) flag @ z @ pad);
                        if RUDP_TMP_BUF_SIZE < RUDP_PACKET_IV_SIZE_V2 + length ct + length tag then None
                        else Some (Some (ru_next_iv_v2 c @ ct @ tag,
                               c\<lparr>ru_next_iv_v2 := take RUDP_PACKET_IV_SIZE_V2 (ct @ tag)\<rparr>), nt) })"

definition net_sendto :: "byte list \<Rightarrow> sock_addr \<Rightarrow> net \<Rightarrow> bool \<times> net" where
  "net_sendto pkt to nt =
     (case nt_udp_send nt of
        [] \<Rightarrow> (True, nt\<lparr>nt_udp_out := nt_udp_out nt @ [(pkt, to)]\<rparr>)
      | ok # rest \<Rightarrow>
          (ok, nt\<lparr>nt_udp_send := rest, nt_udp_out := (if ok then nt_udp_out nt @ [(pkt, to)] else nt_udp_out nt)\<rparr>))"

definition rudp_charge :: "nat \<Rightarrow> rudp_context \<Rightarrow> rudp_context" where
  "rudp_charge data_size c =
     (if 0 < data_size
      then let c = rudp_cwin_refill c; n = word_of_nat data_size
           in c\<lparr>ru_cwin_bytes := (if n \<le> ru_cwin_bytes c then ru_cwin_bytes c - n else 0)\<rparr>
      else c)"

definition rudp_send_nolock ::
  "rudp_lib \<Rightarrow> byte list \<Rightarrow> byte \<Rightarrow> rudp_context \<Rightarrow> net \<Rightarrow> (int \<times> rudp_context \<times> net) option" where
  "rudp_send_nolock L data flag c nt =
     (let (now, nt) = softether_tick_ms nt;
          c = c\<lparr>ru_now := now\<rparr>;
          (z, flag) = rudp_payload L c data flag
      in do { (r, nt) \<leftarrow> (if ru_version c = 1 then rudp_build_v1 L c z flag nt else rudp_build_v2 L c z flag nt);
              case r of
                None \<Rightarrow> Some (-1, c, nt)
              | Some (pkt, c) \<Rightarrow>
                  let (ok, nt) = net_sendto pkt (ru_peer_addr c) nt in
                  if \<not> ok then Some (-1, c, nt)
                  else Some (int (length pkt), rudp_charge (length data) c, nt) })"

definition rudp_send ::
  "rudp_lib \<Rightarrow> byte list option \<Rightarrow> nat \<Rightarrow> byte \<Rightarrow> rudp_context \<Rightarrow> net \<Rightarrow> (int \<times> rudp_context \<times> net) option" where
  "rudp_send L data data_size flag c nt =
     (case rudp_ref_acquire c of
        None \<Rightarrow> Some (-1, c, nt)
      | Some c \<Rightarrow>
          if \<not> ru_inited c \<or> \<not> ru_peer_addr_set c
          then let (c, nt) = rudp_ref_release c nt in Some (-1, c, nt)
          else if 0 < data_size \<and> data = None
          then let (c, nt) = rudp_ref_release c nt in Some (-1, c, nt)
          else do { d \<leftarrow> mem_read (case data of None \<Rightarrow> [] | Some d \<Rightarrow> d) 0 data_size;
                    (r, c, nt) \<leftarrow> rudp_send_nolock L d flag c nt;
                    let (c, nt) = rudp_ref_release c nt;
                    Some (r, c, nt) })"

definition rudp_send_keepalive :: "rudp_lib \<Rightarrow> rudp_context \<Rightarrow> net \<Rightarrow> (int \<times> rudp_context \<times> net) option" where
  "rudp_send_keepalive L c nt = rudp_send L None 0 0 c nt"

section \<open>Polling and dequeuing\<close>

definition rudp_poll_timers :: "rudp_lib \<Rightarrow> rudp_context \<Rightarrow> net \<Rightarrow> (rudp_context \<times> net) option" where
  "rudp_poll_timers L c nt =
     (let c = (if ru_last_recv_tick c \<noteq> 0 \<and> ru_last_recv_tick c + rudp_timeout_value c < ru_now c
               then c\<lparr>ru_first_stable_receive_tick := 0, ru_last_loss_event_tick := ru_now c\<rparr> else c)
      in if ru_next_send_keepalive c = 0 \<or> ru_next_send_keepalive c \<le> ru_now c
         then do { (c, nt) \<leftarrow> (if ru_peer_addr_set c
                              then do { (r, c, nt) \<leftarrow> rudp_send_keepalive L c nt; Some (c, nt) }
                              else Some (c, nt));
                   let (ka_min, ka_max) =
                     (if ru_mss c AND 0x80000000 \<noteq> 0
                      then (RUDP_KA_INTERVAL_MIN_FAST, RUDP_KA_INTERVAL_MAX_FAST)
                      else (RUDP_KA_INTERVAL_MIN, RUDP_KA_INTERVAL_MAX));
                   let (r, nt) = rand_u32 nt;
                   Some (c\<lparr>ru_next_send_keepalive := ru_now c + (ka_min + ucast (r mod ucast (ka_max - ka_min)))\<rparr>, nt) }
         else Some (c, nt))"

definition rudp_poll_nolock :: "rudp_lib \<Rightarrow> rudp_context \<Rightarrow> net \<Rightarrow> (rudp_context \<times> net) option" where
  "rudp_poll_nolock L c nt =
     (let (now, nt) = softether_tick_ms nt in
      do { (c, nt) \<leftarrow> rudp_poll_timers L (c\<lparr>ru_now := now\<rparr>) nt;
           rudp_recv_loop L (nt_udp_in nt) c nt })"

definition rudp_poll :: "rudp_lib \<Rightarrow> rudp_context \<Rightarrow> net \<Rightarrow> (rudp_context \<times> net) option" where
  "rudp_poll L c nt =
     (case rudp_ref_acquire c of
        None \<Rightarrow> Some (c, nt)
      | Some c \<Rightarrow>
          if \<not> ru_inited c then Some (rudp_ref_release c nt)
          else do { (c, nt) \<leftarrow> rudp_poll_nolock L c nt; Some (rudp_ref_release c nt) })"

text \<open>
  The buffer comes back with the frame, if there is one; \<open>len\<close> is left as it was when the queue is
  empty or the reference is refused.
\<close>

definition rudp_recv ::
  "nat \<Rightarrow> nat \<Rightarrow> rudp_context \<Rightarrow> net \<Rightarrow> (int \<times> nat \<times> byte list \<times> rudp_context \<times> net) option" where
  "rudp_recv len max_len c nt =
     (case rudp_ref_acquire c of
        None \<Rightarrow> Some (-1, len, [], c, nt)
      | Some c \<Rightarrow>
          if fr_count (ru_recv_queue c) = 0
          then let (c, nt) = rudp_ref_release c nt in Some (0, len, [], c, nt)
          else do { n \<leftarrow> frame_len (ru_recv_queue c);
                    if max_len < unat n
                    then let (c, nt) = rudp_ref_release c nt in Some (-1, 0, [], c, nt)
                    else do { d \<leftarrow> frame_get (ru_recv_queue c);
                              let (c, nt) = rudp_ref_release
                                (c\<lparr>ru_recv_queue := frame_pop RUDP_RECV_QUEUE_SIZE (ru_recv_queue c)\<rparr>) nt;
                              Some (int (length d), unat n, d, c, nt) } })"

end
