(* ===== verification/Rudp_Ref.thy ===== *)
theory Rudp_Ref
  imports Rudp
begin

text \<open>
  The lifetime protocol of \<open>rudp_context_t\<close> under arbitrary interleavings: any number of threads
  inside public entry points, one owner that calls \<open>rudp_destroy\<close> once. Every shared access of
  \<open>rudp_ref_acquire\<close>, \<open>rudp_ref_release\<close> and \<open>rudp_destroy\<close> (the load of the count, the load of the
  flag, the compare-and-swap, the second load of the flag, the decrement, the store of the flag)
  is one step of the relation \<open>ref_step\<close>. Steps touch the context only through \<open>ref_touch\<close>, which
  records a use after free.
\<close>

section \<open>The protocol\<close>

text \<open>
  Program counters. \<open>At_load\<close>, \<open>At_flag old\<close>, \<open>At_cas old\<close>, \<open>At_recheck\<close>: inside
  \<open>rudp_ref_acquire\<close>; \<open>In_body\<close>: holding a reference inside the entry point; \<open>At_rollback\<close> and
  \<open>At_release\<close>: about to decrement; \<open>Idle\<close>: outside.
\<close>

datatype ref_pc = Idle | At_load | At_flag int | At_cas int | At_recheck | In_body | At_rollback | At_release

datatype owner_pc = Owning | At_drop | Dropped

record ref_state =
  rf_count :: int
  rf_destroying :: bool
  rf_frees :: nat
  rf_uaf :: bool
  rf_pc :: "nat \<Rightarrow> ref_pc"
  rf_owner :: owner_pc
  rf_held :: "nat list"

definition ref_init :: ref_state where
  "ref_init = \<lparr>rf_count = 1, rf_destroying = False, rf_frees = 0, rf_uaf = False,
     rf_pc = (\<lambda>_. Idle), rf_owner = Owning, rf_held = []\<rparr>"

definition ref_touch :: "ref_state \<Rightarrow> ref_state" where
  "ref_touch s = (if 0 < rf_frees s then s\<lparr>rf_uaf := True\<rparr> else s)"

definition ref_goto :: "nat \<Rightarrow> ref_pc \<Rightarrow> ref_state \<Rightarrow> ref_state" where
  "ref_goto i p s = s\<lparr>rf_pc := (rf_pc s)(i := p)\<rparr>"

text \<open>\<open>__sync_sub_and_fetch\<close> and, at zero, \<open>rudp_destroy_final\<close>.\<close>

definition ref_drop :: "ref_state \<Rightarrow> ref_state" where
  "ref_drop s =
     (let s = ref_touch (s\<lparr>rf_count := rf_count s - 1\<rparr>) in
      if rf_count s = 0 then s\<lparr>rf_frees := rf_frees s + 1\<rparr> else s)"

text \<open>
  \<open>rf_held\<close> is bookkeeping: the threads that hold a reference. \<open>enter\<close> is a thread calling an entry
  point; the calling convention of the header lets no call begin after teardown has begun.
\<close>

inductive ref_step :: "ref_state \<Rightarrow> ref_state \<Rightarrow> bool" where
  enter: "rf_pc s i = Idle \<Longrightarrow> rf_owner s = Owning \<Longrightarrow> ref_step s (ref_goto i At_load s)"
| load_dead: "rf_pc s i = At_load \<Longrightarrow> rf_count s \<le> 0 \<Longrightarrow> ref_step s (ref_goto i Idle (ref_touch s))"
| load: "rf_pc s i = At_load \<Longrightarrow> 0 < rf_count s \<Longrightarrow>
     ref_step s (ref_goto i (At_flag (rf_count s)) (ref_touch s))"
| flag_set: "rf_pc s i = At_flag old \<Longrightarrow> rf_destroying s \<Longrightarrow> ref_step s (ref_goto i Idle (ref_touch s))"
| flag_clear: "rf_pc s i = At_flag old \<Longrightarrow> \<not> rf_destroying s \<Longrightarrow>
     ref_step s (ref_goto i (At_cas old) (ref_touch s))"
| cas_lost: "rf_pc s i = At_cas old \<Longrightarrow> rf_count s \<noteq> old \<Longrightarrow> ref_step s (ref_goto i At_load (ref_touch s))"
| cas_won: "rf_pc s i = At_cas old \<Longrightarrow> rf_count s = old \<Longrightarrow>
     ref_step s (ref_goto i At_recheck (ref_touch (s\<lparr>rf_count := old + 1, rf_held := i # rf_held s\<rparr>)))"
| recheck_set: "rf_pc s i = At_recheck \<Longrightarrow> rf_destroying s \<Longrightarrow> ref_step s (ref_goto i At_rollback (ref_touch s))"
| recheck_clear: "rf_pc s i = At_recheck \<Longrightarrow> \<not> rf_destroying s \<Longrightarrow> ref_step s (ref_goto i In_body (ref_touch s))"
| body: "rf_pc s i = In_body \<Longrightarrow> ref_step s (ref_touch s)"
| body_done: "rf_pc s i = In_body \<Longrightarrow> ref_step s (ref_goto i At_release s)"
| release: "rf_pc s i \<in> {At_release, At_rollback} \<Longrightarrow>
     ref_step s (ref_goto i Idle (ref_drop (s\<lparr>rf_held := remove1 i (rf_held s)\<rparr>)))"
| destroy: "rf_owner s = Owning \<Longrightarrow>
     ref_step s (ref_touch (s\<lparr>rf_destroying := True, rf_owner := At_drop\<rparr>))"
| destroy_drop: "rf_owner s = At_drop \<Longrightarrow> ref_step s (ref_drop (s\<lparr>rf_owner := Dropped\<rparr>))"

inductive ref_reach :: "ref_state \<Rightarrow> bool" where
  start: "ref_reach ref_init"
| step: "ref_reach s \<Longrightarrow> ref_step s t \<Longrightarrow> ref_reach t"

inductive_cases ref_stepE: "ref_step s t"

section \<open>The invariant\<close>

definition holds_ref :: "ref_pc \<Rightarrow> bool" where
  "holds_ref p \<longleftrightarrow> p \<in> {At_recheck, In_body, At_rollback, At_release}"

definition owner_refs :: "owner_pc \<Rightarrow> int" where
  "owner_refs p = (if p = Dropped then 0 else 1)"

text \<open>
  The count is the number of references handed out (the owner's and one per holding thread) as long
  as the context exists; it is freed exactly when that number reaches zero, once.
\<close>

definition ref_inv :: "ref_state \<Rightarrow> bool" where
  "ref_inv s \<longleftrightarrow>
     distinct (rf_held s) \<and> (\<forall>i. i \<in> set (rf_held s) \<longleftrightarrow> holds_ref (rf_pc s i)) \<and>
     rf_count s = owner_refs (rf_owner s) + int (length (rf_held s)) \<and>
     rf_frees s = (if rf_count s = 0 then 1 else 0) \<and>
     (rf_owner s \<noteq> Owning \<longleftrightarrow> rf_destroying s) \<and>
     (\<forall>i old. rf_pc s i = At_flag old \<or> rf_pc s i = At_cas old \<longrightarrow> 0 < old)"

lemmas ref_ops = ref_touch_def ref_goto_def ref_drop_def

lemma ref_inv_init: "ref_inv ref_init"
  by (simp add: ref_inv_def ref_init_def holds_ref_def owner_refs_def)

lemma ref_touch_inv [simp]: "ref_inv (ref_touch s) = ref_inv s"
  by (simp add: ref_inv_def ref_touch_def)

lemma ref_touch_sel [simp]:
  "rf_pc (ref_touch s) = rf_pc s" "rf_count (ref_touch s) = rf_count s" "rf_owner (ref_touch s) = rf_owner s"
  "rf_held (ref_touch s) = rf_held s" "rf_frees (ref_touch s) = rf_frees s" "rf_destroying (ref_touch s) = rf_destroying s"
  by (simp_all add: ref_touch_def)

text \<open>A step between program points that both hold a reference, or both do not.\<close>

lemma ref_goto_inv:
  assumes "ref_inv s" "holds_ref p = holds_ref (rf_pc s i)" "\<And>old. p = At_flag old \<or> p = At_cas old \<Longrightarrow> 0 < old"
  shows "ref_inv (ref_goto i p s)"
  using assms by (auto simp: ref_inv_def ref_goto_def)

lemma ref_inv_frees: "ref_inv s \<Longrightarrow> i \<in> set (rf_held s) \<Longrightarrow> rf_frees s = 0 \<and> 0 < rf_count s"
  by (cases "rf_held s") (auto simp: ref_inv_def owner_refs_def split: if_splits)

lemma ref_cas_inv:
  assumes "ref_inv s" "rf_pc s i = At_cas old" "rf_count s = old"
  shows "ref_inv (ref_goto i At_recheck (s\<lparr>rf_count := old + 1, rf_held := i # rf_held s\<rparr>))"
proof -
  have "0 < old" "i \<notin> set (rf_held s)" using assms by (auto simp: ref_inv_def holds_ref_def)
  then show ?thesis using assms
    by (auto simp: ref_inv_def ref_goto_def holds_ref_def owner_refs_def split: if_splits)
qed

lemma ref_release_inv:
  assumes "ref_inv s" "rf_pc s i \<in> {At_release, At_rollback}"
  shows "ref_inv (ref_goto i Idle (ref_drop (s\<lparr>rf_held := remove1 i (rf_held s)\<rparr>)))"
proof -
  have h: "i \<in> set (rf_held s)" "distinct (rf_held s)" using assms by (auto simp: ref_inv_def holds_ref_def)
  then have l: "length (rf_held s) = Suc (length (remove1 i (rf_held s)))"
    using length_pos_if_in_set [of i "rf_held s"] by (simp add: length_remove1)
  show ?thesis
    using assms h l ref_inv_frees [OF assms(1) h(1)]
    by (auto simp: ref_inv_def ref_goto_def ref_drop_def ref_touch_def holds_ref_def Let_def split: if_splits)
qed

lemma ref_destroy_inv:
  assumes "ref_inv s"
  shows "rf_owner s = Owning \<Longrightarrow> ref_inv (s\<lparr>rf_destroying := True, rf_owner := At_drop\<rparr>)"
    and "rf_owner s = At_drop \<Longrightarrow> ref_inv (ref_drop (s\<lparr>rf_owner := Dropped\<rparr>))"
  using assms
  by (auto simp: ref_inv_def owner_refs_def ref_drop_def ref_touch_def Let_def split: if_splits)

lemma ref_goto_touch: "ref_goto i p (ref_touch s) = ref_touch (ref_goto i p s)"
  by (simp add: ref_goto_def ref_touch_def)

lemma ref_step_inv: "ref_step s t \<Longrightarrow> ref_inv s \<Longrightarrow> ref_inv t"
proof (induction rule: ref_step.induct)
  case (flag_clear s i old)
  then have "0 < old" by (auto simp: ref_inv_def)
  with flag_clear have "ref_inv (ref_goto i (At_cas old) s)" by (intro ref_goto_inv) (auto simp: holds_ref_def)
  then show ?case by (simp add: ref_goto_touch)
next
  case (cas_won s i old)
  then show ?case by (simp add: ref_goto_touch ref_cas_inv)
next
  case (release s i)
  then show ?case using ref_release_inv by blast
qed (auto simp: ref_goto_touch holds_ref_def ref_destroy_inv intro!: ref_goto_inv)

lemma ref_reach_inv: "ref_reach s \<Longrightarrow> ref_inv s"
  by (induction rule: ref_reach.induct) (auto intro: ref_inv_init ref_step_inv)

section \<open>Lifetime safety\<close>

text \<open>
  C28. In every interleaving of entry points with one teardown, the reference count equals the
  references handed out, a thread that holds a reference never works on a freed context, the
  context is freed at most once, and it has been freed once the owner has dropped its reference
  and every thread has left.
\<close>

theorem rudp_ref_lifetime:
  assumes "ref_reach s"
  shows "rf_count s = owner_refs (rf_owner s) + int (length (rf_held s)) \<and> rf_frees s \<le> 1 \<and>
    (\<forall>i. holds_ref (rf_pc s i) \<longrightarrow> rf_frees s = 0) \<and>
    (rf_owner s = Dropped \<and> (\<forall>i. \<not> holds_ref (rf_pc s i)) \<longrightarrow> rf_frees s = 1)"
proof -
  have i: "ref_inv s" using assms by (rule ref_reach_inv)
  have "rf_frees s = 0" if "holds_ref (rf_pc s i)" for i
    using that i ref_inv_frees [OF i, of i] by (auto simp: ref_inv_def)
  moreover have "rf_frees s = 1" if "rf_owner s = Dropped" "\<forall>i. \<not> holds_ref (rf_pc s i)"
  proof -
    have "set (rf_held s) = {}" using that(2) i by (auto simp: ref_inv_def)
    then show ?thesis using that(1) i by (simp add: ref_inv_def owner_refs_def)
  qed
  ultimately show ?thesis using i by (auto simp: ref_inv_def)
qed

lemma ref_runI: "ref_reach s \<Longrightarrow> ref_step s t \<Longrightarrow> t = u \<Longrightarrow> ref_reach u"
  using ref_reach.step by blast

lemma ref_demo_enter: "ref_reach (ref_goto 0 At_load ref_init)"
  by (rule ref_runI [OF ref_reach.start ref_step.enter [of _ 0]]) (simp_all add: ref_init_def)

lemma ref_demo_destroyed:
  "ref_reach (ref_init\<lparr>rf_pc := (\<lambda>_. Idle)(0 := At_load), rf_destroying := True, rf_owner := Dropped, rf_count := 0, rf_frees := 1\<rparr>)"
proof -
  have "ref_reach (ref_init\<lparr>rf_pc := (\<lambda>_. Idle)(0 := At_load), rf_destroying := True, rf_owner := At_drop\<rparr>)"
    by (rule ref_runI [OF ref_demo_enter ref_step.destroy]) (simp_all add: ref_ops ref_init_def)
  then show ?thesis
    by (rule ref_runI [OF _ ref_step.destroy_drop]) (simp_all add: ref_ops ref_init_def)
qed

theorem rudp_ref_lifetime_witness:
  "\<exists>s. ref_reach s \<and> rf_owner s = Dropped \<and> rf_frees s = 1 \<and> rf_frees s \<le> 1"
  using rudp_ref_lifetime [OF ref_demo_destroyed] ref_demo_destroyed
  by (intro exI [of _ "ref_init\<lparr>rf_pc := (\<lambda>_. Idle)(0 := At_load), rf_destroying := True, rf_owner := Dropped, rf_count := 0, rf_frees := 1\<rparr>"])
     (simp add: ref_init_def)

text \<open>
  The window that remains: a thread that has entered \<open>rudp_ref_acquire\<close> but not yet taken its
  reference is not counted, so a teardown that runs to completion at that moment frees the context
  and the thread's next load reads freed memory, although the call began before the teardown.
\<close>

theorem rudp_ref_entry_race: "\<exists>s. ref_reach s \<and> rf_uaf s"
proof -
  have "ref_reach (ref_init\<lparr>rf_pc := (\<lambda>_. Idle), rf_destroying := True, rf_owner := Dropped, rf_count := 0, rf_frees := 1, rf_uaf := True\<rparr>)"
    by (rule ref_runI [OF ref_demo_destroyed ref_step.load_dead [of _ 0]]) (auto simp: ref_ops ref_init_def)
  then show ?thesis by (rule exI [where P = "\<lambda>s. ref_reach s \<and> rf_uaf s", OF conjI]) simp
qed

end
