(* ===== verification/Nat_T.thy ===== *)
theory Nat_T
  imports Pack Net_World
begin

text \<open>
  The NAT-T client (\<open>softether_nat_t.c\<close>): the name of the relay, the parser of its replies and the rendezvous loop
  that resends the request with growing intervals until a reply, a cancel or the timeout. What the program does not
  decide is \<open>natt_lib\<close> (SHA-1, the address and name functions, the heap at each request, the random bytes, the
  cancel flag) and the scripts of \<open>natt_io\<close> (clock, socket, datagrams). Addresses are in network byte order, in the
  memory of a little-endian machine.
\<close>

definition NAT_T_PORT :: u16 where "NAT_T_PORT = 5004"
definition NAT_T_SVC_NAME :: "byte list" where "NAT_T_SVC_NAME = str ''SoftEther_VPN''"
definition NAT_T_TRAVERSAL_VERSION :: u32 where "NAT_T_TRAVERSAL_VERSION = 1"
definition NAT_T_DEFAULT_TIMEOUT_MS :: u32 where "NAT_T_DEFAULT_TIMEOUT_MS = 12000"
definition NAT_T_CONNECT_INTERVAL :: u64 where "NAT_T_CONNECT_INTERVAL = 200"
definition NAT_T_MAX_BACKOFF_EXP :: nat where "NAT_T_MAX_BACKOFF_EXP = 6"
definition NAT_T_RESP_BUF_SIZE :: nat where "NAT_T_RESP_BUF_SIZE = 4096"
definition NAT_T_HOSTNAME_MAX :: nat where "NAT_T_HOSTNAME_MAX = 96"

datatype natt_error = NAT_T_ERR_OK | NAT_T_ERR_UNKNOWN | NAT_T_ERR_TIMEOUT | NAT_T_ERR_GETIP_FAILED | NAT_T_ERR_NO_RESPONSE
  | NAT_T_ERR_TWO_OR_MORE | NAT_T_ERR_NOT_FOUND

record natt_result =
  nr_result_ip :: u32
  nr_result_port :: u16
  nr_same_lan :: int
  nr_udp_fd :: int
  nr_error_code :: natt_error

section \<open>The outside\<close>

text \<open>
  \<open>nl_resolve\<close> is \<open>getaddrinfo\<close>: \<open>None\<close> for an error, else the list of addresses, \<open>None\<close> in it for one that is not
  IPv4. \<open>nl_rand\<close> is what the eight bytes hold after \<open>generate_random_bytes\<close>, whose verdict the code ignores.
\<close>

record natt_lib =
  nl_sha1 :: "byte list \<Rightarrow> byte list"
  nl_ntop :: "u32 \<Rightarrow> byte list option"
  nl_pton :: "byte list \<Rightarrow> u32 option"
  nl_resolve :: "byte list \<Rightarrow> u32 option list option"
  nl_heap :: "nat \<Rightarrow> heap_env"
  nl_rand :: "byte list"
  nl_cancel :: "(nat \<Rightarrow> bool) option"

text \<open>
  One probe of the socket: \<open>poll\<close> has nothing or fails, \<open>recvfrom\<close> fails or gives nothing, or a datagram. A script
  that has run out has nothing. \<open>no_waits\<close> records the timeouts of the waits, \<open>no_out\<close> what is sent to the relay.
\<close>

datatype probe = Probe_none | Probe_fail | Probe_data "byte list" sock_addr

datatype bound_socket = No_socket | Unbound int | Bound int

record natt_io =
  no_tick :: "nat \<Rightarrow> u64"
  no_ticks :: nat
  no_socket :: bound_socket
  no_in :: "probe list"
  no_out :: "(byte list \<times> sock_addr) list"
  no_waits :: "u64 list"
  no_closed :: "int list"

definition nat_t_tick_ms :: "natt_io \<Rightarrow> u64 \<times> natt_io" where
  "nat_t_tick_ms io = (no_tick io (no_ticks io), io\<lparr>no_ticks := no_ticks io + 1\<rparr>)"

definition natt_close :: "int \<Rightarrow> natt_io \<Rightarrow> natt_io" where
  "natt_close fd io = io\<lparr>no_closed := no_closed io @ [fd]\<rparr>"

definition natt_probe :: "natt_io \<Rightarrow> probe \<times> natt_io" where
  "natt_probe io = (case no_in io of [] \<Rightarrow> (Probe_none, io) | p # ps \<Rightarrow> (p, io\<lparr>no_in := ps\<rparr>))"

definition nat_t_ip_to_str :: "natt_lib \<Rightarrow> u32 \<Rightarrow> byte list" where
  "nat_t_ip_to_str L ip = (case nl_ntop L ip of None \<Rightarrow> [] | Some s \<Rightarrow> s)"

section \<open>The relay\<close>

definition hex_digit :: "byte \<Rightarrow> byte" where
  "hex_digit b = str ''0123456789abcdef'' ! unat (b AND 0xF)"

definition relay_domain :: "bool \<Rightarrow> byte list" where
  "relay_domain use_alt =
     (if use_alt then str ''.servers.nat-traversal.uxcom.jp.'' else str ''.servers.nat-traversal.softether-network.net.'')"

text \<open>\<open>dst\<close> is given by its size; \<open>None\<close> is -1, also when the name would not fit.\<close>

definition nat_t_build_hostname_internal :: "natt_lib \<Rightarrow> u32 \<Rightarrow> bool \<Rightarrow> nat \<Rightarrow> byte list option" where
  "nat_t_build_hostname_internal L server_ip use_alt dst_size =
     (if dst_size < NAT_T_HOSTNAME_MAX then None
      else let hash = nl_sha1 L (rev (be32 server_ip)) in
           Some (str ''x'' @ [hex_digit (drop_bit 4 (hash ! 1))] @ str ''.x'' @ [hex_digit (hash ! 1)] @ relay_domain use_alt))"

definition nat_t_build_hostname :: "natt_lib \<Rightarrow> u32 \<Rightarrow> nat \<Rightarrow> byte list option" where
  "nat_t_build_hostname L server_ip dst_size = nat_t_build_hostname_internal L server_ip False dst_size"

definition nat_t_resolve_relay :: "natt_lib \<Rightarrow> byte list \<Rightarrow> u32 option" where
  "nat_t_resolve_relay L hostname =
     (case nl_resolve L hostname of
        None \<Rightarrow> None
      | Some as \<Rightarrow> (case List.find (\<lambda>a. a \<noteq> None) as of None \<Rightarrow> None | Some a \<Rightarrow> a))"

definition nat_t_create_udp_socket :: "natt_io \<Rightarrow> int option \<times> natt_io" where
  "nat_t_create_udp_socket io =
     (case no_socket io of
        No_socket \<Rightarrow> (None, io)
      | Unbound fd \<Rightarrow> (None, natt_close fd io)
      | Bound fd \<Rightarrow> (Some fd, io))"

text \<open>The name in the chosen domain, and in the other one when the first does not resolve.\<close>

definition nat_t_find_relay :: "natt_lib \<Rightarrow> u32 \<Rightarrow> bool \<Rightarrow> natt_error + u32" where
  "nat_t_find_relay L server_ip use_alt =
     (case nat_t_build_hostname_internal L server_ip use_alt NAT_T_HOSTNAME_MAX of
        None \<Rightarrow> Inl NAT_T_ERR_UNKNOWN
      | Some h \<Rightarrow>
          (case nat_t_resolve_relay L h of
             Some ip \<Rightarrow> Inr ip
           | None \<Rightarrow>
               if use_alt then Inl NAT_T_ERR_GETIP_FAILED
               else (case nat_t_build_hostname_internal L server_ip True NAT_T_HOSTNAME_MAX of
                       None \<Rightarrow> Inl NAT_T_ERR_GETIP_FAILED
                     | Some h \<Rightarrow>
                         (case nat_t_resolve_relay L h of
                            None \<Rightarrow> Inl NAT_T_ERR_GETIP_FAILED
                          | Some ip \<Rightarrow> Inr ip))))"

section \<open>Replies\<close>

text \<open>The verdict, the cookie and the result; a field that is missing leaves its variable as it was.\<close>

definition nat_t_accept :: "natt_lib \<Rightarrow> byte list \<Rightarrow> u32 \<Rightarrow> natt_result \<Rightarrow> int \<times> natt_result" where
  "nat_t_accept L buf len r =
     (case pack_get_str (Some buf) len (Some (str ''result_ip'')) 16 of
        None \<Rightarrow> (0, r)
      | Some ip_str \<Rightarrow>
          (case pack_get_int (Some buf) len (Some (str ''result_port'')) of
             None \<Rightarrow> (0, r)
           | Some port \<Rightarrow>
               if port = 0 \<or> 65535 < port then (0, r)
               else (case nl_pton L (c_str ip_str) of
                       None \<Rightarrow> (0, r)
                     | Some a \<Rightarrow>
                         if a = 0 then (0, r)
                         else (1, r\<lparr>nr_result_ip := a, nr_result_port := ucast port,
                                    nr_same_lan := (case pack_get_int (Some buf) len (Some (str ''same_lan'')) of
                                                      None \<Rightarrow> 0 | Some v \<Rightarrow> sint v),
                                    nr_error_code := NAT_T_ERR_OK\<rparr>))))"

definition nat_t_parse_response :: "natt_lib \<Rightarrow> byte list \<Rightarrow> u32 \<Rightarrow> u64 \<Rightarrow> u64 \<Rightarrow> natt_result \<Rightarrow> int \<times> u64 \<times> natt_result" where
  "nat_t_parse_response L buf len tran_id current_cookie r =
     (let current_cookie = (case pack_get_int64 (Some buf) len (Some (str ''cookie'')) of
                              None \<Rightarrow> current_cookie
                            | Some c \<Rightarrow> if c \<noteq> 0 then c else current_cookie) in
      if pack_get_int64 (Some buf) len (Some (str ''tran_id'')) \<noteq> Some tran_id then (0, current_cookie, r)
      else if map_option c_str (pack_get_str (Some buf) len (Some (str ''opcode'')) 64) \<noteq> Some (str ''nat_t_connect_request'')
      then (0, current_cookie, r)
      else let ok = (case pack_get_int (Some buf) len (Some (str ''ok'')) of None \<Rightarrow> 0 | Some v \<Rightarrow> v) in
           if ok \<noteq> 0 then (case nat_t_accept L buf len r of (st, r) \<Rightarrow> (st, current_cookie, r))
           else let multi = (case pack_get_int (Some buf) len (Some (str ''multi_candidates'')) of None \<Rightarrow> 0 | Some v \<Rightarrow> v) in
                (-1, current_cookie, r\<lparr>nr_error_code := (if multi \<noteq> 0 then NAT_T_ERR_TWO_OR_MORE else NAT_T_ERR_NOT_FOUND)\<rparr>))"

text \<open>
  Reading what has arrived, each datagram at most the size of the buffer: the verdict (0: nothing decided), the cookie
  and the result. Datagrams that are not from the relay are skipped.
\<close>

definition from_relay :: "u32 \<Rightarrow> sock_addr \<Rightarrow> bool" where
  "from_relay relay_ip from_addr \<longleftrightarrow> from_addr = Sa_in relay_ip NAT_T_PORT"

function nat_t_drain :: "natt_lib \<Rightarrow> u32 \<Rightarrow> u64 \<Rightarrow> u64 \<Rightarrow> natt_result \<Rightarrow> natt_io \<Rightarrow> int \<times> u64 \<times> natt_result \<times> natt_io" where
  "nat_t_drain L relay_ip tran_id cookie r io =
     (case natt_probe io of
        (Probe_data bs from_addr, io') \<Rightarrow>
          let buf = take NAT_T_RESP_BUF_SIZE bs in
          if buf = [] then (0, cookie, r, io')
          else if \<not> from_relay relay_ip from_addr then nat_t_drain L relay_ip tran_id cookie r io'
          else (case nat_t_parse_response L buf (word_of_nat (length buf)) tran_id cookie r of
                  (st, cookie, r) \<Rightarrow> if st \<noteq> 0 then (st, cookie, r, io') else nat_t_drain L relay_ip tran_id cookie r io')
      | (_, io') \<Rightarrow> (0, cookie, r, io'))"
  by pat_completeness auto
termination
  by (relation "measure (\<lambda>(L, i, t, c, r, io). length (no_in io))") (auto simp: natt_probe_def split: list.splits)

declare nat_t_drain.simps [simp del]

section \<open>Requests\<close>

text \<open>The verdicts of \<open>pack_add_*\<close> are ignored: an element that has no room is left out.\<close>

fun pack_add_ignoring :: "heap_env \<Rightarrow> softether_pack \<Rightarrow> pack_elem list \<Rightarrow> softether_pack option" where
  "pack_add_ignoring h p [] = Some p"
| "pack_add_ignoring h p (e # es) = do { (_, p) \<leftarrow> pack_add_value h p e; pack_add_ignoring h p es }"

definition natt_request :: "natt_lib \<Rightarrow> u64 \<Rightarrow> u32 \<Rightarrow> u64 \<Rightarrow> byte list \<Rightarrow> byte list \<Rightarrow> byte list \<Rightarrow> pack_elem list" where
  "natt_request L tran_id server_ip cookie hint target svc =
     [(str ''opcode'', PStr (str ''nat_t_connect_request'')), (str ''tran_id'', PInt64 tran_id),
      (str ''dest_ip'', PStr (nat_t_ip_to_str L server_ip)), (str ''cookie'', PInt64 cookie)] @
     (if hint \<noteq> [] then [(str ''hint'', PStr hint)] else []) @
     (if target \<noteq> [] then [(str ''target_hostname'', PStr target)] else []) @
     [(str ''svc_name'', PStr svc), (str ''nat_traversal_version'', PInt NAT_T_TRAVERSAL_VERSION)]"

definition nat_t_send :: "heap_env \<Rightarrow> u32 \<Rightarrow> pack_elem list \<Rightarrow> natt_io \<Rightarrow> natt_io option" where
  "nat_t_send h relay_ip es io =
     (case pack_new h of
        None \<Rightarrow> Some io
      | Some p \<Rightarrow>
          do { p \<leftarrow> pack_add_ignoring h p es;
               bs \<leftarrow> mem_read (pk_data p) 0 (unat (pack_length (Some p)));
               Some (io\<lparr>no_out := no_out io @ [(bs, Sa_in relay_ip NAT_T_PORT)]\<rparr>) })"

definition nat_t_interval :: "nat \<Rightarrow> u64" where
  "nat_t_interval num_tries =
     NAT_T_CONNECT_INTERVAL * push_bit (if num_tries < NAT_T_MAX_BACKOFF_EXP then num_tries else NAT_T_MAX_BACKOFF_EXP) 1"

definition nat_t_wait :: "u64 \<Rightarrow> u64 \<Rightarrow> u64" where
  "nat_t_wait now next_send = (if now < next_send \<and> next_send - now < 50 then next_send - now else 50)"

section \<open>The rendezvous\<close>

text \<open>What the loop does not change.\<close>

record natt_call =
  nc_fd :: int
  nc_relay_ip :: u32
  nc_server_ip :: u32
  nc_hint :: "byte list"
  nc_target :: "byte list"
  nc_svc :: "byte list"
  nc_tran_id :: u64
  nc_giveup :: u64

text \<open>The loop; not returning is \<open>None\<close>.\<close>

partial_function (option) nat_t_loop ::
  "natt_lib \<Rightarrow> natt_call \<Rightarrow> u64 \<Rightarrow> u64 \<Rightarrow> nat \<Rightarrow> natt_result \<Rightarrow> natt_io \<Rightarrow> (int \<times> natt_result \<times> natt_io) option" where
  "nat_t_loop L k next_send cookie num_tries r io =
     (let (now, io) = nat_t_tick_ms io in
      if nc_giveup k \<le> now \<or> (case nl_cancel L of None \<Rightarrow> False | Some f \<Rightarrow> f (no_ticks io))
      then Some (-1, r\<lparr>nr_error_code := NAT_T_ERR_NO_RESPONSE\<rparr>, natt_close (nc_fd k) io)
      else let (st, cookie, r, io) = nat_t_drain L (nc_relay_ip k) (nc_tran_id k) cookie r io in
      if st = 1
      then Some (if nr_same_lan r \<noteq> 0 then (0, r\<lparr>nr_udp_fd := -1\<rparr>, natt_close (nc_fd k) io)
                 else (0, r\<lparr>nr_udp_fd := nc_fd k\<rparr>, io))
      else if st < 0 then Some (-1, r, natt_close (nc_fd k) io)
      else if next_send = 0 \<or> next_send \<le> now
      then Option.bind
             (nat_t_send (nl_heap L num_tries) (nc_relay_ip k)
                (natt_request L (nc_tran_id k) (nc_server_ip k) cookie (nc_hint k) (nc_target k) (nc_svc k)) io)
             (\<lambda>io. let next_send = now + nat_t_interval num_tries in
                   nat_t_loop L k next_send cookie (num_tries + 1) r (io\<lparr>no_waits := no_waits io @ [nat_t_wait now next_send]\<rparr>))
      else nat_t_loop L k next_send cookie num_tries r (io\<lparr>no_waits := no_waits io @ [nat_t_wait now next_send]\<rparr>))"

definition natt_tran_id :: "byte list \<Rightarrow> u64" where
  "natt_tran_id rnd = (let t = foldl (\<lambda>t b. push_bit 8 t OR ucast b) 0 (take 8 rnd) in if t = 0 then 0x9E3779B97F4A7C15 else t)"

definition natt_unknown :: natt_result where
  "natt_unknown = \<lparr>nr_result_ip = 0, nr_result_port = 0, nr_same_lan = 0, nr_udp_fd = -1, nr_error_code = NAT_T_ERR_UNKNOWN\<rparr>"

text \<open>A string argument that is NULL or empty counts as absent.\<close>

definition opt_str :: "byte list option \<Rightarrow> byte list" where
  "opt_str s = (case s of None \<Rightarrow> [] | Some s \<Rightarrow> s)"

definition nat_t_connect_internal ::
  "natt_lib \<Rightarrow> u32 \<Rightarrow> byte list option \<Rightarrow> byte list option \<Rightarrow> byte list option \<Rightarrow> u32 \<Rightarrow> bool \<Rightarrow> natt_io \<Rightarrow>
     (int \<times> natt_result \<times> natt_io) option" where
  "nat_t_connect_internal L server_ip svc_name hint target timeout_ms use_alt io =
     (let timeout_ms = (if timeout_ms = 0 then NAT_T_DEFAULT_TIMEOUT_MS else timeout_ms);
          svc = (if opt_str svc_name = [] then NAT_T_SVC_NAME else opt_str svc_name) in
      case nat_t_find_relay L server_ip use_alt of
        Inl e \<Rightarrow> Some (-1, natt_unknown\<lparr>nr_error_code := e\<rparr>, io)
      | Inr relay_ip \<Rightarrow>
          (case nat_t_create_udp_socket io of
             (None, io) \<Rightarrow> Some (-1, natt_unknown, io)
           | (Some fd, io) \<Rightarrow>
               let tran_id = natt_tran_id (nl_rand L); (t0, io) = nat_t_tick_ms io in
               nat_t_loop L \<lparr>nc_fd = fd, nc_relay_ip = relay_ip, nc_server_ip = server_ip, nc_hint = opt_str hint,
                             nc_target = opt_str target, nc_svc = svc, nc_tran_id = tran_id, nc_giveup = t0 + ucast timeout_ms\<rparr>
                 0 0 0 natt_unknown io))"

definition nat_t_connect :: "natt_lib \<Rightarrow> u32 \<Rightarrow> byte list option \<Rightarrow> u32 \<Rightarrow> natt_io \<Rightarrow> (int \<times> natt_result \<times> natt_io) option" where
  "nat_t_connect L server_ip svc_name timeout_ms io = nat_t_connect_internal L server_ip svc_name None None timeout_ms False io"

definition nat_t_connect_alt :: "natt_lib \<Rightarrow> u32 \<Rightarrow> byte list option \<Rightarrow> u32 \<Rightarrow> natt_io \<Rightarrow> (int \<times> natt_result \<times> natt_io) option" where
  "nat_t_connect_alt L server_ip svc_name timeout_ms io = nat_t_connect_internal L server_ip svc_name None None timeout_ms True io"

definition nat_t_connect_ex ::
  "natt_lib \<Rightarrow> u32 \<Rightarrow> byte list option \<Rightarrow> byte list option \<Rightarrow> byte list option \<Rightarrow> u32 \<Rightarrow> natt_io \<Rightarrow>
     (int \<times> natt_result \<times> natt_io) option" where
  "nat_t_connect_ex L server_ip svc_name hint target timeout_ms io =
     nat_t_connect_internal L server_ip svc_name hint target timeout_ms False io"

end
