(* ===== verification/Pack_Fields.thy ===== *)
theory Pack_Fields
  imports Pack
begin

text \<open>
  Fields of a PACK: what the readers find in a PACK with given elements, whether it was built in place by the writer or
  arrived as the bytes of a message.
\<close>

text \<open>The value the readers find in a list of elements.\<close>

definition int_field :: "string \<Rightarrow> pack_elem list \<Rightarrow> u32 option" where
  "int_field f es = (case find_elem (str f) PACK_TYPE_INT es of Some (PInt v) \<Rightarrow> Some v | _ \<Rightarrow> None)"

definition int64_field :: "string \<Rightarrow> pack_elem list \<Rightarrow> u64 option" where
  "int64_field f es = (case find_elem (str f) PACK_TYPE_INT64 es of Some (PInt64 v) \<Rightarrow> Some v | _ \<Rightarrow> None)"

definition str_field :: "string \<Rightarrow> pack_elem list \<Rightarrow> byte list option" where
  "str_field f es = (case find_elem (str f) PACK_TYPE_STR es of Some (PStr s) \<Rightarrow> Some s | _ \<Rightarrow> None)"

lemma pack_fields:
  assumes "pack_rep p es" "es \<noteq> []" "length es \<le> 4096" "list_all elem_fits es"
  shows "pack_get_int (Some (pk_data p)) (pk_len p) (Some (str f)) = int_field f es"
    "pack_get_int64 (Some (pk_data p)) (pk_len p) (Some (str f)) = int64_field f es"
    "0 < n \<Longrightarrow> pack_get_str (Some (pk_data p)) (pk_len p) (Some (str f)) n = map_option (\<lambda>s. take (unat n - 1) s @ [0]) (str_field f es)"
  using pack_get_int_enc [OF assms] pack_get_int64_enc [OF assms] pack_get_str_enc [OF assms]
  by (auto simp: int_field_def int64_field_def str_field_def split: option.splits pack_value.splits)

lemma c_str_NUL: "c_str (s @ [0]) = c_str s"
  by (simp add: c_str_def takeWhile_tail)

text \<open>The bytes of a message as a PACK.\<close>

definition data_field :: "string \<Rightarrow> pack_elem list \<Rightarrow> byte list option" where
  "data_field f es = (case find_elem (str f) PACK_TYPE_DATA es of Some (PData d) \<Rightarrow> Some d | _ \<Rightarrow> None)"

definition message_ok :: "pack_elem list \<Rightarrow> bool" where
  "message_ok es \<longleftrightarrow> es \<noteq> [] \<and> length es \<le> 4096 \<and> list_all elem_fits es \<and> length (enc_pack es) < 2 ^ 32"

lemma message_rep:
  assumes "message_ok es"
  defines "p \<equiv> \<lparr>pk_data = enc_pack es, pk_len = word_of_nat (length (enc_pack es)), pk_cap = word_of_nat (length (enc_pack es)),
     pk_num_elements = word_of_nat (length es)\<rparr>"
  shows "pack_rep p es"
proof -
  have "length (enc_pack es) = 4 + length (enc_elems es)" "drop 4 (enc_pack es) = enc_elems es" "take 4 (enc_pack es) = be32 (word_of_nat (length es))"
    by (simp_all add: enc_pack_def size_simps)
  moreover have "unat (word_of_nat (length (enc_pack es)) :: u32) = length (enc_pack es)"
    using assms(1) by (intro unat_of_nat32) (simp add: message_ok_def)
  ultimately show ?thesis by (simp add: pack_rep_def p_def)
qed

lemma message_fields:
  assumes "message_ok es"
  defines "b \<equiv> enc_pack es"
  shows "pack_get_int (Some b) (word_of_nat (length b)) (Some (str f)) = int_field f es"
    "0 < n \<Longrightarrow> pack_get_str (Some b) (word_of_nat (length b)) (Some (str f)) n = map_option (\<lambda>s. take (unat n - 1) s @ [0]) (str_field f es)"
    "0 < n \<Longrightarrow> pack_get_data (Some b) (word_of_nat (length b)) (Some (str f)) n = map_option (take (unat n)) (data_field f es)"
proof -
  have k: "es \<noteq> []" "length es \<le> 4096" "list_all elem_fits es" using assms(1) by (simp_all add: message_ok_def)
  note r = pack_fields [OF message_rep [OF assms(1)] k] pack_get_data_enc [OF message_rep [OF assms(1)] k, of n "str f"]
  show "pack_get_int (Some b) (word_of_nat (length b)) (Some (str f)) = int_field f es"
    "0 < n \<Longrightarrow> pack_get_str (Some b) (word_of_nat (length b)) (Some (str f)) n = map_option (\<lambda>s. take (unat n - 1) s @ [0]) (str_field f es)"
    "0 < n \<Longrightarrow> pack_get_data (Some b) (word_of_nat (length b)) (Some (str f)) n = map_option (take (unat n)) (data_field f es)"
    using r by (auto simp: b_def data_field_def split: option.splits pack_value.splits)
qed

end
