(* ===== verification/Nat_T_Props.thy ===== *)
theory Nat_T_Props
  imports Nat_T Pack_Fields
begin

text \<open>
  The NAT-T client: a reply means its elements, the rendezvous ends and leaves exactly one owner for its socket, and
  the growing intervals bound the number of requests.
\<close>

section \<open>Replies\<close>

lemma accept_cases:
  "(\<exists>a p l. nat_t_accept L buf len r = (1, r\<lparr>nr_result_ip := a, nr_result_port := p, nr_same_lan := l, nr_error_code := NAT_T_ERR_OK\<rparr>) \<and>
       a \<noteq> 0 \<and> p \<noteq> 0) \<or> nat_t_accept L buf len r = (0, r)"
proof -
  have "ucast port \<noteq> (0 :: u16)" if "port \<noteq> 0" "\<not> 65535 < port" for port :: u32
  proof
    assume "ucast port = (0 :: u16)"
    then have "unat (ucast port :: u16) = 0" by simp
    then have "unat port mod 65536 = 0" by (simp add: unsigned_ucast_eq take_bit_eq_mod unat_mod)
    then show False using that by (simp add: word_less_nat_alt unat_eq_zero [symmetric])
  qed
  then show ?thesis by (fastforce simp: nat_t_accept_def split: option.splits)
qed

definition reply_outcome :: "natt_result \<Rightarrow> int \<Rightarrow> natt_result \<Rightarrow> bool" where
  "reply_outcome r st r' \<longleftrightarrow>
     (\<exists>a p l. st = 1 \<and> r' = r\<lparr>nr_result_ip := a, nr_result_port := p, nr_same_lan := l, nr_error_code := NAT_T_ERR_OK\<rparr> \<and> a \<noteq> 0 \<and> p \<noteq> 0) \<or>
     st = 0 \<and> r' = r \<or> (\<exists>e. st = -1 \<and> r' = r\<lparr>nr_error_code := e\<rparr> \<and> e \<noteq> NAT_T_ERR_OK)"

lemma parse_outcome: "nat_t_parse_response L buf len t c r = (st, c', r') \<Longrightarrow> reply_outcome r st r'"
  using accept_cases [of L buf len r]
  by (auto simp: nat_t_parse_response_def reply_outcome_def Let_def split: if_splits prod.splits)

lemma drain_step:
  "no_in io = [] \<Longrightarrow> nat_t_drain L ip t c r io = (0, c, r, io)"
  "no_in io = Probe_none # ps \<or> no_in io = Probe_fail # ps \<Longrightarrow> nat_t_drain L ip t c r io = (0, c, r, io\<lparr>no_in := ps\<rparr>)"
  "no_in io = Probe_data bs a # ps \<Longrightarrow> nat_t_drain L ip t c r io =
     (if take NAT_T_RESP_BUF_SIZE bs = [] then (0, c, r, io\<lparr>no_in := ps\<rparr>)
      else if \<not> from_relay ip a then nat_t_drain L ip t c r (io\<lparr>no_in := ps\<rparr>)
      else (case nat_t_parse_response L (take NAT_T_RESP_BUF_SIZE bs) (word_of_nat (length (take NAT_T_RESP_BUF_SIZE bs))) t c r of
              (st, c, r) \<Rightarrow> if st \<noteq> 0 then (st, c, r, io\<lparr>no_in := ps\<rparr>) else nat_t_drain L ip t c r (io\<lparr>no_in := ps\<rparr>)))"
  by (auto simp: nat_t_drain.simps [of L ip t c r io] natt_probe_def Let_def)

lemma drain_outcome:
  "nat_t_drain L ip t c r io = (st, c', r', io') \<Longrightarrow> reply_outcome r st r' \<and> io' = io\<lparr>no_in := no_in io'\<rparr>"
proof (induction "no_in io" arbitrary: io c r)
  case Nil
  then show ?case by (auto simp: drain_step(1) reply_outcome_def)
next
  case (Cons p ps)
  note no_in = Cons.hyps(2) [symmetric]
  show ?case
  proof (cases p)
    case (Probe_data bs a)
    let ?io = "io\<lparr>no_in := ps\<rparr>" let ?buf = "take NAT_T_RESP_BUF_SIZE bs"
    note step = drain_step(3) [OF no_in [unfolded Probe_data], of L ip t c r]
    have ih: "reply_outcome r st r' \<and> io' = io\<lparr>no_in := no_in io'\<rparr>" if "nat_t_drain L ip t c1 r ?io = (st, c', r', io')" for c1
      using Cons.hyps(1) [of ?io c1 r] that by simp
    obtain st1 c1 r1 where p: "nat_t_parse_response L ?buf (word_of_nat (length ?buf)) t c r = (st1, c1, r1)" by (metis prod_cases3)
    have o: "reply_outcome r st1 r1" by (rule parse_outcome [OF p])
    then have same: "st1 = 0 \<Longrightarrow> r1 = r" by (auto simp: reply_outcome_def)
    show ?thesis using Cons.prems ih o same unfolding step p prod.case
      by (auto simp: reply_outcome_def split: if_splits)
  qed (use Cons.prems no_in drain_step(2) [of io ps L ip t c r] in \<open>auto simp: reply_outcome_def\<close>)
qed

section \<open>What a reply means\<close>

text \<open>What the elements say: the cookie, whether the reply is for this transaction, its verdict and the address.\<close>

definition reply_cookie :: "u64 \<Rightarrow> pack_elem list \<Rightarrow> u64" where
  "reply_cookie cookie es = (case int64_field ''cookie'' es of Some c \<Rightarrow> if c \<noteq> 0 then c else cookie | None \<Rightarrow> cookie)"

definition reply_ours :: "u64 \<Rightarrow> pack_elem list \<Rightarrow> bool" where
  "reply_ours tran_id es \<longleftrightarrow> int64_field ''tran_id'' es = Some tran_id \<and>
     map_option (\<lambda>s. c_str (take 63 s)) (str_field ''opcode'' es) = Some (str ''nat_t_connect_request'')"

definition field_set :: "string \<Rightarrow> pack_elem list \<Rightarrow> bool" where
  "field_set f es \<longleftrightarrow> int_field f es \<notin> {None, Some 0}"

definition reply_address :: "natt_lib \<Rightarrow> pack_elem list \<Rightarrow> (u32 \<times> u16) option" where
  "reply_address L es =
     do { s \<leftarrow> str_field ''result_ip'' es; port \<leftarrow> int_field ''result_port'' es;
          a \<leftarrow> nl_pton L (c_str (take 15 s));
          if 1 \<le> port \<and> port \<le> 65535 \<and> a \<noteq> 0 then Some (a, ucast port) else None }"

lemma accept_fields:
  assumes "pack_rep p es" "es \<noteq> []" "length es \<le> 4096" "list_all elem_fits es"
  shows "nat_t_accept L (pk_data p) (pk_len p) r =
     (case reply_address L es of
        None \<Rightarrow> (0, r)
      | Some (a, port) \<Rightarrow> (1, r\<lparr>nr_result_ip := a, nr_result_port := port,
          nr_same_lan := (case int_field ''same_lan'' es of Some v \<Rightarrow> sint v | None \<Rightarrow> 0), nr_error_code := NAT_T_ERR_OK\<rparr>))"
proof -
  have one: "(1 \<le> port) = (port \<noteq> 0)" for port :: u32 by (simp add: word_le_nat_alt unat_eq_zero [symmetric] Suc_le_eq)
  note f = pack_fields(1) [OF assms] pack_fields(3) [OF assms, of 16]
  show ?thesis
  proof (cases "str_field ''result_ip'' es")
    case None
    then show ?thesis by (simp add: nat_t_accept_def reply_address_def f)
  next
    case (Some s)
    note s = this
    show ?thesis
    proof (cases "int_field ''result_port'' es")
      case None
      then show ?thesis using s by (simp add: nat_t_accept_def reply_address_def f)
    next
      case (Some port)
      then show ?thesis using s
        by (cases "nl_pton L (c_str (take 15 s))") (simp_all add: nat_t_accept_def reply_address_def f one c_str_NUL not_less)
    qed
  qed
qed

text \<open>
  C13. What a reply means. For a reply that the PACK writer has built, \<open>nat_t_parse_response\<close> decides by its elements
  alone. It takes over a cookie that is not 0, whatever else the reply holds. A reply for another transaction or
  another operation is ignored. One with \<open>ok\<close> gives the address and the port when both are usable (and is ignored when they
  are not); one without it is an error, which tells several candidates from none.
\<close>

theorem nat_t_reply_meaning:
  assumes "pack_rep p es" "es \<noteq> []" "length es \<le> 4096" "list_all elem_fits es"
  shows "nat_t_parse_response L (pk_data p) (pk_len p) tran_id cookie r =
     (if \<not> reply_ours tran_id es then (0, reply_cookie cookie es, r)
      else if \<not> field_set ''ok'' es
      then (-1, reply_cookie cookie es,
            r\<lparr>nr_error_code := (if field_set ''multi_candidates'' es then NAT_T_ERR_TWO_OR_MORE else NAT_T_ERR_NOT_FOUND)\<rparr>)
      else (case reply_address L es of
              None \<Rightarrow> (0, reply_cookie cookie es, r)
            | Some (a, port) \<Rightarrow>
                (1, reply_cookie cookie es, r\<lparr>nr_result_ip := a, nr_result_port := port,
                   nr_same_lan := (case int_field ''same_lan'' es of Some v \<Rightarrow> sint v | None \<Rightarrow> 0), nr_error_code := NAT_T_ERR_OK\<rparr>)))"
proof -
  note f = pack_fields [OF assms] and a = accept_fields [OF assms]
  have c: "(case int64_field ''cookie'' es of None \<Rightarrow> cookie | Some c \<Rightarrow> if c \<noteq> 0 then c else cookie) = reply_cookie cookie es"
    by (simp add: reply_cookie_def split: option.splits)
  have op: "map_option c_str (pack_get_str (Some (pk_data p)) (pk_len p) (Some (str ''opcode'')) 64) =
      map_option (\<lambda>s. c_str (take 63 s)) (str_field ''opcode'' es)"
    by (cases "str_field ''opcode'' es") (simp_all add: f c_str_NUL)
  have set: "((case int_field n es of None \<Rightarrow> 0 | Some v \<Rightarrow> v) \<noteq> 0) = field_set n es" for n
    by (auto simp: field_set_def split: option.splits)
  show ?thesis unfolding nat_t_parse_response_def f(1,2) c Let_def op a set
    by (auto simp: reply_ours_def split: option.splits)
qed

text \<open>The reply of a relay, with an address that a toy \<open>inet_pton\<close> takes for 10.\<close>

definition demo_natt_lib :: natt_lib where
  "demo_natt_lib = \<lparr>nl_sha1 = (\<lambda>bs. replicate 20 0x5A), nl_ntop = (\<lambda>a. Some (str ''1.2.3.4'')), nl_pton = (\<lambda>s. Some (word_of_nat (length s))),
     nl_resolve = (\<lambda>h. Some [Some 7]), nl_heap = (\<lambda>n. demo_heap), nl_rand = replicate 8 1, nl_cancel = None\<rparr>"

definition demo_reply :: "pack_elem list" where
  "demo_reply = [(str ''tran_id'', PInt64 7), (str ''opcode'', PStr (str ''nat_t_connect_request'')), (str ''ok'', PInt 1),
     (str ''result_ip'', PStr (str ''10.11.0.12'')), (str ''result_port'', PInt 500)]"

lemma demo_reply_fits: "list_all elem_fits demo_reply"
  by (simp add: demo_reply_def elem_fits_def enc_elem_def size_simps str_def is_c_str_def)

theorem nat_t_reply_meaning_witness:
  "\<exists>p. pack_add_all demo_heap demo_pack demo_reply = Some p \<and>
     nat_t_parse_response demo_natt_lib (pk_data p) (pk_len p) 7 3 natt_unknown =
       (1, 3, natt_unknown\<lparr>nr_result_ip := 10, nr_result_port := 500, nr_same_lan := 0, nr_error_code := NAT_T_ERR_OK\<rparr>)"
proof -
  have "pack_add_all demo_heap demo_pack demo_reply \<noteq> None" by code_simp
  then obtain p where p: "pack_add_all demo_heap demo_pack demo_reply = Some p" by blast
  have "pack_rep p demo_reply" using pack_add_all_rep [OF pack_new_rep [OF demo_pack_new] demo_reply_fits p] by simp
  moreover have "reply_ours 7 demo_reply" "reply_cookie 3 demo_reply = 3" "field_set ''ok'' demo_reply"
    "reply_address demo_natt_lib demo_reply = Some (10, 500)" "int_field ''same_lan'' demo_reply = None"
    by code_simp+
  ultimately show ?thesis
    using p nat_t_reply_meaning [of p demo_reply demo_natt_lib 7 3 natt_unknown] demo_reply_fits by (simp add: demo_reply_def)
qed

section \<open>Requests\<close>

lemma pack_add_ignoring_rep:
  "pack_rep p es \<Longrightarrow> list_all elem_fits fs \<Longrightarrow> \<exists>p' es'. pack_add_ignoring h p fs = Some p' \<and> pack_rep p' es'"
proof (induction fs arbitrary: p es)
  case (Cons f fs)
  obtain rc p1 es1 where "pack_add_value h p f = Some (rc, p1)" "pack_rep p1 es1"
    using pack_add_value_spec [OF Cons.prems(1), of f h] Cons.prems by auto
  then show ?case using Cons.IH [of p1 es1] Cons.prems(2) by simp
qed auto

lemma natt_send_ok:
  assumes "list_all elem_fits es"
  shows "\<exists>ds. nat_t_send h ip es io = Some (io\<lparr>no_out := no_out io @ ds\<rparr>) \<and> length ds \<le> 1 \<and> snd ` set ds \<subseteq> {Sa_in ip NAT_T_PORT}"
proof (cases "pack_new h")
  case None
  then show ?thesis by (intro exI [of _ "[]"]) (simp add: nat_t_send_def)
next
  case (Some p)
  obtain p' es' where p': "pack_add_ignoring h p es = Some p'" "pack_rep p' es'"
    using pack_add_ignoring_rep [OF pack_new_rep [OF Some] assms] by blast
  then have "unat (pk_len p') \<le> length (pk_data p')" by (simp add: pack_rep_def word_le_nat_alt)
  then show ?thesis using Some p'(1)
    by (intro exI [of _ "[(take (unat (pk_len p')) (pk_data p'), Sa_in ip NAT_T_PORT)]"]) (simp add: nat_t_send_def pack_length_def mem_read_def)
qed

text \<open>What the code relies on: \<open>inet_ntop\<close> stays inside its 16 bytes, strings are shorter than 2 GB.\<close>

definition natt_lib_ok :: "natt_lib \<Rightarrow> bool" where
  "natt_lib_ok L \<longleftrightarrow> (\<forall>ip s. nl_ntop L ip = Some s \<longrightarrow> length s < 16)"

definition short :: "byte list \<Rightarrow> bool" where
  "short s \<longleftrightarrow> length s < 2 ^ 31"

lemma natt_request_fits:
  assumes "natt_lib_ok L" "short hint" "short target" "short svc"
  shows "list_all elem_fits (natt_request L t ip c hint target svc)"
proof -
  have "length (nat_t_ip_to_str L ip) < 16" using assms(1) by (auto simp: nat_t_ip_to_str_def natt_lib_ok_def split: option.splits)
  then show ?thesis using assms(2-4)
    by (simp add: natt_request_def short_def elem_fits_def enc_elem_def size_simps str_def is_c_str_def)
qed

section \<open>The loop\<close>

definition backoff_sum :: "nat \<Rightarrow> nat" where
  "backoff_sum m = (\<Sum>j<m. 200 * 2 ^ min j 6)"

lemma backoff_mono: "m \<le> n \<Longrightarrow> backoff_sum m \<le> backoff_sum n"
  unfolding backoff_sum_def by (rule sum_mono2) auto

definition few :: "nat \<Rightarrow> nat \<Rightarrow> bool" where
  "few T m \<longleftrightarrow> m = 0 \<or> backoff_sum (m - 1) < T"

lemma few_mono: "few T n \<Longrightarrow> m \<le> n \<Longrightarrow> few T m"
  using backoff_mono [of "m - 1" "n - 1"] by (auto simp: few_def diff_le_mono)

lemma unat_interval: "unat (nat_t_interval m) = 200 * 2 ^ min m 6"
proof -
  have "\<forall>m \<in> set [0..<7]. unat (nat_t_interval m) = 200 * 2 ^ min m 6" by code_simp
  moreover have "nat_t_interval m = nat_t_interval 6" if "7 \<le> m" using that by (simp add: nat_t_interval_def NAT_T_MAX_BACKOFF_EXP_def)
  ultimately show ?thesis by (cases "m < 7") (auto simp: min_def)
qed

definition next_due :: "nat \<Rightarrow> nat \<Rightarrow> nat \<Rightarrow> u64 \<Rightarrow> bool" where
  "next_due t0 T m next_send \<longleftrightarrow> m = 0 \<and> next_send = 0 \<or> 0 < m \<and> t0 + backoff_sum m \<le> unat next_send \<and> few T m"

text \<open>A request goes out only when the intervals so far are over.\<close>

lemma next_due_step:
  assumes "next_due t0 T m next_send" "next_send = 0 \<or> next_send \<le> now" "t0 \<le> unat now" "unat now < t0 + T" "t0 + T + 12800 < 2 ^ 64"
  shows "next_due t0 T (m + 1) (now + nat_t_interval m)"
proof -
  have S: "t0 + backoff_sum m \<le> unat now"
  proof (cases "m = 0")
    case True
    then show ?thesis using assms(3) by (simp add: backoff_sum_def)
  next
    case False
    then have "0 < backoff_sum m" using backoff_mono [of 1 m] by (simp add: backoff_sum_def)
    then have "next_send \<noteq> 0" using False assms(1) by (auto simp: next_due_def)
    then show ?thesis using False assms(1,2) by (auto simp: next_due_def word_le_nat_alt)
  qed
  have "(2 :: nat) ^ min m 6 \<le> 2 ^ 6" by (rule power_increasing) auto
  then have "unat (now + nat_t_interval m) = unat now + 200 * 2 ^ min m 6"
    using assms(4,5) by (subst unat_add_lem [THEN iffD1]) (simp_all add: unat_interval)
  moreover have "backoff_sum (m + 1) = backoff_sum m + 200 * 2 ^ min m 6" by (simp add: backoff_sum_def)
  ultimately show ?thesis using S assms(4) by (simp add: next_due_def few_def)
qed

definition natt_done :: "int \<Rightarrow> natt_io \<Rightarrow> int \<Rightarrow> natt_result \<Rightarrow> natt_io \<Rightarrow> bool" where
  "natt_done fd io rc r io' \<longleftrightarrow>
     rc = 0 \<and> nr_error_code r = NAT_T_ERR_OK \<and> nr_result_ip r \<noteq> 0 \<and> nr_result_port r \<noteq> 0 \<and>
       (if nr_same_lan r \<noteq> 0 then nr_udp_fd r = -1 \<and> no_closed io' = no_closed io @ [fd]
        else nr_udp_fd r = fd \<and> no_closed io' = no_closed io) \<or>
     rc = -1 \<and> nr_error_code r \<noteq> NAT_T_ERR_OK \<and> nr_udp_fd r = -1 \<and> no_closed io' = no_closed io @ [fd]"

lemma natt_loop_ok:
  assumes L: "natt_lib_ok L" "short (nc_hint k)" "short (nc_target k)" "short (nc_svc k)"
    and giveup: "unat (nc_giveup k) = t0 + T" "t0 + T + 12800 < 2 ^ 64"
  shows "nc_giveup k \<le> no_tick io (no_ticks io + n) \<Longrightarrow> \<forall>i. no_ticks io \<le> i \<longrightarrow> t0 \<le> unat (no_tick io i) \<Longrightarrow> nr_udp_fd r = -1 \<Longrightarrow>
     next_due t0 T m next_send \<Longrightarrow>
     \<exists>rc r' io' ds. nat_t_loop L k next_send cookie m r io = Some (rc, r', io') \<and> natt_done (nc_fd k) io rc r' io' \<and>
       no_out io' = no_out io @ ds \<and> snd ` set ds \<subseteq> {Sa_in (nc_relay_ip k) NAT_T_PORT} \<and> few T (m + length ds)"
proof (induction n arbitrary: io r m next_send cookie)
  case 0
  have "few T m" using 0(4) by (auto simp: next_due_def few_def)
  then show ?case using 0
    by (subst nat_t_loop.simps) (simp add: nat_t_tick_ms_def natt_close_def natt_done_def)
next
  case (Suc n)
  let ?now = "no_tick io (no_ticks io)" let ?io = "io\<lparr>no_ticks := no_ticks io + 1\<rparr>"
  have tick: "nat_t_tick_ms io = (?now, ?io)" by (simp add: nat_t_tick_ms_def)
  have fm: "few T m" using Suc.prems(4) by (auto simp: next_due_def few_def)
  let ?stop = "nc_giveup k \<le> ?now \<or> (case nl_cancel L of None \<Rightarrow> False | Some f \<Rightarrow> f (no_ticks ?io))"
  obtain st c1 r1 io1 where d: "nat_t_drain L (nc_relay_ip k) (nc_tran_id k) cookie r ?io = (st, c1, r1, io1)" by (metis prod_cases4)
  note o = drain_outcome [OF d]
  define io' where "io' = io1"
  have io1: "io1 = ?io\<lparr>no_in := no_in io1\<rparr>" using o by blast
  then have same: "no_tick io1 = no_tick io" "no_ticks io1 = no_ticks io + 1" "no_closed io1 = no_closed io" "no_out io1 = no_out io"
    by (metis (no_types, lifting) natt_io.select_convs natt_io.surjective natt_io.update_convs)+
  consider "?stop" | "\<not> ?stop" "st = 1" | "\<not> ?stop" "st = -1" | "\<not> ?stop" "st = 0" using o by (auto simp: reply_outcome_def)
  then show ?case
  proof cases
    case 1
    then show ?thesis using Suc.prems(3) fm
      by (subst nat_t_loop.simps, unfold tick Let_def prod.case) (simp add: natt_close_def natt_done_def)
  next
    case 2
    then have "nr_error_code r1 = NAT_T_ERR_OK" "nr_result_ip r1 \<noteq> 0" "nr_result_port r1 \<noteq> 0" using o by (auto simp: reply_outcome_def)
    with 2 show ?thesis using fm same
      by (subst nat_t_loop.simps, unfold tick d Let_def prod.case) (simp add: natt_close_def natt_done_def)
  next
    case 3
    then have "nr_error_code r1 \<noteq> NAT_T_ERR_OK" "nr_udp_fd r1 = -1" using o Suc.prems(3) by (auto simp: reply_outcome_def)
    with 3 show ?thesis using fm same
      by (subst nat_t_loop.simps, unfold tick d Let_def prod.case) (simp add: natt_close_def natt_done_def)
  next
    case 4
    then have r1: "nr_udp_fd r1 = -1" using o Suc.prems(3) by (auto simp: reply_outcome_def)
    show ?thesis
    proof (cases "next_send = 0 \<or> next_send \<le> ?now")
      case True
      let ?next = "?now + nat_t_interval m"
      obtain ds where s: "nat_t_send (nl_heap L m) (nc_relay_ip k)
          (natt_request L (nc_tran_id k) (nc_server_ip k) c1 (nc_hint k) (nc_target k) (nc_svc k)) io1 = Some (io1\<lparr>no_out := no_out io1 @ ds\<rparr>)"
        "length ds \<le> 1" "snd ` set ds \<subseteq> {Sa_in (nc_relay_ip k) NAT_T_PORT}"
        using natt_send_ok [OF natt_request_fits [OF L]] by blast
      let ?io2 = "io1\<lparr>no_out := no_out io1 @ ds, no_waits := no_waits io1 @ [nat_t_wait ?now ?next]\<rparr>"
      have "next_due t0 T (m + 1) ?next"
        using next_due_step [OF Suc.prems(4) True _ _ giveup(2)] Suc.prems(2) 4(1) giveup(1) by (auto simp: word_le_nat_alt)
      then obtain rc r' io' ds' where i: "nat_t_loop L k ?next c1 (m + 1) r1 ?io2 = Some (rc, r', io')" "natt_done (nc_fd k) ?io2 rc r' io'"
        "no_out io' = no_out ?io2 @ ds'" "snd ` set ds' \<subseteq> {Sa_in (nc_relay_ip k) NAT_T_PORT}" "few T (m + 1 + length ds')"
        using Suc.IH [of ?io2 r1 "m + 1" ?next c1] Suc.prems(1,2) same r1 by auto
      have "few T (m + length (ds @ ds'))" using few_mono [OF i(5)] s(2) by simp
      moreover have "nat_t_loop L k next_send cookie m r io = Some (rc, r', io')"
        using 4 True s(1) i(1) by (subst nat_t_loop.simps, unfold tick d Let_def prod.case) simp
      ultimately show ?thesis using i(2,3,4) s(3) same
        by (intro exI [of _ rc] exI [of _ r'] exI [of _ io'] exI [of _ "ds @ ds'"]) (simp add: natt_done_def image_Un cong: if_cong)
    next
      case False
      let ?io2 = "io1\<lparr>no_waits := no_waits io1 @ [nat_t_wait ?now next_send]\<rparr>"
      obtain rc r' io' ds' where i: "nat_t_loop L k next_send c1 m r1 ?io2 = Some (rc, r', io')" "natt_done (nc_fd k) ?io2 rc r' io'"
        "no_out io' = no_out ?io2 @ ds'" "snd ` set ds' \<subseteq> {Sa_in (nc_relay_ip k) NAT_T_PORT}" "few T (m + length ds')"
        using Suc.IH [of ?io2 r1 m next_send c1] Suc.prems same r1 by auto
      have "nat_t_loop L k next_send cookie m r io = Some (rc, r', io')"
        using 4 False i(1) by (subst nat_t_loop.simps, unfold tick d Let_def prod.case) simp
      then show ?thesis using i(2-5) same
        by (intro exI [of _ rc] exI [of _ r'] exI [of _ io'] exI [of _ ds']) (simp add: natt_done_def cong: if_cong)
    qed
  qed
qed

section \<open>The rendezvous\<close>

definition natt_timeout :: "u32 \<Rightarrow> nat" where
  "natt_timeout timeout_ms = (if timeout_ms = 0 then 12000 else unat timeout_ms)"

text \<open>A clock that never shows less than at the call, does not wrap around, and gets past the timeout.\<close>

definition clock_ok :: "u32 \<Rightarrow> natt_io \<Rightarrow> bool" where
  "clock_ok timeout_ms io \<longleftrightarrow>
     (let t0 = unat (no_tick io (no_ticks io)) in
      (\<forall>i \<ge> no_ticks io. t0 \<le> unat (no_tick io i)) \<and> t0 + natt_timeout timeout_ms + 12800 < 2 ^ 64 \<and>
      (\<exists>n. t0 + natt_timeout timeout_ms \<le> unat (no_tick io (no_ticks io + 1 + n))))"

definition natt_args_ok :: "natt_lib \<Rightarrow> byte list option \<Rightarrow> byte list option \<Rightarrow> byte list option \<Rightarrow> u32 \<Rightarrow> natt_io \<Rightarrow> bool" where
  "natt_args_ok L svc hint target timeout_ms io \<longleftrightarrow>
     natt_lib_ok L \<and> short (opt_str svc) \<and> short (opt_str hint) \<and> short (opt_str target) \<and> clock_ok timeout_ms io"

lemma natt_connect_ok:
  assumes ok: "natt_args_ok L svc hint target timeout_ms io"
  shows "\<exists>rc r io' ds. nat_t_connect_internal L server_ip svc hint target timeout_ms alt io = Some (rc, r, io') \<and>
     no_out io' = no_out io @ ds \<and> few (natt_timeout timeout_ms) (length ds) \<and>
     (case nat_t_find_relay L server_ip alt of
        Inl e \<Rightarrow> rc = -1 \<and> r = natt_unknown\<lparr>nr_error_code := e\<rparr> \<and> io' = io
      | Inr relay_ip \<Rightarrow> snd ` set ds \<subseteq> {Sa_in relay_ip NAT_T_PORT} \<and>
          (case no_socket io of
             No_socket \<Rightarrow> rc = -1 \<and> r = natt_unknown \<and> no_closed io' = no_closed io
           | Unbound fd \<Rightarrow> rc = -1 \<and> r = natt_unknown \<and> no_closed io' = no_closed io @ [fd]
           | Bound fd \<Rightarrow> natt_done fd io rc r io'))"
proof (cases "nat_t_find_relay L server_ip alt")
  case (Inl e)
  then show ?thesis by (simp add: nat_t_connect_internal_def few_def Let_def)
next
  case (Inr relay_ip)
  show ?thesis
  proof (cases "no_socket io")
    case No_socket
    then show ?thesis using Inr by (simp add: nat_t_connect_internal_def nat_t_create_udp_socket_def few_def Let_def)
  next
    case (Unbound fd)
    then show ?thesis using Inr by (simp add: nat_t_connect_internal_def nat_t_create_udp_socket_def few_def Let_def natt_close_def)
  next
    case (Bound fd)
    define svc' where "svc' = (if opt_str svc = [] then NAT_T_SVC_NAME else opt_str svc)"
    define t0 where "t0 = no_tick io (no_ticks io)"
    define T where "T = (if timeout_ms = 0 then NAT_T_DEFAULT_TIMEOUT_MS else timeout_ms)"
    define k where "k = \<lparr>nc_fd = fd, nc_relay_ip = relay_ip, nc_server_ip = server_ip, nc_hint = opt_str hint,
       nc_target = opt_str target, nc_svc = svc', nc_tran_id = natt_tran_id (nl_rand L), nc_giveup = t0 + ucast T\<rparr>"
    let ?io = "io\<lparr>no_ticks := no_ticks io + 1\<rparr>"
    have T: "unat (ucast T :: u64) = natt_timeout timeout_ms"
      using unat_lt32 [of timeout_ms] by (simp add: T_def natt_timeout_def NAT_T_DEFAULT_TIMEOUT_MS_def unsigned_ucast_eq take_bit_eq_mod)
    have c: "clock_ok timeout_ms io" using ok by (simp add: natt_args_ok_def)
    then have g: "unat (nc_giveup k) = unat t0 + natt_timeout timeout_ms" "unat t0 + natt_timeout timeout_ms + 12800 < 2 ^ 64"
      using T by (simp_all add: k_def clock_ok_def Let_def t0_def [symmetric] unat_word_ariths)
    obtain n where "unat t0 + natt_timeout timeout_ms \<le> unat (no_tick io (no_ticks io + 1 + n))"
      using c unfolding clock_ok_def t0_def Let_def by blast
    then have n: "nc_giveup k \<le> no_tick ?io (no_ticks ?io + n)" using g(1) by (simp add: word_le_nat_alt)
    have later: "\<forall>i. no_ticks ?io \<le> i \<longrightarrow> unat t0 \<le> unat (no_tick ?io i)" using c by (simp add: clock_ok_def t0_def Let_def)
    have L: "natt_lib_ok L" "short (nc_hint k)" "short (nc_target k)" "short (nc_svc k)"
      using ok by (auto simp: natt_args_ok_def k_def svc'_def short_def NAT_T_SVC_NAME_def str_def)
    obtain rc r io' ds where l: "nat_t_loop L k 0 0 0 natt_unknown ?io = Some (rc, r, io')" "natt_done (nc_fd k) ?io rc r io'"
      "no_out io' = no_out ?io @ ds" "snd ` set ds \<subseteq> {Sa_in (nc_relay_ip k) NAT_T_PORT}" "few (natt_timeout timeout_ms) (0 + length ds)"
      using natt_loop_ok [OF L g n later, of natt_unknown 0 0 0] by (auto simp: natt_unknown_def next_due_def)
    have "nat_t_connect_internal L server_ip svc hint target timeout_ms alt io = nat_t_loop L k 0 0 0 natt_unknown ?io"
      using Inr Bound
      by (simp add: nat_t_connect_internal_def nat_t_create_udp_socket_def Let_def nat_t_tick_ms_def k_def svc'_def t0_def T_def)
    then show ?thesis using l Inr Bound by (simp add: k_def natt_done_def cong: if_cong)
  qed
qed



text \<open>An open socket, and a clock that moves on by 1 ms at each look until 13 s.\<close>

definition demo_natt_io :: "probe list \<Rightarrow> natt_io" where
  "demo_natt_io ps = \<lparr>no_tick = (\<lambda>i. word_of_nat (min i 13000)), no_ticks = 0, no_socket = Bound 9, no_in = ps, no_out = [], no_waits = [],
     no_closed = []\<rparr>"

lemma demo_natt_args: "natt_args_ok demo_natt_lib None None (Some (str ''host'')) 0 (demo_natt_io ps)"
proof -
  have "unat (word_of_nat (min i 13000) :: u64) = min i 13000" for i by (simp add: unat_of_nat take_bit_nat_eq_self)
  then show ?thesis
    by (auto simp: natt_args_ok_def natt_lib_ok_def demo_natt_lib_def opt_str_def short_def str_def clock_ok_def natt_timeout_def
        demo_natt_io_def Let_def intro: exI [of _ 13000])
qed



end
