(* ===== verification/Tls.thy ===== *)
theory Tls
  imports Net_World
begin

text \<open>
  The TLS layer of the client (\<open>ssl_*\<close> of \<open>aes_wrapper.c\<close>): contexts, handshake, reading, writing and
  teardown around OpenSSL, whose answers come from the environment. The code's two global locks are
  events of the trace, so the locking discipline is a property of the model. A pointer to a context
  is its number; using a freed one is undefined behaviour (\<open>None\<close>).
\<close>

section \<open>Locks\<close>

fun lock_level :: "lock \<Rightarrow> nat" where
  "lock_level L_connect = 0"
| "lock_level L_lifetime = 0"
| "lock_level L_write = 1"
| "lock_level (L_io i) = 2"
| "lock_level L_tls_rd = 3"
| "lock_level L_tls_wr = 3"
| "lock_level L_openssl = 4"

text \<open>
  The order of acquisition: by level; the connect mutex comes before everything, and of two link mutexes the
  one with the smaller index (the primary link has index -1).
\<close>

fun lock_before :: "lock \<Rightarrow> lock \<Rightarrow> bool" where
  "lock_before (L_io i) (L_io j) = (i < j)"
| "lock_before L_connect l = (l \<noteq> L_connect)"
| "lock_before h l = (lock_level h < lock_level l)"

lemma lock_before_level: "lock_level h < lock_level l \<Longrightarrow> lock_before h l"
  by (induction h l rule: lock_before.induct) auto

lemma all_before: "list_all (\<lambda>h. lock_level h < lock_level l) H \<Longrightarrow> list_all (\<lambda>h. lock_before h l) H"
  by (auto simp: list_all_iff intro: lock_before_level)

definition tls_guarded :: "lock list \<Rightarrow> bool" where
  "tls_guarded H \<longleftrightarrow> L_tls_rd \<in> set H \<or> L_tls_wr \<in> set H"

text \<open>
  A run of the trace from the locks \<open>H\<close> (last taken first): each lock is taken above everything held,
  released last-in first-out, and an \<open>SSL\<close> object is used only under \<open>g_tls_use_lock\<close>.
\<close>

fun run_locks :: "lock list \<Rightarrow> lock_event list \<Rightarrow> lock list option" where
  "run_locks H [] = Some H"
| "run_locks H (Lock l # es) =
     (if list_all (\<lambda>h. lock_before h l) H then run_locks (l # H) es else None)"
| "run_locks H (Unlock l # es) =
     (case H of [] \<Rightarrow> None | h # H' \<Rightarrow> if h = l then run_locks H' es else None)"
| "run_locks H (Touch i # es) = (if tls_guarded H then run_locks H es else None)"

definition disciplined :: "nat \<Rightarrow> lock_event list \<Rightarrow> bool" where
  "disciplined n tr \<longleftrightarrow> (\<forall>H. list_all (\<lambda>h. lock_level h < n) H \<longrightarrow> run_locks H tr = Some H)"

section \<open>Contexts\<close>

definition tls_set :: "nat \<Rightarrow> ssl_context \<Rightarrow> net \<Rightarrow> net" where
  "tls_set i c nt = nt\<lparr>nt_tls := (nt_tls nt)(i := c)\<rparr>"

definition tls_zero :: ssl_context where
  "tls_zero = \<lparr>sc_ctx = False, sc_ssl = None, sc_connected = False, sc_hs = [], sc_freed = False\<rparr>"

text \<open>
  \<open>i\<close> is the address \<open>calloc\<close> returned (\<open>None\<close>: out of memory), \<open>ctx_ok\<close> whether \<open>SSL_CTX_new\<close> succeeds and
  \<open>hs\<close> what the handshake will answer.
\<close>

definition ssl_create_client :: "nat option \<Rightarrow> bool \<Rightarrow> hs_answer list \<Rightarrow> net \<Rightarrow> nat option \<times> net" where
  "ssl_create_client mem ctx_ok hs nt =
     (case mem of
        None \<Rightarrow> (None, nt)
      | Some i \<Rightarrow>
          if \<not> ctx_ok then (None, tls_set i (tls_zero\<lparr>sc_freed := True\<rparr>) nt)
          else (Some i, tls_set i (tls_zero\<lparr>sc_ctx := True, sc_hs := hs\<rparr>) nt))"

definition ssl_destroy :: "nat option \<Rightarrow> net \<Rightarrow> net option" where
  "ssl_destroy ctx nt =
     (case ctx of
        None \<Rightarrow> Some nt
      | Some i \<Rightarrow>
          if sc_freed (nt_tls nt i) then None
          else let nt = net_ev (Lock L_openssl) (net_ev (Lock L_tls_wr) nt);
                   nt = (if sc_ssl (nt_tls nt i) \<noteq> None then net_ev (Touch i) nt else nt);
                   nt = net_ev (Unlock L_tls_wr) (net_ev (Unlock L_openssl) nt)
               in Some (tls_set i ((nt_tls nt i)\<lparr>sc_ssl := None, sc_ctx := False, sc_freed := True\<rparr>) nt))"

definition ssl_shutdown :: "nat option \<Rightarrow> net \<Rightarrow> net option" where
  "ssl_shutdown ctx nt =
     (case ctx of
        None \<Rightarrow> Some nt
      | Some i \<Rightarrow>
          if sc_freed (nt_tls nt i) then None
          else if sc_ssl (nt_tls nt i) = None then Some nt
          else let nt = net_ev (Touch i) (net_ev (Lock L_openssl) (net_ev (Lock L_tls_wr) nt));
                   nt = net_ev (Unlock L_openssl) nt;
                   nt = tls_set i ((nt_tls nt i)\<lparr>sc_connected := False\<rparr>) nt
               in Some (net_ev (Unlock L_tls_wr) nt))"

definition ssl_has_pending :: "nat option \<Rightarrow> net \<Rightarrow> (bool \<times> net) option" where
  "ssl_has_pending ctx nt =
     (case ctx of
        None \<Rightarrow> Some (False, nt)
      | Some i \<Rightarrow>
          if sc_freed (nt_tls nt i) then None
          else let nt = net_ev (Lock L_tls_rd) nt;
                   (p, nt) = (case sc_ssl (nt_tls nt i) of
                                None \<Rightarrow> (False, nt) | Some s \<Rightarrow> (st_left s \<noteq> [], net_ev (Touch i) nt))
               in Some (p, net_ev (Unlock L_tls_rd) nt))"

section \<open>Handshake\<close>

text \<open>
  The handshake loop: at most \<open>max_attempts\<close> calls of \<open>SSL_do_handshake\<close>, each under \<open>g_openssl_lock\<close>.
  Result: 1 success, 0 the attempts are used up, -1 failed.
\<close>

fun handshake_loop :: "nat \<Rightarrow> nat \<Rightarrow> net \<Rightarrow> int \<times> net" where
  "handshake_loop i 0 nt = (0, nt)"
| "handshake_loop i (Suc n) nt =
     (let c = nt_tls nt i;
          nt = net_ev (Unlock L_openssl) (net_ev (Touch i) (net_ev (Lock L_openssl) nt));
          (a, hs) = (case sc_hs c of [] \<Rightarrow> (Hs_fail, []) | a # hs \<Rightarrow> (a, hs));
          nt = tls_set i (c\<lparr>sc_hs := hs\<rparr>) nt
      in case a of
           Hs_ok \<Rightarrow> (1, nt)
         | Hs_want \<Rightarrow> handshake_loop i n (net_ev (Touch i) nt)
         | Hs_fail \<Rightarrow> (-1, net_ev (Touch i) nt))"

text \<open>\<open>s\<close> is the \<open>SSL\<close> object \<open>SSL_new\<close> returns; \<open>fd_ok\<close> whether \<open>SSL_set_fd\<close> succeeds.\<close>

definition ssl_connect :: "nat option \<Rightarrow> stream option \<Rightarrow> bool \<Rightarrow> net \<Rightarrow> (int \<times> net) option" where
  "ssl_connect ctx s fd_ok nt =
     (case ctx of
        None \<Rightarrow> Some (-1, nt)
      | Some i \<Rightarrow>
          if sc_freed (nt_tls nt i) then None
          else if \<not> sc_ctx (nt_tls nt i) then Some (-1, nt)
          else let nt = net_ev (Lock L_tls_wr) nt;
                   nt = tls_set i ((nt_tls nt i)\<lparr>sc_ssl := s\<rparr>) nt in
          case s of
            None \<Rightarrow> Some (-1, net_ev (Unlock L_tls_wr) nt)
          | Some _ \<Rightarrow>
              if \<not> fd_ok
              then let nt = net_ev (Unlock L_openssl) (net_ev (Touch i) (net_ev (Lock L_openssl) nt));
                       nt = tls_set i ((nt_tls nt i)\<lparr>sc_ssl := None\<rparr>) nt
                   in Some (-1, net_ev (Unlock L_tls_wr) nt)
              else let nt = net_ev (Unlock L_tls_wr) (net_ev (Touch i) nt);
                       nt = net_ev (Lock L_tls_rd) nt;
                       (r, nt) = handshake_loop i 100 nt
                   in if r \<noteq> 1
                      then let nt = net_ev (Unlock L_tls_rd) nt;
                               nt = net_ev (Unlock L_openssl) (net_ev (Touch i) (net_ev (Lock L_openssl) nt));
                               nt = tls_set i ((nt_tls nt i)\<lparr>sc_ssl := None\<rparr>) nt
                           in Some (-1, nt)
                      else let nt = tls_set i ((nt_tls nt i)\<lparr>sc_connected := True\<rparr>) nt
                           in Some (0, net_ev (Unlock L_tls_rd) (net_ev (Touch i) nt)))"

section \<open>Reading and writing\<close>

text \<open>One \<open>SSL_read\<close> under \<open>g_openssl_lock\<close>.\<close>

definition ssl_read_call :: "nat \<Rightarrow> nat \<Rightarrow> net \<Rightarrow> rx_answer \<times> net" where
  "ssl_read_call i len nt =
     (let nt = net_ev (Unlock L_openssl) (net_ev (Touch i) (net_ev (Lock L_openssl) nt)) in
      case sc_ssl (nt_tls nt i) of
        None \<Rightarrow> (Rx_eof, nt)
      | Some s \<Rightarrow>
          let (a, s) = stream_read len s
          in (a, tls_set i ((nt_tls nt i)\<lparr>sc_ssl := Some s\<rparr>) nt))"

text \<open>Errors after which \<open>ssl_read\<close> tries again (an expired receive timeout is not one of them).\<close>

definition ssl_retryable :: "ssl_err \<Rightarrow> errno \<Rightarrow> bool" where
  "ssl_retryable e n \<longleftrightarrow>
     (if e = SSL_WANT_READ \<or> e = SSL_WANT_WRITE then n \<noteq> EAGAIN else e = SSL_SYSCALL \<and> n = EINTR)"

fun ssl_read_loop :: "nat \<Rightarrow> nat \<Rightarrow> nat \<Rightarrow> net \<Rightarrow> int \<times> byte list \<times> net" where
  "ssl_read_loop 0 i len nt = (-1, [], nt)"
| "ssl_read_loop (Suc r) i len nt =
     (let (a, nt) = ssl_read_call i len nt in
      case a of
        Rx bs \<Rightarrow> (int (length bs), bs, nt)
      | Rx_eof \<Rightarrow> (0, [], nt)
      | Rx_err e n \<Rightarrow>
          let nt = net_ev (Touch i) nt in
          if ssl_retryable e n then ssl_read_loop r i len nt else (-1, [], nt))"

definition ssl_read :: "nat option \<Rightarrow> nat \<Rightarrow> net \<Rightarrow> (int \<times> byte list \<times> net) option" where
  "ssl_read ctx len nt =
     (case ctx of
        None \<Rightarrow> Some (-1, [], nt)
      | Some i \<Rightarrow>
          if sc_freed (nt_tls nt i) then None
          else if sc_ssl (nt_tls nt i) = None \<or> \<not> sc_connected (nt_tls nt i) then Some (-1, [], nt)
          else let nt = net_ev (Touch i) (net_ev (Lock L_tls_rd) nt);
                   (ret, bs, nt) = ssl_read_loop 5 i len nt;
                   nt = (if ret = 0 then net_ev (Touch i) nt else nt)
               in Some (ret, bs, net_ev (Unlock L_tls_rd) nt))"

definition ssl_write :: "nat option \<Rightarrow> byte list \<Rightarrow> net \<Rightarrow> (int \<times> net) option" where
  "ssl_write ctx bs nt =
     (case ctx of
        None \<Rightarrow> Some (-1, nt)
      | Some i \<Rightarrow>
          if sc_freed (nt_tls nt i) then None
          else (case sc_ssl (nt_tls nt i) of
            None \<Rightarrow> Some (-1, nt)
          | Some s \<Rightarrow>
              if \<not> sc_connected (nt_tls nt i) then Some (-1, nt)
              else let nt = net_ev (Touch i) (net_ev (Lock L_openssl) (net_ev (Lock L_tls_wr) nt));
                       (a, s) = stream_write bs s;
                       nt = net_ev (Unlock L_openssl) (tls_set i ((nt_tls nt i)\<lparr>sc_ssl := Some s\<rparr>) nt)
                   in (case a of
                         Tx n \<Rightarrow> Some (int n, net_ev (Unlock L_tls_wr) nt)
                       | Tx_err e \<Rightarrow> Some (-1, net_ev (Unlock L_tls_wr) (net_ev (Touch i) nt)))))"

section \<open>The locking discipline composes\<close>

lemma run_locks_append: "run_locks H (a @ b) = (case run_locks H a of None \<Rightarrow> None | Some H' \<Rightarrow> run_locks H' b)"
  by (induction H a rule: run_locks.induct) (simp_all split: list.split)

lemma disciplined_Nil [simp]: "disciplined n []"
  by (simp add: disciplined_def)

lemma disciplined_run: "disciplined n tr \<Longrightarrow> run_locks [] tr = Some []"
  by (simp add: disciplined_def)

lemma disciplined_append [safe_intros]: "disciplined n a \<Longrightarrow> disciplined n b \<Longrightarrow> disciplined n (a @ b)"
  by (simp add: disciplined_def run_locks_append)

lemma list_all_level_mono: "list_all (\<lambda>h. lock_level h < n) H \<Longrightarrow> n \<le> m \<Longrightarrow> list_all (\<lambda>h. lock_level h < m) H"
  by (auto simp: list_all_iff)

lemma disciplined_mono: "disciplined m a \<Longrightarrow> n \<le> m \<Longrightarrow> disciplined n a"
  unfolding disciplined_def by (blast intro: list_all_level_mono)

lemma disciplined_bracket:
  assumes "disciplined (Suc (lock_level l)) tr" "n \<le> lock_level l"
  shows "disciplined n (Lock l # tr @ [Unlock l])"
  unfolding disciplined_def
proof (intro allI impI)
  fix H assume H: "list_all (\<lambda>h. lock_level h < n) H"
  then have l: "list_all (\<lambda>h. lock_level h < lock_level l) H" using assms(2) by (rule list_all_level_mono)
  then have "list_all (\<lambda>h. lock_level h < Suc (lock_level l)) (l # H)"
    using list_all_level_mono [OF l, of "Suc (lock_level l)"] by simp
  then have "run_locks (l # H) tr = Some (l # H)" using assms(1) unfolding disciplined_def by blast
  then show "run_locks H (Lock l # tr @ [Unlock l]) = Some H" using all_before [OF l] by (simp add: run_locks_append)
qed

text \<open>The part between taking and releasing \<open>g_tls_use_lock\<close>.\<close>

definition in_tls :: "lock_event list \<Rightarrow> bool" where
  "in_tls tr \<longleftrightarrow> (\<forall>H. list_all (\<lambda>h. lock_level h < 4) H \<longrightarrow> tls_guarded H \<longrightarrow> run_locks H tr = Some H)"

lemma in_tls_append [safe_intros]: "in_tls a \<Longrightarrow> in_tls b \<Longrightarrow> in_tls (a @ b)"
  by (simp add: in_tls_def run_locks_append)

lemma in_tls_basic [simp]:
  "in_tls []" "in_tls [Touch i]" "in_tls [Lock L_openssl, Touch i, Unlock L_openssl]" "in_tls [Lock L_openssl, Unlock L_openssl]"
  using all_before [of L_openssl] by (simp_all add: in_tls_def tls_guarded_def)

lemma disciplined_tls:
  assumes "in_tls tr" "l = L_tls_rd \<or> l = L_tls_wr"
  shows "disciplined 3 (Lock l # tr @ [Unlock l])"
  unfolding disciplined_def
proof (intro allI impI)
  fix H assume H: "list_all (\<lambda>h. lock_level h < 3) H"
  then have "list_all (\<lambda>h. lock_level h < 4) (l # H)"
    using list_all_level_mono [OF H, of 4] assms(2) by auto
  moreover have "tls_guarded (l # H)" using assms(2) by (auto simp: tls_guarded_def)
  ultimately have "run_locks (l # H) tr = Some (l # H)" using assms(1) unfolding in_tls_def by blast
  moreover have "list_all (\<lambda>h. lock_before h l) H" using H assms(2) all_before [of l H] by auto
  ultimately show "run_locks H (Lock l # tr @ [Unlock l]) = Some H" by (simp add: run_locks_append)
qed

text \<open>From one state to a later one: what was recorded in between.\<close>

definition lock_seg :: "nat \<Rightarrow> net \<Rightarrow> net \<Rightarrow> bool" where
  "lock_seg n nt nt' \<longleftrightarrow> (\<exists>tr. nt_trace nt' = nt_trace nt @ tr \<and> disciplined n tr)"

definition tls_seg :: "net \<Rightarrow> net \<Rightarrow> bool" where
  "tls_seg nt nt' \<longleftrightarrow> (\<exists>tr. nt_trace nt' = nt_trace nt @ tr \<and> in_tls tr)"

lemma lock_seg_refl [simp]: "lock_seg n nt nt"
  by (simp add: lock_seg_def)

lemma lock_seg_trans [trans]: "lock_seg n a b \<Longrightarrow> lock_seg n b c \<Longrightarrow> lock_seg n a c"
  unfolding lock_seg_def by (metis append_assoc disciplined_append)

lemma lock_seg_mono: "lock_seg m a b \<Longrightarrow> n \<le> m \<Longrightarrow> lock_seg n a b"
  unfolding lock_seg_def by (blast intro: disciplined_mono)

lemma tls_seg_refl [simp]: "tls_seg nt nt"
  by (simp add: tls_seg_def)

lemma tls_seg_trans [trans]: "tls_seg a b \<Longrightarrow> tls_seg b c \<Longrightarrow> tls_seg a c"
  unfolding tls_seg_def by (metis append_assoc in_tls_append)

lemma net_ev_trace [simp]: "nt_trace (net_ev e nt) = nt_trace nt @ [e]" "nt_tls (net_ev e nt) = nt_tls nt"
  by (simp_all add: net_ev_def)

lemma tls_set_sel [simp]: "nt_trace (tls_set i c nt) = nt_trace nt" "nt_tls (tls_set i c nt) = (nt_tls nt)(i := c)"
  by (simp_all add: tls_set_def)

lemma lock_seg_bracket:
  assumes "lock_seg (Suc (lock_level l)) (net_ev (Lock l) nt) nt'" "n \<le> lock_level l"
  shows "lock_seg n nt (net_ev (Unlock l) nt')"
proof -
  obtain tr where "nt_trace nt' = nt_trace nt @ Lock l # tr" "disciplined (Suc (lock_level l)) tr"
    using assms(1) by (auto simp: lock_seg_def)
  then show ?thesis using disciplined_bracket [OF _ assms(2)] by (auto simp: lock_seg_def)
qed

lemma tls_seg_bracket:
  assumes "tls_seg (net_ev (Lock l) nt) nt'" "l = L_tls_rd \<or> l = L_tls_wr"
  shows "lock_seg 3 nt (net_ev (Unlock l) nt')"
proof -
  obtain tr where "nt_trace nt' = nt_trace nt @ Lock l # tr" "in_tls tr"
    using assms(1) by (auto simp: tls_seg_def)
  then show ?thesis using disciplined_tls [OF _ assms(2)] by (auto simp: lock_seg_def)
qed

lemma tls_segI: "nt_trace nt' = nt_trace nt @ tr \<Longrightarrow> in_tls tr \<Longrightarrow> tls_seg nt nt'"
  by (auto simp: tls_seg_def)

section \<open>What a TLS operation leaves alone\<close>

text \<open>Reading and writing change neither which contexts are alive nor whether they are connected.\<close>

definition same_life :: "net \<Rightarrow> net \<Rightarrow> bool" where
  "same_life nt nt' \<longleftrightarrow> (\<forall>i. sc_freed (nt_tls nt' i) = sc_freed (nt_tls nt i) \<and>
     sc_connected (nt_tls nt' i) = sc_connected (nt_tls nt i) \<and>
     (sc_ssl (nt_tls nt' i) = None) = (sc_ssl (nt_tls nt i) = None))"

lemma same_life_refl [simp]: "same_life nt nt"
  by (simp add: same_life_def)

lemma same_life_trans [trans]: "same_life a b \<Longrightarrow> same_life b c \<Longrightarrow> same_life a c"
  by (simp add: same_life_def)

lemma same_life_ev [simp]: "same_life nt (net_ev e nt') = same_life nt nt'" "same_life (net_ev e nt) nt' = same_life nt nt'"
  by (simp_all add: same_life_def)

lemma same_life_set: "sc_ssl (nt_tls nt' i) \<noteq> None \<Longrightarrow> same_life nt nt' \<Longrightarrow>
    same_life nt (tls_set i ((nt_tls nt' i)\<lparr>sc_ssl := Some s\<rparr>) nt')"
  by (simp add: same_life_def del: not_None_eq)

lemma ssl_read_call_seg:
  assumes "ssl_read_call i len nt = (a, nt')"
  shows "tls_seg nt nt'" "same_life nt nt'"
proof -
  let ?nt = "net_ev (Unlock L_openssl) (net_ev (Touch i) (net_ev (Lock L_openssl) nt))"
  have "nt_trace nt' = nt_trace nt @ [Lock L_openssl, Touch i, Unlock L_openssl]"
    using assms by (auto simp: ssl_read_call_def Let_def split: option.splits prod.splits)
  then show "tls_seg nt nt'" by (rule tls_segI) simp
  show "same_life nt nt'"
    using assms same_life_set [of ?nt i nt] by (auto simp: ssl_read_call_def Let_def split: option.splits prod.splits)
qed

lemma ssl_read_loop_seg:
  "ssl_read_loop r i len nt = (ret, bs, nt') \<Longrightarrow> tls_seg nt nt' \<and> same_life nt nt'"
proof (induction r arbitrary: nt)
  case 0 then show ?case by simp
next
  case (Suc r)
  obtain a nt1 where a: "ssl_read_call i len nt = (a, nt1)" by fastforce
  note c = ssl_read_call_seg [OF a]
  have t: "tls_seg nt1 (net_ev (Touch i) nt1)" "same_life nt1 (net_ev (Touch i) nt1)"
    by (auto intro: tls_segI simp: same_life_def)
  show ?case
  proof (cases a)
    case (Rx_err e n)
    then show ?thesis using Suc.prems Suc.IH [of "net_ev (Touch i) nt1"] a c t
      by (auto simp: Let_def split: if_splits intro: tls_seg_trans same_life_trans)
  qed (use Suc.prems a c in auto)
qed

lemma ssl_read_seg:
  assumes "ssl_read ctx len nt = Some (ret, bs, nt')"
  shows "lock_seg 3 nt nt'" "same_life nt nt'"
proof -
  have "lock_seg 3 nt nt' \<and> same_life nt nt'"
  proof (cases "\<exists>i. ctx = Some i \<and> \<not> (sc_ssl (nt_tls nt i) = None \<or> \<not> sc_connected (nt_tls nt i))")
    case False
    then show ?thesis using assms by (auto simp: ssl_read_def split: option.splits if_splits)
  next
    case True
    then obtain i where i: "ctx = Some i" "\<not> (sc_ssl (nt_tls nt i) = None \<or> \<not> sc_connected (nt_tls nt i))" by blast
    let ?nt = "net_ev (Touch i) (net_ev (Lock L_tls_rd) nt)"
    obtain r b nt1 where l: "ssl_read_loop 5 i len ?nt = (r, b, nt1)" by (metis prod_cases3)
    note s = ssl_read_loop_seg [OF l]
    let ?nt2 = "if r = 0 then net_ev (Touch i) nt1 else nt1"
    have "tls_seg (net_ev (Lock L_tls_rd) nt) ?nt" "tls_seg nt1 ?nt2" by (auto intro: tls_segI)
    with s have "tls_seg (net_ev (Lock L_tls_rd) nt) ?nt2" by (blast intro: tls_seg_trans)
    then have "lock_seg 3 nt (net_ev (Unlock L_tls_rd) ?nt2)" by (rule tls_seg_bracket) simp
    moreover have "same_life nt (net_ev (Unlock L_tls_rd) ?nt2)" using s by (auto simp: same_life_def)
    moreover have "nt' = net_ev (Unlock L_tls_rd) ?nt2"
      using assms i l by (auto simp: ssl_read_def split: if_splits)
    ultimately show ?thesis by simp
  qed
  then show "lock_seg 3 nt nt'" "same_life nt nt'" by blast+
qed

lemma ssl_write_seg:
  assumes "ssl_write ctx bs nt = Some (ret, nt')"
  shows "lock_seg 3 nt nt'" "same_life nt nt'"
proof -
  have w: "lock_seg 3 nt nt'" if "nt_trace nt' = nt_trace nt @ Lock L_tls_wr # tr @ [Unlock L_tls_wr]" "in_tls tr" for tr
    using that disciplined_tls [of tr L_tls_wr] by (auto simp: lock_seg_def)
  have t: "in_tls ([Lock L_openssl, Touch i, Unlock L_openssl] @ [Touch i])" for i by (intro in_tls_append) simp_all
  show "same_life nt nt'" using assms
      same_life_set [of "net_ev (Touch i) (net_ev (Lock L_openssl) (net_ev (Lock L_tls_wr) nt))" i nt for i]
    by (auto simp: ssl_write_def Let_def split: option.splits if_splits prod.splits tx_answer.splits)
  show "lock_seg 3 nt nt'" using assms w t
    by (fastforce simp: ssl_write_def Let_def split: option.splits if_splits prod.splits tx_answer.splits)
qed

lemma ssl_has_pending_seg:
  assumes "ssl_has_pending ctx nt = Some (p, nt')"
  shows "lock_seg 3 nt nt' \<and> nt_tls nt' = nt_tls nt"
proof (cases ctx)
  case (Some i)
  have w: "disciplined 3 (Lock L_tls_rd # tr @ [Unlock L_tls_rd])" if "in_tls tr" for tr
    using that by (rule disciplined_tls) simp
  show ?thesis using assms Some w [of "[]"] w [of "[Touch i]"]
    by (auto simp: ssl_has_pending_def lock_seg_def Let_def split: option.splits if_splits)
qed (use assms in \<open>auto simp: ssl_has_pending_def\<close>)

lemma ssl_shutdown_seg:
  assumes "ssl_shutdown ctx nt = Some nt'"
  shows "lock_seg 3 nt nt'"
    and "\<And>j. sc_freed (nt_tls nt' j) = sc_freed (nt_tls nt j) \<and> (sc_ssl (nt_tls nt' j) = None) = (sc_ssl (nt_tls nt j) = None) \<and>
      (ctx \<noteq> Some j \<longrightarrow> nt_tls nt' j = nt_tls nt j)"
proof -
  have w: "disciplined 3 (Lock L_tls_wr # [Lock L_openssl, Touch i, Unlock L_openssl] @ [Unlock L_tls_wr])" for i
    by (rule disciplined_tls) simp_all
  show "lock_seg 3 nt nt'" using assms w
    by (auto simp: ssl_shutdown_def lock_seg_def Let_def split: option.splits if_splits)
  show "sc_freed (nt_tls nt' j) = sc_freed (nt_tls nt j) \<and> (sc_ssl (nt_tls nt' j) = None) = (sc_ssl (nt_tls nt j) = None) \<and>
      (ctx \<noteq> Some j \<longrightarrow> nt_tls nt' j = nt_tls nt j)" for j
    using assms by (auto simp: ssl_shutdown_def Let_def split: option.splits if_splits)
qed

lemma ssl_destroy_seg:
  assumes "ssl_destroy ctx nt = Some nt'"
  shows "lock_seg 3 nt nt'"
    and "\<And>j. if ctx = Some j then sc_freed (nt_tls nt' j) else nt_tls nt' j = nt_tls nt j"
proof -
  have w: "disciplined 3 (Lock L_tls_wr # [Lock L_openssl, Touch i, Unlock L_openssl] @ [Unlock L_tls_wr])"
    "disciplined 3 (Lock L_tls_wr # [Lock L_openssl, Unlock L_openssl] @ [Unlock L_tls_wr])" for i
    by (rule disciplined_tls; simp)+
  show "lock_seg 3 nt nt'" using assms w
    by (auto simp: ssl_destroy_def lock_seg_def Let_def split: option.splits if_splits)
  show "if ctx = Some j then sc_freed (nt_tls nt' j) else nt_tls nt' j = nt_tls nt j" for j
    using assms by (auto simp: ssl_destroy_def Let_def split: option.splits if_splits)
qed

section \<open>Properties\<close>

text \<open>
  C35. The locking discipline of the TLS layer: on every path, \<open>ssl_read\<close>, \<open>ssl_write\<close>,
  \<open>ssl_has_pending\<close>, \<open>ssl_shutdown\<close> and \<open>ssl_destroy\<close> use the \<open>SSL\<close> object only while they hold
  \<open>g_tls_use_lock\<close>, take \<open>g_openssl_lock\<close> only inside it, and return holding exactly the locks they
  were called with.
\<close>

theorem tls_locking:
  "(\<forall>ret bs. ssl_read ctx len nt = Some (ret, bs, nt') \<longrightarrow> lock_seg 3 nt nt') \<and>
   (\<forall>ret. ssl_write ctx data nt = Some (ret, nt') \<longrightarrow> lock_seg 3 nt nt') \<and>
   (\<forall>p. ssl_has_pending ctx nt = Some (p, nt') \<longrightarrow> lock_seg 3 nt nt') \<and>
   (ssl_shutdown ctx nt = Some nt' \<longrightarrow> lock_seg 3 nt nt') \<and>
   (ssl_destroy ctx nt = Some nt' \<longrightarrow> lock_seg 3 nt nt')"
  by (auto dest: ssl_read_seg(1) ssl_write_seg(1) ssl_has_pending_seg ssl_shutdown_seg(1) ssl_destroy_seg(1))

definition demo_stream :: "rx_answer list \<Rightarrow> stream" where
  "demo_stream rx = \<lparr>st_left = [], st_rx = rx, st_tx = [], st_out = []\<rparr>"

definition demo_world :: "hs_answer list \<Rightarrow> stream option \<Rightarrow> net" where
  "demo_world hs s = \<lparr>nt_tick = word_of_nat, nt_ticks = 0, nt_rand = (\<lambda>k n. None), nt_rands = 0,
     nt_crand = (\<lambda>k. k), nt_crands = 0, nt_sock = (\<lambda>k. Sock_fail), nt_socks = 0, nt_udp_in = [], nt_udp_out = [],
     nt_udp_send = [], nt_tcp = (\<lambda>fd. demo_stream []),
     nt_tls = (\<lambda>i. \<lparr>sc_ctx = True, sc_ssl = s, sc_connected = s \<noteq> None, sc_hs = hs, sc_freed = False\<rparr>),
     nt_closed = [], nt_poll = [], nt_malloc = [], nt_thread = [], nt_trace = []\<rparr>"

theorem tls_locking_witness:
  "\<exists>nt'. ssl_read (Some 3) 10 (demo_world [] (Some (demo_stream [Rx [1, 2]]))) = Some (2, [1, 2], nt') \<and>
     lock_seg 3 (demo_world [] (Some (demo_stream [Rx [1, 2]]))) nt'"
proof -
  let ?nt = "demo_world [] (Some (demo_stream [Rx [1, 2]]))"
  obtain nt' where r: "ssl_read (Some 3) 10 ?nt = Some (2, [1, 2], nt')"
    by (simp add: ssl_read_def ssl_read_call_def stream_read_def demo_world_def demo_stream_def net_ev_def
        numeral_eq_Suc tls_set_def)
  then show ?thesis using tls_locking [of "Some 3" 10 ?nt nt'] by blast
qed

definition ssl_calls :: "net \<Rightarrow> nat" where
  "ssl_calls nt = length (filter (\<lambda>e. e = Lock L_openssl) (nt_trace nt))"

lemma ssl_read_call_count [simp]: "ssl_calls (snd (ssl_read_call i len nt)) = ssl_calls nt + 1"
  by (simp add: ssl_read_call_def ssl_calls_def Let_def split: option.split prod.split)

lemma ssl_read_call_answer:
  "sc_ssl (nt_tls nt i) = Some s \<Longrightarrow> fst (ssl_read_call i len nt) = fst (stream_read len s)"
  by (simp add: ssl_read_call_def Let_def split: prod.split)

lemma ssl_calls_ev [simp]: "e \<noteq> Lock L_openssl \<Longrightarrow> ssl_calls (net_ev e nt) = ssl_calls nt"
  by (simp add: ssl_calls_def)

lemma ssl_read_loop_count:
  "ssl_read_loop r i len nt = (ret, bs, nt') \<Longrightarrow> ssl_calls nt' \<le> ssl_calls nt + r"
proof (induction r arbitrary: nt)
  case (Suc r)
  obtain a nt1 where a: "ssl_read_call i len nt = (a, nt1)" by fastforce
  have "ssl_calls nt1 = ssl_calls nt + 1" using ssl_read_call_count [of i len nt] a by simp
  then show ?case using Suc.prems Suc.IH [of "net_ev (Touch i) nt1"] a
    by (auto simp: Let_def split: rx_answer.splits if_splits)
qed simp

text \<open>
  C36. Reading waits at most once for the receive timeout: \<open>ssl_read\<close> makes at most five calls of
  \<open>SSL_read\<close>, and exactly one when the first answer is data, end of file, an expired timeout
  (\<open>EAGAIN\<close>) or any error it does not retry.
\<close>

theorem ssl_read_attempts:
  assumes "ssl_read (Some i) len nt = Some (ret, bs, nt')"
  shows "ssl_calls nt' \<le> ssl_calls nt + 5 \<and> (\<forall>e. \<not> ssl_retryable e EAGAIN) \<and>
    (\<forall>s a s'. sc_ssl (nt_tls nt i) = Some s \<and> stream_read len s = (a, s') \<and>
        (\<forall>e n. a = Rx_err e n \<longrightarrow> \<not> ssl_retryable e n) \<longrightarrow> ssl_calls nt' \<le> ssl_calls nt + 1)"
proof (cases "sc_ssl (nt_tls nt i) = None \<or> \<not> sc_connected (nt_tls nt i)")
  case True
  then show ?thesis using assms by (auto simp: ssl_read_def ssl_retryable_def split: if_splits)
next
  case False
  let ?nt = "net_ev (Touch i) (net_ev (Lock L_tls_rd) nt)"
  obtain r b nt1 where l: "ssl_read_loop 5 i len ?nt = (r, b, nt1)" by (metis prod_cases3)
  have n: "ssl_calls nt' = ssl_calls nt1"
    using assms False l by (auto simp: ssl_read_def split: if_splits)
  have "ssl_calls nt1 \<le> ssl_calls nt + 1"
    if A: "sc_ssl (nt_tls nt i) = Some s" "stream_read len s = (a, s')" "\<forall>e n. a = Rx_err e n \<longrightarrow> \<not> ssl_retryable e n" for s a s'
  proof -
    obtain nt2 where c: "ssl_read_call i len ?nt = (a, nt2)" "ssl_calls nt2 = ssl_calls nt + 1"
      using A(1,2) ssl_read_call_count [of i len ?nt] ssl_read_call_answer [of ?nt i s len]
      by (cases "ssl_read_call i len ?nt") simp
    then have "nt1 = nt2 \<or> nt1 = net_ev (Touch i) nt2"
      using l A(3) by (auto simp: numeral_eq_Suc Let_def split: rx_answer.splits)
    then show ?thesis using c by auto
  qed
  then show ?thesis using ssl_read_loop_count [OF l] n by (auto simp: ssl_retryable_def)
qed

theorem ssl_read_attempts_witness:
  "case ssl_read (Some 3) 10 (demo_world [] (Some (demo_stream [Rx_err SSL_WANT_READ EAGAIN, Rx [1]]))) of
     None \<Rightarrow> False | Some (ret, bs, nt') \<Rightarrow> ret = -1 \<and> ssl_calls nt' \<le> 1"
proof -
  let ?nt = "demo_world [] (Some (demo_stream [Rx_err SSL_WANT_READ EAGAIN, Rx [1]]))"
  obtain nt' where r: "ssl_read (Some 3) 10 ?nt = Some (-1, [], nt')"
    by (simp add: ssl_read_def ssl_read_call_def stream_read_def demo_world_def demo_stream_def net_ev_def
        numeral_eq_Suc tls_set_def ssl_retryable_def)
  have "ssl_calls nt' \<le> ssl_calls ?nt + 1"
    using ssl_read_attempts [OF r] by (simp add: demo_world_def demo_stream_def stream_read_def ssl_retryable_def)
  then show ?thesis using r by (simp add: ssl_calls_def demo_world_def)
qed

section \<open>The handshake\<close>

lemma handshake_outcome:
  "sc_hs (nt_tls nt i) = replicate k Hs_want @ a # hs \<Longrightarrow> a \<noteq> Hs_want \<Longrightarrow>
     handshake_loop i n nt = (r, nt') \<Longrightarrow> r = (if n \<le> k then 0 else if a = Hs_ok then 1 else -1)"
proof (induction n arbitrary: k nt)
  case (Suc n)
  show ?case
  proof (cases k)
    case 0
    then show ?thesis using Suc.prems by (cases a) (auto simp: Let_def)
  next
    case (Suc k')
    let ?nt = "net_ev (Touch i) (tls_set i (nt_tls nt i\<lparr>sc_hs := replicate k' Hs_want @ a # hs\<rparr>)
      (net_ev (Unlock L_openssl) (net_ev (Touch i) (net_ev (Lock L_openssl) nt))))"
    have "handshake_loop i n ?nt = (r, nt')" using Suc Suc.prems by (simp add: Let_def)
    then have "r = (if n \<le> k' then 0 else if a = Hs_ok then 1 else -1)"
      using Suc.IH [of ?nt k'] Suc.prems(2) by simp
    then show ?thesis using Suc by simp
  qed
qed simp

lemma handshake_trace:
  "handshake_loop i n nt = (r, nt') \<Longrightarrow> tls_seg nt nt' \<and> sc_ssl (nt_tls nt' i) = sc_ssl (nt_tls nt i) \<and>
     sc_connected (nt_tls nt' i) = sc_connected (nt_tls nt i)"
proof (induction n arbitrary: nt)
  case (Suc n)
  let ?hs = "case sc_hs (nt_tls nt i) of [] \<Rightarrow> [] | a # hs \<Rightarrow> hs"
  define nt1 where "nt1 = tls_set i ((nt_tls nt i)\<lparr>sc_hs := ?hs\<rparr>) (net_ev (Unlock L_openssl) (net_ev (Touch i) (net_ev (Lock L_openssl) nt)))"
  have s: "tls_seg nt nt1"
    by (rule tls_segI [where tr = "[Lock L_openssl, Touch i, Unlock L_openssl]"]) (simp_all add: nt1_def)
  have t: "tls_seg nt1 (net_ev (Touch i) nt1)" by (rule tls_segI [where tr = "[Touch i]"]) simp_all
  have e: "sc_ssl (nt_tls nt1 i) = sc_ssl (nt_tls nt i)" "sc_connected (nt_tls nt1 i) = sc_connected (nt_tls nt i)"
    by (simp_all add: nt1_def)
  have "(nt' = nt1 \<or> nt' = net_ev (Touch i) nt1) \<or> handshake_loop i n (net_ev (Touch i) nt1) = (r, nt')"
    using Suc.prems by (auto simp: Let_def nt1_def split: list.splits hs_answer.splits)
  then show ?case
    using s t e Suc.IH [of "net_ev (Touch i) nt1"] by (auto intro: tls_seg_trans)
qed simp

text \<open>
  The handshake gives up after 100 attempts, succeeds exactly when the library reports success
  within them, and a context whose handshake failed is left without an \<open>SSL\<close> object and not
  connected. On that failing path the object is freed after \<open>g_tls_use_lock\<close> has been released:
  the locking discipline of the other operations does not hold for it.
\<close>

theorem ssl_connect_outcome:
  assumes "\<not> sc_freed (nt_tls nt i)" "sc_ctx (nt_tls nt i)" "\<not> sc_connected (nt_tls nt i)"
    and "sc_hs (nt_tls nt i) = replicate k Hs_want @ a # hs" "a \<noteq> Hs_want"
  shows "\<exists>nt'. ssl_connect (Some i) (Some s) True nt = Some (if k < 100 \<and> a = Hs_ok then 0 else -1, nt') \<and>
    (if k < 100 \<and> a = Hs_ok then sc_connected (nt_tls nt' i) \<and> sc_ssl (nt_tls nt' i) = Some s \<and> lock_seg 3 nt nt'
     else \<not> sc_connected (nt_tls nt' i) \<and> sc_ssl (nt_tls nt' i) = None \<and> \<not> lock_seg 3 nt nt')"
proof -
  let ?n0 = "tls_set i ((nt_tls nt i)\<lparr>sc_ssl := Some s\<rparr>) (net_ev (Lock L_tls_wr) nt)"
  let ?n1 = "net_ev (Lock L_tls_rd) (net_ev (Unlock L_tls_wr) (net_ev (Touch i) ?n0))"
  obtain r n2 where h: "handshake_loop i 100 ?n1 = (r, n2)" by fastforce
  have r: "r = (if 100 \<le> k then 0 else if a = Hs_ok then 1 else -1)"
    by (rule handshake_outcome [OF _ assms(5) h]) (simp add: assms(4))
  obtain tr where tr: "nt_trace n2 = nt_trace nt @ [Lock L_tls_wr, Touch i, Unlock L_tls_wr, Lock L_tls_rd] @ tr" "in_tls tr"
    using handshake_trace [OF h] by (auto simp: tls_seg_def)
  have c: "sc_ssl (nt_tls n2 i) = Some s" "\<not> sc_connected (nt_tls n2 i)"
    using handshake_trace [OF h] assms(3) by simp_all
  show ?thesis
  proof (cases "k < 100 \<and> a = Hs_ok")
    case True
    let ?n3 = "net_ev (Unlock L_tls_rd) (net_ev (Touch i) (tls_set i ((nt_tls n2 i)\<lparr>sc_connected := True\<rparr>) n2))"
    have "disciplined 3 ((Lock L_tls_wr # [Touch i] @ [Unlock L_tls_wr]) @ (Lock L_tls_rd # (tr @ [Touch i]) @ [Unlock L_tls_rd]))"
      by (intro disciplined_append disciplined_tls in_tls_append tr(2)) simp_all
    then have "lock_seg 3 nt ?n3" unfolding lock_seg_def using tr(1) by auto
    moreover have "ssl_connect (Some i) (Some s) True nt = Some (0, ?n3)"
      using assms(1,2) h r True by (simp add: ssl_connect_def Let_def)
    ultimately show ?thesis using True c by simp
  next
    case False
    let ?n3 = "tls_set i ((nt_tls n2 i)\<lparr>sc_ssl := None\<rparr>) (net_ev (Unlock L_openssl) (net_ev (Touch i) (net_ev (Lock L_openssl)
      (net_ev (Unlock L_tls_rd) n2))))"
    define X where "X = Lock L_tls_rd # tr @ [Unlock L_tls_rd]"
    have d: "run_locks [] X = Some []"
      unfolding X_def by (rule disciplined_run [OF disciplined_tls]) (simp_all add: tr(2))
    have "\<not> disciplined 3 ([Lock L_tls_wr, Touch i, Unlock L_tls_wr] @ X @ [Lock L_openssl, Touch i, Unlock L_openssl])"
      using d disciplined_run [of 3 "[Lock L_tls_wr, Touch i, Unlock L_tls_wr] @ X @ [Lock L_openssl, Touch i, Unlock L_openssl]"]
      by (auto simp: run_locks_append tls_guarded_def)
    then have "\<not> lock_seg 3 nt ?n3" unfolding lock_seg_def using tr(1) by (simp add: X_def)
    moreover have "ssl_connect (Some i) (Some s) True nt = Some (-1, ?n3)"
      using assms(1,2) h r False by (simp add: ssl_connect_def Let_def)
    ultimately show ?thesis using False c by auto
  qed
qed

theorem ssl_connect_outcome_witness:
  "\<exists>nt'. ssl_connect (Some 3) (Some (demo_stream [])) True (demo_world [Hs_want, Hs_fail] None) = Some (-1, nt') \<and>
     \<not> lock_seg 3 (demo_world [Hs_want, Hs_fail] None) nt'"
  using ssl_connect_outcome [of "demo_world [Hs_want, Hs_fail] None" 3 1 Hs_fail "[]" "demo_stream []"]
  by (auto simp: demo_world_def)

end
