(* ===== verification/Conn.thy ===== *)
theory Conn
  imports Tls Rudp
begin

text \<open>
  The connection record of \<open>softether_protocol.h\<close> with the fields of the data path, and the selection
  and bookkeeping of its TCP links: the primary socket and up to 32 additional ones
  (\<open>softether_protocol.c\<close>). A TLS context is referred to by its number; \<open>ssl\<close> and \<open>ssl_ctx\<close> of the C
  struct hold the same pointer for a live link.
\<close>

section \<open>Types\<close>

definition MAX_SE_CONNECTIONS :: nat where "MAX_SE_CONNECTIONS = 32"
definition RECV_QUEUE_SIZE :: nat where "RECV_QUEUE_SIZE = 64"
definition MAX_QUEUED_FRAME :: nat where "MAX_QUEUED_FRAME = 2048"
definition KEEP_ALIVE_MAGIC :: u32 where "KEEP_ALIVE_MAGIC = 0xFFFFFFFF"
definition MAX_BLOCK_SIZE :: u32 where "MAX_BLOCK_SIZE = 1600 * 1600"
definition COMPRESS_MAGIC :: u64 where "COMPRESS_MAGIC = 0xDEADBEEFCAFEFACE"
definition ADDITIONAL_CONNECT_INTERVAL_MS :: int where "ADDITIONAL_CONNECT_INTERVAL_MS = 1000"
definition TCP_DIRECTION_BOTH :: int where "TCP_DIRECTION_BOTH = 0"
definition TCP_DIRECTION_SERVER_TO_CLIENT :: int where "TCP_DIRECTION_SERVER_TO_CLIENT = 1"
definition TCP_DIRECTION_CLIENT_TO_SERVER :: int where "TCP_DIRECTION_CLIENT_TO_SERVER = 2"

lemmas conn_sizes = MAX_SE_CONNECTIONS_def RECV_QUEUE_SIZE_def MAX_QUEUED_FRAME_def

datatype softether_state = STATE_DISCONNECTED | STATE_CONNECTING | STATE_TLS_HANDSHAKE
  | STATE_PROTOCOL_HANDSHAKE | STATE_AUTHENTICATING | STATE_SESSION_SETUP | STATE_CONNECTED
  | STATE_DISCONNECTING

record softether_tcp_sock =
  ts_socket_fd :: int
  ts_ssl_ctx :: "nat option"
  ts_ssl :: "nat option"
  ts_direction :: int
  ts_last_recv :: u64
  ts_late_count :: u32
  ts_active :: bool

text \<open>
  A byte array of fixed size inside a struct is the function from its indices; \<open>arr n a\<close> are its \<open>n\<close> bytes.
\<close>

type_synonym byte_array = "nat \<Rightarrow> byte"

definition arr :: "nat \<Rightarrow> byte_array \<Rightarrow> byte list" where
  "arr n a = map a [0..<n]"

definition arr_of :: "byte list \<Rightarrow> byte_array" where
  "arr_of bs i = (if i < length bs then bs ! i else 0)"

lemma arr_length [simp, size_simps]: "length (arr n a) = n"
  by (simp add: arr_def)

lemma arr_arr_of [simp]: "length bs = n \<Longrightarrow> arr n (arr_of bs) = bs"
  by (rule nth_equalityI) (simp_all add: arr_def arr_of_def)

text \<open>What a \<open>rudp_transport_t\<close> owns, as far as its teardown is concerned.\<close>

record transport_handle =
  th_worker_fd :: int
  th_app_fd :: int
  th_udp_fd :: int
  th_thread_started :: bool

record softether_connection =
  cn_socket_fd :: int
  cn_ssl_ctx :: "nat option"
  cn_ssl :: "nat option"
  cn_state :: softether_state
  cn_abort_connect :: bool
  cn_session_id :: u32
  cn_sequence_num :: u32
  cn_server_ip :: "byte list"
  cn_session_key :: byte_array
  cn_server_use_compress :: bool
  cn_server_timeout :: u32
  cn_use_ssl_data :: bool
  cn_session_established :: bool
  cn_client_mac :: byte_array
  cn_gateway_mac :: byte_array
  cn_gateway_mac_resolved :: bool
  cn_gateway_ip :: u32
  cn_assigned_ip :: u32
  cn_recv_queue :: frame_ring
  cn_rx_skipped_blocks :: u32
  cn_rudp :: "rudp_context option"
  cn_rudp_enabled :: bool
  cn_nat_t_transport :: "transport_handle option"
  cn_using_nat_t :: bool
  cn_additional :: "softether_tcp_sock list"
  cn_num_additional :: int
  cn_max_connection :: int
  cn_primary_direction :: int
  cn_next_connect_time :: u64
  cn_additional_failed_count :: int
  cn_additional_connecting :: bool
  cn_additional_connect_slot :: int
  cn_additional_connect_result :: int
  cn_send_rr_idx :: int
  cn_next_tcp_keepalive_time :: u64
  cn_send_block :: "byte list option"
  cn_send_block_cap :: u32
  cn_stats_tx_packets :: u64
  cn_stats_tx_bytes :: u64
  cn_stats_rx_packets :: u64
  cn_stats_rx_bytes :: u64

section \<open>Directions and selection\<close>

definition can_send :: "int \<Rightarrow> bool" where
  "can_send d \<longleftrightarrow> d = TCP_DIRECTION_BOTH \<or> d = TCP_DIRECTION_CLIENT_TO_SERVER"

definition can_receive :: "int \<Rightarrow> bool" where
  "can_receive d \<longleftrightarrow> d = TCP_DIRECTION_BOTH \<or> d = TCP_DIRECTION_SERVER_TO_CLIENT"

definition primary_sends :: "softether_connection \<Rightarrow> bool" where
  "primary_sends c \<longleftrightarrow> 0 \<le> cn_socket_fd c \<and> cn_ssl c \<noteq> None \<and> can_send (cn_primary_direction c)"

definition slot_sends :: "softether_tcp_sock \<Rightarrow> bool" where
  "slot_sends t \<longleftrightarrow> ts_active t \<and> can_send (ts_direction t)"

definition send_candidates :: "softether_connection \<Rightarrow> nat list" where
  "send_candidates c =
     (if primary_sends c then [0] else []) @
     [i + 1. i \<leftarrow> [0..<MAX_SE_CONNECTIONS], slot_sends (cn_additional c ! i)]"

text \<open>Socket index 0 is the primary, \<open>i + 1\<close> the additional slot \<open>i\<close>. \<open>None\<close> is an index outside the array.\<close>

definition softether_select_send_socket :: "softether_connection \<Rightarrow> (nat \<times> softether_connection) option" where
  "softether_select_send_socket c =
     (let cs = send_candidates c; count = int (length cs) in
      if count = 0 then Some (0, c)
      else let idx = (if 0 \<le> cn_send_rr_idx c then cn_send_rr_idx c mod count else - ((- cn_send_rr_idx c) mod count))
           in if idx < 0 then None
              else Some (cs ! nat idx, c\<lparr>cn_send_rr_idx := (cn_send_rr_idx c + 1) mod count\<rparr>))"

definition softether_get_num_connections :: "softether_connection option \<Rightarrow> int" where
  "softether_get_num_connections c =
     (case c of None \<Rightarrow> 0 | Some c \<Rightarrow> (if 0 \<le> cn_socket_fd c then 1 else 0) + cn_num_additional c)"

definition softether_get_active_socket_fds :: "softether_connection option \<Rightarrow> int \<Rightarrow> int list" where
  "softether_get_active_socket_fds c max_fds =
     (case c of
        None \<Rightarrow> []
      | Some c \<Rightarrow>
          if max_fds \<le> 0 then []
          else take (nat max_fds)
                 ((if 0 \<le> cn_socket_fd c then [cn_socket_fd c] else []) @
                  map ts_socket_fd (filter (\<lambda>t. ts_active t \<and> 0 \<le> ts_socket_fd t)
                    (take MAX_SE_CONNECTIONS (cn_additional c)))))"

section \<open>Reading and writing exactly \<open>len\<close> bytes\<close>

text \<open>
  The read loops return 0 and the bytes, or -1 and what had arrived. The state tests of the loops on
  the primary link are those of the source. A raw read that is told to try again does; the loop ends
  because the script of answers does.
\<close>

definition conn_going :: "softether_connection \<Rightarrow> bool" where
  "conn_going c \<longleftrightarrow> \<not> (cn_state c = STATE_DISCONNECTED \<or> cn_state c = STATE_DISCONNECTING)"

function ssl_read_all_ctx :: "nat option \<Rightarrow> nat \<Rightarrow> byte list \<Rightarrow> net \<Rightarrow> (int \<times> byte list \<times> net) option" where
  "ssl_read_all_ctx ssl len acc nt =
     (if len = 0 then Some (0, acc, nt)
      else case ssl_read ssl len nt of
        None \<Rightarrow> None
      | Some (ret, bs, nt) \<Rightarrow>
          if ret \<le> 0 then Some (-1, acc, nt)
          else ssl_read_all_ctx ssl (len - nat ret) (acc @ bs) nt)"
  by pat_completeness auto
termination by (relation "measure (\<lambda>(s, len, a, n). len)") auto

definition ssl_read_all :: "softether_connection \<Rightarrow> nat \<Rightarrow> net \<Rightarrow> (int \<times> byte list \<times> net) option" where
  "ssl_read_all c len nt =
     (if len = 0 then Some (0, [], nt)
      else if \<not> conn_going c then Some (-1, [], nt)
      else ssl_read_all_ctx (cn_ssl c) len [] nt)"

fun raw_read_loop :: "bool \<Rightarrow> rx_answer list \<Rightarrow> nat \<Rightarrow> byte list \<Rightarrow> int \<times> byte list \<times> byte list \<times> rx_answer list" where
  "raw_read_loop eintr rx 0 acc = (0, acc, [], rx)"
| "raw_read_loop eintr [] len acc = (-1, acc, [], [])"
| "raw_read_loop eintr (Rx bs # rx) len acc =
     (if bs = [] then (-1, acc, [], rx)
      else if length bs \<le> len then raw_read_loop eintr rx (len - length bs) (acc @ bs)
      else (0, acc @ take len bs, drop len bs, rx))"
| "raw_read_loop eintr (Rx_eof # rx) len acc = (-1, acc, [], rx)"
| "raw_read_loop eintr (Rx_err e n # rx) len acc =
     (if n = EAGAIN \<or> eintr \<and> n = EINTR then raw_read_loop eintr rx len acc else (-1, acc, [], rx))"

text \<open>\<open>eintr\<close>: the variant for an arbitrary descriptor also retries an interrupted call.\<close>

definition raw_read :: "bool \<Rightarrow> int \<Rightarrow> nat \<Rightarrow> net \<Rightarrow> int \<times> byte list \<times> net" where
  "raw_read eintr fd len nt =
     (let s = nt_tcp nt fd; have_n = min len (length (st_left s)) in
      if len \<le> length (st_left s)
      then (0, take len (st_left s), nt\<lparr>nt_tcp := (nt_tcp nt)(fd := s\<lparr>st_left := drop len (st_left s)\<rparr>)\<rparr>)
      else let (ret, bs, left, rx) = raw_read_loop eintr (st_rx s) (len - length (st_left s)) (st_left s)
           in (ret, bs, nt\<lparr>nt_tcp := (nt_tcp nt)(fd := s\<lparr>st_left := left, st_rx := rx\<rparr>)\<rparr>))"

definition raw_read_all :: "softether_connection \<Rightarrow> nat \<Rightarrow> net \<Rightarrow> int \<times> byte list \<times> net" where
  "raw_read_all c len nt =
     (if len = 0 then (0, [], nt) else if \<not> conn_going c then (-1, [], nt)
      else raw_read False (cn_socket_fd c) len nt)"

definition raw_read_all_fd :: "int \<Rightarrow> nat \<Rightarrow> net \<Rightarrow> int \<times> byte list \<times> net" where
  "raw_read_all_fd fd len nt = raw_read True fd len nt"

function ssl_write_loop :: "nat option \<Rightarrow> byte list \<Rightarrow> net \<Rightarrow> (int \<times> net) option" where
  "ssl_write_loop ssl bs nt =
     (if bs = [] then Some (0, nt)
      else case ssl_write ssl bs nt of
        None \<Rightarrow> None
      | Some (ret, nt) \<Rightarrow>
          if ret \<le> 0 then Some (-1, nt) else ssl_write_loop ssl (drop (nat ret) bs) nt)"
  by pat_completeness auto
termination by (relation "measure (\<lambda>(s, bs, n). length bs)") auto

definition ssl_write_all :: "softether_connection \<Rightarrow> byte list \<Rightarrow> net \<Rightarrow> (int \<times> net) option" where
  "ssl_write_all c bs nt =
     (if bs = [] then Some (0, nt) else if \<not> conn_going c then Some (-1, nt) else ssl_write_loop (cn_ssl c) bs nt)"

fun raw_write_loop :: "tx_answer list \<Rightarrow> byte list \<Rightarrow> byte list \<Rightarrow> int \<times> byte list \<times> tx_answer list" where
  "raw_write_loop tx [] acc = (0, acc, tx)"
| "raw_write_loop [] bs acc = (0, acc @ bs, [])"
| "raw_write_loop (Tx n # tx) bs acc =
     (if n = 0 then (-1, acc, tx) else raw_write_loop tx (drop n bs) (acc @ take n bs))"
| "raw_write_loop (Tx_err e # tx) bs acc = (if e = EAGAIN then raw_write_loop tx bs acc else (-1, acc, tx))"

definition raw_write :: "int \<Rightarrow> byte list \<Rightarrow> net \<Rightarrow> int \<times> net" where
  "raw_write fd bs nt =
     (let s = nt_tcp nt fd; (ret, out, tx) = raw_write_loop (st_tx s) bs []
      in (ret, nt\<lparr>nt_tcp := (nt_tcp nt)(fd := s\<lparr>st_tx := tx, st_out := st_out s @ out\<rparr>)\<rparr>))"

definition raw_write_all :: "softether_connection \<Rightarrow> byte list \<Rightarrow> net \<Rightarrow> int \<times> net" where
  "raw_write_all c bs nt =
     (if bs = [] then (0, nt) else if \<not> conn_going c then (-1, nt) else raw_write (cn_socket_fd c) bs nt)"

section \<open>Links\<close>

text \<open>Slot -1 is the primary link. The result \<open>None\<close> is the NULL of the source: no live link matches.\<close>

definition link_io_resolve :: "softether_connection \<Rightarrow> nat option \<Rightarrow> int \<Rightarrow> int option" where
  "link_io_resolve c ssl fd =
     (if ssl = cn_ssl c \<and> fd = cn_socket_fd c then Some (-1)
      else map_option int (List.find (\<lambda>i. ts_ssl (cn_additional c ! i) = ssl \<and>
             ts_socket_fd (cn_additional c ! i) = fd) [0..<MAX_SE_CONNECTIONS]))"

definition link_io_live :: "softether_connection \<Rightarrow> int \<Rightarrow> nat option \<Rightarrow> int \<Rightarrow> bool" where
  "link_io_live c slot ssl fd =
     (if slot < 0 then cn_ssl c = ssl \<and> cn_socket_fd c = fd
      else ts_ssl (cn_additional c ! nat slot) = ssl \<and> ts_socket_fd (cn_additional c ! nat slot) = fd)"

definition data_read_all_sock ::
  "softether_connection \<Rightarrow> nat option \<Rightarrow> int \<Rightarrow> nat \<Rightarrow> net \<Rightarrow> (int \<times> byte list \<times> net) option" where
  "data_read_all_sock c ssl fd len nt =
     (if \<not> cn_use_ssl_data c then Some (raw_read_all_fd fd len nt)
      else case link_io_resolve c ssl fd of
        None \<Rightarrow> Some (-1, [], nt)
      | Some slot \<Rightarrow>
          let nt = net_ev (Lock (L_io slot)) nt in
          if \<not> link_io_live c slot ssl fd then Some (-1, [], net_ev (Unlock (L_io slot)) nt)
          else do { (ret, bs, nt) \<leftarrow> ssl_read_all_ctx ssl len [] nt;
                    Some (ret, bs, net_ev (Unlock (L_io slot)) nt) })"

definition read_uint32_sock ::
  "softether_connection \<Rightarrow> nat option \<Rightarrow> int \<Rightarrow> net \<Rightarrow> (u32 option \<times> net) option" where
  "read_uint32_sock c ssl fd nt =
     do { (ret, bs, nt) \<leftarrow> data_read_all_sock c ssl fd 4 nt;
          Some (if ret \<noteq> 0 then None else Some (rd32 bs), nt) }"

definition data_write_all_sock ::
  "softether_connection \<Rightarrow> nat option \<Rightarrow> int \<Rightarrow> byte list \<Rightarrow> net \<Rightarrow> (int \<times> net) option" where
  "data_write_all_sock c ssl fd bs nt =
     (if \<not> cn_use_ssl_data c then Some (raw_write fd bs nt)
      else case link_io_resolve c ssl fd of
        None \<Rightarrow> Some (-1, nt)
      | Some slot \<Rightarrow>
          let nt = net_ev (Lock (L_io slot)) nt in
          if \<not> link_io_live c slot ssl fd then Some (-1, net_ev (Unlock (L_io slot)) nt)
          else do { (ret, nt) \<leftarrow> ssl_write_loop ssl bs nt; Some (ret, net_ev (Unlock (L_io slot)) nt) })"

definition data_read_all :: "softether_connection \<Rightarrow> nat \<Rightarrow> net \<Rightarrow> (int \<times> byte list \<times> net) option" where
  "data_read_all c len nt =
     (if \<not> cn_use_ssl_data c then Some (raw_read_all c len nt)
      else do { (ret, bs, nt) \<leftarrow> ssl_read_all c len (net_ev (Lock (L_io (-1))) nt);
                Some (ret, bs, net_ev (Unlock (L_io (-1))) nt) })"

definition data_write_all :: "softether_connection \<Rightarrow> byte list \<Rightarrow> net \<Rightarrow> (int \<times> net) option" where
  "data_write_all c bs nt =
     (if \<not> cn_use_ssl_data c then Some (raw_write_all c bs nt)
      else do { (ret, nt) \<leftarrow> ssl_write_all c bs (net_ev (Lock (L_io (-1))) nt);
                Some (ret, net_ev (Unlock (L_io (-1))) nt) })"

definition read_uint32 :: "softether_connection \<Rightarrow> net \<Rightarrow> (u32 option \<times> net) option" where
  "read_uint32 c nt =
     do { (ret, bs, nt) \<leftarrow> data_read_all c 4 nt;
          Some (if ret \<noteq> 0 then None else Some (rd32 bs), nt) }"

end
