(* ===== verification/Packet_Handler.thy ===== *)
theory Packet_Handler
  imports Conn
begin

text \<open>
  \<open>packet_handler.c\<close>: data blocks and keepalives over the TCP links of a connection. Sending picks a
  link, fails over to the next one and retires links that fail; receiving polls every link and queues
  all blocks of one message. Results are \<open>int\<close> codes as in the source; \<open>None\<close> of the option type is
  undefined behaviour (an access outside a buffer, a freed TLS context, signed overflow).
\<close>

definition CMD_DATA :: u16 where "CMD_DATA = 0x000C"
definition CMD_KEEPALIVE :: u16 where "CMD_KEEPALIVE = 0x000D"
definition CMD_KEEPALIVE_ACK :: u16 where "CMD_KEEPALIVE_ACK = 0x000E"

section \<open>Transmitting a block\<close>

text \<open>The slot of a context is claimed: the pointer and what the slot holds afterwards.\<close>

definition take_ssl_ctx_slot :: "nat option \<Rightarrow> nat option \<times> nat option" where
  "take_ssl_ctx_slot slot = (case slot of None \<Rightarrow> (None, None) | Some p \<Rightarrow> (Some p, None))"

text \<open>Closing and clearing an additional link, as the failover and the failed reader do it.\<close>

definition retire_socket :: "nat \<Rightarrow> softether_connection \<Rightarrow> net \<Rightarrow> (softether_connection \<times> net) option" where
  "retire_socket i c nt =
     (let ts = cn_additional c ! i;
          nt = (if 0 \<le> ts_socket_fd ts then net_close (ts_socket_fd ts) nt else nt);
          (doomed, slot) = take_ssl_ctx_slot (ts_ssl_ctx ts);
          c = c\<lparr>cn_additional := (cn_additional c)[i := ts\<lparr>ts_active := False, ts_ssl := None,
                  ts_socket_fd := -1, ts_ssl_ctx := slot\<rparr>]\<rparr>
      in do { nt \<leftarrow> ssl_shutdown doomed nt; nt \<leftarrow> ssl_destroy doomed nt; Some (c, nt) })"

definition transmit_candidates :: "nat \<Rightarrow> softether_connection \<Rightarrow> nat list" where
  "transmit_candidates best c =
     (if best \<noteq> 0 then [best] else []) @ (if primary_sends c then [0] else []) @
     filter (\<lambda>k. k \<noteq> best) [i + 1. i \<leftarrow> [0..<MAX_SE_CONNECTIONS], slot_sends (cn_additional c ! i)]"

fun transmit_loop :: "byte list \<Rightarrow> nat list \<Rightarrow> softether_connection \<Rightarrow> net \<Rightarrow>
    (int \<times> softether_connection \<times> net) option" where
  "transmit_loop block [] c nt = Some (-1, c, nt)"
| "transmit_loop block (k # ks) c nt =
     (if k = 0
      then if cn_ssl c = None \<or> cn_socket_fd c < 0 then transmit_loop block ks c nt
           else do { (wr, nt) \<leftarrow> data_write_all c block nt;
                     if wr = 0 then Some (0, c, nt) else transmit_loop block ks c nt }
      else let i = k - 1; ts = cn_additional c ! i in
           if \<not> ts_active ts \<or> ts_ssl ts = None \<or> ts_socket_fd ts < 0 then transmit_loop block ks c nt
           else do { (wr, nt) \<leftarrow> data_write_all_sock c (ts_ssl ts) (ts_socket_fd ts) block nt;
                     if wr = 0 then Some (0, c, nt)
                     else do { let nt = net_ev (Lock (L_io (int i))) nt;
                               (c, nt) \<leftarrow>
                                 (if ts_ssl (cn_additional c ! i) = ts_ssl ts \<and>
                                     ts_socket_fd (cn_additional c ! i) = ts_socket_fd ts
                                  then do { (c, nt) \<leftarrow> retire_socket i c nt;
                                            Some (c\<lparr>cn_num_additional := cn_num_additional c - 1\<rparr>, nt) }
                                  else Some (c, nt));
                               transmit_loop block ks c (net_ev (Unlock (L_io (int i))) nt) } })"

text \<open>A length the C code passes on as \<open>(int)len\<close>: from \<open>2 ^ 31\<close> on it is negative, and nothing is written.\<close>

definition write_arg :: "byte list \<Rightarrow> u32 \<Rightarrow> byte list option" where
  "write_arg buf len = (if unat len < 2 ^ 31 then mem_read buf 0 (unat len) else Some [])"

definition softether_transmit_block_nolock ::
  "softether_connection \<Rightarrow> byte list option \<Rightarrow> u32 \<Rightarrow> net \<Rightarrow> (int \<times> softether_connection \<times> net) option" where
  "softether_transmit_block_nolock c block block_len nt =
     (case block of
        None \<Rightarrow> Some (-1, c, nt)
      | Some b \<Rightarrow>
          if block_len < 8 then Some (-1, c, nt)
          else if cn_state c = STATE_DISCONNECTING \<or> cn_ssl c = None then Some (-1, c, nt)
          else do { (best, c) \<leftarrow> softether_select_send_socket c;
                    bs \<leftarrow> write_arg b block_len;
                    transmit_loop bs (transmit_candidates best c) c nt })"

definition softether_transmit_block ::
  "softether_connection \<Rightarrow> byte list option \<Rightarrow> u32 \<Rightarrow> net \<Rightarrow> (int \<times> softether_connection \<times> net) option" where
  "softether_transmit_block c block block_len nt =
     do { (ret, c, nt) \<leftarrow> softether_transmit_block_nolock c block block_len (net_ev (Lock L_write) nt);
          Some (ret, c, net_ev (Unlock L_write) nt) }"

section \<open>Keepalives\<close>

fun rand_list :: "nat \<Rightarrow> net \<Rightarrow> byte list \<times> net" where
  "rand_list 0 nt = ([], nt)"
| "rand_list (Suc n) nt =
     (let (r, nt) = c_rand nt; (bs, nt) = rand_list n nt in (word_of_nat r # bs, nt))"

definition softether_send_keepalive_sock ::
  "softether_connection \<Rightarrow> nat option \<Rightarrow> int \<Rightarrow> net \<Rightarrow> (int \<times> net) option" where
  "softether_send_keepalive_sock c ssl fd nt =
     (if ssl = None \<or> cn_state c \<noteq> STATE_CONNECTED then Some (-1, nt)
      else let (r, nt) = c_rand nt; ka_size = r mod 64; (body, nt) = rand_list ka_size nt in
           do { ka_buf \<leftarrow> mem_write (replicate 136 0) 0 (be32 KEEP_ALIVE_MAGIC @ be32 (word_of_nat ka_size) @ body);
                (ret, nt) \<leftarrow> data_write_all_sock c ssl fd (take (8 + ka_size) ka_buf) nt;
                Some (if ret \<noteq> 0 then (-1, nt) else (8 + int ka_size, nt)) })"

definition softether_send_keepalive :: "softether_connection \<Rightarrow> net \<Rightarrow> (int \<times> net) option" where
  "softether_send_keepalive c nt =
     (if cn_ssl c = None then Some (-1, nt)
      else softether_send_keepalive_sock c (cn_ssl c) (cn_socket_fd c) nt)"

definition keepalive_interval :: "u32 \<Rightarrow> u32" where
  "keepalive_interval server_timeout =
     (let timeout = (if server_timeout \<noteq> 0 then server_timeout else 30000);
          interval = timeout div 3;
          interval = (if interval < 2000 then 2000 else interval)
      in if 12000 < interval then 12000 else interval)"

fun keepalive_slots :: "softether_connection \<Rightarrow> softether_tcp_sock list \<Rightarrow> net \<Rightarrow> net option" where
  "keepalive_slots c [] nt = Some nt"
| "keepalive_slots c (ts # tss) nt =
     (if \<not> slot_sends ts \<or> ts_ssl ts = None \<or> ts_socket_fd ts < 0 then keepalive_slots c tss nt
      else do { (_, nt) \<leftarrow> softether_send_keepalive_sock c (ts_ssl ts) (ts_socket_fd ts) nt;
                keepalive_slots c tss nt })"

definition softether_send_keepalive_all ::
  "softether_connection \<Rightarrow> net \<Rightarrow> (int \<times> softether_connection \<times> net) option" where
  "softether_send_keepalive_all c nt =
     (if cn_ssl c = None \<or> cn_state c \<noteq> STATE_CONNECTED then Some (-1, c, nt)
      else let (now, nt) = softether_tick_ms nt in
           if cn_next_tcp_keepalive_time c = 0 then Some (0, c\<lparr>cn_next_tcp_keepalive_time := now\<rparr>, nt)
           else if now < cn_next_tcp_keepalive_time c then Some (0, c, nt)
           else do { let c = c\<lparr>cn_next_tcp_keepalive_time := now + ucast (keepalive_interval (cn_server_timeout c))\<rparr>;
                     nt \<leftarrow> (if primary_sends c
                            then map_option snd (softether_send_keepalive_sock c (cn_ssl c) (cn_socket_fd c) nt)
                            else Some nt);
                     nt \<leftarrow> keepalive_slots c (cn_additional c) nt;
                     Some (0, c, nt) })"

section \<open>Sending one packet\<close>

text \<open>\<open>zbound\<close> is zlib's \<open>compressBound\<close>.\<close>

definition session_compress ::
  "rudp_lib \<Rightarrow> (u32 \<Rightarrow> u32) \<Rightarrow> softether_connection \<Rightarrow> byte list option \<Rightarrow> u32 \<Rightarrow> net \<Rightarrow> (byte list option \<times> u32) \<times> net" where
  "session_compress L zbound c payload payload_len nt =
     (if cn_server_use_compress c \<and> 1 < payload_len
      then let (mem, nt) = net_malloc nt in
           if \<not> mem then ((payload, payload_len), nt)
           else (case compress_data (lb_compress L) (map_option (take (unat payload_len)) payload)
                        (Some (unat (zbound payload_len))) of
                   ZOk z \<Rightarrow> ((Some z, word_of_nat (length z)), nt)
                 | ZErr e \<Rightarrow> ((payload, payload_len), nt))
      else ((payload, payload_len), nt))"

definition softether_send_packet ::
  "rudp_lib \<Rightarrow> (u32 \<Rightarrow> u32) \<Rightarrow> softether_connection \<Rightarrow> u16 \<Rightarrow> byte list option \<Rightarrow> u32 \<Rightarrow> net \<Rightarrow>
     (int \<times> softether_connection \<times> net) option" where
  "softether_send_packet L zbound c command payload payload_len nt =
     (if \<not> conn_going c then Some (-1, c, nt)
      else if command = CMD_KEEPALIVE \<or> command = CMD_KEEPALIVE_ACK
      then do { (ret, nt) \<leftarrow> softether_send_keepalive c nt; Some (ret, c, nt) }
      else let nt = net_ev (Lock L_write) nt in
      if cn_state c = STATE_DISCONNECTING \<or> cn_ssl c = None then Some (-1, c, net_ev (Unlock L_write) nt)
      else let ((send_payload, send_len), nt) = session_compress L zbound c payload payload_len nt;
               total_size = 4 + 4 + send_len in
      case cn_send_block c of
        None \<Rightarrow> Some (-1, c, net_ev (Unlock L_write) nt)
      | Some buf \<Rightarrow>
          if cn_send_block_cap c < total_size then Some (-1, c, net_ev (Unlock L_write) nt)
          else do {
            buf \<leftarrow> mem_write buf 0 (be32 1 @ be32 send_len);
            buf \<leftarrow> (case send_payload of
                      None \<Rightarrow> Some buf
                    | Some p \<Rightarrow> if 0 < send_len then do { d \<leftarrow> mem_read p 0 (unat send_len); mem_write buf 8 d }
                                else Some buf);
            let c = c\<lparr>cn_send_block := Some buf\<rparr>;
            (k, c) \<leftarrow> softether_select_send_socket c;
            let ts = cn_additional c ! (k - 1);
            if 0 < k \<and> (\<not> ts_active ts \<or> ts_ssl ts = None)
            then Some (-1, c, net_ev (Unlock L_write) nt)
            else do { bs \<leftarrow> write_arg buf total_size;
                      (ret, nt) \<leftarrow> (if 0 < k then data_write_all_sock c (ts_ssl ts) (ts_socket_fd ts) bs nt
                                   else data_write_all c bs nt);
                      Some (if ret \<noteq> 0 then -1 else sint total_size, c, net_ev (Unlock L_write) nt) } })"

section \<open>Receiving one packet\<close>

text \<open>
  A block of a compressed session: raw zlib, zlib after the compression signature, or as it is. What a
  failed decompression leaves in the destination is overwritten or never read.
\<close>

definition unpack_block :: "rudp_lib \<Rightarrow> nat \<Rightarrow> byte list \<Rightarrow> byte list" where
  "unpack_block L cap blk =
     (case uncompress_data (lb_uncompress L) (Some blk) (Some cap) of
        ZOk d \<Rightarrow> d
      | ZErr _ \<Rightarrow>
          if 8 < length blk \<and> rd64 blk = COMPRESS_MAGIC
          then (case uncompress_data (lb_uncompress L) (Some (drop 8 blk)) (Some cap) of ZOk d \<Rightarrow> d | ZErr _ \<Rightarrow> blk)
          else blk)"

text \<open>Reading past a block in chunks of at most 2048 bytes.\<close>

function skip_block :: "(nat \<Rightarrow> net \<Rightarrow> (int \<times> byte list \<times> net) option) \<Rightarrow> nat \<Rightarrow> net \<Rightarrow> (int \<times> net) option" where
  "skip_block rd remaining nt =
     (if remaining = 0 then Some (0, nt)
      else case rd (min remaining 2048) nt of
        None \<Rightarrow> None
      | Some (ret, _, nt) \<Rightarrow> if ret \<noteq> 0 then Some (-1, nt) else skip_block rd (remaining - min remaining 2048) nt)"
  by pat_completeness auto
termination by (relation "measure (\<lambda>(r, n, nt). n)") auto

text \<open>What the caller sees: \<open>*command\<close>, \<open>*payload_len\<close> (if written) and the bytes stored in \<open>payload\<close>.\<close>

record packet_out =
  po_command :: "u16 option"
  po_len :: "u32 option"
  po_data :: "byte list"

definition c_add :: "int \<Rightarrow> int \<Rightarrow> int option" where
  "c_add a b = (if a + b < 2 ^ 31 \<and> - (2 ^ 31) \<le> a + b then Some (a + b) else None)"

fun receive_blocks ::
  "rudp_lib \<Rightarrow> softether_connection \<Rightarrow> nat option \<Rightarrow> bool \<Rightarrow> u32 \<Rightarrow> nat \<Rightarrow> bool \<Rightarrow> int \<Rightarrow> packet_out \<Rightarrow> net \<Rightarrow>
     (int \<times> packet_out \<times> net) option" where
  "receive_blocks L c pay plen max_payload 0 stored tot out nt =
     Some (tot, out\<lparr>po_command := Some CMD_DATA\<rparr>, nt)"
| "receive_blocks L c pay plen max_payload (Suc n) stored tot out nt =
     do { (sz, nt) \<leftarrow> read_uint32 c nt;
          case sz of
            None \<Rightarrow> Some (-1, out, nt)
          | Some block_size \<Rightarrow>
              do { tot \<leftarrow> c_add tot 4;
                   if MAX_BLOCK_SIZE < block_size then Some (-1, out, nt)
                   else if \<not> stored \<and> pay \<noteq> None \<and> plen \<and> block_size \<le> max_payload
                   then (if block_size = 0
                         then receive_blocks L c pay plen max_payload n True tot (out\<lparr>po_len := Some 0\<rparr>) nt
                         else let (mem, nt) = net_malloc nt in
                              if \<not> mem then Some (-1, out, nt)
                              else do { (ret, blk, nt) \<leftarrow> data_read_all c (unat block_size) nt;
                                        if ret \<noteq> 0 then Some (-1, out, nt)
                                        else do { let d = (if cn_server_use_compress c
                                                           then unpack_block L (unat max_payload) blk else blk);
                                                  _ \<leftarrow> (if the pay < length d then None else Some ());
                                                  tot \<leftarrow> c_add tot (sint block_size);
                                                  receive_blocks L c pay plen max_payload n True tot
                                                    (out\<lparr>po_len := Some (word_of_nat (length d)), po_data := d\<rparr>) nt } })
                   else do { (ret, nt) \<leftarrow> skip_block (data_read_all c) (unat block_size) nt;
                             if ret \<noteq> 0 then Some (-1, out, nt)
                             else do { tot \<leftarrow> c_add tot (sint block_size);
                                       receive_blocks L c pay plen max_payload n stored tot out nt } } } }"

text \<open>
  \<open>pay\<close> is the size of the buffer behind \<open>payload\<close> (\<open>None\<close>: NULL), \<open>plen\<close> whether \<open>payload_len\<close> is given.
\<close>

definition softether_receive_packet ::
  "rudp_lib \<Rightarrow> softether_connection \<Rightarrow> nat option \<Rightarrow> bool \<Rightarrow> u32 \<Rightarrow> packet_out \<Rightarrow> net \<Rightarrow>
     (int \<times> packet_out \<times> net) option" where
  "softether_receive_packet L c pay plen max_payload out nt =
     (if cn_ssl c = None \<or> cn_socket_fd c < 0 \<or> \<not> conn_going c then Some (-1, out, nt)
      else do {
        (cnt, nt) \<leftarrow> read_uint32 c nt;
        case cnt of
          None \<Rightarrow> Some (-1, out, nt)
        | Some block_count \<Rightarrow>
            if block_count = KEEP_ALIVE_MAGIC
            then do { (sz, nt) \<leftarrow> read_uint32 c nt;
                      case sz of
                        None \<Rightarrow> Some (-1, out, nt)
                      | Some ka_size \<Rightarrow>
                          do { let ka_size = (if 512 < ka_size then 512 else ka_size);
                               (ret, _, nt) \<leftarrow> (if 0 < ka_size then data_read_all c (unat ka_size) nt else Some (0, [], nt));
                               if ret \<noteq> 0 then Some (-1, out, nt)
                               else Some (8 + int (unat ka_size),
                                      out\<lparr>po_command := Some CMD_KEEPALIVE,
                                          po_len := (if plen then Some 0 else po_len out)\<rparr>, nt) } }
            else if block_count = 0
            then Some (4, out\<lparr>po_command := Some CMD_DATA, po_len := (if plen then Some 0 else po_len out)\<rparr>, nt)
            else receive_blocks L c pay plen max_payload (unat block_count) False 4 out nt })"

definition softether_process_keepalive :: "rudp_lib \<Rightarrow> softether_connection \<Rightarrow> net \<Rightarrow> (int \<times> net) option" where
  "softether_process_keepalive L c nt =
     do { (result, out, nt) \<leftarrow> softether_receive_packet L c (Some 256) True 256
            \<lparr>po_command = None, po_len = Some 0, po_data = []\<rparr> nt;
          if result < 0 then Some (-1, nt)
          else if po_command out = Some CMD_KEEPALIVE
          then do { (_, nt) \<leftarrow> softether_send_keepalive c nt; Some (0, nt) }
          else Some (0, nt) }"

section \<open>The receive queue\<close>

fun drain_loop :: "nat \<Rightarrow> softether_connection \<Rightarrow> rudp_context \<Rightarrow> net \<Rightarrow>
    (nat \<times> softether_connection \<times> rudp_context \<times> net) option" where
  "drain_loop 0 c ru nt = Some (0, c, ru, nt)"
| "drain_loop (Suc n) c ru nt =
     (if \<not> fr_count (cn_recv_queue c) < RECV_QUEUE_SIZE then Some (0, c, ru, nt)
      else do { (r, rudp_len, d, ru, nt) \<leftarrow> rudp_recv 0 MAX_QUEUED_FRAME ru nt;
                if r \<le> 0 \<or> rudp_len = 0 then Some (0, c, ru, nt)
                else do { q \<leftarrow> slot_store (take (min rudp_len MAX_QUEUED_FRAME) d) (cn_recv_queue c);
                          q \<leftarrow> slot_commit RECV_QUEUE_SIZE (word_of_nat (min rudp_len MAX_QUEUED_FRAME)) q;
                          (moved, c, ru, nt) \<leftarrow> drain_loop n (c\<lparr>cn_recv_queue := q\<rparr>) ru nt;
                          Some (moved + 1, c, ru, nt) } })"

definition drain_rudp_into_recv_queue ::
  "rudp_lib \<Rightarrow> nat \<Rightarrow> softether_connection \<Rightarrow> net \<Rightarrow> (nat \<times> softether_connection \<times> net) option" where
  "drain_rudp_into_recv_queue L max_frames c nt =
     (case cn_rudp c of
        None \<Rightarrow> Some (0, c, nt)
      | Some ru \<Rightarrow>
          if \<not> cn_rudp_enabled c then Some (0, c, nt)
          else do { (ru, nt) \<leftarrow> rudp_poll L ru nt;
                    (moved, c, ru, nt) \<leftarrow> drain_loop max_frames c ru nt;
                    Some (moved, c\<lparr>cn_rudp := Some ru\<rparr>, nt) })"

text \<open>The captured link of a poll entry: \<open>ti_additional_idx\<close> is -1 for the primary.\<close>

record tcp_sock_info =
  ti_ssl :: "nat option"
  ti_fd :: int
  ti_is_additional :: bool
  ti_additional_idx :: int

definition slot_info :: "softether_connection \<Rightarrow> nat \<Rightarrow> tcp_sock_info" where
  "slot_info c i = \<lparr>ti_ssl = ts_ssl (cn_additional c ! i), ti_fd = ts_socket_fd (cn_additional c ! i),
     ti_is_additional = True, ti_additional_idx = int i\<rparr>"

definition slot_receives :: "softether_tcp_sock \<Rightarrow> bool" where
  "slot_receives ts \<longleftrightarrow> ts_active ts \<and> 0 \<le> ts_socket_fd ts \<and> can_receive (ts_direction ts) \<and> ts_ssl ts \<noteq> None"

definition tcp_infos :: "softether_connection \<Rightarrow> tcp_sock_info list" where
  "tcp_infos c =
     (if 0 \<le> cn_socket_fd c \<and> can_receive (cn_primary_direction c)
      then [\<lparr>ti_ssl = cn_ssl c, ti_fd = cn_socket_fd c, ti_is_additional = False, ti_additional_idx = -1\<rparr>] else []) @
     map (slot_info c) (filter (\<lambda>i. slot_receives (cn_additional c ! i)) [0..<MAX_SE_CONNECTIONS])"

fun find_pending :: "softether_connection \<Rightarrow> tcp_sock_info list \<Rightarrow> net \<Rightarrow> (tcp_sock_info option \<times> net) option" where
  "find_pending c [] nt = Some (None, nt)"
| "find_pending c (t # ts) nt =
     (if \<not> cn_use_ssl_data c then Some (None, nt)
      else do { let nt = net_ev (Lock (L_io (ti_additional_idx t))) nt;
                (pending, nt) \<leftarrow> (if link_io_live c (ti_additional_idx t) (ti_ssl t) (ti_fd t)
                                  then ssl_has_pending (ti_ssl t) nt else Some (False, nt));
                let nt = net_ev (Unlock (L_io (ti_additional_idx t))) nt;
                if pending then Some (Some t, nt) else find_pending c ts nt })"

text \<open>The answers of \<open>poll\<close> for the listed descriptors: is there an error the whole call reports?\<close>

fun poll_failed :: "(int \<Rightarrow> bool \<times> bool \<times> bool) \<Rightarrow> tcp_sock_info list \<Rightarrow> int list \<Rightarrow> bool" where
  "poll_failed f infos [] = False"
| "poll_failed f infos (fd # fds) =
     (let (pin, perr, pnval) = f fd in
      if pnval then True
      else if perr \<and> \<not> pin \<and> \<not> list_ex (\<lambda>t. ti_fd t = fd \<and> ti_is_additional t) infos then True
      else poll_failed f infos fds)"

fun drain_ready :: "rudp_lib \<Rightarrow> (int \<Rightarrow> bool \<times> bool \<times> bool) \<Rightarrow> int \<Rightarrow> int list \<Rightarrow> softether_connection \<Rightarrow> net \<Rightarrow>
    (bool \<times> softether_connection \<times> net) option" where
  "drain_ready L f udp_fd [] c nt = Some (False, c, nt)"
| "drain_ready L f udp_fd (fd # fds) c nt =
     (if fd = udp_fd \<and> fst (f fd)
      then do { (moved, c, nt) \<leftarrow> drain_rudp_into_recv_queue L RECV_QUEUE_SIZE c nt;
                if 0 < moved then Some (True, c, nt) else drain_ready L f udp_fd fds c nt }
      else drain_ready L f udp_fd fds c nt)"

text \<open>\<open>CLOSE_FAILED_ADDITIONAL_SOCKET\<close>: the link is not compared with the one that was read.\<close>

definition close_failed_additional ::
  "tcp_sock_info \<Rightarrow> softether_connection \<Rightarrow> net \<Rightarrow> (int \<times> softether_connection \<times> net) option" where
  "close_failed_additional sel c nt =
     (if ti_is_additional sel \<and> 0 \<le> ti_additional_idx sel
      then do { (c, nt) \<leftarrow> retire_socket (nat (ti_additional_idx sel)) c (net_ev (Lock (L_io (ti_additional_idx sel))) nt);
                Some (0, c\<lparr>cn_num_additional := cn_num_additional c - 1\<rparr>,
                      net_ev (Unlock (L_io (ti_additional_idx sel))) nt) }
      else Some (-1, c, nt))"

text \<open>One block into the free slot. The result \<open>None\<close> says that the loop goes on, \<open>Some r\<close> that it returns \<open>r\<close>.\<close>

definition fill_slot :: "rudp_lib \<Rightarrow> tcp_sock_info \<Rightarrow> u32 \<Rightarrow> softether_connection \<Rightarrow> net \<Rightarrow>
    (int option \<times> softether_connection \<times> net) option" where
  "fill_slot L sel block_size c nt =
     (if \<not> cn_server_use_compress c
      then do { (ret, bs, nt) \<leftarrow> data_read_all_sock c (ti_ssl sel) (ti_fd sel) (unat block_size) nt;
                q \<leftarrow> slot_store bs (cn_recv_queue c);
                let c = c\<lparr>cn_recv_queue := q\<rparr>;
                if ret \<noteq> 0
                then do { (r, c, nt) \<leftarrow> close_failed_additional sel c nt; Some (Some r, c, nt) }
                else do { q \<leftarrow> slot_commit RECV_QUEUE_SIZE block_size q;
                          Some (None, c\<lparr>cn_recv_queue := q\<rparr>, nt) } }
      else let (mem, nt) = net_malloc nt in
           if \<not> mem then Some (Some (-1), c, nt)
           else do { (ret, blk, nt) \<leftarrow> data_read_all_sock c (ti_ssl sel) (ti_fd sel) (unat block_size) nt;
                     if ret \<noteq> 0
                     then do { (r, c, nt) \<leftarrow> close_failed_additional sel c nt; Some (Some r, c, nt) }
                     else do { let d = unpack_block L MAX_QUEUED_FRAME blk;
                               q \<leftarrow> slot_store d (cn_recv_queue c);
                               q \<leftarrow> slot_commit RECV_QUEUE_SIZE (word_of_nat (length d)) q;
                               Some (None, c\<lparr>cn_recv_queue := q\<rparr>, nt) } })"

fun fill_blocks :: "rudp_lib \<Rightarrow> tcp_sock_info \<Rightarrow> nat \<Rightarrow> softether_connection \<Rightarrow> net \<Rightarrow>
    (int option \<times> softether_connection \<times> net) option" where
  "fill_blocks L sel 0 c nt = Some (None, c, nt)"
| "fill_blocks L sel (Suc n) c nt =
     do { (sz, nt) \<leftarrow> read_uint32_sock c (ti_ssl sel) (ti_fd sel) nt;
          case sz of
            None \<Rightarrow> do { (r, c, nt) \<leftarrow> close_failed_additional sel c nt; Some (Some r, c, nt) }
          | Some block_size \<Rightarrow>
              if MAX_BLOCK_SIZE < block_size then Some (Some (-1), c, nt)
              else if block_size = 0 then fill_blocks L sel n c nt
              else if unat block_size \<le> MAX_QUEUED_FRAME \<and> fr_count (cn_recv_queue c) < RECV_QUEUE_SIZE
              then do { (r, c, nt) \<leftarrow> fill_slot L sel block_size c nt;
                        case r of None \<Rightarrow> fill_blocks L sel n c nt | Some r \<Rightarrow> Some (Some r, c, nt) }
              else do { (ret, nt) \<leftarrow> skip_block (data_read_all_sock c (ti_ssl sel) (ti_fd sel)) (unat block_size) nt;
                        if ret \<noteq> 0
                        then do { (r, c, nt) \<leftarrow> close_failed_additional sel c nt; Some (Some r, c, nt) }
                        else fill_blocks L sel n (c\<lparr>cn_rx_skipped_blocks := cn_rx_skipped_blocks c + 1\<rparr>) nt } }"

text \<open>One message from the selected link.\<close>

definition read_message :: "rudp_lib \<Rightarrow> tcp_sock_info \<Rightarrow> softether_connection \<Rightarrow> net \<Rightarrow>
    (int \<times> softether_connection \<times> net) option" where
  "read_message L sel c nt =
     do { (cnt, nt) \<leftarrow> read_uint32_sock c (ti_ssl sel) (ti_fd sel) nt;
          case cnt of
            None \<Rightarrow> close_failed_additional sel c nt
          | Some block_count \<Rightarrow>
              if block_count = KEEP_ALIVE_MAGIC
              then do { (sz, nt) \<leftarrow> read_uint32_sock c (ti_ssl sel) (ti_fd sel) nt;
                        case sz of
                          None \<Rightarrow> close_failed_additional sel c nt
                        | Some ka_size \<Rightarrow>
                            do { let ka_size = (if 512 < ka_size then 512 else ka_size);
                                 (ret, _, nt) \<leftarrow> (if 0 < ka_size
                                   then data_read_all_sock c (ti_ssl sel) (ti_fd sel) (unat ka_size) nt
                                   else Some (0, [], nt));
                                 if ret \<noteq> 0 then close_failed_additional sel c nt
                                 else do { (_, nt) \<leftarrow> softether_send_keepalive c nt; Some (0, c, nt) } } }
              else if block_count = 0 then Some (0, c, nt)
              else do { (r, c, nt) \<leftarrow> fill_blocks L sel (unat block_count) c nt;
                        case r of
                          Some r \<Rightarrow> Some (r, c, nt)
                        | None \<Rightarrow> Some (if 0 < fr_count (cn_recv_queue c) then 1 else 0, c, nt) } }"

definition read_selected :: "rudp_lib \<Rightarrow> tcp_sock_info \<Rightarrow> softether_connection \<Rightarrow> net \<Rightarrow>
    (int \<times> softether_connection \<times> net) option" where
  "read_selected L sel c nt =
     (if ti_ssl sel = None then Some (0, c, nt)
      else if \<not> ti_is_additional sel \<and> (cn_ssl c \<noteq> ti_ssl sel \<or> cn_socket_fd c \<noteq> ti_fd sel) then Some (0, c, nt)
      else if ti_is_additional sel \<and> 0 \<le> ti_additional_idx sel \<and>
              (\<not> ts_active (cn_additional c ! nat (ti_additional_idx sel)) \<or>
               ts_ssl (cn_additional c ! nat (ti_additional_idx sel)) \<noteq> ti_ssl sel) then Some (0, c, nt)
      else if cn_state c = STATE_DISCONNECTING then Some (-1, c, nt)
      else let (c, nt) =
             (if ti_is_additional sel \<and> 0 \<le> ti_additional_idx sel
              then let (t, nt) = softether_tick_ms nt; i = nat (ti_additional_idx sel)
                   in (c\<lparr>cn_additional := (cn_additional c)[i := (cn_additional c ! i)\<lparr>ts_last_recv := t\<rparr>]\<rparr>, nt)
              else (c, nt))
           in read_message L sel c nt)"

text \<open>Waiting for data: \<open>Inl r\<close> returns \<open>r\<close>, \<open>Inr t\<close> is the link to read.\<close>

definition poll_links :: "rudp_lib \<Rightarrow> int \<Rightarrow> tcp_sock_info list \<Rightarrow> softether_connection \<Rightarrow> net \<Rightarrow>
    ((int + tcp_sock_info) \<times> softether_connection \<times> net) option" where
  "poll_links L udp_fd infos c nt =
     (let (p, nt) = net_poll nt; fds = (if 0 \<le> udp_fd then [udp_fd] else []) @ map ti_fd infos in
      case p of
        Poll_timeout \<Rightarrow> Some (Inl 0, c, nt)
      | Poll_err \<Rightarrow> Some (Inl (-1), c, nt)
      | Poll_ready f \<Rightarrow>
          if cn_state c = STATE_DISCONNECTING then Some (Inl (-1), c, nt)
          else if poll_failed f infos fds then Some (Inl (-1), c, nt)
          else do { (got, c, nt) \<leftarrow> (if cn_rudp c \<noteq> None \<and> cn_rudp_enabled c \<and> 0 \<le> udp_fd
                                     then drain_ready L f udp_fd fds c nt else Some (False, c, nt));
                    if got then Some (Inl 1, c, nt)
                    else (case List.find (\<lambda>t. fst (f (ti_fd t))) infos of
                            None \<Rightarrow> Some (Inl 0, c, nt)
                          | Some t \<Rightarrow> Some (Inr t, c, nt)) })"

definition softether_fill_recv_queue_locked ::
  "rudp_lib \<Rightarrow> softether_connection \<Rightarrow> net \<Rightarrow> (int \<times> softether_connection \<times> net) option" where
  "softether_fill_recv_queue_locked L c nt =
     (if cn_ssl c = None \<or> \<not> conn_going c then Some (-1, c, nt)
      else do {
        (moved, c, nt) \<leftarrow> drain_rudp_into_recv_queue L RECV_QUEUE_SIZE c nt;
        if 0 < moved then Some (1, c, nt)
        else let (udp_fd, c, nt) =
               (case cn_rudp c of
                  None \<Rightarrow> (-1, c, nt)
                | Some ru \<Rightarrow> if cn_rudp_enabled c
                            then let (fd, ru, nt) = rudp_get_udp_fd ru nt in (fd, c\<lparr>cn_rudp := Some ru\<rparr>, nt)
                            else (-1, c, nt));
               infos = tcp_infos c in
        if udp_fd < 0 \<and> infos = [] then Some (-1, c, nt)
        else if cn_state c = STATE_DISCONNECTING then Some (-1, c, nt)
        else do {
          (pending, nt) \<leftarrow> find_pending c infos nt;
          (sel, c, nt) \<leftarrow> (case pending of
                             Some t \<Rightarrow> Some (Inr t, c, nt)
                           | None \<Rightarrow> poll_links L udp_fd infos c nt);
          case sel of Inl r \<Rightarrow> Some (r, c, nt) | Inr t \<Rightarrow> read_selected L t c nt } })"

definition softether_fill_recv_queue ::
  "rudp_lib \<Rightarrow> softether_connection \<Rightarrow> net \<Rightarrow> (int \<times> softether_connection \<times> net) option" where
  "softether_fill_recv_queue L c nt =
     do { (rc, c, nt) \<leftarrow> softether_fill_recv_queue_locked L c (net_ev (Lock L_lifetime) nt);
          Some (rc, c, net_ev (Unlock L_lifetime) nt) }"

end
