(* ===== verification/Tunnel.thy ===== *)
theory Tunnel
  imports Packet_Handler
begin

text \<open>
  The tunnel interface of \<open>softether_protocol.c\<close>: IP packets are wrapped into Ethernet frames and sent over
  UDP acceleration or the TCP links, received frames are taken from the receive queue, ARP requests are
  answered, and the additional links are kept up. A result \<open>None\<close> is undefined behaviour, as in the packet
  layer. The connection pointer is a live one: its tests against NULL have no counterpart here.
\<close>

definition ETH_HEADER_SIZE :: nat where "ETH_HEADER_SIZE = 14"
definition ETH_TYPE_IPV4 :: u16 where "ETH_TYPE_IPV4 = 0x0800"
definition ETH_TYPE_IPV6 :: u16 where "ETH_TYPE_IPV6 = 0x86DD"
definition ETH_TYPE_ARP :: u16 where "ETH_TYPE_ARP = 0x0806"

lemmas eth_consts = ETH_HEADER_SIZE_def ETH_TYPE_IPV4_def ETH_TYPE_IPV6_def ETH_TYPE_ARP_def

section \<open>Sending\<close>

text \<open>
  The attempt over UDP that \<open>softether_send_data_block\<close> and \<open>softether_send_data\<close> begin with: the length of
  the frame if it went out.
\<close>

definition try_rudp :: "rudp_lib \<Rightarrow> softether_connection \<Rightarrow> byte list \<Rightarrow> u32 \<Rightarrow> net \<Rightarrow>
    (bool \<times> softether_connection \<times> net) option" where
  "try_rudp L c frame frlen nt =
     (case cn_rudp c of
        None \<Rightarrow> Some (False, c, nt)
      | Some ru \<Rightarrow>
          if \<not> cn_rudp_enabled c then Some (False, c, nt)
          else do { (ru, nt) \<leftarrow> rudp_poll L ru nt;
                    let (ready, ru, nt) = rudp_is_send_ready (cn_session_established c) ru nt;
                    if ready
                    then do { (r, ru, nt) \<leftarrow> rudp_send L (Some frame) (unat frlen) 0 ru nt;
                              Some (0 < r, c\<lparr>cn_rudp := Some ru\<rparr>, nt) }
                    else Some (False, c\<lparr>cn_rudp := Some ru\<rparr>, nt) })"

definition softether_send_data_block ::
  "rudp_lib \<Rightarrow> softether_connection \<Rightarrow> byte list \<Rightarrow> u32 \<Rightarrow> byte list \<Rightarrow> u32 \<Rightarrow> net \<Rightarrow>
     (int \<times> softether_connection \<times> net) option" where
  "softether_send_data_block L c block block_total frame frlen nt =
     do { (sent, c, nt) \<leftarrow> try_rudp L c frame frlen nt;
          if sent then Some (sint frlen, c, nt)
          else do { (result, c, nt) \<leftarrow> softether_transmit_block_nolock c (Some block) block_total nt;
                    Some (if result \<noteq> 0 then -1 else sint frlen, c, nt) } }"

definition ether_type :: "byte \<Rightarrow> u16" where
  "ether_type b0 = (if drop_bit 4 b0 AND 0x0F = 6 then ETH_TYPE_IPV6 else ETH_TYPE_IPV4)"

definition softether_send ::
  "rudp_lib \<Rightarrow> softether_connection \<Rightarrow> byte list option \<Rightarrow> nat \<Rightarrow> net \<Rightarrow> (int \<times> softether_connection \<times> net) option" where
  "softether_send L c data len nt =
     (case data of
        None \<Rightarrow> Some (-1, c, nt)
      | Some d \<Rightarrow>
          if len = 0 then Some (-1, c, nt)
          else if cn_state c \<noteq> STATE_CONNECTED then Some (-1, c, nt)
          else case cn_send_block c of
            None \<Rightarrow> Some (-1, c, nt)
          | Some blk \<Rightarrow>
              if unat (cn_send_block_cap c - 8 - word_of_nat ETH_HEADER_SIZE) < len then Some (-1, c, nt)
              else let dst_mac = (if cn_gateway_mac_resolved c then arr 6 (cn_gateway_mac c) else replicate 6 0xFF);
                       frlen = word_of_nat ETH_HEADER_SIZE + word_of_nat len :: u32;
                       total_size = 8 + frlen;
                       nt = net_ev (Lock L_write) nt in
              if cn_state c = STATE_DISCONNECTING \<or> cn_ssl c = None then Some (-1, c, net_ev (Unlock L_write) nt)
              else do {
                blk \<leftarrow> mem_write blk 0 (be32 1 @ be32 frlen);
                blk \<leftarrow> mem_write blk 8 dst_mac;
                blk \<leftarrow> mem_write blk 14 (arr 6 (cn_client_mac c));
                b0 \<leftarrow> mem_read d 0 1;
                blk \<leftarrow> mem_write blk 20 (be16 (ether_type (hd b0)));
                ip \<leftarrow> mem_read d 0 len;
                blk \<leftarrow> mem_write blk (8 + ETH_HEADER_SIZE) ip;
                (sent, c, nt) \<leftarrow> softether_send_data_block L (c\<lparr>cn_send_block := Some blk\<rparr>) blk total_size (drop 8 blk) frlen nt;
                let nt = net_ev (Unlock L_write) nt;
                if sent < 0 then Some (-1, c, nt)
                else Some (sint (word_of_nat len :: u32),
                       c\<lparr>cn_stats_tx_packets := cn_stats_tx_packets c + 1,
                         cn_stats_tx_bytes := cn_stats_tx_bytes c + word_of_nat len\<rparr>, nt) })"

definition softether_send_data ::
  "rudp_lib \<Rightarrow> (u32 \<Rightarrow> u32) \<Rightarrow> softether_connection \<Rightarrow> byte list option \<Rightarrow> u32 \<Rightarrow> net \<Rightarrow>
     (int \<times> softether_connection \<times> net) option" where
  "softether_send_data L zb c data data_len nt =
     (case data of
        None \<Rightarrow> Some (-1, c, nt)
      | Some d \<Rightarrow>
          if cn_state c \<noteq> STATE_CONNECTED then Some (-1, c, nt)
          else do { (sent, c, nt) \<leftarrow> try_rudp L c d data_len nt;
                    if sent then Some (sint data_len, c, nt)
                    else do { (result, c, nt) \<leftarrow> softether_send_packet L zb c CMD_DATA data data_len nt;
                              Some (if result < 0 then -1 else result, c, nt) } })"

definition softether_send_raw ::
  "rudp_lib \<Rightarrow> (u32 \<Rightarrow> u32) \<Rightarrow> softether_connection \<Rightarrow> byte list option \<Rightarrow> nat \<Rightarrow> net \<Rightarrow>
     (int \<times> softether_connection \<times> net) option" where
  "softether_send_raw L zb c frame len nt =
     (if frame = None \<or> len = 0 then Some (-1, c, nt)
      else if cn_state c \<noteq> STATE_CONNECTED then Some (-1, c, nt)
      else softether_send_data L zb c frame (word_of_nat len) nt)"

section \<open>Address resolution\<close>

text \<open>An Ethernet frame with an ARP message for IPv4.\<close>

definition arp_frame :: "byte list \<Rightarrow> byte list \<Rightarrow> u16 \<Rightarrow> byte list \<Rightarrow> u32 \<Rightarrow> byte list \<Rightarrow> byte list \<Rightarrow> byte list" where
  "arp_frame dst src oper sha spa tha tpa =
     dst @ src @ [0x08, 0x06, 0x00, 0x01, 0x08, 0x00, 6, 4] @ be16 oper @ sha @ be32 spa @ tha @ tpa"

definition softether_reply_arp_request ::
  "rudp_lib \<Rightarrow> (u32 \<Rightarrow> u32) \<Rightarrow> softether_connection \<Rightarrow> byte list \<Rightarrow> net \<Rightarrow> (softether_connection \<times> net) option" where
  "softether_reply_arp_request L zb c data nt =
     (if \<not> (data ! 20 = 0 \<and> data ! 21 = 1 \<and> cn_assigned_ip c \<noteq> 0) then Some (c, nt)
      else if rd32 (drop 38 data) \<noteq> cn_assigned_ip c then Some (c, nt)
      else do { (_, c, nt) \<leftarrow> softether_send_raw L zb c
                  (Some (arp_frame (take 6 (drop 6 data)) (arr 6 (cn_client_mac c)) 2 (arr 6 (cn_client_mac c))
                     (cn_assigned_ip c) (take 6 (drop 22 data)) (take 4 (drop 28 data)))) 42 nt;
                Some (c, nt) })"

section \<open>Keeping the additional links\<close>

definition additional_interval :: "int \<Rightarrow> int" where
  "additional_interval failed = ADDITIONAL_CONNECT_INTERVAL_MS * (if failed < 8 then failed + 1 else 8)"

text \<open>Launching the background thread that opens one more link; the thread itself is \<open>softether_additional_connect\<close>.\<close>

definition launch_additional :: "softether_connection \<Rightarrow> net \<Rightarrow> softether_connection \<times> net" where
  "launch_additional c nt =
     (if cn_num_additional c < cn_max_connection c - 1 \<and> cn_additional_failed_count c < 16 \<and> \<not> cn_additional_connecting c
      then let (now, nt) = softether_tick_ms nt in
           if cn_next_connect_time c = 0 \<or> cn_next_connect_time c \<le> now
           then let (c, nt) =
                  (case List.find (\<lambda>i. \<not> ts_active (cn_additional c ! i)) [0..<MAX_SE_CONNECTIONS] of
                     None \<Rightarrow> (c, nt)
                   | Some slot \<Rightarrow>
                       let c = c\<lparr>cn_additional_connect_slot := int slot, cn_additional_connecting := True,
                                 cn_additional_connect_result := -1\<rparr>;
                           (ok, nt) = net_thread nt
                       in if ok then (c, nt)
                          else (c\<lparr>cn_additional_connecting := False, cn_additional_connect_slot := -1\<rparr>, nt))
                in (c\<lparr>cn_next_connect_time := now + word_of_int (additional_interval (cn_additional_failed_count c))\<rparr>, nt)
           else (c, nt)
      else (c, nt))"

text \<open>Closing a link whose socket reports an error.\<close>

definition reap_socket :: "nat \<Rightarrow> softether_connection \<Rightarrow> net \<Rightarrow> (softether_connection \<times> net) option" where
  "reap_socket i c nt =
     (let ts = cn_additional c ! i;
          saved_fd = ts_socket_fd ts;
          ts = ts\<lparr>ts_active := False, ts_ssl := None, ts_socket_fd := -1, ts_late_count := 0, ts_last_recv := 0\<rparr>;
          nt = (if 0 \<le> saved_fd then net_close saved_fd nt else nt);
          (doomed, slot) = take_ssl_ctx_slot (ts_ssl_ctx ts)
      in do { nt \<leftarrow> ssl_shutdown doomed nt; nt \<leftarrow> ssl_destroy doomed nt;
              Some (c\<lparr>cn_additional := (cn_additional c)[i := ts\<lparr>ts_ssl_ctx := slot\<rparr>],
                      cn_num_additional := cn_num_additional c - 1\<rparr>, nt) })"

fun reap_links :: "nat list \<Rightarrow> softether_connection \<Rightarrow> net \<Rightarrow> (softether_connection \<times> net) option" where
  "reap_links [] c nt = Some (c, nt)"
| "reap_links (i # is) c nt =
     (let ts = cn_additional c ! i in
      if \<not> ts_active ts then reap_links is c nt
      else if cn_additional_connecting c \<and> int i = cn_additional_connect_slot c then reap_links is c nt
      else let (p, nt) = net_poll nt;
               dead = (case p of Poll_ready f \<Rightarrow> (let (pin, perr, pnval) = f (ts_socket_fd ts) in perr \<or> pnval) | _ \<Rightarrow> False) in
           if \<not> dead then reap_links is c nt
           else let nt = net_ev (Lock (L_io (int i))) nt in
                if \<not> ts_active (cn_additional c ! i) \<or> ts_socket_fd (cn_additional c ! i) \<noteq> ts_socket_fd ts
                then reap_links is c (net_ev (Unlock (L_io (int i))) nt)
                else do { (c, nt) \<leftarrow> reap_socket i c nt;
                          reap_links is c (net_ev (Unlock (L_io (int i))) nt) })"

definition softether_maintain_links :: "softether_connection \<Rightarrow> net \<Rightarrow> (softether_connection \<times> net) option" where
  "softether_maintain_links c nt =
     do { (_, c, nt) \<leftarrow> softether_send_keepalive_all c nt;
          let (c, nt) = launch_additional c nt;
          reap_links [0..<MAX_SE_CONNECTIONS] c nt }"

section \<open>Receiving\<close>

definition is_arp :: "byte list \<Rightarrow> bool" where
  "is_arp d \<longleftrightarrow> 42 \<le> length d \<and> d ! 12 = 0x08 \<and> d ! 13 = 0x06"

definition is_ip_type :: "byte list \<Rightarrow> bool" where
  "is_ip_type d \<longleftrightarrow> rd16 (drop 12 d) = 0x0800 \<or> rd16 (drop 12 d) = 0x86DD"

definition pop_frame :: "softether_connection \<Rightarrow> softether_connection" where
  "pop_frame c = c\<lparr>cn_recv_queue := frame_pop RECV_QUEUE_SIZE (cn_recv_queue c)\<rparr>"

text \<open>A new message is read only when the queue is empty; the result is that of \<open>softether_fill_recv_queue\<close>.\<close>

definition fill_if_empty :: "rudp_lib \<Rightarrow> softether_connection \<Rightarrow> net \<Rightarrow> (int \<times> softether_connection \<times> net) option" where
  "fill_if_empty L c nt =
     (if fr_count (cn_recv_queue c) = 0 then softether_fill_recv_queue L c nt else Some (1, c, nt))"

definition softether_receive ::
  "rudp_lib \<Rightarrow> (u32 \<Rightarrow> u32) \<Rightarrow> softether_connection \<Rightarrow> byte list option \<Rightarrow> nat \<Rightarrow> net \<Rightarrow>
     (int \<times> byte list option \<times> softether_connection \<times> net) option" where
  "softether_receive L zb c buffer max_len nt =
     (case buffer of
        None \<Rightarrow> Some (-1, buffer, c, nt)
      | Some b \<Rightarrow>
          if max_len = 0 then Some (-1, buffer, c, nt)
          else if cn_state c \<noteq> STATE_CONNECTED then Some (-1, buffer, c, nt)
          else do {
            (c, nt) \<leftarrow> softether_maintain_links c nt;
            (rc, c, nt) \<leftarrow> fill_if_empty L c nt;
            if rc < 0 then Some (-1, buffer, c, nt)
            else if rc = 0 \<or> fr_count (cn_recv_queue c) = 0 then Some (0, buffer, c, nt)
            else do {
              d \<leftarrow> frame_get (cn_recv_queue c);
              if is_arp d
              then do { (c, nt) \<leftarrow> softether_reply_arp_request L zb c d nt; Some (0, buffer, pop_frame c, nt) }
              else if length d \<le> ETH_HEADER_SIZE then Some (0, buffer, pop_frame c, nt)
              else if \<not> is_ip_type d then Some (0, buffer, pop_frame c, nt)
              else if max_len < length d - ETH_HEADER_SIZE then Some (-1, buffer, pop_frame c, nt)
              else do { b \<leftarrow> mem_write b 0 (drop ETH_HEADER_SIZE d);
                        Some (int (length d - ETH_HEADER_SIZE), Some b, pop_frame c, nt) } } })"

text \<open>The third component is \<open>*frame_len\<close> where the function writes it.\<close>

definition softether_receive_raw ::
  "rudp_lib \<Rightarrow> softether_connection \<Rightarrow> byte list option \<Rightarrow> nat \<Rightarrow> net \<Rightarrow>
     (int \<times> byte list option \<times> u32 option \<times> softether_connection \<times> net) option" where
  "softether_receive_raw L c frame max_len nt =
     (case frame of
        None \<Rightarrow> Some (-1, frame, None, c, nt)
      | Some b \<Rightarrow>
          if cn_state c \<noteq> STATE_CONNECTED then Some (-1, frame, None, c, nt)
          else do {
            (rc, c, nt) \<leftarrow> fill_if_empty L c nt;
            if rc < 0 then Some (-1, frame, None, c, nt)
            else if rc = 0 \<or> fr_count (cn_recv_queue c) = 0 then Some (0, frame, Some 0, c, nt)
            else do {
              n \<leftarrow> frame_len (cn_recv_queue c);
              if word_of_nat max_len < n then Some (0, frame, Some 0, pop_frame c, nt)
              else do { d \<leftarrow> frame_get (cn_recv_queue c);
                        b \<leftarrow> mem_write b 0 d;
                        Some (sint n, Some b, Some n, pop_frame c, nt) } } })"

text \<open>
  The loop of \<open>softether_receive_batch\<close>. Every turn that goes on removes a frame, so as many turns as
  there are frames are enough: the first argument is the number of frames when the loop is entered.
\<close>

fun batch_loop ::
  "nat \<Rightarrow> rudp_lib \<Rightarrow> (u32 \<Rightarrow> u32) \<Rightarrow> u32 \<Rightarrow> u32 \<Rightarrow> softether_connection \<Rightarrow> byte list \<Rightarrow> u32 list \<Rightarrow> u32 \<Rightarrow> nat \<Rightarrow> net \<Rightarrow>
     (byte list \<times> u32 list \<times> u32 \<times> nat \<times> softether_connection \<times> net) option" where
  "batch_loop 0 L zb max_len max_packets c buf lengths tot cnt nt = Some (buf, lengths, tot, cnt, c, nt)"
| "batch_loop (Suc n) L zb max_len max_packets c buf lengths tot cnt nt =
     (if \<not> (cnt < unat max_packets \<and> 0 < fr_count (cn_recv_queue c)) then Some (buf, lengths, tot, cnt, c, nt)
      else do {
        d \<leftarrow> frame_get (cn_recv_queue c);
        if is_arp d
        then do { (c, nt) \<leftarrow> softether_reply_arp_request L zb c d nt;
                  batch_loop n L zb max_len max_packets (pop_frame c) buf lengths tot cnt nt }
        else if length d \<le> ETH_HEADER_SIZE \<or> \<not> is_ip_type d
        then batch_loop n L zb max_len max_packets (pop_frame c) buf lengths tot cnt nt
        else let ip_len = word_of_nat (length d - ETH_HEADER_SIZE) :: u32 in
             if max_len < tot + ip_len then Some (buf, lengths, tot, cnt, c, nt)
             else do { buf \<leftarrow> mem_write buf (unat tot) (drop ETH_HEADER_SIZE d);
                       lengths \<leftarrow> mem_write lengths cnt [ip_len];
                       batch_loop n L zb max_len max_packets (pop_frame c) buf lengths (tot + ip_len) (cnt + 1) nt } })"

text \<open>The result, the two arrays, and \<open>*out_count\<close> where the function writes it (\<open>out\<close>: the pointer is given).\<close>

definition softether_receive_batch ::
  "rudp_lib \<Rightarrow> (u32 \<Rightarrow> u32) \<Rightarrow> softether_connection \<Rightarrow> byte list option \<Rightarrow> u32 \<Rightarrow> u32 list option \<Rightarrow> u32 \<Rightarrow> bool \<Rightarrow> net \<Rightarrow>
     (int \<times> byte list option \<times> u32 list option \<times> u32 option \<times> softether_connection \<times> net) option" where
  "softether_receive_batch L zb c buffer max_len lengths max_packets out nt =
     (case buffer of
        None \<Rightarrow> Some (-1, buffer, lengths, None, c, nt)
      | Some b \<Rightarrow>
          if \<not> out then Some (-1, buffer, lengths, None, c, nt)
          else if max_len = 0 \<or> max_packets = 0 then Some (0, buffer, lengths, Some 0, c, nt)
          else case lengths of
            None \<Rightarrow> Some (0, buffer, lengths, Some 0, c, nt)
          | Some ls \<Rightarrow>
              if cn_state c \<noteq> STATE_CONNECTED then Some (-1, buffer, lengths, Some 0, c, nt)
              else do {
                (c, nt) \<leftarrow> softether_maintain_links c nt;
                (rc, c, nt) \<leftarrow> fill_if_empty L c nt;
                if rc < 0 then Some (-1, buffer, lengths, Some 0, c, nt)
                else do {
                  (b, ls, tot, cnt, c, nt) \<leftarrow>
                    batch_loop (fr_count (cn_recv_queue c)) L zb max_len max_packets c b ls 0 0 nt;
                  ls \<leftarrow> mem_write ls cnt (replicate (unat max_packets - cnt) 0);
                  let c = (if 0 < cnt
                           then c\<lparr>cn_stats_rx_packets := cn_stats_rx_packets c + word_of_nat cnt,
                                  cn_stats_rx_bytes := cn_stats_rx_bytes c + ucast tot\<rparr>
                           else c);
                  Some (sint tot, Some b, Some ls, Some (word_of_nat cnt), c, nt) } })"

section \<open>Statistics and gateway resolution\<close>

record softether_stats =
  so_tx_packets :: u64
  so_tx_bytes :: u64
  so_rx_packets :: u64
  so_rx_bytes :: u64
  so_rx_skipped_blocks :: u32
  so_rudp_overflow_count :: u64
  so_rudp_rx_packets :: u64
  so_rudp_tick_gaps :: u64
  so_rudp_data_suspended :: bool

definition softether_get_stats :: "softether_connection option \<Rightarrow> softether_stats" where
  "softether_get_stats c =
     (case c of
        None \<Rightarrow> \<lparr>so_tx_packets = 0, so_tx_bytes = 0, so_rx_packets = 0, so_rx_bytes = 0, so_rx_skipped_blocks = 0,
                 so_rudp_overflow_count = 0, so_rudp_rx_packets = 0, so_rudp_tick_gaps = 0, so_rudp_data_suspended = False\<rparr>
      | Some c \<Rightarrow> let rs = rudp_get_stats (cn_rudp c) in
          \<lparr>so_tx_packets = cn_stats_tx_packets c, so_tx_bytes = cn_stats_tx_bytes c,
           so_rx_packets = cn_stats_rx_packets c, so_rx_bytes = cn_stats_rx_bytes c,
           so_rx_skipped_blocks = cn_rx_skipped_blocks c,
           so_rudp_overflow_count = rs_recv_queue_overflow_count rs, so_rudp_rx_packets = rs_udp_rx_packets rs,
           so_rudp_tick_gaps = rs_peer_tick_gap_events rs, so_rudp_data_suspended = rs_udp_data_suspended rs\<rparr>)"

definition arp_request :: "softether_connection \<Rightarrow> u32 \<Rightarrow> byte list" where
  "arp_request c gateway_ip =
     arp_frame (replicate 6 0xFF) (arr 6 (cn_client_mac c)) 1 (arr 6 (cn_client_mac c)) (cn_assigned_ip c)
       (replicate 6 0) (be32 gateway_ip)"

definition is_arp_reply_of :: "u32 \<Rightarrow> byte list \<Rightarrow> bool" where
  "is_arp_reply_of ip frame \<longleftrightarrow>
     frame ! 12 = 0x08 \<and> frame ! 13 = 0x06 \<and> frame ! 20 = 0x00 \<and> frame ! 21 = 0x02 \<and> rd32 (drop 28 frame) = ip"

text \<open>The forty receive attempts after one request; \<open>True\<close> when the answer has come.\<close>

fun arp_wait :: "nat \<Rightarrow> rudp_lib \<Rightarrow> u32 \<Rightarrow> softether_connection \<Rightarrow> net \<Rightarrow> (bool \<times> softether_connection \<times> net) option" where
  "arp_wait 0 L gw c nt = Some (False, c, nt)"
| "arp_wait (Suc n) L gw c nt =
     do { (ret, frame, flen, c, nt) \<leftarrow> softether_receive_raw L c (Some (replicate 2048 0)) 2048 nt;
          let frlen = (case flen of None \<Rightarrow> 0 | Some l \<Rightarrow> l);
          let f = (case frame of None \<Rightarrow> [] | Some f \<Rightarrow> f);
          if 0 < ret \<and> 42 \<le> frlen \<and> is_arp_reply_of gw f
          then Some (True, c\<lparr>cn_gateway_mac := arr_of (take 6 (drop 22 f)), cn_gateway_mac_resolved := True\<rparr>, nt)
          else arp_wait n L gw c nt }"

fun arp_attempts :: "nat \<Rightarrow> rudp_lib \<Rightarrow> (u32 \<Rightarrow> u32) \<Rightarrow> u32 \<Rightarrow> byte list \<Rightarrow> softether_connection \<Rightarrow> net \<Rightarrow>
    (int \<times> softether_connection \<times> net) option" where
  "arp_attempts 0 L zb gw req c nt = Some (-1, c, nt)"
| "arp_attempts (Suc n) L zb gw req c nt =
     do { (found, c, nt) \<leftarrow> arp_wait 40 L gw c nt;
          if found then Some (0, c, nt)
          else do { (_, c, nt) \<leftarrow> softether_send_raw L zb c (Some req) 42 nt; arp_attempts n L zb gw req c nt } }"

definition softether_resolve_gateway ::
  "rudp_lib \<Rightarrow> (u32 \<Rightarrow> u32) \<Rightarrow> softether_connection \<Rightarrow> u32 \<Rightarrow> net \<Rightarrow> (int \<times> softether_connection \<times> net) option" where
  "softether_resolve_gateway L zb c gateway_ip nt =
     (if cn_state c \<noteq> STATE_CONNECTED then Some (-1, c, nt)
      else let c = c\<lparr>cn_gateway_ip := gateway_ip\<rparr>; req = arp_request c gateway_ip in
           do { (_, c, nt) \<leftarrow> softether_send_raw L zb c (Some req) 42 nt;
                arp_attempts 3 L zb gateway_ip req c nt })"

section \<open>One packet at a time\<close>

text \<open>Polling the two sockets when no datagram is queued yet, and trying once more.\<close>

definition rudp_wait :: "rudp_lib \<Rightarrow> nat \<Rightarrow> rudp_context \<Rightarrow> net \<Rightarrow> (int \<times> nat \<times> byte list \<times> rudp_context \<times> net) option" where
  "rudp_wait L max_len ru nt =
     (let (udp_fd, ru, nt) = rudp_get_udp_fd ru nt; (p, nt) = net_poll nt in
      case p of
        Poll_ready f \<Rightarrow>
          if 0 \<le> udp_fd \<and> fst (f udp_fd)
          then do { (ru, nt) \<leftarrow> rudp_poll L ru nt; rudp_recv 0 max_len ru nt }
          else Some (0, 0, [], ru, nt)
      | _ \<Rightarrow> Some (0, 0, [], ru, nt))"

definition receive_rudp :: "rudp_lib \<Rightarrow> nat \<Rightarrow> softether_connection \<Rightarrow> net \<Rightarrow>
    ((nat \<times> byte list) option \<times> softether_connection \<times> net) option" where
  "receive_rudp L max_len c nt =
     (case cn_rudp c of
        None \<Rightarrow> Some (None, c, nt)
      | Some ru \<Rightarrow>
          if \<not> cn_rudp_enabled c then Some (None, c, nt)
          else do { (ru, nt) \<leftarrow> rudp_poll L ru nt;
                    (r, len, d, ru, nt) \<leftarrow> rudp_recv 0 max_len ru nt;
                    (r, len, d, ru, nt) \<leftarrow> (if 0 < r then Some (r, len, d, ru, nt) else rudp_wait L max_len ru nt);
                    Some (if 0 < r then Some (len, d) else None, c\<lparr>cn_rudp := Some ru\<rparr>, nt) })"

text \<open>
  The result, what is stored in the buffer, \<open>*received_len\<close> and \<open>*command\<close>. \<open>payload_len\<close> starts at 0 and
  \<open>*command\<close> at what the caller left in it.
\<close>

definition softether_receive_data ::
  "rudp_lib \<Rightarrow> softether_connection \<Rightarrow> byte list option \<Rightarrow> u32 \<Rightarrow> u16 \<Rightarrow> net \<Rightarrow>
     (int \<times> byte list option \<times> u32 option \<times> u16 \<times> softether_connection \<times> net) option" where
  "softether_receive_data L c buffer max_len command nt =
     (case buffer of
        None \<Rightarrow> Some (-1, buffer, None, command, c, nt)
      | Some b \<Rightarrow>
          if cn_state c \<noteq> STATE_CONNECTED then Some (-1, buffer, None, command, c, nt)
          else do {
            (got, c, nt) \<leftarrow> receive_rudp L (unat max_len) c nt;
            case got of
              Some (len, d) \<Rightarrow> do { b \<leftarrow> mem_write b 0 d; Some (0, Some b, Some (word_of_nat len), CMD_DATA, c, nt) }
            | None \<Rightarrow>
                do { (result, out, nt) \<leftarrow> softether_receive_packet L c (Some (length b)) True max_len
                       \<lparr>po_command = Some command, po_len = Some 0, po_data = []\<rparr> nt;
                     b \<leftarrow> mem_write b 0 (po_data out);
                     let cmd = (case po_command out of None \<Rightarrow> command | Some x \<Rightarrow> x);
                     if result < 0 then Some (0, Some b, Some 0, 0, c, nt)
                     else if cmd = CMD_KEEPALIVE
                     then do { (_, nt) \<leftarrow> softether_send_keepalive c nt; Some (0, Some b, Some 0, cmd, c, nt) }
                     else Some (0, Some b, po_len out, cmd, c, nt) } })"

definition softether_check_connection :: "rudp_lib \<Rightarrow> softether_connection \<Rightarrow> net \<Rightarrow> (int \<times> net) option" where
  "softether_check_connection L c nt =
     (if cn_state c \<noteq> STATE_CONNECTED then Some (-1, nt)
      else do { (result, out, nt) \<leftarrow> softether_receive_packet L c (Some 512) True 512
                  \<lparr>po_command = None, po_len = None, po_data = []\<rparr> nt;
                Some (if result = 0 then 0 else if 0 < result then 1 else -1, nt) })"

end
