(* ===== verification/Dhcp.thy ===== *)
theory Dhcp
  imports Tunnel Inet_Checksum
begin

text \<open>
  The DHCP client (\<open>dhcp_client.c\<close>): building the DISCOVER and REQUEST frames, parsing replies, waiting for a
  reply and the exchange. A byte read outside the frame buffer is \<open>None\<close>. A frame is at most 2048 bytes, so
  positions in it are natural numbers. The byte order of the machine is little-endian.
\<close>

section \<open>Building a request\<close>

definition DHCP_MAX_FRAME :: nat where "DHCP_MAX_FRAME = 600"
definition DHCP_TIMEOUT_MS :: int where "DHCP_TIMEOUT_MS = 5000"
definition DHCP_MAX_RETRIES :: nat where "DHCP_MAX_RETRIES = 3"
definition DHCP_DISCOVER :: byte where "DHCP_DISCOVER = 1"
definition DHCP_OFFER :: int where "DHCP_OFFER = 2"
definition DHCP_REQUEST :: byte where "DHCP_REQUEST = 3"
definition DHCP_ACK :: int where "DHCP_ACK = 5"
definition DHCP_NAK :: int where "DHCP_NAK = 6"

record dhcp_result =
  dr_assigned_ip :: u32
  dr_subnet_mask :: u32
  dr_gateway :: u32
  dr_dns_server :: u32
  dr_dns_server2 :: u32
  dr_lease_time :: u32
  dr_success :: bool

definition dhcp_zero :: dhcp_result where
  "dhcp_zero = \<lparr>dr_assigned_ip = 0, dr_subnet_mask = 0, dr_gateway = 0, dr_dns_server = 0, dr_dns_server2 = 0,
     dr_lease_time = 0, dr_success = False\<rparr>"

text \<open>The sum of the 16-bit words as they lie in memory.\<close>

fun ip_sum :: "u32 \<Rightarrow> byte list \<Rightarrow> u32" where
  "ip_sum s (x # y # bs) = ip_sum (s + (ucast x OR push_bit 8 (ucast y))) bs"
| "ip_sum s [x] = s + ucast x"
| "ip_sum s [] = s"

definition ip_checksum :: "byte list \<Rightarrow> u16" where
  "ip_checksum bs = NOT (ip_fold (ip_sum 0 bs))"

definition dhcp_payload :: "byte list \<Rightarrow> u32 \<Rightarrow> byte \<Rightarrow> u32 \<Rightarrow> u32 \<Rightarrow> byte list" where
  "dhcp_payload mac xid msg_type requested_ip server_id =
     [1, 1, 6, 0] @ be32 xid @ [0, 0, 0x80, 0] @ replicate 16 0 @ mac @ replicate 202 0 @ [0x63, 0x82, 0x53, 0x63] @
     [53, 1, msg_type] @
     (if msg_type = DHCP_REQUEST
      then (if requested_ip \<noteq> 0 then [50, 4] @ be32 requested_ip else []) @
           (if server_id \<noteq> 0 then [54, 4] @ be32 server_id else [])
      else []) @
     [55, 4, 1, 3, 6, 51, 255]"

definition udp_header :: "nat \<Rightarrow> byte list" where
  "udp_header udp_len = [0, 68, 0, 67] @ be16 (word_of_nat udp_len) @ [0, 0]"

text \<open>The IP header with its checksum bytes \<open>ck\<close>.\<close>

definition ip_header :: "nat \<Rightarrow> byte \<Rightarrow> byte \<Rightarrow> byte list \<Rightarrow> byte list" where
  "ip_header ip_total_len id0 id1 ck =
     [0x45, 0] @ be16 (word_of_nat ip_total_len) @ [id0, id1, 0, 0, 128, 17] @ ck @ [0, 0, 0, 0, 255, 255, 255, 255]"

text \<open>\<open>None\<close> when the frame buffer is smaller than the code assumes.\<close>

definition build_dhcp_frame ::
  "byte list \<Rightarrow> nat \<Rightarrow> byte list \<Rightarrow> u32 \<Rightarrow> byte \<Rightarrow> u32 \<Rightarrow> u32 \<Rightarrow> net \<Rightarrow> (int \<times> byte list \<times> net) option" where
  "build_dhcp_frame frame max_len mac xid msg_type requested_ip server_id nt =
     do { frame \<leftarrow> mem_write frame 0 (replicate (min DHCP_MAX_FRAME max_len) 0);
          let dhcp = dhcp_payload mac xid msg_type requested_ip server_id;
          let udp_len = 8 + length dhcp;
          let ip_total_len = 20 + udp_len;
          let (r0, nt) = c_rand nt;
          let (r1, nt) = c_rand nt;
          let cksum = ip_checksum (ip_header ip_total_len (word_of_nat r0) (word_of_nat r1) [0, 0]);
          let total_len = ETH_HEADER_SIZE + ip_total_len;
          if max_len < total_len then Some (-1, frame, nt)
          else do { frame \<leftarrow> mem_write frame 0 (replicate 6 0xFF @ mac @ be16 ETH_TYPE_IPV4);
                    frame \<leftarrow> mem_write frame ETH_HEADER_SIZE
                      (ip_header ip_total_len (word_of_nat r0) (word_of_nat r1) (rev (be16 cksum)));
                    frame \<leftarrow> mem_write frame (ETH_HEADER_SIZE + 20) (udp_header udp_len);
                    frame \<leftarrow> mem_write frame (ETH_HEADER_SIZE + 28) dhcp;
                    Some (int total_len, frame, nt) } }"

section \<open>Parsing a reply\<close>

definition dhcp_option :: "byte \<Rightarrow> byte list \<Rightarrow> int \<times> dhcp_result \<times> u32 \<Rightarrow> int \<times> dhcp_result \<times> u32" where
  "dhcp_option opt v x =
     (case x of (t, r, sid) \<Rightarrow>
      if opt = 53 then (if 1 \<le> length v then (int (unat (v ! 0)), r, sid) else (t, r, sid))
      else if opt = 1 then (if 4 \<le> length v then (t, r\<lparr>dr_subnet_mask := rd32 v\<rparr>, sid) else (t, r, sid))
      else if opt = 3 then (if 4 \<le> length v then (t, r\<lparr>dr_gateway := rd32 v\<rparr>, sid) else (t, r, sid))
      else if opt = 6
      then (let r = (if 4 \<le> length v then r\<lparr>dr_dns_server := rd32 v\<rparr> else r);
                r = (if 8 \<le> length v then r\<lparr>dr_dns_server2 := rd32 (drop 4 v)\<rparr> else r) in (t, r, sid))
      else if opt = 51 then (if 4 \<le> length v then (t, r\<lparr>dr_lease_time := rd32 v\<rparr>, sid) else (t, r, sid))
      else if opt = 54 then (if 4 \<le> length v then (t, r, rd32 v) else (t, r, sid))
      else (t, r, sid))"

definition byte_at :: "byte list \<Rightarrow> nat \<Rightarrow> byte option" where
  "byte_at bs i = (if i < length bs then Some (bs ! i) else None)"

function dhcp_options :: "byte list \<Rightarrow> nat \<Rightarrow> nat \<Rightarrow> int \<times> dhcp_result \<times> u32 \<Rightarrow> (int \<times> dhcp_result \<times> u32) option" where
  "dhcp_options dhcp n pos x =
     (if n \<le> pos then Some x
      else do { opt \<leftarrow> byte_at dhcp pos;
                if opt = 255 then Some x
                else if opt = 0 then dhcp_options dhcp n (pos + 1) x
                else if n \<le> pos + 1 then Some x
                else do { l \<leftarrow> byte_at dhcp (pos + 1);
                          if n < pos + 2 + unat l then Some x
                          else do { v \<leftarrow> mem_read dhcp (pos + 2) (unat l);
                                    dhcp_options dhcp n (pos + 2 + unat l) (dhcp_option opt v x) } } })"
  by pat_completeness auto
termination by (relation "measure (\<lambda>(d, n, p, x). n - p)") auto

declare dhcp_options.simps [simp del]

text \<open>
  The result is the message type, 0 for a frame that is not the expected reply. The assigned address is stored
  before the magic cookie is looked at.
\<close>

definition parse_dhcp_response ::
  "byte list \<Rightarrow> u32 \<Rightarrow> u32 \<Rightarrow> byte list \<Rightarrow> dhcp_result \<Rightarrow> u32 \<Rightarrow> (int \<times> dhcp_result \<times> u32) option" where
  "parse_dhcp_response frame frlen expected_xid client_mac r sid =
     (if unat frlen < 14 + 20 + 8 + 236 + 4 then Some (0, r, sid)
      else do {
        ty \<leftarrow> mem_read frame 12 2;
        ver \<leftarrow> byte_at frame 14;
        proto \<leftarrow> byte_at frame 23;
        if rd16 ty \<noteq> ETH_TYPE_IPV4 \<or> drop_bit 4 ver \<noteq> 4 \<or> proto \<noteq> 17 then Some (0, r, sid)
        else do {
          let udp = 14 + unat (ver AND 0x0F) * 4;
          ports \<leftarrow> mem_read frame udp 4;
          if rd16 ports \<noteq> 67 \<or> rd16 (drop 2 ports) \<noteq> 68 then Some (0, r, sid)
          else do {
            let dhcp = drop (udp + 8) frame;
            let dhcp_len = unat (frlen - 14 - word_of_nat (unat (ver AND 0x0F) * 4) - 8);
            if dhcp_len < 236 + 4 then Some (0, r, sid)
            else do {
              op \<leftarrow> byte_at dhcp 0;
              xid \<leftarrow> mem_read dhcp 4 4;
              mac \<leftarrow> mem_read dhcp 28 6;
              if op \<noteq> 2 \<or> rd32 xid \<noteq> expected_xid \<or> mac \<noteq> client_mac then Some (0, r, sid)
              else do {
                yiaddr \<leftarrow> mem_read dhcp 16 4;
                let r = r\<lparr>dr_assigned_ip := rd32 yiaddr\<rparr>;
                magic \<leftarrow> mem_read dhcp 236 4;
                if rd32 magic \<noteq> 0x63825363 then Some (0, r, sid)
                else dhcp_options dhcp dhcp_len 240 (0, r, sid) } } } } })"

section \<open>The exchange\<close>

definition send_gratuitous_arp ::
  "rudp_lib \<Rightarrow> (u32 \<Rightarrow> u32) \<Rightarrow> softether_connection \<Rightarrow> u32 \<Rightarrow> net \<Rightarrow> (softether_connection \<times> net) option" where
  "send_gratuitous_arp L zb c ip nt =
     (if ip = 0 then Some (c, nt)
      else do { (_, c, nt) \<leftarrow> softether_send_raw L zb c
                  (Some (arp_frame (replicate 6 0xFF) (arr 6 (cn_client_mac c)) 1 (arr 6 (cn_client_mac c)) ip
                     (replicate 6 0) (be32 ip))) 42 nt;
                Some (c, nt) })"

text \<open>The descriptors that are polled when no frame is queued.\<close>

definition dhcp_fds :: "softether_connection \<Rightarrow> net \<Rightarrow> int list \<times> softether_connection \<times> net" where
  "dhcp_fds c nt =
     (let fds = (if can_receive (cn_primary_direction c) then [cn_socket_fd c] else []) @
                map ts_socket_fd (filter (\<lambda>ts. ts_active ts \<and> 0 \<le> ts_socket_fd ts \<and> can_receive (ts_direction ts)) (cn_additional c))
      in case cn_rudp c of
           None \<Rightarrow> (fds, c, nt)
         | Some ru \<Rightarrow>
             if \<not> cn_rudp_enabled c then (fds, c, nt)
             else let (fd, ru, nt) = rudp_get_udp_fd ru nt
                  in (fds @ (if 0 \<le> fd then [fd] else []), c\<lparr>cn_rudp := Some ru\<rparr>, nt))"

datatype dhcp_poll = Receive_now | Nothing_yet | Poll_failed

definition dhcp_ready :: "softether_connection \<Rightarrow> net \<Rightarrow> dhcp_poll \<times> softether_connection \<times> net" where
  "dhcp_ready c nt =
     (if 0 < fr_count (cn_recv_queue c) \<or> cn_socket_fd c < 0 then (Receive_now, c, nt)
      else let (fds, c, nt) = dhcp_fds c nt in
           if fds = [] then (Nothing_yet, c, nt)
           else let (p, nt) = net_poll nt in
                (case p of Poll_err \<Rightarrow> Poll_failed | Poll_timeout \<Rightarrow> Nothing_yet | Poll_ready _ \<Rightarrow> Receive_now, c, nt))"

text \<open>
  The loop, with a bound on the number of its turns: \<open>None\<close> as the message type means that it is still running. Only a
  turn without a frame counts towards the timeout, so no bound is enough against a network that keeps sending.
\<close>

fun wait_dhcp_response ::
  "nat \<Rightarrow> rudp_lib \<Rightarrow> u32 \<Rightarrow> int \<Rightarrow> int \<Rightarrow> byte list \<Rightarrow> dhcp_result \<Rightarrow> u32 \<Rightarrow> softether_connection \<Rightarrow> net \<Rightarrow>
     (int option \<times> dhcp_result \<times> u32 \<times> softether_connection \<times> net) option" where
  "wait_dhcp_response 0 L xid timeout_ms elapsed frame r sid c nt = Some (None, r, sid, c, nt)"
| "wait_dhcp_response (Suc k) L xid timeout_ms elapsed frame r sid c nt =
     (if \<not> elapsed < timeout_ms then Some (Some 0, r, sid, c, nt)
      else let (ready, c, nt) = dhcp_ready c nt in
      case ready of
        Poll_failed \<Rightarrow> Some (Some (-1), r, sid, c, nt)
      | Nothing_yet \<Rightarrow> wait_dhcp_response k L xid timeout_ms (elapsed + 100) frame r sid c nt
      | Receive_now \<Rightarrow>
          do { (ret, fr, fl, c, nt) \<leftarrow> softether_receive_raw L c (Some frame) 2048 nt;
               let frame = (case fr of None \<Rightarrow> frame | Some f \<Rightarrow> f);
               let frlen = (case fl of None \<Rightarrow> 0 | Some l \<Rightarrow> l);
               if ret < 0 then Some (Some (-1), r, sid, c, nt)
               else if frlen = 0 then wait_dhcp_response k L xid timeout_ms (elapsed + 100) frame r sid c nt
               else do { (msg_type, r, sid) \<leftarrow> parse_dhcp_response frame frlen xid (arr 6 (cn_client_mac c)) r sid;
                         if 0 < msg_type then Some (Some msg_type, r, sid, c, nt)
                         else wait_dhcp_response k L xid timeout_ms elapsed frame r sid c nt } })"

text \<open>
  One request and the wait for its reply. \<open>g\<close> is what the two frame buffers on the stack hold before they are
  written, \<open>k\<close> the bound of a wait.
\<close>

definition dhcp_ask ::
  "nat \<Rightarrow> rudp_lib \<Rightarrow> (u32 \<Rightarrow> u32) \<Rightarrow> (nat \<Rightarrow> byte) \<Rightarrow> u32 \<Rightarrow> byte \<Rightarrow> u32 \<Rightarrow> u32 \<Rightarrow> dhcp_result \<Rightarrow> u32 \<Rightarrow> softether_connection \<Rightarrow> net \<Rightarrow>
     (int option \<times> dhcp_result \<times> u32 \<times> softether_connection \<times> net) option" where
  "dhcp_ask k L zb g xid msg_type requested_ip server_id r sid c nt =
     do { (frlen, frame, nt) \<leftarrow> build_dhcp_frame (map g [0..<DHCP_MAX_FRAME]) DHCP_MAX_FRAME (arr 6 (cn_client_mac c)) xid
            msg_type requested_ip server_id nt;
          if frlen < 0 then Some (Some (-1), r, sid, c, nt)
          else do { sending \<leftarrow> mem_read frame 0 (nat frlen);
                    (sent, c, nt) \<leftarrow> softether_send_raw L zb c (Some sending) (nat frlen) nt;
                    if sent < 0 then Some (Some (-1), r, sid, c, nt)
                    else wait_dhcp_response k L xid DHCP_TIMEOUT_MS 0 (map g [0..<2048]) r sid c nt } }"

fun dhcp_attempts ::
  "nat \<Rightarrow> nat \<Rightarrow> rudp_lib \<Rightarrow> (u32 \<Rightarrow> u32) \<Rightarrow> (nat \<Rightarrow> byte) \<Rightarrow> u32 \<Rightarrow> dhcp_result \<Rightarrow> u32 \<Rightarrow> softether_connection \<Rightarrow> net \<Rightarrow>
     (int option \<times> dhcp_result \<times> softether_connection \<times> net) option" where
  "dhcp_attempts 0 k L zb g xid r sid c nt = Some (Some (-1), r, c, nt)"
| "dhcp_attempts (Suc n) k L zb g xid r sid c nt =
     (if cn_abort_connect c then Some (Some (-1), r, c, nt)
      else do {
        (offer, r, sid, c, nt) \<leftarrow> dhcp_ask k L zb g xid DHCP_DISCOVER 0 0 r sid c nt;
        case offer of
          None \<Rightarrow> Some (None, r, c, nt)
        | Some t \<Rightarrow>
            if t < 0 then Some (Some (-1), r, c, nt)
            else if t \<noteq> DHCP_OFFER then dhcp_attempts n k L zb g xid r sid c nt
            else do {
              (answer, r, sid, c, nt) \<leftarrow> dhcp_ask k L zb g xid DHCP_REQUEST (dr_assigned_ip r) sid r sid c nt;
              case answer of
                None \<Rightarrow> Some (None, r, c, nt)
              | Some t \<Rightarrow>
                  if t < 0 then Some (Some (-1), r, c, nt)
                  else if t = DHCP_ACK
                  then do { let r = r\<lparr>dr_success := True\<rparr>;
                            (c, nt) \<leftarrow> send_gratuitous_arp L zb c (dr_assigned_ip r) nt;
                            Some (Some 0, r, c, nt) }
                  else if t = DHCP_NAK then Some (Some (-1), r, c, nt)
                  else dhcp_attempts n k L zb g xid r sid c nt } })"

definition softether_do_dhcp ::
  "nat \<Rightarrow> rudp_lib \<Rightarrow> (u32 \<Rightarrow> u32) \<Rightarrow> (nat \<Rightarrow> byte) \<Rightarrow> softether_connection \<Rightarrow> dhcp_result \<Rightarrow> net \<Rightarrow>
     (int option \<times> dhcp_result \<times> softether_connection \<times> net) option" where
  "softether_do_dhcp k L zb g c result nt =
     (if cn_state c \<noteq> STATE_CONNECTED then Some (Some (-1), result, c, nt)
      else let (r1, nt) = c_rand nt; (r2, nt) = c_rand nt; xid = push_bit 16 (word_of_nat r1) XOR word_of_nat r2 :: u32
           in dhcp_attempts DHCP_MAX_RETRIES k L zb g xid dhcp_zero 0 c nt)"

end
