(* ===== verification/Link_Io.thy ===== *)
theory Link_Io
  imports Packet_Handler
begin

text \<open>
  A link as a stream of bytes. What a link will still deliver is a list of bytes (\<open>link_avail\<close>), computed
  from what is left over and the answers to come: interrupted reads are repeated, an end of file or a
  real error ends it. The locale \<open>byte_source\<close> is what a reader of messages relies on: asking for \<open>n\<close>
  bytes gives exactly the next \<open>n\<close>, however the network cut them up, and fails only if there are fewer.
  It is interpreted on the reading functions of \<open>packet_handler.c\<close>.
\<close>

section \<open>Sources of bytes\<close>

locale byte_source =
  fixes ok :: "net \<Rightarrow> bool" and avail :: "net \<Rightarrow> byte list"
    and rd :: "nat \<Rightarrow> net \<Rightarrow> (int \<times> byte list \<times> net) option"
  assumes read_ok: "ok nt \<Longrightarrow> n \<le> length (avail nt) \<Longrightarrow>
      \<exists>nt'. rd n nt = Some (0, take n (avail nt), nt') \<and> ok nt' \<and> avail nt' = drop n (avail nt) \<and>
        nt_malloc nt' = nt_malloc nt"
    and read_short: "ok nt \<Longrightarrow> length (avail nt) < n \<Longrightarrow>
      \<exists>bs nt'. rd n nt = Some (-1, bs, nt') \<and> ok nt' \<and> length bs \<le> n"
begin

lemma read_word:
  assumes "ok nt" "avail nt = be32 v @ bs"
  shows "\<exists>nt'. rd 4 nt = Some (0, be32 v, nt') \<and> ok nt' \<and> avail nt' = bs \<and> nt_malloc nt' = nt_malloc nt"
  using read_ok [OF assms(1), of 4] assms(2) by (simp add: be32_def)

lemma read_bytes:
  assumes "ok nt" "avail nt = d @ bs" "n = length d"
  shows "\<exists>nt'. rd n nt = Some (0, d, nt') \<and> ok nt' \<and> avail nt' = bs \<and> nt_malloc nt' = nt_malloc nt"
  using read_ok [OF assms(1), of n] assms(2,3) by simp

lemma skip_ok:
  "ok nt \<Longrightarrow> n \<le> length (avail nt) \<Longrightarrow>
     \<exists>nt'. skip_block rd n nt = Some (0, nt') \<and> ok nt' \<and> avail nt' = drop n (avail nt) \<and> nt_malloc nt' = nt_malloc nt"
proof (induction n arbitrary: nt rule: less_induct)
  case (less n)
  show ?case
  proof (cases "n = 0")
    case True then show ?thesis using less.prems by (subst skip_block.simps) simp
  next
    case False
    let ?k = "min n 2048"
    obtain nt1 where nt1: "rd ?k nt = Some (0, take ?k (avail nt), nt1)" "ok nt1" "avail nt1 = drop ?k (avail nt)"
      "nt_malloc nt1 = nt_malloc nt"
      using read_ok [OF less.prems(1), of ?k] less.prems(2) by (meson min.coboundedI1)
    obtain nt2 where nt2: "skip_block rd (n - ?k) nt1 = Some (0, nt2)" "ok nt2" "avail nt2 = drop (n - ?k) (avail nt1)"
      "nt_malloc nt2 = nt_malloc nt1"
    proof -
      have "n - ?k < n" using False by simp
      moreover have "n - ?k \<le> length (avail nt1)" using nt1(3) less.prems(2) by simp
      ultimately show ?thesis using less.IH [OF _ nt1(2)] that by blast
    qed
    have "skip_block rd n nt = Some (0, nt2)"
      using False nt1(1) nt2(1) by (subst skip_block.simps) simp
    then show ?thesis using nt1 nt2 by simp
  qed
qed

lemma skip_append:
  assumes "ok nt" "avail nt = d @ bs" "n = length d"
  shows "\<exists>nt'. skip_block rd n nt = Some (0, nt') \<and> ok nt' \<and> avail nt' = bs \<and> nt_malloc nt' = nt_malloc nt"
  using skip_ok [OF assms(1), of n] assms(2,3) by simp

end

section \<open>What a stream will deliver\<close>

text \<open>\<open>k\<close> is the number of attempts the current call of \<open>ssl_read\<close> has left.\<close>

fun ssl_avail :: "nat \<Rightarrow> rx_answer list \<Rightarrow> byte list" where
  "ssl_avail 0 rx = []"
| "ssl_avail (Suc k) [] = []"
| "ssl_avail (Suc k) (Rx bs # rx) = (if bs = [] then [] else bs @ ssl_avail 5 rx)"
| "ssl_avail (Suc k) (Rx_eof # rx) = []"
| "ssl_avail (Suc k) (Rx_err e n # rx) = (if ssl_retryable e n then ssl_avail k rx else [])"

fun raw_avail :: "bool \<Rightarrow> rx_answer list \<Rightarrow> byte list" where
  "raw_avail eintr [] = []"
| "raw_avail eintr (Rx bs # rx) = (if bs = [] then [] else bs @ raw_avail eintr rx)"
| "raw_avail eintr (Rx_eof # rx) = []"
| "raw_avail eintr (Rx_err e n # rx) = (if n = EAGAIN \<or> eintr \<and> n = EINTR then raw_avail eintr rx else [])"

definition stream_avail :: "(rx_answer list \<Rightarrow> byte list) \<Rightarrow> stream \<Rightarrow> byte list" where
  "stream_avail f s = st_left s @ f (st_rx s)"

section \<open>TLS\<close>

definition tls_ready :: "nat option \<Rightarrow> net \<Rightarrow> bool" where
  "tls_ready ssl nt \<longleftrightarrow> (\<exists>i s. ssl = Some i \<and> \<not> sc_freed (nt_tls nt i) \<and> sc_connected (nt_tls nt i) \<and>
     sc_ssl (nt_tls nt i) = Some s)"

definition tls_stream :: "nat option \<Rightarrow> net \<Rightarrow> stream" where
  "tls_stream ssl nt = the (sc_ssl (nt_tls nt (the ssl)))"

lemma net_ev_sel [simp]: "nt_malloc (net_ev e nt) = nt_malloc nt" "nt_tcp (net_ev e nt) = nt_tcp nt"
  "nt_tick (net_ev e nt) = nt_tick nt" "nt_poll (net_ev e nt) = nt_poll nt"
  by (simp_all add: net_ev_def)

lemma tls_set_malloc [simp]: "nt_malloc (tls_set i c nt) = nt_malloc nt" "nt_tcp (tls_set i c nt) = nt_tcp nt"
  by (simp_all add: tls_set_def)

lemma tls_ev [simp]: "tls_ready ssl (net_ev e nt) = tls_ready ssl nt" "tls_stream ssl (net_ev e nt) = tls_stream ssl nt"
  by (simp_all add: tls_ready_def tls_stream_def)

text \<open>What one call of \<open>SSL_read\<close> does to the stream.\<close>

lemma ssl_read_call_stream:
  assumes "tls_ready (Some i) nt" "stream_read len (tls_stream (Some i) nt) = (a, s)"
  shows "\<exists>nt'. ssl_read_call i len nt = (a, nt') \<and> tls_ready (Some i) nt' \<and> tls_stream (Some i) nt' = s \<and>
           nt_malloc nt' = nt_malloc nt"
  using assms by (auto simp: ssl_read_call_def Let_def tls_ready_def tls_stream_def split: option.splits)

text \<open>
  One \<open>ssl_read\<close> with \<open>k\<close> attempts left: it delivers a non-empty prefix of what the stream has, or there
  is nothing left and the result is not positive.
\<close>

definition tls_chunk :: "nat \<Rightarrow> nat \<Rightarrow> nat \<Rightarrow> net \<Rightarrow> int \<times> byte list \<times> net \<Rightarrow> bool" where
  "tls_chunk k i len nt res \<longleftrightarrow>
     (let av = stream_avail (ssl_avail k) (tls_stream (Some i) nt) in case res of (ret, bs, nt') \<Rightarrow>
      tls_ready (Some i) nt' \<and> nt_malloc nt' = nt_malloc nt \<and>
      (if av = [] then ret \<le> 0
       else ret = int (length bs) \<and> bs \<noteq> [] \<and> length bs \<le> len \<and>
            av = bs @ stream_avail (ssl_avail 5) (tls_stream (Some i) nt')))"

lemma ssl_read_loop_chunk:
  "tls_ready (Some i) nt \<Longrightarrow> 0 < len \<Longrightarrow> st_left (tls_stream (Some i) nt) = [] \<or> 0 < k \<Longrightarrow>
     (st_left (tls_stream (Some i) nt) \<noteq> [] \<longrightarrow> k = 5) \<Longrightarrow> tls_chunk k i len nt (ssl_read_loop k i len nt)"
proof (induction k arbitrary: nt)
  case 0 then show ?case by (simp add: tls_chunk_def stream_avail_def)
next
  case (Suc k)
  let ?s = "tls_stream (Some i) nt"
  obtain a s where as: "stream_read len ?s = (a, s)" by fastforce
  obtain nt1 where nt1: "ssl_read_call i len nt = (a, nt1)" "tls_ready (Some i) nt1" "tls_stream (Some i) nt1 = s"
    "nt_malloc nt1 = nt_malloc nt"
    using ssl_read_call_stream [OF Suc.prems(1) as] by blast
  consider (left) "st_left ?s \<noteq> []" | (none) "st_left ?s = []" "st_rx ?s = []"
    | (some) b rx where "st_left ?s = []" "st_rx ?s = b # rx" by (metis list.exhaust)
  then show ?case
  proof cases
    case left
    then have a: "a = Rx (take len (st_left ?s))" "s = ?s\<lparr>st_left := drop len (st_left ?s)\<rparr>"
      using as by (simp_all add: stream_read_def)
    have "Suc k = 5" using left Suc.prems by simp
    moreover have "ssl_read_loop (Suc k) i len nt = (int (length (take len (st_left ?s))), take len (st_left ?s), nt1)"
      using nt1 a by simp
    ultimately show ?thesis using left nt1 a Suc.prems by (simp add: tls_chunk_def stream_avail_def del: ssl_read_loop.simps)
  next
    case none
    then have "a = Rx_eof" using as by (simp add: stream_read_def)
    then show ?thesis using none nt1 Suc.prems by (simp add: tls_chunk_def stream_avail_def)
  next
    case some
    show ?thesis
    proof (cases b)
      case (Rx bs)
      show ?thesis
      proof (cases "bs = []")
        case True
        then have "a = Rx_eof" using some as Rx by (simp add: stream_read_def)
        then show ?thesis using True Rx some nt1 by (simp add: tls_chunk_def stream_avail_def)
      next
        case False
        then have "a = Rx (take len bs)" "s = ?s\<lparr>st_left := drop len bs, st_rx := rx\<rparr>"
          using some as Rx by (simp_all add: stream_read_def)
        then show ?thesis using False Rx some nt1 Suc.prems by (simp add: tls_chunk_def stream_avail_def)
      qed
    next
      case Rx_eof
      then show ?thesis using some as nt1 Suc.prems
        by (auto simp: stream_read_def tls_chunk_def stream_avail_def)
    next
      case (Rx_err e n)
      then have a: "a = Rx_err e n" "s = ?s\<lparr>st_rx := rx\<rparr>" using some as by (auto simp: stream_read_def)
      show ?thesis
      proof (cases "ssl_retryable e n")
        case True
        have "tls_chunk k i len (net_ev (Touch i) nt1) (ssl_read_loop k i len (net_ev (Touch i) nt1))"
          by (rule Suc.IH) (use nt1 a some Suc.prems in simp_all)
        then show ?thesis using True Rx_err a some nt1
          by (auto simp: tls_chunk_def stream_avail_def split: prod.splits)
      next
        case False
        then show ?thesis using Rx_err a some nt1 by (simp add: tls_chunk_def stream_avail_def)
      qed
    qed
  qed
qed

abbreviation tls_avail :: "nat option \<Rightarrow> net \<Rightarrow> byte list" where
  "tls_avail ssl nt \<equiv> stream_avail (ssl_avail 5) (tls_stream ssl nt)"

lemma ssl_read_chunk:
  assumes "tls_ready ssl nt" "0 < len"
  shows "\<exists>ret bs nt'. ssl_read ssl len nt = Some (ret, bs, nt') \<and> tls_ready ssl nt' \<and> nt_malloc nt' = nt_malloc nt \<and>
     (if tls_avail ssl nt = [] then ret \<le> 0
      else ret = int (length bs) \<and> bs \<noteq> [] \<and> length bs \<le> len \<and> tls_avail ssl nt = bs @ tls_avail ssl nt')"
proof -
  obtain i where i: "ssl = Some i" "\<not> sc_freed (nt_tls nt i)" "sc_connected (nt_tls nt i)" "sc_ssl (nt_tls nt i) \<noteq> None"
    using assms(1) by (auto simp: tls_ready_def)
  let ?nt = "net_ev (Touch i) (net_ev (Lock L_tls_rd) nt)"
  obtain ret bs nt1 where l: "ssl_read_loop 5 i len ?nt = (ret, bs, nt1)" by (metis prod_cases3)
  have "tls_chunk 5 i len ?nt (ret, bs, nt1)"
    unfolding l [symmetric] by (rule ssl_read_loop_chunk) (use assms i in simp_all)
  moreover have "ssl_read ssl len nt =
      Some (ret, bs, net_ev (Unlock L_tls_rd) (if ret = 0 then net_ev (Touch i) nt1 else nt1))"
    using i l by (simp add: ssl_read_def del: not_None_eq)
  ultimately show ?thesis using i(1) by (auto simp: tls_chunk_def Let_def split: if_splits)
qed

text \<open>
  The outcome of reading \<open>len\<close> bytes after \<open>acc\<close> from a source that has \<open>av\<close>, \<open>av'\<close> afterwards.
\<close>

definition got :: "nat \<Rightarrow> byte list \<Rightarrow> byte list \<Rightarrow> int \<Rightarrow> byte list \<Rightarrow> byte list \<Rightarrow> bool" where
  "got len acc av ret bs av' \<longleftrightarrow> length bs \<le> length acc + len \<and>
     (if len \<le> length av then ret = 0 \<and> bs = acc @ take len av \<and> av' = drop len av else ret = -1)"

lemma got_step:
  "got (len - length b) (acc @ b) av ret bs av' \<Longrightarrow> length b \<le> len \<Longrightarrow> got len acc (b @ av) ret bs av'"
  by (auto simp: got_def split: if_splits)

lemma ssl_read_all_ctx_ok:
  "tls_ready ssl nt \<Longrightarrow>
     \<exists>ret bs nt'. ssl_read_all_ctx ssl len acc nt = Some (ret, bs, nt') \<and> tls_ready ssl nt' \<and> nt_malloc nt' = nt_malloc nt \<and>
       got len acc (tls_avail ssl nt) ret bs (tls_avail ssl nt')"
proof (induction len arbitrary: acc nt rule: less_induct)
  case (less len)
  show ?case
  proof (cases "len = 0")
    case True then show ?thesis using less.prems by (subst ssl_read_all_ctx.simps) (simp add: got_def)
  next
    case False
    obtain ret bs nt1 where r: "ssl_read ssl len nt = Some (ret, bs, nt1)" "tls_ready ssl nt1" "nt_malloc nt1 = nt_malloc nt"
      "if tls_avail ssl nt = [] then ret \<le> 0
       else ret = int (length bs) \<and> bs \<noteq> [] \<and> length bs \<le> len \<and> tls_avail ssl nt = bs @ tls_avail ssl nt1"
      using ssl_read_chunk [OF less.prems, of len] False by blast
    show ?thesis
    proof (cases "tls_avail ssl nt = []")
      case True
      then show ?thesis using r False by (subst ssl_read_all_ctx.simps) (simp add: got_def)
    next
      case ne: False
      have *: "ssl_read_all_ctx ssl len acc nt = ssl_read_all_ctx ssl (len - length bs) (acc @ bs) nt1"
        using r ne False by (subst ssl_read_all_ctx.simps) simp
      have "len - length bs < len" using r ne False by simp
      from less.IH [OF this r(2), of "acc @ bs"] show ?thesis
        unfolding * using r ne got_step [of len bs acc] by (auto simp del: ssl_read_all_ctx.simps)
    qed
  qed
qed

section \<open>Raw sockets\<close>

lemma raw_read_loop_ok:
  "raw_read_loop eintr rx len acc = (ret, bs, left, rx') \<Longrightarrow>
     got len acc (raw_avail eintr rx) ret bs (left @ raw_avail eintr rx')"
proof (induction eintr rx len acc rule: raw_read_loop.induct)
  case (3 eintr bs' rx n acc)
  then show ?case
    by (cases "bs' = []"; cases "length bs' \<le> Suc n") (auto simp: got_def intro: got_step)
qed (auto simp: got_def split: if_splits)

definition raw_stream_avail :: "bool \<Rightarrow> int \<Rightarrow> net \<Rightarrow> byte list" where
  "raw_stream_avail eintr fd nt = stream_avail (raw_avail eintr) (nt_tcp nt fd)"

lemma raw_read_ok:
  assumes "raw_read eintr fd len nt = (ret, bs, nt')"
  shows "nt_malloc nt' = nt_malloc nt" "got len [] (raw_stream_avail eintr fd nt) ret bs (raw_stream_avail eintr fd nt')"
proof -
  let ?s = "nt_tcp nt fd"
  let ?n = "len - length (st_left ?s)"
  show "nt_malloc nt' = nt_malloc nt" using assms by (auto simp: raw_read_def Let_def split: if_splits prod.splits)
  show "got len [] (raw_stream_avail eintr fd nt) ret bs (raw_stream_avail eintr fd nt')"
  proof (cases "len \<le> length (st_left ?s)")
    case True
    then show ?thesis using assms by (auto simp: raw_read_def Let_def raw_stream_avail_def stream_avail_def got_def)
  next
    case False
    obtain left rx' where r: "raw_read_loop eintr (st_rx ?s) ?n (st_left ?s) = (ret, bs, left, rx')"
      "nt' = nt\<lparr>nt_tcp := (nt_tcp nt)(fd := ?s\<lparr>st_left := left, st_rx := rx'\<rparr>)\<rparr>"
      using assms False by (auto simp: raw_read_def Let_def split: prod.splits)
    have "got len [] (st_left ?s @ raw_avail eintr (st_rx ?s)) ret bs (left @ raw_avail eintr rx')"
      by (rule got_step) (use raw_read_loop_ok [OF r(1)] False in simp_all)
    then show ?thesis using r by (simp add: raw_stream_avail_def stream_avail_def)
  qed
qed

section \<open>The links of a connection are sources of bytes\<close>

definition link_ok :: "softether_connection \<Rightarrow> nat option \<Rightarrow> int \<Rightarrow> net \<Rightarrow> bool" where
  "link_ok c ssl fd nt \<longleftrightarrow> cn_use_ssl_data c \<longrightarrow> link_io_resolve c ssl fd \<noteq> None \<and> tls_ready ssl nt"

definition link_avail :: "softether_connection \<Rightarrow> nat option \<Rightarrow> int \<Rightarrow> net \<Rightarrow> byte list" where
  "link_avail c ssl fd nt = (if cn_use_ssl_data c then tls_avail ssl nt else raw_stream_avail True fd nt)"

lemma resolve_live: "link_io_resolve c ssl fd = Some slot \<Longrightarrow> link_io_live c slot ssl fd"
  by (auto simp: link_io_resolve_def link_io_live_def find_Some_iff split: if_splits)

lemma data_read_all_sock_ok:
  assumes "link_ok c ssl fd nt"
  shows "\<exists>ret bs nt'. data_read_all_sock c ssl fd len nt = Some (ret, bs, nt') \<and> link_ok c ssl fd nt' \<and>
     nt_malloc nt' = nt_malloc nt \<and> got len [] (link_avail c ssl fd nt) ret bs (link_avail c ssl fd nt')"
proof (cases "cn_use_ssl_data c")
  case False
  obtain ret bs nt' where r: "raw_read True fd len nt = (ret, bs, nt')" by (metis prod_cases3)
  then show ?thesis using False raw_read_ok [OF r]
    by (simp add: data_read_all_sock_def raw_read_all_fd_def link_ok_def link_avail_def)
next
  case True
  then obtain slot where slot: "link_io_resolve c ssl fd = Some slot" "tls_ready ssl nt"
    using assms by (auto simp: link_ok_def)
  let ?nt = "net_ev (Lock (L_io slot)) nt"
  obtain ret bs nt1 where r: "ssl_read_all_ctx ssl len [] ?nt = Some (ret, bs, nt1)" "tls_ready ssl nt1"
    "nt_malloc nt1 = nt_malloc nt" "got len [] (tls_avail ssl nt) ret bs (tls_avail ssl nt1)"
    using ssl_read_all_ctx_ok [of ssl ?nt len "[]"] slot(2) by (auto simp del: ssl_read_all_ctx.simps)
  have "data_read_all_sock c ssl fd len nt = Some (ret, bs, net_ev (Unlock (L_io slot)) nt1)"
    using True slot resolve_live [OF slot(1)] r(1) by (simp add: data_read_all_sock_def del: ssl_read_all_ctx.simps)
  then show ?thesis using True r slot by (simp add: link_ok_def link_avail_def)
qed

lemma byte_sourceI:
  assumes "\<And>n nt. ok nt \<Longrightarrow> \<exists>ret bs nt'. rd n nt = Some (ret, bs, nt') \<and> ok nt' \<and> nt_malloc nt' = nt_malloc nt \<and>
    got n [] (avail nt) ret bs (avail nt')"
  shows "byte_source ok avail rd"
proof
  show "\<exists>nt'. rd n nt = Some (0, take n (avail nt), nt') \<and> ok nt' \<and> avail nt' = drop n (avail nt) \<and> nt_malloc nt' = nt_malloc nt"
    if "ok nt" "n \<le> length (avail nt)" for nt n using assms [OF that(1), of n] that(2) by (auto simp: got_def)
  show "\<exists>bs nt'. rd n nt = Some (-1, bs, nt') \<and> ok nt' \<and> length bs \<le> n"
    if "ok nt" "length (avail nt) < n" for nt n using assms [OF that(1), of n] that(2) by (auto simp: got_def)
qed

interpretation link: byte_source "link_ok c ssl fd" "link_avail c ssl fd" "data_read_all_sock c ssl fd"
  for c :: softether_connection and ssl :: "nat option" and fd :: int
  by (rule byte_sourceI) (rule data_read_all_sock_ok)

text \<open>The primary link read through \<open>data_read_all\<close>, which also tests the state of the connection.\<close>

definition main_ok :: "softether_connection \<Rightarrow> net \<Rightarrow> bool" where
  "main_ok c nt \<longleftrightarrow> conn_going c \<and> (cn_use_ssl_data c \<longrightarrow> tls_ready (cn_ssl c) nt)"

definition main_avail :: "softether_connection \<Rightarrow> net \<Rightarrow> byte list" where
  "main_avail c nt = (if cn_use_ssl_data c then tls_avail (cn_ssl c) nt else raw_stream_avail False (cn_socket_fd c) nt)"

lemma data_read_all_ok:
  assumes "main_ok c nt"
  shows "\<exists>ret bs nt'. data_read_all c len nt = Some (ret, bs, nt') \<and> main_ok c nt' \<and> nt_malloc nt' = nt_malloc nt \<and>
     got len [] (main_avail c nt) ret bs (main_avail c nt')"
proof (cases "cn_use_ssl_data c")
  case False
  obtain ret bs nt' where r: "raw_read False (cn_socket_fd c) len nt = (ret, bs, nt')" by (metis prod_cases3)
  show ?thesis
  proof (cases "len = 0")
    case True
    then show ?thesis using False assms by (simp add: data_read_all_def raw_read_all_def main_ok_def got_def)
  next
    case len: False
    then show ?thesis using False r raw_read_ok [OF r] assms
      by (simp add: data_read_all_def raw_read_all_def main_ok_def main_avail_def)
  qed
next
  case True
  let ?nt = "net_ev (Lock (L_io (-1))) nt"
  have t: "tls_ready (cn_ssl c) ?nt" using True assms by (simp add: main_ok_def)
  have e: "ssl_read_all c len ?nt = ssl_read_all_ctx (cn_ssl c) len [] ?nt"
  proof (cases "len = 0")
    case True then show ?thesis by (simp add: ssl_read_all_def)
  next
    case False then show ?thesis using assms by (simp add: ssl_read_all_def main_ok_def del: ssl_read_all_ctx.simps)
  qed
  obtain ret bs nt1 where "ssl_read_all_ctx (cn_ssl c) len [] ?nt = Some (ret, bs, nt1)" "tls_ready (cn_ssl c) nt1"
    "nt_malloc nt1 = nt_malloc nt" "got len [] (tls_avail (cn_ssl c) nt) ret bs (tls_avail (cn_ssl c) nt1)"
    using ssl_read_all_ctx_ok [OF t, of len "[]"] by (auto simp del: ssl_read_all_ctx.simps)
  then show ?thesis using True e assms
    by (simp add: data_read_all_def main_ok_def main_avail_def del: ssl_read_all_ctx.simps)
qed

interpretation main: byte_source "main_ok c" "main_avail c" "data_read_all c" for c :: softether_connection
  by (rule byte_sourceI) (rule data_read_all_ok)

section \<open>Writing\<close>

text \<open>
  What a writer relies on: as long as the link accepts, everything handed over goes out, in order.
\<close>

locale byte_sink =
  fixes ok :: "net \<Rightarrow> bool" and out :: "net \<Rightarrow> byte list" and wr :: "byte list \<Rightarrow> net \<Rightarrow> (int \<times> net) option"
  assumes write_ok: "ok nt \<Longrightarrow> \<exists>nt'. wr bs nt = Some (0, nt') \<and> ok nt' \<and> out nt' = out nt @ bs \<and> nt_malloc nt' = nt_malloc nt"
begin

lemma write_list:
  "ok nt \<Longrightarrow> \<exists>nt'. foldl (\<lambda>r bs. do { (ret, nt) \<leftarrow> r; if ret = 0 then wr bs nt else Some (ret, nt) }) (Some (0, nt)) bss = Some (0, nt') \<and>
     ok nt' \<and> out nt' = out nt @ concat bss"
proof (induction bss arbitrary: nt)
  case (Cons bs bss)
  obtain nt1 where "wr bs nt = Some (0, nt1)" "ok nt1" "out nt1 = out nt @ bs" using write_ok [OF Cons.prems, of bs] by blast
  then show ?case using Cons.IH [of nt1] by auto
qed simp

end

definition accepting :: "tx_answer list \<Rightarrow> bool" where
  "accepting tx \<longleftrightarrow> list_all (\<lambda>a. case a of Tx n \<Rightarrow> 0 < n | Tx_err e \<Rightarrow> False) tx"

lemma stream_write_accepts:
  assumes "accepting (st_tx s)" "bs \<noteq> []"
  shows "\<exists>n s'. stream_write bs s = (Tx n, s') \<and> 0 < n \<and> n \<le> length bs \<and> st_out s' = st_out s @ take n bs \<and>
           accepting (st_tx s')"
proof (cases "st_tx s")
  case Nil then show ?thesis using assms by (simp add: stream_write_def)
next
  case (Cons a tx)
  then show ?thesis using assms by (cases a) (auto simp: stream_write_def accepting_def min_def)
qed

definition tls_sending :: "nat option \<Rightarrow> net \<Rightarrow> bool" where
  "tls_sending ssl nt \<longleftrightarrow> tls_ready ssl nt \<and> accepting (st_tx (tls_stream ssl nt))"

lemma ssl_write_accepts:
  assumes "tls_sending ssl nt" "bs \<noteq> []"
  shows "\<exists>n nt'. ssl_write ssl bs nt = Some (int n, nt') \<and> 0 < n \<and> n \<le> length bs \<and> tls_sending ssl nt' \<and>
     st_out (tls_stream ssl nt') = st_out (tls_stream ssl nt) @ take n bs \<and> nt_malloc nt' = nt_malloc nt"
proof -
  obtain i s where i: "ssl = Some i" "\<not> sc_freed (nt_tls nt i)" "sc_connected (nt_tls nt i)" "sc_ssl (nt_tls nt i) = Some s"
    "accepting (st_tx s)"
    using assms(1) by (auto simp: tls_sending_def tls_ready_def tls_stream_def)
  obtain n s' where "stream_write bs s = (Tx n, s')" "0 < n" "n \<le> length bs" "st_out s' = st_out s @ take n bs"
    "accepting (st_tx s')"
    using stream_write_accepts [OF i(5) assms(2)] by blast
  then show ?thesis using i
    by (simp add: ssl_write_def Let_def tls_sending_def tls_ready_def tls_stream_def)
qed

lemma ssl_write_loop_ok:
  "tls_sending ssl nt \<Longrightarrow> \<exists>nt'. ssl_write_loop ssl bs nt = Some (0, nt') \<and> tls_sending ssl nt' \<and>
     st_out (tls_stream ssl nt') = st_out (tls_stream ssl nt) @ bs \<and> nt_malloc nt' = nt_malloc nt"
proof (induction "length bs" arbitrary: bs nt rule: less_induct)
  case less
  show ?case
  proof (cases "bs = []")
    case True then show ?thesis using less.prems by (subst ssl_write_loop.simps) simp
  next
    case False
    obtain n nt1 where w: "ssl_write ssl bs nt = Some (int n, nt1)" "0 < n" "n \<le> length bs" "tls_sending ssl nt1"
      "st_out (tls_stream ssl nt1) = st_out (tls_stream ssl nt) @ take n bs" "nt_malloc nt1 = nt_malloc nt"
      using ssl_write_accepts [OF less.prems False] by blast
    have "length (drop n bs) < length bs" using w False by simp
    from less.hyps [OF this w(4)] obtain nt2 where nt2: "ssl_write_loop ssl (drop n bs) nt1 = Some (0, nt2)" "tls_sending ssl nt2"
      "st_out (tls_stream ssl nt2) = st_out (tls_stream ssl nt1) @ drop n bs" "nt_malloc nt2 = nt_malloc nt1" by blast
    have "ssl_write_loop ssl bs nt = Some (0, nt2)"
      using False w(1,2) nt2(1) by (subst ssl_write_loop.simps) (simp del: ssl_write_loop.simps)
    then show ?thesis using nt2 w by simp
  qed
qed

lemma raw_write_loop_ok:
  "accepting tx \<Longrightarrow> \<exists>tx'. raw_write_loop tx bs acc = (0, acc @ bs, tx') \<and> accepting tx'"
  by (induction tx bs acc rule: raw_write_loop.induct) (auto simp: accepting_def)

lemma raw_write_ok:
  assumes "accepting (st_tx (nt_tcp nt fd))"
  shows "\<exists>nt'. raw_write fd bs nt = (0, nt') \<and> accepting (st_tx (nt_tcp nt' fd)) \<and>
     st_out (nt_tcp nt' fd) = st_out (nt_tcp nt fd) @ bs \<and> nt_malloc nt' = nt_malloc nt"
  using raw_write_loop_ok [OF assms, of bs "[]"] by (auto simp: raw_write_def Let_def)

definition link_sends :: "softether_connection \<Rightarrow> nat option \<Rightarrow> int \<Rightarrow> net \<Rightarrow> bool" where
  "link_sends c ssl fd nt \<longleftrightarrow>
     (if cn_use_ssl_data c then link_io_resolve c ssl fd \<noteq> None \<and> tls_sending ssl nt else accepting (st_tx (nt_tcp nt fd)))"

definition link_out :: "softether_connection \<Rightarrow> nat option \<Rightarrow> int \<Rightarrow> net \<Rightarrow> byte list" where
  "link_out c ssl fd nt = (if cn_use_ssl_data c then st_out (tls_stream ssl nt) else st_out (nt_tcp nt fd))"

lemma tls_sending_ev [simp]: "tls_sending ssl (net_ev e nt) = tls_sending ssl nt"
  by (simp add: tls_sending_def)

interpretation link_tx: byte_sink "link_sends c ssl fd" "link_out c ssl fd" "data_write_all_sock c ssl fd"
  for c :: softether_connection and ssl :: "nat option" and fd :: int
proof
  fix nt bs assume ok: "link_sends c ssl fd nt"
  show "\<exists>nt'. data_write_all_sock c ssl fd bs nt = Some (0, nt') \<and> link_sends c ssl fd nt' \<and>
      link_out c ssl fd nt' = link_out c ssl fd nt @ bs \<and> nt_malloc nt' = nt_malloc nt"
  proof (cases "cn_use_ssl_data c")
    case False
    then show ?thesis using ok raw_write_ok [of nt fd bs] by (auto simp: data_write_all_sock_def link_sends_def link_out_def)
  next
    case True
    then obtain slot where slot: "link_io_resolve c ssl fd = Some slot" "tls_sending ssl nt"
      using ok by (auto simp: link_sends_def)
    then show ?thesis using True resolve_live [OF slot(1)] ssl_write_loop_ok [of ssl "net_ev (Lock (L_io slot)) nt" bs]
      by (auto simp: data_write_all_sock_def link_sends_def link_out_def simp del: ssl_write_loop.simps)
  qed
qed

definition main_sends :: "softether_connection \<Rightarrow> net \<Rightarrow> bool" where
  "main_sends c nt \<longleftrightarrow> conn_going c \<and>
     (if cn_use_ssl_data c then tls_sending (cn_ssl c) nt else accepting (st_tx (nt_tcp nt (cn_socket_fd c))))"

interpretation main_tx: byte_sink "main_sends c" "link_out c (cn_ssl c) (cn_socket_fd c)" "data_write_all c"
  for c :: softether_connection
proof
  fix nt bs assume ok: "main_sends c nt"
  show "\<exists>nt'. data_write_all c bs nt = Some (0, nt') \<and> main_sends c nt' \<and>
      link_out c (cn_ssl c) (cn_socket_fd c) nt' = link_out c (cn_ssl c) (cn_socket_fd c) nt @ bs \<and> nt_malloc nt' = nt_malloc nt"
  proof (cases "cn_use_ssl_data c")
    case False
    then show ?thesis using ok raw_write_ok [of nt "cn_socket_fd c" bs]
      by (auto simp: data_write_all_def raw_write_all_def main_sends_def link_out_def)
  next
    case True
    have "ssl_write_all c bs nt' = ssl_write_loop (cn_ssl c) bs nt'" for nt'
    proof (cases "bs = []")
      case True then show ?thesis by (simp add: ssl_write_all_def)
    next
      case False then show ?thesis using ok by (simp add: ssl_write_all_def main_sends_def del: ssl_write_loop.simps)
    qed
    then show ?thesis using True ok ssl_write_loop_ok [of "cn_ssl c" "net_ev (Lock (L_io (-1))) nt" bs]
      by (auto simp: data_write_all_def main_sends_def link_out_def simp del: ssl_write_loop.simps)
  qed
qed

end
