(* ===== verification/Rudp_Proofs.thy ===== *)
theory Rudp_Proofs
  imports Rudp
begin

text \<open>
  Correctness of UDP acceleration: the representation invariant and its preservation by every
  operation under arbitrary datagrams, the round trip of both datagram formats, the send budget
  and the suspension of the data path, and the receive queue as a bounded FIFO.
\<close>

section \<open>Assumptions on the libraries\<close>

definition lib_ok :: "rudp_lib \<Rightarrow> bool" where
  "lib_ok L \<longleftrightarrow>
     (\<forall>k iv p. length (fst (lb_seal L k iv p)) = length p \<and> length (snd (lb_seal L k iv p)) = RUDP_PACKET_MAC_SIZE_V2) \<and>
     (\<forall>cap s z. lb_compress L cap s = Some z \<longrightarrow> length z \<le> cap) \<and>
     (\<forall>cap s z. lb_uncompress L cap s = Some z \<longrightarrow> length z \<le> cap)"

definition lib_inverse :: "rudp_lib \<Rightarrow> bool" where
  "lib_inverse L \<longleftrightarrow>
     (\<forall>k iv p. lb_open L k iv (fst (lb_seal L k iv p)) (snd (lb_seal L k iv p)) = Some p) \<and>
     (\<forall>cap cap' s z. lb_compress L cap s = Some z \<longrightarrow> length s \<le> cap' \<longrightarrow>
        z \<noteq> [] \<and> lb_uncompress L cap' z = Some s)"

section \<open>The receive queue\<close>

interpretation rudpq: frame_fifo "frame_inv RUDP_RECV_QUEUE_SIZE RUDP_MAX_PAYLOAD_SIZE" frame_contents
    RUDP_RECV_QUEUE_SIZE RUDP_MAX_PAYLOAD_SIZE "frame_put RUDP_RECV_QUEUE_SIZE" frame_len frame_get
    "frame_pop RUDP_RECV_QUEUE_SIZE"
  by (rule frame_fifo_ring) (simp add: rudp_sizes)

section \<open>The invariant\<close>

definition rudp_inv :: "rudp_context \<Rightarrow> bool" where
  "rudp_inv c \<longleftrightarrow>
     frame_inv RUDP_RECV_QUEUE_SIZE RUDP_MAX_PAYLOAD_SIZE (ru_recv_queue c) \<and>
     length (ru_my_key c) = RUDP_COMMON_KEY_SIZE_V1 \<and> length (ru_your_key c) = RUDP_COMMON_KEY_SIZE_V1 \<and>
     length (ru_my_key_v2 c) = RUDP_COMMON_KEY_SIZE_V2 \<and> length (ru_your_key_v2 c) = RUDP_COMMON_KEY_SIZE_V2 \<and>
     length (ru_next_iv c) = RUDP_PACKET_IV_SIZE_V1 \<and> length (ru_next_iv_v2 c) = RUDP_PACKET_IV_SIZE_V2 \<and>
     (ru_version c = 1 \<or> ru_version c = 2 \<and> ru_v2_cipher_inited c) \<and>
     (ru_v2_cipher_inited c \<longrightarrow> ru_evp_encrypt_ctx c \<noteq> None \<and> ru_evp_decrypt_ctx c \<noteq> None) \<and>
     ru_max_udp_packet_size c \<le> RUDP_MAX_UDP_PACKET_IPV4 \<and> ru_cwin_bytes c \<le> RUDP_CWIN_MAX"

definition rudp_live :: "rudp_context \<Rightarrow> bool" where
  "rudp_live c \<longleftrightarrow> 0 < ru_refcount c \<and> \<not> ru_freed c"

text \<open>Fields the invariant does not mention.\<close>

lemma rudp_inv_frame [simp]:
  "rudp_inv (c\<lparr>ru_refcount := v0\<rparr>) = rudp_inv c"
  "rudp_inv (c\<lparr>ru_destroying := v1\<rparr>) = rudp_inv c"
  "rudp_inv (c\<lparr>ru_freed := v2\<rparr>) = rudp_inv c"
  "rudp_inv (c\<lparr>ru_udp_fd := v3\<rparr>) = rudp_inv c"
  "rudp_inv (c\<lparr>ru_is_client_mode := v4\<rparr>) = rudp_inv c"
  "rudp_inv (c\<lparr>ru_inited := v5\<rparr>) = rudp_inv c"
  "rudp_inv (c\<lparr>ru_my_cookie := v6\<rparr>) = rudp_inv c"
  "rudp_inv (c\<lparr>ru_your_cookie := v7\<rparr>) = rudp_inv c"
  "rudp_inv (c\<lparr>ru_my_port := v8\<rparr>) = rudp_inv c"
  "rudp_inv (c\<lparr>ru_peer_addr := v9\<rparr>) = rudp_inv c"
  "rudp_inv (c\<lparr>ru_peer_addr_set := v10\<rparr>) = rudp_inv c"
  "rudp_inv (c\<lparr>ru_is_ipv6 := v11\<rparr>) = rudp_inv c"
  "rudp_inv (c\<lparr>ru_now := v12\<rparr>) = rudp_inv c"
  "rudp_inv (c\<lparr>ru_last_recv_tick := v13\<rparr>) = rudp_inv c"
  "rudp_inv (c\<lparr>ru_last_recv_your_tick := v14\<rparr>) = rudp_inv c"
  "rudp_inv (c\<lparr>ru_last_recv_my_tick := v15\<rparr>) = rudp_inv c"
  "rudp_inv (c\<lparr>ru_next_send_keepalive := v16\<rparr>) = rudp_inv c"
  "rudp_inv (c\<lparr>ru_first_stable_receive_tick := v17\<rparr>) = rudp_inv c"
  "rudp_inv (c\<lparr>ru_mss := v18\<rparr>) = rudp_inv c"
  "rudp_inv (c\<lparr>ru_use_compress := v19\<rparr>) = rudp_inv c"
  "rudp_inv (c\<lparr>ru_fatal_error := v20\<rparr>) = rudp_inv c"
  "rudp_inv (c\<lparr>ru_recv_queue_overflow_count := v21\<rparr>) = rudp_inv c"
  "rudp_inv (c\<lparr>ru_udp_rx_packets := v22\<rparr>) = rudp_inv c"
  "rudp_inv (c\<lparr>ru_peer_tick_gap_events := v23\<rparr>) = rudp_inv c"
  "rudp_inv (c\<lparr>ru_last_peer_tick_seen := v24\<rparr>) = rudp_inv c"
  "rudp_inv (c\<lparr>ru_recent_overflows := v25\<rparr>) = rudp_inv c"
  "rudp_inv (c\<lparr>ru_udp_data_suspended := v26\<rparr>) = rudp_inv c"
  "rudp_inv (c\<lparr>ru_udp_data_resume_tick := v27\<rparr>) = rudp_inv c"
  "rudp_inv (c\<lparr>ru_suspension_count := v28\<rparr>) = rudp_inv c"
  "rudp_inv (c\<lparr>ru_last_loss_event_tick := v29\<rparr>) = rudp_inv c"
  "rudp_inv (c\<lparr>ru_cwin_last_refill_tick := v30\<rparr>) = rudp_inv c"
  "rudp_inv (c\<lparr>ru_cwin_inited := v31\<rparr>) = rudp_inv c"
  by (simp_all add: rudp_inv_def)

lemma rudp_inv_cwin [simp]: "rudp_inv c \<Longrightarrow> b \<le> RUDP_CWIN_MAX \<Longrightarrow> rudp_inv (c\<lparr>ru_cwin_bytes := b\<rparr>)"
  by (simp add: rudp_inv_def)

lemma rudp_inv_queue:
  "rudp_inv c \<Longrightarrow> frame_inv RUDP_RECV_QUEUE_SIZE RUDP_MAX_PAYLOAD_SIZE q \<Longrightarrow> rudp_inv (c\<lparr>ru_recv_queue := q\<rparr>)"
  by (simp add: rudp_inv_def)

lemma cwin_le: "rudp_inv c \<Longrightarrow> ru_cwin_bytes c \<le> RUDP_CWIN_MAX"
  by (simp add: rudp_inv_def)

lemma cwin_start_le [simp]: "RUDP_CWIN_START \<le> RUDP_CWIN_MAX" "RUDP_CWIN_MIN \<le> RUDP_CWIN_MAX"
  by (simp_all add: rudp_cwin_consts)

text \<open>Fields that receiving and sending leave alone.\<close>

definition rudp_id :: "rudp_context \<Rightarrow> int \<times> bool \<times> bool \<times> int \<times> bool \<times> nat \<times> u32 \<times> u32 \<times> byte list \<times> byte list" where
  "rudp_id c = (ru_refcount c, ru_destroying c, ru_freed c, ru_udp_fd c, ru_inited c, ru_version c,
     ru_my_cookie c, ru_your_cookie c, ru_my_key c, ru_your_key c)"

lemma cwin_id [simp]:
  "rudp_id (rudp_cwin_refill c) = rudp_id c" "rudp_id (rudp_cwin_on_loss c) = rudp_id c"
  "rudp_id (rudp_clean_reset c) = rudp_id c" "rudp_id (rudp_charge n c) = rudp_id c"
  by (simp_all add: rudp_id_def rudp_cwin_refill_def rudp_cwin_on_loss_def rudp_clean_reset_def rudp_charge_def Let_def)

lemma note_packet_id [simp]: "rudp_id (rudp_note_packet m y from c) = rudp_id c"
  by (simp add: rudp_note_packet_def Let_def rudp_id_def rudp_cwin_on_loss_def)

lemma is_send_ready_nolock_id [simp]: "rudp_id (snd (rudp_is_send_ready_nolock k c)) = rudp_id c"
proof -
  let ?c = "rudp_clean_reset (rudp_cwin_refill c)"
  have "rudp_id (snd (rudp_is_send_ready_nolock k c)) = rudp_id ?c"
    by (simp add: rudp_is_send_ready_nolock_def Let_def rudp_id_def)
  then show ?thesis by simp
qed

lemma cwin_refill_inv [safe_intros]: "rudp_inv c \<Longrightarrow> rudp_inv (rudp_cwin_refill c)"
  by (auto simp: rudp_cwin_refill_def Let_def intro!: rudp_inv_cwin)

lemma half_le: "(a :: u64) \<le> b \<Longrightarrow> a div 2 \<le> b"
  by (simp add: word_le_nat_alt unat_div)

lemma cwin_on_loss_inv [safe_intros]: "rudp_inv c \<Longrightarrow> rudp_inv (rudp_cwin_on_loss c)"
  by (simp add: rudp_cwin_on_loss_def Let_def half_le cwin_le)

lemma clean_reset_inv [safe_intros]: "rudp_inv c \<Longrightarrow> rudp_inv (rudp_clean_reset c)"
  by (simp add: rudp_clean_reset_def)

lemma is_send_ready_nolock_inv:
  assumes "rudp_inv c"
  shows "rudp_inv (snd (rudp_is_send_ready_nolock k c))"
  using clean_reset_inv [OF cwin_refill_inv [OF assms]]
  by (simp add: rudp_is_send_ready_nolock_def Let_def)

lemma note_packet_inv [safe_intros]: "rudp_inv c \<Longrightarrow> rudp_inv (rudp_note_packet m y from c)"
  by (simp add: rudp_note_packet_def Let_def cwin_on_loss_inv)

lemma note_packet_queue [simp]: "ru_recv_queue (rudp_note_packet m y from c) = ru_recv_queue c"
  by (simp add: rudp_note_packet_def Let_def rudp_cwin_on_loss_def)

lemma queue_block_ok:
  assumes "rudp_inv c"
  shows "\<exists>c'. rudp_queue_block d c = Some c' \<and> rudp_inv c' \<and> rudp_id c' = rudp_id c"
proof (cases "length d \<le> RUDP_MAX_PAYLOAD_SIZE \<and> fr_count (ru_recv_queue c) < RUDP_RECV_QUEUE_SIZE")
  case True
  then obtain q where "frame_put RUDP_RECV_QUEUE_SIZE d (ru_recv_queue c) = Some q"
      "frame_inv RUDP_RECV_QUEUE_SIZE RUDP_MAX_PAYLOAD_SIZE q"
    using rudpq.put_ok [of "ru_recv_queue c" d] assms by (auto simp: rudp_inv_def)
  then show ?thesis using True assms by (simp add: rudp_queue_block_def rudp_inv_queue rudp_id_def)
next
  case False
  have "rudp_id (c\<lparr>ru_recv_queue_overflow_count := a, ru_recent_overflows := b\<rparr>) = rudp_id c" for a b
    by (simp add: rudp_id_def)
  then show ?thesis using False assms by (auto simp: rudp_queue_block_def intro!: cwin_on_loss_inv)
qed

lemma process_inner_ok:
  assumes "rudp_inv c"
  shows "\<exists>r c'. rudp_process_inner L buf from v c = Some (r, c') \<and> rudp_inv c' \<and> rudp_id c' = rudp_id c"
proof (cases "rudp_parse_inner (ru_my_cookie c) v buf")
  case None
  then show ?thesis using assms by (simp add: rudp_process_inner_def)
next
  case (Some i)
  let ?c = "rudp_note_packet (in_my_tick i) (in_your_tick i) from c"
  have n: "rudp_inv ?c" by (rule note_packet_inv [OF assms])
  have "\<exists>r c'. (do { c \<leftarrow> rudp_queue_block d ?c; Some (0 :: int, c) }) = Some (r, c') \<and>
      rudp_inv c' \<and> rudp_id c' = rudp_id c" for d
    using queue_block_ok [OF n, of d] by auto
  then show ?thesis using assms n
    by (simp add: rudp_process_inner_def Some Let_def split: zresult.split)
qed

lemma handle_datagram_ok:
  assumes "rudp_inv c"
  shows "\<exists>r c'. rudp_handle_datagram L pkt from c = Some (r, c') \<and> rudp_inv c' \<and> rudp_id c' = rudp_id c"
proof -
  consider "ru_version c = 1" | key where "ru_version c = 2" "ru_evp_decrypt_ctx c = Some key"
    using assms by (auto simp: rudp_inv_def)
  then show ?thesis
  proof cases
    case 1
    then show ?thesis using process_inner_ok [OF assms] by (simp add: rudp_handle_datagram_def)
  next
    case 2
    then show ?thesis using process_inner_ok [OF assms] assms
      by (simp add: rudp_handle_datagram_def Let_def split: option.split)
  qed
qed

lemma now_id [simp]: "rudp_id (c\<lparr>ru_now := t\<rparr>) = rudp_id c"
  by (simp add: rudp_id_def)

lemma recv_loop_ok:
  "rudp_inv c \<Longrightarrow> \<exists>c' nt'. rudp_recv_loop L ds c nt = Some (c', nt') \<and> rudp_inv c' \<and> rudp_id c' = rudp_id c"
proof (induction ds arbitrary: c nt)
  case Nil then show ?case by simp
next
  case (Cons x ds)
  obtain d a where x: "x = (d, a)" by (cases x)
  let ?c = "c\<lparr>ru_now := nt_tick nt (nt_ticks nt)\<rparr>"
  obtain r c1 where "rudp_handle_datagram L (take RUDP_TMP_BUF_SIZE d) a ?c = Some (r, c1)"
      "rudp_inv c1" "rudp_id c1 = rudp_id c"
    using handle_datagram_ok [of ?c] Cons.prems by force
  then show ?case using Cons.IH [of c] Cons.IH [of c1] Cons.prems x
    by (simp add: softether_tick_ms_def Let_def)
qed

section \<open>Building datagrams\<close>

lemma padding_bound:
  assumes "rudp_padding n c nt = (pad, nt')"
  shows "unat n + length pad \<le> max (unat n) (unat (ru_max_udp_packet_size c))" "length pad \<le> 32"
    "set pad \<subseteq> {0}"
proof -
  let ?m = "ru_max_udp_packet_size c"
  define p where "p = (if RUDP_MAX_PADDING_SIZE < ?m - n then RUDP_MAX_PADDING_SIZE else ?m - n)"
  have p: "unat p \<le> 32" "n < ?m \<Longrightarrow> unat n + unat p \<le> unat ?m"
    by (auto simp: p_def RUDP_MAX_PADDING_SIZE_def word_less_nat_alt unat_sub word_le_nat_alt not_less)
  have s: "unat (p + 1) = unat p + 1" using p(1) by (simp add: unat_add32)
  have "unat (r mod (p + 1)) \<le> unat p" for r
    using mod_less_divisor [of "unat p + 1" "unat r"] s by (simp add: unat_mod)
  moreover have "pad = [] \<or> n < ?m \<and> (\<exists>r. pad = replicate (unat (r mod (p + 1))) 0)"
    using assms by (auto simp: rudp_padding_def Let_def p_def [symmetric] split: if_splits prod.splits)
  ultimately have "pad = [] \<or> n < ?m \<and> length pad \<le> unat p" "set pad \<subseteq> {0}"
    by auto
  then show "unat n + length pad \<le> max (unat n) (unat ?m)" "length pad \<le> 32" "set pad \<subseteq> {0}"
    using p by auto
qed

lemma header_length [size_simps]: "length (rudp_header c n f) = 23"
  by (simp add: rudp_header_def size_simps)

lemma payload_length:
  assumes "lib_ok L" "rudp_payload L c data f = (z, f')"
  shows "z = data \<and> f' = f \<or> length z \<le> 1856 \<and> f' = f OR RUDP_FLAG_COMPRESSED \<and>
    lb_compress L 1856 data = Some z \<and> data \<noteq> []"
  using assms
  by (auto simp: rudp_payload_def compress_data_def z_wrap_def lib_ok_def rudp_sizes
           split: if_splits zresult.splits option.splits)

text \<open>The guard on the payload keeps the whole datagram inside the buffer.\<close>

lemma build_v1_unfold:
  assumes "rudp_padding (word_of_nat (63 + length z)) c nt = (pad, nt')"
  shows "rudp_build_v1 L c z f nt =
     (if z \<noteq> [] \<and> 2020 < (43 + word_of_nat (length z) :: u32) then Some (None, nt)
      else if 2048 < 20 + length (rudp_header c (length z) f @ z @ pad @ replicate 20 0) then None
      else let body = rc4_crypt (calc_key L (ru_my_key c) (ru_next_iv c))
                        (rudp_header c (length z) f @ z @ pad @ replicate 20 0)
           in Some (Some (ru_next_iv c @ body, c\<lparr>ru_next_iv := drop (length body - 20) body\<rparr>), nt'))"
proof -
  have e: "(20 :: nat) + 4 + 8 + 8 + 2 + 1 + length z + 20 = 63 + length z"
    "word_of_nat (20 + 4 + 8 + 8 + 2 + 1) = (43 :: u32)" "word_of_nat (2048 - 20 - 8) = (2020 :: u32)" by simp_all
  show ?thesis
    unfolding rudp_build_v1_def rudp_sizes Let_def e by (simp only: assms prod.case)
qed

lemma build_v1_ok:
  assumes "rudp_inv c" "length z < 2 ^ 32 - 64"
  shows "(\<exists>nt'. rudp_build_v1 L c z f nt = Some (None, nt') \<and> 1977 < length z) \<or>
    (\<exists>pad nt' body. rudp_build_v1 L c z f nt =
        Some (Some (ru_next_iv c @ body, c\<lparr>ru_next_iv := drop (length body - 20) body\<rparr>), nt') \<and>
      body = rc4_crypt (calc_key L (ru_my_key c) (ru_next_iv c)) (rudp_header c (length z) f @ z @ pad @ replicate 20 0) \<and>
      length z \<le> 1977 \<and> length body + 20 \<le> max (63 + length z) (unat (ru_max_udp_packet_size c)))"
proof -
  obtain pad nt1 where pad: "rudp_padding (word_of_nat (63 + length z)) c nt = (pad, nt1)"
    by (cases "rudp_padding (word_of_nat (63 + length z)) c nt") 
  have n: "unat (word_of_nat (63 + length z) :: u32) = 63 + length z"
    using assms(2) by (intro unat_of_nat32) simp
  have b: "63 + length z + length pad \<le> max (63 + length z) (unat (ru_max_udp_packet_size c))"
    using padding_bound(1) [OF pad] n by simp
  have m: "unat (ru_max_udp_packet_size c) \<le> 1472"
    using assms(1) by (simp add: rudp_inv_def RUDP_MAX_UDP_PACKET_IPV4_def word_le_nat_alt)
  have g: "(2020 < (43 + word_of_nat (length z) :: u32)) = (1977 < length z)"
  proof -
    have "unat (43 + word_of_nat (length z) :: u32) = 43 + length z"
      using unat_of_nat32 [of "43 + length z"] assms(2) by simp
    then show ?thesis by (simp add: word_less_nat_alt)
  qed
  show ?thesis
  proof (cases "1977 < length z")
    case True
    then have "z \<noteq> []" by auto
    then show ?thesis using g True build_v1_unfold [OF pad, of L f] by (auto simp only: simp_thms if_True)
  next
    case False
    let ?body = "rc4_crypt (calc_key L (ru_my_key c) (ru_next_iv c)) (rudp_header c (length z) f @ z @ pad @ replicate 20 0)"
    have l: "length ?body = 43 + length z + length pad"
      by (simp add: rc4.length_crypt size_simps)
    have ng: "\<not> (2020 < (43 + word_of_nat (length z) :: u32))" using g False by (simp only: simp_thms)
    have nc: "\<not> (2048 < 20 + length (rudp_header c (length z) f @ z @ pad @ replicate 20 0))"
      using b m False by (simp add: header_length)
    have "rudp_build_v1 L c z f nt =
        Some (Some (ru_next_iv c @ ?body, c\<lparr>ru_next_iv := drop (length ?body - 20) ?body\<rparr>), nt1)"
      unfolding build_v1_unfold [OF pad] Let_def by (simp only: ng nc if_False simp_thms)
    moreover have "length ?body + 20 \<le> max (63 + length z) (unat (ru_max_udp_packet_size c))"
      using b l by simp
    ultimately show ?thesis using False by (intro disjI2 exI conjI) (assumption | rule refl | simp)+
  qed
qed

lemma build_v2_unfold:
  assumes "rudp_padding (word_of_nat (51 + length z)) c nt = (pad, nt')" "ru_evp_encrypt_ctx c = Some key"
    "lb_seal L key (ru_next_iv_v2 c) (rudp_header c (length z) f @ z @ pad) = (ct, tag)"
  shows "rudp_build_v2 L c z f nt =
     (if z \<noteq> [] \<and> 2020 < (35 + word_of_nat (length z) :: u32) then Some (None, nt)
      else if 2048 < 35 + length z + length pad then None
      else if 2048 < word_of_nat (51 + length z) + (word_of_nat (length pad) :: u32) then Some (None, nt')
      else if 2048 < 12 + length ct + length tag then None
      else Some (Some (ru_next_iv_v2 c @ ct @ tag, c\<lparr>ru_next_iv_v2 := take 12 (ct @ tag)\<rparr>), nt'))"
proof -
  have e: "(12 :: nat) + 4 + 8 + 8 + 2 + 1 + length z + 16 = 51 + length z"
    "(12 :: nat) + 4 + 8 + 8 + 2 + 1 = 35" "word_of_nat 35 = (35 :: u32)"
    "word_of_nat (2048 - 20 - 8) = (2020 :: u32)" "word_of_nat 2048 = (2048 :: u32)" by simp_all
  have e': "(35 :: nat) + length z + 16 = 51 + length z" by simp
  show ?thesis
    unfolding rudp_build_v2_def rudp_sizes Let_def e e'
    by (simp only: assms prod.case bind.bind_lunit split: if_splits)
qed

lemma build_v2_ok:
  assumes "rudp_inv c" "length z < 2 ^ 32 - 64" "ru_evp_encrypt_ctx c = Some key" "lib_ok L"
  shows "(\<exists>nt'. rudp_build_v2 L c z f nt = Some (None, nt') \<and> 1985 < length z) \<or>
    (\<exists>pad nt' ct tag. rudp_build_v2 L c z f nt =
        Some (Some (ru_next_iv_v2 c @ ct @ tag, c\<lparr>ru_next_iv_v2 := take 12 (ct @ tag)\<rparr>), nt') \<and>
      (ct, tag) = lb_seal L key (ru_next_iv_v2 c) (rudp_header c (length z) f @ z @ pad) \<and> length tag = 16 \<and>
      length z \<le> 1985 \<and> length ct = 23 + length z + length pad \<and>
      28 + length ct \<le> max (51 + length z) (unat (ru_max_udp_packet_size c)))"
proof -
  obtain pad nt1 where pad: "rudp_padding (word_of_nat (51 + length z)) c nt = (pad, nt1)"
    by (cases "rudp_padding (word_of_nat (51 + length z)) c nt")
  obtain ct tag where seal: "lb_seal L key (ru_next_iv_v2 c) (rudp_header c (length z) f @ z @ pad) = (ct, tag)"
    by (cases "lb_seal L key (ru_next_iv_v2 c) (rudp_header c (length z) f @ z @ pad)")
  have n: "unat (word_of_nat (51 + length z) :: u32) = 51 + length z"
    using assms(2) by (intro unat_of_nat32) simp
  have b: "51 + length z + length pad \<le> max (51 + length z) (unat (ru_max_udp_packet_size c))"
    using padding_bound(1) [OF pad] n by simp
  have m: "unat (ru_max_udp_packet_size c) \<le> 1472"
    using assms(1) by (simp add: rudp_inv_def RUDP_MAX_UDP_PACKET_IPV4_def word_le_nat_alt)
  have l: "length ct = 23 + length z + length pad" "length tag = 16"
    using assms(4) seal unfolding lib_ok_def rudp_sizes
    by (metis fst_conv snd_conv header_length length_append add.assoc)+
  have "unat (35 + word_of_nat (length z) :: u32) = 35 + length z"
    using unat_of_nat32 [of "35 + length z"] assms(2) by simp
  then have g: "(2020 < (35 + word_of_nat (length z) :: u32)) = (1985 < length z)"
    by (simp add: word_less_nat_alt)
  show ?thesis
  proof (cases "1985 < length z")
    case True
    then have "z \<noteq> []" by auto
    then show ?thesis using g True build_v2_unfold [OF pad assms(3) seal] by (auto simp only: simp_thms if_True)
  next
    case False
    have ng: "\<not> (2020 < (35 + word_of_nat (length z) :: u32))" using g False by (simp only: simp_thms)
    have nc: "\<not> (2048 < 35 + length z + length pad)" "\<not> (2048 < 12 + length ct + length tag)"
      using b m False l by simp_all
    have "unat (word_of_nat (51 + length z) + (word_of_nat (length pad) :: u32)) = 51 + length z + length pad"
      using b m False unat_of_nat32 [of "51 + length z + length pad"] by simp
    then have nw: "\<not> (2048 < word_of_nat (51 + length z) + (word_of_nat (length pad) :: u32))"
      using b m False by (simp only: word_less_nat_alt) simp
    have "rudp_build_v2 L c z f nt =
        Some (Some (ru_next_iv_v2 c @ ct @ tag, c\<lparr>ru_next_iv_v2 := take 12 (ct @ tag)\<rparr>), nt1)"
      unfolding build_v2_unfold [OF pad assms(3) seal] by (simp only: ng nc nw if_False simp_thms)
    moreover have "28 + length ct \<le> max (51 + length z) (unat (ru_max_udp_packet_size c))"
      using b l by simp
    ultimately show ?thesis using False seal l by (intro disjI2 exI conjI) (assumption | rule seal [symmetric] | simp)+
  qed
qed

lemma charge_inv [safe_intros]: "rudp_inv c \<Longrightarrow> rudp_inv (rudp_charge n c)"
proof -
  assume "rudp_inv c"
  then have i: "rudp_inv (rudp_cwin_refill c)" by (rule cwin_refill_inv)
  have "x \<le> b \<Longrightarrow> b \<le> m \<Longrightarrow> b - x \<le> m" for x b m :: u64
    by (simp add: word_le_nat_alt unat_sub)
  then show ?thesis using i cwin_le [OF i] \<open>rudp_inv c\<close> by (simp add: rudp_charge_def Let_def)
qed

lemma iv_inv [simp]:
  "rudp_inv c \<Longrightarrow> length v = 20 \<Longrightarrow> rudp_inv (c\<lparr>ru_next_iv := v\<rparr>)"
  "rudp_inv c \<Longrightarrow> length v = 12 \<Longrightarrow> rudp_inv (c\<lparr>ru_next_iv_v2 := v\<rparr>)"
  by (simp_all add: rudp_inv_def rudp_sizes)

lemma iv_id [simp]:
  "rudp_id (c\<lparr>ru_next_iv := v\<rparr>) = rudp_id c" "rudp_id (c\<lparr>ru_next_iv_v2 := v\<rparr>) = rudp_id c"
  by (simp_all add: rudp_id_def)

text \<open>Either version: the code's own refusal of a payload that is too long, or a datagram.\<close>

lemma build_ok:
  assumes "rudp_inv c" "length z < 2 ^ 32 - 64" "lib_ok L"
    and "B = (if ru_version c = 1 then rudp_build_v1 L c z f nt else rudp_build_v2 L c z f nt)"
  shows "(\<exists>nt'. B = Some (None, nt') \<and> 1977 < length z) \<or>
    (\<exists>pkt c' nt'. B = Some (Some (pkt, c'), nt') \<and> rudp_inv c' \<and> rudp_id c' = rudp_id c \<and>
       length pkt \<le> max (63 + length z) (unat (ru_max_udp_packet_size c)))"
proof -
  consider "ru_version c = 1" | key where "ru_version c = 2" "ru_evp_encrypt_ctx c = Some key"
    using assms(1) by (auto simp: rudp_inv_def)
  then show ?thesis
  proof cases
    case 1
    then have B: "B = rudp_build_v1 L c z f nt" using assms(4) by simp
    have l: "length (ru_next_iv c) = 20" using assms(1) by (simp add: rudp_inv_def rudp_sizes)
    from build_v1_ok [OF assms(1,2), of L f nt] show ?thesis
    proof (elim disjE exE conjE)
      fix pad nt' body
      assume b: "rudp_build_v1 L c z f nt = Some (Some (ru_next_iv c @ body, c\<lparr>ru_next_iv := drop (length body - 20) body\<rparr>), nt')"
        and body: "body = rc4_crypt (calc_key L (ru_my_key c) (ru_next_iv c)) (rudp_header c (length z) f @ z @ pad @ replicate 20 0)"
        and len: "length body + 20 \<le> max (63 + length z) (unat (ru_max_udp_packet_size c))"
      have "20 \<le> length body" by (simp add: body rc4.length_crypt)
      then have "rudp_inv (c\<lparr>ru_next_iv := drop (length body - 20) body\<rparr>)" using assms(1) by simp
      then show ?thesis unfolding B b using len l by (intro disjI2 exI conjI) (rule refl | assumption | simp)+
    qed (use B in blast)
  next
    case 2
    then have B: "B = rudp_build_v2 L c z f nt" using assms(4) by simp
    have l: "length (ru_next_iv_v2 c) = 12" using assms(1) by (simp add: rudp_inv_def rudp_sizes)
    from build_v2_ok [OF assms(1,2) 2(2) assms(3), of f nt] show ?thesis
    proof (elim disjE exE conjE)
      fix nt' assume "rudp_build_v2 L c z f nt = Some (None, nt')" "1985 < length z"
      then show ?thesis unfolding B by (intro disjI1 exI conjI) (assumption | simp)+
    next
      fix pad nt' ct tag
      assume b: "rudp_build_v2 L c z f nt = Some (Some (ru_next_iv_v2 c @ ct @ tag, c\<lparr>ru_next_iv_v2 := take 12 (ct @ tag)\<rparr>), nt')"
        and len: "length tag = 16" "28 + length ct \<le> max (51 + length z) (unat (ru_max_udp_packet_size c))"
      have "rudp_inv (c\<lparr>ru_next_iv_v2 := take 12 (ct @ tag)\<rparr>)" using assms(1) len(1) by simp
      then show ?thesis unfolding B b using len l by (intro disjI2 exI conjI) (rule refl | assumption | simp)+
    qed
  qed
qed

lemma payload_short:
  "lib_ok L \<Longrightarrow> length data < 2 ^ 32 - 64 \<Longrightarrow> rudp_payload L c data f = (z, f') \<Longrightarrow> length z < 2 ^ 32 - 64"
  by (auto dest: payload_length)

lemma send_nolock_unfold:
  assumes "c1 = c\<lparr>ru_now := nt_tick nt (nt_ticks nt)\<rparr>" "nt1 = nt\<lparr>nt_ticks := nt_ticks nt + 1\<rparr>"
    and "rudp_payload L c1 data f = (z, f')"
    and "B = (if ru_version c1 = 1 then rudp_build_v1 L c1 z f' nt1 else rudp_build_v2 L c1 z f' nt1)"
  shows "rudp_send_nolock L data f c nt = do { (r, nt) \<leftarrow> B;
      case r of None \<Rightarrow> Some (-1, c1, nt)
      | Some (pkt, c) \<Rightarrow> let (ok, nt) = net_sendto pkt (ru_peer_addr c) nt in
          if \<not> ok then Some (-1, c, nt) else Some (int (length pkt), rudp_charge (length data) c, nt) }"
  unfolding assms(4) rudp_send_nolock_def softether_tick_ms_def
  by (simp only: Let_def prod.case assms(3) flip: assms(1,2))

lemma send_nolock_ok:
  assumes "rudp_inv c" "lib_ok L" "length data < 2 ^ 32 - 64"
  shows "\<exists>r c' nt'. rudp_send_nolock L data f c nt = Some (r, c', nt') \<and> rudp_inv c' \<and> rudp_id c' = rudp_id c"
proof -
  define c1 nt1 where d: "c1 = c\<lparr>ru_now := nt_tick nt (nt_ticks nt)\<rparr>" "nt1 = nt\<lparr>nt_ticks := nt_ticks nt + 1\<rparr>"
  obtain z f' where z: "rudp_payload L c1 data f = (z, f')" by fastforce
  define B where "B = (if ru_version c1 = 1 then rudp_build_v1 L c1 z f' nt1 else rudp_build_v2 L c1 z f' nt1)"
  have "rudp_inv c1" "rudp_id c1 = rudp_id c" using assms(1) by (simp_all add: d)
  with build_ok [OF _ payload_short [OF assms(2,3) z] assms(2) B_def] show ?thesis
    unfolding send_nolock_unfold [OF d z B_def] by (auto simp: charge_inv split: prod.split)
qed

section \<open>References in one thread\<close>

lemma rudp_idD:
  assumes "rudp_id c = rudp_id d"
  shows "ru_refcount c = ru_refcount d" "ru_freed c = ru_freed d" "ru_destroying c = ru_destroying d"
    "ru_version c = ru_version d" "ru_inited c = ru_inited d" "ru_my_cookie c = ru_my_cookie d"
    "ru_your_key c = ru_your_key d"
  using assms by (simp_all add: rudp_id_def)

lemma acquire_cases:
  "rudp_ref_acquire c = None \<or> 0 < ru_refcount c \<and> rudp_ref_acquire c = Some (c\<lparr>ru_refcount := ru_refcount c + 1\<rparr>)"
  by (simp add: rudp_ref_acquire_def)

text \<open>A call that keeps the count takes its reference and gives it back without freeing.\<close>

lemma release_restores:
  assumes "0 < ru_refcount c" "rudp_id c' = rudp_id (c\<lparr>ru_refcount := ru_refcount c + 1\<rparr>)"
  shows "rudp_ref_release c' nt = (c'\<lparr>ru_refcount := ru_refcount c\<rparr>, nt)"
    and "rudp_id (c'\<lparr>ru_refcount := ru_refcount c\<rparr>) = rudp_id c"
  using assms by (auto simp: rudp_ref_release_def rudp_id_def Let_def)

lemma rudp_send_ok:
  assumes "rudp_inv c" "lib_ok L" "n < 2 ^ 32 - 64" "\<And>d. data = Some d \<Longrightarrow> n \<le> length d"
  shows "\<exists>r c' nt'. rudp_send L data n f c nt = Some (r, c', nt') \<and> rudp_inv c' \<and> rudp_id c' = rudp_id c"
proof (cases "rudp_ref_acquire c")
  case None then show ?thesis using assms by (simp add: rudp_send_def)
next
  case (Some c1)
  then have c1: "c1 = c\<lparr>ru_refcount := ru_refcount c + 1\<rparr>" and pos: "0 < ru_refcount c"
    using acquire_cases [of c] by auto
  have i1: "rudp_inv c1" using assms(1) c1 by simp
  note rel = release_restores [OF pos]
  show ?thesis
  proof (cases "\<not> ru_inited c1 \<or> \<not> ru_peer_addr_set c1 \<or> 0 < n \<and> data = None")
    case True
    then show ?thesis using rel [of c1] c1 i1 assms(1) by (auto simp: rudp_send_def Some)
  next
    case False
    let ?d = "case data of None \<Rightarrow> [] | Some d \<Rightarrow> d"
    have n: "n \<le> length ?d" using False assms(4) by (auto split: option.split)
    obtain r c2 nt2 where s: "rudp_send_nolock L (take n ?d) f c1 nt = Some (r, c2, nt2)"
      "rudp_inv c2" "rudp_id c2 = rudp_id c1"
      using send_nolock_ok [OF i1 assms(2), of "take n ?d" f nt] n assms(3) by auto
    have "rudp_id c2 = rudp_id (c\<lparr>ru_refcount := ru_refcount c + 1\<rparr>)" using s(3) c1 by simp
    from rel [OF this] show ?thesis using False n s
      by (auto simp: rudp_send_def Some mem_read_def)
  qed
qed

lemma poll_timers_ok:
  assumes "rudp_inv c" "lib_ok L"
  shows "\<exists>c' nt'. rudp_poll_timers L c nt = Some (c', nt') \<and> rudp_inv c' \<and> rudp_id c' = rudp_id c"
proof -
  define d where "d = (if ru_last_recv_tick c \<noteq> 0 \<and> ru_last_recv_tick c + rudp_timeout_value c < ru_now c
    then c\<lparr>ru_first_stable_receive_tick := 0, ru_last_loss_event_tick := ru_now c\<rparr> else c)"
  have d: "rudp_inv d" "rudp_id d = rudp_id c" using assms(1) by (simp_all add: d_def rudp_id_def)
  obtain r c1 nt1 where k: "rudp_send_keepalive L d nt = Some (r, c1, nt1)" "rudp_inv c1" "rudp_id c1 = rudp_id d"
    using rudp_send_ok [OF d(1) assms(2), of 0 None 0 nt] by (auto simp: rudp_send_keepalive_def)
  have ka: "rudp_inv (x\<lparr>ru_next_send_keepalive := t\<rparr>) = rudp_inv x"
    "rudp_id (x\<lparr>ru_next_send_keepalive := t\<rparr>) = rudp_id x" for x t
    by (simp_all add: rudp_id_def)
  show ?thesis
    unfolding rudp_poll_timers_def d_def [symmetric] Let_def using k d
    by (auto simp: ka split: prod.split)
qed

lemma rudp_poll_ok:
  assumes "rudp_inv c" "lib_ok L"
  shows "\<exists>c' nt'. rudp_poll L c nt = Some (c', nt') \<and> rudp_inv c' \<and> rudp_id c' = rudp_id c"
proof (cases "rudp_ref_acquire c")
  case None then show ?thesis using assms by (simp add: rudp_poll_def)
next
  case (Some c1)
  then have c1: "c1 = c\<lparr>ru_refcount := ru_refcount c + 1\<rparr>" and pos: "0 < ru_refcount c"
    using acquire_cases [of c] by auto
  have i1: "rudp_inv c1" using assms(1) c1 by simp
  note rel = release_restores [OF pos]
  let ?c1 = "c1\<lparr>ru_now := nt_tick nt (nt_ticks nt)\<rparr>" and ?nt = "nt\<lparr>nt_ticks := nt_ticks nt + 1\<rparr>"
  obtain c2 nt2 where t: "rudp_poll_timers L ?c1 ?nt = Some (c2, nt2)" "rudp_inv c2" "rudp_id c2 = rudp_id c1"
    using poll_timers_ok [of ?c1 L ?nt] i1 assms(2) by auto
  obtain c3 nt3 where l: "rudp_recv_loop L (nt_udp_in nt2) c2 nt2 = Some (c3, nt3)" "rudp_inv c3" "rudp_id c3 = rudp_id c2"
    using recv_loop_ok [OF t(2)] by blast
  have "rudp_id c3 = rudp_id (c\<lparr>ru_refcount := ru_refcount c + 1\<rparr>)" using l(3) t(3) c1 by simp
  from rel [OF this] have "rudp_ref_release c3 nt3 = (c3\<lparr>ru_refcount := ru_refcount c\<rparr>, nt3)"
    "rudp_id (c3\<lparr>ru_refcount := ru_refcount c\<rparr>) = rudp_id c" by simp_all
  moreover have "rudp_poll L c nt = (if ru_inited c1 then Some (rudp_ref_release c3 nt3) else Some (rudp_ref_release c1 nt))"
    using t(1) l(1) by (simp add: rudp_poll_def Some rudp_poll_nolock_def softether_tick_ms_def)
  ultimately show ?thesis using rel [of c1] c1 i1 l(2) assms(1) by (auto split: if_splits)
qed

section \<open>Round trip of the datagram formats\<close>

lemma parse_header:
  assumes "length z < 65536" "v \<Longrightarrow> \<exists>pad. rest = pad @ replicate 20 0"
  shows "rudp_parse_inner (ru_your_cookie a) v (rudp_header a (length z) f @ z @ rest) =
    Some \<lparr>in_cookie = ru_your_cookie a, in_my_tick = (if ru_now a = 0 then 1 else ru_now a),
          in_your_tick = ru_last_recv_your_tick a, in_flag = f, in_data = z\<rparr>"
proof -
  have l: "unat (word_of_nat (length z) :: u16) = length z"
    using assms(1) by (simp add: unat_of_nat take_bit_nat_eq_self)
  have v: "\<not> (v \<and> \<not> (20 \<le> length rest \<and> all_zero (drop (length rest - 20) rest)))"
    using assms(2) by auto
  show ?thesis
    using v by (simp add: rudp_parse_inner_def rudp_header_def wire_simps size_simps Let_def l rudp_sizes)
qed

lemma padding_net [simp]:
  "nt_udp_out (snd (rudp_padding n c nt)) = nt_udp_out nt" "nt_udp_send (snd (rudp_padding n c nt)) = nt_udp_send nt"
  by (simp_all add: rudp_padding_def rand_u32_def random_bytes_def Let_def)

lemma build_net:
  "rudp_build_v1 L c z f nt = Some (r, nt') \<Longrightarrow> nt_udp_out nt' = nt_udp_out nt \<and> nt_udp_send nt' = nt_udp_send nt"
  "rudp_build_v2 L c z f nt = Some (r, nt') \<Longrightarrow> nt_udp_out nt' = nt_udp_out nt \<and> nt_udp_send nt' = nt_udp_send nt"
  by (auto simp: rudp_build_v1_def rudp_build_v2_def Let_def bind_eq_Some_conv case_prod_beta split: if_splits)

text \<open>What the peer's decryption recovers from a datagram: header, payload and a tail.\<close>

lemma handle_built:
  assumes inv: "rudp_inv a" "rudp_inv b" and lib: "lib_ok L" "lib_inverse L"
    and peer: "ru_version b = ru_version a" "ru_your_key b = ru_my_key a"
      "ru_evp_decrypt_ctx b = ru_evp_encrypt_ctx a"
    and z: "length z \<le> 1856"
    and B: "(if ru_version a = 1 then rudp_build_v1 L a z f nt else rudp_build_v2 L a z f nt) = Some (r, nt')"
  shows "\<exists>pkt a' rest v. r = Some (pkt, a') \<and> ru_peer_addr a' = ru_peer_addr a \<and>
     (v \<longrightarrow> (\<exists>pad. rest = pad @ replicate 20 0)) \<and>
     rudp_handle_datagram L pkt from b = rudp_process_inner L (rudp_header a (length z) f @ z @ rest) from v b"
proof -
  have z': "length z < 2 ^ 32 - 64" using z by simp
  have iv: "length (ru_next_iv a) = 20" "length (ru_next_iv_v2 a) = 12"
    using inv(1) by (simp_all add: rudp_inv_def rudp_sizes)
  consider "ru_version a = 1" | key where "ru_version a = 2" "ru_evp_encrypt_ctx a = Some key"
    using inv(1) by (auto simp: rudp_inv_def)
  then show ?thesis
  proof cases
    case 1
    then have B1: "rudp_build_v1 L a z f nt = Some (r, nt')" using B by simp
    from build_v1_ok [OF inv(1) z', of L f nt] show ?thesis
    proof (elim disjE exE conjE)
      fix nt' assume "1977 < length z"
      then show ?thesis using z by simp
    next
      fix pad nt'' body
      assume b: "rudp_build_v1 L a z f nt = Some (Some (ru_next_iv a @ body, a\<lparr>ru_next_iv := drop (length body - 20) body\<rparr>), nt'')"
        and body: "body = rc4_crypt (calc_key L (ru_my_key a) (ru_next_iv a)) (rudp_header a (length z) f @ z @ pad @ replicate 20 0)"
      have r: "r = Some (ru_next_iv a @ body, a\<lparr>ru_next_iv := drop (length body - 20) body\<rparr>)"
        using b B1 by simp
      have "rudp_handle_datagram L (ru_next_iv a @ body) from b =
          rudp_process_inner L (rudp_header a (length z) f @ z @ pad @ replicate 20 0) from True b"
        using 1 peer iv by (simp add: rudp_handle_datagram_def rudp_sizes body rc4.crypt_crypt)
      then show ?thesis unfolding r
        by (intro exI [of _ "pad @ replicate 20 0"] exI [of _ True] exI conjI) (rule refl | simp)+
    qed
  next
    case 2
    then have B2: "rudp_build_v2 L a z f nt = Some (r, nt')" using B by simp
    have "\<not> 1985 < length z" using z by simp
    with build_v2_ok [OF inv(1) z' 2(2) lib(1), of f nt]
    obtain pad nt'' ct tag where
      b: "rudp_build_v2 L a z f nt = Some (Some (ru_next_iv_v2 a @ ct @ tag, a\<lparr>ru_next_iv_v2 := take 12 (ct @ tag)\<rparr>), nt'')"
      and s: "(ct, tag) = lb_seal L key (ru_next_iv_v2 a) (rudp_header a (length z) f @ z @ pad)"
      and len: "length tag = 16" "length ct = 23 + length z + length pad" by blast
    have r: "r = Some (ru_next_iv_v2 a @ ct @ tag, a\<lparr>ru_next_iv_v2 := take 12 (ct @ tag)\<rparr>)" using b B2 by simp
    have o: "lb_open L key (ru_next_iv_v2 a) ct tag = Some (rudp_header a (length z) f @ z @ pad)"
      using lib(2) s unfolding lib_inverse_def by (metis fst_conv snd_conv)
    have "rudp_handle_datagram L (ru_next_iv_v2 a @ ct @ tag) from b =
        rudp_process_inner L (rudp_header a (length z) f @ z @ pad) from False b"
      using 2 peer iv len o by (simp add: rudp_handle_datagram_def rudp_sizes)
    then show ?thesis unfolding r by (intro exI [of _ pad] exI [of _ False] exI conjI) (rule refl | simp)+
  qed
qed

lemma process_delivers:
  assumes inv: "rudp_inv b" and room: "fr_count (ru_recv_queue b) < RUDP_RECV_QUEUE_SIZE"
    and parse: "rudp_parse_inner (ru_my_cookie b) v buf = Some i"
    and fresh: "ru_last_recv_your_tick b \<le> in_my_tick i"
    and data: "in_data i \<noteq> []" "length d \<le> RUDP_MAX_PAYLOAD_SIZE"
    and dec: "in_flag i AND RUDP_FLAG_COMPRESSED = 0 \<and> in_data i = d \<or>
      in_flag i AND RUDP_FLAG_COMPRESSED \<noteq> 0 \<and> lb_uncompress L (RUDP_MAX_PAYLOAD_SIZE + 256) (in_data i) = Some d"
  shows "\<exists>b'. rudp_process_inner L buf from v b = Some (0, b') \<and> rudp_inv b' \<and>
    frame_contents (ru_recv_queue b') = frame_contents (ru_recv_queue b) @ [d]"
proof -
  let ?b = "rudp_note_packet (in_my_tick i) (in_your_tick i) from b"
  have q: "frame_inv RUDP_RECV_QUEUE_SIZE RUDP_MAX_PAYLOAD_SIZE (ru_recv_queue b)"
    using inv by (simp add: rudp_inv_def)
  obtain q' where q': "frame_put RUDP_RECV_QUEUE_SIZE d (ru_recv_queue b) = Some q'"
      "frame_inv RUDP_RECV_QUEUE_SIZE RUDP_MAX_PAYLOAD_SIZE q'"
      "frame_contents q' = frame_contents (ru_recv_queue b) @ [d]"
    using rudpq.put_ok [OF q _ data(2)] room by auto
  have "rudp_queue_block d ?b = Some (?b\<lparr>ru_recv_queue := q'\<rparr>)"
    using q' room data(2) by (simp add: rudp_queue_block_def)
  moreover have "\<not> in_my_tick i < ru_last_recv_your_tick b" using fresh by simp
  ultimately have "rudp_process_inner L buf from v b = Some (0, ?b\<lparr>ru_recv_queue := q'\<rparr>)"
    using dec data(1) by (auto simp: rudp_process_inner_def parse Let_def uncompress_data_def z_wrap_def)
  then show ?thesis using q' rudp_inv_queue [OF note_packet_inv [OF inv]] by simp
qed

text \<open>
  C22. UDP acceleration delivers: whatever \<open>rudp_send\<close> emits for a payload of up to 1600 bytes
  (compressed or not, protocol version 1 or 2, any random padding), a peer with the matching keys
  and cookie accepts and appends exactly that payload to its receive queue, as long as its queue
  has a free slot and the sender's clock has not gone back behind what the peer has seen.
\<close>

theorem rudp_datagram_roundtrip:
  assumes inv: "rudp_inv a" "rudp_inv b" and lib: "lib_ok L" "lib_inverse L"
    and peer: "ru_version b = ru_version a" "ru_your_key b = ru_my_key a"
      "ru_evp_decrypt_ctx b = ru_evp_encrypt_ctx a" "ru_my_cookie b = ru_your_cookie a"
    and data: "data \<noteq> []" "length data \<le> RUDP_MAX_PAYLOAD_SIZE"
    and room: "fr_count (ru_recv_queue b) < RUDP_RECV_QUEUE_SIZE"
    and net: "nt_udp_send nt = []"
    and fresh: "ru_last_recv_your_tick b \<le> nt_tick nt (nt_ticks nt)" "0 < nt_tick nt (nt_ticks nt)"
  shows "\<exists>a' nt' pkt b'. rudp_send_nolock L data 0 a nt = Some (int (length pkt), a', nt') \<and>
     nt_udp_out nt' = nt_udp_out nt @ [(pkt, ru_peer_addr a)] \<and>
     rudp_handle_datagram L pkt from b = Some (0, b') \<and>
     frame_contents (ru_recv_queue b') = frame_contents (ru_recv_queue b) @ [data]"
proof -
  let ?t = "nt_tick nt (nt_ticks nt)"
  let ?a = "a\<lparr>ru_now := ?t\<rparr>" and ?nt = "nt\<lparr>nt_ticks := nt_ticks nt + 1\<rparr>"
  have ia: "rudp_inv ?a" using inv(1) by simp
  obtain z f where z: "rudp_payload L ?a data 0 = (z, f)" by fastforce
  have zd: "z = data \<and> f = 0 \<or> length z \<le> 1856 \<and> f = RUDP_FLAG_COMPRESSED \<and> lb_compress L 1856 data = Some z"
    using payload_length [OF lib(1) z] by auto
  then have zl: "length z \<le> 1856" using data(2) by (auto simp: rudp_sizes)
  define B where "B = (if ru_version ?a = 1 then rudp_build_v1 L ?a z f ?nt else rudp_build_v2 L ?a z f ?nt)"
  have "length z < 2 ^ 32 - 64" using zl by simp
  from build_ok [OF ia this lib(1) B_def] obtain r nt1 where B: "B = Some (r, nt1)" by blast
  then have "nt_udp_out nt1 = nt_udp_out ?nt \<and> nt_udp_send nt1 = nt_udp_send ?nt"
    unfolding B_def by (metis build_net)
  then have net1: "nt_udp_out nt1 = nt_udp_out nt" "nt_udp_send nt1 = []" using net by simp_all
  have pa: "ru_version b = ru_version ?a" "ru_your_key b = ru_my_key ?a" "ru_evp_decrypt_ctx b = ru_evp_encrypt_ctx ?a"
    using peer by simp_all
  from handle_built [OF ia inv(2) lib pa zl B [unfolded B_def], of "from"]
  obtain pkt a' rest v where r: "r = Some (pkt, a')" "ru_peer_addr a' = ru_peer_addr ?a"
    and v: "v \<longrightarrow> (\<exists>pad. rest = pad @ replicate 20 0)"
    and h: "rudp_handle_datagram L pkt from b = rudp_process_inner L (rudp_header ?a (length z) f @ z @ rest) from v b"
    by blast
  let ?i = "\<lparr>in_cookie = ru_your_cookie a, in_my_tick = ?t, in_your_tick = ru_last_recv_your_tick a, in_flag = f, in_data = z\<rparr>"
  have p: "rudp_parse_inner (ru_my_cookie b) v (rudp_header ?a (length z) f @ z @ rest) = Some ?i"
    using parse_header [of z v rest ?a f] v zl peer(4) fresh(2) by simp
  have c: "lb_compress L 1856 data = Some z \<Longrightarrow> z \<noteq> [] \<and> lb_uncompress L (1600 + 256) z = Some data"
    using lib(2) data(2) unfolding lib_inverse_def rudp_sizes by fastforce
  have "z \<noteq> []" using zd c data(1) by auto
  moreover have "f AND RUDP_FLAG_COMPRESSED = 0 \<and> z = data \<or> f AND RUDP_FLAG_COMPRESSED \<noteq> 0 \<and>
      lb_uncompress L (RUDP_MAX_PAYLOAD_SIZE + 256) z = Some data"
    using zd c by (auto simp: RUDP_FLAG_COMPRESSED_def rudp_sizes)
  ultimately obtain b' where "rudp_handle_datagram L pkt from b = Some (0, b')"
    "frame_contents (ru_recv_queue b') = frame_contents (ru_recv_queue b) @ [data]"
    using process_delivers [OF inv(2) room p, of data L "from"] data(2) fresh(1) h by auto
  moreover have "rudp_send_nolock L data 0 a nt = Some (int (length pkt), rudp_charge (length data) a',
      nt1\<lparr>nt_udp_out := nt_udp_out nt1 @ [(pkt, ru_peer_addr a')]\<rparr>)"
    unfolding send_nolock_unfold [OF refl refl z B_def] using B r net1 by (simp add: net_sendto_def)
  ultimately show ?thesis using net1 r(2) by (intro exI conjI) (assumption | simp)+
qed

definition demo_lib :: rudp_lib where
  "demo_lib = \<lparr>lb_sha1 = (\<lambda>_. replicate 20 7), lb_seal = (\<lambda>k iv p. (p, replicate 16 0)),
     lb_open = (\<lambda>k iv ct tag. if tag = replicate 16 0 then Some ct else None),
     lb_compress = (\<lambda>cap s. if length s < cap then Some (1 # s) else None),
     lb_uncompress = (\<lambda>cap z. case z of [] \<Rightarrow> None | _ # s \<Rightarrow> if length s \<le> cap then Some s else None),
     lb_pton4 = (\<lambda>_. None), lb_pton6 = (\<lambda>_. None)\<rparr>"

definition demo_rudp :: rudp_context where
  "demo_rudp = rudp_zero\<lparr>ru_refcount := 1, ru_version := 1, ru_inited := True, ru_peer_addr_set := True,
     ru_max_udp_packet_size := 1472, ru_udp_fd := 5, ru_use_compress := True\<rparr>"

definition demo_net :: net where
  "demo_net = \<lparr>nt_tick = (\<lambda>k. word_of_nat (1000 + k)), nt_ticks = 0, nt_rand = (\<lambda>k n. Some (replicate n 3)),
     nt_rands = 0, nt_crand = (\<lambda>k. k), nt_crands = 0, nt_sock = (\<lambda>k. Sock_ok 7 4000), nt_socks = 0, nt_udp_in = [], nt_udp_out = [],
     nt_udp_send = [], nt_tcp = (\<lambda>fd. \<lparr>st_left = [], st_rx = [], st_tx = [], st_out = []\<rparr>),
     nt_tls = (\<lambda>i. \<lparr>sc_ctx = True, sc_ssl = None, sc_connected = False, sc_hs = [], sc_freed = False\<rparr>),
     nt_closed = [], nt_poll = [], nt_malloc = [], nt_thread = [], nt_trace = []\<rparr>"

lemma demo_lib_ok: "lib_ok demo_lib" "lib_inverse demo_lib"
  by (auto simp: lib_ok_def lib_inverse_def demo_lib_def rudp_sizes split: list.splits if_splits)

lemma demo_rudp_inv: "rudp_inv demo_rudp"
  using frame_empty_inv [of RUDP_RECV_QUEUE_SIZE RUDP_MAX_PAYLOAD_SIZE]
  by (simp add: rudp_inv_def demo_rudp_def rudp_zero_def rudp_sizes RUDP_MAX_UDP_PACKET_IPV4_def)

theorem rudp_datagram_roundtrip_witness:
  "\<exists>a' nt' pkt b'. rudp_send_nolock demo_lib [1, 2, 3] 0 demo_rudp demo_net = Some (int (length pkt), a', nt') \<and>
     nt_udp_out nt' = [(pkt, Sa_in 0 0)] \<and>
     rudp_handle_datagram demo_lib pkt (Sa_in 1 2) demo_rudp = Some (0, b') \<and>
     frame_contents (ru_recv_queue b') = [[1, 2, 3]]"
proof -
  have e: "frame_contents (ru_recv_queue demo_rudp) = []" "fr_count (ru_recv_queue demo_rudp) < RUDP_RECV_QUEUE_SIZE"
    "ru_evp_decrypt_ctx demo_rudp = ru_evp_encrypt_ctx demo_rudp" "ru_your_key demo_rudp = ru_my_key demo_rudp"
    "ru_my_cookie demo_rudp = ru_your_cookie demo_rudp" "ru_last_recv_your_tick demo_rudp = 0" "ru_peer_addr demo_rudp = Sa_in 0 0"
    by (simp_all add: demo_rudp_def rudp_zero_def frame_contents_def frame_empty_def rudp_sizes)
  have n: "nt_udp_out demo_net = []" "nt_udp_send demo_net = []" "nt_tick demo_net (nt_ticks demo_net) = 1000"
    by (simp_all add: demo_net_def)
  show ?thesis
    using rudp_datagram_roundtrip [OF demo_rudp_inv demo_rudp_inv demo_lib_ok, of "[1, 2, 3]" demo_net "Sa_in 1 2"] e n
    by (simp add: RUDP_MAX_PAYLOAD_SIZE_def)
qed

section \<open>Every operation keeps the invariant\<close>

lemma is_send_ready_ok:
  assumes "rudp_inv c" "rudp_is_send_ready k c nt = (r, c', nt')"
  shows "rudp_inv c' \<and> rudp_id c' = rudp_id c"
proof (cases "\<not> ru_inited c \<or> \<not> ru_peer_addr_set c \<or> rudp_ref_acquire c = None")
  case True
  then show ?thesis using assms by (auto simp: rudp_is_send_ready_def split: if_splits)
next
  case False
  let ?c1 = "c\<lparr>ru_refcount := ru_refcount c + 1\<rparr>"
  have a: "0 < ru_refcount c" "rudp_ref_acquire c = Some ?c1" using False acquire_cases [of c] by auto
  obtain r2 c2 where n: "rudp_is_send_ready_nolock k ?c1 = (r2, c2)" by fastforce
  then have c2: "rudp_inv c2" "rudp_id c2 = rudp_id ?c1"
    using is_send_ready_nolock_inv [of ?c1 k] is_send_ready_nolock_id [of k ?c1] assms(1) by simp_all
  show ?thesis using assms(2) False a n c2(1) release_restores [OF a(1) c2(2)]
    by (auto simp: rudp_is_send_ready_def)
qed

text \<open>\<open>rudp_recv\<close> hands out the oldest frame; one that does not fit the buffer stays where it is.\<close>

lemma rudp_recv_frame:
  assumes "rudp_inv c" "0 < ru_refcount c" "\<not> ru_destroying c" "frame_contents (ru_recv_queue c) = d # ds"
  shows "rudp_recv len max_len c nt =
      (if length d \<le> max_len
       then Some (int (length d), length d, d,
              c\<lparr>ru_recv_queue := frame_pop RUDP_RECV_QUEUE_SIZE (ru_recv_queue c)\<rparr>, nt)
       else Some (-1, 0, [], c, nt))"
    and "rudp_inv (c\<lparr>ru_recv_queue := frame_pop RUDP_RECV_QUEUE_SIZE (ru_recv_queue c)\<rparr>)"
    and "frame_contents (frame_pop RUDP_RECV_QUEUE_SIZE (ru_recv_queue c)) = ds"
proof -
  have q: "frame_inv RUDP_RECV_QUEUE_SIZE RUDP_MAX_PAYLOAD_SIZE (ru_recv_queue c)"
    using assms(1) by (simp add: rudp_inv_def)
  note u = rudpq.unat_len [OF q assms(4)] and g = rudpq.get_ok [OF q assms(4)] and p = rudpq.pop_ok [OF q assms(4)]
  have n: "fr_count (ru_recv_queue c) \<noteq> 0"
    using assms(4) frame_contents_length [of "ru_recv_queue c"] by (metis length_0_conv list.distinct(1))
  show "rudp_recv len max_len c nt =
      (if length d \<le> max_len
       then Some (int (length d), length d, d,
              c\<lparr>ru_recv_queue := frame_pop RUDP_RECV_QUEUE_SIZE (ru_recv_queue c)\<rparr>, nt)
       else Some (-1, 0, [], c, nt))"
    using assms(2,3) u g n by (auto simp: rudp_recv_def rudp_ref_acquire_def rudp_ref_release_def Let_def)
  show "rudp_inv (c\<lparr>ru_recv_queue := frame_pop RUDP_RECV_QUEUE_SIZE (ru_recv_queue c)\<rparr>)"
    using rudp_inv_queue [OF assms(1)] p by blast
  show "frame_contents (frame_pop RUDP_RECV_QUEUE_SIZE (ru_recv_queue c)) = ds" using p by blast
qed

lemma rudp_recv_none:
  assumes "fr_count (ru_recv_queue c) = 0 \<or> ru_refcount c \<le> 0 \<or> ru_destroying c"
  shows "\<exists>r. rudp_recv len max_len c nt = Some (r, len, [], c, nt) \<and> r \<le> 0"
  using assms by (auto simp: rudp_recv_def rudp_ref_acquire_def rudp_ref_release_def Let_def)

lemma rudp_recv_ok:
  assumes "rudp_inv c"
  shows "\<exists>r l d c' nt'. rudp_recv len max_len c nt = Some (r, l, d, c', nt') \<and> rudp_inv c' \<and> rudp_id c' = rudp_id c"
proof (cases "fr_count (ru_recv_queue c) = 0 \<or> ru_refcount c \<le> 0 \<or> ru_destroying c")
  case True
  then show ?thesis using rudp_recv_none [OF True] assms by fastforce
next
  case False
  then obtain d ds where "frame_contents (ru_recv_queue c) = d # ds"
    using frame_contents_length [of "ru_recv_queue c"] by (cases "frame_contents (ru_recv_queue c)") auto
  note f = rudp_recv_frame [OF assms _ _ this]
  have "rudp_id (c\<lparr>ru_recv_queue := q\<rparr>) = rudp_id c" for q by (simp add: rudp_id_def)
  then show ?thesis using f False assms by auto
qed

datatype rudp_op = Op_send "byte list" byte | Op_poll "(byte list \<times> sock_addr) list" | Op_recv nat
  | Op_ready bool | Op_compress bool | Op_fast bool | Op_version int | Op_tick u64

fun rudp_step :: "rudp_lib \<Rightarrow> rudp_op \<Rightarrow> rudp_context \<times> net \<Rightarrow> (rudp_context \<times> net) option" where
  "rudp_step L (Op_send d f) (c, nt) =
     map_option (\<lambda>(r, c, nt). (c, nt)) (rudp_send L (Some d) (length d) f c nt)"
| "rudp_step L (Op_poll ds) (c, nt) = rudp_poll L c (nt\<lparr>nt_udp_in := ds\<rparr>)"
| "rudp_step L (Op_recv n) (c, nt) = map_option (\<lambda>(r, l, d, c, nt). (c, nt)) (rudp_recv 0 n c nt)"
| "rudp_step L (Op_ready k) (c, nt) = Some (snd (rudp_is_send_ready k c nt))"
| "rudp_step L (Op_compress e) (c, nt) = Some (rudp_set_compress e c, nt)"
| "rudp_step L (Op_fast e) (c, nt) = Some (rudp_set_fast_detect e c, nt)"
| "rudp_step L (Op_version v) (c, nt) = Some (rudp_set_version v c, nt)"
| "rudp_step L (Op_tick t) (c, nt) = Some (rudp_set_tick t c, nt)"

fun rudp_run :: "rudp_lib \<Rightarrow> rudp_op list \<Rightarrow> rudp_context \<times> net \<Rightarrow> (rudp_context \<times> net) option" where
  "rudp_run L [] s = Some s"
| "rudp_run L (x # xs) s = do { s \<leftarrow> rudp_step L x s; rudp_run L xs s }"

definition rudp_op_ok :: "rudp_op \<Rightarrow> bool" where
  "rudp_op_ok x \<longleftrightarrow> (case x of Op_send d f \<Rightarrow> length d < 2 ^ 32 - 64 | _ \<Rightarrow> True)"

lemma set_version_inv: "rudp_inv c \<Longrightarrow> rudp_inv (rudp_set_version v c)"
  by (auto simp: rudp_set_version_def rudp_inv_def)

lemma rudp_step_ok:
  assumes "rudp_inv c" "lib_ok L" "rudp_op_ok x"
  shows "\<exists>c' nt'. rudp_step L x (c, nt) = Some (c', nt') \<and> rudp_inv c' \<and>
    ru_refcount c' = ru_refcount c \<and> ru_freed c' = ru_freed c"
proof (cases x)
  case (Op_send d f)
  then show ?thesis using rudp_send_ok [OF assms(1,2), of "length d" "Some d" f nt] assms(3)
    by (auto simp: rudp_op_ok_def dest: rudp_idD)
next
  case (Op_poll ds)
  then show ?thesis using rudp_poll_ok [OF assms(1,2), of "nt\<lparr>nt_udp_in := ds\<rparr>"] by (auto dest: rudp_idD)
next
  case (Op_recv n)
  then show ?thesis using rudp_recv_ok [OF assms(1), of 0 n nt] by (auto dest: rudp_idD)
next
  case (Op_ready k)
  then show ?thesis using is_send_ready_ok [OF assms(1), of k nt]
    by (cases "rudp_is_send_ready k c nt") (auto dest: rudp_idD)
qed (use assms(1) set_version_inv in \<open>auto simp: rudp_set_compress_def rudp_set_fast_detect_def rudp_set_tick_def
       rudp_set_version_def\<close>)

text \<open>
  C23. Whatever sequence of sends, polls, receives and configuration calls is made, and whatever
  datagrams arrive in between, no operation of UDP acceleration reads or writes outside a buffer
  or uses a missing cipher context, the invariant of the context holds throughout (in particular
  the send budget never exceeds its ceiling and the queue is well formed), and every call gives
  back the reference it took.
\<close>

theorem rudp_run_invariant:
  assumes "rudp_inv c" "lib_ok L" "list_all rudp_op_ok xs"
  shows "\<exists>c' nt'. rudp_run L xs (c, nt) = Some (c', nt') \<and> rudp_inv c' \<and>
    ru_refcount c' = ru_refcount c \<and> ru_freed c' = ru_freed c"
  using assms(1,3)
proof (induction xs arbitrary: c nt)
  case Nil then show ?case by simp
next
  case (Cons x xs)
  obtain c1 nt1 where "rudp_step L x (c, nt) = Some (c1, nt1)" "rudp_inv c1"
      "ru_refcount c1 = ru_refcount c" "ru_freed c1 = ru_freed c"
    using rudp_step_ok [OF Cons.prems(1) assms(2), of x nt] Cons.prems(2) by auto
  then show ?case using Cons.IH [of c1 nt1] Cons.prems(2) by auto
qed

theorem rudp_run_invariant_witness:
  "\<exists>c' nt'. rudp_run demo_lib [Op_send [1, 2] 0, Op_poll [(replicate 60 9, Sa_in 1 2)], Op_recv 10, Op_ready True]
      (demo_rudp, demo_net) = Some (c', nt') \<and> rudp_inv c' \<and> ru_refcount c' = 1"
  using rudp_run_invariant [OF demo_rudp_inv demo_lib_ok(1),
      of "[Op_send [1, 2] 0, Op_poll [(replicate 60 9, Sa_in 1 2)], Op_recv 10, Op_ready True]" demo_net]
  by (simp add: rudp_op_ok_def demo_rudp_def del: rudp_run.simps) blast

section \<open>The send budget and the suspension of UDP data\<close>

text \<open>
  The decision to carry data over UDP: when \<open>rudp_is_send_ready\<close> says yes to a data block, the
  data path is not suspended, the last valid packet is within the keep-alive timeout, reception
  has been stable for ten seconds and the send budget is not exhausted. When eight overflows have
  accumulated it says no and suspends data for 30, 60, 120 or at most 240 seconds.
\<close>

theorem rudp_is_send_ready_decision:
  assumes "rudp_is_send_ready_nolock True c = (r, c')" "unat (ru_suspension_count c) < 2 ^ 31"
  shows "(r \<longrightarrow> \<not> ru_udp_data_suspended c' \<and> ru_last_recv_tick c \<noteq> 0 \<and>
        ru_now c \<le> ru_last_recv_tick c + rudp_timeout_value c \<and>
        ru_first_stable_receive_tick c + RUDP_REQUIRE_CONTINUOUS \<le> ru_now c \<and>
        ru_cwin_bytes c' \<noteq> 0 \<and> ru_recent_overflows c' < RUDP_OVERFLOW_SUSPEND_THRESHOLD) \<and>
    (ru_udp_data_suspended c' \<and> \<not> ru_udp_data_suspended c \<longrightarrow>
        \<not> r \<and> RUDP_OVERFLOW_SUSPEND_THRESHOLD \<le> ru_recent_overflows c \<and>
        (\<exists>k \<le> 3. ru_udp_data_resume_tick c' = ru_now c + 30000 * 2 ^ k))"
proof -
  define d where "d = rudp_clean_reset (rudp_cwin_refill c)"
  have d: "ru_udp_data_suspended d = ru_udp_data_suspended c" "ru_now d = ru_now c"
    "ru_last_recv_tick d = ru_last_recv_tick c" "ru_first_stable_receive_tick d = ru_first_stable_receive_tick c"
    "rudp_timeout_value d = rudp_timeout_value c"
    "ru_recent_overflows d = ru_recent_overflows c \<or> ru_recent_overflows d = 0"
    "ru_suspension_count d = ru_suspension_count c \<or> ru_suspension_count d = 0"
    by (simp_all add: d_def rudp_clean_reset_def rudp_cwin_refill_def rudp_timeout_value_def Let_def)
  define k where "k = nat (rudp_suspend_shift (ru_suspension_count d))"
  have k: "k \<le> 3" by (simp add: k_def rudp_suspend_shift_def Let_def RUDP_SUSPEND_BACKOFF_MAX_SHIFT_def nat_le_iff)
  have p: "push_bit (nat (rudp_suspend_shift (ru_suspension_count d))) RUDP_UDP_SUSPEND_MS = 30000 * 2 ^ k"
    by (simp add: push_bit_eq_mult RUDP_UDP_SUSPEND_MS_def k_def)
  have t: "0 < RUDP_OVERFLOW_SUSPEND_THRESHOLD" by (simp add: RUDP_OVERFLOW_SUSPEND_THRESHOLD_def)
  have tv: "rudp_timeout_value (d\<lparr>ru_udp_data_suspended := x, ru_recent_overflows := y\<rparr>) = rudp_timeout_value c" for x y
    using d(5) by (simp add: rudp_timeout_value_def)
  have "if ru_udp_data_suspended c \<and> ru_now c < ru_udp_data_resume_tick d then r = False \<and> c' = d
    else if \<not> ru_udp_data_suspended c \<and> RUDP_OVERFLOW_SUSPEND_THRESHOLD \<le> ru_recent_overflows d
    then r = False \<and> ru_udp_data_resume_tick c' = ru_now c + 30000 * 2 ^ k
    else ru_udp_data_suspended c' = False \<and> ru_recent_overflows c' < RUDP_OVERFLOW_SUSPEND_THRESHOLD \<and>
      ru_cwin_bytes c' = ru_cwin_bytes d \<and>
      r = (\<not> (ru_last_recv_tick c = 0 \<or> ru_last_recv_tick c + rudp_timeout_value c < ru_now c) \<and>
        ru_first_stable_receive_tick c + RUDP_REQUIRE_CONTINUOUS \<le> ru_now c \<and> ru_cwin_bytes d \<noteq> 0)"
    using assms(1) d(1-5) t tv unfolding rudp_is_send_ready_nolock_def d_def [symmetric] Let_def
    by (auto simp: p not_le split: if_splits)
  then show ?thesis using d k t by (auto split: if_splits)
qed

theorem rudp_is_send_ready_decision_witness:
  "case rudp_is_send_ready_nolock True (demo_rudp\<lparr>ru_recent_overflows := 9, ru_suspension_count := 1, ru_now := 5\<rparr>) of
     (r, c') \<Rightarrow> \<not> r \<and> ru_udp_data_suspended c' \<and> (\<exists>k \<le> 3. ru_udp_data_resume_tick c' = 5 + 30000 * 2 ^ k)"
proof -
  let ?c = "demo_rudp\<lparr>ru_recent_overflows := 9, ru_suspension_count := 1, ru_now := 5\<rparr>"
  obtain r c' where e: "rudp_is_send_ready_nolock True ?c = (r, c')" by fastforce
  then have "ru_udp_data_suspended c'"
    by (auto simp: rudp_is_send_ready_nolock_def rudp_cwin_refill_def rudp_clean_reset_def demo_rudp_def rudp_zero_def
        RUDP_OVERFLOW_SUSPEND_THRESHOLD_def Let_def)
  then show ?thesis using rudp_is_send_ready_decision [OF e] e by (simp add: demo_rudp_def rudp_zero_def)
qed

section \<open>Creation\<close>

lemma pick_cookie_Some:
  assumes "rudp_pick_cookie other nt = Some (v, nt')"
  shows "v \<noteq> 0 \<and> other \<noteq> Some v \<and> nt_rand nt' = nt_rand nt"
proof -
  have "fst (v, nt') \<noteq> 0 \<and> other \<noteq> Some (fst (v, nt')) \<and> nt_rand (snd (v, nt')) = nt_rand nt"
  proof (rule rudp_pick_cookie.raw_induct [where P = "\<lambda>other nt r. fst r \<noteq> 0 \<and> other \<noteq> Some (fst r) \<and> nt_rand (snd r) = nt_rand nt",
        OF _ assms])
    fix f :: "u32 option \<Rightarrow> net \<Rightarrow> (u32 \<times> net) option" and other nt r
    assume IH: "\<And>other nt r. f other nt = Some r \<Longrightarrow> fst r \<noteq> 0 \<and> other \<noteq> Some (fst r) \<and> nt_rand (snd r) = nt_rand nt"
      and step: "(let (v, nt) = rand_u32 nt in if v = 0 \<or> other = Some v then f other nt else Some (v, nt)) = Some r"
    have "nt_rand (snd (rand_u32 nt)) = nt_rand nt" by (simp add: rand_u32_def random_bytes_def)
    then show "fst r \<noteq> 0 \<and> other \<noteq> Some (fst r) \<and> nt_rand (snd r) = nt_rand nt"
      using step IH by (auto simp: Let_def case_prod_beta split: if_splits)
  qed
  then show ?thesis by simp
qed

text \<open>With a generator that has failed for good the draw never ends; once it yields a fresh value it does.\<close>

lemma pick_cookie_diverges:
  assumes "\<And>k. nt_rand nt k 4 = None"
  shows "rudp_pick_cookie other nt = None"
proof (rule ccontr)
  assume "rudp_pick_cookie other nt \<noteq> None"
  then obtain r where r: "rudp_pick_cookie other nt = Some r" by auto
  have "\<not> (\<forall>k. nt_rand nt k 4 = None)"
  proof (rule rudp_pick_cookie.raw_induct [where P = "\<lambda>other nt r. \<not> (\<forall>k. nt_rand nt k 4 = None)", OF _ r])
    fix f :: "u32 option \<Rightarrow> net \<Rightarrow> (u32 \<times> net) option" and other nt r
    assume IH: "\<And>other nt r. f other nt = Some r \<Longrightarrow> \<not> (\<forall>k. nt_rand nt k 4 = None)"
      and step: "(let (v, nt) = rand_u32 nt in if v = 0 \<or> other = Some v then f other nt else Some (v, nt)) = Some r"
    show "\<not> (\<forall>k. nt_rand nt k 4 = None)"
    proof
      assume no: "\<forall>k. nt_rand nt k 4 = None"
      then have "rand_u32 nt = (0, nt\<lparr>nt_rands := nt_rands nt + 1\<rparr>)" by (simp add: rand_u32_def random_bytes_def)
      then show False using step IH [of other "nt\<lparr>nt_rands := nt_rands nt + 1\<rparr>" r] no by simp
    qed
  qed
  then show False using assms by simp
qed

lemma pick_cookie_returns:
  assumes "nt_rand nt (nt_rands nt + n) 4 = Some b" "rd32 b \<noteq> 0" "other \<noteq> Some (rd32 b)"
  shows "\<exists>v nt'. rudp_pick_cookie other nt = Some (v, nt')"
  using assms
proof (induction n arbitrary: nt)
  case 0
  then show ?case by (subst rudp_pick_cookie.simps) (simp add: rand_u32_def random_bytes_def)
next
  case (Suc n)
  let ?nt = "nt\<lparr>nt_rands := nt_rands nt + 1\<rparr>"
  obtain v where v: "rand_u32 nt = (v, ?nt)" by (auto simp: rand_u32_def random_bytes_def)
  have "\<exists>v nt'. rudp_pick_cookie other ?nt = Some (v, nt')" using Suc by (intro Suc.IH) simp_all
  then show ?case by (subst rudp_pick_cookie.simps) (auto simp: v)
qed

lemma fill_random_net [simp]: "nt_rand (snd (fill_random b nt)) = nt_rand nt"
  by (simp add: fill_random_def random_bytes_def Let_def)

lemma create_socket_fresh:
  assumes "ru_udp_fd c = -1" "nt_sock nt (nt_socks nt) = Sock_ok fd port"
  shows "rudp_create_udp_socket c v6 nt =
       (0, c\<lparr>ru_udp_fd := fd, ru_my_port := port, ru_is_ipv6 := v6\<rparr>, nt\<lparr>nt_socks := nt_socks nt + 1\<rparr>)"
proof -
  have n: "(0 \<le> (-1 :: int)) = False" by simp
  show ?thesis unfolding rudp_create_udp_socket_def Let_def
    by (simp only: assms n if_False prod.case sock_answer.case)
qed

definition fresh_values :: "net \<Rightarrow> bool" where
  "fresh_values nt \<longleftrightarrow> (\<forall>k x. \<exists>k' \<ge> k. \<exists>b. nt_rand nt k' 4 = Some b \<and> rd32 b \<noteq> 0 \<and> rd32 b \<noteq> x)"

lemma pick_cookie_total: "fresh_values nt \<Longrightarrow> \<exists>v nt'. rudp_pick_cookie other nt = Some (v, nt')"
proof -
  assume "fresh_values nt"
  then obtain k b where "nt_rands nt \<le> k" "nt_rand nt k 4 = Some b" "rd32 b \<noteq> 0" "rd32 b \<noteq> (case other of Some x \<Rightarrow> x | None \<Rightarrow> 0)"
    unfolding fresh_values_def by blast
  then show ?thesis using pick_cookie_returns [of nt "k - nt_rands nt" b other] by (cases other) auto
qed

lemma fresh_values_cong: "nt_rand nt = nt_rand nt' \<Longrightarrow> fresh_values nt = fresh_values nt'"
  by (simp add: fresh_values_def)

text \<open>The context after the keys and initialisation vectors have been drawn.\<close>

lemma create_unfold:
  assumes "rand_ok nt" "nt_sock nt (nt_socks nt) = Sock_ok fd port"
  obtains c nt1 where "rudp_inv c" "ru_refcount c = 1" "\<not> ru_destroying c" "ru_udp_fd c = fd" "nt_rand nt1 = nt_rand nt"
    "rudp_create True cl nt = do { (m, nt) \<leftarrow> rudp_pick_cookie None nt1;
       (y, nt) \<leftarrow> rudp_pick_cookie (Some m) nt; let (now, nt) = softether_tick_ms nt;
       Some (Some (c\<lparr>ru_my_cookie := m, ru_your_cookie := y, ru_now := now\<rparr>), nt) }"
proof -
  let ?c = "rudp_zero\<lparr>ru_refcount := 1, ru_destroying := False, ru_is_client_mode := cl, ru_version := 1,
    ru_mss := RUDP_DEFAULT_MSS, ru_max_udp_packet_size := RUDP_MAX_UDP_PACKET_IPV4, ru_udp_fd := fd,
    ru_my_port := port, ru_is_ipv6 := False\<rparr>"
  obtain k1 n1 where f1: "fill_random (ru_my_key ?c) (nt\<lparr>nt_socks := nt_socks nt + 1\<rparr>) = (k1, n1)" by fastforce
  obtain k2 n2 where f2: "fill_random (ru_your_key ?c) n1 = (k2, n2)" by fastforce
  obtain k3 n3 where f3: "fill_random (ru_my_key_v2 ?c) n2 = (k3, n3)" by fastforce
  obtain k4 n4 where f4: "fill_random (ru_your_key_v2 ?c) n3 = (k4, n4)" by fastforce
  obtain k5 n5 where f5: "fill_random (ru_next_iv ?c) n4 = (k5, n5)" by fastforce
  obtain k6 n6 where f6: "fill_random (ru_next_iv_v2 ?c) n5 = (k6, n6)" by fastforce
  have r: "nt_rand n1 = nt_rand nt" "nt_rand n2 = nt_rand nt" "nt_rand n3 = nt_rand nt" "nt_rand n4 = nt_rand nt"
    "nt_rand n5 = nt_rand nt" "nt_rand n6 = nt_rand nt"
    using fill_random_net [of "ru_my_key ?c" "nt\<lparr>nt_socks := nt_socks nt + 1\<rparr>"] fill_random_net [of "ru_your_key ?c" n1]
      fill_random_net [of "ru_my_key_v2 ?c" n2] fill_random_net [of "ru_your_key_v2 ?c" n3]
      fill_random_net [of "ru_next_iv ?c" n4] fill_random_net [of "ru_next_iv_v2 ?c" n5]
    unfolding f1 f2 f3 f4 f5 f6 by simp_all
  have ok: "rand_ok (nt\<lparr>nt_socks := nt_socks nt + 1\<rparr>)" "rand_ok n1" "rand_ok n2" "rand_ok n3" "rand_ok n4" "rand_ok n5"
    using assms(1) r by (simp_all add: rand_ok_def)
  let ?d = "?c\<lparr>ru_my_key := k1, ru_your_key := k2, ru_my_key_v2 := k3, ru_your_key_v2 := k4, ru_next_iv := k5, ru_next_iv_v2 := k6\<rparr>"
  have "length k1 = 20" "length k2 = 20" "length k3 = 128" "length k4 = 128" "length k5 = 20" "length k6 = 12"
    using fill_random_length [OF ok(1) f1] fill_random_length [OF ok(2) f2] fill_random_length [OF ok(3) f3]
      fill_random_length [OF ok(4) f4] fill_random_length [OF ok(5) f5] fill_random_length [OF ok(6) f6]
    by (simp_all add: rudp_zero_def rudp_sizes)
  then have "rudp_inv ?d"
    using frame_empty_inv [of RUDP_RECV_QUEUE_SIZE RUDP_MAX_PAYLOAD_SIZE]
    by (simp add: rudp_inv_def rudp_zero_def rudp_sizes)
  moreover have "rudp_create True cl nt = do { (m, nt) \<leftarrow> rudp_pick_cookie None n6;
       (y, nt) \<leftarrow> rudp_pick_cookie (Some m) nt; let (now, nt) = softether_tick_ms nt;
       Some (Some (?d\<lparr>ru_my_cookie := m, ru_your_cookie := y, ru_now := now\<rparr>), nt) }"
    using f1 f2 f3 f4 f5 f6 unfolding rudp_create_def Let_def
    by (simp add: create_socket_fresh [OF _ assms(2)])
  ultimately show ?thesis using that [of ?d n6] r by simp
qed

text \<open>
  C37. Creating a context: what \<open>rudp_create\<close> returns satisfies the invariant with one reference
  and two different non-zero cookies, and it does return whenever the socket opens and the random
  generator keeps delivering fresh values. When the generator fails for good, the loops that draw
  the cookies (its error value is 0) never end and the call does not return.
\<close>

theorem rudp_create_outcome:
  assumes "rand_ok nt" "nt_sock nt (nt_socks nt) = Sock_ok fd port"
  shows "(\<forall>c nt'. rudp_create True cl nt = Some (Some c, nt') \<longrightarrow>
           rudp_inv c \<and> ru_refcount c = 1 \<and> \<not> ru_destroying c \<and> ru_udp_fd c = fd \<and>
           ru_my_cookie c \<noteq> 0 \<and> ru_your_cookie c \<noteq> 0 \<and> ru_your_cookie c \<noteq> ru_my_cookie c) \<and>
    (fresh_values nt \<longrightarrow> (\<exists>c nt'. rudp_create True cl nt = Some (Some c, nt'))) \<and>
    ((\<forall>k. nt_rand nt k 4 = None) \<longrightarrow> rudp_create True cl nt = None)"
proof -
  obtain c nt1 where c: "rudp_inv c" "ru_refcount c = 1" "\<not> ru_destroying c" "ru_udp_fd c = fd"
    and r: "nt_rand nt1 = nt_rand nt" and e: "rudp_create True cl nt = do { (m, nt) \<leftarrow> rudp_pick_cookie None nt1;
       (y, nt) \<leftarrow> rudp_pick_cookie (Some m) nt; let (now, nt) = softether_tick_ms nt;
       Some (Some (c\<lparr>ru_my_cookie := m, ru_your_cookie := y, ru_now := now\<rparr>), nt) }"
    by (rule create_unfold [OF assms, of cl])
  have "\<exists>c nt'. rudp_create True cl nt = Some (Some c, nt')" if f: "fresh_values nt"
  proof -
    obtain m nt2 where m: "rudp_pick_cookie None nt1 = Some (m, nt2)"
      using pick_cookie_total [of nt1 None] f r fresh_values_cong [of nt1 nt] by auto
    then have "fresh_values nt2" using pick_cookie_Some [OF m] f r fresh_values_cong [of nt2 nt] by simp
    then obtain y nt3 where "rudp_pick_cookie (Some m) nt2 = Some (y, nt3)" using pick_cookie_total by blast
    then show ?thesis by (simp add: e m softether_tick_ms_def)
  qed
  moreover have "rudp_create True cl nt = None" if "\<forall>k. nt_rand nt k 4 = None"
    using pick_cookie_diverges [of nt1 None] that r by (simp add: e)
  moreover have "rudp_inv c' \<and> ru_refcount c' = 1 \<and> \<not> ru_destroying c' \<and> ru_udp_fd c' = fd \<and>
      ru_my_cookie c' \<noteq> 0 \<and> ru_your_cookie c' \<noteq> 0 \<and> ru_your_cookie c' \<noteq> ru_my_cookie c'"
    if "rudp_create True cl nt = Some (Some c', nt')" for c' nt'
  proof -
    from that obtain m nt2 where m: "rudp_pick_cookie None nt1 = Some (m, nt2)"
      unfolding e by (cases "rudp_pick_cookie None nt1") auto
    with that obtain y nt3 where y: "rudp_pick_cookie (Some m) nt2 = Some (y, nt3)"
      unfolding e by (cases "rudp_pick_cookie (Some m) nt2") auto
    have "c' = c\<lparr>ru_my_cookie := m, ru_your_cookie := y, ru_now := nt_tick nt3 (nt_ticks nt3)\<rparr>"
      using that unfolding e by (simp add: m y softether_tick_ms_def)
    then show ?thesis using pick_cookie_Some [OF m] pick_cookie_Some [OF y] c by auto
  qed
  ultimately show ?thesis by blast
qed

definition demo_rand :: "nat \<Rightarrow> nat \<Rightarrow> byte list option" where
  "demo_rand k n = Some (replicate n (if even k then 1 else 2))"

lemma demo_fresh: "fresh_values (demo_net\<lparr>nt_rand := demo_rand\<rparr>)"
  unfolding fresh_values_def
proof (intro allI)
  fix k :: nat and x :: u32
  define k' where "k' = (if x = 0x01010101 then 2 * k + 1 else 2 * k)"
  have v: "rd32 (replicate 4 1) = 0x01010101" "rd32 (replicate 4 2) = 0x02020202" by code_simp+
  show "\<exists>k' \<ge> k. \<exists>b. nt_rand (demo_net\<lparr>nt_rand := demo_rand\<rparr>) k' 4 = Some b \<and> rd32 b \<noteq> 0 \<and> rd32 b \<noteq> x"
    by (rule exI [of _ k'], cases "x = 0x01010101") (simp_all add: k'_def demo_rand_def v)
qed

theorem rudp_create_outcome_witness:
  "(\<exists>c nt'. rudp_create True True (demo_net\<lparr>nt_rand := demo_rand\<rparr>) = Some (Some c, nt')) \<and>
    rudp_create True True (demo_net\<lparr>nt_rand := \<lambda>k n. None\<rparr>) = None"
proof -
  have s: "nt_sock (demo_net\<lparr>nt_rand := r\<rparr>) (nt_socks (demo_net\<lparr>nt_rand := r\<rparr>)) = Sock_ok 7 4000" for r
    by (simp add: demo_net_def)
  have o: "rand_ok (demo_net\<lparr>nt_rand := demo_rand\<rparr>)" "rand_ok (demo_net\<lparr>nt_rand := \<lambda>k n. None\<rparr>)"
    by (simp_all add: rand_ok_def demo_rand_def)
  show ?thesis
    using rudp_create_outcome [OF o(1) s, of True] rudp_create_outcome [OF o(2) s, of True] demo_fresh
    by simp
qed

end
