(* ===== verification/Packet_Stream.thy ===== *)
theory Packet_Stream
  imports Link_Io Rudp_Proofs
begin

text \<open>
  What a message means: the receive queue after reading a message is a function of the bytes the link
  delivers, and reading what the sender writes gives back what was sent.
\<close>

interpretation connq: frame_fifo "frame_inv RECV_QUEUE_SIZE MAX_QUEUED_FRAME" frame_contents
    RECV_QUEUE_SIZE MAX_QUEUED_FRAME "frame_put RECV_QUEUE_SIZE" frame_len frame_get "frame_pop RECV_QUEUE_SIZE"
  by (rule frame_fifo_ring) (simp add: conn_sizes)

abbreviation queue_ok :: "frame_ring \<Rightarrow> bool" where
  "queue_ok q \<equiv> frame_inv RECV_QUEUE_SIZE MAX_QUEUED_FRAME q"

section \<open>Messages\<close>

definition blocks_wire :: "byte list list \<Rightarrow> byte list" where
  "blocks_wire ds = concat (map (\<lambda>d. be32 (word_of_nat (length d)) @ d) ds)"

definition message_wire :: "byte list list \<Rightarrow> byte list" where
  "message_wire ds = be32 (word_of_nat (length ds)) @ blocks_wire ds"

definition fits :: "byte list \<Rightarrow> bool" where
  "fits d \<longleftrightarrow> d \<noteq> [] \<and> length d \<le> MAX_QUEUED_FRAME"

definition unpacked :: "rudp_lib \<Rightarrow> softether_connection \<Rightarrow> byte list \<Rightarrow> byte list" where
  "unpacked L c d = (if cn_server_use_compress c then unpack_block L MAX_QUEUED_FRAME d else d)"

definition queue_room :: "softether_connection \<Rightarrow> nat" where
  "queue_room c = RECV_QUEUE_SIZE - length (frame_contents (cn_recv_queue c))"

text \<open>What the blocks \<open>ds\<close> add to the queue, and how many of them are skipped.\<close>

definition queued :: "rudp_lib \<Rightarrow> softether_connection \<Rightarrow> byte list list \<Rightarrow> byte list list" where
  "queued L c ds = take (queue_room c) (map (unpacked L c) (filter fits ds))"

definition skipped :: "rudp_lib \<Rightarrow> softether_connection \<Rightarrow> byte list list \<Rightarrow> nat" where
  "skipped L c ds = length (filter (\<lambda>d. d \<noteq> []) ds) - length (queued L c ds)"

definition set_queue :: "frame_ring \<Rightarrow> u32 \<Rightarrow> softether_connection \<Rightarrow> softether_connection" where
  "set_queue q k c = c\<lparr>cn_recv_queue := q, cn_rx_skipped_blocks := cn_rx_skipped_blocks c + k\<rparr>"

lemma link_set_queue [simp]:
  "link_ok (c\<lparr>cn_recv_queue := q\<rparr>) = link_ok c" "link_avail (c\<lparr>cn_recv_queue := q\<rparr>) = link_avail c"
  "link_ok (c\<lparr>cn_rx_skipped_blocks := k\<rparr>) = link_ok c" "link_avail (c\<lparr>cn_rx_skipped_blocks := k\<rparr>) = link_avail c"
  "link_ok (set_queue q k c) = link_ok c" "link_avail (set_queue q k c) = link_avail c"
  by (simp_all add: link_ok_def link_avail_def link_io_resolve_def set_queue_def fun_eq_iff)

lemma unpack_length:
  assumes "lib_ok L" "length d \<le> cap"
  shows "length (unpack_block L cap d) \<le> cap"
  using assms by (auto simp: unpack_block_def uncompress_data_def z_wrap_def lib_ok_def split: option.splits)

lemma unpacked_length: "lib_ok L \<Longrightarrow> fits d \<Longrightarrow> length (unpacked L c d) \<le> MAX_QUEUED_FRAME"
  by (simp add: unpacked_def fits_def unpack_length)

lemma unat_block:
  assumes "length d \<le> 2560000"
  shows "unat (word_of_nat (length d) :: u32) = length d" "\<not> MAX_BLOCK_SIZE < (word_of_nat (length d) :: u32)"
proof -
  show u: "unat (word_of_nat (length d) :: u32) = length d" using assms by (simp add: unat_of_nat32)
  show "\<not> MAX_BLOCK_SIZE < (word_of_nat (length d) :: u32)"
    using assms by (simp add: word_less_nat_alt u MAX_BLOCK_SIZE_def)
qed

text \<open>One block that fits, with room in the queue.\<close>

lemma fill_slot_ok:
  assumes "link_ok c (ti_ssl sel) (ti_fd sel) nt" "link_avail c (ti_ssl sel) (ti_fd sel) nt = d @ rest"
    and "fits d" "queue_ok (cn_recv_queue c)" "0 < queue_room c" "nt_malloc nt = []" "lib_ok L"
  shows "\<exists>q nt'. fill_slot L sel (word_of_nat (length d)) c nt = Some (None, c\<lparr>cn_recv_queue := q\<rparr>, nt') \<and>
     queue_ok q \<and> frame_contents q = frame_contents (cn_recv_queue c) @ [unpacked L c d] \<and>
     link_ok c (ti_ssl sel) (ti_fd sel) nt' \<and> link_avail c (ti_ssl sel) (ti_fd sel) nt' = rest \<and> nt_malloc nt' = []"
proof -
  have u: "unat (word_of_nat (length d) :: u32) = length d"
    using assms(3) by (intro unat_block) (simp add: fits_def conn_sizes)
  obtain nt' where nt': "data_read_all_sock c (ti_ssl sel) (ti_fd sel) (length d) nt = Some (0, d, nt')"
    "link_ok c (ti_ssl sel) (ti_fd sel) nt'" "link_avail c (ti_ssl sel) (ti_fd sel) nt' = rest" "nt_malloc nt' = []"
    using link.read_bytes [OF assms(1,2) refl] assms(6) by auto
  have "length (frame_contents (cn_recv_queue c)) < RECV_QUEUE_SIZE" using assms(5) by (simp add: queue_room_def)
  then obtain q where q: "frame_put RECV_QUEUE_SIZE (unpacked L c d) (cn_recv_queue c) = Some q" "queue_ok q"
    "frame_contents q = frame_contents (cn_recv_queue c) @ [unpacked L c d]"
    using connq.put_ok [OF assms(4) _ unpacked_length [OF assms(7,3), of c]] by blast
  obtain q1 where q1: "slot_store (unpacked L c d) (cn_recv_queue c) = Some q1"
    "slot_commit RECV_QUEUE_SIZE (word_of_nat (length (unpacked L c d))) q1 = Some q"
    using q(1) unfolding frame_put_def bind_eq_Some_conv by blast
  have m: "net_malloc nt = (True, nt)" using assms(6) by (simp add: net_malloc_def)
  have "fill_slot L sel (word_of_nat (length d)) c nt = Some (None, c\<lparr>cn_recv_queue := q\<rparr>, nt')"
    using q1 by (simp add: fill_slot_def unpacked_def u nt'(1) m split: if_split_asm)
  then show ?thesis using q nt' by blast
qed

lemma fill_blocks_step:
  assumes "link_ok c (ti_ssl sel) (ti_fd sel) nt" "length d \<le> 2560000"
    and "link_avail c (ti_ssl sel) (ti_fd sel) nt = be32 (word_of_nat (length d)) @ bs"
  shows "\<exists>nt1. link_ok c (ti_ssl sel) (ti_fd sel) nt1 \<and> link_avail c (ti_ssl sel) (ti_fd sel) nt1 = bs \<and>
     nt_malloc nt1 = nt_malloc nt \<and>
     fill_blocks L sel (Suc n) c nt =
       (if d = [] then fill_blocks L sel n c nt1
        else if fits d \<and> fr_count (cn_recv_queue c) < RECV_QUEUE_SIZE
        then do { (r, c, nt) \<leftarrow> fill_slot L sel (word_of_nat (length d)) c nt1;
                  case r of None \<Rightarrow> fill_blocks L sel n c nt | Some r \<Rightarrow> Some (Some r, c, nt) }
        else do { (ret, nt) \<leftarrow> skip_block (data_read_all_sock c (ti_ssl sel) (ti_fd sel)) (length d) nt1;
                  if ret \<noteq> 0
                  then do { (r, c, nt) \<leftarrow> close_failed_additional sel c nt; Some (Some r, c, nt) }
                  else fill_blocks L sel n (c\<lparr>cn_rx_skipped_blocks := cn_rx_skipped_blocks c + 1\<rparr>) nt })"
proof -
  note u = unat_block [OF assms(2)]
  obtain nt1 where nt1: "data_read_all_sock c (ti_ssl sel) (ti_fd sel) 4 nt = Some (0, be32 (word_of_nat (length d)), nt1)"
    "link_ok c (ti_ssl sel) (ti_fd sel) nt1" "link_avail c (ti_ssl sel) (ti_fd sel) nt1 = bs" "nt_malloc nt1 = nt_malloc nt"
    using link.read_word [OF assms(1,3)] by blast
  have r: "read_uint32_sock c (ti_ssl sel) (ti_fd sel) nt = Some (Some (word_of_nat (length d)), nt1)"
    using nt1(1) by (simp add: read_uint32_sock_def c32.dec_enc_Nil)
  have z: "(word_of_nat (length d) :: u32) = 0 \<longleftrightarrow> d = []" using u(1) by (metis length_0_conv unat_eq_0)
  show ?thesis
    by (rule exI [of _ nt1]) (use nt1 r u z in \<open>simp add: fits_def del: skip_block.simps\<close>)
qed

lemma queued_Cons:
  "queued L c (d # ds) =
     (if fits d \<and> 0 < queue_room c then unpacked L c d # take (queue_room c - 1) (map (unpacked L c) (filter fits ds))
      else queued L c ds)"
  by (auto simp: queued_def take_Cons')

lemma queued_length: "length (queued L c ds) \<le> length (filter (\<lambda>d. d \<noteq> []) ds)"
proof -
  have "length (queued L c ds) \<le> length (filter fits ds)" by (simp add: queued_def)
  also have "\<dots> \<le> length (filter (\<lambda>d. d \<noteq> []) ds)" by (induction ds) (auto simp: fits_def)
  finally show ?thesis .
qed

lemma queued_set_queue:
  "unpacked L (set_queue q k c) = unpacked L c" "unpacked L (c\<lparr>cn_rx_skipped_blocks := k\<rparr>) = unpacked L c"
  "unpacked L (c\<lparr>cn_recv_queue := q\<rparr>) = unpacked L c"
  "queued L (c\<lparr>cn_rx_skipped_blocks := k\<rparr>) ds = queued L c ds"
proof -
  show u: "unpacked L (set_queue q k c) = unpacked L c" "unpacked L (c\<lparr>cn_rx_skipped_blocks := k\<rparr>) = unpacked L c"
    "unpacked L (c\<lparr>cn_recv_queue := q\<rparr>) = unpacked L c"
    by (simp_all add: unpacked_def set_queue_def fun_eq_iff)
  show "queued L (c\<lparr>cn_rx_skipped_blocks := k\<rparr>) ds = queued L c ds" by (simp add: queued_def queue_room_def u)
qed

lemma fill_blocks_ok:
  assumes "lib_ok L"
  shows "link_ok c (ti_ssl sel) (ti_fd sel) nt \<Longrightarrow> link_avail c (ti_ssl sel) (ti_fd sel) nt = blocks_wire ds @ rest \<Longrightarrow>
     \<forall>d \<in> set ds. length d \<le> 2560000 \<Longrightarrow> queue_ok (cn_recv_queue c) \<Longrightarrow> nt_malloc nt = [] \<Longrightarrow>
     \<exists>q nt'. fill_blocks L sel (length ds) c nt = Some (None, set_queue q (word_of_nat (skipped L c ds)) c, nt') \<and>
       queue_ok q \<and> frame_contents q = frame_contents (cn_recv_queue c) @ queued L c ds \<and>
       link_ok c (ti_ssl sel) (ti_fd sel) nt' \<and> link_avail c (ti_ssl sel) (ti_fd sel) nt' = rest"
proof (induction ds arbitrary: c nt)
  case Nil
  have "set_queue (cn_recv_queue c) (word_of_nat (skipped L c [])) c = c"
    by (simp add: set_queue_def skipped_def queued_def)
  then show ?case using Nil by (auto simp: queued_def blocks_wire_def intro: exI [of _ "cn_recv_queue c"])
next
  case (Cons d ds)
  have av: "link_avail c (ti_ssl sel) (ti_fd sel) nt = be32 (word_of_nat (length d)) @ d @ blocks_wire ds @ rest"
    using Cons.prems(2) by (simp add: blocks_wire_def)
  obtain nt1 where nt1: "link_ok c (ti_ssl sel) (ti_fd sel) nt1" "link_avail c (ti_ssl sel) (ti_fd sel) nt1 = d @ blocks_wire ds @ rest"
    "nt_malloc nt1 = []" and step: "fill_blocks L sel (Suc (length ds)) c nt =
       (if d = [] then fill_blocks L sel (length ds) c nt1
        else if fits d \<and> fr_count (cn_recv_queue c) < RECV_QUEUE_SIZE
        then do { (r, c, nt) \<leftarrow> fill_slot L sel (word_of_nat (length d)) c nt1;
                  case r of None \<Rightarrow> fill_blocks L sel (length ds) c nt | Some r \<Rightarrow> Some (Some r, c, nt) }
        else do { (ret, nt) \<leftarrow> skip_block (data_read_all_sock c (ti_ssl sel) (ti_fd sel)) (length d) nt1;
                  if ret \<noteq> 0
                  then do { (r, c, nt) \<leftarrow> close_failed_additional sel c nt; Some (Some r, c, nt) }
                  else fill_blocks L sel (length ds) (c\<lparr>cn_rx_skipped_blocks := cn_rx_skipped_blocks c + 1\<rparr>) nt })"
    using fill_blocks_step [OF Cons.prems(1) _ av, of L "length ds"] Cons.prems(3,5) by auto
  consider (empty) "d = []" | (slot) "fits d" "0 < queue_room c" | (skip) "d \<noteq> []" "\<not> (fits d \<and> 0 < queue_room c)"
    by (auto simp: fits_def)
  then show ?case
  proof cases
    case empty
    then show ?thesis using Cons.IH [OF nt1(1)] nt1 Cons.prems step
      by (simp add: skipped_def queued_Cons fits_def)
  next
    case slot
    obtain q nt2 where q: "fill_slot L sel (word_of_nat (length d)) c nt1 = Some (None, c\<lparr>cn_recv_queue := q\<rparr>, nt2)"
      "queue_ok q" "frame_contents q = frame_contents (cn_recv_queue c) @ [unpacked L c d]"
      "link_ok c (ti_ssl sel) (ti_fd sel) nt2" "link_avail c (ti_ssl sel) (ti_fd sel) nt2 = blocks_wire ds @ rest" "nt_malloc nt2 = []"
      using fill_slot_ok [OF nt1(1,2) slot(1) Cons.prems(4) slot(2) nt1(3) assms] by blast
    let ?c = "c\<lparr>cn_recv_queue := q\<rparr>"
    have r: "queue_room ?c = queue_room c - 1" using q(3) by (simp add: queue_room_def)
    have qd: "queued L c (d # ds) = unpacked L c d # queued L ?c ds"
      unfolding queued_Cons using slot r by (simp add: queued_def [of L ?c] queued_set_queue)
    have sk: "skipped L c (d # ds) = skipped L ?c ds" using slot(1) by (simp add: skipped_def qd fits_def)
    obtain q' nt3 where i: "fill_blocks L sel (length ds) ?c nt2 = Some (None, set_queue q' (word_of_nat (skipped L ?c ds)) ?c, nt3)"
      "queue_ok q'" "frame_contents q' = frame_contents q @ queued L ?c ds"
      "link_ok c (ti_ssl sel) (ti_fd sel) nt3" "link_avail c (ti_ssl sel) (ti_fd sel) nt3 = rest"
      using Cons.IH [of ?c nt2] q Cons.prems(3) by auto
    have "fill_blocks L sel (length (d # ds)) c nt = Some (None, set_queue q' (word_of_nat (skipped L c (d # ds))) c, nt3)"
      using step slot q(1) i(1) sk by (simp add: fits_def queue_room_def set_queue_def del: fill_blocks.simps)
    then show ?thesis unfolding qd using i q(3) by (intro exI [of _ q'] exI [of _ nt3]) (simp del: fill_blocks.simps)
  next
    case skip
    let ?c = "c\<lparr>cn_rx_skipped_blocks := cn_rx_skipped_blocks c + 1\<rparr>"
    obtain nt2 where nt2: "skip_block (data_read_all_sock c (ti_ssl sel) (ti_fd sel)) (length d) nt1 = Some (0, nt2)"
      "link_ok c (ti_ssl sel) (ti_fd sel) nt2" "link_avail c (ti_ssl sel) (ti_fd sel) nt2 = blocks_wire ds @ rest" "nt_malloc nt2 = []"
      using link.skip_append [OF nt1(1,2) refl] nt1(3) by auto
    have qd: "queued L c (d # ds) = queued L c ds" unfolding queued_Cons by (simp only: skip(2) if_False)
    have sk: "skipped L c (d # ds) = Suc (skipped L c ds)"
      using skip queued_length [of L c ds] by (simp add: skipped_def qd)
    have skc: "skipped L ?c ds = skipped L c ds" by (simp add: skipped_def queued_set_queue)
    obtain q' nt3 where i: "fill_blocks L sel (length ds) ?c nt2 = Some (None, set_queue q' (word_of_nat (skipped L c ds)) ?c, nt3)"
      "queue_ok q'" "frame_contents q' = frame_contents (cn_recv_queue c) @ queued L c ds"
      "link_ok c (ti_ssl sel) (ti_fd sel) nt3" "link_avail c (ti_ssl sel) (ti_fd sel) nt3 = rest"
      using Cons.IH [of ?c nt2] nt2 Cons.prems(3,4) by (auto simp: queued_set_queue skc)
    have "fill_blocks L sel (length (d # ds)) c nt = Some (None, set_queue q' (word_of_nat (skipped L c (d # ds))) c, nt3)"
      using step skip nt2(1) i(1) sk by (auto simp: queue_room_def set_queue_def simp del: skip_block.simps fill_blocks.simps)
    then show ?thesis unfolding qd using i by (intro exI [of _ q'] exI [of _ nt3]) (simp del: fill_blocks.simps)
  qed
qed

text \<open>A whole message, read from a link.\<close>

lemma read_message_blocks:
  assumes "lib_ok L" "link_ok c (ti_ssl sel) (ti_fd sel) nt"
    and "link_avail c (ti_ssl sel) (ti_fd sel) nt = message_wire ds @ rest"
    and "ds \<noteq> []" "length ds < 2 ^ 32 - 1" "\<forall>d \<in> set ds. length d \<le> 2560000" "queue_ok (cn_recv_queue c)" "nt_malloc nt = []"
  shows "\<exists>q nt'. read_message L sel c nt =
      Some (if frame_contents q = [] then 0 else 1, set_queue q (word_of_nat (skipped L c ds)) c, nt') \<and>
    queue_ok q \<and> frame_contents q = frame_contents (cn_recv_queue c) @ queued L c ds \<and>
    link_ok c (ti_ssl sel) (ti_fd sel) nt' \<and> link_avail c (ti_ssl sel) (ti_fd sel) nt' = rest"
proof -
  have av: "link_avail c (ti_ssl sel) (ti_fd sel) nt = be32 (word_of_nat (length ds)) @ blocks_wire ds @ rest"
    using assms(3) by (simp add: message_wire_def)
  obtain nt1 where nt1: "data_read_all_sock c (ti_ssl sel) (ti_fd sel) 4 nt = Some (0, be32 (word_of_nat (length ds)), nt1)"
    "link_ok c (ti_ssl sel) (ti_fd sel) nt1" "link_avail c (ti_ssl sel) (ti_fd sel) nt1 = blocks_wire ds @ rest" "nt_malloc nt1 = []"
    using link.read_word [OF assms(2) av] assms(8) by auto
  have r: "read_uint32_sock c (ti_ssl sel) (ti_fd sel) nt = Some (Some (word_of_nat (length ds)), nt1)"
    using nt1(1) by (simp add: read_uint32_sock_def c32.dec_enc_Nil)
  have u: "unat (word_of_nat (length ds) :: u32) = length ds" using assms(5) by (simp add: unat_of_nat32)
  have n: "(word_of_nat (length ds) :: u32) \<noteq> 0" "(word_of_nat (length ds) :: u32) \<noteq> KEEP_ALIVE_MAGIC"
    using u assms(4,5) by (auto simp: KEEP_ALIVE_MAGIC_def dest: arg_cong [where f = unat])
  obtain q nt2 where q: "fill_blocks L sel (length ds) c nt1 = Some (None, set_queue q (word_of_nat (skipped L c ds)) c, nt2)"
    "queue_ok q" "frame_contents q = frame_contents (cn_recv_queue c) @ queued L c ds"
    "link_ok c (ti_ssl sel) (ti_fd sel) nt2" "link_avail c (ti_ssl sel) (ti_fd sel) nt2 = rest"
    using fill_blocks_ok [OF assms(1) nt1(2,3) assms(6,7) nt1(4)] by blast
  have "0 < fr_count q \<longleftrightarrow> frame_contents q \<noteq> []" by (metis frame_contents_length length_greater_0_conv)
  moreover have "cn_recv_queue (set_queue q k c) = q" for k by (simp add: set_queue_def)
  ultimately have "read_message L sel c nt =
      Some (if frame_contents q = [] then 0 else 1, set_queue q (word_of_nat (skipped L c ds)) c, nt2)"
    using r n q(1) u by (simp add: read_message_def)
  then show ?thesis using q by blast
qed

section \<open>Sending\<close>

text \<open>What travels for the payload \<open>d\<close>: in a compressed session, its compressed form.\<close>

definition wire_form :: "rudp_lib \<Rightarrow> (u32 \<Rightarrow> u32) \<Rightarrow> softether_connection \<Rightarrow> byte list \<Rightarrow> byte list" where
  "wire_form L zbound c d =
     (if cn_server_use_compress c then the (lb_compress L (unat (zbound (word_of_nat (length d)))) d) else d)"

definition sendable :: "rudp_lib \<Rightarrow> (u32 \<Rightarrow> u32) \<Rightarrow> softether_connection \<Rightarrow> byte list \<Rightarrow> bool" where
  "sendable L zbound c d \<longleftrightarrow> d \<noteq> [] \<and> length d \<le> MAX_QUEUED_FRAME \<and>
     (cn_server_use_compress c \<longrightarrow> 1 < length d \<and>
        (case lb_compress L (unat (zbound (word_of_nat (length d)))) d of None \<Rightarrow> False | Some z \<Rightarrow> length z \<le> MAX_QUEUED_FRAME))"

definition link_of :: "nat \<Rightarrow> softether_connection \<Rightarrow> nat option \<times> int" where
  "link_of k c = (if k = 0 then (cn_ssl c, cn_socket_fd c)
     else (ts_ssl (cn_additional c ! (k - 1)), ts_socket_fd (cn_additional c ! (k - 1))))"

definition socket_healthy :: "nat \<Rightarrow> softether_connection \<Rightarrow> net \<Rightarrow> bool" where
  "socket_healthy k c nt \<longleftrightarrow>
     (if k = 0 then main_sends c nt
      else ts_active (cn_additional c ! (k - 1)) \<and> ts_ssl (cn_additional c ! (k - 1)) \<noteq> None \<and>
           link_sends c (fst (link_of k c)) (snd (link_of k c)) nt)"

definition staging_ok :: "softether_connection \<Rightarrow> bool" where
  "staging_ok c \<longleftrightarrow> (\<exists>buf. cn_send_block c = Some buf \<and> length buf = unat (cn_send_block_cap c) \<and> 2056 \<le> length buf)"

lemma wire_form_ok:
  assumes "sendable L zb c d" "lib_inverse L"
  shows "wire_form L zb c d \<noteq> []" "length (wire_form L zb c d) \<le> MAX_QUEUED_FRAME"
    "cn_server_use_compress c2 = cn_server_use_compress c \<Longrightarrow> unpacked L c2 (wire_form L zb c d) = d"
proof -
  have inv: "z \<noteq> [] \<and> lb_uncompress L MAX_QUEUED_FRAME z = Some d" if "lb_compress L cap d = Some z" for cap z
    using that assms unfolding lib_inverse_def sendable_def by blast
  show "wire_form L zb c d \<noteq> []" "length (wire_form L zb c d) \<le> MAX_QUEUED_FRAME"
    using assms(1) inv by (auto simp: sendable_def wire_form_def split: option.splits)
  show "unpacked L c2 (wire_form L zb c d) = d" if "cn_server_use_compress c2 = cn_server_use_compress c"
    using assms(1) inv that
    by (auto simp: sendable_def wire_form_def unpacked_def unpack_block_def uncompress_data_def z_wrap_def split: option.splits)
qed

lemma session_compress_ok:
  assumes "sendable L zb c d" "lib_inverse L" "nt_malloc nt = []"
  shows "session_compress L zb c (Some d) (word_of_nat (length d)) nt =
     ((Some (wire_form L zb c d), word_of_nat (length (wire_form L zb c d))), nt)"
proof -
  have u: "unat (word_of_nat (length d) :: u32) = length d"
    using assms(1) by (simp add: sendable_def conn_sizes unat_of_nat32)
  have "1 < length d \<Longrightarrow> (1 :: u32) < word_of_nat (length d)" by (simp add: word_less_nat_alt u)
  then show ?thesis using assms u
    by (auto simp: session_compress_def sendable_def wire_form_def compress_data_def z_wrap_def net_malloc_def
        split: option.splits)
qed

lemma link_select [simp]:
  "main_sends (c\<lparr>cn_send_rr_idx := i\<rparr>) = main_sends c" "main_sends (c\<lparr>cn_send_block := b\<rparr>) = main_sends c"
  "link_sends (c\<lparr>cn_send_rr_idx := i\<rparr>) = link_sends c" "link_sends (c\<lparr>cn_send_block := b\<rparr>) = link_sends c"
  "link_out (c\<lparr>cn_send_rr_idx := i\<rparr>) = link_out c" "link_out (c\<lparr>cn_send_block := b\<rparr>) = link_out c"
  "link_of k (c\<lparr>cn_send_rr_idx := i\<rparr>) = link_of k c" "link_of k (c\<lparr>cn_send_block := b\<rparr>) = link_of k c"
  by (simp_all add: main_sends_def link_sends_def link_out_def link_of_def link_io_resolve_def conn_going_def fun_eq_iff)

lemma healthy_select [simp]:
  "socket_healthy k (c\<lparr>cn_send_rr_idx := i\<rparr>) = socket_healthy k c"
  "socket_healthy k (c\<lparr>cn_send_block := b\<rparr>) = socket_healthy k c"
  by (simp_all add: socket_healthy_def fun_eq_iff)

lemma healthy_ev [simp]: "socket_healthy k c (net_ev e nt) = socket_healthy k c nt" "link_out c ssl fd (net_ev e nt) = link_out c ssl fd nt"
  by (simp_all add: socket_healthy_def main_sends_def link_sends_def link_out_def)

lemma select_block:
  "softether_select_send_socket (c\<lparr>cn_send_block := b\<rparr>) =
     map_option (\<lambda>(k, c). (k, c\<lparr>cn_send_block := b\<rparr>)) (softether_select_send_socket c)"
  by (simp add: softether_select_send_socket_def send_candidates_def primary_sends_def Let_def)

lemma select_fields:
  assumes "softether_select_send_socket c = Some (k, c')"
  shows "\<exists>i. c' = c\<lparr>cn_send_rr_idx := i\<rparr>"
proof (cases "send_candidates c = []")
  case True
  then have "c' = c\<lparr>cn_send_rr_idx := cn_send_rr_idx c\<rparr>" using assms by (simp add: softether_select_send_socket_def)
  then show ?thesis by blast
qed (use assms in \<open>auto simp: softether_select_send_socket_def Let_def split: if_splits\<close>)

text \<open>Writing \<open>bs\<close> to socket \<open>k\<close>, the way the senders choose between the two write functions.\<close>

lemma write_healthy:
  assumes "socket_healthy k c nt" "link_of k c = (ssl, fd)"
  shows "\<exists>nt'. (if 0 < k then data_write_all_sock c ssl fd bs nt else data_write_all c bs nt) = Some (0, nt') \<and>
     link_out c ssl fd nt' = link_out c ssl fd nt @ bs \<and> socket_healthy k c nt'"
proof (cases "k = 0")
  case True
  then show ?thesis using assms main_tx.write_ok [of c nt bs] by (auto simp: socket_healthy_def link_of_def)
next
  case False
  then show ?thesis using assms link_tx.write_ok [of c ssl fd nt bs] by (auto simp: socket_healthy_def)
qed

lemma staging_write:
  assumes "length buf = n" "8 + length z \<le> n" "length z < 2 ^ 32"
  shows "\<exists>buf1 buf2. mem_write buf 0 (be32 1 @ be32 (word_of_nat (length z))) = Some buf1 \<and> length buf1 = n \<and>
     mem_write buf1 8 z = Some buf2 \<and> length buf2 = n \<and> take (8 + length z) buf2 = message_wire [z]"
proof -
  define h where "h = be32 1 @ be32 (word_of_nat (length z))"
  have h: "length h = 8" "message_wire [z] = h @ z" by (simp_all add: h_def be32_def message_wire_def blocks_wire_def)
  show ?thesis unfolding h_def [symmetric] h(2) using assms h(1) by simp
qed

lemma send_packet_ok:
  assumes s: "sendable L zb c d" and L: "lib_inverse L" and c: "conn_going c" "cn_ssl c \<noteq> None" "staging_ok c"
    and cmd: "command \<noteq> CMD_KEEPALIVE" "command \<noteq> CMD_KEEPALIVE_ACK" and m: "nt_malloc nt = []"
    and k: "softether_select_send_socket c = Some (k, ck)" "socket_healthy k c nt" "link_of k c = (ssl, fd)"
  shows "\<exists>c' nt'. softether_send_packet L zb c command (Some d) (word_of_nat (length d)) nt =
      Some (8 + int (length (wire_form L zb c d)), c', nt') \<and>
    link_out c ssl fd nt' = link_out c ssl fd nt @ message_wire [wire_form L zb c d]"
proof -
  define z where "z = wire_form L zb c d"
  have z: "z \<noteq> []" "length z \<le> 2048" using wire_form_ok(1,2) [OF s L] by (simp_all add: z_def conn_sizes)
  obtain buf where buf: "cn_send_block c = Some buf" "length buf = unat (cn_send_block_cap c)" "2056 \<le> length buf"
    using c(3) by (auto simp: staging_ok_def)
  let ?zl = "word_of_nat (length z) :: u32"
  have u: "unat ?zl = length z" using z by (simp add: unat_of_nat32)
  have u8: "unat (4 + 4 + ?zl) = 8 + length z" using unat_of_nat32 [of "8 + length z"] z by (simp add: add.assoc [symmetric])
  have s8: "sint (4 + 4 + ?zl) = 8 + int (length z)" using u8 z by (simp add: sint_uint signed_take_bit_int_eq_self uint_nat)
  obtain b1 b2 where b: "mem_write buf 0 (be32 1 @ be32 ?zl) = Some b1" "mem_write b1 8 z = Some b2" "length b2 = length buf"
    "take (8 + length z) b2 = message_wire [z]"
    using staging_write [OF refl, of z buf] buf(3) z by auto
  obtain i where i: "ck = c\<lparr>cn_send_rr_idx := i\<rparr>" using select_fields [OF k(1)] by blast
  let ?c = "ck\<lparr>cn_send_block := Some b2\<rparr>" let ?nt = "net_ev (Lock L_write) nt"
  have h: "socket_healthy k ?c ?nt" "link_of k ?c = (ssl, fd)"
    using k i by simp_all
  obtain nt' where w: "(if 0 < k then data_write_all_sock ?c ssl fd (message_wire [z]) ?nt
      else data_write_all ?c (message_wire [z]) ?nt) = Some (0, nt')" "link_out ?c ssl fd nt' = link_out ?c ssl fd ?nt @ message_wire [z]"
    using write_healthy [OF h] by blast
  have arg: "write_arg b2 (4 + 4 + ?zl) = Some (message_wire [z])"
    unfolding write_arg_def mem_read_def u8 using b buf z by simp
  have act: "\<not> (0 < k \<and> (\<not> ts_active (cn_additional ?c ! (k - 1)) \<or> ts_ssl (cn_additional ?c ! (k - 1)) = None))"
    using h(1) by (auto simp: socket_healthy_def)
  have cap: "\<not> cn_send_block_cap c < 4 + 4 + ?zl" unfolding word_less_nat_alt u8 using buf z by simp
  have pos: "0 < ?zl" using u z by (simp add: word_less_nat_alt)
  have rd: "mem_read z 0 (unat ?zl) = Some z" by (simp add: u mem_read_def)
  have sel: "softether_select_send_socket (c\<lparr>cn_send_block := Some b2\<rparr>) = Some (k, ?c)"
    using k(1) by (simp add: select_block)
  have "nt_malloc ?nt = []" using m by simp
  note sc = session_compress_ok [OF s L this, folded z_def]
  have "softether_send_packet L zb c command (Some d) (word_of_nat (length d)) nt =
      Some (8 + int (length z), ?c, net_ev (Unlock L_write) nt')"
  proof (cases "k = 0")
    case True
    then show ?thesis using c cmd buf(1) b cap pos rd sel arg w(1) s8 sc by (simp add: softether_send_packet_def Let_def conn_going_def)
  next
    case False
    then have "ssl = ts_ssl (cn_additional ?c ! (k - 1))" "fd = ts_socket_fd (cn_additional ?c ! (k - 1))"
      using h(2) by (simp_all add: link_of_def)
    then show ?thesis using False c cmd buf(1) b cap pos rd sel act arg w(1) s8 sc by (simp add: softether_send_packet_def Let_def conn_going_def)
  qed
  then show ?thesis using w(2) i by (auto simp: z_def link_out_def)
qed

section \<open>Writing leaves the incoming bytes alone\<close>

definition same_input :: "net \<Rightarrow> net \<Rightarrow> bool" where
  "same_input nt nt' \<longleftrightarrow>
     (\<forall>ssl. tls_ready ssl nt \<longrightarrow> tls_ready ssl nt' \<and> tls_avail ssl nt' = tls_avail ssl nt) \<and>
     (\<forall>e fd. raw_stream_avail e fd nt' = raw_stream_avail e fd nt) \<and> nt_malloc nt' = nt_malloc nt"

lemma same_input_refl [simp]: "same_input nt nt"
  by (simp add: same_input_def)

lemma same_input_trans [trans]: "same_input a b \<Longrightarrow> same_input b d \<Longrightarrow> same_input a d"
  by (simp add: same_input_def)

lemma raw_stream_ev [simp]: "raw_stream_avail e fd (net_ev ev nt) = raw_stream_avail e fd nt"
  by (simp add: raw_stream_avail_def)

lemma same_input_ev [simp]: "same_input (net_ev e nt) nt' = same_input nt nt'" "same_input nt (net_ev e nt') = same_input nt nt'"
  by (simp_all add: same_input_def)

lemma stream_write_avail: "stream_write bs s = (a, s') \<Longrightarrow> stream_avail f s' = stream_avail f s"
  by (auto simp: stream_write_def stream_avail_def split: list.splits tx_answer.splits)

lemma tls_set_input:
  assumes "sc_ssl (nt_tls nt i) = Some s" "stream_avail (ssl_avail 5) s' = stream_avail (ssl_avail 5) s"
  shows "same_input nt (tls_set i ((nt_tls nt i)\<lparr>sc_ssl := Some s'\<rparr>) nt)"
  using assms by (auto simp: same_input_def tls_ready_def tls_stream_def raw_stream_avail_def)

lemma ssl_write_input:
  assumes "ssl_write ssl bs nt = Some (ret, nt')"
  shows "same_input nt nt'"
proof (cases "\<exists>i s. ssl = Some i \<and> sc_ssl (nt_tls nt i) = Some s \<and> sc_connected (nt_tls nt i)")
  case False
  then show ?thesis using assms by (auto simp: ssl_write_def split: option.splits if_splits)
next
  case True
  then obtain i s where i: "ssl = Some i" "sc_ssl (nt_tls nt i) = Some s" "sc_connected (nt_tls nt i)" by blast
  obtain a s' where w: "stream_write bs s = (a, s')" by fastforce
  let ?nt = "net_ev (Touch i) (net_ev (Lock L_openssl) (net_ev (Lock L_tls_wr) nt))"
  have "same_input ?nt (tls_set i ((nt_tls ?nt i)\<lparr>sc_ssl := Some s'\<rparr>) ?nt)"
    by (rule tls_set_input [of _ _ s]) (use i stream_write_avail [OF w] in simp_all)
  then show ?thesis using assms i w by (auto simp: ssl_write_def Let_def split: tx_answer.splits if_splits)
qed

lemma ssl_write_loop_input: "ssl_write_loop ssl bs nt = Some (ret, nt') \<Longrightarrow> same_input nt nt'"
proof (induction ssl bs nt rule: ssl_write_loop.induct)
  case (1 ssl bs nt)
  show ?case
  proof (cases "bs = []")
    case True
    then show ?thesis using 1(2) by (subst (asm) ssl_write_loop.simps) simp
  next
    case False
    then obtain r nt1 where w: "ssl_write ssl bs nt = Some (r, nt1)"
      using 1(2) by (subst (asm) ssl_write_loop.simps) (auto split: option.splits)
    note i = ssl_write_input [OF w]
    show ?thesis
    proof (cases "r \<le> 0")
      case True
      then show ?thesis using 1(2) False w i by (subst (asm) ssl_write_loop.simps) simp
    next
      case pos: False
      have "ssl_write_loop ssl (drop (nat r) bs) nt1 = Some (ret, nt')"
        using 1(2) False w pos by (subst (asm) ssl_write_loop.simps) (simp del: ssl_write_loop.simps)
      from 1(1) [OF False w refl pos this] i show ?thesis by (blast intro: same_input_trans)
    qed
  qed
qed

lemma raw_write_input: "raw_write fd bs nt = (ret, nt') \<Longrightarrow> same_input nt nt'"
  by (auto simp: raw_write_def Let_def same_input_def tls_ready_def tls_stream_def raw_stream_avail_def stream_avail_def
      split: prod.splits)

lemma data_write_all_sock_input:
  assumes "data_write_all_sock c ssl fd bs nt = Some (ret, nt')"
  shows "same_input nt nt'"
proof (cases "cn_use_ssl_data c")
  case False
  then show ?thesis using assms raw_write_input [of fd bs nt] by (simp add: data_write_all_sock_def)
next
  case True
  then show ?thesis
    using assms ssl_write_loop_input [of ssl bs "net_ev l nt" for l]
    by (auto simp: data_write_all_sock_def Let_def bind_eq_Some_conv simp del: ssl_write_loop.simps split: option.splits if_splits)
qed

lemma rand_list_fields:
  "length (fst (rand_list n nt)) = n \<and> same_input nt (snd (rand_list n nt)) \<and> nt_tls (snd (rand_list n nt)) = nt_tls nt \<and>
     nt_trace (snd (rand_list n nt)) = nt_trace nt"
proof (induction n arbitrary: nt)
  case (Suc n)
  have "same_input nt (snd (c_rand nt))"
    by (simp add: c_rand_def same_input_def tls_ready_def tls_stream_def raw_stream_avail_def)
  then show ?case using Suc.IH [of "snd (c_rand nt)"]
    by (auto simp: Let_def c_rand_def split: prod.splits intro: same_input_trans)
qed simp

lemma keepalive_unfold:
  "softether_send_keepalive_sock c ssl fd nt =
     (if ssl = None \<or> cn_state c \<noteq> STATE_CONNECTED then Some (-1, nt)
      else let k = fst (c_rand nt) mod 64; (body, nt) = rand_list k (snd (c_rand nt)) in
           do { (ret, nt) \<leftarrow> data_write_all_sock c ssl fd (be32 KEEP_ALIVE_MAGIC @ be32 (word_of_nat k) @ body) nt;
                Some (if ret \<noteq> 0 then (-1, nt) else (8 + int k, nt)) })"
proof -
  obtain r nt1 where r: "c_rand nt = (r, nt1)" by fastforce
  obtain body nt2 where b: "rand_list (r mod 64) nt1 = (body, nt2)" by fastforce
  let ?m = "be32 KEEP_ALIVE_MAGIC @ be32 (word_of_nat (r mod 64)) @ body"
  have l: "length ?m = 8 + r mod 64" using rand_list_fields [of "r mod 64" nt1] b by (simp add: be32_def)
  moreover have "r mod 64 < 64" by simp
  ultimately have "length ?m \<le> 136" by linarith
  then have "\<exists>buf. mem_write (replicate 136 0) 0 ?m = Some buf \<and> take (8 + r mod 64) buf = ?m"
    using l by (simp del: append_assoc)
  then show ?thesis by (auto simp: softether_send_keepalive_sock_def r b)
qed

section \<open>Properties\<close>

text \<open>An example connection: the primary link and one additional link, over TLS.\<close>

definition idle_slot :: softether_tcp_sock where
  "idle_slot = \<lparr>ts_socket_fd = -1, ts_ssl_ctx = None, ts_ssl = None, ts_direction = 0, ts_last_recv = 0,
     ts_late_count = 0, ts_active = False\<rparr>"

definition demo_slot :: softether_tcp_sock where
  "demo_slot = idle_slot\<lparr>ts_socket_fd := 11, ts_ssl_ctx := Some 4, ts_ssl := Some 4, ts_active := True\<rparr>"

definition demo_conn :: softether_connection where
  "demo_conn = \<lparr>cn_socket_fd = 10, cn_ssl_ctx = Some 3, cn_ssl = Some 3, cn_state = STATE_CONNECTED,
     cn_abort_connect = False, cn_session_id = 0, cn_sequence_num = 0, cn_server_ip = [], cn_session_key = (\<lambda>i. 0),
     cn_server_use_compress = True, cn_server_timeout = 30000, cn_use_ssl_data = True, cn_session_established = True,
     cn_client_mac = (\<lambda>i. 2), cn_gateway_mac = (\<lambda>i. 0), cn_gateway_mac_resolved = False, cn_gateway_ip = 0,
     cn_assigned_ip = 0, cn_recv_queue = frame_empty RECV_QUEUE_SIZE MAX_QUEUED_FRAME, cn_rx_skipped_blocks = 0,
     cn_rudp = None, cn_rudp_enabled = False, cn_nat_t_transport = None, cn_using_nat_t = False, cn_additional = demo_slot # replicate 31 idle_slot,
     cn_num_additional = 1, cn_max_connection = 2, cn_primary_direction = 0, cn_next_connect_time = 0,
     cn_additional_failed_count = 0, cn_additional_connecting = False, cn_additional_connect_slot = -1,
     cn_additional_connect_result = 0, cn_send_rr_idx = 1, cn_next_tcp_keepalive_time = 0,
     cn_send_block = Some (replicate 4096 0), cn_send_block_cap = 4096, cn_stats_tx_packets = 0,
     cn_stats_tx_bytes = 0, cn_stats_rx_packets = 0, cn_stats_rx_bytes = 0\<rparr>"

definition demo_primary :: tcp_sock_info where
  "demo_primary = \<lparr>ti_ssl = Some 3, ti_fd = 10, ti_is_additional = False, ti_additional_idx = -1\<rparr>"

lemma empty_queue [simp]: "queue_ok (frame_empty RECV_QUEUE_SIZE MAX_QUEUED_FRAME)"
  "frame_contents (frame_empty RECV_QUEUE_SIZE MAX_QUEUED_FRAME) = []"
  using frame_empty_inv [of RECV_QUEUE_SIZE MAX_QUEUED_FRAME] by (simp_all add: conn_sizes)

lemma demo_queue [simp]: "queue_ok (cn_recv_queue demo_conn)" "frame_contents (cn_recv_queue demo_conn) = []"
  "queue_room demo_conn = 64"
  by (simp_all add: demo_conn_def queue_room_def del: frame_contents_length) (simp add: conn_sizes)

lemma demo_link: "link_ok demo_conn (Some 3) 10 (demo_world [] (Some s))"
  "link_avail demo_conn (Some 3) 10 (demo_world [] (Some s)) = stream_avail (ssl_avail 5) s"
  "nt_malloc (demo_world [] (Some s)) = []"
  by (simp_all add: link_ok_def link_avail_def link_io_resolve_def demo_conn_def tls_ready_def tls_stream_def demo_world_def)

text \<open>
  C7. Reading a message. Whatever way the network cuts up the bytes of a message of blocks \<open>ds\<close>, and
  however often a read is interrupted, reading it from a link consumes exactly the message and appends
  to the receive queue the non-empty blocks of at most 2048 bytes, decompressed in a compressed session
  and in order, as far as the queue has room; every other non-empty block is counted as skipped. The result
  says whether the queue holds anything.
\<close>

theorem receive_message:
  assumes "lib_ok L" "link_ok c (ti_ssl sel) (ti_fd sel) nt"
    and "link_avail c (ti_ssl sel) (ti_fd sel) nt = message_wire ds @ rest"
    and "ds \<noteq> []" "length ds < 2 ^ 32 - 1" "\<forall>d \<in> set ds. length d \<le> 2560000"
    and "queue_ok (cn_recv_queue c)" "nt_malloc nt = []"
  shows "\<exists>q nt'. read_message L sel c nt =
      Some (if frame_contents q = [] then 0 else 1, set_queue q (word_of_nat (skipped L c ds)) c, nt') \<and>
    queue_ok q \<and> frame_contents q = frame_contents (cn_recv_queue c) @ queued L c ds \<and>
    link_ok c (ti_ssl sel) (ti_fd sel) nt' \<and> link_avail c (ti_ssl sel) (ti_fd sel) nt' = rest"
  using read_message_blocks [OF assms] .

theorem receive_message_witness:
  "\<exists>q nt'. read_message demo_lib demo_primary demo_conn
       (demo_world [] (Some (demo_stream [Rx [0, 0], Rx_err SSL_WANT_READ EINTR, Rx [0, 2, 0, 0, 0, 3, 1, 7],
          Rx [8, 0, 0, 0, 0, 9]]))) = Some (1, set_queue q 0 demo_conn, nt') \<and>
     frame_contents q = [[7, 8]] \<and> link_avail demo_conn (Some 3) 10 nt' = [9]"
proof -
  let ?rx = "[Rx [0, 0], Rx_err SSL_WANT_READ EINTR, Rx [0, 2, 0, 0, 0, 3, 1, 7], Rx [8, 0, 0, 0, 0, 9]]"
  let ?nt = "demo_world [] (Some (demo_stream ?rx))"
  have av: "link_avail demo_conn (ti_ssl demo_primary) (ti_fd demo_primary) ?nt = message_wire [[1, 7, 8], []] @ [9]"
  proof -
    have "ssl_avail 5 ?rx = [0, 0, 0, 2, 0, 0, 0, 3, 1, 7, 8, 0, 0, 0, 0, 9]"
      by (simp add: eval_nat_numeral ssl_retryable_def)
    moreover have "message_wire [[1, 7, 8], []] = [0, 0, 0, 2, 0, 0, 0, 3, 1, 7, 8, 0, 0, 0, 0]" by code_simp
    ultimately show ?thesis by (simp add: demo_primary_def demo_link demo_stream_def stream_avail_def)
  qed
  have q: "queued demo_lib demo_conn [[1, 7, 8], []] = [[7, 8]]" "skipped demo_lib demo_conn [[1, 7, 8], []] = 0"
    by (simp_all add: queued_def skipped_def fits_def conn_sizes unpacked_def unpack_block_def uncompress_data_def z_wrap_def demo_lib_def)
      (simp_all add: demo_conn_def)
  show ?thesis
    using receive_message [OF demo_lib_ok(1) _ av] q
    by (auto simp: demo_link demo_primary_def)
qed

text \<open>
  C1. Round trip of a data block. A frame of 1 to 2048 bytes (at least 2 and compressible to at most 2048
  in a compressed session) that is sent over a link that accepts data goes out as one message, and the
  call returns its size; whoever reads these bytes in a session with the same compression setting finds
  exactly this frame at the end of the receive queue, whatever follows on the link.
\<close>

theorem packet_roundtrip:
  assumes s: "sendable L zb c d" and L: "lib_ok L" "lib_inverse L" and c: "conn_going c" "cn_ssl c \<noteq> None" "staging_ok c"
    and m: "nt_malloc nt = []"
    and k: "softether_select_send_socket c = Some (k, ck)" "socket_healthy k c nt" "link_of k c = (ssl, fd)"
    and c2: "cn_server_use_compress c2 = cn_server_use_compress c" "queue_ok (cn_recv_queue c2)" "0 < queue_room c2"
  shows "\<exists>w c' nt'. softether_send_packet L zb c CMD_DATA (Some d) (word_of_nat (length d)) nt = Some (int (length w), c', nt') \<and>
    link_out c ssl fd nt' = link_out c ssl fd nt @ w \<and>
    (\<forall>sel nt2 rest. link_ok c2 (ti_ssl sel) (ti_fd sel) nt2 \<longrightarrow> nt_malloc nt2 = [] \<longrightarrow>
       link_avail c2 (ti_ssl sel) (ti_fd sel) nt2 = w @ rest \<longrightarrow>
       (\<exists>q nt3. read_message L sel c2 nt2 = Some (1, c2\<lparr>cn_recv_queue := q\<rparr>, nt3) \<and> queue_ok q \<and>
          frame_contents q = frame_contents (cn_recv_queue c2) @ [d] \<and> link_avail c2 (ti_ssl sel) (ti_fd sel) nt3 = rest))"
proof -
  define z where "z = wire_form L zb c d"
  note z = wire_form_ok [OF s L(2), folded z_def]
  obtain c' nt' where send: "softether_send_packet L zb c CMD_DATA (Some d) (word_of_nat (length d)) nt =
      Some (8 + int (length z), c', nt')" "link_out c ssl fd nt' = link_out c ssl fd nt @ message_wire [z]"
    using send_packet_ok [OF s L(2) c _ _ m k, of CMD_DATA] by (auto simp: z_def CMD_DATA_def CMD_KEEPALIVE_def CMD_KEEPALIVE_ACK_def)
  have q: "queued L c2 [z] = [d]" "skipped L c2 [z] = 0"
    using z c2 by (simp_all add: queued_def skipped_def fits_def take_Cons')
  have "int (length (message_wire [z])) = 8 + int (length z)" by (simp add: message_wire_def blocks_wire_def be32_def)
  moreover have "\<exists>q nt3. read_message L sel c2 nt2 = Some (1, c2\<lparr>cn_recv_queue := q\<rparr>, nt3) \<and> queue_ok q \<and>
      frame_contents q = frame_contents (cn_recv_queue c2) @ [d] \<and> link_avail c2 (ti_ssl sel) (ti_fd sel) nt3 = rest"
    if "link_ok c2 (ti_ssl sel) (ti_fd sel) nt2" "nt_malloc nt2 = []" "link_avail c2 (ti_ssl sel) (ti_fd sel) nt2 = message_wire [z] @ rest"
    for sel nt2 rest
    using read_message_blocks [OF L(1) that(1,3) _ _ _ c2(2) that(2)] q z(2) by (auto simp: conn_sizes set_queue_def)
  ultimately show ?thesis using send by (intro exI [of _ "message_wire [z]"]) auto
qed

theorem packet_roundtrip_witness:
  "\<exists>w c' nt'. softether_send_packet demo_lib (\<lambda>n. n + 64) demo_conn CMD_DATA (Some [7, 8, 9]) 3 (demo_world [] (Some (demo_stream []))) =
     Some (int (length w), c', nt') \<and> link_out demo_conn (Some 4) 11 nt' = w"
proof -
  let ?nt = "demo_world [] (Some (demo_stream []))"
  have slots: "map (\<lambda>i. cn_additional demo_conn ! i) [0..<MAX_SE_CONNECTIONS] = demo_slot # replicate 31 idle_slot"
    by (rule nth_equalityI) (simp_all add: demo_conn_def conn_sizes)
  have c: "send_candidates demo_conn = [0, 1]"
    by (simp add: send_candidates_def conn_sizes upt_rec demo_conn_def demo_slot_def idle_slot_def slot_sends_def
        can_send_def primary_sends_def TCP_DIRECTION_BOTH_def)
  have k: "softether_select_send_socket demo_conn = Some (1, demo_conn\<lparr>cn_send_rr_idx := 0\<rparr>)"
    using c by (simp add: softether_select_send_socket_def Let_def) (simp add: demo_conn_def)
  have s: "sendable demo_lib (\<lambda>n. n + 64) demo_conn [7, 8, 9]"
    by (simp add: sendable_def demo_lib_def conn_sizes)
  have st: "staging_ok demo_conn" by (simp add: staging_ok_def demo_conn_def)
  have h: "socket_healthy 1 demo_conn ?nt" "link_of 1 demo_conn = (Some 4, 11)"
    by (simp_all add: socket_healthy_def link_of_def link_sends_def tls_sending_def tls_ready_def tls_stream_def demo_world_def
        demo_stream_def accepting_def link_io_resolve_def demo_conn_def demo_slot_def conn_sizes upt_rec)
  have g: "conn_going demo_conn" "cn_ssl demo_conn \<noteq> None" "nt_malloc ?nt = []" "0 < queue_room demo_conn"
    by (simp_all add: conn_going_def demo_world_def) (simp_all add: demo_conn_def)
  have o: "link_out demo_conn (Some 4) 11 ?nt = []"
    by (simp add: link_out_def tls_stream_def demo_world_def demo_stream_def)
  show ?thesis
    using packet_roundtrip [OF s demo_lib_ok g(1,2) st g(3) k h refl demo_queue(1) g(4)] unfolding o by auto
qed

end
