(* ===== verification/Packet_Safe.thy ===== *)
theory Packet_Safe
  imports Packet_Stream
begin

text \<open>
  Safety of the packet layer: with a well-formed connection (\<open>conn_inv\<close>) every operation stays inside its
  buffers, never uses a freed TLS context, keeps the invariant and follows the lock order (connection
  lifetime, staging buffer, link, TLS use, OpenSSL); a failed link is retired and the others keep working.
\<close>

section \<open>Input and output on one TLS context\<close>

definition tls_alive :: "nat option \<Rightarrow> net \<Rightarrow> bool" where
  "tls_alive ssl nt \<longleftrightarrow> (\<forall>i. ssl = Some i \<longrightarrow> \<not> sc_freed (nt_tls nt i))"

definition io_step :: "nat \<Rightarrow> nat option \<Rightarrow> net \<Rightarrow> net \<Rightarrow> bool" where
  "io_step n ssl nt nt' \<longleftrightarrow> lock_seg n nt nt' \<and> same_life nt nt' \<and> (\<forall>j. ssl \<noteq> Some j \<longrightarrow> nt_tls nt' j = nt_tls nt j)"

lemma io_step_refl [simp]: "io_step n ssl nt nt"
  by (simp add: io_step_def)

lemma io_step_trans [trans]: "io_step n ssl a b \<Longrightarrow> io_step n ssl b d \<Longrightarrow> io_step n ssl a d"
  unfolding io_step_def by (metis lock_seg_trans same_life_trans)

lemma io_step_alive: "io_step n ssl nt nt' \<Longrightarrow> tls_alive s nt' = tls_alive s nt"
  by (simp add: io_step_def same_life_def tls_alive_def)

lemma io_step_mono: "io_step m ssl a b \<Longrightarrow> n \<le> m \<Longrightarrow> io_step n ssl a b"
  unfolding io_step_def by (blast intro: lock_seg_mono)

lemma io_step_bracket:
  assumes "io_step 3 ssl (net_ev (Lock (L_io i)) nt) nt'"
  shows "io_step 2 ssl nt (net_ev (Unlock (L_io i)) nt')"
proof -
  have "lock_seg 2 nt (net_ev (Unlock (L_io i)) nt')"
    by (rule lock_seg_bracket) (use assms in \<open>simp_all add: io_step_def\<close>)
  then show ?thesis using assms by (simp add: io_step_def)
qed

lemma ssl_read_loop_shape:
  "ssl_read_loop r i len nt = (ret, bs, nt') \<Longrightarrow>
     length bs \<le> len \<and> (0 < ret \<longrightarrow> ret = int (length bs)) \<and> (\<forall>j. j \<noteq> i \<longrightarrow> nt_tls nt' j = nt_tls nt j)"
proof (induction r arbitrary: nt)
  case (Suc r)
  obtain a nt1 where a: "ssl_read_call i len nt = (a, nt1)" by fastforce
  have o: "\<forall>j. j \<noteq> i \<longrightarrow> nt_tls nt1 j = nt_tls nt j" and l: "\<And>b. a = Rx b \<Longrightarrow> length b \<le> len"
    using a by (auto simp: ssl_read_call_def Let_def stream_read_def split: option.splits prod.splits list.splits rx_answer.splits if_splits)
  show ?case
  proof (cases a)
    case (Rx_err e n)
    then show ?thesis using Suc.prems Suc.IH [of "net_ev (Touch i) nt1"] a o by (auto simp: Let_def split: if_splits)
  qed (use Suc.prems a o l in auto)
qed simp

lemma ssl_read_io:
  assumes "tls_alive ssl nt"
  shows "\<exists>r bs nt'. ssl_read ssl len nt = Some (r, bs, nt') \<and> io_step 3 ssl nt nt' \<and> length bs \<le> len \<and>
     (0 < r \<longrightarrow> r = int (length bs))"
proof (cases "\<exists>i. ssl = Some i \<and> \<not> (sc_ssl (nt_tls nt i) = None \<or> \<not> sc_connected (nt_tls nt i))")
  case False
  then show ?thesis using assms by (auto simp: ssl_read_def tls_alive_def split: option.splits)
next
  case True
  then obtain i where i: "ssl = Some i" "\<not> (sc_ssl (nt_tls nt i) = None \<or> \<not> sc_connected (nt_tls nt i))" by blast
  obtain r b nt1 where l: "ssl_read_loop 5 i len (net_ev (Touch i) (net_ev (Lock L_tls_rd) nt)) = (r, b, nt1)"
    by (metis prod_cases3)
  have e: "ssl_read ssl len nt = Some (r, b, net_ev (Unlock L_tls_rd) (if r = 0 then net_ev (Touch i) nt1 else nt1))"
    using i l assms by (auto simp: ssl_read_def tls_alive_def split: if_splits)
  show ?thesis using e ssl_read_seg [OF e] ssl_read_loop_shape [OF l] i(1) by (auto simp: io_step_def)
qed

lemma ssl_read_all_ctx_io:
  "tls_alive ssl nt \<Longrightarrow> \<exists>ret bs nt'. ssl_read_all_ctx ssl len acc nt = Some (ret, bs, nt') \<and> io_step 3 ssl nt nt' \<and>
     length bs \<le> length acc + len"
proof (induction len arbitrary: acc nt rule: less_induct)
  case (less len)
  show ?case
  proof (cases "len = 0")
    case True then show ?thesis by (subst ssl_read_all_ctx.simps) simp
  next
    case False
    obtain r bs nt1 where r: "ssl_read ssl len nt = Some (r, bs, nt1)" "io_step 3 ssl nt nt1" "length bs \<le> len"
      "0 < r \<longrightarrow> r = int (length bs)" using ssl_read_io [OF less.prems] by blast
    show ?thesis
    proof (cases "r \<le> 0")
      case True
      then show ?thesis using r False by (subst ssl_read_all_ctx.simps) simp
    next
      case pos: False
      have *: "ssl_read_all_ctx ssl len acc nt = ssl_read_all_ctx ssl (len - length bs) (acc @ bs) nt1"
        using r pos False by (subst ssl_read_all_ctx.simps) (simp del: ssl_read_all_ctx.simps)
      have "len - length bs < len" "tls_alive ssl nt1" using r pos False less.prems by (auto simp: io_step_alive)
      from less.IH [OF this, of "acc @ bs"] show ?thesis
        unfolding * using r(2,3) io_step_trans [OF r(2)] by (auto simp del: ssl_read_all_ctx.simps)
    qed
  qed
qed

lemma ssl_write_io:
  assumes "tls_alive ssl nt"
  shows "\<exists>r nt'. ssl_write ssl bs nt = Some (r, nt') \<and> io_step 3 ssl nt nt'"
proof -
  obtain r nt' where w: "ssl_write ssl bs nt = Some (r, nt')"
    using assms by (fastforce simp: ssl_write_def tls_alive_def Let_def split: option.splits prod.splits tx_answer.splits)
  moreover have "\<forall>j. ssl \<noteq> Some j \<longrightarrow> nt_tls nt' j = nt_tls nt j"
    using w by (auto simp: ssl_write_def Let_def split: option.splits prod.splits tx_answer.splits if_splits)
  ultimately show ?thesis using ssl_write_seg [OF w] by (auto simp: io_step_def)
qed

lemma ssl_write_loop_io:
  "tls_alive ssl nt \<Longrightarrow> \<exists>r nt'. ssl_write_loop ssl bs nt = Some (r, nt') \<and> io_step 3 ssl nt nt'"
proof (induction "length bs" arbitrary: bs nt rule: less_induct)
  case less
  show ?case
  proof (cases "bs = []")
    case True then show ?thesis by (subst ssl_write_loop.simps) simp
  next
    case False
    obtain r nt1 where w: "ssl_write ssl bs nt = Some (r, nt1)" "io_step 3 ssl nt nt1" using ssl_write_io [OF less.prems] by blast
    show ?thesis
    proof (cases "r \<le> 0")
      case True then show ?thesis using w False by (subst ssl_write_loop.simps) simp
    next
      case pos: False
      have e: "ssl_write_loop ssl bs nt = ssl_write_loop ssl (drop (nat r) bs) nt1"
        using w False pos by (subst ssl_write_loop.simps) (simp del: ssl_write_loop.simps)
      have "length (drop (nat r) bs) < length bs" "tls_alive ssl nt1"
        using False pos w(2) less.prems by (simp_all add: io_step_alive)
      from less.hyps [OF this] show ?thesis unfolding e using io_step_trans [OF w(2)] by (auto simp del: ssl_write_loop.simps)
    qed
  qed
qed

section \<open>Input and output on a link\<close>

lemma raw_read_loop_length: "raw_read_loop e rx len acc = (ret, bs, left, rx') \<Longrightarrow> length bs \<le> length acc + len"
  using raw_read_loop_ok [of e rx len acc ret bs left rx'] by (simp add: got_def)

lemma raw_read_io:
  assumes "raw_read e fd len nt = (ret, bs, nt')"
  shows "io_step n ssl nt nt'" "length bs \<le> len"
proof -
  show "length bs \<le> len" using raw_read_ok(2) [OF assms] by (simp add: got_def)
  have "nt_tls nt' = nt_tls nt" "nt_trace nt' = nt_trace nt"
    using assms by (auto simp: raw_read_def Let_def split: if_splits prod.splits)
  then show "io_step n ssl nt nt'" by (auto simp: io_step_def lock_seg_def same_life_def)
qed

lemma raw_write_io:
  assumes "raw_write fd bs nt = (ret, nt')"
  shows "io_step n ssl nt nt'"
proof -
  have "nt_tls nt' = nt_tls nt" "nt_trace nt' = nt_trace nt" using assms by (auto simp: raw_write_def Let_def split: prod.splits)
  then show ?thesis by (auto simp: io_step_def lock_seg_def same_life_def)
qed

lemma alive_ev [simp]: "tls_alive ssl (net_ev e nt) = tls_alive ssl nt"
  by (simp add: tls_alive_def)

lemma io_step_ev2: "io_step 2 ssl nt (net_ev (Unlock (L_io i)) (net_ev (Lock (L_io i)) nt))"
  by (rule io_step_bracket) simp

lemma data_read_all_sock_io:
  assumes "tls_alive ssl nt"
  shows "\<exists>ret bs nt'. data_read_all_sock c ssl fd len nt = Some (ret, bs, nt') \<and> io_step 2 ssl nt nt' \<and> length bs \<le> len"
proof (cases "cn_use_ssl_data c")
  case False
  obtain ret bs nt' where "raw_read True fd len nt = (ret, bs, nt')" by (metis prod_cases3)
  then show ?thesis using False raw_read_io [of True fd len nt] by (simp add: data_read_all_sock_def raw_read_all_fd_def)
next
  case ssl: True
  show ?thesis
  proof (cases "link_io_resolve c ssl fd")
    case None then show ?thesis using ssl by (simp add: data_read_all_sock_def)
  next
    case (Some slot)
    obtain ret bs nt' where r: "ssl_read_all_ctx ssl len [] (net_ev (Lock (L_io slot)) nt) = Some (ret, bs, nt')"
      "io_step 3 ssl (net_ev (Lock (L_io slot)) nt) nt'" "length bs \<le> len"
      using ssl_read_all_ctx_io [of ssl "net_ev (Lock (L_io slot)) nt" len "[]"] assms by (auto simp del: ssl_read_all_ctx.simps)
    show ?thesis using ssl Some resolve_live [OF Some] r io_step_bracket [OF r(2)]
      by (simp add: data_read_all_sock_def del: ssl_read_all_ctx.simps)
  qed
qed

lemma data_write_all_sock_io:
  assumes "tls_alive ssl nt"
  shows "\<exists>ret nt'. data_write_all_sock c ssl fd bs nt = Some (ret, nt') \<and> io_step 2 ssl nt nt'"
proof (cases "cn_use_ssl_data c")
  case False
  obtain ret nt' where "raw_write fd bs nt = (ret, nt')" by fastforce
  then show ?thesis using False raw_write_io [of fd bs nt] by (simp add: data_write_all_sock_def)
next
  case ssl: True
  show ?thesis
  proof (cases "link_io_resolve c ssl fd")
    case None then show ?thesis using ssl by (simp add: data_write_all_sock_def)
  next
    case (Some slot)
    obtain ret nt' where r: "ssl_write_loop ssl bs (net_ev (Lock (L_io slot)) nt) = Some (ret, nt')"
      "io_step 3 ssl (net_ev (Lock (L_io slot)) nt) nt'"
      using ssl_write_loop_io [of ssl "net_ev (Lock (L_io slot)) nt" bs] assms by (auto simp del: ssl_write_loop.simps)
    show ?thesis using ssl Some resolve_live [OF Some] r io_step_bracket [OF r(2)]
      by (simp add: data_write_all_sock_def del: ssl_write_loop.simps)
  qed
qed

lemma data_write_all_io:
  assumes "tls_alive (cn_ssl c) nt"
  shows "\<exists>ret nt'. data_write_all c bs nt = Some (ret, nt') \<and> io_step 2 (cn_ssl c) nt nt'"
proof (cases "cn_use_ssl_data c")
  case False
  obtain ret nt' where r: "raw_write (cn_socket_fd c) bs nt = (ret, nt')" by fastforce
  then show ?thesis using False raw_write_io [OF r] by (simp add: data_write_all_def raw_write_all_def)
next
  case True
  let ?nt = "net_ev (Lock (L_io (-1))) nt"
  have "\<exists>ret nt'. ssl_write_all c bs ?nt = Some (ret, nt') \<and> io_step 3 (cn_ssl c) ?nt nt'"
    using ssl_write_loop_io [of "cn_ssl c" ?nt bs] assms by (simp add: ssl_write_all_def del: ssl_write_loop.simps)
  then obtain ret nt' where r: "ssl_write_all c bs ?nt = Some (ret, nt')" "io_step 3 (cn_ssl c) ?nt nt'" by blast
  then show ?thesis using True io_step_bracket [OF r(2)] by (simp add: data_write_all_def)
qed

lemma data_read_all_io:
  assumes "tls_alive (cn_ssl c) nt"
  shows "\<exists>ret bs nt'. data_read_all c len nt = Some (ret, bs, nt') \<and> io_step 2 (cn_ssl c) nt nt' \<and> length bs \<le> len"
proof (cases "cn_use_ssl_data c")
  case False
  obtain ret bs nt' where r: "raw_read False (cn_socket_fd c) len nt = (ret, bs, nt')" by (metis prod_cases3)
  then show ?thesis using False raw_read_io [OF r] by (simp add: data_read_all_def raw_read_all_def)
next
  case True
  let ?nt = "net_ev (Lock (L_io (-1))) nt"
  have "\<exists>ret bs nt'. ssl_read_all c len ?nt = Some (ret, bs, nt') \<and> io_step 3 (cn_ssl c) ?nt nt' \<and> length bs \<le> len"
    using ssl_read_all_ctx_io [of "cn_ssl c" ?nt len "[]"] assms by (simp add: ssl_read_all_def del: ssl_read_all_ctx.simps)
  then obtain ret bs nt' where r: "ssl_read_all c len ?nt = Some (ret, bs, nt')" "io_step 3 (cn_ssl c) ?nt nt'" "length bs \<le> len"
    by blast
  then show ?thesis using True io_step_bracket [OF r(2)] by (simp add: data_read_all_def)
qed

lemma read_uint32_sock_io:
  assumes "tls_alive ssl nt"
  shows "\<exists>r nt'. read_uint32_sock c ssl fd nt = Some (r, nt') \<and> io_step 2 ssl nt nt'"
  using data_read_all_sock_io [OF assms, of c fd 4] by (auto simp: read_uint32_sock_def)

lemma skip_block_io:
  "tls_alive ssl nt \<Longrightarrow> \<exists>r nt'. skip_block (data_read_all_sock c ssl fd) n nt = Some (r, nt') \<and> io_step 2 ssl nt nt'"
proof (induction n arbitrary: nt rule: less_induct)
  case (less n)
  show ?case
  proof (cases "n = 0")
    case True then show ?thesis by (subst skip_block.simps) simp
  next
    case False
    obtain r bs nt1 where r: "data_read_all_sock c ssl fd (min n 2048) nt = Some (r, bs, nt1)" "io_step 2 ssl nt nt1"
      using data_read_all_sock_io [OF less.prems] by blast
    have "n - min n 2048 < n" "tls_alive ssl nt1" using False r(2) less.prems by (simp_all add: io_step_alive)
    from less.IH [OF this] obtain r' nt' where r': "skip_block (data_read_all_sock c ssl fd) (n - min n 2048) nt1 = Some (r', nt')"
      "io_step 2 ssl nt1 nt'" by blast
    then show ?thesis using r False io_step_trans [OF r(2)]
      by (subst skip_block.simps) (simp del: skip_block.simps)
  qed
qed

lemma keepalive_sock_io:
  assumes "tls_alive ssl nt"
  shows "\<exists>r nt'. softether_send_keepalive_sock c ssl fd nt = Some (r, nt') \<and> io_step 2 ssl nt nt' \<and> same_input nt nt'"
proof -
  let ?k = "fst (c_rand nt) mod 64" let ?nt = "snd (rand_list ?k (snd (c_rand nt)))"
  have c: "nt_tls (snd (c_rand nt)) = nt_tls nt" "nt_trace (snd (c_rand nt)) = nt_trace nt" "same_input nt (snd (c_rand nt))"
    by (simp_all add: c_rand_def same_input_def tls_ready_def tls_stream_def raw_stream_avail_def)
  note f = rand_list_fields [of ?k "snd (c_rand nt)"]
  have s: "io_step 2 ssl nt ?nt" "same_input nt ?nt"
    using f c by (auto simp: io_step_def lock_seg_def same_life_def intro: same_input_trans)
  then have "tls_alive ssl ?nt" using assms by (simp add: io_step_alive)
  then obtain r nt' where w: "data_write_all_sock c ssl fd
      (be32 KEEP_ALIVE_MAGIC @ be32 (word_of_nat ?k) @ fst (rand_list ?k (snd (c_rand nt)))) ?nt = Some (r, nt')" "io_step 2 ssl ?nt nt'"
    using data_write_all_sock_io by blast
  show ?thesis
    using w s data_write_all_sock_input [OF w(1)]
    by (auto simp: keepalive_unfold Let_def case_prod_beta intro: io_step_trans same_input_trans)
qed

section \<open>The invariant of a connection\<close>

definition slot_ok :: "softether_tcp_sock \<Rightarrow> net \<Rightarrow> bool" where
  "slot_ok t nt \<longleftrightarrow> (ts_ssl t = None \<or> ts_ssl t = ts_ssl_ctx t) \<and> tls_alive (ts_ssl_ctx t) nt \<and>
     (ts_active t \<longrightarrow> ts_ssl t \<noteq> None \<and> 0 \<le> ts_socket_fd t) \<and> (\<not> ts_active t \<longrightarrow> ts_ssl t = None)"

text \<open>No TLS context belongs to two links.\<close>

definition own_contexts :: "softether_connection \<Rightarrow> bool" where
  "own_contexts c \<longleftrightarrow>
     (\<forall>i < MAX_SE_CONNECTIONS. \<forall>x. ts_ssl_ctx (cn_additional c ! i) = Some x \<longrightarrow>
        cn_ssl c \<noteq> Some x \<and> (\<forall>j < MAX_SE_CONNECTIONS. j \<noteq> i \<longrightarrow> ts_ssl_ctx (cn_additional c ! j) \<noteq> Some x))"

definition links_inv :: "softether_connection \<Rightarrow> net \<Rightarrow> bool" where
  "links_inv c nt \<longleftrightarrow> length (cn_additional c) = MAX_SE_CONNECTIONS \<and> tls_alive (cn_ssl c) nt \<and>
     (\<forall>i < MAX_SE_CONNECTIONS. slot_ok (cn_additional c ! i) nt) \<and> own_contexts c \<and>
     cn_num_additional c = int (length (filter ts_active (cn_additional c)))"

definition conn_inv :: "softether_connection \<Rightarrow> net \<Rightarrow> bool" where
  "conn_inv c nt \<longleftrightarrow> links_inv c nt \<and> queue_ok (cn_recv_queue c) \<and>
     (\<forall>ru. cn_rudp c = Some ru \<longrightarrow> rudp_inv ru) \<and>
     (\<forall>b. cn_send_block c = Some b \<longrightarrow> length b = unat (cn_send_block_cap c)) \<and> 0 \<le> cn_send_rr_idx c \<and>
     (cn_send_block c = None \<or> 22 \<le> unat (cn_send_block_cap c) \<and> unat (cn_send_block_cap c) < 2 ^ 32 - 64)"

lemma io_step_links: "links_inv c nt \<Longrightarrow> io_step n ssl nt nt' \<Longrightarrow> links_inv c nt'"
  unfolding links_inv_def slot_ok_def by (simp add: io_step_alive)

lemma io_step_conn: "conn_inv c nt \<Longrightarrow> io_step n ssl nt nt' \<Longrightarrow> conn_inv c nt'"
  unfolding conn_inv_def by (blast intro: io_step_links)

lemma links_inv_tls: "nt_tls nt' = nt_tls nt \<Longrightarrow> links_inv c nt' = links_inv c nt"
  by (simp add: links_inv_def slot_ok_def tls_alive_def)

lemma conn_inv_tls: "nt_tls nt' = nt_tls nt \<Longrightarrow> conn_inv c nt' = conn_inv c nt"
  unfolding conn_inv_def using links_inv_tls [of nt' nt c] by blast

lemma conn_inv_ev [simp]: "conn_inv c (net_ev e nt) = conn_inv c nt" "links_inv c (net_ev e nt) = links_inv c nt"
  by (rule conn_inv_tls, simp) (rule links_inv_tls, simp)

lemma conn_inv_alive:
  assumes "conn_inv c nt"
  shows "tls_alive (cn_ssl c) nt" "i < MAX_SE_CONNECTIONS \<Longrightarrow> tls_alive (ts_ssl (cn_additional c ! i)) nt"
    "length (cn_additional c) = MAX_SE_CONNECTIONS"
  using assms by (auto simp: conn_inv_def links_inv_def slot_ok_def tls_alive_def)

text \<open>Fields the links do not depend on.\<close>

lemma links_inv_frame [simp]:
  "links_inv (c\<lparr>cn_recv_queue := v1\<rparr>) nt = links_inv c nt" "links_inv (c\<lparr>cn_rudp := v2\<rparr>) nt = links_inv c nt"
  "links_inv (c\<lparr>cn_send_block := v3\<rparr>) nt = links_inv c nt" "links_inv (c\<lparr>cn_send_rr_idx := v4\<rparr>) nt = links_inv c nt"
  "links_inv (c\<lparr>cn_rx_skipped_blocks := v5\<rparr>) nt = links_inv c nt"
  "links_inv (c\<lparr>cn_next_tcp_keepalive_time := v6\<rparr>) nt = links_inv c nt"
  by (simp_all add: links_inv_def own_contexts_def)

lemma conn_inv_frame [simp]:
  "conn_inv (c\<lparr>cn_rx_skipped_blocks := v5\<rparr>) nt = conn_inv c nt"
  "conn_inv (c\<lparr>cn_next_tcp_keepalive_time := v6\<rparr>) nt = conn_inv c nt"
  by (simp_all add: conn_inv_def)

lemma conn_inv_queue: "conn_inv c nt \<Longrightarrow> queue_ok q \<Longrightarrow> conn_inv (c\<lparr>cn_recv_queue := q\<rparr>) nt"
  by (simp add: conn_inv_def)

lemma conn_inv_rudp: "conn_inv c nt \<Longrightarrow> rudp_inv ru \<Longrightarrow> conn_inv (c\<lparr>cn_rudp := Some ru\<rparr>) nt"
  by (simp add: conn_inv_def)

section \<open>Choosing and retiring links\<close>

lemma candidates_bound: "k \<in> set (send_candidates c) \<Longrightarrow> k \<le> MAX_SE_CONNECTIONS"
  by (auto simp: send_candidates_def split: if_splits)

lemma select_ok:
  assumes "conn_inv c nt"
  shows "\<exists>k c'. softether_select_send_socket c = Some (k, c') \<and> conn_inv c' nt \<and> k \<le> MAX_SE_CONNECTIONS \<and>
     (send_candidates c \<noteq> [] \<longrightarrow> k \<in> set (send_candidates c)) \<and> (send_candidates c = [] \<longrightarrow> k = 0)"
proof (cases "send_candidates c = []")
  case True
  then show ?thesis using assms by (simp add: softether_select_send_socket_def)
next
  case False
  let ?n = "int (length (send_candidates c))" let ?i = "cn_send_rr_idx c"
  have i: "0 \<le> ?i" "?n > 0" using assms False by (simp_all add: conn_inv_def)
  then have m: "0 \<le> ?i mod ?n" "?i mod ?n < ?n" "0 \<le> (?i + 1) mod ?n" by simp_all
  then have mem: "send_candidates c ! nat (?i mod ?n) \<in> set (send_candidates c)" by (intro nth_mem) linarith
  have "softether_select_send_socket c = Some (send_candidates c ! nat (?i mod ?n), c\<lparr>cn_send_rr_idx := (?i + 1) mod ?n\<rparr>)"
  proof -
    have "\<not> ?i mod ?n < 0" using m(1) by linarith
    then show ?thesis unfolding softether_select_send_socket_def Let_def using i by (simp only: if_True if_False) simp
  qed
  moreover have "conn_inv (c\<lparr>cn_send_rr_idx := (?i + 1) mod ?n\<rparr>) nt" using assms m by (simp add: conn_inv_def)
  ultimately show ?thesis using mem candidates_bound [OF mem] False by auto
qed

lemma filter_deactivate:
  assumes "i < length xs" "P (xs ! i)" "\<not> P x"
  shows "length (filter P xs) = Suc (length (filter P (xs[i := x])))"
proof -
  have "xs = take i xs @ xs ! i # drop (Suc i) xs" using assms(1) by (rule id_take_nth_drop)
  then have "length (filter P xs) = length (filter P (take i xs)) + Suc (length (filter P (drop (Suc i) xs)))"
    using assms(2) by (metis filter.simps(2) filter_append length_Cons length_append)
  then show ?thesis using assms by (simp add: upd_conv_take_nth_drop)
qed

definition retired :: "softether_tcp_sock \<Rightarrow> softether_tcp_sock" where
  "retired ts = ts\<lparr>ts_active := False, ts_ssl := None, ts_socket_fd := -1, ts_ssl_ctx := None\<rparr>"

definition retire_conn :: "nat \<Rightarrow> softether_connection \<Rightarrow> softether_connection" where
  "retire_conn i c = c\<lparr>cn_additional := (cn_additional c)[i := retired (cn_additional c ! i)],
     cn_num_additional := cn_num_additional c - 1\<rparr>"

lemma ssl_shutdown_total: "tls_alive ssl nt \<Longrightarrow> \<exists>nt'. ssl_shutdown ssl nt = Some nt'"
  by (cases ssl) (auto simp: ssl_shutdown_def tls_alive_def Let_def)

lemma ssl_destroy_total: "tls_alive ssl nt \<Longrightarrow> \<exists>nt'. ssl_destroy ssl nt = Some nt'"
  by (cases ssl) (auto simp: ssl_destroy_def tls_alive_def Let_def)

lemma close_tls [simp]: "nt_tls (net_close fd nt) = nt_tls nt" "nt_trace (net_close fd nt) = nt_trace nt"
  by (simp_all add: net_close_def)

lemma retire_socket_ok:
  assumes inv: "conn_inv c nt" and i: "i < MAX_SE_CONNECTIONS" and act: "ts_active (cn_additional c ! i)"
  shows "\<exists>c' nt'. retire_socket i c nt = Some (c', nt') \<and> c'\<lparr>cn_num_additional := cn_num_additional c' - 1\<rparr> = retire_conn i c \<and>
     cn_num_additional c' = cn_num_additional c \<and>
     lock_seg 3 nt nt' \<and> conn_inv (retire_conn i c) nt' \<and>
     (\<forall>j. ts_ssl_ctx (cn_additional c ! i) \<noteq> Some j \<longrightarrow> nt_tls nt' j = nt_tls nt j)"
proof -
  let ?ts = "cn_additional c ! i" let ?ctx = "ts_ssl_ctx ?ts"
  let ?nt = "if 0 \<le> ts_socket_fd ?ts then net_close (ts_socket_fd ?ts) nt else nt"
  have t: "nt_tls ?nt = nt_tls nt" "nt_trace ?nt = nt_trace nt" by simp_all
  have slots: "slot_ok (cn_additional c ! j) nt" if "j < MAX_SE_CONNECTIONS" for j
    using inv that unfolding conn_inv_def links_inv_def by blast
  have al: "tls_alive ?ctx nt" using slots [OF i] unfolding slot_ok_def by blast
  then have "tls_alive ?ctx ?nt" by (simp add: tls_alive_def)
  then obtain nt1 where nt1: "ssl_shutdown ?ctx ?nt = Some nt1" using ssl_shutdown_total by blast
  note s = ssl_shutdown_seg [OF nt1]
  have "tls_alive ?ctx nt1" using al s(2) by (simp add: tls_alive_def)
  then obtain nt2 where nt2: "ssl_destroy ?ctx nt1 = Some nt2" using ssl_destroy_total by blast
  note d = ssl_destroy_seg [OF nt2]
  have "lock_seg 3 nt nt1" using s(1) unfolding lock_seg_def t(2) .
  with d(1) have seg: "lock_seg 3 nt nt2" by (blast intro: lock_seg_trans)
  have oth: "nt_tls nt2 j = nt_tls nt j" if "?ctx \<noteq> Some j" for j using that s(2) [of j] d(2) [of j] by simp
  have len: "length (cn_additional c) = MAX_SE_CONNECTIONS" and own: "own_contexts c"
    "cn_num_additional c = int (length (filter ts_active (cn_additional c)))" and p: "tls_alive (cn_ssl c) nt"
    using inv unfolding conn_inv_def links_inv_def by blast+
  have keep: "tls_alive s nt2" if "tls_alive s nt" "s \<noteq> ?ctx \<or> s = None" for s
    using that oth unfolding tls_alive_def by (cases s) auto
  have "cn_ssl c \<noteq> ?ctx \<or> cn_ssl c = None" using own(1) i unfolding own_contexts_def by (cases ?ctx) auto
  then have prim: "tls_alive (cn_ssl c) nt2" using keep p by blast
  have nth: "cn_additional (retire_conn i c) ! j = (if j = i then retired ?ts else cn_additional c ! j)" for j
    using len i unfolding retire_conn_def by simp
  have apart: "ts_ssl_ctx (cn_additional c ! j) \<noteq> ?ctx \<or> ts_ssl_ctx (cn_additional c ! j) = None"
    if "j < MAX_SE_CONNECTIONS" "j \<noteq> i" for j
    using own(1) i that unfolding own_contexts_def by (metis option.exhaust)
  have sl: "slot_ok (cn_additional (retire_conn i c) ! j) nt2" if j: "j < MAX_SE_CONNECTIONS" for j
  proof (cases "j = i")
    case True then show ?thesis unfolding nth by (simp add: retired_def slot_ok_def tls_alive_def)
  next
    case False
    then show ?thesis using slots [OF j] keep [OF _ apart [OF j False]] unfolding nth slot_ok_def by simp
  qed
  have own': "own_contexts (retire_conn i c)"
    unfolding own_contexts_def nth
  proof (intro allI impI)
    fix j x assume j: "j < MAX_SE_CONNECTIONS" "ts_ssl_ctx (if j = i then retired ?ts else cn_additional c ! j) = Some x"
    then have "j \<noteq> i" "ts_ssl_ctx (cn_additional c ! j) = Some x" by (auto simp: retired_def split: if_splits)
    with own(1) j(1) have "cn_ssl c \<noteq> Some x" "\<forall>k<MAX_SE_CONNECTIONS. k \<noteq> j \<longrightarrow> ts_ssl_ctx (cn_additional c ! k) \<noteq> Some x"
      unfolding own_contexts_def by blast+
    then show "cn_ssl (retire_conn i c) \<noteq> Some x \<and>
        (\<forall>k<MAX_SE_CONNECTIONS. k \<noteq> j \<longrightarrow> ts_ssl_ctx (if k = i then retired ?ts else cn_additional c ! k) \<noteq> Some x)"
      by (simp add: retire_conn_def retired_def)
  qed
  have num: "cn_num_additional (retire_conn i c) = int (length (filter ts_active (cn_additional (retire_conn i c))))"
    using filter_deactivate [of i "cn_additional c" ts_active "retired ?ts"] own(2) i len act
    by (simp add: retire_conn_def retired_def)
  have "links_inv (retire_conn i c) nt2"
    using len prim sl own' num unfolding links_inv_def by (simp add: retire_conn_def)
  then have "conn_inv (retire_conn i c) nt2" using inv unfolding conn_inv_def by (simp add: retire_conn_def)
  moreover have "retire_socket i c nt =
      Some (c\<lparr>cn_additional := (cn_additional c)[i := retired ?ts]\<rparr>, nt2)"
  proof -
    have "take_ssl_ctx_slot ?ctx = (?ctx, None)" by (cases ?ctx) (simp_all add: take_ssl_ctx_slot_def)
    then show ?thesis unfolding retire_socket_def Let_def retired_def by (simp only: nt1 nt2 prod.case Option.bind.bind_lunit)
  qed
  ultimately show ?thesis using seg oth
    by (intro exI conjI) (assumption | simp add: retire_conn_def)+
qed

section \<open>Failover\<close>

lemma slot_context: "conn_inv c nt \<Longrightarrow> j < MAX_SE_CONNECTIONS \<Longrightarrow> ts_ssl (cn_additional c ! j) = Some x \<Longrightarrow> ts_ssl_ctx (cn_additional c ! j) = Some x"
  unfolding conn_inv_def links_inv_def slot_ok_def by (metis option.distinct(1))

lemma links_apart:
  assumes "conn_inv c nt" "k \<noteq> k'" "k \<le> MAX_SE_CONNECTIONS" "k' \<le> MAX_SE_CONNECTIONS" "fst (link_of k c) = Some x"
  shows "fst (link_of k' c) \<noteq> Some x" "0 < k' \<Longrightarrow> ts_ssl_ctx (cn_additional c ! (k' - 1)) \<noteq> Some x"
proof -
  have own: "own_contexts c" using assms(1) unfolding conn_inv_def links_inv_def by blast
  have o: "cn_ssl c \<noteq> Some y" "\<And>j. j < MAX_SE_CONNECTIONS \<Longrightarrow> j \<noteq> i \<Longrightarrow> ts_ssl_ctx (cn_additional c ! j) \<noteq> Some y"
    if "i < MAX_SE_CONNECTIONS" "ts_ssl_ctx (cn_additional c ! i) = Some y" for i y
    using own that unfolding own_contexts_def by blast+
  show ctx: "ts_ssl_ctx (cn_additional c ! (k' - 1)) \<noteq> Some x" if "0 < k'"
  proof (cases "k = 0")
    case True
    have "k' - 1 < MAX_SE_CONNECTIONS" using assms(4) that by linarith
    then show ?thesis using o(1) [of "k' - 1" x] True assms(5) by (auto simp: link_of_def)
  next
    case False
    then have "ts_ssl_ctx (cn_additional c ! (k - 1)) = Some x"
      using slot_context [OF assms(1), of "k - 1" x] assms(3,5) by (simp add: link_of_def)
    then show ?thesis using o(2) [of "k - 1" x "k' - 1"] False assms(2-4) that by auto
  qed
  show "fst (link_of k' c) \<noteq> Some x"
  proof (cases "k' = 0")
    case True
    then have "ts_ssl_ctx (cn_additional c ! (k - 1)) = Some x"
      using slot_context [OF assms(1), of "k - 1" x] assms(2,3,5) by (simp add: link_of_def)
    then show ?thesis using o(1) [of "k - 1" x] True assms(2,3) by (auto simp: link_of_def)
  next
    case False
    moreover from this have "k' - 1 < MAX_SE_CONNECTIONS" using assms(4) by linarith
    ultimately show ?thesis using ctx slot_context [OF assms(1), of "k' - 1" x] by (auto simp: link_of_def)
  qed
qed

lemma tls_sending_cong: "(\<And>x. ssl = Some x \<Longrightarrow> nt_tls nt' x = nt_tls nt x) \<Longrightarrow> tls_sending ssl nt' = tls_sending ssl nt"
  by (cases ssl) (simp_all add: tls_sending_def tls_ready_def tls_stream_def)

lemma healthy_cong:
  assumes "cn_use_ssl_data c" "\<And>x. fst (link_of k c) = Some x \<Longrightarrow> nt_tls nt' x = nt_tls nt x"
  shows "socket_healthy k c nt' = socket_healthy k c nt"
proof -
  have "tls_sending (fst (link_of k c)) nt' = tls_sending (fst (link_of k c)) nt" by (rule tls_sending_cong) (rule assms(2))
  then show ?thesis using assms(1)
    by (cases "k = 0") (simp_all add: socket_healthy_def main_sends_def link_sends_def link_of_def)
qed

lemma retire_other:
  assumes "k \<noteq> Suc i"
  shows "link_of k (retire_conn i c) = link_of k c" "k \<noteq> 0 \<Longrightarrow> cn_additional (retire_conn i c) ! (k - 1) = cn_additional c ! (k - 1)"
proof -
  show a: "cn_additional (retire_conn i c) ! (k - 1) = cn_additional c ! (k - 1)" if "k \<noteq> 0"
    using assms that by (cases k) (simp_all add: retire_conn_def)
  show "link_of k (retire_conn i c) = link_of k c"
    using a by (auto simp: link_of_def) (simp_all add: retire_conn_def)
qed

lemma retire_fields [simp]: "cn_use_ssl_data (retire_conn i c) = cn_use_ssl_data c" "cn_ssl (retire_conn i c) = cn_ssl c"
  "cn_socket_fd (retire_conn i c) = cn_socket_fd c" "cn_state (retire_conn i c) = cn_state c"
  "cn_primary_direction (retire_conn i c) = cn_primary_direction c"
  by (simp_all add: retire_conn_def)

lemma resolve_slot:
  assumes "j < MAX_SE_CONNECTIONS"
  shows "link_io_resolve c (ts_ssl (cn_additional c ! j)) (ts_socket_fd (cn_additional c ! j)) \<noteq> None"
proof -
  have "List.find (\<lambda>i. ts_ssl (cn_additional c ! i) = ts_ssl (cn_additional c ! j) \<and>
      ts_socket_fd (cn_additional c ! i) = ts_socket_fd (cn_additional c ! j)) [0..<MAX_SE_CONNECTIONS] \<noteq> None"
    using assms unfolding find_None_iff by auto
  then show ?thesis unfolding link_io_resolve_def by (simp del: not_None_eq)
qed

lemma healthy_retire:
  assumes "socket_healthy k c nt" "cn_use_ssl_data c" "k \<noteq> Suc i" "k \<le> MAX_SE_CONNECTIONS"
  shows "socket_healthy k (retire_conn i c) nt"
proof (cases "k = 0")
  case True
  then show ?thesis using assms by (simp add: socket_healthy_def main_sends_def conn_going_def)
next
  case False
  have "link_io_resolve (retire_conn i c) (fst (link_of k c)) (snd (link_of k c)) \<noteq> None"
    using resolve_slot [of "k - 1" "retire_conn i c"] retire_other [OF assms(3), of c] False assms(4)
    by (simp add: link_of_def del: not_None_eq)
  then show ?thesis using assms False retire_other [OF assms(3), of c]
    by (simp add: socket_healthy_def link_sends_def del: not_None_eq)
qed

text \<open>
  The outcome of trying the sockets \<open>ks\<close> in order: those before the one that took the block failed and
  were retired, the rest is as before. If some socket accepts data, the block goes out.
\<close>

definition failover :: "nat list \<Rightarrow> softether_connection \<Rightarrow> net \<Rightarrow> int \<times> softether_connection \<times> net \<Rightarrow> bool" where
  "failover ks c nt res \<longleftrightarrow> (case res of (ret, c', nt') \<Rightarrow>
     conn_inv c' nt' \<and> lock_seg 2 nt nt' \<and>
     (\<exists>pre post. ks = pre @ post \<and> (if post = [] then ret = -1 else ret = 0) \<and>
        (\<forall>j < MAX_SE_CONNECTIONS. cn_additional c' ! j =
           (if Suc j \<in> set pre \<and> ts_active (cn_additional c ! j) then retired (cn_additional c ! j) else cn_additional c ! j))) \<and>
     (cn_use_ssl_data c \<longrightarrow> (\<exists>k \<in> set ks. socket_healthy k c nt \<and> 0 \<le> snd (link_of k c) \<and> fst (link_of k c) \<noteq> None) \<longrightarrow> ret = 0))"

lemma failover_Nil: "conn_inv c nt \<Longrightarrow> failover [] c nt (-1, c, nt)"
  by (simp add: failover_def)

lemma failover_sent: "conn_inv c nt' \<Longrightarrow> lock_seg 2 nt nt' \<Longrightarrow> failover (k # ks) c nt (0, c, nt')"
  unfolding failover_def by (simp add: exI [of _ "[]"] exI [of _ "k # ks"])

text \<open>Going on after socket \<open>k\<close> in a state that differs only by the retirement of \<open>k\<close>.\<close>

lemma failover_next:
  assumes nxt: "failover ks c1 nt1 res" and seg: "lock_seg 2 nt nt1"
    and c1: "\<And>j. j < MAX_SE_CONNECTIONS \<Longrightarrow> cn_additional c1 ! j =
      (if Suc j = k \<and> ts_active (cn_additional c ! j) then retired (cn_additional c ! j) else cn_additional c ! j)"
    and ssl: "cn_use_ssl_data c1 = cn_use_ssl_data c"
    and bad: "cn_use_ssl_data c \<Longrightarrow> \<not> (socket_healthy k c nt \<and> 0 \<le> snd (link_of k c) \<and> fst (link_of k c) \<noteq> None)"
    and keep: "\<And>k'. cn_use_ssl_data c \<Longrightarrow> k' \<in> set ks \<Longrightarrow> k' \<noteq> k \<Longrightarrow> socket_healthy k' c nt \<Longrightarrow>
      socket_healthy k' c1 nt1 \<and> link_of k' c1 = link_of k' c"
  shows "failover (k # ks) c nt res"
proof -
  obtain ret c' nt' where res: "res = (ret, c', nt')" by (cases res)
  obtain pre post where pre: "ks = pre @ post" "if post = [] then ret = -1 else ret = 0"
    "\<And>j. j < MAX_SE_CONNECTIONS \<Longrightarrow> cn_additional c' ! j =
       (if Suc j \<in> set pre \<and> ts_active (cn_additional c1 ! j) then retired (cn_additional c1 ! j) else cn_additional c1 ! j)"
    using nxt unfolding failover_def res by auto
  have f: "conn_inv c' nt'" "lock_seg 2 nt1 nt'" using nxt by (simp_all add: failover_def res)
  have live: "ret = 0" if "cn_use_ssl_data c" "k' \<in> set (k # ks)" "socket_healthy k' c nt" "0 \<le> snd (link_of k' c)" "fst (link_of k' c) \<noteq> None" for k'
  proof -
    have "k' \<noteq> k" using bad [OF that(1)] that by blast
    then show ?thesis using keep [OF that(1) _ _ that(3)] that nxt ssl unfolding failover_def res by fastforce
  qed
  have "cn_additional c' ! j = (if Suc j \<in> set (k # pre) \<and> ts_active (cn_additional c ! j) then retired (cn_additional c ! j) else cn_additional c ! j)"
    if "j < MAX_SE_CONNECTIONS" for j
    using pre(3) [OF that] c1 [OF that] by (auto simp: retired_def)
  moreover have "k # ks = (k # pre) @ post" using pre(1) by simp
  ultimately show ?thesis
    unfolding failover_def res prod.case using f lock_seg_trans [OF seg] live pre(2) by blast
qed

lemma healthy_writes:
  assumes "socket_healthy k c nt"
  shows "\<exists>nt'. (if k = 0 then data_write_all c bs nt else data_write_all_sock c (fst (link_of k c)) (snd (link_of k c)) bs nt) = Some (0, nt')"
  using write_healthy [OF assms, of "fst (link_of k c)" "snd (link_of k c)" bs] by (cases "k = 0") auto

text \<open>The sockets \<open>ks\<close> are handled correctly from every well-formed state.\<close>

definition loop_ok :: "byte list \<Rightarrow> nat list \<Rightarrow> bool" where
  "loop_ok bs ks \<longleftrightarrow> (\<forall>k \<in> set ks. k \<le> MAX_SE_CONNECTIONS) \<and>
     (\<forall>c nt. conn_inv c nt \<longrightarrow> (\<exists>res. transmit_loop bs ks c nt = Some res \<and> failover ks c nt res))"

lemma loop_skip:
  assumes ok: "loop_ok bs ks" and inv: "conn_inv c nt" and k: "k \<le> MAX_SE_CONNECTIONS"
    and s: "io_step 2 (fst (link_of k c)) nt nt1" and idle: "0 < k \<Longrightarrow> \<not> ts_active (cn_additional c ! (k - 1))"
    and bad: "\<not> (socket_healthy k c nt \<and> 0 \<le> snd (link_of k c) \<and> fst (link_of k c) \<noteq> None)"
  shows "\<exists>res. transmit_loop bs ks c nt1 = Some res \<and> failover (k # ks) c nt res"
proof -
  have ks: "\<forall>k \<in> set ks. k \<le> MAX_SE_CONNECTIONS" using ok by (simp add: loop_ok_def)
  obtain res where r: "transmit_loop bs ks c nt1 = Some res" "failover ks c nt1 res"
    using ok io_step_conn [OF inv s] unfolding loop_ok_def by blast
  have "failover (k # ks) c nt res"
  proof (rule failover_next [OF r(2)])
    show "lock_seg 2 nt nt1" using s by (simp add: io_step_def)
    show "cn_additional c ! j = (if Suc j = k \<and> ts_active (cn_additional c ! j) then retired (cn_additional c ! j) else cn_additional c ! j)" for j
      using idle by (cases "Suc j = k") auto
    show "socket_healthy k' c nt1 \<and> link_of k' c = link_of k' c"
      if "cn_use_ssl_data c" "k' \<in> set ks" "k' \<noteq> k" "socket_healthy k' c nt" for k'
      using that healthy_cong [OF that(1), of k' nt1 nt] s links_apart(1) [OF inv that(3) _ k] ks
      by (auto simp: io_step_def)
  qed (use bad in auto)
  then show ?thesis using r(1) by blast
qed

lemma loop_primary:
  assumes ok: "loop_ok bs ks" and inv: "conn_inv c nt"
  shows "\<exists>res. transmit_loop bs (0 # ks) c nt = Some res \<and> failover (0 # ks) c nt res"
proof (cases "cn_ssl c = None \<or> cn_socket_fd c < 0")
  case True
  then show ?thesis using loop_skip [OF ok inv, of 0 nt] by (auto simp: link_of_def)
next
  case False
  obtain wr nt1 where w: "data_write_all c bs nt = Some (wr, nt1)" "io_step 2 (cn_ssl c) nt nt1"
    using data_write_all_io [OF conn_inv_alive(1) [OF inv]] by blast
  show ?thesis
  proof (cases "wr = 0")
    case sent: True
    have "failover (0 # ks) c nt (0, c, nt1)"
      using failover_sent io_step_conn [OF inv w(2)] w(2) by (simp add: io_step_def)
    then show ?thesis using False w(1) sent by auto
  next
    case failed: False
    have "\<not> socket_healthy 0 c nt" using healthy_writes [of 0 c nt bs] w(1) failed by auto
    then have "\<exists>res. transmit_loop bs ks c nt1 = Some res \<and> failover (0 # ks) c nt res"
      using loop_skip [OF ok inv, of 0 nt1] w(2) by (simp add: link_of_def)
    then show ?thesis using False w(1) failed by auto
  qed
qed

text \<open>After a failed write the additional link \<open>k\<close> is retired and the loop goes on.\<close>

lemma loop_retire:
  assumes ok: "loop_ok bs ks" and inv: "conn_inv c nt" and k: "k \<le> MAX_SE_CONNECTIONS" "0 < k"
    and act: "ts_active (cn_additional c ! (k - 1))" and w: "io_step 2 (fst (link_of k c)) nt nt1"
    and unh: "\<not> socket_healthy k c nt"
  shows "\<exists>c' nt2 res. retire_socket (k - 1) c (net_ev (Lock (L_io (int (k - 1)))) nt1) = Some (c', nt2) \<and>
     transmit_loop bs ks (c'\<lparr>cn_num_additional := cn_num_additional c' - 1\<rparr>) (net_ev (Unlock (L_io (int (k - 1)))) nt2) = Some res \<and>
     failover (k # ks) c nt res"
proof -
  let ?i = "k - 1" let ?nt1 = "net_ev (Lock (L_io (int ?i))) nt1" let ?c = "retire_conn ?i c"
  have i: "?i < MAX_SE_CONNECTIONS" using k by linarith
  have ks: "\<forall>k \<in> set ks. k \<le> MAX_SE_CONNECTIONS" using ok by (simp add: loop_ok_def)
  have "conn_inv c ?nt1" using io_step_conn [OF inv w] by simp
  then obtain c' nt2 where r: "retire_socket ?i c ?nt1 = Some (c', nt2)"
    "c'\<lparr>cn_num_additional := cn_num_additional c' - 1\<rparr> = ?c" "lock_seg 3 ?nt1 nt2"
    "conn_inv ?c nt2" "\<forall>j. ts_ssl_ctx (cn_additional c ! ?i) \<noteq> Some j \<longrightarrow> nt_tls nt2 j = nt_tls nt1 j"
    using retire_socket_ok [OF _ i act] by fastforce
  let ?nt2 = "net_ev (Unlock (L_io (int ?i))) nt2"
  have "lock_seg 2 nt1 ?nt2" by (rule lock_seg_bracket) (use r(3) in simp_all)
  then have seg: "lock_seg 2 nt ?nt2" using w lock_seg_trans by (auto simp: io_step_def)
  obtain res where t: "transmit_loop bs ks ?c ?nt2 = Some res" "failover ks ?c ?nt2 res"
    using ok r(4) unfolding loop_ok_def by (metis conn_inv_ev(1))
  have "failover (k # ks) c nt res"
  proof (rule failover_next [OF t(2) seg])
    show "cn_additional ?c ! j = (if Suc j = k \<and> ts_active (cn_additional c ! j) then retired (cn_additional c ! j) else cn_additional c ! j)"
      if "j < MAX_SE_CONNECTIONS" for j
      using that act k conn_inv_alive(3) [OF inv] by (cases "Suc j = k") (auto simp: retire_conn_def)
    show "socket_healthy k' ?c ?nt2 \<and> link_of k' ?c = link_of k' c"
      if ssl: "cn_use_ssl_data c" and k': "k' \<in> set ks" "k' \<noteq> k" and h: "socket_healthy k' c nt" for k'
    proof -
      have b: "k' \<le> MAX_SE_CONNECTIONS" "k' \<noteq> Suc ?i" using k' ks k(2) by auto
      have "nt_tls ?nt2 x = nt_tls nt x" if "fst (link_of k' c) = Some x" for x
        using links_apart [OF inv k'(2) b(1) k(1) that] w r(5) k(2) by (auto simp: io_step_def)
      then have "socket_healthy k' c ?nt2" using healthy_cong [OF ssl] h by blast
      then show ?thesis using healthy_retire [OF _ ssl b(2,1)] retire_other(1) [OF b(2)] by blast
    qed
  qed (use unh in auto)
  then show ?thesis using r t by (metis (no_types, lifting))
qed

lemma loop_slot:
  assumes ok: "loop_ok bs ks" and inv: "conn_inv c nt" and k: "k \<le> MAX_SE_CONNECTIONS" "0 < k"
  shows "\<exists>res. transmit_loop bs (k # ks) c nt = Some res \<and> failover (k # ks) c nt res"
proof (cases "ts_active (cn_additional c ! (k - 1))")
  case False
  then show ?thesis using loop_skip [OF ok inv k(1), of nt] k(2) by (auto simp: socket_healthy_def)
next
  case act: True
  let ?ts = "cn_additional c ! (k - 1)"
  have i: "k - 1 < MAX_SE_CONNECTIONS" using k by linarith
  have sl: "slot_ok ?ts nt" using inv i unfolding conn_inv_def links_inv_def by blast
  have l: "link_of k c = (ts_ssl ?ts, ts_socket_fd ?ts)" using k(2) by (simp add: link_of_def)
  have up: "\<not> (\<not> ts_active ?ts \<or> ts_ssl ?ts = None \<or> ts_socket_fd ?ts < 0)" using act sl by (auto simp: slot_ok_def)
  obtain wr nt1 where w: "data_write_all_sock c (ts_ssl ?ts) (ts_socket_fd ?ts) bs nt = Some (wr, nt1)"
    "io_step 2 (ts_ssl ?ts) nt nt1"
    using data_write_all_sock_io [OF conn_inv_alive(2) [OF inv i]] by blast
  show ?thesis
  proof (cases "wr = 0")
    case sent: True
    have "failover (k # ks) c nt (0, c, nt1)"
      using failover_sent io_step_conn [OF inv w(2)] w(2) by (simp add: io_step_def)
    then show ?thesis using k(2) up w(1) sent by (auto simp: Let_def)
  next
    case failed: False
    have "\<not> socket_healthy k c nt" using healthy_writes [of k c nt bs] k(2) w(1) failed l by auto
    from loop_retire [OF ok inv k act _ this, of nt1] w(2) l
    show ?thesis using k(2) up w(1) failed by (auto simp: Let_def)
  qed
qed

lemma transmit_loop_ok: "\<forall>k \<in> set ks. k \<le> MAX_SE_CONNECTIONS \<Longrightarrow> loop_ok bs ks"
proof (induction ks)
  case Nil
  then show ?case using failover_Nil by (simp add: loop_ok_def)
next
  case (Cons k ks)
  then have ok: "loop_ok bs ks" by simp
  show ?case unfolding loop_ok_def
    using Cons.prems loop_primary [OF ok] loop_slot [OF ok, of _ _ k] by (cases "k = 0") auto
qed

end
