(* ===== verification/Packet_Run.thy ===== *)
theory Packet_Run
  imports Packet_Safe
begin

text \<open>
  Whole operations of the packet layer on a well-formed connection: sending with failover, keepalives,
  the receive pass over all links, and arbitrary sequences of them.
\<close>

section \<open>What UDP acceleration leaves alone\<close>

definition udp_step :: "net \<Rightarrow> net \<Rightarrow> bool" where
  "udp_step nt nt' \<longleftrightarrow> nt_tls nt' = nt_tls nt \<and> nt_trace nt' = nt_trace nt"

lemma udp_step_refl [simp]: "udp_step nt nt"
  by (simp add: udp_step_def)

lemma udp_step_trans [trans]: "udp_step a b \<Longrightarrow> udp_step b d \<Longrightarrow> udp_step a d"
  by (simp add: udp_step_def)

lemma udp_step_inv: "udp_step nt nt' \<Longrightarrow> conn_inv c nt' = conn_inv c nt"
  by (rule conn_inv_tls) (simp add: udp_step_def)

lemma udp_step_seg: "udp_step nt nt' \<Longrightarrow> lock_seg n nt nt'"
  by (simp add: udp_step_def lock_seg_def)

lemma udp_step_basic:
  "udp_step nt (snd (softether_tick_ms nt))" "udp_step nt (snd (rand_u32 nt))" "udp_step nt (net_close fd nt)"
  "udp_step nt (snd (net_sendto pkt a nt))" "udp_step nt (snd (rudp_padding n ru nt))" "udp_step nt (snd (rudp_ref_release ru nt))"
  "udp_step nt (snd (net_malloc nt))" "udp_step nt (snd (net_poll nt))"
  by (simp_all add: udp_step_def softether_tick_ms_def rand_u32_def random_bytes_def net_close_def net_sendto_def rudp_padding_def
      rudp_ref_release_def rudp_destroy_final_def net_malloc_def net_poll_def Let_def split: list.splits)

lemma build_udp:
  "rudp_build_v1 L c z f nt = Some (r, nt') \<Longrightarrow> udp_step nt nt'"
  "rudp_build_v2 L c z f nt = Some (r, nt') \<Longrightarrow> udp_step nt nt'"
  using udp_step_basic(5)
  by (auto simp: rudp_build_v1_def rudp_build_v2_def Let_def bind_eq_Some_conv case_prod_beta split: if_splits)

lemma release_udp: "rudp_ref_release ru nt = (c', nt') \<Longrightarrow> udp_step nt nt'"
  using udp_step_basic(6) [of nt ru] by simp

lemma send_nolock_udp:
  assumes "rudp_send_nolock L d f c nt = Some (r, c', nt')"
  shows "udp_step nt nt'"
proof -
  let ?c = "c\<lparr>ru_now := nt_tick nt (nt_ticks nt)\<rparr>" let ?nt = "nt\<lparr>nt_ticks := nt_ticks nt + 1\<rparr>"
  obtain z f' where z: "rudp_payload L ?c d f = (z, f')" by fastforce
  define B where "B = (if ru_version ?c = 1 then rudp_build_v1 L ?c z f' ?nt else rudp_build_v2 L ?c z f' ?nt)"
  note u = send_nolock_unfold [OF refl refl z B_def]
  obtain b nt1 where b: "B = Some (b, nt1)" using assms unfolding u by (cases B) auto
  have "udp_step ?nt nt1" using b build_udp unfolding B_def by (metis (no_types, lifting))
  then have s1: "udp_step nt nt1" by (simp add: udp_step_def)
  show ?thesis
  proof (cases b)
    case None then show ?thesis using assms s1 unfolding u b by simp
  next
    case (Some pc)
    obtain pkt c2 where pc: "pc = (pkt, c2)" by fastforce
    obtain ok nt2 where o: "net_sendto pkt (ru_peer_addr c2) nt1 = (ok, nt2)" by fastforce
    have "nt' = nt2" using assms unfolding u b Some pc by (simp add: o split: if_splits)
    then show ?thesis using udp_step_basic(4) [of nt1 pkt "ru_peer_addr c2"] s1 o by (simp add: udp_step_def)
  qed
qed

lemma send_udp:
  assumes "rudp_send L data n f c nt = Some (r, c', nt')"
  shows "udp_step nt nt'"
proof (cases "rudp_ref_acquire c")
  case None then show ?thesis using assms by (simp add: rudp_send_def)
next
  case (Some c1)
  show ?thesis
  proof (cases "(\<not> ru_inited c1 \<or> \<not> ru_peer_addr_set c1) \<or> 0 < n \<and> data = None")
    case True
    then have "rudp_ref_release c1 nt = (c', nt')" using assms Some unfolding rudp_send_def by (auto simp: case_prod_beta split: if_splits)
    then show ?thesis by (rule release_udp)
  next
    case False
    then obtain d r2 c2 nt2 where "rudp_send_nolock L d f c1 nt = Some (r2, c2, nt2)" "rudp_ref_release c2 nt2 = (c', nt')"
      using assms Some unfolding rudp_send_def by (auto simp: case_prod_beta bind_eq_Some_conv simp del: not_None_eq split: if_splits)
    then show ?thesis using send_nolock_udp release_udp udp_step_trans by blast
  qed
qed

lemma recv_loop_udp: "rudp_recv_loop L ds c nt = Some (c', nt') \<Longrightarrow> udp_step nt nt'"
proof (induction ds arbitrary: c nt)
  case (Cons x ds)
  obtain d a where x: "x = (d, a)" by fastforce
  let ?nt = "snd (softether_tick_ms nt)"
  consider "nt' = nt\<lparr>nt_udp_in := ds\<rparr>" | "rudp_recv_loop L ds c nt = Some (c', nt')" | c1 where "rudp_recv_loop L ds c1 ?nt = Some (c', nt')"
    using Cons.prems unfolding x by (auto simp: Let_def case_prod_beta bind_eq_Some_conv split: if_splits)
  then show ?case
  proof cases
    case 3 then show ?thesis using Cons.IH udp_step_basic(1) udp_step_trans by blast
  qed (use Cons.IH in \<open>auto simp: udp_step_def\<close>)
qed (auto simp: udp_step_def)

lemma poll_timers_udp:
  assumes "rudp_poll_timers L c nt = Some (c', nt')"
  shows "udp_step nt nt'"
proof -
  consider "nt' = nt" | nt1 where "nt1 = nt \<or> (\<exists>c0 r c1. rudp_send L None 0 0 c0 nt = Some (r, c1, nt1))" "nt' = snd (rand_u32 nt1)"
    using assms unfolding rudp_poll_timers_def rudp_send_keepalive_def
    by (auto simp: Let_def case_prod_beta bind_eq_Some_conv split: if_splits)
  then show ?thesis
  proof cases
    case 2
    have "udp_step nt nt1" using 2(1) send_udp by auto
    then show ?thesis using 2(2) udp_step_basic(2) udp_step_trans by blast
  qed simp
qed

lemma poll_udp:
  assumes "rudp_poll L c nt = Some (c', nt')"
  shows "udp_step nt nt'"
proof (cases "rudp_ref_acquire c")
  case None then show ?thesis using assms by (simp add: rudp_poll_def)
next
  case (Some c1)
  show ?thesis
  proof (cases "ru_inited c1")
    case False
    then show ?thesis using assms Some release_udp by (simp add: rudp_poll_def)
  next
    case True
    then obtain c2 nt1 c3 nt2 c0 where "rudp_poll_timers L c0 (snd (softether_tick_ms nt)) = Some (c2, nt1)"
      "rudp_recv_loop L (nt_udp_in nt1) c2 nt1 = Some (c3, nt2)" "rudp_ref_release c3 nt2 = (c', nt')"
      using assms Some unfolding rudp_poll_def rudp_poll_nolock_def by (auto simp: Let_def case_prod_beta bind_eq_Some_conv)
    then show ?thesis using udp_step_basic(1) poll_timers_udp recv_loop_udp release_udp udp_step_trans by metis
  qed
qed

lemma recv_udp: "rudp_recv l m c nt = Some (r, l', d, c', nt') \<Longrightarrow> udp_step nt nt'"
  by (auto simp: rudp_recv_def Let_def case_prod_beta bind_eq_Some_conv split: option.splits if_splits intro: release_udp)

lemma get_fd_udp: "rudp_get_udp_fd c nt = (fd, c', nt') \<Longrightarrow> udp_step nt nt'"
  by (auto simp: rudp_get_udp_fd_def Let_def case_prod_beta split: option.splits intro: release_udp)

lemma ready_udp: "rudp_is_send_ready k c nt = (r, c', nt') \<Longrightarrow> udp_step nt nt'"
  by (auto simp: rudp_is_send_ready_def Let_def case_prod_beta split: option.splits if_splits intro: release_udp)

section \<open>The receive pass\<close>

text \<open>The selected link is the primary one or an active slot.\<close>

definition sel_ok :: "tcp_sock_info \<Rightarrow> softether_connection \<Rightarrow> bool" where
  "sel_ok sel c \<longleftrightarrow>
     (if ti_is_additional sel
      then 0 \<le> ti_additional_idx sel \<and> nat (ti_additional_idx sel) < MAX_SE_CONNECTIONS \<and>
           ts_active (cn_additional c ! nat (ti_additional_idx sel)) \<and>
           ts_ssl (cn_additional c ! nat (ti_additional_idx sel)) = ti_ssl sel
      else ti_ssl sel = cn_ssl c)"

definition info_wf :: "tcp_sock_info \<Rightarrow> bool" where
  "info_wf t \<longleftrightarrow> (ti_is_additional t \<longrightarrow> 0 \<le> ti_additional_idx t \<and> nat (ti_additional_idx t) < MAX_SE_CONNECTIONS)"

definition step_ok :: "net \<Rightarrow> softether_connection \<Rightarrow> net \<Rightarrow> bool" where
  "step_ok nt c' nt' \<longleftrightarrow> conn_inv c' nt' \<and> lock_seg 2 nt nt'"

lemma step_ok_trans: "lock_seg 2 nt nt1 \<Longrightarrow> step_ok nt1 c nt2 \<Longrightarrow> step_ok nt c nt2"
  unfolding step_ok_def by (blast intro: lock_seg_trans)

lemma step_ok_io: "conn_inv c nt \<Longrightarrow> io_step 2 ssl nt nt' \<Longrightarrow> step_ok nt c nt'"
  unfolding step_ok_def using io_step_conn by (auto simp: io_step_def)

lemma step_ok_udp: "conn_inv c nt \<Longrightarrow> udp_step nt nt' \<Longrightarrow> step_ok nt c nt'"
  unfolding step_ok_def by (simp add: udp_step_inv udp_step_seg)

lemma sel_alive: "conn_inv c nt \<Longrightarrow> sel_ok sel c \<Longrightarrow> tls_alive (ti_ssl sel) nt"
  using conn_inv_alive(1) [of c nt] conn_inv_alive(2) [of c nt "nat (ti_additional_idx sel)"]
  by (auto simp: sel_ok_def split: if_splits)

lemma sel_ok_frame [simp]: "sel_ok sel (c\<lparr>cn_recv_queue := q\<rparr>) = sel_ok sel c"
  "sel_ok sel (c\<lparr>cn_rx_skipped_blocks := k\<rparr>) = sel_ok sel c"
  by (simp_all add: sel_ok_def)

lemma close_failed_ok:
  assumes "conn_inv c nt" "sel_ok sel c"
  shows "\<exists>r c' nt'. close_failed_additional sel c nt = Some (r, c', nt') \<and> step_ok nt c' nt'"
proof (cases "ti_is_additional sel")
  case False
  then show ?thesis using assms by (simp add: close_failed_additional_def step_ok_def)
next
  case True
  let ?i = "nat (ti_additional_idx sel)" let ?nt = "net_ev (Lock (L_io (ti_additional_idx sel))) nt"
  have i: "0 \<le> ti_additional_idx sel" "?i < MAX_SE_CONNECTIONS" "ts_active (cn_additional c ! ?i)"
    using assms(2) True by (simp_all add: sel_ok_def)
  have "conn_inv c ?nt" using assms(1) by simp
  from retire_socket_ok [OF this i(2,3)] obtain c' nt' where r: "retire_socket ?i c ?nt = Some (c', nt')"
    "c'\<lparr>cn_num_additional := cn_num_additional c' - 1\<rparr> = retire_conn ?i c" "lock_seg 3 ?nt nt'" "conn_inv (retire_conn ?i c) nt'"
    by blast
  have "lock_seg 2 nt (net_ev (Unlock (L_io (ti_additional_idx sel))) nt')" by (rule lock_seg_bracket) (use r(3) in simp_all)
  then show ?thesis using True i r by (simp add: close_failed_additional_def step_ok_def)
qed

text \<open>The failing end of a loop: close the link and return.\<close>

lemma close_and_return:
  assumes "step_ok nt c nt1" "sel_ok sel c"
  shows "\<exists>r c' nt'. do { (r, c, nt) \<leftarrow> close_failed_additional sel c nt1; Some (Some r, c, nt) } = Some (Some r, c', nt') \<and> step_ok nt c' nt'"
proof -
  have "conn_inv c nt1" "lock_seg 2 nt nt1" using assms(1) by (simp_all add: step_ok_def)
  then show ?thesis using close_failed_ok [OF _ assms(2)] step_ok_trans by fastforce
qed

definition go_on :: "tcp_sock_info \<Rightarrow> net \<Rightarrow> int option \<times> softether_connection \<times> net \<Rightarrow> bool" where
  "go_on sel nt res \<longleftrightarrow> (case res of (r, c', nt') \<Rightarrow> step_ok nt c' nt' \<and> (r = None \<longrightarrow> sel_ok sel c'))"

lemma store_ok:
  assumes "conn_inv c nt" "fr_count (cn_recv_queue c) < RECV_QUEUE_SIZE" "length d \<le> MAX_QUEUED_FRAME"
  shows "\<exists>q. slot_store d (cn_recv_queue c) = Some q \<and> conn_inv (c\<lparr>cn_recv_queue := q\<rparr>) nt \<and> fr_count q < RECV_QUEUE_SIZE"
proof -
  have "queue_ok (cn_recv_queue c)" using assms(1) by (simp add: conn_inv_def)
  from slot_store_ok [OF this assms(2,3)] show ?thesis using assms(2) conn_inv_queue [OF assms(1)] by auto
qed

lemma commit_ok:
  assumes "conn_inv (c\<lparr>cn_recv_queue := q\<rparr>) nt" "fr_count q < RECV_QUEUE_SIZE" "unat n \<le> MAX_QUEUED_FRAME"
  shows "\<exists>q'. slot_commit RECV_QUEUE_SIZE n q = Some q' \<and> conn_inv (c\<lparr>cn_recv_queue := q'\<rparr>) nt"
proof -
  have "queue_ok q" using assms(1) by (simp add: conn_inv_def)
  from slot_commit_ok [OF this assms(2,3)] show ?thesis using conn_inv_queue [OF assms(1)] by auto
qed

lemma fill_slot_safe:
  assumes L: "lib_ok L" and inv: "conn_inv c nt" and sel: "sel_ok sel c"
    and n: "unat n \<le> MAX_QUEUED_FRAME" "fr_count (cn_recv_queue c) < RECV_QUEUE_SIZE"
  shows "\<exists>res. fill_slot L sel n c nt = Some res \<and> go_on sel nt res"
proof (cases "cn_server_use_compress c")
  case False
  obtain ret bs nt1 where r: "data_read_all_sock c (ti_ssl sel) (ti_fd sel) (unat n) nt = Some (ret, bs, nt1)"
    "io_step 2 (ti_ssl sel) nt nt1" "length bs \<le> unat n"
    using data_read_all_sock_io [OF sel_alive [OF inv sel]] by blast
  have s1: "step_ok nt c nt1" using step_ok_io [OF inv r(2)] .
  then have inv1: "conn_inv c nt1" by (simp add: step_ok_def)
  obtain q where q: "slot_store bs (cn_recv_queue c) = Some q" "conn_inv (c\<lparr>cn_recv_queue := q\<rparr>) nt1" "fr_count q < RECV_QUEUE_SIZE"
    using store_ok [OF inv1 n(2), of bs] r(3) n(1) by auto
  obtain q' where q': "slot_commit RECV_QUEUE_SIZE n q = Some q'" "conn_inv (c\<lparr>cn_recv_queue := q'\<rparr>) nt1"
    using commit_ok [OF q(2,3) n(1)] by blast
  have "step_ok nt (c\<lparr>cn_recv_queue := q\<rparr>) nt1" "step_ok nt (c\<lparr>cn_recv_queue := q'\<rparr>) nt1" using s1 q q' by (simp_all add: step_ok_def)
  then show ?thesis
    using close_and_return [of nt "c\<lparr>cn_recv_queue := q\<rparr>" nt1 sel] False r(1) q(1) q'(1) sel
    by (cases "ret = 0") (auto simp: fill_slot_def go_on_def)
next
  case True
  let ?nt = "snd (net_malloc nt)"
  have inv0: "conn_inv c ?nt" "lock_seg 2 nt ?nt" using inv udp_step_inv [OF udp_step_basic(7)] udp_step_seg [OF udp_step_basic(7)] by blast+
  obtain ret bs nt1 where r: "data_read_all_sock c (ti_ssl sel) (ti_fd sel) (unat n) ?nt = Some (ret, bs, nt1)"
    "io_step 2 (ti_ssl sel) ?nt nt1" "length bs \<le> unat n"
    using data_read_all_sock_io [OF sel_alive [OF inv0(1) sel]] by blast
  have s1: "step_ok nt c nt1" using step_ok_trans [OF inv0(2) step_ok_io [OF inv0(1) r(2)]] .
  then have inv1: "conn_inv c nt1" by (simp add: step_ok_def)
  let ?d = "unpack_block L MAX_QUEUED_FRAME bs"
  have d: "length ?d \<le> MAX_QUEUED_FRAME" using unpack_length [OF L] r(3) n(1) by simp
  then have u: "unat (word_of_nat (length ?d) :: u32) \<le> MAX_QUEUED_FRAME" by (simp add: unat_of_nat32 conn_sizes)
  obtain q where q: "slot_store ?d (cn_recv_queue c) = Some q" "conn_inv (c\<lparr>cn_recv_queue := q\<rparr>) nt1" "fr_count q < RECV_QUEUE_SIZE"
    using store_ok [OF inv1 n(2) d] by auto
  obtain q' where q': "slot_commit RECV_QUEUE_SIZE (word_of_nat (length ?d)) q = Some q'" "conn_inv (c\<lparr>cn_recv_queue := q'\<rparr>) nt1"
    using commit_ok [OF q(2,3) u] by blast
  have "step_ok nt (c\<lparr>cn_recv_queue := q'\<rparr>) nt1" using s1 q' by (simp add: step_ok_def)
  moreover have "step_ok nt c ?nt" using inv0 by (simp add: step_ok_def)
  ultimately show ?thesis
    using close_and_return [OF s1 sel] True r(1) q(1) q'(1) sel
    by (cases "fst (net_malloc nt)"; cases "ret = 0") (auto simp: fill_slot_def go_on_def Let_def case_prod_beta)
qed

lemma fill_blocks_safe:
  assumes L: "lib_ok L"
  shows "conn_inv c nt \<Longrightarrow> sel_ok sel c \<Longrightarrow> \<exists>res. fill_blocks L sel n c nt = Some res \<and> go_on sel nt res"
proof (induction n arbitrary: c nt)
  case 0
  then show ?case by (simp add: go_on_def step_ok_def)
next
  case (Suc n)
  obtain sz nt1 where z: "read_uint32_sock c (ti_ssl sel) (ti_fd sel) nt = Some (sz, nt1)" "io_step 2 (ti_ssl sel) nt nt1"
    using read_uint32_sock_io [OF sel_alive [OF Suc.prems]] by blast
  have s1: "step_ok nt c nt1" using step_ok_io [OF Suc.prems(1) z(2)] .
  then have inv1: "conn_inv c nt1" and seg1: "lock_seg 2 nt nt1" by (simp_all add: step_ok_def)
  have more: "\<exists>res. fill_blocks L sel n c2 nt2 = Some res \<and> go_on sel nt res"
    if "step_ok nt c2 nt2" "sel_ok sel c2" for c2 nt2
    using Suc.IH [of c2 nt2] that step_ok_trans by (fastforce simp: step_ok_def go_on_def)
  show ?case
  proof (cases sz)
    case None
    then show ?thesis using z(1) close_and_return [OF s1 Suc.prems(2)] by (auto simp: go_on_def)
  next
    case (Some k)
    consider (big) "MAX_BLOCK_SIZE < k" | (zero) "\<not> MAX_BLOCK_SIZE < k" "k = 0"
      | (slot) "\<not> MAX_BLOCK_SIZE < k" "k \<noteq> 0" "unat k \<le> MAX_QUEUED_FRAME \<and> fr_count (cn_recv_queue c) < RECV_QUEUE_SIZE"
      | (skip) "\<not> MAX_BLOCK_SIZE < k" "k \<noteq> 0" "\<not> (unat k \<le> MAX_QUEUED_FRAME \<and> fr_count (cn_recv_queue c) < RECV_QUEUE_SIZE)"
      by blast
    then show ?thesis
    proof cases
      case big
      then show ?thesis using Some z(1) s1 by (simp add: go_on_def)
    next
      case zero
      then show ?thesis using Some z(1) more [OF s1 Suc.prems(2)] by simp
    next
      case slot
      obtain r c2 nt2 where f: "fill_slot L sel k c nt1 = Some (r, c2, nt2)" "go_on sel nt1 (r, c2, nt2)"
        using fill_slot_safe [OF L inv1 Suc.prems(2), of k] slot by (metis prod_cases3)
      have s2: "step_ok nt c2 nt2" "r = None \<Longrightarrow> sel_ok sel c2" using f(2) step_ok_trans [OF seg1] by (auto simp: go_on_def)
      then show ?thesis using Some z(1) slot f(1) more [of c2 nt2] by (cases r) (auto simp: go_on_def)
    next
      case skip
      let ?c = "c\<lparr>cn_rx_skipped_blocks := cn_rx_skipped_blocks c + 1\<rparr>"
      obtain r nt2 where k: "skip_block (data_read_all_sock c (ti_ssl sel) (ti_fd sel)) (unat k) nt1 = Some (r, nt2)"
        "io_step 2 (ti_ssl sel) nt1 nt2" using skip_block_io [OF sel_alive [OF inv1 Suc.prems(2)]] by blast
      have s2: "step_ok nt c nt2" using step_ok_trans [OF seg1 step_ok_io [OF inv1 k(2)]] .
      then have "step_ok nt ?c nt2" by (simp add: step_ok_def)
      then have m: "\<exists>res. fill_blocks L sel n ?c nt2 = Some res \<and> go_on sel nt res" using more Suc.prems(2) by simp
      have "fill_blocks L sel (Suc n) c nt =
          (if r \<noteq> 0 then do { (r, c, nt) \<leftarrow> close_failed_additional sel c nt2; Some (Some r, c, nt) } else fill_blocks L sel n ?c nt2)"
        using Some z(1) skip k(1) by (auto simp del: skip_block.simps)
      then show ?thesis using m close_and_return [OF s2 Suc.prems(2)] by (cases "r = 0") (auto simp: go_on_def)
    qed
  qed
qed

lemma send_keepalive_io:
  assumes "conn_inv c nt"
  shows "\<exists>r nt'. softether_send_keepalive c nt = Some (r, nt') \<and> io_step 2 (cn_ssl c) nt nt' \<and> same_input nt nt'"
  using keepalive_sock_io [OF conn_inv_alive(1) [OF assms], of c "cn_socket_fd c"] by (simp add: softether_send_keepalive_def)

definition call_ok :: "net \<Rightarrow> int \<times> softether_connection \<times> net \<Rightarrow> bool" where
  "call_ok nt res \<longleftrightarrow> (case res of (r, c', nt') \<Rightarrow> step_ok nt c' nt')"

lemma close_call:
  assumes "step_ok nt c nt1" "sel_ok sel c"
  shows "\<exists>res. close_failed_additional sel c nt1 = Some res \<and> call_ok nt res"
proof -
  have "conn_inv c nt1" "lock_seg 2 nt nt1" using assms(1) by (simp_all add: step_ok_def)
  then show ?thesis using close_failed_ok [OF _ assms(2)] step_ok_trans by (fastforce simp: call_ok_def)
qed

lemma keepalive_message_safe:
  assumes inv: "step_ok nt c nt1" and sel: "sel_ok sel c"
  shows "\<exists>res. do { (sz, nt) \<leftarrow> read_uint32_sock c (ti_ssl sel) (ti_fd sel) nt1;
        case sz of
          None \<Rightarrow> close_failed_additional sel c nt
        | Some ka_size \<Rightarrow>
            do { let ka_size = (if 512 < ka_size then 512 else ka_size);
                 (ret, _, nt) \<leftarrow> (if 0 < ka_size
                   then data_read_all_sock c (ti_ssl sel) (ti_fd sel) (unat ka_size) nt
                   else Some (0, [], nt));
                 if ret \<noteq> 0 then close_failed_additional sel c nt
                 else do { (_, nt) \<leftarrow> softether_send_keepalive c nt; Some (0, c, nt) } } } = Some res \<and> call_ok nt res"
proof -
  have inv1: "conn_inv c nt1" "lock_seg 2 nt nt1" using inv by (simp_all add: step_ok_def)
  obtain sz nt2 where z: "read_uint32_sock c (ti_ssl sel) (ti_fd sel) nt1 = Some (sz, nt2)" "io_step 2 (ti_ssl sel) nt1 nt2"
    using read_uint32_sock_io [OF sel_alive [OF inv1(1) sel]] by blast
  have s2: "step_ok nt c nt2" using step_ok_trans [OF inv1(2) step_ok_io [OF inv1(1) z(2)]] .
  show ?thesis
  proof (cases sz)
    case None then show ?thesis using z(1) close_call [OF s2 sel] by simp
  next
    case (Some k)
    let ?k = "if 512 < k then 512 else k"
    have inv2: "conn_inv c nt2" "lock_seg 2 nt nt2" using s2 by (simp_all add: step_ok_def)
    obtain ret bs nt3 where d: "(if 0 < ?k then data_read_all_sock c (ti_ssl sel) (ti_fd sel) (unat ?k) nt2 else Some (0, [], nt2)) = Some (ret, bs, nt3)"
      "io_step 2 (ti_ssl sel) nt2 nt3"
      using data_read_all_sock_io [OF sel_alive [OF inv2(1) sel], of c "ti_fd sel" "unat ?k"] by (metis io_step_refl)
    have s3: "step_ok nt c nt3" using step_ok_trans [OF inv2(2) step_ok_io [OF inv2(1) d(2)]] .
    then have inv3: "conn_inv c nt3" "lock_seg 2 nt nt3" by (simp_all add: step_ok_def)
    obtain r nt4 where k: "softether_send_keepalive c nt3 = Some (r, nt4)" "io_step 2 (cn_ssl c) nt3 nt4"
      using send_keepalive_io [OF inv3(1)] by blast
    have "step_ok nt c nt4" using step_ok_trans [OF inv3(2) step_ok_io [OF inv3(1) k(2)]] .
    then have "\<exists>res. (if ret \<noteq> 0 then close_failed_additional sel c nt3
        else do { (_, nt) \<leftarrow> softether_send_keepalive c nt3; Some (0, c, nt) }) = Some res \<and> call_ok nt res"
      using close_call [OF s3 sel] k(1) by (simp add: call_ok_def)
    then show ?thesis unfolding z(1) Some Let_def by (simp only: Option.bind.bind_lunit prod.case option.case d(1))
  qed
qed

lemma read_message_safe:
  assumes L: "lib_ok L" and inv: "conn_inv c nt" and sel: "sel_ok sel c"
  shows "\<exists>res. read_message L sel c nt = Some res \<and> call_ok nt res"
proof -
  obtain cnt nt1 where z: "read_uint32_sock c (ti_ssl sel) (ti_fd sel) nt = Some (cnt, nt1)" "io_step 2 (ti_ssl sel) nt nt1"
    using read_uint32_sock_io [OF sel_alive [OF inv sel]] by blast
  have s1: "step_ok nt c nt1" using step_ok_io [OF inv z(2)] .
  then have inv1: "conn_inv c nt1" "lock_seg 2 nt nt1" by (simp_all add: step_ok_def)
  show ?thesis
  proof (cases cnt)
    case None
    then show ?thesis using z(1) close_call [OF s1 sel] by (simp add: read_message_def)
  next
    case (Some k)
    consider (ka) "k = KEEP_ALIVE_MAGIC" | (zero) "k \<noteq> KEEP_ALIVE_MAGIC" "k = 0" | (blocks) "k \<noteq> KEEP_ALIVE_MAGIC" "k \<noteq> 0" by blast
    then show ?thesis
    proof cases
      case ka
      show ?thesis unfolding read_message_def z(1) Some
        by (simp only: Option.bind.bind_lunit prod.case option.case ka simp_thms if_True) (rule keepalive_message_safe [OF s1 sel])
    next
      case zero
      then show ?thesis using Some z(1) s1 by (simp add: read_message_def call_ok_def KEEP_ALIVE_MAGIC_def)
    next
      case blocks
      obtain r c2 nt2 where f: "fill_blocks L sel (unat k) c nt1 = Some (r, c2, nt2)" "go_on sel nt1 (r, c2, nt2)"
        using fill_blocks_safe [OF L inv1(1) sel] by (metis prod_cases3)
      have "step_ok nt c2 nt2" using f(2) step_ok_trans [OF inv1(2)] by (simp add: go_on_def)
      then show ?thesis using blocks Some z(1) f(1) by (cases r) (simp_all add: read_message_def call_ok_def)
    qed
  qed
qed

lemma filter_same:
  assumes "i < length xs" "P x = P (xs ! i)"
  shows "length (filter P (xs[i := x])) = length (filter P xs)"
proof -
  have "xs = take i xs @ xs ! i # drop (Suc i) xs" using assms(1) by (rule id_take_nth_drop)
  then have "length (filter P xs) = length (filter P (take i xs)) + length (filter P [xs ! i]) + length (filter P (drop (Suc i) xs))"
    by (metis (no_types, lifting) append_Cons append_Nil filter_append length_append add.assoc)
  then show ?thesis using assms by (simp add: upd_conv_take_nth_drop)
qed

definition touch_slot :: "nat \<Rightarrow> u64 \<Rightarrow> softether_connection \<Rightarrow> softether_connection" where
  "touch_slot i t c = c\<lparr>cn_additional := (cn_additional c)[i := (cn_additional c ! i)\<lparr>ts_last_recv := t\<rparr>]\<rparr>"

lemma touch_slot_ok:
  assumes "conn_inv c nt" "i < MAX_SE_CONNECTIONS"
  shows "conn_inv (touch_slot i t c) nt" "sel_ok sel (touch_slot i t c) = sel_ok sel c"
proof -
  have len: "length (cn_additional c) = MAX_SE_CONNECTIONS" using conn_inv_alive(3) [OF assms(1)] .
  have nth: "cn_additional (touch_slot i t c) ! j = (if j = i then (cn_additional c ! i)\<lparr>ts_last_recv := t\<rparr> else cn_additional c ! j)" for j
    using len assms(2) by (simp add: touch_slot_def)
  have f: "ts_ssl (cn_additional (touch_slot i t c) ! j) = ts_ssl (cn_additional c ! j)"
    "ts_ssl_ctx (cn_additional (touch_slot i t c) ! j) = ts_ssl_ctx (cn_additional c ! j)"
    "ts_active (cn_additional (touch_slot i t c) ! j) = ts_active (cn_additional c ! j)"
    "ts_socket_fd (cn_additional (touch_slot i t c) ! j) = ts_socket_fd (cn_additional c ! j)" for j
    unfolding nth by simp_all
  have g: "cn_ssl (touch_slot i t c) = cn_ssl c" "cn_num_additional (touch_slot i t c) = cn_num_additional c"
    "cn_recv_queue (touch_slot i t c) = cn_recv_queue c" "cn_rudp (touch_slot i t c) = cn_rudp c"
    "cn_send_block (touch_slot i t c) = cn_send_block c" "cn_send_block_cap (touch_slot i t c) = cn_send_block_cap c"
    "cn_send_rr_idx (touch_slot i t c) = cn_send_rr_idx c" "length (cn_additional (touch_slot i t c)) = length (cn_additional c)"
    by (simp_all add: touch_slot_def)
  have n: "length (filter ts_active (cn_additional (touch_slot i t c))) = length (filter ts_active (cn_additional c))"
    using filter_same [of i "cn_additional c" ts_active "(cn_additional c ! i)\<lparr>ts_last_recv := t\<rparr>"] len assms(2)
    by (simp add: touch_slot_def)
  show "conn_inv (touch_slot i t c) nt"
    using assms(1) unfolding conn_inv_def links_inv_def own_contexts_def slot_ok_def f g n .
  show "sel_ok sel (touch_slot i t c) = sel_ok sel c" unfolding sel_ok_def f g ..
qed

lemma read_selected_safe:
  assumes L: "lib_ok L" and inv: "conn_inv c nt" and wf: "info_wf t"
  shows "\<exists>res. read_selected L t c nt = Some res \<and> call_ok nt res"
proof -
  have stay: "call_ok nt (r, c, nt)" for r using inv by (simp add: call_ok_def step_ok_def)
  show ?thesis
  proof (cases "ti_is_additional t")
    case False
    show ?thesis
    proof (cases "ti_ssl t = None \<or> cn_ssl c \<noteq> ti_ssl t \<or> cn_socket_fd c \<noteq> ti_fd t \<or> cn_state c = STATE_DISCONNECTING")
      case True
      then show ?thesis using False stay by (auto simp: read_selected_def)
    next
      case go: False
      then have "sel_ok t c" using False by (simp add: sel_ok_def)
      from read_message_safe [OF L inv this] show ?thesis using False go by (auto simp: read_selected_def)
    qed
  next
    case True
    let ?i = "nat (ti_additional_idx t)"
    have i: "0 \<le> ti_additional_idx t" "?i < MAX_SE_CONNECTIONS" using wf True by (simp_all add: info_wf_def)
    show ?thesis
    proof (cases "ti_ssl t = None \<or> \<not> ts_active (cn_additional c ! ?i) \<or> ts_ssl (cn_additional c ! ?i) \<noteq> ti_ssl t \<or> cn_state c = STATE_DISCONNECTING")
      case stop: True
      then show ?thesis using True i stay by (auto simp: read_selected_def)
    next
      case go: False
      let ?nt = "snd (softether_tick_ms nt)" let ?c = "touch_slot ?i (fst (softether_tick_ms nt)) c"
      have inv1: "conn_inv c ?nt" "lock_seg 2 nt ?nt" using inv udp_step_inv [OF udp_step_basic(1)] udp_step_seg [OF udp_step_basic(1)] by blast+
      have "sel_ok t c" using True i go by (simp add: sel_ok_def)
      then have sel: "sel_ok t ?c" using touch_slot_ok(2) [OF inv1(1) i(2)] by blast
      from read_message_safe [OF L touch_slot_ok(1) [OF inv1(1) i(2)] sel] obtain res where
        r: "read_message L t ?c ?nt = Some res" "call_ok ?nt res" by blast
      have "read_selected L t c nt = read_message L t ?c ?nt"
        using True i go by (simp add: read_selected_def touch_slot_def case_prod_beta Let_def del: not_None_eq)
      then show ?thesis using r step_ok_trans [OF inv1(2)] by (auto simp: call_ok_def)
    qed
  qed
qed

lemma drain_loop_ok:
  "conn_inv c nt \<Longrightarrow> rudp_inv ru \<Longrightarrow>
     \<exists>m c' ru' nt'. drain_loop n c ru nt = Some (m, c', ru', nt') \<and> conn_inv c' nt' \<and> rudp_inv ru' \<and> udp_step nt nt'"
proof (induction n arbitrary: c ru nt)
  case 0 then show ?case by simp
next
  case (Suc n)
  obtain r l d ru1 nt1 where r: "rudp_recv 0 MAX_QUEUED_FRAME ru nt = Some (r, l, d, ru1, nt1)" "rudp_inv ru1"
    using rudp_recv_ok [OF Suc.prems(2)] by blast
  note u = recv_udp [OF r(1)]
  have inv1: "conn_inv c nt1" using Suc.prems(1) udp_step_inv [OF u] by blast
  show ?case
  proof (cases "fr_count (cn_recv_queue c) < RECV_QUEUE_SIZE \<and> \<not> (r \<le> 0 \<or> l = 0)")
    case False
    then show ?thesis using Suc.prems r u inv1 by auto
  next
    case True
    let ?d = "take (min l MAX_QUEUED_FRAME) d" let ?n = "word_of_nat (min l MAX_QUEUED_FRAME) :: u32"
    have n: "unat ?n \<le> MAX_QUEUED_FRAME" by (simp add: unat_of_nat32 conn_sizes)
    obtain q where q: "slot_store ?d (cn_recv_queue c) = Some q" "conn_inv (c\<lparr>cn_recv_queue := q\<rparr>) nt1" "fr_count q < RECV_QUEUE_SIZE"
      using store_ok [OF inv1, of ?d] True by (auto simp: min.coboundedI2)
    obtain q' where q': "slot_commit RECV_QUEUE_SIZE ?n q = Some q'" "conn_inv (c\<lparr>cn_recv_queue := q'\<rparr>) nt1"
      using commit_ok [OF q(2,3) n] by blast
    obtain m c' ru' nt' where "drain_loop n (c\<lparr>cn_recv_queue := q'\<rparr>) ru1 nt1 = Some (m, c', ru', nt')" "conn_inv c' nt'"
      "rudp_inv ru'" "udp_step nt1 nt'" using Suc.IH [OF q'(2) r(2)] by blast
    then show ?thesis using True r(1) q(1) q'(1) udp_step_trans [OF u] by auto
  qed
qed

lemma drain_rudp_ok:
  assumes L: "lib_ok L" and inv: "conn_inv c nt"
  shows "\<exists>m c' nt'. drain_rudp_into_recv_queue L n c nt = Some (m, c', nt') \<and> step_ok nt c' nt'"
proof (cases "\<exists>ru. cn_rudp c = Some ru \<and> cn_rudp_enabled c")
  case False
  then show ?thesis using inv by (auto simp: drain_rudp_into_recv_queue_def step_ok_def split: option.splits)
next
  case True
  then obtain ru where ru: "cn_rudp c = Some ru" "cn_rudp_enabled c" "rudp_inv ru" using inv by (auto simp: conn_inv_def)
  obtain ru1 nt1 where p: "rudp_poll L ru nt = Some (ru1, nt1)" "rudp_inv ru1" using rudp_poll_ok [OF ru(3) L] by blast
  note u = poll_udp [OF p(1)]
  have "conn_inv c nt1" using inv udp_step_inv [OF u] by blast
  then obtain m c' ru' nt' where d: "drain_loop n c ru1 nt1 = Some (m, c', ru', nt')" "conn_inv c' nt'" "rudp_inv ru'" "udp_step nt1 nt'"
    using drain_loop_ok [OF _ p(2)] by blast
  have "lock_seg 2 nt nt'" using udp_step_trans [OF u d(4)] udp_step_seg by blast
  then show ?thesis using ru p d conn_inv_rudp [OF d(2,3)] by (simp add: drain_rudp_into_recv_queue_def step_ok_def)
qed

lemma live_alive:
  assumes "conn_inv c nt" "link_io_live c slot ssl fd" "slot < int MAX_SE_CONNECTIONS"
  shows "tls_alive ssl nt"
  using assms conn_inv_alive(1) [OF assms(1)] conn_inv_alive(2) [OF assms(1), of "nat slot"]
  by (auto simp: link_io_live_def split: if_splits)

lemma find_pending_ok:
  "conn_inv c nt \<Longrightarrow> \<forall>t \<in> set ts. ti_additional_idx t < int MAX_SE_CONNECTIONS \<Longrightarrow>
     \<exists>p nt'. find_pending c ts nt = Some (p, nt') \<and> step_ok nt c nt' \<and> (\<forall>t. p = Some t \<longrightarrow> t \<in> set ts)"
proof (induction ts arbitrary: nt)
  case Nil then show ?case by (simp add: step_ok_def)
next
  case (Cons t ts)
  let ?l = "L_io (ti_additional_idx t)" let ?nt = "net_ev (Lock ?l) nt"
  have inv: "conn_inv c ?nt" using Cons.prems(1) by simp
  have "\<exists>p nt1. (if link_io_live c (ti_additional_idx t) (ti_ssl t) (ti_fd t) then ssl_has_pending (ti_ssl t) ?nt
      else Some (False, ?nt)) = Some (p, nt1) \<and> lock_seg 3 ?nt nt1 \<and> nt_tls nt1 = nt_tls nt"
  proof (cases "link_io_live c (ti_additional_idx t) (ti_ssl t) (ti_fd t)")
    case True
    have "tls_alive (ti_ssl t) ?nt" using live_alive [OF inv True] Cons.prems(2) by simp
    then have "\<exists>p nt1. ssl_has_pending (ti_ssl t) ?nt = Some (p, nt1)"
      by (cases "ti_ssl t") (auto simp: ssl_has_pending_def tls_alive_def Let_def case_prod_beta)
    then show ?thesis using True ssl_has_pending_seg by fastforce
  qed auto
  then obtain p nt1 where p: "(if link_io_live c (ti_additional_idx t) (ti_ssl t) (ti_fd t) then ssl_has_pending (ti_ssl t) ?nt
      else Some (False, ?nt)) = Some (p, nt1)" "lock_seg 3 ?nt nt1" "nt_tls nt1 = nt_tls nt" by blast
  let ?nt1 = "net_ev (Unlock ?l) nt1"
  have seg: "lock_seg 2 nt ?nt1" by (rule lock_seg_bracket) (use p(2) in simp_all)
  have inv1: "conn_inv c ?nt1" using Cons.prems(1) conn_inv_tls [OF p(3)] by simp
  then have s1: "step_ok nt c ?nt1" using seg by (simp add: step_ok_def)
  obtain p' nt' where r: "find_pending c ts ?nt1 = Some (p', nt')" "step_ok ?nt1 c nt'" "\<forall>t. p' = Some t \<longrightarrow> t \<in> set ts"
    using Cons.IH [OF inv1] Cons.prems(2) by auto
  have "step_ok nt c nt" using Cons.prems(1) by (simp add: step_ok_def)
  then show ?case using p(1) r s1 step_ok_trans [OF seg r(2)] by (cases "cn_use_ssl_data c"; cases p) auto
qed

lemma drain_ready_ok:
  assumes L: "lib_ok L"
  shows "conn_inv c nt \<Longrightarrow> \<exists>g c' nt'. drain_ready L f u fds c nt = Some (g, c', nt') \<and> step_ok nt c' nt'"
proof (induction fds arbitrary: c nt)
  case Nil then show ?case by (auto simp: step_ok_def)
next
  case (Cons fd fds)
  obtain m c1 nt1 where d: "drain_rudp_into_recv_queue L RECV_QUEUE_SIZE c nt = Some (m, c1, nt1)" "step_ok nt c1 nt1"
    using drain_rudp_ok [OF L Cons.prems] by blast
  then have "conn_inv c1 nt1" "lock_seg 2 nt nt1" by (simp_all add: step_ok_def)
  then obtain g c' nt' where "drain_ready L f u fds c1 nt1 = Some (g, c', nt')" "step_ok nt c' nt'"
    using Cons.IH step_ok_trans by blast
  then show ?case using d Cons.IH [OF Cons.prems] by auto
qed

lemma poll_links_ok:
  assumes L: "lib_ok L" and inv: "conn_inv c nt"
  shows "\<exists>sel c' nt'. poll_links L u infos c nt = Some (sel, c', nt') \<and> step_ok nt c' nt' \<and> (\<forall>t. sel = Inr t \<longrightarrow> t \<in> set infos)"
proof -
  let ?nt = "snd (net_poll nt)"
  have inv1: "conn_inv c ?nt" "lock_seg 2 nt ?nt" using inv udp_step_inv [OF udp_step_basic(8)] udp_step_seg [OF udp_step_basic(8)] by blast+
  then have s: "step_ok nt c ?nt" by (simp add: step_ok_def)
  show ?thesis
  proof (cases "fst (net_poll nt)")
    case (Poll_ready f)
    let ?fds = "(if 0 \<le> u then [u] else []) @ map ti_fd infos"
    have "\<exists>g c' nt'. (if cn_rudp c \<noteq> None \<and> cn_rudp_enabled c \<and> 0 \<le> u then drain_ready L f u ?fds c ?nt
        else Some (False, c, ?nt)) = Some (g, c', nt') \<and> step_ok nt c' nt'"
      using drain_ready_ok [OF L inv1(1)] step_ok_trans [OF inv1(2)] s by (metis (no_types, lifting))
    then obtain g c' nt' where d: "(if cn_rudp c \<noteq> None \<and> cn_rudp_enabled c \<and> 0 \<le> u then drain_ready L f u ?fds c ?nt
        else Some (False, c, ?nt)) = Some (g, c', nt')" "step_ok nt c' nt'" by blast
    then show ?thesis using Poll_ready s
      by (auto simp: poll_links_def Let_def case_prod_beta find_Some_iff simp del: not_None_eq split: option.splits)
  qed (use s in \<open>simp_all add: poll_links_def Let_def case_prod_beta\<close>)
qed

lemma tcp_infos_wf: "t \<in> set (tcp_infos c) \<Longrightarrow> info_wf t \<and> ti_additional_idx t < int MAX_SE_CONNECTIONS"
  by (auto simp: tcp_infos_def info_wf_def slot_info_def conn_sizes split: if_splits)

lemma get_fd_inv: "rudp_inv ru \<Longrightarrow> rudp_get_udp_fd ru nt = (fd, ru', nt') \<Longrightarrow> rudp_inv ru'"
  by (auto simp: rudp_get_udp_fd_def rudp_ref_acquire_def rudp_ref_release_def Let_def split: if_splits)

lemma udp_fd_ok:
  assumes s: "step_ok nt c1 nt1"
    and g: "(case cn_rudp c1 of None \<Rightarrow> (-1, c1, nt1)
      | Some ru \<Rightarrow> if cn_rudp_enabled c1 then let (fd, ru, nt) = rudp_get_udp_fd ru nt1 in (fd, c1\<lparr>cn_rudp := Some ru\<rparr>, nt)
          else (-1, c1, nt1)) = (u, c2, nt2)"
  shows "step_ok nt c2 nt2"
proof (cases "\<exists>ru. cn_rudp c1 = Some ru \<and> cn_rudp_enabled c1")
  case False
  then show ?thesis using s g by (auto split: option.splits)
next
  case True
  then obtain ru where ru: "cn_rudp c1 = Some ru" "cn_rudp_enabled c1" by blast
  obtain fd ru' nt' where f: "rudp_get_udp_fd ru nt1 = (fd, ru', nt')" by (metis prod_cases3)
  have inv1: "conn_inv c1 nt1" "lock_seg 2 nt nt1" using s by (simp_all add: step_ok_def)
  have "rudp_inv ru" using inv1(1) ru(1) by (simp add: conn_inv_def)
  then have "rudp_inv ru'" using get_fd_inv f by blast
  moreover have "conn_inv c1 nt'" using inv1(1) udp_step_inv [OF get_fd_udp [OF f]] by blast
  ultimately have "conn_inv (c1\<lparr>cn_rudp := Some ru'\<rparr>) nt'" by (rule conn_inv_rudp [rotated])
  moreover have "lock_seg 2 nt nt'" using lock_seg_trans [OF inv1(2)] udp_step_seg [OF get_fd_udp [OF f]] by blast
  ultimately show ?thesis using g ru f by (simp add: step_ok_def)
qed

lemma fill_locked_ok:
  assumes L: "lib_ok L" and inv: "conn_inv c nt"
  shows "\<exists>res. softether_fill_recv_queue_locked L c nt = Some res \<and> call_ok nt res"
proof (cases "cn_ssl c = None \<or> \<not> conn_going c")
  case True
  then show ?thesis using inv by (auto simp: softether_fill_recv_queue_locked_def call_ok_def step_ok_def)
next
  case up: False
  obtain m c1 nt1 where d: "drain_rudp_into_recv_queue L RECV_QUEUE_SIZE c nt = Some (m, c1, nt1)" "step_ok nt c1 nt1"
    using drain_rudp_ok [OF L inv] by blast
  obtain u c2 nt2 where g: "(case cn_rudp c1 of None \<Rightarrow> (-1, c1, nt1)
      | Some ru \<Rightarrow> if cn_rudp_enabled c1 then let (fd, ru, nt) = rudp_get_udp_fd ru nt1 in (fd, c1\<lparr>cn_rudp := Some ru\<rparr>, nt)
          else (-1, c1, nt1)) = (u, c2, nt2)" by (metis prod_cases3)
  note s2 = udp_fd_ok [OF d(2) g]
  then have inv2: "conn_inv c2 nt2" "lock_seg 2 nt nt2" by (simp_all add: step_ok_def)
  obtain p nt3 where p: "find_pending c2 (tcp_infos c2) nt2 = Some (p, nt3)" "step_ok nt2 c2 nt3" "\<forall>t. p = Some t \<longrightarrow> t \<in> set (tcp_infos c2)"
    using find_pending_ok [OF inv2(1)] tcp_infos_wf by meson
  then have inv3: "conn_inv c2 nt3" "lock_seg 2 nt nt3" using lock_seg_trans [OF inv2(2)] by (simp_all add: step_ok_def)
  obtain sel c4 nt4 where q: "(case p of Some t \<Rightarrow> Some (Inr t, c2, nt3) | None \<Rightarrow> poll_links L u (tcp_infos c2) c2 nt3) = Some (sel, c4, nt4)"
    "step_ok nt3 c4 nt4" "\<forall>t. sel = Inr t \<longrightarrow> t \<in> set (tcp_infos c2)"
  proof (cases p)
    case None
    then show ?thesis using poll_links_ok [OF L inv3(1), of u "tcp_infos c2"] that by auto
  next
    case (Some t)
    then show ?thesis using that [of "Inr t" c2 nt3] inv3(1) p(3) by (simp add: step_ok_def)
  qed
  have s4: "step_ok nt c4 nt4" using step_ok_trans [OF inv3(2) q(2)] .
  have "\<exists>res. (case sel of Inl r \<Rightarrow> Some (r, c4, nt4) | Inr t \<Rightarrow> read_selected L t c4 nt4) = Some res \<and> call_ok nt res"
  proof (cases sel)
    case (Inl r) then show ?thesis using s4 by (simp add: call_ok_def)
  next
    case (Inr t)
    have "info_wf t" using q(3) Inr tcp_infos_wf by blast
    moreover have "conn_inv c4 nt4" "lock_seg 2 nt nt4" using s4 by (simp_all add: step_ok_def)
    ultimately show ?thesis using read_selected_safe [OF L] step_ok_trans Inr by (fastforce simp: call_ok_def)
  qed
  moreover have "call_ok nt (1, c1, nt1)" "call_ok nt (-1, c2, nt2)" using d(2) s2 by (simp_all add: call_ok_def)
  ultimately show ?thesis
    unfolding softether_fill_recv_queue_locked_def using up
    by (simp add: d(1) g p(1) q(1) Let_def del: split_paired_Ex not_None_eq)
qed

text \<open>An operation called while no lock is held.\<close>

definition top_ok :: "net \<Rightarrow> int \<times> softether_connection \<times> net \<Rightarrow> bool" where
  "top_ok nt res \<longleftrightarrow> (case res of (r, c', nt') \<Rightarrow> conn_inv c' nt' \<and> lock_seg 0 nt nt')"

lemma top_step: "step_ok nt c nt' \<Longrightarrow> top_ok nt (r, c, nt')"
  unfolding top_ok_def step_ok_def using lock_seg_mono by auto

lemma top_bracket:
  assumes "step_ok (net_ev (Lock l) nt) c nt'" "lock_level l < 2"
  shows "top_ok nt (r, c, net_ev (Unlock l) nt')"
proof -
  have "lock_seg (Suc (lock_level l)) (net_ev (Lock l) nt) nt'"
    by (rule lock_seg_mono [of 2]) (use assms in \<open>simp_all add: step_ok_def\<close>)
  then have "lock_seg 0 nt (net_ev (Unlock l) nt')" by (rule lock_seg_bracket) simp
  then show ?thesis using assms(1) by (simp add: top_ok_def step_ok_def)
qed

lemma fill_recv_queue_ok:
  assumes L: "lib_ok L" and inv: "conn_inv c nt"
  shows "\<exists>res. softether_fill_recv_queue L c nt = Some res \<and> top_ok nt res"
proof -
  have "conn_inv c (net_ev (Lock L_lifetime) nt)" using inv by simp
  from fill_locked_ok [OF L this] obtain r c' nt' where
    f: "softether_fill_recv_queue_locked L c (net_ev (Lock L_lifetime) nt) = Some (r, c', nt')" "step_ok (net_ev (Lock L_lifetime) nt) c' nt'"
    by (auto simp: call_ok_def)
  then show ?thesis using top_bracket [OF f(2)] by (simp add: softether_fill_recv_queue_def)
qed

section \<open>Sending\<close>

lemma write_arg_ok: "unat n \<le> length b \<Longrightarrow> \<exists>bs. write_arg b n = Some bs"
  by (simp add: write_arg_def mem_read_def)

lemma transmit_candidates_bound:
  "best \<le> MAX_SE_CONNECTIONS \<Longrightarrow> \<forall>k \<in> set (transmit_candidates best c). k \<le> MAX_SE_CONNECTIONS"
  by (auto simp: transmit_candidates_def split: if_splits)

lemma transmit_candidates_set:
  assumes "best \<noteq> 0 \<Longrightarrow> best \<in> set (send_candidates c)"
  shows "set (transmit_candidates best c) = set (send_candidates c)"
proof -
  have "0 \<in> set (send_candidates c) \<longleftrightarrow> primary_sends c" by (auto simp: send_candidates_def)
  then show ?thesis using assms by (auto simp: transmit_candidates_def send_candidates_def)
qed

lemma send_candidates_iff:
  "0 \<in> set (send_candidates c) \<longleftrightarrow> primary_sends c"
  "Suc j \<in> set (send_candidates c) \<longleftrightarrow> j < MAX_SE_CONNECTIONS \<and> slot_sends (cn_additional c ! j)"
  by (auto simp: send_candidates_def)

lemma select_same: "softether_select_send_socket c = Some (k, c') \<Longrightarrow> \<exists>i. c' = c\<lparr>cn_send_rr_idx := i\<rparr> \<and>
    send_candidates c' = send_candidates c"
  by (drule select_fields) (auto simp: send_candidates_def primary_sends_def)

lemma transmit_nolock_ok:
  assumes inv: "conn_inv c nt" and b: "unat n \<le> length b" "8 \<le> n" and up: "cn_state c \<noteq> STATE_DISCONNECTING" "cn_ssl c \<noteq> None"
  shows "\<exists>res i ks. softether_transmit_block_nolock c (Some b) n nt = Some res \<and> set ks = set (send_candidates c) \<and>
     failover ks (c\<lparr>cn_send_rr_idx := i\<rparr>) nt res"
proof -
  obtain k c1 where k: "softether_select_send_socket c = Some (k, c1)" "conn_inv c1 nt" "k \<le> MAX_SE_CONNECTIONS"
    "k \<noteq> 0 \<Longrightarrow> k \<in> set (send_candidates c)" using select_ok [OF inv] by blast
  obtain i where i: "c1 = c\<lparr>cn_send_rr_idx := i\<rparr>" "send_candidates c1 = send_candidates c" using select_same [OF k(1)] by blast
  obtain bs where bs: "write_arg b n = Some bs" using write_arg_ok [OF b(1)] by blast
  let ?ks = "transmit_candidates k c1"
  have "loop_ok bs ?ks" by (rule transmit_loop_ok) (rule transmit_candidates_bound [OF k(3)])
  then obtain res where r: "transmit_loop bs ?ks c1 nt = Some res" "failover ?ks c1 nt res" using k(2) unfolding loop_ok_def by blast
  have "set ?ks = set (send_candidates c)" using transmit_candidates_set [of k c1] k(4) i(2) by simp
  moreover have "softether_transmit_block_nolock c (Some b) n nt = Some res"
    using up leD [OF b(2)] k(1) bs r(1) by (simp add: softether_transmit_block_nolock_def del: not_None_eq)
  ultimately show ?thesis using r(2) i(1) by blast
qed

lemma transmit_ok:
  assumes inv: "conn_inv c nt" and b: "unat n \<le> length b"
  shows "\<exists>res. softether_transmit_block c (Some b) n nt = Some res \<and> top_ok nt res"
proof -
  let ?nt = "net_ev (Lock L_write) nt"
  have inv': "conn_inv c ?nt" using inv by simp
  have "\<exists>r c' nt'. softether_transmit_block_nolock c (Some b) n ?nt = Some (r, c', nt') \<and> step_ok ?nt c' nt'"
  proof (cases "8 \<le> n \<and> cn_state c \<noteq> STATE_DISCONNECTING \<and> cn_ssl c \<noteq> None")
    case True
    then show ?thesis using transmit_nolock_ok [OF inv' b] by (auto simp: failover_def step_ok_def simp del: not_None_eq)
  next
    case False
    then show ?thesis using inv' by (auto simp: softether_transmit_block_nolock_def step_ok_def)
  qed
  then show ?thesis using top_bracket [of L_write nt] by (auto simp: softether_transmit_block_def)
qed

lemma keepalive_slots_ok:
  "conn_inv c nt \<Longrightarrow> set tss \<subseteq> set (cn_additional c) \<Longrightarrow> \<exists>nt'. keepalive_slots c tss nt = Some nt' \<and> step_ok nt c nt'"
proof (induction tss arbitrary: nt)
  case Nil then show ?case by (simp add: step_ok_def)
next
  case (Cons ts tss)
  obtain j where j: "j < MAX_SE_CONNECTIONS" "ts = cn_additional c ! j"
    using Cons.prems(2) conn_inv_alive(3) [OF Cons.prems(1)] by (auto simp: in_set_conv_nth)
  obtain r nt1 where k: "softether_send_keepalive_sock c (ts_ssl ts) (ts_socket_fd ts) nt = Some (r, nt1)" "io_step 2 (ts_ssl ts) nt nt1"
    using keepalive_sock_io [OF conn_inv_alive(2) [OF Cons.prems(1) j(1)]] j(2) by blast
  have s1: "step_ok nt c nt1" using step_ok_io [OF Cons.prems(1) k(2)] .
  then have "conn_inv c nt1" "lock_seg 2 nt nt1" by (simp_all add: step_ok_def)
  then show ?case using Cons.IH [of nt] Cons.IH [of nt1] Cons.prems k(1) step_ok_trans by fastforce
qed

lemma keepalive_all_ok:
  assumes inv: "conn_inv c nt"
  shows "\<exists>res. softether_send_keepalive_all c nt = Some res \<and> call_ok nt res"
proof -
  obtain now nt1 where t: "softether_tick_ms nt = (now, nt1)" by fastforce
  have inv1: "conn_inv c nt1" "lock_seg 2 nt nt1"
    using inv udp_step_inv [OF udp_step_basic(1), of c nt] udp_step_seg [OF udp_step_basic(1), of 2 nt] t by simp_all
  let ?c = "c\<lparr>cn_next_tcp_keepalive_time := now + ucast (keepalive_interval (cn_server_timeout c))\<rparr>"
  have invc: "conn_inv ?c nt1" using inv1(1) by simp
  obtain r nt2 where k: "softether_send_keepalive_sock ?c (cn_ssl ?c) (cn_socket_fd ?c) nt1 = Some (r, nt2)" "io_step 2 (cn_ssl ?c) nt1 nt2"
    using keepalive_sock_io [OF conn_inv_alive(1) [OF invc]] by blast
  define nt3 where "nt3 = (if primary_sends ?c then nt2 else nt1)"
  have s3: "step_ok nt ?c nt3"
    using step_ok_trans [OF inv1(2) step_ok_io [OF invc k(2)]] invc inv1(2) by (simp add: nt3_def step_ok_def)
  then have inv3: "conn_inv ?c nt3" "lock_seg 2 nt nt3" by (simp_all add: step_ok_def)
  obtain nt4 where s: "keepalive_slots ?c (cn_additional c) nt3 = Some nt4" "step_ok nt3 ?c nt4"
    using keepalive_slots_ok [OF inv3(1), of "cn_additional c"] by auto
  have a: "call_ok nt (-1, c, nt)" "call_ok nt (0, c\<lparr>cn_next_tcp_keepalive_time := now\<rparr>, nt1)" "call_ok nt (0, c, nt1)" "call_ok nt (0, ?c, nt4)"
    using inv inv1 step_ok_trans [OF inv3(2) s(2)] by (simp_all add: call_ok_def step_ok_def)
  have "(if primary_sends ?c then map_option snd (softether_send_keepalive_sock ?c (cn_ssl ?c) (cn_socket_fd ?c) nt1) else Some nt1) = Some nt3"
    using k(1) by (simp add: nt3_def)
  then show ?thesis unfolding softether_send_keepalive_all_def t
    using a s(1) by (simp add: Let_def del: split_paired_Ex)
qed

text \<open>zlib's bound on the compressed size does not wrap around for the sizes in use.\<close>

definition zbound_ok :: "(u32 \<Rightarrow> u32) \<Rightarrow> bool" where
  "zbound_ok zb \<longleftrightarrow> (\<forall>n. unat n < 2 ^ 31 \<longrightarrow> unat (zb n) < 2 ^ 32 - 8)"

lemma session_compress_bounds:
  assumes L: "lib_ok L" "zbound_ok zb" "length d < 2 ^ 31"
  shows "\<exists>p nt'. session_compress L zb c (Some d) (word_of_nat (length d)) nt = ((Some p, word_of_nat (length p)), nt') \<and>
     length p < 2 ^ 32 - 8 \<and> udp_step nt nt'"
proof -
  let ?n = "word_of_nat (length d) :: u32"
  have u: "unat ?n = length d" using L(3) by (simp add: unat_of_nat32)
  have z: "length z < 2 ^ 32 - 8" if "lb_compress L (unat (zb ?n)) d = Some z" for z
  proof -
    have "unat (zb ?n) < 2 ^ 32 - 8" using L(2,3) u unfolding zbound_ok_def by simp
    moreover have "length z \<le> unat (zb ?n)" using L(1) that unfolding lib_ok_def by blast
    ultimately show ?thesis by linarith
  qed
  obtain mem nt1 where m: "net_malloc nt = (mem, nt1)" by fastforce
  have "udp_step nt nt1" using udp_step_basic(7) [of nt] m by simp
  moreover have raw: "length d < 2 ^ 32 - 8" using L(3) by simp
  moreover have "session_compress L zb c (Some d) ?n nt =
      (if cn_server_use_compress c \<and> 1 < ?n
       then case (if mem then z_wrap (lb_compress L) (Some d) (Some (unat (zb ?n))) else ZErr 0) of
              ZOk z \<Rightarrow> ((Some z, word_of_nat (length z)), nt1) | ZErr e \<Rightarrow> ((Some d, ?n), nt1)
       else ((Some d, ?n), nt))"
    by (simp add: session_compress_def m compress_data_def u)
  moreover have "length z < 2 ^ 32 - 8" if "z_wrap (lb_compress L) (Some d) (Some (unat (zb ?n))) = ZOk z" for z
    using that z by (auto simp: z_wrap_def split: option.splits if_splits)
  ultimately show ?thesis
    by (cases "cn_server_use_compress c \<and> 1 < ?n"; cases "if mem then z_wrap (lb_compress L) (Some d) (Some (unat (zb ?n))) else ZErr 0")
      (auto split: if_splits)
qed

lemma write_choice_io:
  assumes "conn_inv c nt" "k \<le> MAX_SE_CONNECTIONS"
  shows "\<exists>ret nt' ssl. (if 0 < k then data_write_all_sock c (ts_ssl (cn_additional c ! (k - 1))) (ts_socket_fd (cn_additional c ! (k - 1))) bs nt
      else data_write_all c bs nt) = Some (ret, nt') \<and> io_step 2 ssl nt nt'"
proof (cases "0 < k")
  case True
  then have "tls_alive (ts_ssl (cn_additional c ! (k - 1))) nt" using conn_inv_alive(2) [OF assms(1), of "k - 1"] assms(2) by simp
  from data_write_all_sock_io [OF this] show ?thesis using True by (simp only: if_True simp_thms) blast
next
  case False
  then show ?thesis using data_write_all_io [OF conn_inv_alive(1) [OF assms(1)]] by (simp only: if_False simp_thms) blast
qed

lemma send_packet_safe:
  assumes L: "lib_ok L" "zbound_ok zb" "length d < 2 ^ 31" and inv: "conn_inv c nt"
  shows "\<exists>res. softether_send_packet L zb c cmd (Some d) (word_of_nat (length d)) nt = Some res \<and> top_ok nt res"
proof -
  let ?nt = "net_ev (Lock L_write) nt"
  have inv': "conn_inv c ?nt" using inv by simp
  obtain p nt1 where p: "session_compress L zb c (Some d) (word_of_nat (length d)) ?nt = ((Some p, word_of_nat (length p)), nt1)"
    "length p < 2 ^ 32 - 8" "udp_step ?nt nt1" using session_compress_bounds [OF L] by blast
  let ?pl = "word_of_nat (length p) :: u32"
  have u: "unat ?pl = length p" "unat (4 + 4 + ?pl) = 8 + length p"
    using p(2) unat_of_nat32 [of "8 + length p"] by (simp_all add: unat_of_nat32 add.assoc [symmetric])
  have inv1: "conn_inv c nt1" "lock_seg 2 ?nt nt1" using inv' udp_step_inv [OF p(3)] udp_step_seg [OF p(3)] by blast+
  have stop: "top_ok nt (-1, c, net_ev (Unlock L_write) ?nt)" "top_ok nt (-1, c, net_ev (Unlock L_write) nt1)" "top_ok nt (-1, c, nt)"
  proof -
    have s: "step_ok ?nt c ?nt" "step_ok ?nt c nt1" "step_ok nt c nt" using inv1 inv' inv by (simp_all add: step_ok_def)
    show "top_ok nt (-1, c, net_ev (Unlock L_write) ?nt)" "top_ok nt (-1, c, net_ev (Unlock L_write) nt1)" "top_ok nt (-1, c, nt)"
      using top_bracket [OF s(1)] top_bracket [OF s(2)] top_step [OF s(3)] by simp_all
  qed
  show ?thesis
  proof (cases "conn_going c \<and> cmd \<noteq> CMD_KEEPALIVE \<and> cmd \<noteq> CMD_KEEPALIVE_ACK \<and> cn_ssl c \<noteq> None \<and> cn_send_block c \<noteq> None \<and>
      \<not> cn_send_block_cap c < 4 + 4 + ?pl")
    case False
    obtain r nt2 where "softether_send_keepalive c nt = Some (r, nt2)" "io_step 2 (cn_ssl c) nt nt2" using send_keepalive_io [OF inv] by blast
    then have "softether_send_keepalive c nt = Some (r, nt2)" "top_ok nt (r, c, nt2)" using step_ok_io [OF inv] top_step by blast+
    then show ?thesis using False stop p(1)
      by (auto simp: softether_send_packet_def Let_def conn_going_def split: option.splits)
  next
    case True
    then obtain buf where buf: "cn_send_block c = Some buf" by auto
    have len: "length buf = unat (cn_send_block_cap c)" using inv buf by (simp add: conn_inv_def)
    have fit: "8 + length p \<le> length buf" using True u(2) unfolding len word_less_nat_alt by linarith
    obtain b1 b2 where b: "mem_write buf 0 (be32 1 @ be32 ?pl) = Some b1" "mem_write b1 8 p = Some b2" "length b2 = length buf" "length b1 = length buf"
      using staging_write [OF refl fit] p(2) by auto
    define b' where "b' = (if 0 < ?pl then b2 else b1)"
    have b': "length b' = length buf" using b by (simp add: b'_def)
    have wr: "(if 0 < ?pl then do { d \<leftarrow> mem_read p 0 (unat ?pl); mem_write b1 8 d } else Some b1) = Some b'"
      using b(2) by (simp add: u b'_def mem_read_def)
    let ?c = "c\<lparr>cn_send_block := Some b'\<rparr>"
    have "conn_inv ?c nt1" using inv1(1) b' len buf by (simp add: conn_inv_def)
    then obtain k c2 where k: "softether_select_send_socket ?c = Some (k, c2)" "conn_inv c2 nt1" "k \<le> MAX_SE_CONNECTIONS"
      using select_ok by blast
    obtain bs where bs: "write_arg b' (4 + 4 + ?pl) = Some bs" using write_arg_ok [of "4 + 4 + ?pl" b'] u(2) b' fit by auto
    let ?ts = "cn_additional c2 ! (k - 1)"
    obtain ret nt2 ssl where w: "(if 0 < k then data_write_all_sock c2 (ts_ssl ?ts) (ts_socket_fd ?ts) bs nt1 else data_write_all c2 bs nt1) = Some (ret, nt2)"
      "io_step 2 ssl nt1 nt2" using write_choice_io [OF k(2,3)] by blast
    have s: "step_ok ?nt c2 nt2" "step_ok ?nt c2 nt1"
      using step_ok_trans [OF inv1(2) step_ok_io [OF k(2) w(2)]] k(2) inv1(2) by (simp_all add: step_ok_def)
    then have t: "top_ok nt (r, c2, net_ev (Unlock L_write) nt2)" "top_ok nt (r, c2, net_ev (Unlock L_write) nt1)" for r by (auto intro: top_bracket)
    show ?thesis
      using True buf t stop bs w(1)
      by (cases "k = 0") (simp_all add: softether_send_packet_def p(1) b(1) wr k(1) Let_def conn_going_def del: split_paired_Ex not_None_eq)
  qed
qed

end
