(* ===== verification/Tunnel_Run.thy ===== *)
theory Tunnel_Run
  imports Tunnel Packet_Run
begin

text \<open>
  Safety of the tunnel interface: on a well-formed connection every operation stays inside its buffers,
  keeps the connection well-formed and the locks in order; and what the sending side leaves alone of the
  receiving side.
\<close>

section \<open>Frames\<close>

text \<open>What sending and link maintenance do not change.\<close>

definition same_rx :: "softether_connection \<Rightarrow> softether_connection \<Rightarrow> bool" where
  "same_rx c c' \<longleftrightarrow> cn_recv_queue c' = cn_recv_queue c \<and> cn_state c' = cn_state c \<and> cn_assigned_ip c' = cn_assigned_ip c \<and>
     cn_client_mac c' = cn_client_mac c \<and> cn_stats_rx_packets c' = cn_stats_rx_packets c \<and> cn_stats_rx_bytes c' = cn_stats_rx_bytes c"

lemma same_rx_refl [simp]: "same_rx c c"
  by (simp add: same_rx_def)

lemma same_rx_trans [trans]: "same_rx a b \<Longrightarrow> same_rx b d \<Longrightarrow> same_rx a d"
  by (simp add: same_rx_def)

lemma same_rx_upd [simp]:
  "same_rx c (c\<lparr>cn_rudp := v1\<rparr>)" "same_rx c (c\<lparr>cn_send_block := v2\<rparr>)" "same_rx c (c\<lparr>cn_send_rr_idx := v3\<rparr>)"
  "same_rx c (c\<lparr>cn_additional := v4\<rparr>)" "same_rx c (c\<lparr>cn_num_additional := v5\<rparr>)" "same_rx c (c\<lparr>cn_next_tcp_keepalive_time := v6\<rparr>)"
  by (simp_all add: same_rx_def)

lemma links_inv_frame2 [simp]:
  "links_inv (c\<lparr>cn_next_connect_time := v1\<rparr>) nt = links_inv c nt" "links_inv (c\<lparr>cn_additional_connecting := v2\<rparr>) nt = links_inv c nt"
  "links_inv (c\<lparr>cn_additional_connect_slot := v3\<rparr>) nt = links_inv c nt" "links_inv (c\<lparr>cn_additional_connect_result := v4\<rparr>) nt = links_inv c nt"
  "links_inv (c\<lparr>cn_stats_tx_packets := v5\<rparr>) nt = links_inv c nt" "links_inv (c\<lparr>cn_stats_tx_bytes := v6\<rparr>) nt = links_inv c nt"
  "links_inv (c\<lparr>cn_stats_rx_packets := v7\<rparr>) nt = links_inv c nt" "links_inv (c\<lparr>cn_stats_rx_bytes := v8\<rparr>) nt = links_inv c nt"
  "links_inv (c\<lparr>cn_gateway_mac := v9\<rparr>) nt = links_inv c nt" "links_inv (c\<lparr>cn_gateway_mac_resolved := v10\<rparr>) nt = links_inv c nt"
  "links_inv (c\<lparr>cn_gateway_ip := v11\<rparr>) nt = links_inv c nt" "links_inv (c\<lparr>cn_additional_failed_count := v12\<rparr>) nt = links_inv c nt"
  "links_inv (c\<lparr>cn_state := v13\<rparr>) nt = links_inv c nt"
  by (simp_all add: links_inv_def own_contexts_def)

lemma conn_inv_cong:
  "links_inv c' nt = links_inv c nt \<Longrightarrow> cn_recv_queue c' = cn_recv_queue c \<Longrightarrow> cn_rudp c' = cn_rudp c \<Longrightarrow>
     cn_send_block c' = cn_send_block c \<Longrightarrow> cn_send_block_cap c' = cn_send_block_cap c \<Longrightarrow> cn_send_rr_idx c' = cn_send_rr_idx c \<Longrightarrow>
     conn_inv c' nt = conn_inv c nt"
  by (simp add: conn_inv_def)

lemma conn_inv_frame2 [simp]:
  "conn_inv (c\<lparr>cn_next_connect_time := v1\<rparr>) nt = conn_inv c nt" "conn_inv (c\<lparr>cn_additional_connecting := v2\<rparr>) nt = conn_inv c nt"
  "conn_inv (c\<lparr>cn_additional_connect_slot := v3\<rparr>) nt = conn_inv c nt" "conn_inv (c\<lparr>cn_additional_connect_result := v4\<rparr>) nt = conn_inv c nt"
  "conn_inv (c\<lparr>cn_stats_tx_packets := v5\<rparr>) nt = conn_inv c nt" "conn_inv (c\<lparr>cn_stats_tx_bytes := v6\<rparr>) nt = conn_inv c nt"
  "conn_inv (c\<lparr>cn_stats_rx_packets := v7\<rparr>) nt = conn_inv c nt" "conn_inv (c\<lparr>cn_stats_rx_bytes := v8\<rparr>) nt = conn_inv c nt"
  "conn_inv (c\<lparr>cn_gateway_mac := v9\<rparr>) nt = conn_inv c nt" "conn_inv (c\<lparr>cn_gateway_mac_resolved := v10\<rparr>) nt = conn_inv c nt"
  "conn_inv (c\<lparr>cn_gateway_ip := v11\<rparr>) nt = conn_inv c nt" "conn_inv (c\<lparr>cn_additional_failed_count := v12\<rparr>) nt = conn_inv c nt"
  "conn_inv (c\<lparr>cn_state := v13\<rparr>) nt = conn_inv c nt"
  by (rule conn_inv_cong; simp)+

section \<open>Sending\<close>

lemma try_rudp_ok:
  assumes L: "lib_ok L" and inv: "conn_inv c nt" and n: "unat n \<le> length d" "unat n < 2 ^ 32 - 64"
  shows "\<exists>s c' nt'. try_rudp L c d n nt = Some (s, c', nt') \<and> conn_inv c' nt' \<and> udp_step nt nt' \<and> (\<exists>r. c' = c\<lparr>cn_rudp := r\<rparr>) \<and>
     (cn_rudp c = None \<or> \<not> cn_rudp_enabled c \<longrightarrow> \<not> s \<and> c' = c \<and> nt' = nt)"
proof (cases "\<exists>ru. cn_rudp c = Some ru \<and> cn_rudp_enabled c")
  case False
  then have "try_rudp L c d n nt = Some (False, c, nt)" by (auto simp: try_rudp_def split: option.splits)
  moreover have "\<exists>r. c = c\<lparr>cn_rudp := r\<rparr>" by (rule exI [of _ "cn_rudp c"]) simp
  ultimately show ?thesis using inv udp_step_refl by blast
next
  case True
  then obtain ru where ru: "cn_rudp c = Some ru" "cn_rudp_enabled c" "rudp_inv ru" using inv by (auto simp: conn_inv_def)
  obtain ru1 nt1 where p: "rudp_poll L ru nt = Some (ru1, nt1)" "rudp_inv ru1" using rudp_poll_ok [OF ru(3) L] by blast
  obtain r ru2 nt2 where q: "rudp_is_send_ready (cn_session_established c) ru1 nt1 = (r, ru2, nt2)" by (metis prod_cases3)
  have i2: "rudp_inv ru2" using is_send_ready_ok [OF p(2) q] by blast
  obtain k ru3 nt3 where s: "rudp_send L (Some d) (unat n) 0 ru2 nt2 = Some (k, ru3, nt3)" "rudp_inv ru3"
    using rudp_send_ok [OF i2 L n(2), of "Some d"] n(1) by blast
  have u2: "udp_step nt nt2" using udp_step_trans [OF poll_udp [OF p(1)] ready_udp [OF q]] .
  have u3: "udp_step nt nt3" using udp_step_trans [OF u2 send_udp [OF s(1)]] .
  have no: "\<not> (cn_rudp c = None \<or> \<not> cn_rudp_enabled c)" using ru by simp
  have c2: "conn_inv (c\<lparr>cn_rudp := Some ru2\<rparr>) nt2" using conn_inv_rudp [OF _ i2] inv udp_step_inv [OF u2] by blast
  have c3: "conn_inv (c\<lparr>cn_rudp := Some ru3\<rparr>) nt3" using conn_inv_rudp [OF _ s(2)] inv udp_step_inv [OF u3] by blast
  show ?thesis
  proof (cases r)
    case True
    then have "try_rudp L c d n nt = Some (0 < k, c\<lparr>cn_rudp := Some ru3\<rparr>, nt3)"
      using ru p q s by (simp add: try_rudp_def)
    then show ?thesis using c3 u3 no by blast
  next
    case False
    then have "try_rudp L c d n nt = Some (False, c\<lparr>cn_rudp := Some ru2\<rparr>, nt2)"
      using ru p q by (simp add: try_rudp_def)
    then show ?thesis using c2 u2 no by blast
  qed
qed

lemma retire_same_rx: "retire_socket i c nt = Some (c', nt') \<Longrightarrow> same_rx c c'"
  by (auto simp: retire_socket_def Let_def bind_eq_Some_conv case_prod_beta)

lemma transmit_loop_same_rx: "transmit_loop bs ks c nt = Some (r, c', nt') \<Longrightarrow> same_rx c c'"
proof (induction ks arbitrary: c nt)
  case (Cons k ks)
  consider nt1 where "transmit_loop bs ks c nt1 = Some (r, c', nt')" | "c' = c"
    | i nta ca ntb ntc where "retire_socket i c nta = Some (ca, ntb)" "transmit_loop bs ks (ca\<lparr>cn_num_additional := cn_num_additional ca - 1\<rparr>) ntc = Some (r, c', nt')"
    using Cons.prems by (auto simp: Let_def bind_eq_Some_conv case_prod_beta split: if_splits)
  then show ?case
  proof cases
    case 3
    then show ?thesis using same_rx_trans [OF same_rx_trans [OF retire_same_rx same_rx_upd(5)] Cons.IH] by blast
  qed (use Cons.IH in auto)
qed simp

lemma select_same_rx: "softether_select_send_socket c = Some (k, c') \<Longrightarrow> same_rx c c'"
  by (drule select_same) auto

lemma transmit_same_rx: "softether_transmit_block_nolock c b n nt = Some (r, c', nt') \<Longrightarrow> same_rx c c'"
  unfolding softether_transmit_block_nolock_def
  by (auto simp: bind_eq_Some_conv split: option.splits if_splits dest!: select_same_rx transmit_loop_same_rx intro: same_rx_trans)

lemma send_packet_same_rx:
  assumes "softether_send_packet L zb c cmd p n nt = Some (r, c', nt')"
  shows "same_rx c c'"
proof (cases "conn_going c \<and> cmd \<noteq> CMD_KEEPALIVE \<and> cmd \<noteq> CMD_KEEPALIVE_ACK \<and> \<not> (cn_state c = STATE_DISCONNECTING \<or> cn_ssl c = None)")
  case False
  then show ?thesis using assms unfolding softether_send_packet_def
    by (auto simp: bind_eq_Some_conv Let_def split: if_splits)
next
  case True
  obtain q m nt1 where z: "session_compress L zb c p n (net_ev (Lock L_write) nt) = ((q, m), nt1)" by (metis prod.collapse)
  consider "c' = c" | b k c1 where "softether_select_send_socket (c\<lparr>cn_send_block := Some b\<rparr>) = Some (k, c1)" "c' = c1"
  proof (cases "cn_send_block c")
    case None
    then show ?thesis using assms True that(1) unfolding softether_send_packet_def by (simp add: z Let_def)
  next
    case (Some b0)
    show ?thesis
    proof (cases "cn_send_block_cap c < 4 + 4 + m")
      case True
      then show ?thesis using assms \<open>conn_going c \<and> _\<close> Some that(1) unfolding softether_send_packet_def by (simp add: z Let_def)
    next
      case False
      then obtain b k c1 where "softether_select_send_socket (c\<lparr>cn_send_block := Some b\<rparr>) = Some (k, c1)" "c' = c1"
        using assms True Some unfolding softether_send_packet_def
        by (auto simp: z Let_def bind_eq_Some_conv split: if_splits)
      then show ?thesis by (rule that(2))
    qed
  qed
  then show ?thesis
  proof cases
    case 2
    then show ?thesis using same_rx_trans [OF same_rx_upd(2) select_same_rx] by blast
  qed simp
qed

lemma step_ok_seg: "step_ok nt c nt' \<Longrightarrow> conn_inv c nt' \<and> lock_seg 2 nt nt'"
  by (simp add: step_ok_def)

lemma transmit_nolock_step:
  assumes inv: "conn_inv c nt" and b: "unat n \<le> length b"
  shows "\<exists>r c' nt'. softether_transmit_block_nolock c (Some b) n nt = Some (r, c', nt') \<and> step_ok nt c' nt'"
proof (cases "8 \<le> n \<and> cn_state c \<noteq> STATE_DISCONNECTING \<and> cn_ssl c \<noteq> None")
  case True
  then show ?thesis using transmit_nolock_ok [OF inv b] by (auto simp: failover_def step_ok_def simp del: not_None_eq)
next
  case False
  then show ?thesis using inv by (auto simp: softether_transmit_block_nolock_def step_ok_def)
qed

lemma data_block_ok:
  assumes L: "lib_ok L" and inv: "conn_inv c nt" and n: "unat n \<le> length b" and m: "unat m \<le> length d" "unat m < 2 ^ 32 - 64"
  shows "\<exists>r c' nt'. softether_send_data_block L c b n d m nt = Some (r, c', nt') \<and> step_ok nt c' nt' \<and> same_rx c c'"
proof -
  obtain s c1 nt1 where t: "try_rudp L c d m nt = Some (s, c1, nt1)" "conn_inv c1 nt1" "udp_step nt nt1" and r1: "\<exists>r. c1 = c\<lparr>cn_rudp := r\<rparr>"
    using try_rudp_ok [OF L inv m] by blast
  have k1: "same_rx c c1" using r1 by auto
  obtain r c2 nt2 where x: "softether_transmit_block_nolock c1 (Some b) n nt1 = Some (r, c2, nt2)" "step_ok nt1 c2 nt2"
    using transmit_nolock_step [OF t(2) n] by blast
  have "same_rx c c2" using same_rx_trans [OF k1 transmit_same_rx [OF x(1)]] .
  moreover have "step_ok nt c2 nt2" using step_ok_trans [OF udp_step_seg [OF t(3)] x(2)] .
  moreover have "step_ok nt c1 nt1" using t(2) udp_step_seg [OF t(3)] by (simp add: step_ok_def)
  ultimately show ?thesis using t(1) x(1) k1 by (cases s) (simp_all add: softether_send_data_block_def)
qed

text \<open>The block \<open>softether_send\<close> stages.\<close>

definition eth_frame :: "softether_connection \<Rightarrow> byte list \<Rightarrow> byte list" where
  "eth_frame c ip = (if cn_gateway_mac_resolved c then arr 6 (cn_gateway_mac c) else replicate 6 0xFF) @
     arr 6 (cn_client_mac c) @ be16 (ether_type (hd ip)) @ ip"

lemma eth_frame_length [simp]: "length (eth_frame c ip) = ETH_HEADER_SIZE + length ip"
  by (simp add: eth_frame_def eth_consts c16.enc_length)

lemma stage_frame:
  assumes "22 + length ip \<le> length blk" "length m1 = 6" "length m2 = 6"
  shows "(do { blk \<leftarrow> mem_write blk 0 (be32 1 @ be32 n); blk \<leftarrow> mem_write blk 8 (m1 :: byte list); blk \<leftarrow> mem_write blk 14 m2;
     blk \<leftarrow> mem_write blk 20 (be16 t); mem_write blk 22 ip }) =
     Some (be32 1 @ be32 n @ m1 @ m2 @ be16 t @ ip @ drop (22 + length ip) blk)"
  using assms by (simp add: c32.enc_length c16.enc_length min_def add.commute)

text \<open>The steps of \<open>softether_send\<close> after its tests.\<close>

definition sendable_ip :: "softether_connection \<Rightarrow> byte list \<Rightarrow> bool" where
  "sendable_ip c ip \<longleftrightarrow> ip \<noteq> [] \<and> cn_state c = STATE_CONNECTED \<and> cn_ssl c \<noteq> None \<and> cn_send_block c \<noteq> None \<and>
     length ip + 22 \<le> unat (cn_send_block_cap c)"

lemma send_unfold:
  assumes s: "sendable_ip c ip" and inv: "conn_inv c nt"
  shows "\<exists>tl. let blk = be32 1 @ be32 (word_of_nat (ETH_HEADER_SIZE + length ip)) @ eth_frame c ip @ tl;
            fl = word_of_nat (ETH_HEADER_SIZE + length ip) in
     length blk = unat (cn_send_block_cap c) \<and>
     softether_send L c (Some ip) (length ip) nt =
       do { (sent, c, nt) \<leftarrow> softether_send_data_block L (c\<lparr>cn_send_block := Some blk\<rparr>) blk (8 + fl) (drop 8 blk) fl (net_ev (Lock L_write) nt);
            if sent < 0 then Some (-1, c, net_ev (Unlock L_write) nt)
            else Some (sint (word_of_nat (length ip) :: u32),
                   c\<lparr>cn_stats_tx_packets := cn_stats_tx_packets c + 1,
                     cn_stats_tx_bytes := cn_stats_tx_bytes c + word_of_nat (length ip)\<rparr>, net_ev (Unlock L_write) nt) }"
proof -
  obtain blk where blk: "cn_send_block c = Some blk" using s by (auto simp: sendable_ip_def)
  have len: "length blk = unat (cn_send_block_cap c)" using inv blk by (simp add: conn_inv_def)
  have fit: "22 + length ip \<le> length blk" using s len by (simp add: sendable_ip_def)
  have cap: "unat (cn_send_block_cap c - 8 - word_of_nat ETH_HEADER_SIZE) = unat (cn_send_block_cap c) - 22"
  proof -
    have "(22 :: u32) \<le> cn_send_block_cap c" using fit len by (simp add: word_le_nat_alt)
    then have "unat (cn_send_block_cap c - 22) = unat (cn_send_block_cap c) - unat (22 :: u32)" by (rule unat_sub)
    then show ?thesis by (simp add: ETH_HEADER_SIZE_def diff_diff_eq)
  qed
  let ?m = "if cn_gateway_mac_resolved c then arr 6 (cn_gateway_mac c) else replicate 6 0xFF"
  let ?fl = "word_of_nat ETH_HEADER_SIZE + word_of_nat (length ip) :: u32"
  let ?blk = "be32 1 @ be32 ?fl @ eth_frame c ip @ drop (22 + length ip) blk"
  have stage: "(do { blk \<leftarrow> mem_write blk 0 (be32 1 @ be32 ?fl); blk \<leftarrow> mem_write blk 8 ?m; blk \<leftarrow> mem_write blk 14 (arr 6 (cn_client_mac c));
     blk \<leftarrow> mem_write blk 20 (be16 (ether_type (hd ip))); mem_write blk 22 ip }) = Some ?blk"
    using stage_frame [OF fit, of ?m "arr 6 (cn_client_mac c)" ?fl "ether_type (hd ip)"] by (simp add: eth_frame_def)
  then obtain b1 b2 b3 b4 where w: "mem_write blk 0 (be32 1 @ be32 ?fl) = Some b1" "mem_write b1 8 ?m = Some b2"
    "mem_write b2 14 (arr 6 (cn_client_mac c)) = Some b3" "mem_write b3 20 (be16 (ether_type (hd ip))) = Some b4" "mem_write b4 (8 + ETH_HEADER_SIZE) ip = Some ?blk"
    by (auto simp: bind_eq_Some_conv ETH_HEADER_SIZE_def simp del: mem_write_SomeI)
  have t: "length ip \<noteq> 0" "cn_state c = STATE_CONNECTED" "\<not> unat (cn_send_block_cap c - 8 - word_of_nat ETH_HEADER_SIZE) < length ip"
    "cn_ssl c \<noteq> None" "STATE_CONNECTED \<noteq> STATE_DISCONNECTING"
    using s fit len unfolding cap by (auto simp: sendable_ip_def)
  have rd: "mem_read ip 0 1 = Some [hd ip]" "mem_read ip 0 (length ip) = Some ip"
    using s by (cases ip, simp_all add: sendable_ip_def mem_read_def)
  have "length ?blk = unat (cn_send_block_cap c)" using fit len by (simp add: c32.enc_length ETH_HEADER_SIZE_def)
  moreover have "softether_send L c (Some ip) (length ip) nt =
       do { (sent, c, nt) \<leftarrow> softether_send_data_block L (c\<lparr>cn_send_block := Some ?blk\<rparr>) ?blk (8 + ?fl) (drop 8 ?blk) ?fl (net_ev (Lock L_write) nt);
            if sent < 0 then Some (-1, c, net_ev (Unlock L_write) nt)
            else Some (sint (word_of_nat (length ip) :: u32),
                   c\<lparr>cn_stats_tx_packets := cn_stats_tx_packets c + 1,
                     cn_stats_tx_bytes := cn_stats_tx_bytes c + word_of_nat (length ip)\<rparr>, net_ev (Unlock L_write) nt) }"
    by (simp only: softether_send_def option.case blk t if_False Let_def simp_thms rd w Option.bind.bind_lunit list.sel)
  ultimately show ?thesis unfolding Let_def by (intro exI [of _ "drop (22 + length ip) blk"]) simp
qed

section \<open>Operations called without locks\<close>

definition safe_to :: "net \<Rightarrow> softether_connection \<Rightarrow> net \<Rightarrow> bool" where
  "safe_to nt c' nt' \<longleftrightarrow> conn_inv c' nt' \<and> lock_seg 0 nt nt'"

lemma safe_to_refl: "conn_inv c nt \<Longrightarrow> safe_to nt c nt"
  by (simp add: safe_to_def)

lemma safe_to_trans: "safe_to nt c1 nt1 \<Longrightarrow> safe_to nt1 c2 nt2 \<Longrightarrow> safe_to nt c2 nt2"
  unfolding safe_to_def using lock_seg_trans by blast

lemma safe_to_inv: "safe_to nt c nt' \<Longrightarrow> conn_inv c nt'"
  by (simp add: safe_to_def)

lemma safe_to_step: "step_ok nt c nt' \<Longrightarrow> safe_to nt c nt'"
  using top_step [of nt c nt' 0] by (simp add: top_ok_def safe_to_def)

lemma safe_to_top: "top_ok nt (r, c, nt') \<longleftrightarrow> safe_to nt c nt'"
  by (simp add: top_ok_def safe_to_def)

lemma safe_to_udp: "conn_inv c nt' \<Longrightarrow> udp_step nt nt' \<Longrightarrow> safe_to nt c nt'"
  by (simp add: safe_to_def udp_step_seg)

lemma send_rejects:
  assumes "conn_inv c nt" "\<not> sendable_ip c ip"
  shows "softether_send L c (Some ip) (length ip) nt = Some (-1, c, nt) \<or>
     softether_send L c (Some ip) (length ip) nt = Some (-1, c, net_ev (Unlock L_write) (net_ev (Lock L_write) nt))"
proof (cases "ip = [] \<or> cn_state c \<noteq> STATE_CONNECTED \<or> cn_send_block c = None")
  case True
  then show ?thesis by (auto simp: softether_send_def split: option.splits)
next
  case False
  then obtain b where b: "cn_send_block c = Some b" "ip \<noteq> []" "cn_state c = STATE_CONNECTED" by auto
  then have "(22 :: u32) \<le> cn_send_block_cap c" using assms(1) by (simp add: conn_inv_def word_le_nat_alt)
  then have "unat (cn_send_block_cap c - 22) = unat (cn_send_block_cap c) - unat (22 :: u32)" by (rule unat_sub)
  then have cap: "unat (cn_send_block_cap c - 8 - word_of_nat ETH_HEADER_SIZE) = unat (cn_send_block_cap c) - 22"
    by (simp add: ETH_HEADER_SIZE_def diff_diff_eq)
  show ?thesis
  proof (cases "cn_ssl c = None")
    case True
    then show ?thesis using b by (simp add: softether_send_def)
  next
    case nn: False
    then have "\<not> length ip + 22 \<le> unat (cn_send_block_cap c)" using assms(2) b by (simp add: sendable_ip_def)
    moreover have "0 < length ip" using b by simp
    ultimately have "unat (cn_send_block_cap c) - 22 < length ip" by linarith
    then show ?thesis using b by (simp add: softether_send_def cap)
  qed
qed

lemma softether_send_safe:
  assumes L: "lib_ok L" and inv: "conn_inv c nt"
  shows "\<exists>r c' nt'. softether_send L c (Some ip) (length ip) nt = Some (r, c', nt') \<and> safe_to nt c' nt'"
proof (cases "sendable_ip c ip")
  case False
  have "safe_to nt c (net_ev (Unlock L_write) (net_ev (Lock L_write) nt))"
    using top_bracket [of L_write nt c "net_ev (Lock L_write) nt" 0] inv by (simp add: safe_to_top step_ok_def)
  then show ?thesis using send_rejects [OF inv False, of L] safe_to_refl [OF inv] by metis
next
  case True
  let ?fl = "word_of_nat (ETH_HEADER_SIZE + length ip) :: u32"
  obtain tl where tl: "length (be32 1 @ be32 ?fl @ eth_frame c ip @ tl) = unat (cn_send_block_cap c)"
    "softether_send L c (Some ip) (length ip) nt =
       do { (sent, c, nt) \<leftarrow> softether_send_data_block L (c\<lparr>cn_send_block := Some (be32 1 @ be32 ?fl @ eth_frame c ip @ tl)\<rparr>)
              (be32 1 @ be32 ?fl @ eth_frame c ip @ tl) (8 + ?fl) (drop 8 (be32 1 @ be32 ?fl @ eth_frame c ip @ tl)) ?fl (net_ev (Lock L_write) nt);
            if sent < 0 then Some (-1, c, net_ev (Unlock L_write) nt)
            else Some (sint (word_of_nat (length ip) :: u32),
                   c\<lparr>cn_stats_tx_packets := cn_stats_tx_packets c + 1,
                     cn_stats_tx_bytes := cn_stats_tx_bytes c + word_of_nat (length ip)\<rparr>, net_ev (Unlock L_write) nt) }"
    using send_unfold [OF True inv, of L] unfolding Let_def by blast
  let ?blk = "be32 1 @ be32 ?fl @ eth_frame c ip @ tl" let ?c = "c\<lparr>cn_send_block := Some ?blk\<rparr>" let ?nt = "net_ev (Lock L_write) nt"
  have cap: "unat (cn_send_block_cap c) < 2 ^ 32 - 64" "22 \<le> unat (cn_send_block_cap c)"
    using inv True unfolding conn_inv_def sendable_ip_def by blast+
  have inv': "conn_inv ?c ?nt" using inv tl(1) cap by (simp add: conn_inv_def)
  have len: "length ?blk = 22 + length ip + length tl" by (simp add: c32.enc_length ETH_HEADER_SIZE_def)
  then have fl: "unat ?fl = 14 + length ip" "unat (8 + ?fl) = 22 + length ip"
    using tl(1) cap(1) unat_of_nat32 [of "22 + length ip"] unat_of_nat32 [of "14 + length ip"]
    by (simp_all add: ETH_HEADER_SIZE_def add.assoc [symmetric])
  have "unat (8 + ?fl) \<le> length ?blk" "unat ?fl \<le> length (drop 8 ?blk)" "unat ?fl < 2 ^ 32 - 64"
    unfolding fl length_drop len using tl(1) cap(1) len by simp_all
  from data_block_ok [OF L inv' this] obtain r c' nt' where
    d: "softether_send_data_block L ?c ?blk (8 + ?fl) (drop 8 ?blk) ?fl ?nt = Some (r, c', nt')" "step_ok ?nt c' nt'" by blast
  have t: "safe_to nt c' (net_ev (Unlock L_write) nt')" using top_bracket [OF d(2), of 0] by (simp add: safe_to_top)
  then have "safe_to nt (c'\<lparr>cn_stats_tx_packets := a, cn_stats_tx_bytes := b\<rparr>) (net_ev (Unlock L_write) nt')" for a b
    by (simp add: safe_to_def)
  then show ?thesis using t tl(2) d(1) by simp
qed

lemma send_data_safe:
  assumes L: "lib_ok L" "zbound_ok zb" and inv: "conn_inv c nt" and d: "length d < 2 ^ 31"
  shows "\<exists>r c' nt'. softether_send_data L zb c (Some d) (word_of_nat (length d)) nt = Some (r, c', nt') \<and> safe_to nt c' nt' \<and> same_rx c c'"
proof (cases "cn_state c = STATE_CONNECTED")
  case False
  then show ?thesis using safe_to_refl [OF inv] by (simp add: softether_send_data_def)
next
  case True
  let ?n = "word_of_nat (length d) :: u32"
  have n: "unat ?n = length d" "unat ?n < 2 ^ 32 - 64" using d by (simp_all add: unat_of_nat32)
  obtain s c1 nt1 where t: "try_rudp L c d ?n nt = Some (s, c1, nt1)" "conn_inv c1 nt1" "udp_step nt nt1" and r: "\<exists>r. c1 = c\<lparr>cn_rudp := r\<rparr>"
    using try_rudp_ok [OF L(1) inv, of ?n d] n by auto
  have k: "same_rx c c1" "safe_to nt c1 nt1" using r safe_to_udp [OF t(2,3)] by auto
  obtain q c2 nt2 where p: "softether_send_packet L zb c1 CMD_DATA (Some d) ?n nt1 = Some (q, c2, nt2)" "safe_to nt1 c2 nt2"
    using send_packet_safe [OF L d t(2), of CMD_DATA] by (auto simp: safe_to_top)
  have "same_rx c c2" "safe_to nt c2 nt2" using same_rx_trans [OF k(1) send_packet_same_rx [OF p(1)]] safe_to_trans [OF k(2) p(2)] .
  then show ?thesis using True t(1) p(1) k by (cases s) (simp_all add: softether_send_data_def)
qed

lemma send_raw_safe:
  assumes L: "lib_ok L" "zbound_ok zb" and inv: "conn_inv c nt" and d: "length d < 2 ^ 31"
  shows "\<exists>r c' nt'. softether_send_raw L zb c (Some d) (length d) nt = Some (r, c', nt') \<and> safe_to nt c' nt' \<and> same_rx c c'"
  using send_data_safe [OF assms] safe_to_refl [OF inv] by (auto simp: softether_send_raw_def)

lemma arp_frame_length: "length dst = 6 \<Longrightarrow> length src = 6 \<Longrightarrow> length sha = 6 \<Longrightarrow> length tha = 6 \<Longrightarrow> length tpa = 4 \<Longrightarrow>
    length (arp_frame dst src oper sha spa tha tpa) = 42"
  by (simp add: arp_frame_def c16.enc_length c32.enc_length)

lemma reply_arp_safe:
  assumes L: "lib_ok L" "zbound_ok zb" and inv: "conn_inv c nt" and d: "42 \<le> length d"
  shows "\<exists>c' nt'. softether_reply_arp_request L zb c d nt = Some (c', nt') \<and> safe_to nt c' nt' \<and> same_rx c c'"
proof -
  let ?f = "arp_frame (take 6 (drop 6 d)) (arr 6 (cn_client_mac c)) 2 (arr 6 (cn_client_mac c)) (cn_assigned_ip c)
     (take 6 (drop 22 d)) (take 4 (drop 28 d))"
  have f: "length ?f = 42" using d by (intro arp_frame_length) simp_all
  obtain r c' nt' where "softether_send_raw L zb c (Some ?f) 42 nt = Some (r, c', nt')" "safe_to nt c' nt'" "same_rx c c'"
    using send_raw_safe [OF L inv, of ?f] f by auto
  then show ?thesis using safe_to_refl [OF inv] by (simp add: softether_reply_arp_request_def)
qed

section \<open>Maintenance of the links\<close>

lemma reap_socket_ok:
  assumes inv: "conn_inv c nt" and i: "i < MAX_SE_CONNECTIONS" and act: "ts_active (cn_additional c ! i)"
  shows "\<exists>c' nt'. reap_socket i c nt = Some (c', nt') \<and> conn_inv c' nt' \<and> lock_seg 3 nt nt' \<and> same_rx c c'"
proof -
  obtain c1 nt1 where r: "retire_socket i c nt = Some (c1, nt1)" "c1\<lparr>cn_num_additional := cn_num_additional c1 - 1\<rparr> = retire_conn i c"
    "lock_seg 3 nt nt1" "conn_inv (retire_conn i c) nt1" using retire_socket_ok [OF assms] by blast
  let ?ts = "(cn_additional c ! i)\<lparr>ts_active := False, ts_ssl := None, ts_socket_fd := -1, ts_late_count := 0, ts_last_recv := 0, ts_ssl_ctx := None\<rparr>"
  let ?c = "c\<lparr>cn_additional := (cn_additional c)[i := ?ts], cn_num_additional := cn_num_additional c - 1\<rparr>"
  have slot: "take_ssl_ctx_slot s = (s, None)" for s by (cases s) (simp_all add: take_ssl_ctx_slot_def)
  let ?nt = "if 0 \<le> ts_socket_fd (cn_additional c ! i) then net_close (ts_socket_fd (cn_additional c ! i)) nt else nt"
  obtain nta where "ssl_shutdown (ts_ssl_ctx (cn_additional c ! i)) ?nt = Some nta" "ssl_destroy (ts_ssl_ctx (cn_additional c ! i)) nta = Some nt1"
    using r(1) unfolding retire_socket_def Let_def slot by (auto simp: bind_eq_Some_conv)
  then have "reap_socket i c nt = Some (?c, nt1)"
    unfolding reap_socket_def Let_def slot by simp
  moreover have "conn_inv ?c nt1"
  proof -
    have len: "length (cn_additional c) = MAX_SE_CONNECTIONS" using conn_inv_alive(3) [OF inv] .
    have nth: "cn_additional ?c ! j = (if j = i then ?ts else cn_additional c ! j)"
      "cn_additional (retire_conn i c) ! j = (if j = i then retired (cn_additional c ! i) else cn_additional c ! j)" for j
      using len i by (simp_all add: retire_conn_def)
    have "links_inv ?c nt1 = links_inv (retire_conn i c) nt1"
    proof -
      have "slot_ok (cn_additional ?c ! j) nt1 = slot_ok (cn_additional (retire_conn i c) ! j) nt1" for j
        unfolding nth by (simp add: slot_ok_def retired_def)
      moreover have "own_contexts ?c = own_contexts (retire_conn i c)"
        unfolding own_contexts_def nth by (simp add: retire_conn_def retired_def)
      moreover have "filter ts_active (cn_additional ?c) = filter ts_active (cn_additional (retire_conn i c))"
        using len i by (simp add: retire_conn_def upd_conv_take_nth_drop retired_def)
      ultimately show ?thesis unfolding links_inv_def by (simp add: retire_conn_def)
    qed
    then show ?thesis using r(4) by (subst conn_inv_cong [of _ _ "retire_conn i c"]) (simp_all add: retire_conn_def)
  qed
  ultimately show ?thesis using r(3) by (auto simp: same_rx_def)
qed

lemma launch_frame:
  assumes "launch_additional c nt = (c', nt')" "conn_inv c nt"
  shows "safe_to nt c' nt'" "same_rx c c'"
proof -
  define lim where "lim = (cn_num_additional c < cn_max_connection c - 1 \<and> cn_additional_failed_count c < 16 \<and> \<not> cn_additional_connecting c)"
  obtain now nt1 where t: "softether_tick_ms nt = (now, nt1)" by fastforce
  have u1: "udp_step nt nt1" using udp_step_basic(1) [of nt] t by simp
  define due where "due = (cn_next_connect_time c = 0 \<or> cn_next_connect_time c \<le> now)"
  obtain ok nt2 where th: "net_thread nt1 = (ok, nt2)" by fastforce
  have u2: "udp_step nt nt2"
    using udp_step_trans [OF u1, of nt2] th by (simp add: udp_step_def net_thread_def split: list.splits) auto
  note un = launch_additional_def [of c nt, folded lim_def]
  consider "c' = c" "udp_step nt nt'" | v where "c' = c\<lparr>cn_next_connect_time := v\<rparr>" "udp_step nt nt'"
    | v1 v2 v3 v4 where "c' = c\<lparr>cn_additional_connect_slot := v1, cn_additional_connecting := v2, cn_additional_connect_result := v3,
        cn_next_connect_time := v4\<rparr>" "udp_step nt nt'"
    | v1 v2 v3 v4 where "c' = c\<lparr>cn_additional_connect_result := v3, cn_additional_connecting := v2, cn_additional_connect_slot := v1,
        cn_next_connect_time := v4\<rparr>" "udp_step nt nt'"
  proof (cases "lim \<and> due")
    case False
    then show ?thesis using assms(1) that(1) u1 by (cases lim) (auto simp: un t due_def)
  next
    case True
    show ?thesis
    proof (cases "List.find (\<lambda>i. \<not> ts_active (cn_additional c ! i)) [0..<MAX_SE_CONNECTIONS]")
      case None
      then show ?thesis using assms(1) True that(2) u1 by (auto simp: un t due_def)
    next
      case (Some i)
      then show ?thesis using assms(1) True that(3,4) u2 by (cases ok) (auto simp: un t due_def th)
    qed
  qed
  then have "conn_inv c' nt' \<and> udp_step nt nt' \<and> same_rx c c'"
  proof cases
    case 1 then show ?thesis using assms(2) udp_step_inv by auto
  next
    case 2 then show ?thesis using assms(2) udp_step_inv [OF 2(2)] by (simp add: same_rx_def)
  next
    case 3 then show ?thesis using assms(2) udp_step_inv [OF 3(2)] by (simp add: same_rx_def)
  next
    case 4 then show ?thesis using assms(2) udp_step_inv [OF 4(2)] by (simp add: same_rx_def)
  qed
  then show "safe_to nt c' nt'" "same_rx c c'" using safe_to_udp by blast+
qed

lemma reap_links_ok:
  "conn_inv c nt \<Longrightarrow> \<forall>i \<in> set ix. i < MAX_SE_CONNECTIONS \<Longrightarrow>
     \<exists>c' nt'. reap_links ix c nt = Some (c', nt') \<and> safe_to nt c' nt' \<and> same_rx c c'"
proof (induction ix arbitrary: c nt)
  case Nil then show ?case by (simp add: safe_to_refl)
next
  case (Cons i ix)
  let ?ts = "cn_additional c ! i"
  have bd: "\<forall>i \<in> set ix. i < MAX_SE_CONNECTIONS" "i < MAX_SE_CONNECTIONS" using Cons.prems(2) by simp_all
  obtain p nt1 where p: "net_poll nt = (p, nt1)" by fastforce
  have u: "udp_step nt nt1" using udp_step_basic(8) [of nt] p by simp
  have inv1: "conn_inv c nt1" using Cons.prems(1) udp_step_inv [OF u] by blast
  define dead where "dead = (case p of Poll_ready f \<Rightarrow> (let (pin, perr, pnval) = f (ts_socket_fd ?ts) in perr \<or> pnval) | _ \<Rightarrow> False)"
  show ?case
  proof (cases "ts_active ?ts \<and> \<not> (cn_additional_connecting c \<and> int i = cn_additional_connect_slot c)")
    case False
    then have "reap_links (i # ix) c nt = reap_links ix c nt" by (auto simp: Let_def)
    then show ?thesis using Cons.IH [OF Cons.prems(1) bd(1)] by simp
  next
    case act: True
    show ?thesis
    proof (cases dead)
      case False
      then have "reap_links (i # ix) c nt = reap_links ix c nt1" using act p by (auto simp: dead_def Let_def)
      then show ?thesis using Cons.IH [OF inv1 bd(1)] safe_to_trans [OF safe_to_udp [OF inv1 u]] by auto
    next
      case True
      let ?l = "net_ev (Lock (L_io (int i))) nt1"
      obtain c2 nt2 where r: "reap_socket i c ?l = Some (c2, nt2)" "conn_inv c2 nt2" "lock_seg 3 ?l nt2" "same_rx c c2"
        using reap_socket_ok [of c ?l i] inv1 bd(2) act by auto
      let ?nt2 = "net_ev (Unlock (L_io (int i))) nt2"
      have "lock_seg 2 nt1 ?nt2" by (rule lock_seg_bracket) (use r(3) in simp_all)
      then have s: "safe_to nt c2 ?nt2"
        using safe_to_trans [OF safe_to_udp [OF inv1 u] safe_to_step] r(2) by (simp add: step_ok_def)
      have "reap_links (i # ix) c nt = reap_links ix c2 ?nt2" using act p True r(1) by (auto simp: dead_def Let_def)
      then show ?thesis using Cons.IH [OF safe_to_inv [OF s] bd(1)] safe_to_trans [OF s] same_rx_trans [OF r(4)] by auto
    qed
  qed
qed

lemma maintain_links_ok:
  assumes "conn_inv c nt"
  shows "\<exists>c' nt'. softether_maintain_links c nt = Some (c', nt') \<and> safe_to nt c' nt' \<and> same_rx c c'"
proof -
  obtain r c1 nt1 where k: "softether_send_keepalive_all c nt = Some (r, c1, nt1)" "step_ok nt c1 nt1"
    using keepalive_all_ok [OF assms] by (auto simp: call_ok_def)
  have k1: "same_rx c c1"
    using k(1) unfolding softether_send_keepalive_all_def
    by (auto simp: Let_def case_prod_beta bind_eq_Some_conv split: if_splits)
  obtain c2 nt2 where l: "launch_additional c1 nt1 = (c2, nt2)" by fastforce
  note l2 = launch_frame [OF l]
  have s1: "safe_to nt c1 nt1" using safe_to_step [OF k(2)] .
  have s2: "safe_to nt c2 nt2" "same_rx c c2" using safe_to_trans [OF s1 l2(1)] same_rx_trans [OF k1 l2(2)] safe_to_inv [OF s1] by blast+
  obtain c3 nt3 where "reap_links [0..<MAX_SE_CONNECTIONS] c2 nt2 = Some (c3, nt3)" "safe_to nt2 c3 nt3" "same_rx c2 c3"
    using reap_links_ok [OF safe_to_inv [OF s2(1)], of "[0..<MAX_SE_CONNECTIONS]"] by auto
  then show ?thesis using k(1) l safe_to_trans [OF s2(1)] same_rx_trans [OF s2(2)]
    by (auto simp: softether_maintain_links_def)
qed

section \<open>Receiving\<close>

lemma fill_if_empty_ok:
  assumes "lib_ok L" "conn_inv c nt"
  shows "\<exists>r c' nt'. fill_if_empty L c nt = Some (r, c', nt') \<and> safe_to nt c' nt'"
  using fill_recv_queue_ok [OF assms] safe_to_refl [OF assms(2)] by (auto simp: fill_if_empty_def safe_to_top)

lemma head_frame:
  assumes "conn_inv c nt" "0 < fr_count (cn_recv_queue c)"
  shows "\<exists>d ds. frame_contents (cn_recv_queue c) = d # ds \<and> frame_get (cn_recv_queue c) = Some d \<and> length d \<le> MAX_QUEUED_FRAME \<and>
     frame_len (cn_recv_queue c) = Some (word_of_nat (length d)) \<and> frame_contents (cn_recv_queue (pop_frame c)) = ds \<and> conn_inv (pop_frame c) nt"
proof -
  have q: "queue_ok (cn_recv_queue c)" using assms(1) by (simp add: conn_inv_def)
  obtain d ds where d: "frame_contents (cn_recv_queue c) = d # ds"
    using assms(2) frame_contents_length [of "cn_recv_queue c"] by (cases "frame_contents (cn_recv_queue c)") auto
  have "length d \<le> MAX_QUEUED_FRAME" using connq.slots [OF q, of d] d by simp
  then show ?thesis
    using connq.get_ok [OF q d] connq.len_ok [OF q d] connq.pop_ok [OF q d] conn_inv_queue [OF assms(1)] d
    by (simp add: pop_frame_def)
qed

lemma pop_safe: "safe_to nt c nt' \<Longrightarrow> 0 < fr_count (cn_recv_queue c) \<Longrightarrow> safe_to nt (pop_frame c) nt'"
  unfolding safe_to_def using head_frame by blast

lemma receive_safe:
  assumes L: "lib_ok L" "zbound_ok zb" and inv: "conn_inv c nt" and b: "max_len \<le> length b"
  shows "\<exists>r b' c' nt'. softether_receive L zb c (Some b) max_len nt = Some (r, b', c', nt') \<and> safe_to nt c' nt'"
proof (cases "max_len = 0 \<or> cn_state c \<noteq> STATE_CONNECTED")
  case True
  then show ?thesis using safe_to_refl [OF inv] by (auto simp: softether_receive_def)
next
  case False
  obtain c1 nt1 where m: "softether_maintain_links c nt = Some (c1, nt1)" "safe_to nt c1 nt1" using maintain_links_ok [OF inv] by blast
  obtain rc c2 nt2 where f: "fill_if_empty L c1 nt1 = Some (rc, c2, nt2)" "safe_to nt1 c2 nt2"
    using fill_if_empty_ok [OF L(1) safe_to_inv [OF m(2)]] by blast
  note s2 = safe_to_trans [OF m(2) f(2)]
  show ?thesis
  proof (cases "rc \<le> 0 \<or> fr_count (cn_recv_queue c2) = 0")
    case True
    then show ?thesis using False m(1) f(1) s2 by (auto simp: softether_receive_def)
  next
    case more: False
    then have n: "0 < fr_count (cn_recv_queue c2)" by simp
    obtain d where d: "frame_get (cn_recv_queue c2) = Some d" using head_frame [OF safe_to_inv [OF s2] n] by blast
    note p = pop_safe [OF s2 n]
    have e: "softether_receive L zb c (Some b) max_len nt =
        (if is_arp d then do { (c, nt) \<leftarrow> softether_reply_arp_request L zb c2 d nt2; Some (0, Some b, pop_frame c, nt) }
         else if length d \<le> ETH_HEADER_SIZE then Some (0, Some b, pop_frame c2, nt2)
         else if \<not> is_ip_type d then Some (0, Some b, pop_frame c2, nt2)
         else if max_len < length d - ETH_HEADER_SIZE then Some (-1, Some b, pop_frame c2, nt2)
         else do { b \<leftarrow> mem_write b 0 (drop ETH_HEADER_SIZE d); Some (int (length d - ETH_HEADER_SIZE), Some b, pop_frame c2, nt2) })"
      using False more m(1) f(1) d unfolding softether_receive_def by simp
    show ?thesis
    proof (cases "is_arp d")
      case True
      then have "42 \<le> length d" by (simp add: is_arp_def)
      from reply_arp_safe [OF L safe_to_inv [OF s2] this] obtain c3 nt3 where
        r: "softether_reply_arp_request L zb c2 d nt2 = Some (c3, nt3)" "safe_to nt2 c3 nt3" "same_rx c2 c3" by blast
      have "safe_to nt (pop_frame c3) nt3" using pop_safe [OF safe_to_trans [OF s2 r(2)]] n r(3) by (simp add: same_rx_def)
      then show ?thesis using r(1) True unfolding e by simp
    next
      case na: False
      then show ?thesis using p b unfolding e by (auto simp: not_less)
    qed
  qed
qed

lemma receive_raw_safe:
  assumes L: "lib_ok L" and inv: "conn_inv c nt" and b: "MAX_QUEUED_FRAME \<le> length b"
  shows "\<exists>r b' l c' nt'. softether_receive_raw L c (Some b) max_len nt = Some (r, Some b', l, c', nt') \<and> safe_to nt c' nt' \<and> length b' = length b"
proof (cases "cn_state c = STATE_CONNECTED")
  case False
  then show ?thesis using safe_to_refl [OF inv] by (auto simp: softether_receive_raw_def)
next
  case True
  obtain rc c2 nt2 where f: "fill_if_empty L c nt = Some (rc, c2, nt2)" "safe_to nt c2 nt2"
    using fill_if_empty_ok [OF L inv] by blast
  show ?thesis
  proof (cases "rc \<le> 0 \<or> fr_count (cn_recv_queue c2) = 0")
    case a: True
    then show ?thesis using True f by (auto simp: softether_receive_raw_def)
  next
    case more: False
    then have n: "0 < fr_count (cn_recv_queue c2)" by simp
    obtain d where d: "frame_get (cn_recv_queue c2) = Some d" "length d \<le> MAX_QUEUED_FRAME" "frame_len (cn_recv_queue c2) = Some (word_of_nat (length d))"
      using head_frame [OF safe_to_inv [OF f(2)] n] by blast
    have "\<exists>r b' l. softether_receive_raw L c (Some b) max_len nt = Some (r, Some b', l, pop_frame c2, nt2) \<and> length b' = length b"
      using True more f(1) d b unfolding softether_receive_raw_def by simp
    then show ?thesis using pop_safe [OF f(2) n] by blast
  qed
qed

section \<open>Draining the queue\<close>

text \<open>The IP packet a received frame carries.\<close>

definition ip_payload :: "byte list \<Rightarrow> byte list option" where
  "ip_payload d = (if is_arp d \<or> length d \<le> ETH_HEADER_SIZE \<or> \<not> is_ip_type d then None else Some (drop ETH_HEADER_SIZE d))"

text \<open>Taking packets from a queue while they fit: room for bytes, room for packets, the frames.\<close>

fun batch_spec :: "nat \<Rightarrow> nat \<Rightarrow> byte list list \<Rightarrow> byte list list \<times> byte list list" where
  "batch_spec room 0 fs = ([], fs)"
| "batch_spec room (Suc k) [] = ([], [])"
| "batch_spec room (Suc k) (f # fs) =
     (case ip_payload f of
        None \<Rightarrow> batch_spec room (Suc k) fs
      | Some p \<Rightarrow> if room < length p then ([], f # fs)
                  else let (ps, rest) = batch_spec (room - length p) k fs in (p # ps, rest))"

lemma pop_same [simp]:
  "cn_stats_rx_packets (pop_frame c) = cn_stats_rx_packets c" "cn_stats_rx_bytes (pop_frame c) = cn_stats_rx_bytes c"
  "cn_state (pop_frame c) = cn_state c"
  by (simp_all add: pop_frame_def)

text \<open>The outcome of a run of the loop that delivers \<open>ps\<close> and leaves the frames \<open>rest\<close>.\<close>

definition drained :: "byte list \<Rightarrow> u32 list \<Rightarrow> u32 \<Rightarrow> nat \<Rightarrow> softether_connection \<Rightarrow> net \<Rightarrow> byte list list \<Rightarrow> byte list list \<Rightarrow>
    byte list \<times> u32 list \<times> u32 \<times> nat \<times> softether_connection \<times> net \<Rightarrow> bool" where
  "drained buf ls tot cnt c nt ps rest res \<longleftrightarrow> (case res of (buf', ls', tot', cnt', c', nt') \<Rightarrow>
     safe_to nt c' nt' \<and> frame_contents (cn_recv_queue c') = rest \<and> cnt' = cnt + length ps \<and>
     unat tot' = unat tot + length (concat ps) \<and> length buf' = length buf \<and> length ls' = length ls \<and>
     take (unat tot') buf' = take (unat tot) buf @ concat ps \<and>
     take cnt' ls' = take cnt ls @ map (\<lambda>p. word_of_nat (length p)) ps \<and> drop cnt' ls' = drop cnt' ls \<and>
     cn_stats_rx_packets c' = cn_stats_rx_packets c \<and> cn_stats_rx_bytes c' = cn_stats_rx_bytes c)"

lemma drained_stop:
  "conn_inv c nt \<Longrightarrow> frame_contents (cn_recv_queue c) = rest \<Longrightarrow> drained buf ls tot cnt c nt [] rest (buf, ls, tot, cnt, c, nt)"
  by (simp add: drained_def safe_to_refl)

lemma drained_skip:
  assumes "safe_to nt c1 nt1" "same_rx c (c1\<lparr>cn_recv_queue := cn_recv_queue c\<rparr>)" "drained buf ls tot cnt c1 nt1 ps rest res"
  shows "drained buf ls tot cnt c nt ps rest res"
  using assms safe_to_trans by (auto simp: drained_def same_rx_def)

lemma drained_packet:
  assumes "drained buf1 ls1 (tot + word_of_nat (length p)) (cnt + 1) (pop_frame c) nt ps rest res"
    and b: "mem_write buf (unat tot) p = Some buf1" "mem_write ls cnt [word_of_nat (length p)] = Some ls1"
    and t: "unat (tot + word_of_nat (length p) :: u32) = unat tot + length p"
  shows "drained buf ls tot cnt c nt (p # ps) rest res"
proof -
  obtain buf' ls' tot' cnt' c' nt' where res: "res = (buf', ls', tot', cnt', c', nt')" by (metis prod.collapse)
  have w: "take (unat tot + length p) buf1 = take (unat tot) buf @ p" "length buf1 = length buf" "length ls1 = length ls"
    "take (cnt + 1) ls1 = take cnt ls @ [word_of_nat (length p)]"
    using mem_write_prefix [OF b(1)] mem_write_length [OF b(1)] mem_write_length [OF b(2)] mem_write_prefix [OF b(2)] by simp_all
  have dr: "drop (Suc (cnt + n)) ls1 = drop (Suc (cnt + n)) ls" for n
    using b(2) by (auto simp: mem_write_def add.commute split: if_splits)
  show ?thesis
    using assms(1) unfolding drained_def res prod.case t w by (clarsimp simp: dr)
qed

text \<open>What the caller of the loop provides.\<close>

definition batch_room :: "u32 \<Rightarrow> u32 \<Rightarrow> byte list \<Rightarrow> u32 list \<Rightarrow> u32 \<Rightarrow> nat \<Rightarrow> bool" where
  "batch_room max_len max_packets buf ls tot cnt \<longleftrightarrow> unat max_len < 2 ^ 31 \<and> unat max_len \<le> length buf \<and>
     unat max_packets \<le> length ls \<and> tot \<le> max_len \<and> cnt \<le> unat max_packets"

lemma batch_step_packet:
  assumes room: "batch_room M K buf ls tot cnt" "cnt < unat K" and p: "length p \<le> MAX_QUEUED_FRAME" "length p \<le> unat M - unat tot"
  shows "\<exists>buf1 ls1. mem_write buf (unat tot) p = Some buf1 \<and> mem_write ls cnt [word_of_nat (length p) :: u32] = Some ls1 \<and>
     unat (tot + word_of_nat (length p)) = unat tot + length p \<and> \<not> M < tot + word_of_nat (length p) \<and>
     batch_room M K buf1 ls1 (tot + word_of_nat (length p)) (cnt + 1)"
proof -
  have t: "unat tot \<le> unat M" using room by (simp add: batch_room_def word_le_nat_alt)
  have l: "unat (word_of_nat (length p) :: u32) = length p" using p(1) by (simp add: unat_of_nat32 conn_sizes)
  have "unat M < 2147483648" "length p \<le> 2048" using room p(1) by (simp_all add: batch_room_def conn_sizes)
  then have lt: "unat tot + length p < 4294967296" using t by linarith
  have u: "unat (tot + word_of_nat (length p)) = unat tot + length p"
    using lt unat_add32 [of tot "word_of_nat (length p)"] by (simp add: l)
  have "unat M \<le> length buf" "unat K \<le> length ls" using room by (simp_all add: batch_room_def)
  then have fit: "unat tot + length p \<le> length buf" "cnt + 1 \<le> length ls" using t p room(2) by linarith+
  have "unat tot + length p \<le> unat M" "unat K \<le> length ls" using t p room by (simp_all add: batch_room_def)
  then show ?thesis using fit u room
    by (simp add: batch_room_def word_le_nat_alt word_less_nat_alt)
qed

lemma batch_step_full:
  assumes room: "batch_room M K buf ls tot cnt" and p: "length p \<le> MAX_QUEUED_FRAME" "unat M - unat tot < length p"
  shows "M < tot + word_of_nat (length p)"
proof -
  have t: "unat tot \<le> unat M" using room by (simp add: batch_room_def word_le_nat_alt)
  have l: "unat (word_of_nat (length p) :: u32) = length p" using p(1) by (simp add: unat_of_nat32 conn_sizes)
  have "unat M < 2147483648" "length p \<le> 2048" using room p(1) by (simp_all add: batch_room_def conn_sizes)
  then have lt: "unat tot + length p < 4294967296" using t by linarith
  have "unat (tot + word_of_nat (length p)) = unat tot + length p"
    using lt unat_add32 [of tot "word_of_nat (length p)"] by (simp add: l)
  then show ?thesis using p t by (simp add: word_less_nat_alt)
qed

lemma batch_loop_ok:
  assumes L: "lib_ok L" "zbound_ok zb"
  shows "conn_inv c nt \<Longrightarrow> frame_contents (cn_recv_queue c) = fs \<Longrightarrow> length fs \<le> n \<Longrightarrow> batch_room M K buf ls tot cnt \<Longrightarrow>
     batch_spec (unat M - unat tot) (unat K - cnt) fs = (ps, rest) \<Longrightarrow>
     \<exists>res. batch_loop n L zb M K c buf ls tot cnt nt = Some res \<and> drained buf ls tot cnt c nt ps rest res"
proof (induction n arbitrary: c nt fs buf ls tot cnt ps)
  case 0
  have "fs = []" using 0(3) by simp
  then have "ps = []" "rest = fs" using 0(5) by (cases "unat K - cnt"; simp)+
  then show ?case using drained_stop [OF 0(1,2)] by simp
next
  case (Suc n)
  note inv = Suc.prems(1) and room = Suc.prems(4)
  have len: "fr_count (cn_recv_queue c) = length fs" using Suc.prems(2) frame_contents_length by metis
  show ?case
  proof (cases "cnt < unat K \<and> fs \<noteq> []")
    case False
    then have "ps = [] \<and> rest = fs" using Suc.prems(5) by (cases "unat K - cnt"; cases fs; simp)
    moreover have "batch_loop (Suc n) L zb M K c buf ls tot cnt nt = Some (buf, ls, tot, cnt, c, nt)" using False len by simp
    ultimately show ?thesis using drained_stop [OF inv Suc.prems(2)] by blast
  next
    case True
    then have n: "0 < fr_count (cn_recv_queue c)" by (simp add: len)
    obtain d ds where d: "fs = d # ds" "frame_get (cn_recv_queue c) = Some d" "length d \<le> MAX_QUEUED_FRAME"
      "frame_contents (cn_recv_queue (pop_frame c)) = ds" "conn_inv (pop_frame c) nt"
      using head_frame [OF inv n] Suc.prems(2) by auto
    have ds: "length ds \<le> n" using Suc.prems(3) d(1) by simp
    obtain k where k: "unat K - cnt = Suc k" using True by (metis Suc_diff_Suc)
    have loop: "batch_loop (Suc n) L zb M K c buf ls tot cnt nt =
       (if is_arp d
        then do { (c, nt) \<leftarrow> softether_reply_arp_request L zb c d nt; batch_loop n L zb M K (pop_frame c) buf ls tot cnt nt }
        else if length d \<le> ETH_HEADER_SIZE \<or> \<not> is_ip_type d then batch_loop n L zb M K (pop_frame c) buf ls tot cnt nt
        else let ip_len = word_of_nat (length d - ETH_HEADER_SIZE) :: u32 in
             if M < tot + ip_len then Some (buf, ls, tot, cnt, c, nt)
             else do { buf \<leftarrow> mem_write buf (unat tot) (drop ETH_HEADER_SIZE d);
                       ls \<leftarrow> mem_write ls cnt [ip_len];
                       batch_loop n L zb M K (pop_frame c) buf ls (tot + ip_len) (cnt + 1) nt })"
      using True n d(2) by simp
    show ?thesis
    proof (cases "ip_payload d")
      case None
      then have spec: "batch_spec (unat M - unat tot) (unat K - cnt) ds = (ps, rest)" using Suc.prems(5) d(1) k by simp
      obtain c1 nt1 where c1: "safe_to nt c1 nt1" "same_rx c c1" "(if is_arp d then softether_reply_arp_request L zb c d nt else Some (c, nt)) = Some (c1, nt1)"
        using reply_arp_safe [OF L inv, of d] safe_to_refl [OF inv] by (cases "is_arp d") (auto simp: is_arp_def)
      have q: "cn_recv_queue c1 = cn_recv_queue c" using c1(2) by (simp add: same_rx_def)
      have n1: "0 < fr_count (cn_recv_queue c1)" using n q by simp
      note p1 = pop_safe [OF c1(1) n1]
      have "frame_contents (cn_recv_queue (pop_frame c1)) = ds" using d(4) q by (simp add: pop_frame_def)
      from Suc.IH [OF safe_to_inv [OF p1] this ds room spec] obtain res where
        r: "batch_loop n L zb M K (pop_frame c1) buf ls tot cnt nt1 = Some res" "drained buf ls tot cnt (pop_frame c1) nt1 ps rest res" by blast
      have "batch_loop (Suc n) L zb M K c buf ls tot cnt nt = Some res"
        using None c1(3) r(1) unfolding loop by (auto simp: ip_payload_def split: if_splits)
      moreover have "drained buf ls tot cnt c nt ps rest res"
        by (rule drained_skip [OF p1 _ r(2)]) (use c1(2) in \<open>simp add: same_rx_def pop_frame_def\<close>)
      ultimately show ?thesis by blast
    next
      case (Some p)
      then have p: "p = drop ETH_HEADER_SIZE d" "\<not> is_arp d" "\<not> (length d \<le> ETH_HEADER_SIZE \<or> \<not> is_ip_type d)"
        by (auto simp: ip_payload_def split: if_splits)
      have pl: "length p \<le> MAX_QUEUED_FRAME" "length d - ETH_HEADER_SIZE = length p" using d(3) p(1) by simp_all
      show ?thesis
      proof (cases "unat M - unat tot < length p")
        case True
        then have "ps = []" "rest = fs" using Suc.prems(5) d(1) k Some by auto
        moreover have "batch_loop (Suc n) L zb M K c buf ls tot cnt nt = Some (buf, ls, tot, cnt, c, nt)"
          using p batch_step_full [OF room pl(1) True] unfolding loop pl(2) by simp
        ultimately show ?thesis using drained_stop [OF inv Suc.prems(2)] by blast
      next
        case False
        then obtain ps1 where ps1: "ps = p # ps1" "batch_spec (unat M - unat tot - length p) k ds = (ps1, rest)"
          using Suc.prems(5) d(1) k Some by (auto simp: Let_def split: prod.splits)
        obtain buf1 ls1 where w: "mem_write buf (unat tot) p = Some buf1" "mem_write ls cnt [word_of_nat (length p) :: u32] = Some ls1"
          "unat (tot + word_of_nat (length p)) = unat tot + length p" "\<not> M < tot + word_of_nat (length p)"
          "batch_room M K buf1 ls1 (tot + word_of_nat (length p)) (cnt + 1)"
          using batch_step_packet [OF room _ pl(1)] False \<open>cnt < unat K \<and> fs \<noteq> []\<close> by (metis not_less)
        have "batch_spec (unat M - unat (tot + word_of_nat (length p))) (unat K - (cnt + 1)) ds = (ps1, rest)"
        proof -
          have "unat K - (cnt + 1) = k" using k by linarith
          then show ?thesis using ps1(2) w(3) by (simp add: diff_diff_eq)
        qed
        from Suc.IH [OF d(5,4) ds w(5) this] obtain res where
          r: "batch_loop n L zb M K (pop_frame c) buf1 ls1 (tot + word_of_nat (length p)) (cnt + 1) nt = Some res"
            "drained buf1 ls1 (tot + word_of_nat (length p)) (cnt + 1) (pop_frame c) nt ps1 rest res" by blast
        have "batch_loop (Suc n) L zb M K c buf ls tot cnt nt = Some res"
          using p w r(1) unfolding loop pl(2) by (simp del: mem_write_SomeI)
        then show ?thesis using drained_packet [OF r(2) w(1,2,3)] ps1(1) by blast
      qed
    qed
  qed
qed

end
