(* ===== verification/Dhcp_Run.thy ===== *)
theory Dhcp_Run
  imports Dhcp Tunnel_Run Rt_Wire
begin

text \<open>
  The DHCP exchange stays inside its buffers and keeps the connection well-formed; its frames carry valid
  headers, and a reply is parsed to what it says.
\<close>

section \<open>Requests\<close>

lemma unat_le_word: "unat (ucast x OR push_bit 8 (ucast y) :: u32) = unat (x :: byte) + 256 * unat (y :: byte)"
proof -
  have y: "unat (push_bit 8 (ucast y) :: u32) = 256 * unat y"
    using byte_le_255 [of y] by (simp add: push_bit_eq_mult unat_word_ariths unsigned_ucast_eq take_bit_eq_mod mult.commute)
  have "\<not> bit (ucast x :: u32) n \<or> \<not> bit (push_bit 8 (ucast y) :: u32) n" for n by (auto simp: bit_simps)
  then have "ucast x OR push_bit 8 (ucast y :: u32) = ucast x + push_bit 8 (ucast y)" by (simp add: disjunctive_add)
  then show ?thesis using y byte_le_255 [of x] byte_le_255 [of y]
    by (simp add: unat_add32 unsigned_ucast_eq take_bit_eq_mod)
qed

lemma unat_ip_sum: "unat s + le_sum bs < 2 ^ 32 \<Longrightarrow> unat (ip_sum s bs) = unat s + le_sum bs"
proof (induction s bs rule: ip_sum.induct)
  case (1 s x y bs)
  have "unat (s + (ucast x OR push_bit 8 (ucast y)) :: u32) = unat s + (unat x + 256 * unat y)"
    using 1(2) by (simp add: unat_add32 unat_le_word)
  then show ?case using 1 by simp
next
  case (2 s x)
  then show ?case using byte_le_255 [of x] by (simp add: unat_add32 unsigned_ucast_eq take_bit_eq_mod)
qed simp

lemma le_sum_be16: "le_sum (rev (be16 c)) = unat c"
proof -
  have "le_sum (rev (be16 c)) = be_sum (be16 c)" by (simp add: be16_def)
  then show ?thesis by (simp add: be_sum_be16)
qed

lemma unat_not16: "unat (NOT w) = 65535 - unat (w :: u16)"
proof -
  have "w \<le> -1" by simp
  then have "unat (-1 - w) = unat (-1 :: u16) - unat w" unfolding word_le_nat_alt by (rule unat_sub [OF iffD2 [OF word_le_nat_alt]])
  moreover have "unat (-1 :: u16) = 65535" by (simp add: unsigned_minus_1_eq_mask mask_eq_exp_minus_1)
  ultimately show ?thesis by (simp add: not_eq_complement minus_diff_commute)
qed

text \<open>A host that sums the 16-bit words of the header, the checksum included, gets \<open>0xFFFF\<close>.\<close>

lemma ip_header_sum: "unat (ip_fold (ip_sum 0 (ip_header n a b (rev (be16 (ip_checksum (ip_header n a b [0, 0]))))))) = 65535"
proof -
  let ?pre = "[0x45, 0] @ be16 (word_of_nat n) @ [a, b, 0, 0, 128, 17]" let ?post = "[0, 0, 0, 0, 255, 255, 255, 255] :: byte list"
  let ?h = "\<lambda>ck. ip_header n a b ck"
  define s where "s = ip_sum 0 (?h [0, 0])"
  have ev: "even (length ?pre)" by (simp add: be16_def)
  have sum: "le_sum (?h ck) = le_sum ?pre + le_sum ck + le_sum ?post" if "length ck = 2" for ck
    using le_sum_append [OF ev, of "ck @ ?post"] le_sum_append [of ck ?post] that by (simp add: ip_header_def)
  have len: "length (?h ck) = 18 + length ck" for ck by (simp add: ip_header_def be16_def)
  have bound: "le_sum (?h ck) < 2 ^ 32" if "length ck = 2" for ck using le_sum_bound [of "?h ck"] len [of ck] that by simp
  have s: "unat s = le_sum ?pre + le_sum ?post" using unat_ip_sum [of 0 "?h [0, 0]"] bound [of "[0, 0]"] sum [of "[0, 0]"] by (simp add: s_def)
  have c: "unat (ip_checksum (?h [0, 0])) = 65535 - unat (ip_fold s)"
    unfolding ip_checksum_def s_def [symmetric] by (rule unat_not16)
  let ?ck = "rev (be16 (ip_checksum (?h [0, 0])))"
  have l: "length ?ck = 2" by (simp add: be16_def)
  have "unat (ip_sum 0 (?h ?ck)) = unat s + (65535 - unat (ip_fold s))"
    using unat_ip_sum [of 0 "?h ?ck"] bound [OF l] sum [OF l] s c by (simp add: le_sum_be16)
  then show ?thesis by (rule ipf.fold_complement)
qed

definition dhcp_frame :: "byte list \<Rightarrow> u32 \<Rightarrow> byte \<Rightarrow> u32 \<Rightarrow> u32 \<Rightarrow> byte \<Rightarrow> byte \<Rightarrow> byte list" where
  "dhcp_frame mac xid t req sid a b =
     (let dhcp = dhcp_payload mac xid t req sid; n = 28 + length dhcp in
      replicate 6 0xFF @ mac @ be16 ETH_TYPE_IPV4 @ ip_header n a b (rev (be16 (ip_checksum (ip_header n a b [0, 0])))) @
      udp_header (8 + length dhcp) @ dhcp)"

lemma dhcp_payload_length: "length mac = 6 \<Longrightarrow> length (dhcp_payload mac xid t req sid) =
    250 + (if t = DHCP_REQUEST then (if req \<noteq> 0 then 6 else 0) + (if sid \<noteq> 0 then 6 else 0) else 0)"
  by (simp add: dhcp_payload_def c32.enc_length)

lemma dhcp_frame_length: "length mac = 6 \<Longrightarrow> length (dhcp_frame mac xid t req sid a b) = 42 + length (dhcp_payload mac xid t req sid)"
  by (simp add: dhcp_frame_def Let_def ip_header_def udp_header_def be16_def)

lemma mem_write_zeros:
  "length a = off \<Longrightarrow> length ys \<le> n \<Longrightarrow> mem_write (a @ replicate n 0) off ys = Some (a @ ys @ replicate (n - length ys) 0)"
  by (simp add: mem_write_def)

lemma dhcp_build_ok:
  assumes "length mac = 6" "length buf = DHCP_MAX_FRAME"
  shows "\<exists>a b nt'. build_dhcp_frame buf DHCP_MAX_FRAME mac xid t req sid nt =
       Some (int (length (dhcp_frame mac xid t req sid a b)),
         dhcp_frame mac xid t req sid a b @ replicate (DHCP_MAX_FRAME - length (dhcp_frame mac xid t req sid a b)) 0, nt') \<and>
     udp_step nt nt'"
proof -
  obtain r0 nt1 where 1: "c_rand nt = (r0, nt1)" by fastforce
  obtain r1 nt2 where 2: "c_rand nt1 = (r1, nt2)" by fastforce
  have u: "udp_step nt nt2" using 1 2 by (auto simp: c_rand_def udp_step_def)
  let ?a = "word_of_nat r0 :: byte" let ?b = "word_of_nat r1 :: byte"
  define dhcp where "dhcp = dhcp_payload mac xid t req sid"
  define ip where "ip = ip_header (28 + length dhcp) ?a ?b (rev (be16 (ip_checksum (ip_header (28 + length dhcp) ?a ?b [0, 0]))))"
  define eth where "eth = replicate 6 0xFF @ mac @ be16 ETH_TYPE_IPV4"
  define udp where "udp = udp_header (8 + length dhcp)"
  have len: "length eth = 14" "length ip = 20" "length udp = 8" "length dhcp \<le> 262"
    using assms(1) by (simp_all add: eth_def ip_def udp_def ip_header_def udp_header_def be16_def dhcp_def dhcp_payload_length)
  let ?N = "DHCP_MAX_FRAME"
  have N: "304 \<le> ?N" by (simp add: DHCP_MAX_FRAME_def)
  have w: "dhcp_frame mac xid t req sid ?a ?b = eth @ ip @ udp @ dhcp"
    by (simp add: dhcp_frame_def Let_def dhcp_def eth_def ip_def udp_def)
  note z = mem_write_zeros
  have m: "mem_write (replicate ?N 0) 0 eth = Some (eth @ replicate (?N - 14) 0)"
    "mem_write (eth @ replicate (?N - 14) 0) 14 ip = Some (eth @ ip @ replicate (?N - 34) 0)"
    "mem_write (eth @ ip @ replicate (?N - 34) 0) 34 udp = Some (eth @ ip @ udp @ replicate (?N - 42) 0)"
    "mem_write (eth @ ip @ udp @ replicate (?N - 42) 0) 42 dhcp = Some (eth @ ip @ udp @ dhcp @ replicate (?N - (42 + length dhcp)) 0)"
    using len N z [of "[]" 0 eth ?N] z [of eth 14 ip "?N - 14"] z [of "eth @ ip" 34 udp "?N - 34"] z [of "eth @ ip @ udp" 42 dhcp "?N - 42"]
    by simp_all
  have c: "mem_write buf 0 (replicate (min ?N ?N) 0) = Some (replicate ?N 0)" using assms(2) by (simp add: mem_write_def)
  have k: "14 + (28 + length dhcp) = 42 + length dhcp" "20 + (8 + length dhcp) = 28 + length dhcp" "14 + 20 = (34 :: nat)" "14 + 28 = (42 :: nat)"
    "\<not> ?N < 42 + length dhcp" using len N by simp_all
  have "build_dhcp_frame buf ?N mac xid t req sid nt =
      Some (int (42 + length dhcp), eth @ ip @ udp @ dhcp @ replicate (?N - (42 + length dhcp)) 0, nt2)"
    unfolding build_dhcp_frame_def
    by (simp only: c Let_def 1 2 prod.case Option.bind.bind_lunit dhcp_def [symmetric] ETH_HEADER_SIZE_def k eth_def [symmetric]
        ip_def [symmetric] udp_def [symmetric] m if_False)
  then show ?thesis using u w len by (intro exI [of _ ?a] exI [of _ ?b] exI [of _ nt2]) simp
qed

section \<open>Replies\<close>

lemma options_step:
  "n \<le> pos \<Longrightarrow> dhcp_options d n pos x = Some x"
  "pos < n \<Longrightarrow> n \<le> length d \<Longrightarrow> d ! pos = 255 \<Longrightarrow> dhcp_options d n pos x = Some x"
  "pos < n \<Longrightarrow> n \<le> length d \<Longrightarrow> d ! pos = 0 \<Longrightarrow> dhcp_options d n pos x = dhcp_options d n (pos + 1) x"
  "pos + 1 = n \<Longrightarrow> n \<le> length d \<Longrightarrow> d ! pos \<noteq> 0 \<Longrightarrow> dhcp_options d n pos x = Some x"
  "pos + 1 < n \<Longrightarrow> n \<le> length d \<Longrightarrow> d ! pos \<noteq> 0 \<Longrightarrow> d ! pos \<noteq> 255 \<Longrightarrow> n < pos + 2 + unat (d ! (pos + 1)) \<Longrightarrow>
     dhcp_options d n pos x = Some x"
  "pos + 2 + unat (d ! (pos + 1)) \<le> n \<Longrightarrow> n \<le> length d \<Longrightarrow> d ! pos \<noteq> 0 \<Longrightarrow> d ! pos \<noteq> 255 \<Longrightarrow>
     dhcp_options d n pos x = dhcp_options d n (pos + 2 + unat (d ! (pos + 1)))
       (dhcp_option (d ! pos) (take (unat (d ! (pos + 1))) (drop (pos + 2) d)) x)"
  by (simp_all add: dhcp_options.simps [of d n pos x] byte_at_def mem_read_def)

lemma option_success: "dr_success (fst (snd (dhcp_option k v x))) = dr_success (fst (snd x))"
  by (cases x) (simp add: dhcp_option_def Let_def)

lemma dhcp_options_total: "n \<le> length d \<Longrightarrow> \<exists>y. dhcp_options d n pos x = Some y \<and> dr_success (fst (snd y)) = dr_success (fst (snd x))"
proof (induction "n - pos" arbitrary: pos x rule: less_induct)
  case less
  consider "n \<le> pos" | "pos < n" "d ! pos = 255" | "pos < n" "d ! pos = 0" | "pos + 1 = n" "d ! pos \<noteq> 0"
    | "pos + 1 < n" "d ! pos \<noteq> 0" "d ! pos \<noteq> 255" "n < pos + 2 + unat (d ! (pos + 1))"
    | "pos + 2 + unat (d ! (pos + 1)) \<le> n" "d ! pos \<noteq> 0" "d ! pos \<noteq> 255" by linarith
  then show ?case
  proof cases
    case 1 then show ?thesis using options_step(1) by blast
  next
    case 2 then show ?thesis using options_step(2) [OF _ less.prems] by blast
  next
    case 3 then show ?thesis using less.hyps [of "pos + 1" x] less.prems by (simp add: options_step(3) [OF _ less.prems])
  next
    case 4 then show ?thesis using options_step(4) [OF _ less.prems] by blast
  next
    case 5 then show ?thesis using options_step(5) [OF _ less.prems] by blast
  next
    case 6
    have "n - (pos + 2 + unat (d ! (pos + 1))) < n - pos" using 6(1) by linarith
    from less.hyps [OF this less.prems] show ?thesis
      unfolding options_step(6) [OF 6(1) less.prems 6(2,3)] by (metis option_success)
  qed
qed

lemma parse_total:
  assumes "length frame = 2048" "unat n \<le> 2048"
  shows "\<exists>t r' sid'. parse_dhcp_response frame n xid mac r sid = Some (t, r', sid') \<and> dr_success r' = dr_success r"
proof (cases "unat n < 282")
  case True
  then show ?thesis by (simp add: parse_dhcp_response_def)
next
  case False
  define h where "h = unat (frame ! 14 AND 0x0F) * 4"
  have "unat (frame ! 14 AND 0x0F) < 16"
  proof -
    have "frame ! 14 AND 0x0F = take_bit 4 (frame ! 14)" by (simp add: take_bit_eq_mask mask_eq_exp_minus_1)
    then show ?thesis by (simp add: take_bit_eq_mod unat_mod)
  qed
  then have h: "h \<le> 60" by (simp add: h_def)
  let ?dl = "n - 14 - word_of_nat h - 8 :: u32"
  have hw: "unat (word_of_nat h :: u32) = h" using h by (intro unat_of_nat32) simp
  have dl: "unat ?dl = unat n - 14 - h - 8"
  proof -
    have a: "unat (n - 14) = unat n - 14" using False by (subst unat_sub) (simp_all add: word_le_nat_alt)
    then have b: "unat (n - 14 - word_of_nat h) = unat n - 14 - h" using False h hw by (subst unat_sub) (simp_all add: word_le_nat_alt)
    then show ?thesis using False h by (subst unat_sub) (simp_all add: word_le_nat_alt)
  qed
  let ?d = "drop (14 + h + 8) frame"
  have len: "unat ?dl \<le> length ?d" "236 + 4 \<le> unat ?dl \<Longrightarrow> 240 \<le> length ?d" using dl assms by simp_all
  have rd: "mem_read frame 12 2 \<noteq> None" "byte_at frame 14 = Some (frame ! 14)" "byte_at frame 23 \<noteq> None" "mem_read frame (14 + h) 4 \<noteq> None"
    using assms(1) h by (simp_all add: mem_read_def byte_at_def)
  obtain ty pr po where g: "mem_read frame 12 2 = Some ty" "byte_at frame 23 = Some pr" "mem_read frame (14 + h) 4 = Some po" using rd by auto
  show ?thesis
  proof (cases "236 + 4 \<le> unat ?dl")
    case False
    then show ?thesis using g rd(2) unfolding parse_dhcp_response_def h_def by (auto simp: Let_def)
  next
    case True
    have l: "240 \<le> length ?d" using len(2) [OF True] .
    have p0: "byte_at ?d 0 = Some (?d ! 0)" unfolding byte_at_def by (rule if_P) (use l in linarith)
    have p: "mem_read ?d 4 4 = Some (take 4 (drop 4 ?d))" "mem_read ?d 28 6 = Some (take 6 (drop 28 ?d))"
        "mem_read ?d 16 4 = Some (take 4 (drop 16 ?d))" "mem_read ?d 236 4 = Some (take 4 (drop 236 ?d))"
      using l unfolding mem_read_def by (simp_all del: length_drop drop_drop)
    obtain z where "dhcp_options ?d (unat ?dl) 240 (0, r\<lparr>dr_assigned_ip := rd32 (take 4 (drop 16 ?d))\<rparr>, sid) = Some z" "dr_success (fst (snd z)) = dr_success r"
      using dhcp_options_total [OF len(1)] by fastforce
    then show ?thesis using g rd(2) p0 p unfolding parse_dhcp_response_def h_def by (cases z) (auto simp: Let_def)
  qed
qed

section \<open>Waiting and asking\<close>

lemma dhcp_fds_safe:
  assumes "conn_inv c nt" "dhcp_fds c nt = (fds, c', nt')"
  shows "safe_to nt c' nt'"
proof (cases "\<exists>ru. cn_rudp c = Some ru \<and> cn_rudp_enabled c")
  case False
  then show ?thesis using assms safe_to_refl by (auto simp: dhcp_fds_def Let_def split: option.splits if_splits)
next
  case True
  then obtain ru where ru: "cn_rudp c = Some ru" "cn_rudp_enabled c" by blast
  obtain fd ru' nt1 where g: "rudp_get_udp_fd ru nt = (fd, ru', nt1)" by (metis prod_cases3)
  have "rudp_inv ru'" using get_fd_inv [OF _ g] assms(1) ru(1) by (simp add: conn_inv_def)
  moreover have "conn_inv c nt1" using udp_step_inv [OF get_fd_udp [OF g]] assms(1) by blast
  ultimately have "conn_inv (c\<lparr>cn_rudp := Some ru'\<rparr>) nt1" by (rule conn_inv_rudp [rotated])
  then have "safe_to nt (c\<lparr>cn_rudp := Some ru'\<rparr>) nt1" using safe_to_udp get_fd_udp [OF g] by blast
  then show ?thesis using assms(2) ru g by (simp add: dhcp_fds_def Let_def)
qed

lemma dhcp_ready_safe:
  assumes "conn_inv c nt" "dhcp_ready c nt = (p, c', nt')"
  shows "safe_to nt c' nt'"
proof (cases "0 < fr_count (cn_recv_queue c) \<or> cn_socket_fd c < 0")
  case True
  then show ?thesis using assms safe_to_refl by (auto simp: dhcp_ready_def)
next
  case False
  obtain fds c1 nt1 where f: "dhcp_fds c nt = (fds, c1, nt1)" by (metis prod_cases3)
  note s = dhcp_fds_safe [OF assms(1) f]
  obtain q nt2 where q: "net_poll nt1 = (q, nt2)" by fastforce
  have "udp_step nt1 nt2" using udp_step_basic(8) [of nt1] q by simp
  then have "safe_to nt1 c1 nt2" using safe_to_udp safe_to_inv [OF s] udp_step_inv by blast
  then have "safe_to nt c1 nt2" using safe_to_trans [OF s] by blast
  then show ?thesis using assms(2) False f q s by (auto simp: dhcp_ready_def split: if_splits)
qed

lemma receive_raw_bound:
  assumes "softether_receive_raw L c (Some b) 2048 nt = Some (r, fr, Some l, c', nt')"
  shows "unat l \<le> 2048"
proof -
  have "l = 0 \<or> \<not> 2048 < l"
    using assms by (auto simp: softether_receive_raw_def bind_eq_Some_conv split: if_splits)
  then show ?thesis by (auto simp: word_less_nat_alt)
qed

lemma wait_safe:
  assumes L: "lib_ok L"
  shows "conn_inv c nt \<Longrightarrow> length frame = 2048 \<Longrightarrow>
     \<exists>t r' sid' c' nt'. wait_dhcp_response k L xid timeout elapsed frame r sid c nt = Some (t, r', sid', c', nt') \<and> safe_to nt c' nt' \<and> dr_success r' = dr_success r"
proof (induction k arbitrary: elapsed frame r sid c nt)
  case 0
  then show ?case by (auto simp: safe_to_refl)
next
  case (Suc k)
  show ?case
  proof (cases "elapsed < timeout")
    case False
    then show ?thesis using safe_to_refl [OF Suc.prems(1)] by auto
  next
    case True
    obtain p c1 nt1 where p: "dhcp_ready c nt = (p, c1, nt1)" by (metis prod_cases3)
    note s1 = dhcp_ready_safe [OF Suc.prems(1) p]
    show ?thesis
    proof (cases p)
      case Poll_failed
      then show ?thesis using True p s1 by simp
    next
      case Nothing_yet
      then show ?thesis using Suc.IH [OF safe_to_inv [OF s1] Suc.prems(2), of "elapsed + 100" r sid] safe_to_trans [OF s1] True p by fastforce
    next
      case Receive_now
      have "MAX_QUEUED_FRAME \<le> length frame" using Suc.prems(2) by (simp add: conn_sizes)
      from receive_raw_safe [OF L safe_to_inv [OF s1] this] obtain ret f l c2 nt2 where
        v: "softether_receive_raw L c1 (Some frame) 2048 nt1 = Some (ret, Some f, l, c2, nt2)" "safe_to nt1 c2 nt2" "length f = length frame" by blast
      have s2: "safe_to nt c2 nt2" using safe_to_trans [OF s1 v(2)] .
      let ?n = "case l of None \<Rightarrow> 0 | Some x \<Rightarrow> x"
      have n: "unat ?n \<le> 2048" using receive_raw_bound v(1) by (cases l) auto
      have f: "length f = 2048" using v(3) Suc.prems(2) by simp
      obtain t r1 sid1 where q: "parse_dhcp_response f ?n xid (arr 6 (cn_client_mac c2)) r sid = Some (t, r1, sid1)" "dr_success r1 = dr_success r"
        using parse_total [OF f n] by blast
      have IH: "\<exists>t r' sid' c' nt'. wait_dhcp_response k L xid timeout e f r0 sid0 c2 nt2 = Some (t, r', sid', c', nt') \<and> safe_to nt c' nt' \<and> dr_success r' = dr_success r0" for e r0 sid0
        using Suc.IH [OF safe_to_inv [OF v(2)] f, of e r0 sid0] safe_to_trans [OF s2] by blast
      show ?thesis using IH [of "elapsed + 100" r sid] IH [of elapsed r1 sid1] True p Receive_now v(1) q s2
        by (simp add: Let_def del: not_None_eq)
    qed
  qed
qed

lemma ask_safe:
  assumes L: "lib_ok L" "zbound_ok zb" and inv: "conn_inv c nt"
  shows "\<exists>t r' sid' c' nt'. dhcp_ask k L zb g xid ty req s r sid c nt = Some (t, r', sid', c', nt') \<and> safe_to nt c' nt' \<and> dr_success r' = dr_success r"
proof -
  have m: "length (arr 6 (cn_client_mac c)) = 6" "length (map g [0..<DHCP_MAX_FRAME]) = DHCP_MAX_FRAME" by simp_all
  obtain a b nt1 where B: "build_dhcp_frame (map g [0..<DHCP_MAX_FRAME]) DHCP_MAX_FRAME (arr 6 (cn_client_mac c)) xid ty req s nt =
      Some (int (length (dhcp_frame (arr 6 (cn_client_mac c)) xid ty req s a b)), dhcp_frame (arr 6 (cn_client_mac c)) xid ty req s a b @
        replicate (DHCP_MAX_FRAME - length (dhcp_frame (arr 6 (cn_client_mac c)) xid ty req s a b)) 0, nt1)" "udp_step nt nt1"
    using dhcp_build_ok [OF m] by metis
  define w where "w = dhcp_frame (arr 6 (cn_client_mac c)) xid ty req s a b"
  have w: "length w < 2 ^ 31" using dhcp_frame_length [OF m(1)] dhcp_payload_length [OF m(1)] by (simp add: w_def)
  have rd: "mem_read (w @ z) 0 (nat (int (length w))) = Some w" for z by (simp add: mem_read_def)
  have i1: "conn_inv c nt1" "safe_to nt c nt1" using udp_step_inv [OF B(2)] inv safe_to_udp B(2) by blast+
  obtain q c2 nt2 where snd: "softether_send_raw L zb c (Some w) (length w) nt1 = Some (q, c2, nt2)" "safe_to nt1 c2 nt2"
    using send_raw_safe [OF L i1(1) w] by blast
  have s2: "safe_to nt c2 nt2" using safe_to_trans [OF i1(2) snd(2)] .
  obtain t r' sid' c3 nt3 where v: "wait_dhcp_response k L xid DHCP_TIMEOUT_MS 0 (map g [0..<2048]) r sid c2 nt2 = Some (t, r', sid', c3, nt3)"
      "safe_to nt2 c3 nt3" "dr_success r' = dr_success r"
    using wait_safe [OF L(1) safe_to_inv [OF s2], of "map g [0..<2048]"] by fastforce
  show ?thesis using B(1) [folded w_def] rd snd(1) s2 v(1,3) safe_to_trans [OF s2 v(2)] by (simp add: dhcp_ask_def)
qed

lemma gratuitous_safe:
  assumes L: "lib_ok L" "zbound_ok zb" and inv: "conn_inv c nt"
  shows "\<exists>c' nt'. send_gratuitous_arp L zb c ip nt = Some (c', nt') \<and> safe_to nt c' nt'"
proof -
  let ?f = "arp_frame (replicate 6 0xFF) (arr 6 (cn_client_mac c)) 1 (arr 6 (cn_client_mac c)) ip (replicate 6 0) (be32 ip)"
  have "length ?f = 42" by (intro arp_frame_length) (simp_all add: c32.enc_length)
  then show ?thesis using send_raw_safe [OF L inv, of ?f] safe_to_refl [OF inv] by (auto simp: send_gratuitous_arp_def)
qed

definition dhcp_verdict :: "int option \<Rightarrow> dhcp_result \<Rightarrow> bool" where
  "dhcp_verdict t r \<longleftrightarrow> (t = Some 0 \<and> dr_success r \<or> (t = None \<or> t = Some (-1)) \<and> \<not> dr_success r)"

lemma attempts_safe:
  assumes L: "lib_ok L" "zbound_ok zb"
  shows "conn_inv c nt \<Longrightarrow> \<not> dr_success r \<Longrightarrow> \<exists>t r' c' nt'. dhcp_attempts n k L zb g xid r sid c nt = Some (t, r', c', nt') \<and> safe_to nt c' nt' \<and> dhcp_verdict t r'"
proof (induction n arbitrary: r sid c nt)
  case 0
  then show ?case by (auto simp: safe_to_refl dhcp_verdict_def)
next
  case (Suc n)
  obtain t1 r1 s1 c1 nt1 where 1: "dhcp_ask k L zb g xid DHCP_DISCOVER 0 0 r sid c nt = Some (t1, r1, s1, c1, nt1)" "safe_to nt c1 nt1" "\<not> dr_success r1"
    using ask_safe [OF L Suc.prems(1)] Suc.prems(2) by blast
  note i1 = safe_to_inv [OF 1(2)]
  obtain t2 r2 s2 c2 nt2 where 2: "dhcp_ask k L zb g xid DHCP_REQUEST (dr_assigned_ip r1) s1 r1 s1 c1 nt1 = Some (t2, r2, s2, c2, nt2)" "safe_to nt1 c2 nt2" "\<not> dr_success r2"
    using ask_safe [OF L i1] 1(3) by blast
  note i2 = safe_to_inv [OF 2(2)]
  have s2: "safe_to nt c2 nt2" using safe_to_trans [OF 1(2) 2(2)] .
  have a: "\<exists>t r' c' nt'. dhcp_attempts n k L zb g xid r1 s1 c1 nt1 = Some (t, r', c', nt') \<and> safe_to nt c' nt' \<and> dhcp_verdict t r'"
    using Suc.IH [OF i1 1(3)] safe_to_trans [OF 1(2)] by blast
  have b: "\<exists>t r' c' nt'. dhcp_attempts n k L zb g xid r2 s2 c2 nt2 = Some (t, r', c', nt') \<and> safe_to nt c' nt' \<and> dhcp_verdict t r'"
    using Suc.IH [OF i2 2(3)] safe_to_trans [OF s2] by blast
  obtain c3 nt3 where e: "send_gratuitous_arp L zb c2 (dr_assigned_ip r2) nt2 = Some (c3, nt3)" "safe_to nt2 c3 nt3"
    using gratuitous_safe [OF L i2] by blast
  show ?case
  proof (cases "cn_abort_connect c \<or> t1 = None \<or> the t1 < 0 \<or> the t1 \<noteq> DHCP_OFFER")
    case True
    then show ?thesis using 1 a safe_to_refl [OF Suc.prems(1)] Suc.prems(2) by (cases t1) (auto simp: dhcp_verdict_def)
  next
    case False
    then have o: "\<not> cn_abort_connect c" "t1 = Some DHCP_OFFER" "\<not> DHCP_OFFER < 0" by auto
    show ?thesis
    proof (cases "t2 = None \<or> the t2 \<noteq> DHCP_ACK")
      case True
      then show ?thesis using o 1(1) 2(1,3) b s2 by (cases t2) (auto simp: dhcp_verdict_def)
    next
      case False
      then have "t2 = Some DHCP_ACK" by auto
      then show ?thesis using o 1(1) 2(1) e safe_to_trans [OF s2 e(2)] by (simp add: DHCP_ACK_def dhcp_verdict_def)
    qed
  qed
qed

lemma dhcp_zero_success: "\<not> dr_success dhcp_zero"
  by (simp add: dhcp_zero_def)

lemma do_dhcp_safe:
  assumes L: "lib_ok L" "zbound_ok zb" and inv: "conn_inv c nt" and up: "cn_state c = STATE_CONNECTED"
  shows "\<exists>t r' c' nt'. softether_do_dhcp k L zb g c r nt = Some (t, r', c', nt') \<and> safe_to nt c' nt' \<and> dhcp_verdict t r'"
proof -
  obtain a nt1 where 1: "c_rand nt = (a, nt1)" by fastforce
  obtain b nt2 where 2: "c_rand nt1 = (b, nt2)" by fastforce
  have "udp_step nt nt2" using 1 2 by (auto simp: c_rand_def udp_step_def)
  then have s: "safe_to nt c nt2" using safe_to_udp udp_step_inv inv by blast
  let ?xid = "push_bit 16 (word_of_nat a) XOR word_of_nat b :: u32"
  obtain t r' c' nt' where d: "dhcp_attempts DHCP_MAX_RETRIES k L zb g ?xid dhcp_zero 0 c nt2 = Some (t, r', c', nt')" "safe_to nt2 c' nt'" "dhcp_verdict t r'"
    using attempts_safe [OF L safe_to_inv [OF s], of dhcp_zero] dhcp_zero_success by blast
  then show ?thesis using up 1 2 safe_to_trans [OF s d(2)] by (simp add: softether_do_dhcp_def)
qed

section \<open>Silence\<close>

text \<open>Nothing is queued and nothing will arrive.\<close>

definition silent :: "softether_connection \<Rightarrow> net \<Rightarrow> bool" where
  "silent c nt \<longleftrightarrow> fr_count (cn_recv_queue c) = 0 \<and> 0 \<le> cn_socket_fd c \<and> nt_poll nt = []"

lemma silent_ready:
  assumes "silent c nt"
  shows "\<exists>c' nt'. dhcp_ready c nt = (Nothing_yet, c', nt') \<and> silent c' nt'"
proof -
  obtain fds c1 nt1 where f: "dhcp_fds c nt = (fds, c1, nt1)" by (metis prod_cases3)
  have "nt_poll (snd (snd (rudp_get_udp_fd ru nt))) = nt_poll nt" for ru
    by (auto simp: rudp_get_udp_fd_def rudp_ref_release_def rudp_destroy_final_def net_close_def Let_def case_prod_beta split: option.splits)
  then have "silent c1 nt1" using f assms
    by (auto simp: silent_def dhcp_fds_def Let_def case_prod_beta split: option.splits if_splits)
  then show ?thesis using f assms by (auto simp: dhcp_ready_def silent_def net_poll_def)
qed

lemma wait_silent:
  "silent c nt \<Longrightarrow> timeout - elapsed \<le> 100 * int k \<Longrightarrow>
     \<exists>c' nt'. wait_dhcp_response (Suc k) L xid timeout elapsed frame r sid c nt = Some (Some 0, r, sid, c', nt') \<and> silent c' nt'"
proof (induction k arbitrary: elapsed c nt)
  case 0
  then show ?case by auto
next
  case (Suc k)
  obtain c1 nt1 where p: "dhcp_ready c nt = (Nothing_yet, c1, nt1)" "silent c1 nt1" using silent_ready [OF Suc.prems(1)] by blast
  have "timeout - (elapsed + 100) \<le> 100 * int k" using Suc.prems(2) by simp
  from Suc.IH [OF p(2) this] obtain c2 nt2 where
    w: "wait_dhcp_response (Suc k) L xid timeout (elapsed + 100) frame r sid c1 nt1 = Some (Some 0, r, sid, c2, nt2)" "silent c2 nt2" by blast
  show ?case
  proof (cases "elapsed < timeout")
    case True
    then show ?thesis using p(1) w by (subst wait_dhcp_response.simps) (simp del: wait_dhcp_response.simps)
  next
    case False
    then show ?thesis using Suc.prems(1) by auto
  qed
qed

end
