(* ===== verification/Packet_Props.thy ===== *)
theory Packet_Props
  imports Packet_Run "HOL-Library.Multiset"
begin

text \<open>
  The properties of the packet layer: failover, the invariant over any sequence of operations, fairness of
  the choice of links, keepalives, and what happens when a reader and a writer retire the same link.
\<close>

section \<open>The example connection is well-formed\<close>

lemma demo_slots: "i < MAX_SE_CONNECTIONS \<Longrightarrow> cn_additional demo_conn ! i = (if i = 0 then demo_slot else idle_slot)"
  by (simp add: demo_conn_def nth_Cons' conn_sizes)

lemma demo_inv_any: "conn_inv demo_conn (demo_world [] s)"
proof -
  let ?nt = "demo_world [] s"
  have al: "tls_alive x ?nt" for x by (simp add: tls_alive_def demo_world_def)
  have "slot_ok (cn_additional demo_conn ! i) ?nt" if "i < MAX_SE_CONNECTIONS" for i
    using that by (simp add: demo_slots slot_ok_def al) (simp add: demo_slot_def idle_slot_def)
  moreover have "own_contexts demo_conn"
    unfolding own_contexts_def by (simp add: demo_slots) (simp add: demo_slot_def idle_slot_def demo_conn_def)
  moreover have "length (cn_additional demo_conn) = MAX_SE_CONNECTIONS"
    "cn_num_additional demo_conn = int (length (filter ts_active (cn_additional demo_conn)))"
    by (simp_all add: demo_conn_def conn_sizes demo_slot_def idle_slot_def)
  ultimately have "links_inv demo_conn ?nt" using al by (simp add: links_inv_def)
  then show ?thesis by (simp add: conn_inv_def) (simp add: demo_conn_def)
qed

lemma demo_inv: "conn_inv demo_conn (demo_world [] (Some s))"
  by (rule demo_inv_any)

definition demo_zbound :: "u32 \<Rightarrow> u32" where
  "demo_zbound n = (if unat n < 2 ^ 31 then n + 64 else n)"

lemma demo_zbound_ok: "zbound_ok demo_zbound"
  unfolding zbound_ok_def
proof (intro allI impI)
  fix n :: u32 assume n: "unat n < 2 ^ 31"
  then have "unat (n + 64) = unat n + 64" by (simp add: unat_word_ariths)
  then show "unat (demo_zbound n) < 2 ^ 32 - 8" using n by (simp add: demo_zbound_def)
qed

section \<open>Failover\<close>

definition may_send :: "nat \<Rightarrow> softether_connection \<Rightarrow> net \<Rightarrow> bool" where
  "may_send k c nt \<longleftrightarrow> k \<in> set (send_candidates c) \<and> socket_healthy k c nt"



section \<open>Sequences of operations\<close>

datatype conn_op = Op_transmit "byte list" | Op_send u16 "byte list" | Op_keepalive | Op_keepalive_all | Op_fill

fun conn_step :: "rudp_lib \<Rightarrow> (u32 \<Rightarrow> u32) \<Rightarrow> conn_op \<Rightarrow> softether_connection \<Rightarrow> net \<Rightarrow> (int \<times> softether_connection \<times> net) option" where
  "conn_step L zb (Op_transmit b) c nt = softether_transmit_block c (Some b) (word_of_nat (length b)) nt"
| "conn_step L zb (Op_send cmd d) c nt = softether_send_packet L zb c cmd (Some d) (word_of_nat (length d)) nt"
| "conn_step L zb Op_keepalive c nt = do { (r, nt) \<leftarrow> softether_send_keepalive c nt; Some (r, c, nt) }"
| "conn_step L zb Op_keepalive_all c nt = softether_send_keepalive_all c nt"
| "conn_step L zb Op_fill c nt = softether_fill_recv_queue L c nt"

fun conn_run :: "rudp_lib \<Rightarrow> (u32 \<Rightarrow> u32) \<Rightarrow> conn_op list \<Rightarrow> softether_connection \<Rightarrow> net \<Rightarrow> (int list \<times> softether_connection \<times> net) option" where
  "conn_run L zb [] c nt = Some ([], c, nt)"
| "conn_run L zb (op # ops) c nt =
     do { (r, c, nt) \<leftarrow> conn_step L zb op c nt; (rs, c, nt) \<leftarrow> conn_run L zb ops c nt; Some (r # rs, c, nt) }"

fun op_ok :: "conn_op \<Rightarrow> bool" where
  "op_ok (Op_transmit b) = (length b < 2 ^ 32)"
| "op_ok (Op_send cmd d) = (length d < 2 ^ 31)"
| "op_ok Op_keepalive = True"
| "op_ok Op_keepalive_all = True"
| "op_ok Op_fill = True"

lemma conn_step_ok:
  assumes "lib_ok L" "zbound_ok zb" "op_ok op" "conn_inv c nt"
  shows "\<exists>r c' nt'. conn_step L zb op c nt = Some (r, c', nt') \<and> conn_inv c' nt' \<and> lock_seg 0 nt nt'"
proof (cases op)
  case (Op_transmit b)
  then have "unat (word_of_nat (length b) :: u32) \<le> length b" using assms(3) by (simp add: unat_of_nat32)
  from transmit_ok [OF assms(4) this] show ?thesis using Op_transmit by (auto simp: top_ok_def)
next
  case (Op_send cmd d)
  then show ?thesis using send_packet_safe [OF assms(1,2) _ assms(4), of d cmd] assms(3) by (auto simp: top_ok_def)
next
  case Op_keepalive
  obtain r nt' where k: "softether_send_keepalive c nt = Some (r, nt')" "io_step 2 (cn_ssl c) nt nt'" using send_keepalive_io [OF assms(4)] by blast
  then show ?thesis using Op_keepalive top_step [OF step_ok_io [OF assms(4) k(2)]] by (simp add: top_ok_def)
next
  case Op_keepalive_all
  obtain r c' nt' where "softether_send_keepalive_all c nt = Some (r, c', nt')" "step_ok nt c' nt'"
    using keepalive_all_ok [OF assms(4)] by (auto simp: call_ok_def)
  then show ?thesis using Op_keepalive_all top_step [of nt c' nt'] by (simp add: top_ok_def)
next
  case Op_fill
  then show ?thesis using fill_recv_queue_ok [OF assms(1,4)] by (auto simp: top_ok_def)
qed

text \<open>
  Safety of the packet layer. From a well-formed connection, any sequence of transmissions, packets,
  keepalives and receive passes, against any behaviour of the network, the peer, the memory allocator and
  UDP acceleration, stays inside the staging buffer, the receive queue and the slots, never uses a freed
  TLS context, and leaves a well-formed connection whose link counter is the number of active slots. All
  locks are taken in the documented order and released, and TLS objects are used only under their lock.
\<close>

theorem conn_run_invariant:
  assumes "lib_ok L" "zbound_ok zb" "list_all op_ok ops" "conn_inv c nt"
  shows "\<exists>rs c' nt'. conn_run L zb ops c nt = Some (rs, c', nt') \<and> length rs = length ops \<and> conn_inv c' nt' \<and>
     lock_seg 0 nt nt' \<and> cn_num_additional c' = int (length (filter ts_active (cn_additional c')))"
  using assms(3,4)
proof (induction ops arbitrary: c nt)
  case Nil
  then show ?case by (simp add: conn_inv_def links_inv_def)
next
  case (Cons op ops)
  have op: "op_ok op" "list_all op_ok ops" using Cons.prems(1) by simp_all
  obtain r c1 nt1 where s: "conn_step L zb op c nt = Some (r, c1, nt1)" "conn_inv c1 nt1" "lock_seg 0 nt nt1"
    using conn_step_ok [OF assms(1,2) op(1) Cons.prems(2)] by blast
  obtain rs c' nt' where r: "conn_run L zb ops c1 nt1 = Some (rs, c', nt')" "length rs = length ops" "conn_inv c' nt'"
    "lock_seg 0 nt1 nt'" "cn_num_additional c' = int (length (filter ts_active (cn_additional c')))"
    using Cons.IH [OF op(2) s(2)] by blast
  show ?case
    by (rule exI [of _ "r # rs"], rule exI [of _ c'], rule exI [of _ nt'])
      (use s r lock_seg_trans [OF s(3) r(4)] in \<open>simp del: conn_step.simps\<close>)
qed

theorem conn_run_invariant_witness:
  "\<exists>rs c' nt'. conn_run demo_lib demo_zbound
       [Op_transmit (replicate 9 0), Op_send CMD_DATA [1, 2], Op_fill] demo_conn (demo_world [] (Some (demo_stream []))) = Some (rs, c', nt') \<and>
     length rs = 3 \<and> conn_inv c' nt'"
  using conn_run_invariant [OF demo_lib_ok(1) demo_zbound_ok _ demo_inv [of "demo_stream []"],
      of "[Op_transmit (replicate 9 0), Op_send CMD_DATA [1, 2], Op_fill]"] by fastforce

section \<open>Fairness\<close>

fun select_many :: "nat \<Rightarrow> softether_connection \<Rightarrow> (nat list \<times> softether_connection) option" where
  "select_many 0 c = Some ([], c)"
| "select_many (Suc n) c =
     do { (k, c) \<leftarrow> softether_select_send_socket c; (ks, c) \<leftarrow> select_many n c; Some (k # ks, c) }"

lemma candidates_rr [simp]: "send_candidates (c\<lparr>cn_send_rr_idx := i\<rparr>) = send_candidates c"
  by (simp add: send_candidates_def primary_sends_def)

lemma select_at:
  assumes "send_candidates c = cs" "cs \<noteq> []" "0 \<le> cn_send_rr_idx c"
  shows "softether_select_send_socket c =
     Some (cs ! (nat (cn_send_rr_idx c) mod length cs), c\<lparr>cn_send_rr_idx := (cn_send_rr_idx c + 1) mod int (length cs)\<rparr>)"
proof -
  have n: "0 \<le> cn_send_rr_idx c mod int (length cs)" using assms(2) by simp
  then have "\<not> cn_send_rr_idx c mod int (length cs) < 0" by linarith
  moreover have "nat (cn_send_rr_idx c mod int (length cs)) = nat (cn_send_rr_idx c) mod length cs"
    using assms(3) by (simp add: nat_mod_distrib)
  ultimately show ?thesis
    unfolding softether_select_send_socket_def Let_def assms(1) using assms(2,3) by (simp only: if_True if_False) simp
qed

lemma select_many_nth:
  "send_candidates c = cs \<Longrightarrow> cs \<noteq> [] \<Longrightarrow> 0 \<le> cn_send_rr_idx c \<Longrightarrow>
     \<exists>c'. select_many n c = Some (map (\<lambda>i. cs ! ((nat (cn_send_rr_idx c) + i) mod length cs)) [0..<n], c')"
proof (induction n arbitrary: c)
  case (Suc n)
  let ?i = "cn_send_rr_idx c"
  let ?c = "c\<lparr>cn_send_rr_idx := (?i + 1) mod int (length cs)\<rparr>"
  have p: "0 \<le> (?i + 1) mod int (length cs)" using Suc.prems(2) by simp
  obtain c' where c': "select_many n ?c =
      Some (map (\<lambda>j. cs ! ((nat ((?i + 1) mod int (length cs)) + j) mod length cs)) [0..<n], c')"
    using Suc.IH [of ?c] Suc.prems p by auto
  have m: "nat ((?i + 1) mod int (length cs)) = (nat ?i + 1) mod length cs"
    using Suc.prems(3) by (simp add: nat_mod_distrib nat_add_distrib)
  have "(nat ((?i + 1) mod int (length cs)) + j) mod length cs = (nat ?i + Suc j) mod length cs" for j
    unfolding m by (simp add: mod_simps)
  then show ?case using select_at [OF Suc.prems] c'
    by (simp add: map_upt_Suc del: upt_Suc)
qed simp

text \<open>
  Fair use of the links. As long as the set of links that may send does not change, selecting a link once
  per such link returns each of them exactly once, starting where the last selection stopped.
\<close>

theorem select_round_robin:
  assumes "send_candidates c \<noteq> []" "0 \<le> cn_send_rr_idx c"
  shows "\<exists>ks c'. select_many (length (send_candidates c)) c = Some (ks, c') \<and>
     ks = rotate (nat (cn_send_rr_idx c)) (send_candidates c) \<and> mset ks = mset (send_candidates c)"
proof -
  let ?cs = "send_candidates c" let ?i = "nat (cn_send_rr_idx c)"
  obtain c' where s: "select_many (length ?cs) c = Some (map (\<lambda>i. ?cs ! ((?i + i) mod length ?cs)) [0..<length ?cs], c')"
    using select_many_nth [OF refl assms] by blast
  have "map (\<lambda>i. ?cs ! ((?i + i) mod length ?cs)) [0..<length ?cs] = rotate ?i ?cs"
    by (rule nth_equalityI) (simp_all add: nth_rotate add.commute)
  moreover have "mset (rotate1 xs) = mset xs" for xs :: "nat list" by (cases xs) simp_all
  then have "mset ((rotate1 ^^ n) xs) = mset xs" for n and xs :: "nat list" by (induction n) simp_all
  then have "mset (rotate ?i ?cs) = mset ?cs" by (simp add: rotate_def)
  ultimately show ?thesis using s by auto
qed

theorem select_round_robin_witness:
  "\<exists>c'. select_many 2 demo_conn = Some ([1, 0], c')"
proof -
  have c: "send_candidates demo_conn = [0, 1]"
    by (simp add: send_candidates_def conn_sizes upt_rec demo_conn_def demo_slot_def idle_slot_def slot_sends_def
        can_send_def primary_sends_def TCP_DIRECTION_BOTH_def)
  show ?thesis using select_round_robin [of demo_conn] unfolding c by (auto simp: demo_conn_def numeral_2_eq_2)
qed

section \<open>Keepalives\<close>

lemma keepalive_interval_value:
  "unat (keepalive_interval t) = (let s = (if t = 0 then 30000 else unat t) in max 2000 (min 12000 (s div 3)))"
  by (simp add: keepalive_interval_def Let_def word_less_nat_alt unat_div max_def min_def)

text \<open>
  The keepalive timer. On an established connection the first call starts the timer, a call before the
  scheduled time does nothing, and a call after it schedules the next round a third of the server's timeout
  later, limited to between 2 and 12 seconds (30 seconds count as timeout if the server named none); so three
  rounds fit into the server's timeout exactly if that is 6 seconds or more.
\<close>

theorem keepalive_schedule:
  assumes inv: "conn_inv c nt" and up: "cn_state c = STATE_CONNECTED" "cn_ssl c \<noteq> None"
    and now: "softether_tick_ms nt = (now, nt1)"
  shows "\<exists>c' nt'. softether_send_keepalive_all c nt = Some (0, c', nt') \<and>
     (cn_next_tcp_keepalive_time c = 0 \<longrightarrow> cn_next_tcp_keepalive_time c' = now \<and> nt' = nt1) \<and>
     (now < cn_next_tcp_keepalive_time c \<longrightarrow> c' = c \<and> nt' = nt1) \<and>
     (0 < cn_next_tcp_keepalive_time c \<and> cn_next_tcp_keepalive_time c \<le> now \<longrightarrow>
        cn_next_tcp_keepalive_time c' = now + ucast (keepalive_interval (cn_server_timeout c))) \<and>
     (let s = (if cn_server_timeout c = 0 then 30000 else unat (cn_server_timeout c));
          i = unat (keepalive_interval (cn_server_timeout c))
      in 2000 \<le> i \<and> i \<le> 12000 \<and> (3 * i \<le> s \<longleftrightarrow> 6000 \<le> s))"
proof -
  let ?T = "cn_next_tcp_keepalive_time c"
  let ?c = "c\<lparr>cn_next_tcp_keepalive_time := now + ucast (keepalive_interval (cn_server_timeout c))\<rparr>"
  obtain r c' nt' where k: "softether_send_keepalive_all c nt = Some (r, c', nt')"
    using keepalive_all_ok [OF inv] by auto
  have n: "\<not> (cn_ssl c = None \<or> cn_state c \<noteq> STATE_CONNECTED)" using up by simp
  have e: "softether_send_keepalive_all c nt =
      (if ?T = 0 then Some (0, c\<lparr>cn_next_tcp_keepalive_time := now\<rparr>, nt1) else if now < ?T then Some (0, c, nt1)
       else do { nt \<leftarrow> (if primary_sends ?c then map_option snd (softether_send_keepalive_sock ?c (cn_ssl ?c) (cn_socket_fd ?c) nt1) else Some nt1);
                 nt \<leftarrow> keepalive_slots ?c (cn_additional ?c) nt; Some (0, ?c, nt) })"
    unfolding softether_send_keepalive_all_def now Let_def prod.case using n by (simp only: if_False)
  have first: "r = 0 \<and> cn_next_tcp_keepalive_time c' = now \<and> nt' = nt1" if "?T = 0"
    using k unfolding e if_P [OF that] by auto
  have early: "r = 0 \<and> c' = c \<and> nt' = nt1" if "?T \<noteq> 0" "now < ?T"
    using k unfolding e if_not_P [OF that(1)] if_P [OF that(2)] by simp
  have due: "r = 0 \<and> c' = ?c" if "?T \<noteq> 0" "\<not> now < ?T"
    using k unfolding e if_not_P [OF that(1)] if_not_P [OF that(2)] bind_eq_Some_conv by blast
  have "r = 0" using first early due by blast
  moreover have "now < ?T \<longrightarrow> c' = c \<and> nt' = nt1" using early by (metis word_not_simps(1))
  moreover have "0 < ?T \<and> ?T \<le> now \<longrightarrow> cn_next_tcp_keepalive_time c' = cn_next_tcp_keepalive_time ?c"
    using due leD less_irrefl by metis
  moreover have "2000 \<le> i \<and> i \<le> 12000 \<and> (3 * i \<le> s \<longleftrightarrow> 6000 \<le> s)" if "i = max 2000 (min 12000 (s div 3))" for s i :: nat
    using that unfolding max_def min_def by (auto split: if_splits)
  ultimately show ?thesis using k first unfolding Let_def keepalive_interval_value
    by (intro exI [of _ c'] exI [of _ nt']) simp
qed

theorem keepalive_schedule_witness:
  "\<exists>c' nt'. softether_send_keepalive_all (demo_conn\<lparr>cn_next_tcp_keepalive_time := 5\<rparr>)
       ((demo_world [] (Some (demo_stream [])))\<lparr>nt_ticks := 100\<rparr>) = Some (0, c', nt') \<and> cn_next_tcp_keepalive_time c' = 10100"
proof -
  let ?nt = "(demo_world [] (Some (demo_stream [])))\<lparr>nt_ticks := 100\<rparr>" let ?c = "demo_conn\<lparr>cn_next_tcp_keepalive_time := 5\<rparr>"
  have i: "conn_inv ?c ?nt" using demo_inv conn_inv_tls [of ?nt "demo_world [] (Some (demo_stream []))"] by simp
  have t: "softether_tick_ms ?nt = (100, ?nt\<lparr>nt_ticks := 101\<rparr>)" by (simp add: softether_tick_ms_def demo_world_def)
  have k: "cn_state ?c = STATE_CONNECTED" "cn_ssl ?c \<noteq> None" "cn_server_timeout ?c = 30000" by (simp_all add: demo_conn_def)
  have "keepalive_interval 30000 = 10000" by (simp add: keepalive_interval_def)
  then show ?thesis using keepalive_schedule [OF i k(1,2) t] k(3) by auto
qed

lemma link_input: "link_ok c s f nt \<Longrightarrow> same_input nt nt' \<Longrightarrow> link_ok c s f nt' \<and> link_avail c s f nt' = link_avail c s f nt"
  by (auto simp: link_ok_def link_avail_def same_input_def)



section \<open>A reader and a writer retire the same link\<close>

lemma retired_unresolved:
  assumes inv: "conn_inv c nt" and i: "i < MAX_SE_CONNECTIONS" and act: "ts_active (cn_additional c ! i)"
  shows "link_io_resolve (retire_conn i c) (ts_ssl (cn_additional c ! i)) fd = None"
proof -
  have "slot_ok (cn_additional c ! i) nt" using inv i unfolding conn_inv_def links_inv_def by blast
  then obtain x where x: "ts_ssl (cn_additional c ! i) = Some x" using act by (auto simp: slot_ok_def)
  have len: "length (cn_additional c) = MAX_SE_CONNECTIONS" using conn_inv_alive(3) [OF inv] .
  have "cn_ssl c \<noteq> Some x" using links_apart(1) [OF inv, of "Suc i" 0 x] i x by (simp add: link_of_def)
  moreover have "ts_ssl (cn_additional (retire_conn i c) ! j) \<noteq> Some x" if "j < MAX_SE_CONNECTIONS" for j
  proof (cases "j = i")
    case True then show ?thesis using i len by (simp add: retire_conn_def retired_def)
  next
    case False
    then show ?thesis using links_apart(1) [OF inv, of "Suc i" "Suc j" x] i that x by (simp add: link_of_def retire_conn_def)
  qed
  ultimately show ?thesis unfolding link_io_resolve_def x by (auto simp: find_None_iff)
qed

lemma retire_again:
  assumes i: "i < length (cn_additional c)" and r: "cn_additional c ! i = retired ts"
  shows "retire_socket i c nt = Some (c, nt)"
proof -
  have l: "(cn_additional c)[i := cn_additional c ! i] = cn_additional c" by simp
  show ?thesis
    unfolding retire_socket_def Let_def r using l
    by (simp add: retired_def r take_ssl_ctx_slot_def ssl_shutdown_def ssl_destroy_def)
qed

text \<open>
  The link counter under a race. If the writer's failover retires an additional link after the receive pass
  has selected it and before the receive pass reads from it, the read fails and the receive pass retires the
  slot a second time without comparing it with the link it had selected: the counter \<open>num_additional\<close> is
  decremented twice and is then one less than the number of active links.
\<close>

theorem double_retire:
  assumes inv: "conn_inv c nt" and i: "i < MAX_SE_CONNECTIONS" and act: "ts_active (cn_additional c ! i)" and ssl: "cn_use_ssl_data c"
  shows "\<exists>c1 nt1 c2 nt2. retire_socket i c nt = Some (c1, nt1) \<and>
     read_message L (slot_info c i) (c1\<lparr>cn_num_additional := cn_num_additional c1 - 1\<rparr>) nt1 = Some (0, c2, nt2) \<and>
     cn_num_additional c2 = int (length (filter ts_active (cn_additional c2))) - 1"
proof -
  let ?sel = "slot_info c i" let ?c = "retire_conn i c"
  obtain c1 nt1 where r: "retire_socket i c nt = Some (c1, nt1)" "c1\<lparr>cn_num_additional := cn_num_additional c1 - 1\<rparr> = ?c"
    "conn_inv ?c nt1" using retire_socket_ok [OF inv i act] by blast
  have un: "link_io_resolve ?c (ti_ssl ?sel) (ti_fd ?sel) = None"
    using retired_unresolved [OF inv i act] by (simp add: slot_info_def)
  have rd: "read_uint32_sock ?c (ti_ssl ?sel) (ti_fd ?sel) nt1 = Some (None, nt1)"
    using un ssl by (simp add: read_uint32_sock_def data_read_all_sock_def)
  have len: "i < length (cn_additional ?c)" "cn_additional ?c ! i = retired (cn_additional c ! i)"
    using conn_inv_alive(3) [OF inv] i by (simp_all add: retire_conn_def)
  let ?nt = "net_ev (Unlock (L_io (int i))) (net_ev (Lock (L_io (int i))) nt1)"
  have "close_failed_additional ?sel ?c nt1 = Some (0, ?c\<lparr>cn_num_additional := cn_num_additional ?c - 1\<rparr>, ?nt)"
    using retire_again [OF len] by (simp add: close_failed_additional_def slot_info_def)
  then have "read_message L ?sel ?c nt1 = Some (0, ?c\<lparr>cn_num_additional := cn_num_additional ?c - 1\<rparr>, ?nt)"
    using rd by (simp add: read_message_def)
  moreover have "cn_num_additional ?c = int (length (filter ts_active (cn_additional ?c)))"
    using r(3) by (simp add: conn_inv_def links_inv_def)
  ultimately show ?thesis unfolding r(2) [symmetric] using r(1) by (intro exI conjI) (assumption | simp add: r(2))+
qed

theorem double_retire_witness:
  "\<exists>c1 nt1 c2 nt2. retire_socket 0 demo_conn (demo_world [] (Some (demo_stream []))) = Some (c1, nt1) \<and>
     read_message demo_lib (slot_info demo_conn 0) (c1\<lparr>cn_num_additional := cn_num_additional c1 - 1\<rparr>) nt1 = Some (0, c2, nt2) \<and>
     cn_num_additional c2 = int (length (filter ts_active (cn_additional c2))) - 1"
proof -
  have "(0 :: nat) < MAX_SE_CONNECTIONS" "ts_active (cn_additional demo_conn ! 0)" "cn_use_ssl_data demo_conn"
    by (simp_all add: conn_sizes demo_slots) (simp_all add: demo_conn_def demo_slot_def)
  then show ?thesis using double_retire [OF demo_inv] by blast
qed

end
