(* ===== verification/Dhcp_Props.thy ===== *)
theory Dhcp_Props
  imports Dhcp_Run Packet_Props
begin

text \<open>The properties of the DHCP client: its requests, the parsing of replies, the exchange and its timeout.\<close>

section \<open>Requests\<close>

text \<open>
  C26. The request frames. Into its buffer of 600 bytes, \<open>build_dhcp_frame\<close> writes a broadcast Ethernet frame from
  the client's address with an IPv4 header, a UDP header from port 68 to 67 and the DHCP message, and pads the rest with zeros. The
  result is the length of the frame; both length fields agree with it, the words of the IP header sum up to
  \<open>0xFFFF\<close>, and the message is at most 262 bytes, within the array of 308 it is built in.
\<close>

theorem dhcp_request_frame:
  assumes "length mac = 6" "length buf = DHCP_MAX_FRAME"
  shows "\<exists>hdr nt'. build_dhcp_frame buf DHCP_MAX_FRAME mac xid t req sid nt =
       Some (int (42 + length (dhcp_payload mac xid t req sid)),
         (replicate 6 0xFF @ mac @ be16 0x0800 @ hdr @ udp_header (8 + length (dhcp_payload mac xid t req sid)) @ dhcp_payload mac xid t req sid) @
           replicate (DHCP_MAX_FRAME - (42 + length (dhcp_payload mac xid t req sid))) 0, nt') \<and>
     length hdr = 20 \<and> unat (ip_fold (ip_sum 0 hdr)) = 65535 \<and>
     unat (rd16 (drop 2 hdr)) = 28 + length (dhcp_payload mac xid t req sid) \<and>
     unat (rd16 (drop 4 (udp_header (8 + length (dhcp_payload mac xid t req sid))))) = 8 + length (dhcp_payload mac xid t req sid) \<and>
     length (dhcp_payload mac xid t req sid) \<le> 262"
proof -
  let ?n = "length (dhcp_payload mac xid t req sid)"
  obtain a b nt' where B: "build_dhcp_frame buf DHCP_MAX_FRAME mac xid t req sid nt = Some (int (length (dhcp_frame mac xid t req sid a b)),
      dhcp_frame mac xid t req sid a b @ replicate (DHCP_MAX_FRAME - length (dhcp_frame mac xid t req sid a b)) 0, nt')"
    using dhcp_build_ok [OF assms] by blast
  let ?h = "ip_header (28 + ?n) a b (rev (be16 (ip_checksum (ip_header (28 + ?n) a b [0, 0]))))"
  have n: "?n \<le> 262" using dhcp_payload_length [OF assms(1)] by simp
  have u: "unat (word_of_nat m :: u16) = m" if "m \<le> 1000" for m
    using that by (simp add: unat_of_nat take_bit_nat_eq_self)
  have "rd16 (drop 2 ?h) = word_of_nat (28 + ?n)" unfolding ip_header_def by (simp add: c16.dec_enc del: of_nat_add)
  moreover have "rd16 (drop 4 (udp_header (8 + ?n))) = word_of_nat (8 + ?n)" unfolding udp_header_def by (simp add: c16.dec_enc del: of_nat_add)
  ultimately have "unat (rd16 (drop 2 ?h)) = 28 + ?n" "unat (rd16 (drop 4 (udp_header (8 + ?n)))) = 8 + ?n"
    using u [of "28 + ?n"] u [of "8 + ?n"] n by (simp_all del: of_nat_add)
  moreover have "length ?h = 20" by (simp add: ip_header_def c16.enc_length)
  moreover have "unat (ip_fold (ip_sum 0 ?h)) = 65535" by (rule ip_header_sum)
  moreover have w: "dhcp_frame mac xid t req sid a b = replicate 6 0xFF @ mac @ be16 0x0800 @ ?h @ udp_header (8 + ?n) @ dhcp_payload mac xid t req sid"
    by (simp add: dhcp_frame_def Let_def ETH_TYPE_IPV4_def)
  ultimately show ?thesis using B [unfolded dhcp_frame_length [OF assms(1)], unfolded w] n
    by (intro exI [of _ ?h] exI [of _ nt'] conjI)
qed

theorem dhcp_request_frame_witness:
  "\<exists>b nt'. build_dhcp_frame (replicate DHCP_MAX_FRAME 7) DHCP_MAX_FRAME (replicate 6 2) 1 DHCP_REQUEST 0x0A000002 0x0A000001 (demo_world [] None) =
     Some (304, b, nt')"
proof -
  have "length (dhcp_payload (replicate 6 2) 1 DHCP_REQUEST 0x0A000002 0x0A000001) = 262" by (simp add: dhcp_payload_length)
  then show ?thesis using dhcp_request_frame [of "replicate 6 2" "replicate DHCP_MAX_FRAME 7" 1 DHCP_REQUEST "0x0A000002" "0x0A000001" "demo_world [] None"]
    by auto
qed

section \<open>Replies\<close>

definition option_wire :: "byte \<times> byte list \<Rightarrow> byte list" where
  "option_wire o' = fst o' # word_of_nat (length (snd o')) # snd o'"

definition option_ok :: "byte \<times> byte list \<Rightarrow> bool" where
  "option_ok o' \<longleftrightarrow> fst o' \<noteq> 0 \<and> fst o' \<noteq> 255 \<and> length (snd o') < 256"

lemma options_enc:
  "list_all option_ok opts \<Longrightarrow> d = pre @ concat (map option_wire opts) @ 255 # post \<Longrightarrow> n \<le> length d \<Longrightarrow>
     length pre + length (concat (map option_wire opts)) < n \<Longrightarrow>
     dhcp_options d n (length pre) x = Some (foldl (\<lambda>x (k, v). dhcp_option k v x) x opts)"
proof (induction opts arbitrary: pre x)
  case Nil
  then show ?case by (simp add: options_step(2))
next
  case (Cons o' opts)
  obtain k v where o': "o' = (k, v)" by fastforce
  have ok: "k \<noteq> 0" "k \<noteq> 255" "length v < 256" using Cons.prems(1) by (simp_all add: o' option_ok_def)
  have l: "unat (word_of_nat (length v) :: byte) = length v" using ok(3) by (simp add: unat_of_nat take_bit_nat_eq_self)
  have d: "d = (pre @ option_wire o') @ concat (map option_wire opts) @ 255 # post" using Cons.prems(2) by simp
  have at: "d ! length pre = k" "d ! (length pre + 1) = word_of_nat (length v)" "take (length v) (drop (length pre + 2) d) = v"
    unfolding d o' option_wire_def by (simp_all add: nth_append)
  have n: "length pre + 2 + unat (d ! (length pre + 1)) \<le> n" using Cons.prems(4) unfolding at l by (simp add: o' option_wire_def)
  have "dhcp_options d n (length pre) x = dhcp_options d n (length pre + 2 + length v) (dhcp_option k v x)"
    using options_step(6) [OF n Cons.prems(3)] ok unfolding at l by simp
  moreover have "length pre + 2 + length v = length (pre @ option_wire o')" by (simp add: o' option_wire_def)
  moreover have "dhcp_options d n (length (pre @ option_wire o')) (dhcp_option k v x) =
      Some (foldl (\<lambda>x (k, v). dhcp_option k v x) (dhcp_option k v x) opts)"
    using Cons.prems(1,4) by (intro Cons.IH [OF _ d Cons.prems(3)]) (simp_all add: o' option_wire_def)
  ultimately show ?case by (simp only: o' foldl.simps prod.case)
qed

lemma mem_read_mid: "length a = off \<Longrightarrow> length b = n \<Longrightarrow> mem_read (a @ b @ c) off n = Some b"
  by (auto simp: mem_read_def)

lemma byte_at_mid: "length a = off \<Longrightarrow> byte_at (a @ x # c) off = Some x"
  by (auto simp: byte_at_def)

text \<open>
  A reply on the wire: an Ethernet header, an IPv4 header of \<open>ihl\<close> words with whatever the fields \<open>h1\<close> and \<open>h2\<close> hold,
  the ports, and a BOOTP message with its options.
\<close>

definition bootp_reply :: "byte list \<Rightarrow> u32 \<Rightarrow> byte list \<Rightarrow> u32 \<Rightarrow> byte list \<Rightarrow> byte list \<Rightarrow> byte list \<Rightarrow> (byte \<times> byte list) list \<Rightarrow> byte list" where
  "bootp_reply q xid s ip t mac z opts =
     [2] @ q @ be32 xid @ s @ be32 ip @ t @ mac @ z @ be32 0x63825363 @ concat (map option_wire opts) @ [255]"

definition udp_frame :: "byte list \<Rightarrow> nat \<Rightarrow> byte list \<Rightarrow> byte list \<Rightarrow> byte list \<Rightarrow> byte list \<Rightarrow> byte list" where
  "udp_frame eth ihl h1 h2 u msg =
     eth @ be16 ETH_TYPE_IPV4 @ [0x40 OR word_of_nat ihl] @ h1 @ [17] @ h2 @ (be16 67 @ be16 68) @ u @ msg"

lemma ihl_byte: "ihl < 16 \<Longrightarrow> drop_bit 4 (0x40 OR word_of_nat ihl :: byte) = 4 \<and> unat ((0x40 OR word_of_nat ihl :: byte) AND 0x0F) = ihl"
proof -
  have "\<forall>i \<in> set [0..<16]. drop_bit 4 (0x40 OR word_of_nat i :: byte) = 4 \<and> unat ((0x40 OR word_of_nat i :: byte) AND 0x0F) = i"
    by code_simp
  then show "ihl < 16 \<Longrightarrow> ?thesis" by simp
qed

text \<open>
  C19. Reading a reply. From every reply for this transaction and this client, whatever the length of its IP header, the
  values of the fields the client does not look at and the bytes behind it in the buffer, \<open>parse_dhcp_response\<close> takes
  the offered address and, in the order they are in, the values of the options it knows, and returns
  the message type.
\<close>

theorem dhcp_reply_parsed:
  assumes len: "length eth = 12" "length h1 = 8" "length h2 = 4 * ihl - 10" "length u = 4" "length q = 3" "length s = 8" "length t = 8"
      "length mac = 6" "length z = 202"
    and ihl: "5 \<le> ihl" "ihl < 16" and opts: "list_all option_ok opts"
    and n: "unat n = length (udp_frame eth ihl h1 h2 u (bootp_reply q xid s ip t mac z opts))"
  shows "parse_dhcp_response (udp_frame eth ihl h1 h2 u (bootp_reply q xid s ip t mac z opts) @ rest) n xid mac r sid =
     Some (foldl (\<lambda>x (k, v). dhcp_option k v x) (0, r\<lparr>dr_assigned_ip := ip\<rparr>, sid) opts)"
proof -
  let ?m = "bootp_reply q xid s ip t mac z opts" let ?f = "udp_frame eth ihl h1 h2 u ?m @ rest" let ?d = "?m @ rest"
  let ?v = "0x40 OR word_of_nat ihl :: byte" let ?w = "concat (map option_wire opts)"
  have v: "drop_bit 4 ?v = 4" "unat (?v AND 0x0F) = ihl" using ihl_byte [OF ihl(2)] by simp_all
  have e2: "length (be16 x) = 2" "length (be32 y) = 4" for x y by (simp_all add: c16.enc_length c32.enc_length)
  have lm: "length ?m = 241 + length ?w" using len e2 by (simp add: bootp_reply_def)
  have lf: "length (udp_frame eth ihl h1 h2 u ?m) = 22 + 4 * ihl + length ?m" using len e2 ihl by (simp add: udp_frame_def)
  have rd: "mem_read ?f 12 2 = Some (be16 ETH_TYPE_IPV4)"
    using mem_read_mid [of eth 12 "be16 ETH_TYPE_IPV4" 2] len e2 by (simp add: udp_frame_def)
  have vb: "byte_at ?f 14 = Some ?v" using byte_at_mid [of "eth @ be16 ETH_TYPE_IPV4" 14] len e2 by (simp add: udp_frame_def)
  have pb: "byte_at ?f 23 = Some 17" using byte_at_mid [of "eth @ be16 ETH_TYPE_IPV4 @ [?v] @ h1" 23] len e2 by (simp add: udp_frame_def)
  have po: "mem_read ?f (14 + ihl * 4) 4 = Some (be16 67 @ be16 68)"
    using mem_read_mid [of "eth @ be16 ETH_TYPE_IPV4 @ [?v] @ h1 @ [17] @ h2" "14 + ihl * 4" "be16 67 @ be16 68" 4 "u @ ?m @ rest"] len e2 ihl
    by (simp add: udp_frame_def)
  have dd: "drop (14 + ihl * 4 + 8) ?f = ?d"
  proof -
    have "?f = (eth @ be16 ETH_TYPE_IPV4 @ [?v] @ h1 @ [17] @ h2 @ (be16 67 @ be16 68) @ u) @ ?d" by (simp add: udp_frame_def)
    moreover have "length (eth @ be16 ETH_TYPE_IPV4 @ [?v] @ h1 @ [17] @ h2 @ (be16 67 @ be16 68) @ u) = 14 + ihl * 4 + 8" using len e2 ihl by simp
    ultimately show ?thesis by (metis append_eq_conv_conj)
  qed
  have hw: "unat (word_of_nat (ihl * 4) :: u32) = ihl * 4" using ihl by (intro unat_of_nat32) simp
  have dl: "unat (n - 14 - word_of_nat (ihl * 4) - 8) = length ?m"
  proof -
    have a: "unat (n - 14) = unat n - 14" using n lf by (subst unat_sub) (simp_all add: word_le_nat_alt)
    then have b: "unat (n - 14 - word_of_nat (ihl * 4)) = unat n - 14 - ihl * 4" using n lf hw by (subst unat_sub) (simp_all add: word_le_nat_alt)
    then show ?thesis using n lf by (subst unat_sub) (simp_all add: word_le_nat_alt)
  qed
  have op: "byte_at ?d 0 = Some 2" by (simp add: byte_at_def bootp_reply_def)
  have x: "mem_read ?d 4 4 = Some (be32 xid)" using mem_read_mid [of "[2] @ q" 4 "be32 xid" 4] len e2 by (simp add: bootp_reply_def)
  have y: "mem_read ?d 16 4 = Some (be32 ip)" using mem_read_mid [of "[2] @ q @ be32 xid @ s" 16 "be32 ip" 4] len e2 by (simp add: bootp_reply_def)
  have mc: "mem_read ?d 28 6 = Some mac" using mem_read_mid [of "[2] @ q @ be32 xid @ s @ be32 ip @ t" 28 mac 6] len e2 by (simp add: bootp_reply_def)
  have mg: "mem_read ?d 236 4 = Some (be32 0x63825363)"
    using mem_read_mid [of "[2] @ q @ be32 xid @ s @ be32 ip @ t @ mac @ z" 236 "be32 0x63825363" 4] len e2 by (simp add: bootp_reply_def)
  let ?pre = "[2] @ q @ be32 xid @ s @ be32 ip @ t @ mac @ z @ be32 0x63825363"
  have lp: "length ?pre = 240" using len e2 by simp
  have ow: "dhcp_options ?d (length ?m) 240 y = Some (foldl (\<lambda>x (k, v). dhcp_option k v x) y opts)" for y
    using options_enc [OF opts, of ?d ?pre rest "length ?m" y] lp lm by (simp add: bootp_reply_def)
  have big: "\<not> unat n < 14 + 20 + 8 + 236 + 4" "\<not> length ?m < 236 + 4" using n lf lm ihl by simp_all
  have p: "rd16 (be16 ETH_TYPE_IPV4) = ETH_TYPE_IPV4" "rd16 (be16 67 @ be16 68) = 67" "rd16 (drop 2 (be16 67 @ be16 68)) = 68"
    "rd32 (be32 xid) = xid" "rd32 (be32 ip) = ip" "rd32 (be32 0x63825363) = 0x63825363"
    using c16.dec_enc_Nil c16.dec_enc c32.dec_enc_Nil c16.drop_enc by simp_all
  show ?thesis unfolding parse_dhcp_response_def
    by (simp only: rd vb pb Option.bind.bind_lunit v Let_def po dd dl op x mc y mg ow big p if_False simp_thms)
qed

theorem dhcp_reply_parsed_witness:
  "parse_dhcp_response (udp_frame (replicate 12 0) 5 (replicate 8 0) (replicate 10 0) (replicate 4 0)
       (bootp_reply [1, 6, 0] 77 (replicate 8 0) 0x0A000002 (replicate 8 0) (replicate 6 2) (replicate 202 0) [(53, [2]), (3, [10, 0, 0, 1])]) @ [9])
     292 77 (replicate 6 2) dhcp_zero 0 = Some (2, dhcp_zero\<lparr>dr_assigned_ip := 0x0A000002, dr_gateway := 0x0A000001\<rparr>, 0)"
proof -
  have e: "length (be16 x) = 2" "length (be32 y) = 4" for x y by (simp_all add: c16.enc_length c32.enc_length)
  have "rd32 [10, 0, 0, 1] = 0x0A000001" by code_simp
  then have "foldl (\<lambda>x (k, v). dhcp_option k v x) (0, dhcp_zero\<lparr>dr_assigned_ip := 0x0A000002\<rparr>, 0) [(53, [2]), (3, [10, 0, 0, 1])] =
      (2, dhcp_zero\<lparr>dr_assigned_ip := 0x0A000002, dr_gateway := 0x0A000001\<rparr>, 0)" by (simp add: dhcp_option_def)
  moreover have "unat (292 :: u32) = length (udp_frame (replicate 12 0) 5 (replicate 8 0) (replicate 10 0) (replicate 4 0)
       (bootp_reply [1, 6, 0] 77 (replicate 8 0) 0x0A000002 (replicate 8 0) (replicate 6 2) (replicate 202 0) [(53, [2]), (3, [10, 0, 0, 1])]))"
    by (simp add: udp_frame_def bootp_reply_def option_wire_def e)
  ultimately show ?thesis
    using dhcp_reply_parsed [of "replicate 12 0" "replicate 8 0" "replicate 10 0" 5 "replicate 4 0" "[1, 6, 0]" "replicate 8 0" "replicate 8 0"
        "replicate 6 2" "replicate 202 0" "[(53, [2]), (3, [10, 0, 0, 1])]" 292 77 "0x0A000002" "[9]" dhcp_zero 0]
    by (simp add: option_ok_def)
qed

section \<open>The exchange\<close>





end
