(* ===== verification/Lifecycle.thy ===== *)
theory Lifecycle
  imports Tunnel
begin

text \<open>
  Creation and teardown of a connection (\<open>softether_protocol.c\<close>): \<open>softether_create\<close>,
  \<open>softether_close_additional\<close>, \<open>softether_disconnect\<close>, \<open>softether_destroy\<close> and the calls around them.
  Joining the background thread runs what is left of it: the parameter \<open>bg\<close>, in the code
  \<open>additional_connect_thread_routine\<close>. A context that is destroyed twice is undefined behaviour (\<open>None\<close>).
\<close>

section \<open>Creation\<close>

definition idle_sock :: softether_tcp_sock where
  "idle_sock = \<lparr>ts_socket_fd = 0, ts_ssl_ctx = None, ts_ssl = None, ts_direction = 0, ts_last_recv = 0,
     ts_late_count = 0, ts_active = False\<rparr>"

fun rand_mac :: "nat \<Rightarrow> net \<Rightarrow> byte list \<times> net" where
  "rand_mac 0 nt = ([], nt)"
| "rand_mac (Suc n) nt = (let (r, nt) = c_rand nt; (bs, nt) = rand_mac n nt in (word_of_nat r # bs, nt))"

text \<open>The staging buffer comes from \<open>malloc\<close>: what it holds is arbitrary, here \<open>junk\<close>.\<close>

definition softether_create :: "(nat \<Rightarrow> byte) \<Rightarrow> net \<Rightarrow> softether_connection option \<times> net" where
  "softether_create junk nt =
     (let (ok, nt) = net_malloc nt in
      if \<not> ok then (None, nt)
      else let (mac, nt) = rand_mac 5 nt;
               cap = 8 + word_of_nat ETH_HEADER_SIZE + 65535 :: u32;
               (blk, nt) = net_malloc nt
           in (Some \<lparr>cn_socket_fd = -1, cn_ssl_ctx = None, cn_ssl = None, cn_state = STATE_DISCONNECTED,
                 cn_abort_connect = False, cn_session_id = 0, cn_sequence_num = 0, cn_server_ip = [],
                 cn_session_key = (\<lambda>i. 0), cn_server_use_compress = False, cn_server_timeout = 0,
                 cn_use_ssl_data = False, cn_session_established = False, cn_client_mac = arr_of (0x5E # mac),
                 cn_gateway_mac = (\<lambda>i. 0), cn_gateway_mac_resolved = False, cn_gateway_ip = 0, cn_assigned_ip = 0,
                 cn_recv_queue = frame_empty RECV_QUEUE_SIZE MAX_QUEUED_FRAME, cn_rx_skipped_blocks = 0,
                 cn_rudp = None, cn_rudp_enabled = False, cn_nat_t_transport = None, cn_using_nat_t = False,
                 cn_additional = replicate MAX_SE_CONNECTIONS idle_sock, cn_num_additional = 0,
                 cn_max_connection = 8, cn_primary_direction = TCP_DIRECTION_BOTH, cn_next_connect_time = 0,
                 cn_additional_failed_count = 0, cn_additional_connecting = False, cn_additional_connect_slot = -1,
                 cn_additional_connect_result = -1, cn_send_rr_idx = 0, cn_next_tcp_keepalive_time = 0,
                 cn_send_block = (if blk then Some (map junk [0..<unat cap]) else None),
                 cn_send_block_cap = (if blk then cap else 0), cn_stats_tx_packets = 0, cn_stats_tx_bytes = 0,
                 cn_stats_rx_packets = 0, cn_stats_rx_bytes = 0\<rparr>, nt))"

section \<open>Small calls\<close>

definition softether_get_state :: "softether_connection option \<Rightarrow> softether_state" where
  "softether_get_state c = (case c of None \<Rightarrow> STATE_DISCONNECTED | Some c \<Rightarrow> cn_state c)"

definition softether_set_client_mac :: "byte list option \<Rightarrow> softether_connection \<Rightarrow> softether_connection option" where
  "softether_set_client_mac mac c =
     (case mac of None \<Rightarrow> Some c | Some m \<Rightarrow> do { b \<leftarrow> mem_read m 0 6; Some (c\<lparr>cn_client_mac := arr_of b\<rparr>) })"

text \<open>The descriptors that are shut down; nothing is closed.\<close>

definition softether_force_close_socket :: "softether_connection \<Rightarrow> int list \<times> softether_connection" where
  "softether_force_close_socket c =
     ((if 0 \<le> cn_socket_fd c then [cn_socket_fd c] else []) @
      (case cn_nat_t_transport c of
         None \<Rightarrow> []
       | Some t \<Rightarrow> if 0 \<le> th_app_fd t then [th_app_fd t] else []),
      c\<lparr>cn_abort_connect := True\<rparr>)"

section \<open>Teardown\<close>

definition close_fd :: "int \<Rightarrow> net \<Rightarrow> net" where
  "close_fd fd nt = (if 0 \<le> fd then net_close fd nt else nt)"

definition rudp_transport_destroy :: "transport_handle \<Rightarrow> net \<Rightarrow> net" where
  "rudp_transport_destroy t nt = close_fd (th_udp_fd t) (close_fd (th_app_fd t) (close_fd (th_worker_fd t) nt))"

definition take_nat_t_transport :: "softether_connection \<Rightarrow> transport_handle option \<times> softether_connection" where
  "take_nat_t_transport c = (cn_nat_t_transport c, c\<lparr>cn_nat_t_transport := None\<rparr>)"

definition take_rudp_ctx :: "softether_connection \<Rightarrow> rudp_context option \<times> softether_connection" where
  "take_rudp_ctx c = (cn_rudp c, c\<lparr>cn_rudp := None\<rparr>)"

definition join_additional ::
  "(softether_connection \<Rightarrow> net \<Rightarrow> (softether_connection \<times> net) option) \<Rightarrow> softether_connection \<Rightarrow> net \<Rightarrow>
     (softether_connection \<times> net) option" where
  "join_additional bg c nt =
     (if cn_additional_connecting c
      then do { (c, nt) \<leftarrow> bg c nt; Some (c\<lparr>cn_additional_connecting := False\<rparr>, nt) }
      else Some (c, nt))"

definition softether_additional_thread_wait ::
  "(softether_connection \<Rightarrow> net \<Rightarrow> (softether_connection \<times> net) option) \<Rightarrow> softether_connection \<Rightarrow> net \<Rightarrow>
     (softether_connection \<times> net) option" where
  "softether_additional_thread_wait bg c nt = join_additional bg c nt"

definition mark_closed :: "softether_tcp_sock \<Rightarrow> softether_tcp_sock" where
  "mark_closed ts =
     (if ts_active ts
      then ts\<lparr>ts_active := False, ts_ssl := None, ts_socket_fd := -1, ts_late_count := 0, ts_last_recv := 0\<rparr> else ts)"

definition saved_fds :: "softether_connection \<Rightarrow> int list" where
  "saved_fds c = map (\<lambda>ts. if ts_active ts then ts_socket_fd ts else -1) (cn_additional c)"

fun destroy_slots :: "nat list \<Rightarrow> softether_connection \<Rightarrow> net \<Rightarrow> (softether_connection \<times> net) option" where
  "destroy_slots [] c nt = Some (c, nt)"
| "destroy_slots (i # is) c nt =
     (let ts = cn_additional c ! i; (doomed, slot) = take_ssl_ctx_slot (ts_ssl_ctx ts);
          c = c\<lparr>cn_additional := (cn_additional c)[i := ts\<lparr>ts_ssl_ctx := slot\<rparr>]\<rparr>
      in do { nt \<leftarrow> ssl_shutdown doomed nt; nt \<leftarrow> ssl_destroy doomed nt; destroy_slots is c nt })"

definition softether_close_additional ::
  "(softether_connection \<Rightarrow> net \<Rightarrow> (softether_connection \<times> net) option) \<Rightarrow> softether_connection \<Rightarrow> net \<Rightarrow>
     (softether_connection \<times> net) option" where
  "softether_close_additional bg c nt =
     do { (c, nt) \<leftarrow> join_additional bg c nt;
          let fds = saved_fds c;
          let c = c\<lparr>cn_additional := map mark_closed (cn_additional c)\<rparr>;
          let nt = fold close_fd fds nt;
          (c, nt) \<leftarrow> destroy_slots [0..<MAX_SE_CONNECTIONS] c nt;
          Some (c\<lparr>cn_num_additional := 0, cn_additional_failed_count := 0\<rparr>, nt) }"

text \<open>The locks \<open>softether_disconnect\<close> holds while it frees the contexts, in the order it takes them.\<close>

definition teardown_locks :: "lock list" where
  "teardown_locks = [L_lifetime, L_write, L_io (-1)] @ map (\<lambda>i. L_io (int i)) [0..<MAX_SE_CONNECTIONS]"

definition close_primary_tls :: "softether_connection \<Rightarrow> net \<Rightarrow> (softether_connection \<times> net) option" where
  "close_primary_tls c nt =
     (if cn_ssl c \<noteq> None \<and> cn_ssl_ctx c \<noteq> None
      then let ssl = cn_ssl c; c = c\<lparr>cn_ssl := None\<rparr>;
               c = (if cn_ssl_ctx c = ssl then c\<lparr>cn_ssl_ctx := None\<rparr> else c)
           in do { nt \<leftarrow> ssl_shutdown ssl nt; nt \<leftarrow> ssl_destroy ssl nt; Some (c, nt) }
      else Some (c, nt))"

definition close_transports :: "softether_connection \<Rightarrow> net \<Rightarrow> softether_connection \<times> net" where
  "close_transports c nt =
     (let (tr, c) = take_nat_t_transport c;
          nt = (case tr of None \<Rightarrow> nt | Some t \<Rightarrow> rudp_transport_destroy t nt);
          c = c\<lparr>cn_using_nat_t := False\<rparr>;
          (ru, c) = take_rudp_ctx c;
          nt = (case ru of None \<Rightarrow> nt | Some r \<Rightarrow> snd (rudp_destroy r nt))
      in (c\<lparr>cn_rudp_enabled := False\<rparr>, nt))"

definition softether_disconnect ::
  "(softether_connection \<Rightarrow> net \<Rightarrow> (softether_connection \<times> net) option) \<Rightarrow> softether_connection \<Rightarrow> net \<Rightarrow>
     (softether_connection \<times> net) option" where
  "softether_disconnect bg c nt =
     (let nt = net_ev (Lock L_connect) nt in
      if cn_state c = STATE_DISCONNECTED \<or> cn_state c = STATE_DISCONNECTING
      then Some (c, net_ev (Unlock L_connect) nt)
      else do {
        let c = c\<lparr>cn_state := STATE_DISCONNECTING\<rparr>;
        (c, nt) \<leftarrow> join_additional bg c nt;
        let nt = close_fd (cn_socket_fd c) nt;
        let c = (if 0 \<le> cn_socket_fd c then c\<lparr>cn_socket_fd := -1\<rparr> else c);
        let nt = fold (\<lambda>l. net_ev (Lock l)) teardown_locks nt;
        (c, nt) \<leftarrow> softether_close_additional bg c nt;
        (c, nt) \<leftarrow> close_primary_tls c nt;
        let nt = fold (\<lambda>l. net_ev (Unlock l)) (rev teardown_locks) nt;
        let (c, nt) = close_transports c nt;
        Some (c\<lparr>cn_state := STATE_DISCONNECTED, cn_session_id := 0, cn_sequence_num := 0\<rparr>,
              net_ev (Unlock L_connect) nt) })"

text \<open>The connection itself and its staging buffer are freed: only what happens outside remains.\<close>

definition softether_destroy ::
  "(softether_connection \<Rightarrow> net \<Rightarrow> (softether_connection \<times> net) option) \<Rightarrow> softether_connection option \<Rightarrow> net \<Rightarrow> net option" where
  "softether_destroy bg conn nt =
     (case conn of
        None \<Rightarrow> Some nt
      | Some c \<Rightarrow> do {
          (c, nt) \<leftarrow> join_additional bg c nt;
          (c, nt) \<leftarrow> (if cn_state c \<noteq> STATE_DISCONNECTED then softether_disconnect bg c nt else Some (c, nt));
          let (tr, c) = take_nat_t_transport c;
          Some (case tr of None \<Rightarrow> nt | Some t \<Rightarrow> rudp_transport_destroy t nt) })"

end
