(* ===== verification/Login.thy ===== *)
theory Login
  imports Pack Rudp
begin

text \<open>
  The login exchange of \<open>softether_protocol.c\<close>: the strict parser of a Content-Length, the file's own copy of
  the PACK reader, the server's Hello and the PACK the client logs in with. The static helpers that read and
  write single values are, line by line, those of \<open>softether_pack.c\<close>, so the definitions of theory \<open>Pack\<close> are
  used for them; the element loops are written differently in the two files and have their own definitions here.
\<close>

section \<open>Content-Length\<close>

definition N11_MAX_CONTENT_LENGTH :: nat where "N11_MAX_CONTENT_LENGTH = 64 * 1024 * 1024"

definition is_digit :: "byte \<Rightarrow> bool" where
  "is_digit b \<longleftrightarrow> 0x30 \<le> b \<and> b \<le> 0x39"

text \<open>
  The digit loop: the value and the rest of the string, \<open>None\<close> once the value exceeds the maximum. The
  value before a step is at most 64 MiB, so the unsigned long does not overflow.
\<close>

fun content_digits :: "nat \<Rightarrow> byte list \<Rightarrow> (nat \<times> byte list) option" where
  "content_digits v [] = Some (v, [])"
| "content_digits v (b # s) =
     (if is_digit b
      then let v = v * 10 + unat (b - 0x30) in if N11_MAX_CONTENT_LENGTH < v then None else content_digits v s
      else Some (v, b # s))"

text \<open>\<open>s\<close> is a C string without its NUL; the end of the list is the NUL.\<close>

definition parse_content_length :: "byte list option \<Rightarrow> int" where
  "parse_content_length cl =
     (case cl of
        None \<Rightarrow> 0
      | Some s \<Rightarrow>
          (case dropWhile (\<lambda>b. b = 0x20 \<or> b = 0x09) s of
             [] \<Rightarrow> 0
           | b # s \<Rightarrow>
               if \<not> is_digit b then -1
               else case content_digits 0 (b # s) of
                 None \<Rightarrow> -1
               | Some (v, r) \<Rightarrow>
                   (case r of
                      [] \<Rightarrow> int v
                    | e # _ \<Rightarrow> if e = 0x0D \<or> e = 0x0A \<or> e = 0x20 \<or> e = 0x09 then int v else -1)))"

section \<open>The PACK reader of this file\<close>

definition pack_read_data_safe :: "byte list \<Rightarrow> u32 \<Rightarrow> (byte list \<times> byte list) option" where
  "pack_read_data_safe p out_size =
     do { (data_len, p) \<leftarrow> pack_read_uint32_safe p;
          if length p < unat data_len then None
          else Some (take (if data_len < out_size then unat data_len else unat out_size) p, drop (unat data_len) p) }"

definition buffer_contains_token :: "byte list option \<Rightarrow> u32 \<Rightarrow> byte list option \<Rightarrow> bool" where
  "buffer_contains_token buf len token =
     (case (buf, token) of
        (Some b, Some t) \<Rightarrow>
          if length t = 0 \<or> unat len < length t then False
          else list_ex (\<lambda>i. take (length t) (drop i b) = t) [0..<unat len - length t + 1]
      | _ \<Rightarrow> False)"

text \<open>The header of an element: its name as the code compares it (at most 63 bytes, up to a NUL), type and count.\<close>

definition read_elem_header :: "byte list \<Rightarrow> (byte list \<times> u32 \<times> u32 \<times> byte list) option" where
  "read_elem_header p =
     do { (name_len_plus1, p) \<leftarrow> pack_read_uint32_safe p;
          if name_len_plus1 = 0 then None
          else do { let name_len = name_len_plus1 - 1;
                    if length p < unat name_len then None
                    else do { let cp = (if name_len < 63 then unat name_len else 63);
                              let elem = c_str (take cp p);
                              (ty, p) \<leftarrow> pack_read_uint32_safe (drop (unat name_len) p);
                              (num_values, p) \<leftarrow> pack_read_uint32_safe p;
                              if 65535 < num_values then None else Some (elem, ty, num_values, p) } } }"

text \<open>The loop of \<open>pack_get_int\<close>, \<open>pack_get_str\<close> and \<open>pack_get_data\<close>: the position of the first value.\<close>

fun proto_find :: "nat \<Rightarrow> byte list \<Rightarrow> u32 \<Rightarrow> byte list \<Rightarrow> byte list option" where
  "proto_find 0 field want p = None"
| "proto_find (Suc n) field want p =
     do { (elem, ty, num_values, p) \<leftarrow> read_elem_header p;
          if elem = c_str field \<and> ty = want \<and> 1 \<le> num_values then Some p
          else do { p \<leftarrow> pack_skip_values (unat num_values) p ty; proto_find n field want p } }"

definition proto_locate :: "byte list option \<Rightarrow> u32 \<Rightarrow> byte list option \<Rightarrow> u32 \<Rightarrow> byte list option" where
  "proto_locate body body_len field want =
     (case (body, field) of
        (Some b, Some f) \<Rightarrow>
          if body_len < 4 then None
          else do { (num_elements, p) \<leftarrow> pack_read_uint32_safe (take (unat body_len) b);
                    if 4096 < num_elements then None else proto_find (unat num_elements) f want p }
      | _ \<Rightarrow> None)"

definition pack_get_int_proto :: "byte list option \<Rightarrow> u32 \<Rightarrow> byte list option \<Rightarrow> u32 option" where
  "pack_get_int_proto body body_len field =
     do { p \<leftarrow> proto_locate body body_len field PACK_TYPE_INT; (v, _) \<leftarrow> pack_read_uint32_safe p; Some v }"

definition pack_get_str_proto :: "byte list option \<Rightarrow> u32 \<Rightarrow> byte list option \<Rightarrow> u32 \<Rightarrow> byte list option" where
  "pack_get_str_proto body body_len field out_size =
     (if out_size = 0 then None
      else do { p \<leftarrow> proto_locate body body_len field PACK_TYPE_STR;
                (str_len, p) \<leftarrow> pack_read_uint32_safe p;
                if length p < unat str_len then None
                else Some (take (if str_len < out_size - 1 then unat str_len else unat out_size - 1) p @ [0]) })"

definition pack_get_data_proto :: "byte list option \<Rightarrow> u32 \<Rightarrow> byte list option \<Rightarrow> u32 \<Rightarrow> byte list option" where
  "pack_get_data_proto body body_len field out_size =
     (if out_size = 0 then None
      else do { p \<leftarrow> proto_locate body body_len field PACK_TYPE_DATA;
                (data_len, p) \<leftarrow> pack_read_uint32_safe p;
                if length p < unat data_len then None
                else Some (take (if data_len < out_size then unat data_len else unat out_size) p) })"

section \<open>The server's Hello\<close>

definition SHA1_SIZE :: nat where "SHA1_SIZE = 20"

text \<open>\<open>sh_hello_string\<close> is the string in the 64-byte array, with its NUL; \<open>sh_random\<close> the 20-byte array.\<close>

record server_hello_info =
  sh_version :: u32
  sh_build :: u32
  sh_random :: "byte list"
  sh_hello_string :: "byte list"
  sh_has_hello :: bool
  sh_has_version :: bool
  sh_has_random :: bool

definition hello_zero :: server_hello_info where
  "hello_zero = \<lparr>sh_version = 0, sh_build = 0, sh_random = replicate SHA1_SIZE 0, sh_hello_string = [0], sh_has_hello = False,
     sh_has_version = False, sh_has_random = False\<rparr>"

text \<open>What the first value of an element is used for; the remaining values are skipped.\<close>

definition hello_value :: "byte list \<Rightarrow> u32 \<Rightarrow> server_hello_info \<Rightarrow> byte list \<Rightarrow> (server_hello_info \<times> byte list) option" where
  "hello_value elem ty info p =
     (if elem = str ''hello'' \<and> ty = PACK_TYPE_STR
      then do { (s, p) \<leftarrow> pack_read_string_safe p 64; Some (info\<lparr>sh_hello_string := s, sh_has_hello := True\<rparr>, p) }
      else if elem = str ''version'' \<and> ty = PACK_TYPE_INT
      then do { (v, p) \<leftarrow> pack_read_uint32_safe p; Some (info\<lparr>sh_version := v, sh_has_version := True\<rparr>, p) }
      else if elem = str ''random'' \<and> ty = PACK_TYPE_DATA
      then do { (d, p) \<leftarrow> pack_read_data_safe p (word_of_nat SHA1_SIZE);
                Some (info\<lparr>sh_random := d @ drop (length d) (sh_random info), sh_has_random := True\<rparr>, p) }
      else do { p \<leftarrow> pack_skip_value_safe p ty; Some (info, p) })"

fun hello_elements :: "nat \<Rightarrow> server_hello_info \<Rightarrow> byte list \<Rightarrow> server_hello_info option" where
  "hello_elements 0 info p = Some info"
| "hello_elements (Suc n) info p =
     do { (elem, ty, num_values, p) \<leftarrow> read_elem_header p;
          if num_values = 0 then hello_elements n info p
          else do { (info, p) \<leftarrow> hello_value elem ty info p;
                    p \<leftarrow> pack_skip_values (unat num_values - 1) p ty;
                    hello_elements n info p } }"

definition parse_server_hello :: "byte list option \<Rightarrow> u32 \<Rightarrow> server_hello_info option" where
  "parse_server_hello body body_len =
     (case body of
        None \<Rightarrow> None
      | Some b \<Rightarrow>
          if body_len < 4 then None
          else do { (num_elements, p) \<leftarrow> pack_read_uint32_safe (take (unat body_len) b);
                    if 4096 < num_elements then None else hello_elements (unat num_elements) hello_zero p })"

section \<open>Writing elements\<close>

definition pack_add_int_proto :: "byte list \<Rightarrow> u32 \<Rightarrow> cursor \<Rightarrow> cursor option" where
  "pack_add_int_proto name val c =
     do { c \<leftarrow> pack_write_elem_name c name; c \<leftarrow> pack_write_uint32 c PACK_TYPE_INT; c \<leftarrow> pack_write_uint32 c 1;
          pack_write_uint32 c val }"

definition pack_add_str_proto :: "byte list \<Rightarrow> byte list \<Rightarrow> cursor \<Rightarrow> cursor option" where
  "pack_add_str_proto name val c =
     do { c \<leftarrow> pack_write_elem_name c name; c \<leftarrow> pack_write_uint32 c PACK_TYPE_STR; c \<leftarrow> pack_write_uint32 c 1;
          pack_write_str_val c val }"

definition pack_add_data_proto :: "byte list \<Rightarrow> byte list option \<Rightarrow> u32 \<Rightarrow> cursor \<Rightarrow> cursor option" where
  "pack_add_data_proto name data dlen c =
     do { c \<leftarrow> pack_write_elem_name c name; c \<leftarrow> pack_write_uint32 c PACK_TYPE_DATA; c \<leftarrow> pack_write_uint32 c 1;
          pack_write_data_val c data dlen }"

section \<open>The login PACK\<close>

text \<open>The fields of \<open>softether_connection_t\<close> only the login reads (strings without their NUL).\<close>

record client_info =
  ci_product_name :: "byte list"
  ci_product_version :: "byte list"
  ci_product_build :: u32
  ci_os_name :: "byte list"
  ci_os_version :: "byte list"
  ci_os_product_id :: "byte list"
  ci_host_name :: "byte list"
  ci_ip_address :: "byte list"
  ci_port :: u32
  ci_server_host_name :: "byte list"
  ci_server_ip_address :: "byte list"
  ci_server_port_reported :: u32
  ci_ip_v6 :: "byte list"
  ci_max_connection :: u32
  ci_half_connection :: bool
  ci_socket_fd :: int

text \<open>
  The answers of \<open>inet_addr\<close> and of \<open>getsockname\<close> on the primary socket (the port, \<open>None\<close> when it fails).
\<close>

record login_env =
  le_inet_addr :: "byte list \<Rightarrow> u32"
  le_local_port :: "u16 option"

definition softether_endian32 :: "u32 \<Rightarrow> u32" where
  "softether_endian32 x = rd32 (rev (be32 x))"

text \<open>\<open>%d\<close> of \<open>sscanf\<close>: white space, an optional sign, at least one digit.\<close>

fun scan_digits :: "int \<Rightarrow> byte list \<Rightarrow> int \<times> byte list" where
  "scan_digits v [] = (v, [])"
| "scan_digits v (b # s) = (if is_digit b then scan_digits (v * 10 + int (unat (b - 0x30))) s else (v, b # s))"

definition scan_d :: "byte list \<Rightarrow> (int \<times> byte list) option" where
  "scan_d s =
     (let s = dropWhile (\<lambda>b. b = 0x20 \<or> 0x09 \<le> b \<and> b \<le> 0x0D) s;
          neg = (take 1 s = [0x2D]);
          s = (if take 1 s = [0x2D] \<or> take 1 s = [0x2B] then drop 1 s else s)
      in case s of
           [] \<Rightarrow> None
         | b # _ \<Rightarrow> if is_digit b then let (v, r) = scan_digits 0 s in Some (if neg then - v else v, r) else None)"

text \<open>
  \<open>sscanf(..., "%d.%d.%d", ...)\<close>: what does not match stays 0. The result is taken modulo \<open>2^32\<close>; the
  conversion of numbers outside \<open>int\<close> is undefined in C.
\<close>

definition client_product_ver_int :: "byte list \<Rightarrow> u32" where
  "client_product_ver_int s =
     (let dot = (\<lambda>r. case r of [] \<Rightarrow> None | b # r \<Rightarrow> if b = 0x2E then scan_d r else None);
          (major, minor, patch) =
            (case scan_d s of
               None \<Rightarrow> (0, 0, 0)
             | Some (a, r) \<Rightarrow>
                 (case dot r of
                    None \<Rightarrow> (a, 0, 0)
                  | Some (b, r) \<Rightarrow> (case dot r of None \<Rightarrow> (a, b, 0) | Some (d, _) \<Rightarrow> (a, b, d))))
      in if s = [] then 0 else word_of_int (major * 100 + minor * 10 + patch))"

fun rand_bytes :: "nat \<Rightarrow> net \<Rightarrow> byte list \<times> net" where
  "rand_bytes 0 nt = ([], nt)"
| "rand_bytes (Suc n) nt = (let (r, nt) = c_rand nt; (bs, nt) = rand_bytes n nt in (word_of_nat r # bs, nt))"

definition pencore :: "net \<Rightarrow> u32 \<times> byte list option \<times> net" where
  "pencore nt =
     (let (r, nt) = c_rand nt; size = word_of_nat (r mod 1000) :: u32; (ok, nt) = net_malloc nt
      in if ok then let (bs, nt) = rand_bytes (unat size) nt in (size, Some bs, nt) else (size, None, nt))"

text \<open>Counting the elements and adding up their sizes, as the code does before it allocates the buffer.\<close>

definition login_num_elems :: "int \<Rightarrow> byte list option \<Rightarrow> byte list option \<Rightarrow> bool \<Rightarrow> client_info \<Rightarrow> u32" where
  "login_num_elems auth_type secure plain rudp ci =
     20 + 12 + (if ci_ip_v6 ci \<noteq> [] then 1 else 0) + (if rudp then 5 else 0) + (if rudp then 8 else 0) +
     (if auth_type = 1 \<and> secure \<noteq> None then 1 else 0) + (if auth_type = 2 \<and> plain \<noteq> None then 1 else 0)"

definition client_hello :: "byte list" where
  "client_hello = str ''SoftEther VPN Client''"

definition login_size ::
  "byte list \<Rightarrow> byte list \<Rightarrow> int \<Rightarrow> byte list option \<Rightarrow> byte list option \<Rightarrow> bool \<Rightarrow> client_info \<Rightarrow> u32 \<Rightarrow> u32" where
  "login_size hub user auth_type secure plain rudp ci pencore_size =
     4 + PACK_STR_SZ (str ''method'') (str ''login'') + PACK_STR_SZ (str ''hubname'') hub +
     PACK_STR_SZ (str ''username'') user + PACK_INT_SZ (str ''authtype'') +
     PACK_STR_SZ (str ''hello'') client_hello + PACK_INT_SZ (str ''version'') + PACK_INT_SZ (str ''build'') +
     PACK_STR_SZ (str ''client_str'') client_hello + PACK_INT_SZ (str ''client_ver'') +
     PACK_INT_SZ (str ''client_build'') + PACK_INT_SZ (str ''client_id'') + PACK_INT_SZ (str ''protocol'') +
     PACK_INT_SZ (str ''max_connection'') + PACK_INT_SZ (str ''use_encrypt'') + PACK_INT_SZ (str ''use_compress'') +
     PACK_INT_SZ (str ''half_connection'') + PACK_INT_SZ (str ''require_bridge_routing_mode'') +
     PACK_INT_SZ (str ''require_monitor_mode'') + PACK_INT_SZ (str ''qos'') +
     PACK_DATA_SZ (str ''pencore'') pencore_size +
     PACK_STR_SZ (str ''ClientProductName'') (ci_product_name ci) + PACK_INT_SZ (str ''ClientProductVer'') +
     PACK_INT_SZ (str ''ClientProductBuild'') + PACK_STR_SZ (str ''ClientOsName'') (ci_os_name ci) +
     PACK_STR_SZ (str ''ClientOsVer'') (ci_os_version ci) + PACK_STR_SZ (str ''ClientOsProductId'') (ci_os_product_id ci) +
     PACK_STR_SZ (str ''ClientHostName'') (ci_host_name ci) + PACK_INT_SZ (str ''ClientIpAddress'') +
     PACK_INT_SZ (str ''ClientPort'') + PACK_STR_SZ (str ''ServerHostName'') (ci_server_host_name ci) +
     PACK_INT_SZ (str ''ServerIpAddress'') + PACK_INT_SZ (str ''ServerPort2'') +
     (if ci_ip_v6 ci \<noteq> [] then PACK_STR_SZ (str ''ClientIpv6Address'') (ci_ip_v6 ci) else 0) +
     (if rudp
      then PACK_INT_SZ (str ''support_bulk_on_rudp'') + PACK_INT_SZ (str ''support_hmac_on_bulk_of_rudp'') +
           PACK_INT_SZ (str ''support_udp_recovery'') + PACK_DATA_SZ (str ''unique_id'') (word_of_nat SHA1_SIZE) +
           PACK_INT_SZ (str ''rudp_bulk_max_version'') else 0) +
     (if rudp
      then PACK_INT_SZ (str ''use_udp_acceleration'') +
           PACK_DATA_SZ (str ''udp_acceleration_client_key'') (word_of_nat RUDP_COMMON_KEY_SIZE_V1) +
           PACK_DATA_SZ (str ''udp_acceleration_client_key_v2'') (word_of_nat RUDP_COMMON_KEY_SIZE_V2) +
           PACK_INT_SZ (str ''udp_acceleration_client_cookie'') + PACK_INT_SZ (str ''udp_acceleration_max_version'') +
           PACK_INT_SZ (str ''support_hmac_on_udp_acceleration'') + PACK_INT_SZ (str ''udp_acceleration_client_ip'') +
           PACK_INT_SZ (str ''udp_acceleration_client_port'') else 0) +
     (if auth_type = 1 \<and> secure \<noteq> None then PACK_DATA_SZ (str ''secure_password'') (word_of_nat SHA1_SIZE) else 0) +
     (case plain of Some p \<Rightarrow> if auth_type = 2 then PACK_STR_SZ (str ''plain_password'') p else 0 | None \<Rightarrow> 0)"

text \<open>The sequence of \<open>pack_add_*\<close> calls.\<close>

datatype add_call = Add_int "byte list" u32 | Add_str "byte list" "byte list" | Add_data "byte list" "byte list option" u32

fun run_call :: "add_call \<Rightarrow> cursor \<Rightarrow> cursor option" where
  "run_call (Add_int n v) c = pack_add_int_proto n v c"
| "run_call (Add_str n v) c = pack_add_str_proto n v c"
| "run_call (Add_data n d l) c = pack_add_data_proto n d l c"

fun run_calls :: "add_call list \<Rightarrow> cursor \<Rightarrow> cursor option" where
  "run_calls [] c = Some c"
| "run_calls (a # as) c = do { c \<leftarrow> run_call a c; run_calls as c }"

definition local_port :: "login_env \<Rightarrow> client_info \<Rightarrow> u32" where
  "local_port E ci =
     (if ci_port ci = 0 \<and> 0 \<le> ci_socket_fd ci
      then (case le_local_port E of Some p \<Rightarrow> ucast p | None \<Rightarrow> ci_port ci) else ci_port ci)"

definition login_calls ::
  "login_env \<Rightarrow> byte list \<Rightarrow> byte list \<Rightarrow> byte list \<Rightarrow> int \<Rightarrow> byte list option \<Rightarrow> byte list option \<Rightarrow> rudp_context option \<Rightarrow>
     client_info \<Rightarrow> u32 \<Rightarrow> byte list option \<Rightarrow> add_call list" where
  "login_calls E unique_id hub user auth_type secure plain rudp ci pencore_size pencore_data =
     [Add_str (str ''method'') (str ''login''), Add_str (str ''hubname'') hub, Add_str (str ''username'') user,
      Add_int (str ''authtype'') (word_of_int auth_type), Add_str (str ''hello'') client_hello, Add_int (str ''version'') 420,
      Add_int (str ''build'') 9699, Add_str (str ''client_str'') client_hello, Add_int (str ''client_ver'') 420,
      Add_int (str ''client_build'') 9699, Add_int (str ''client_id'') 0,
      Add_int (str ''protocol'') (if rudp \<noteq> None then 1 else 0), Add_int (str ''max_connection'') (ci_max_connection ci),
      Add_int (str ''use_encrypt'') 1, Add_int (str ''use_compress'') 0,
      Add_int (str ''half_connection'') (if ci_half_connection ci then 1 else 0), Add_int (str ''require_bridge_routing_mode'') 0,
      Add_int (str ''require_monitor_mode'') 0, Add_int (str ''qos'') 1, Add_data (str ''pencore'') pencore_data pencore_size,
      Add_str (str ''ClientProductName'') (ci_product_name ci),
      Add_int (str ''ClientProductVer'') (softether_endian32 (client_product_ver_int (ci_product_version ci))),
      Add_int (str ''ClientProductBuild'') (softether_endian32 (ci_product_build ci)),
      Add_str (str ''ClientOsName'') (ci_os_name ci), Add_str (str ''ClientOsVer'') (ci_os_version ci),
      Add_str (str ''ClientOsProductId'') (ci_os_product_id ci), Add_str (str ''ClientHostName'') (ci_host_name ci),
      Add_int (str ''ClientIpAddress'') (if ci_ip_address ci \<noteq> [] then le_inet_addr E (ci_ip_address ci) else 0),
      Add_int (str ''ClientPort'') (softether_endian32 (local_port E ci)),
      Add_str (str ''ServerHostName'') (ci_server_host_name ci),
      Add_int (str ''ServerIpAddress'') (if ci_server_ip_address ci \<noteq> [] then le_inet_addr E (ci_server_ip_address ci) else 0),
      Add_int (str ''ServerPort2'') (softether_endian32 (ci_server_port_reported ci))] @
     (if ci_ip_v6 ci \<noteq> [] then [Add_str (str ''ClientIpv6Address'') (ci_ip_v6 ci)] else []) @
     (case rudp of
        None \<Rightarrow> []
      | Some r \<Rightarrow>
          [Add_int (str ''support_bulk_on_rudp'') 1, Add_int (str ''support_hmac_on_bulk_of_rudp'') 1,
           Add_int (str ''support_udp_recovery'') 1, Add_data (str ''unique_id'') (Some unique_id) (word_of_nat SHA1_SIZE),
           Add_int (str ''rudp_bulk_max_version'') 2, Add_int (str ''use_udp_acceleration'') 1,
           Add_data (str ''udp_acceleration_client_key'') (Some (ru_my_key r)) (word_of_nat RUDP_COMMON_KEY_SIZE_V1),
           Add_data (str ''udp_acceleration_client_key_v2'') (Some (ru_my_key_v2 r)) (word_of_nat RUDP_COMMON_KEY_SIZE_V2),
           Add_int (str ''udp_acceleration_client_cookie'') (ru_my_cookie r), Add_int (str ''udp_acceleration_max_version'') 2,
           Add_int (str ''support_hmac_on_udp_acceleration'') 1, Add_int (str ''udp_acceleration_client_ip'') 0,
           Add_int (str ''udp_acceleration_client_port'') (ucast (ru_my_port r))]) @
     (if auth_type = 1 \<and> secure \<noteq> None then [Add_data (str ''secure_password'') secure (word_of_nat SHA1_SIZE)] else []) @
     (case plain of Some p \<Rightarrow> if auth_type = 2 then [Add_str (str ''plain_password'') p] else [] | None \<Rightarrow> [])"

text \<open>
  The outer \<open>None\<close> is a write outside the buffer, the inner one the NULL of the source. \<open>calloc\<close> is asked for
  \<open>size + 64\<close> bytes; \<open>size\<close> is an unsigned 32-bit number, and so is the sum.
\<close>

definition build_login_pack ::
  "rudp_lib \<Rightarrow> login_env \<Rightarrow> byte list option \<Rightarrow> byte list option \<Rightarrow> int \<Rightarrow> byte list option \<Rightarrow> byte list option \<Rightarrow>
     rudp_context option \<Rightarrow> client_info \<Rightarrow> net \<Rightarrow> ((byte list \<times> u32) option \<times> net) option" where
  "build_login_pack L E hub_name username auth_type secure plain rudp ci nt =
     (case (hub_name, username) of
        (Some hub, Some user) \<Rightarrow>
          (let (pencore_size, pencore_data, nt) = pencore nt;
               unique_id = lb_sha1 L (str ''SoftEtherVPN_Android_Client'');
               size = login_size hub user auth_type secure plain (rudp \<noteq> None) ci pencore_size;
               (ok, nt) = net_malloc nt
           in if \<not> ok then Some (None, nt)
              else do { c \<leftarrow> pack_write_uint32 (replicate (unat (size + 64)) 0, 0)
                              (login_num_elems auth_type secure plain (rudp \<noteq> None) ci);
                        (buf, n) \<leftarrow> run_calls (login_calls E unique_id hub user auth_type secure plain rudp ci
                                       pencore_size pencore_data) c;
                        Some (Some (buf, word_of_nat n), nt) })
      | _ \<Rightarrow> Some (None, nt))"

end
