(* ===== verification/Tcp_Socket.thy ===== *)
theory Tcp_Socket
  imports Net_World
begin

text \<open>
  The TCP sockets of \<open>tcp_socket.c\<close>: opening one, connecting it to the addresses a host name resolves to, and
  closing it. The operating system answers from the scripts of a \<open>dialer\<close>: what \<open>socket\<close>, \<open>connect\<close>, \<open>poll\<close> and
  \<open>getsockopt(SO_ERROR)\<close> return, and what the cancel flag reads. \<open>dl_opened\<close> and \<open>dl_closed\<close> record the
  descriptors that were opened and closed.
\<close>

datatype family = AF_INET | AF_INET6 | AF_UNSPEC

datatype conn_answer = Conn_ok | Conn_in_progress | Conn_err

datatype wait_answer = Wait_ready | Wait_timeout | Wait_eintr | Wait_err

record dialer =
  dl_socket :: "int list"
  dl_connect :: "conn_answer list"
  dl_poll :: "wait_answer list"
  dl_so_error :: "bool list"
  dl_cancel :: "bool list"
  dl_opened :: "int list"
  dl_closed :: "int list"

record softether_socket =
  sk_fd :: int
  sk_udp :: bool
  sk_family :: family
  sk_addr :: "sock_addr option"
  sk_connected :: bool
  sk_timeout_ms :: int

definition SOCKET_TIMEOUT_MS :: int where "SOCKET_TIMEOUT_MS = 30000"

section \<open>Answers\<close>

text \<open>A script that has run out: no more sockets, connections fail, polls time out, no error, no cancel.\<close>

definition os_socket :: "dialer \<Rightarrow> int \<times> dialer" where
  "os_socket d =
     (case dl_socket d of
        [] \<Rightarrow> (-1, d)
      | fd # fds \<Rightarrow> (fd, d\<lparr>dl_socket := fds, dl_opened := dl_opened d @ (if 0 \<le> fd then [fd] else [])\<rparr>))"

definition os_close :: "int \<Rightarrow> dialer \<Rightarrow> dialer" where
  "os_close fd d = d\<lparr>dl_closed := dl_closed d @ [fd]\<rparr>"

definition os_connect :: "dialer \<Rightarrow> conn_answer \<times> dialer" where
  "os_connect d = (case dl_connect d of [] \<Rightarrow> (Conn_err, d) | a # as \<Rightarrow> (a, d\<lparr>dl_connect := as\<rparr>))"

definition os_poll :: "dialer \<Rightarrow> wait_answer \<times> dialer" where
  "os_poll d = (case dl_poll d of [] \<Rightarrow> (Wait_timeout, d) | a # as \<Rightarrow> (a, d\<lparr>dl_poll := as\<rparr>))"

definition os_so_error :: "dialer \<Rightarrow> bool \<times> dialer" where
  "os_so_error d = (case dl_so_error d of [] \<Rightarrow> (False, d) | a # as \<Rightarrow> (a, d\<lparr>dl_so_error := as\<rparr>))"

definition read_cancel :: "dialer \<Rightarrow> bool \<times> dialer" where
  "read_cancel d = (case dl_cancel d of [] \<Rightarrow> (False, d) | a # as \<Rightarrow> (a, d\<lparr>dl_cancel := as\<rparr>))"

section \<open>Creating and destroying\<close>

definition socket_create :: "bool \<Rightarrow> bool \<Rightarrow> dialer \<Rightarrow> softether_socket option \<times> dialer" where
  "socket_create mem_ok udp d =
     (if \<not> mem_ok then (None, d)
      else let (fd, d) = os_socket d in
           if fd < 0 then (None, d)
           else (Some \<lparr>sk_fd = fd, sk_udp = udp, sk_family = AF_INET, sk_addr = None, sk_connected = False,
                       sk_timeout_ms = SOCKET_TIMEOUT_MS\<rparr>, d))"

definition socket_destroy :: "softether_socket option \<Rightarrow> dialer \<Rightarrow> dialer" where
  "socket_destroy sock d =
     (case sock of None \<Rightarrow> d | Some s \<Rightarrow> if 0 \<le> sk_fd s then os_close (sk_fd s) d else d)"

definition socket_disconnect :: "softether_socket option \<Rightarrow> dialer \<Rightarrow> int \<times> softether_socket option \<times> dialer" where
  "socket_disconnect sock d =
     (case sock of
        None \<Rightarrow> (-1, None, d)
      | Some s \<Rightarrow> (0, Some (s\<lparr>sk_fd := (if 0 \<le> sk_fd s then -1 else sk_fd s), sk_connected := False\<rparr>),
                   if 0 \<le> sk_fd s then os_close (sk_fd s) d else d))"

definition socket_recreate_for_family :: "softether_socket \<Rightarrow> family \<Rightarrow> dialer \<Rightarrow> int \<times> softether_socket \<times> dialer" where
  "socket_recreate_for_family s fam d =
     (if fam \<noteq> AF_INET \<and> fam \<noteq> AF_INET6 then (-1, s, d)
      else if 0 \<le> sk_fd s \<and> sk_family s = fam then (0, s, d)
      else let d = (if 0 \<le> sk_fd s then os_close (sk_fd s) d else d); (fd, d) = os_socket d in
           if fd < 0 then (-1, s\<lparr>sk_fd := fd, sk_family := AF_UNSPEC\<rparr>, d)
           else (0, s\<lparr>sk_fd := fd, sk_family := fam\<rparr>, d))"

section \<open>Connecting\<close>

datatype wait_result = W_ready | W_timeout | W_err | W_cancelled

text \<open>
  The wait in slices of at most 200 ms. An interrupted poll is repeated without counting the time; the
  loop ends because every other turn uses up time, and interruptions are answers of a finite script.
\<close>

function cancel_wait :: "int \<Rightarrow> int \<Rightarrow> dialer \<Rightarrow> wait_result \<times> dialer" where
  "cancel_wait timeout_ms waited d =
     (let (c, d1) = read_cancel d in
      if c then (W_cancelled, d1)
      else let remaining = timeout_ms - waited in
           if remaining \<le> 0 then (W_timeout, d1)
           else let slice = (if remaining < 200 then remaining else 200); (a, d2) = os_poll d1 in
                if a = Wait_eintr then cancel_wait timeout_ms waited d2
                else if a = Wait_err then (W_err, d2)
                else if a = Wait_ready then (W_ready, d2)
                else cancel_wait timeout_ms (waited + slice) d2)"
  by pat_completeness auto
termination
  by (relation "measure (\<lambda>(t, w, d). length (dl_poll d) + nat (t - w))")
    (auto simp: os_poll_def read_cancel_def split: list.splits if_splits)

text \<open>\<open>cancel\<close>: a cancel flag was given; without one a single poll waits for the whole timeout.\<close>

definition wait_connected :: "bool \<Rightarrow> int \<Rightarrow> dialer \<Rightarrow> wait_result \<times> dialer" where
  "wait_connected cancel timeout_ms d =
     (if \<not> cancel
      then let (a, d) = os_poll d in
           ((case a of Wait_ready \<Rightarrow> W_ready | Wait_timeout \<Rightarrow> W_timeout | Wait_eintr \<Rightarrow> W_err | Wait_err \<Rightarrow> W_err), d)
      else let (r, d) = cancel_wait timeout_ms 0 d in
           if r = W_ready then let (c, d) = read_cancel d in (if c then W_cancelled else W_ready, d) else (r, d))"

fun addr_family :: "sock_addr \<Rightarrow> family" where
  "addr_family (Sa_in a p) = AF_INET"
| "addr_family (Sa_in6 a p) = AF_INET6"

definition try_connect_addr ::
  "softether_socket \<Rightarrow> sock_addr \<Rightarrow> int \<Rightarrow> bool \<Rightarrow> dialer \<Rightarrow> int \<times> softether_socket \<times> dialer" where
  "try_connect_addr s ai timeout_ms cancel d =
     (let (rc, s, d) = socket_recreate_for_family s (addr_family ai) d in
      if rc \<noteq> 0 then (-1, s, d)
      else let s = s\<lparr>sk_addr := Some ai\<rparr>; (a, d) = os_connect d in
           (case a of
              Conn_ok \<Rightarrow> (0, s, d)
            | Conn_err \<Rightarrow> (-1, s, d)
            | Conn_in_progress \<Rightarrow>
                let (w, d) = wait_connected cancel timeout_ms d in
                if w \<noteq> W_ready then (-1, s, d)
                else let (e, d) = os_so_error d in (if e then -1 else 0, s, d)))"

fun try_family :: "family \<Rightarrow> sock_addr list \<Rightarrow> softether_socket \<Rightarrow> int \<Rightarrow> bool \<Rightarrow> dialer \<Rightarrow> int \<times> softether_socket \<times> dialer" where
  "try_family fam [] s timeout_ms cancel d = (-1, s, d)"
| "try_family fam (ai # ais) s timeout_ms cancel d =
     (if addr_family ai \<noteq> fam then try_family fam ais s timeout_ms cancel d
      else let (rc, s, d) = try_connect_addr s ai timeout_ms cancel d in
           if rc = 0 then (0, s\<lparr>sk_connected := True, sk_timeout_ms := timeout_ms\<rparr>, d)
           else try_family fam ais s timeout_ms cancel d)"

text \<open>\<open>ais\<close> is what \<open>getaddrinfo\<close> returned (empty when it failed), in its order.\<close>

definition socket_connect_timeout_cancel ::
  "softether_socket option \<Rightarrow> sock_addr list \<Rightarrow> int \<Rightarrow> bool \<Rightarrow> dialer \<Rightarrow> int \<times> softether_socket option \<times> dialer" where
  "socket_connect_timeout_cancel sock ais timeout_ms cancel d =
     (case sock of
        None \<Rightarrow> (-1, None, d)
      | Some s \<Rightarrow>
          (case ais of
             [] \<Rightarrow> (-1, Some s, d)
           | ai # _ \<Rightarrow>
               let first_family = (if addr_family ai = AF_INET then AF_INET else AF_INET6);
                   second_family = (if first_family = AF_INET then AF_INET6 else AF_INET);
                   (rc, s, d) = try_family first_family ais s timeout_ms cancel d
               in if rc = 0 then (0, Some s, d)
                  else let (rc, s, d) = try_family second_family ais s timeout_ms cancel d in (rc, Some s, d)))"

definition socket_connect_timeout ::
  "softether_socket option \<Rightarrow> sock_addr list \<Rightarrow> int \<Rightarrow> dialer \<Rightarrow> int \<times> softether_socket option \<times> dialer" where
  "socket_connect_timeout sock ais timeout_ms d = socket_connect_timeout_cancel sock ais timeout_ms False d"

end
