(* ===== verification/Additional.thy ===== *)
theory Additional
  imports Lifecycle Login Tcp_Socket
begin

text \<open>
  Opening an additional link: \<open>softether_additional_connect\<close> of \<open>softether_protocol.c\<close> and the background thread
  that calls it. A call gets what the outside answers in a record \<open>link_env\<close>: the operating system's answers to
  dialling, the host's socket protector, the allocator, the handshake and the stream behind it, the date, and what
  the stack holds where the first reply will be read.
\<close>

record link_env =
  ae_mem :: bool
  ae_dialer :: dialer
  ae_addrs :: "sock_addr list"
  ae_protect :: "(int \<Rightarrow> int) option"
  ae_timeout_ms :: int
  ae_alloc :: "net \<Rightarrow> nat option"
  ae_ctx_ok :: bool
  ae_hs :: "hs_answer list"
  ae_ssl :: "stream option"
  ae_fd_ok :: bool
  ae_date :: "byte list"
  ae_stack :: "byte list"

section \<open>Requests and replies\<close>

definition crlf :: "byte list" where "crlf = [0x0D, 0x0A]"

function dec_digits :: "nat \<Rightarrow> byte list" where
  "dec_digits n = (if n < 10 then [0x30 + word_of_nat n] else dec_digits (n div 10) @ [0x30 + word_of_nat (n mod 10)])"
  by pat_completeness auto
termination by (relation "measure id") auto

text \<open>
  \<open>snprintf\<close> into an array of \<open>n\<close> bytes. A text that does not fit would make the copy that follows read what was
  never written; it does not happen, as the lengths of the parts are bounded.
\<close>

definition c_snprintf :: "nat \<Rightarrow> byte list \<Rightarrow> byte list option" where
  "c_snprintf n s = (if length s < n then Some s else None)"

text \<open>The address as \<open>%s\<close> prints the 64-byte array.\<close>

definition server_ip_str :: "softether_connection \<Rightarrow> byte list" where
  "server_ip_str c = c_str (take 64 (cn_server_ip c))"

definition vpnconnect :: "byte list" where "vpnconnect = str ''VPNCONNECT''"

definition connect_cgi_request :: "byte list \<Rightarrow> byte list" where
  "connect_cgi_request ip =
     str ''POST /vpnsvc/connect.cgi HTTP/1.1'' @ crlf @ str ''Host: '' @ ip @ crlf @ str ''Content-Type: image/jpeg'' @ crlf @
     str ''Connection: Keep-Alive'' @ crlf @ str ''Content-Length: '' @ dec_digits (length vpnconnect) @ crlf @ crlf"

definition vpn_cgi_request :: "byte list \<Rightarrow> byte list \<Rightarrow> nat \<Rightarrow> byte list" where
  "vpn_cgi_request date ip len =
     str ''POST /vpnsvc/vpn.cgi HTTP/1.1'' @ crlf @ str ''Date: '' @ date @ crlf @ str ''Host: '' @ ip @ crlf @
     str ''Keep-Alive: timeout=15; max=19'' @ crlf @ str ''Connection: Keep-Alive'' @ crlf @
     str ''Content-Type: application/octet-stream'' @ crlf @ str ''Content-Length: '' @ dec_digits len @ crlf @ crlf"

fun strstr :: "byte list \<Rightarrow> byte list \<Rightarrow> byte list option" where
  "strstr needle [] = (if needle = [] then Some [] else None)"
| "strstr needle (b # s) = (if take (length needle) (b # s) = needle then Some (b # s) else strstr needle s)"

text \<open>Headers byte by byte, up to an empty line; \<open>None\<close> when a read fails or \<open>n\<close> bytes held no empty line.\<close>

fun read_headers :: "nat \<Rightarrow> nat option \<Rightarrow> byte list \<Rightarrow> net \<Rightarrow> (byte list option \<times> net) option" where
  "read_headers 0 ssl acc nt = Some (None, nt)"
| "read_headers (Suc n) ssl acc nt =
     do { (r, bs, nt) \<leftarrow> ssl_read ssl 1 nt;
          if r \<le> 0 then Some (None, nt)
          else do { let acc = acc @ bs;
                    if 4 \<le> length acc \<and> drop (length acc - 4) acc = crlf @ crlf then Some (Some acc, nt)
                    else read_headers n ssl acc nt } }"

text \<open>The Content-Length of a C string: 0 without the header, \<open>None\<close> for a malformed value.\<close>

definition content_length :: "byte list \<Rightarrow> nat option" where
  "content_length s =
     (let found = (case strstr (str ''Content-Length: '') s of Some r \<Rightarrow> Some r | None \<Rightarrow> strstr (str ''content-length: '') s) in
      case found of
        None \<Rightarrow> Some 0
      | Some r \<Rightarrow> let cl = parse_content_length (Some (drop 16 r)) in if cl < 0 then None else Some (nat cl))"

definition REPLY_SIZE :: nat where "REPLY_SIZE = 4096"

text \<open>
  A reply into an array of 4096 bytes: its body (empty when it does not fit, and then it stays in the stream), or
  \<open>None\<close>. \<open>stack\<close> is given when the code does not terminate the headers with a NUL before it searches them: the
  search then goes on into what the array held before, and outside it when there is no NUL either.
\<close>

definition read_reply :: "byte list option \<Rightarrow> nat option \<Rightarrow> net \<Rightarrow> (byte list option \<times> net) option" where
  "read_reply stack ssl nt =
     do { (hdr, nt) \<leftarrow> read_headers (REPLY_SIZE - 1) ssl [] nt;
          case hdr of
            None \<Rightarrow> Some (None, nt)
          | Some h \<Rightarrow>
              let hay = (case stack of None \<Rightarrow> h @ [0] | Some s \<Rightarrow> h @ drop (length h) s) in
              if 0 \<notin> set hay then None
              else (case content_length (c_str hay) of
                      None \<Rightarrow> Some (None, nt)
                    | Some cl \<Rightarrow>
                        if 0 < cl \<and> length h + cl < REPLY_SIZE
                        then do { (r, body, nt) \<leftarrow> ssl_read_all_ctx ssl cl [] nt;
                                  Some (if r < 0 then None else Some body, nt) }
                        else Some (Some [], nt)) }"

definition additional_pack :: "softether_connection \<Rightarrow> (byte list \<times> nat) option" where
  "additional_pack c =
     (let size = 4 + PACK_STR_SZ (str ''method'') (str ''additional_connect'') + PACK_DATA_SZ (str ''session_key'') (word_of_nat SHA1_SIZE) in
      do { cur \<leftarrow> pack_write_uint32 (replicate (unat (size + 64)) 0, 0) 2;
           run_calls [Add_str (str ''method'') (str ''additional_connect''),
             Add_data (str ''session_key'') (Some (arr SHA1_SIZE (cn_session_key c))) (word_of_nat SHA1_SIZE)] cur })"

text \<open>The direction the server assigns, or \<open>None\<close> when it refuses the link with an error.\<close>

definition reply_direction :: "byte list \<Rightarrow> u32 option" where
  "reply_direction body =
     (if 4 \<le> length body
      then let n = word_of_nat (length body) in
           (case pack_get_int_proto (Some body) n (Some (str ''error'')) of
              Some e \<Rightarrow> if e \<noteq> 0 then None
                        else Some (case pack_get_int_proto (Some body) n (Some (str ''direction'')) of Some d \<Rightarrow> d | None \<Rightarrow> 0)
            | None \<Rightarrow> Some (case pack_get_int_proto (Some body) n (Some (str ''direction'')) of Some d \<Rightarrow> d | None \<Rightarrow> 0))
      else Some 0)"

text \<open>Steps 3 and 4: the watermark, the Hello, the request and its reply; \<open>None\<close> (inside) means to give the link up.\<close>

definition send_watermark :: "nat option \<Rightarrow> softether_connection \<Rightarrow> net \<Rightarrow> (bool \<times> net) option" where
  "send_watermark ssl c nt =
     do { http_post \<leftarrow> c_snprintf 1024 (connect_cgi_request (server_ip_str c));
          let (ok, nt) = net_malloc nt;
          if \<not> ok then Some (False, nt)
          else do { (r, nt) \<leftarrow> ssl_write ssl (http_post @ vpnconnect) nt; Some (0 < r, nt) } }"

definition send_additional :: "link_env \<Rightarrow> nat option \<Rightarrow> softether_connection \<Rightarrow> net \<Rightarrow> (bool \<times> net) option" where
  "send_additional E ssl c nt =
     (let (ok, nt) = net_malloc nt in
      if \<not> ok then Some (False, nt)
      else do { (buf, n) \<leftarrow> additional_pack c;
                auth_hdr \<leftarrow> c_snprintf 512 (vpn_cgi_request (take 63 (ae_date E)) (server_ip_str c) n);
                pack \<leftarrow> mem_read buf 0 n;
                let (ok, nt) = net_malloc nt;
                if \<not> ok then Some (False, nt)
                else do { (r, nt) \<leftarrow> ssl_write ssl (auth_hdr @ pack) nt; Some (0 < r, nt) } })"

definition negotiate_link :: "link_env \<Rightarrow> nat option \<Rightarrow> softether_connection \<Rightarrow> net \<Rightarrow> (u32 option \<times> net) option" where
  "negotiate_link E ssl c nt =
     do { (ok, nt) \<leftarrow> send_watermark ssl c nt;
          if \<not> ok then Some (None, nt)
          else do { (hello, nt) \<leftarrow> read_reply (Some (ae_stack E)) ssl nt;
                    if hello = None then Some (None, nt)
                    else do { (ok, nt) \<leftarrow> send_additional E ssl c nt;
                              if \<not> ok then Some (None, nt)
                              else do { (reply, nt) \<leftarrow> read_reply None ssl nt;
                                        Some (case reply of None \<Rightarrow> None | Some body \<Rightarrow> reply_direction body, nt) } } } }"

section \<open>Opening the link\<close>

text \<open>Step 1: the socket, protected by the host before it is connected. The result is its descriptor.\<close>

definition dial_link :: "link_env \<Rightarrow> int option \<times> dialer" where
  "dial_link E =
     (let (sock, d) = socket_create (ae_mem E) False (ae_dialer E) in
      case sock of
        None \<Rightarrow> (None, d)
      | Some s \<Rightarrow>
          if (case ae_protect E of None \<Rightarrow> False | Some f \<Rightarrow> f (sk_fd s) \<noteq> 0) then (None, socket_destroy sock d)
          else let (rc, sock, d) = socket_connect_timeout sock (ae_addrs E) (ae_timeout_ms E) d in
               (case sock of
                  None \<Rightarrow> (None, d)
                | Some s \<Rightarrow> if rc \<noteq> 0 then (None, socket_destroy (Some s) d)
                            else (Some (sk_fd s), socket_destroy (Some (s\<lparr>sk_fd := -1\<rparr>)) d)))"

definition link_failed :: "softether_connection \<Rightarrow> softether_connection" where
  "link_failed c = c\<lparr>cn_additional_failed_count := cn_additional_failed_count c + 1\<rparr>"

definition abort_link :: "int \<Rightarrow> nat option \<Rightarrow> softether_connection \<Rightarrow> net \<Rightarrow> (int \<times> softether_connection \<times> net) option" where
  "abort_link fd ssl c nt =
     do { nt \<leftarrow> ssl_shutdown ssl nt; nt \<leftarrow> ssl_destroy ssl nt; Some (-1, link_failed c, net_close fd nt) }"

definition install_link :: "nat \<Rightarrow> int \<Rightarrow> nat option \<Rightarrow> u32 \<Rightarrow> u64 \<Rightarrow> softether_connection \<Rightarrow> softether_connection" where
  "install_link slot fd ssl direction now c =
     c\<lparr>cn_additional := (cn_additional c)[slot := (cn_additional c ! slot)
          \<lparr>ts_socket_fd := fd, ts_ssl_ctx := ssl, ts_ssl := ssl, ts_direction := sint direction, ts_last_recv := now,
           ts_late_count := 0, ts_active := True\<rparr>],
       cn_num_additional := cn_num_additional c + 1, cn_additional_failed_count := 0\<rparr>"

definition free_slot :: "softether_connection \<Rightarrow> nat option" where
  "free_slot c = List.find (\<lambda>i. \<not> ts_active (cn_additional c ! i)) [0..<MAX_SE_CONNECTIONS]"

definition softether_additional_connect ::
  "link_env \<Rightarrow> softether_connection \<Rightarrow> net \<Rightarrow> (int \<times> softether_connection \<times> net) option" where
  "softether_additional_connect E c nt =
     (if cn_state c \<noteq> STATE_CONNECTED then Some (-1, c, nt)
      else case free_slot c of
        None \<Rightarrow> Some (-1, c, nt)
      | Some slot \<Rightarrow>
          let (fd, d) = dial_link E;
              nt = fold net_close (drop (length (dl_closed (ae_dialer E))) (dl_closed d)) nt in
          case fd of
            None \<Rightarrow> Some (-1, link_failed c, nt)
          | Some fd \<Rightarrow>
              let (ssl, nt) = ssl_create_client (ae_alloc E nt) (ae_ctx_ok E) (ae_hs E) nt in
              if ssl = None then Some (-1, link_failed c, net_close fd nt)
              else do { (rc, nt) \<leftarrow> ssl_connect ssl (ae_ssl E) (ae_fd_ok E) nt;
                        if rc \<noteq> 0 then do { nt \<leftarrow> ssl_destroy ssl nt; Some (-1, link_failed c, net_close fd nt) }
                        else do { (dir, nt) \<leftarrow> negotiate_link E ssl c nt;
                                  case dir of
                                    None \<Rightarrow> abort_link fd ssl c nt
                                  | Some direction \<Rightarrow>
                                      let (now, nt) = softether_tick_ms nt
                                      in Some (0, install_link slot fd ssl direction now c, nt) } })"

definition additional_connect_thread_routine ::
  "link_env \<Rightarrow> softether_connection \<Rightarrow> net \<Rightarrow> (softether_connection \<times> net) option" where
  "additional_connect_thread_routine E c nt =
     do { (result, c, nt) \<leftarrow> softether_additional_connect E c nt;
          Some (c\<lparr>cn_additional_connect_result := result, cn_additional_connecting := False\<rparr>, nt) }"

end
