(* ===== verification/Lifecycle_Run.thy ===== *)
theory Lifecycle_Run
  imports Lifecycle Tunnel_Run
begin

text \<open>
  Teardown of a connection: the locks are taken and released in order, every TLS context the connection owns
  is destroyed exactly once and no other is touched, and every descriptor it owns is closed exactly once.
\<close>

section \<open>Runs of locks\<close>

lemma run_lock_chain:
  "sorted_wrt lock_before ls \<Longrightarrow> \<forall>h \<in> set H. \<forall>l \<in> set ls. lock_before h l \<Longrightarrow>
     run_locks H (map Lock ls @ es) = run_locks (rev ls @ H) es"
proof (induction ls arbitrary: H)
  case (Cons l ls)
  have "list_all (\<lambda>h. lock_before h l) H" using Cons.prems(2) by (simp add: list_all_iff)
  then have "run_locks H (map Lock (l # ls) @ es) = run_locks (l # H) (map Lock ls @ es)" by simp
  also have "\<dots> = run_locks (rev ls @ l # H) es" using Cons by auto
  finally show ?case by simp
qed simp

lemma run_unlock_chain: "run_locks (ls @ H) (map Unlock ls @ es) = run_locks H es"
  by (induction ls) simp_all

lemma run_run: "run_locks H a = Some H' \<Longrightarrow> run_locks H (a @ b) = run_locks H' b"
  by (simp add: run_locks_append)

lemma fold_ev:
  "nt_trace (fold (\<lambda>l. net_ev (f l)) ls nt) = nt_trace nt @ map f ls" "nt_tls (fold (\<lambda>l. net_ev (f l)) ls nt) = nt_tls nt"
  "nt_closed (fold (\<lambda>l. net_ev (f l)) ls nt) = nt_closed nt"
  by (induction ls arbitrary: nt) (simp_all, simp add: net_ev_def)

lemma teardown_sorted: "sorted_wrt lock_before (L_connect # teardown_locks)"
  by (auto simp: teardown_locks_def sorted_wrt_append sorted_wrt_map intro: sorted_wrt_mono_rel [OF _ sorted_wrt_upt])

lemma teardown_levels: "list_all (\<lambda>h. lock_level h < 3) (rev teardown_locks @ [L_connect])"
  by (auto simp: teardown_locks_def list_all_iff)

text \<open>
  The order of the locks alone, without the uses of \<open>SSL\<close> objects: what also holds when a handshake fails
  (\<open>ssl_connect\<close> then frees its object outside the lock).
\<close>

fun is_touch :: "lock_event \<Rightarrow> bool" where
  "is_touch (Touch i) = True"
| "is_touch (Lock l) = False"
| "is_touch (Unlock l) = False"

definition vis :: "bool \<Rightarrow> lock_event list \<Rightarrow> lock_event list" where
  "vis strict tr = (if strict then tr else filter (\<lambda>e. \<not> is_touch e) tr)"

definition seg_of :: "bool \<Rightarrow> nat \<Rightarrow> net \<Rightarrow> net \<Rightarrow> bool" where
  "seg_of strict n nt nt' \<longleftrightarrow> (\<exists>tr. nt_trace nt' = nt_trace nt @ tr \<and> disciplined n (vis strict tr))"

definition order_seg :: "nat \<Rightarrow> net \<Rightarrow> net \<Rightarrow> bool" where
  "order_seg n nt nt' \<longleftrightarrow> seg_of False n nt nt'"

lemma vis_simps [simp]: "vis b (x @ y) = vis b x @ vis b y" "vis b (map Lock ls) = map Lock ls" "vis b (map Unlock ls) = map Unlock ls"
  "vis b [] = []" "vis b (Lock l # tr) = Lock l # vis b tr" "vis b (Unlock l # tr) = Unlock l # vis b tr"
  by (auto simp: vis_def filter_map o_def)

lemma lock_seg_strict: "lock_seg n nt nt' \<longleftrightarrow> seg_of True n nt nt'"
  by (simp add: lock_seg_def seg_of_def vis_def)

lemma run_vis: "run_locks H tr = Some H' \<Longrightarrow> run_locks H (vis b tr) = Some H'"
proof (induction H tr rule: run_locks.induct)
  case (4 H i es)
  then show ?case by (cases b) (auto simp: vis_def split: if_splits)
qed (auto split: if_splits list.splits)

lemma seg_of_weaken: "lock_seg n nt nt' \<Longrightarrow> seg_of b n nt nt'"
  unfolding lock_seg_def seg_of_def disciplined_def using run_vis by blast

lemma seg_of_trans: "seg_of s n x y \<Longrightarrow> seg_of s n y z \<Longrightarrow> seg_of s n x z"
  unfolding seg_of_def by (metis append_assoc disciplined_append vis_simps(1))

lemma seg_of_mono: "seg_of s m x y \<Longrightarrow> n \<le> m \<Longrightarrow> seg_of s n x y"
  unfolding seg_of_def by (blast intro: disciplined_mono)

lemma seg_of_refl [simp]: "seg_of s n nt nt"
  by (simp add: seg_of_def)

text \<open>The critical section of \<open>softether_disconnect\<close>: a segment that holds no link lock of its own.\<close>

lemma teardown_seg:
  assumes "seg_of b 3 (net_ev (Lock L_connect) nt) nt1" "nt_trace nt1' = nt_trace nt1"
    and "seg_of b 3 (fold (\<lambda>l. net_ev (Lock l)) teardown_locks nt1') nt2"
    and "nt_trace nt3 = nt_trace (fold (\<lambda>l. net_ev (Unlock l)) (rev teardown_locks) nt2)"
  shows "seg_of b 0 nt (net_ev (Unlock L_connect) nt3)"
proof -
  obtain t0 where t0: "nt_trace nt1 = nt_trace nt @ [Lock L_connect] @ t0" "disciplined 3 (vis b t0)"
    using assms(1) by (auto simp: seg_of_def)
  obtain t1 where t1: "nt_trace nt2 = nt_trace nt1 @ map Lock teardown_locks @ t1" "disciplined 3 (vis b t1)"
    using assms(2,3) by (auto simp: seg_of_def fold_ev)
  let ?tr = "[Lock L_connect] @ t0 @ map Lock teardown_locks @ t1 @ map Unlock (rev teardown_locks) @ [Unlock L_connect]"
  have "run_locks [L_connect] (vis b t0) = Some [L_connect]" using t0(2) by (simp add: disciplined_def)
  moreover have "run_locks (rev teardown_locks @ [L_connect]) (vis b t1) = Some (rev teardown_locks @ [L_connect])"
    using t1(2) teardown_levels unfolding disciplined_def by blast
  moreover have "run_locks [L_connect] (map Lock teardown_locks @ es) = run_locks (rev teardown_locks @ [L_connect]) es" for es
    using teardown_sorted by (intro run_lock_chain) auto
  ultimately have "run_locks [L_connect] (vis b t0 @ map Lock teardown_locks @ vis b t1 @ map Unlock (rev teardown_locks) @ [Unlock L_connect]) = Some []"
    using run_unlock_chain [of "rev teardown_locks" "[L_connect]" "[Unlock L_connect]"] by (simp only: run_run) simp
  then have "disciplined 0 (vis b ?tr)" by (auto simp: disciplined_def list_all_iff)
  moreover have "nt_trace (net_ev (Unlock L_connect) nt3) = nt_trace nt @ ?tr" using t0(1) t1(1) assms(4) by (simp add: fold_ev)
  ultimately show ?thesis unfolding seg_of_def by blast
qed

section \<open>Destroying contexts\<close>

definition frees :: "nat set \<Rightarrow> net \<Rightarrow> net \<Rightarrow> bool" where
  "frees S nt nt' \<longleftrightarrow> (\<forall>x \<in> S. sc_freed (nt_tls nt' x)) \<and> (\<forall>x. x \<notin> S \<longrightarrow> nt_tls nt' x = nt_tls nt x) \<and>
     lock_seg 3 nt nt' \<and> nt_closed nt' = nt_closed nt"

lemma frees_none [simp]: "frees {} nt nt"
  by (simp add: frees_def)

lemma frees_Un:
  assumes "frees S nt nt1" "frees T nt1 nt2"
  shows "frees (S \<union> T) nt nt2"
proof -
  have "lock_seg 3 nt nt2" using assms lock_seg_trans unfolding frees_def by blast
  moreover have "sc_freed (nt_tls nt2 x)" if "x \<in> S \<union> T" for x using that assms unfolding frees_def by (cases "x \<in> T") auto
  ultimately show ?thesis using assms unfolding frees_def by auto
qed

lemma frees_alive: "frees S nt nt' \<Longrightarrow> set_option ssl \<inter> S = {} \<Longrightarrow> tls_alive ssl nt' = tls_alive ssl nt"
  by (cases ssl) (auto simp: frees_def tls_alive_def)

lemma kill_ok:
  assumes "tls_alive ssl nt"
  shows "\<exists>nt1 nt2. ssl_shutdown ssl nt = Some nt1 \<and> ssl_destroy ssl nt1 = Some nt2 \<and> frees (set_option ssl) nt nt2"
proof -
  obtain nt1 where 1: "ssl_shutdown ssl nt = Some nt1" using ssl_shutdown_total [OF assms] by blast
  note s = ssl_shutdown_seg [OF 1]
  have "tls_alive ssl nt1" using assms s(2) by (simp add: tls_alive_def)
  then obtain nt2 where 2: "ssl_destroy ssl nt1 = Some nt2" using ssl_destroy_total by blast
  note d = ssl_destroy_seg [OF 2]
  have c: "nt_closed nt1 = nt_closed nt" "nt_closed nt2 = nt_closed nt1"
    using 1 2 by (auto simp: ssl_shutdown_def ssl_destroy_def net_ev_def tls_set_def Let_def split: option.splits if_splits)
  have "lock_seg 3 nt nt2" using s(1) d(1) by (rule lock_seg_trans)
  moreover have "nt_tls nt2 x = nt_tls nt x" if "ssl \<noteq> Some x" for x using that s(2) [of x] d(2) [of x] by simp
  moreover have "sc_freed (nt_tls nt2 x)" if "ssl = Some x" for x using that d(2) [of x] by simp
  ultimately have "frees (set_option ssl) nt nt2" using c by (auto simp: frees_def)
  then show ?thesis using 1 2 by blast
qed

definition slot_ctx :: "softether_connection \<Rightarrow> nat \<Rightarrow> nat set" where
  "slot_ctx c i = set_option (ts_ssl_ctx (cn_additional c ! i))"

lemma take_slot [simp]: "take_ssl_ctx_slot s = (s, None)"
  by (cases s) (simp_all add: take_ssl_ctx_slot_def)

lemma destroy_slots_ok:
  assumes "distinct ix" "\<forall>i \<in> set ix. i < length (cn_additional c)" "\<forall>i \<in> set ix. tls_alive (ts_ssl_ctx (cn_additional c ! i)) nt"
    and "\<forall>i \<in> set ix. \<forall>j \<in> set ix. i \<noteq> j \<longrightarrow> slot_ctx c i \<inter> slot_ctx c j = {}"
  shows "\<exists>l nt'. destroy_slots ix c nt = Some (c\<lparr>cn_additional := l\<rparr>, nt') \<and> length l = length (cn_additional c) \<and>
     (\<forall>k < length l. l ! k = (if k \<in> set ix then (cn_additional c ! k)\<lparr>ts_ssl_ctx := None\<rparr> else cn_additional c ! k)) \<and>
     frees (\<Union>i \<in> set ix. slot_ctx c i) nt nt'"
  using assms
proof (induction ix arbitrary: c nt)
  case Nil
  have "c = c\<lparr>cn_additional := cn_additional c\<rparr>" by simp
  then show ?case by (intro exI [of _ "cn_additional c"] exI [of _ nt]) simp
next
  case (Cons i ix)
  let ?l = "(cn_additional c)[i := (cn_additional c ! i)\<lparr>ts_ssl_ctx := None\<rparr>]"
  let ?c = "c\<lparr>cn_additional := ?l\<rparr>"
  obtain nt1 nt2 where k: "ssl_shutdown (ts_ssl_ctx (cn_additional c ! i)) nt = Some nt1"
      "ssl_destroy (ts_ssl_ctx (cn_additional c ! i)) nt1 = Some nt2" "frees (slot_ctx c i) nt nt2"
    using kill_ok [of "ts_ssl_ctx (cn_additional c ! i)" nt] Cons.prems(3) by (auto simp: slot_ctx_def)
  have ni: "i \<noteq> j" if "j \<in> set ix" for j using that Cons.prems(1) by auto
  have sc: "slot_ctx ?c j = slot_ctx c j" if "j \<in> set ix" for j using ni [OF that] by (simp add: slot_ctx_def)
  have al: "tls_alive (ts_ssl_ctx (cn_additional ?c ! j)) nt2" if j: "j \<in> set ix" for j
  proof -
    have "slot_ctx c j \<inter> slot_ctx c i = {}" using Cons.prems(4) j ni [OF j] by (metis list.set_intros)
    then show ?thesis using frees_alive [OF k(3)] Cons.prems(3) j ni [OF j] by (simp add: slot_ctx_def)
  qed
  have dj: "\<forall>j \<in> set ix. \<forall>k \<in> set ix. j \<noteq> k \<longrightarrow> slot_ctx ?c j \<inter> slot_ctx ?c k = {}"
  proof (intro ballI impI)
    fix j k assume "j \<in> set ix" "k \<in> set ix" "j \<noteq> k"
    then show "slot_ctx ?c j \<inter> slot_ctx ?c k = {}" using Cons.prems(4) by (simp only: sc) simp
  qed
  obtain l nt' where r: "destroy_slots ix ?c nt2 = Some (?c\<lparr>cn_additional := l\<rparr>, nt')" "length l = length ?l"
      "\<forall>k < length l. l ! k = (if k \<in> set ix then (?l ! k)\<lparr>ts_ssl_ctx := None\<rparr> else ?l ! k)"
      "frees (\<Union>j \<in> set ix. slot_ctx ?c j) nt2 nt'"
  proof -
    have d: "distinct ix" "\<forall>j \<in> set ix. j < length (cn_additional ?c)" using Cons.prems(1,2) by simp_all
    have al2: "\<forall>j \<in> set ix. tls_alive (ts_ssl_ctx (cn_additional ?c ! j)) nt2" using al by blast
    have addl: "cn_additional ?c = ?l" by simp
    from Cons.IH [OF d al2 dj] show thesis using that unfolding addl by blast
  qed
  have "(\<Union>j \<in> set ix. slot_ctx ?c j) = (\<Union>j \<in> set ix. slot_ctx c j)" using sc by simp
  then have "frees (\<Union>j \<in> set (i # ix). slot_ctx c j) nt nt'" using frees_Un [OF k(3)] r(4) by simp
  moreover have "destroy_slots (i # ix) c nt = Some (c\<lparr>cn_additional := l\<rparr>, nt')" using k r(1) by (simp add: Let_def)
  moreover have "\<forall>k < length l. l ! k = (if k \<in> set (i # ix) then (cn_additional c ! k)\<lparr>ts_ssl_ctx := None\<rparr> else cn_additional c ! k)"
    using r(2,3) Cons.prems(2) ni by (auto simp: nth_list_update)
  ultimately show ?case using r(2) by (intro exI conjI) (assumption | simp)+
qed

lemma close_fds: "nt_closed (fold close_fd fds nt) = nt_closed nt @ filter (\<lambda>fd. 0 \<le> fd) fds"
  "nt_tls (fold close_fd fds nt) = nt_tls nt" "nt_trace (fold close_fd fds nt) = nt_trace nt"
  by (induction fds arbitrary: nt) (simp_all add: close_fd_def net_close_def)

lemma close_fd_eq: "close_fd fd nt = fold close_fd [fd] nt"
  by simp


section \<open>Closing the links\<close>

definition closed_slot :: "softether_tcp_sock \<Rightarrow> softether_tcp_sock" where
  "closed_slot ts = (mark_closed ts)\<lparr>ts_ssl_ctx := None\<rparr>"

definition close_conn :: "softether_connection \<Rightarrow> softether_connection" where
  "close_conn c = c\<lparr>cn_additional := map closed_slot (cn_additional c), cn_num_additional := 0, cn_additional_failed_count := 0\<rparr>"

definition slot_contexts :: "softether_connection \<Rightarrow> nat set" where
  "slot_contexts c = (\<Union>i < MAX_SE_CONNECTIONS. slot_ctx c i)"

definition primary_context :: "softether_connection \<Rightarrow> nat set" where
  "primary_context c = (if cn_ssl c \<noteq> None \<and> cn_ssl_ctx c \<noteq> None then set_option (cn_ssl c) else {})"

lemma inv_slots:
  assumes "conn_inv c nt"
  shows "length (cn_additional c) = MAX_SE_CONNECTIONS" "own_contexts c" "tls_alive (cn_ssl c) nt"
    "i < MAX_SE_CONNECTIONS \<Longrightarrow> slot_ok (cn_additional c ! i) nt"
  using assms unfolding conn_inv_def links_inv_def by blast+

lemma own_apart:
  assumes "own_contexts c"
  shows "i < MAX_SE_CONNECTIONS \<Longrightarrow> j < MAX_SE_CONNECTIONS \<Longrightarrow> i \<noteq> j \<Longrightarrow> slot_ctx c i \<inter> slot_ctx c j = {}"
    "set_option (cn_ssl c) \<inter> slot_contexts c = {}"
proof -
  have own: "cn_ssl c \<noteq> Some x \<and> (\<forall>j < MAX_SE_CONNECTIONS. j \<noteq> i \<longrightarrow> ts_ssl_ctx (cn_additional c ! j) \<noteq> Some x)"
    if "i < MAX_SE_CONNECTIONS" "x \<in> slot_ctx c i" for i x
    using assms that unfolding own_contexts_def slot_ctx_def by (simp add: elem_set)
  show "slot_ctx c i \<inter> slot_ctx c j = {}" if "i < MAX_SE_CONNECTIONS" "j < MAX_SE_CONNECTIONS" "i \<noteq> j"
  proof (rule ccontr)
    assume "slot_ctx c i \<inter> slot_ctx c j \<noteq> {}"
    then obtain x where x: "x \<in> slot_ctx c i" "x \<in> slot_ctx c j" by blast
    then have "ts_ssl_ctx (cn_additional c ! j) = Some x" by (simp add: slot_ctx_def elem_set)
    then show False using own [OF that(1) x(1)] that(2,3) by simp
  qed
  show "set_option (cn_ssl c) \<inter> slot_contexts c = {}"
  proof (rule ccontr)
    assume "set_option (cn_ssl c) \<inter> slot_contexts c \<noteq> {}"
    then obtain x i where x: "cn_ssl c = Some x" "i < MAX_SE_CONNECTIONS" "x \<in> slot_ctx c i"
      unfolding slot_contexts_def by (auto simp: elem_set)
    then show False using own [OF x(2,3)] by simp
  qed
qed

lemma idle_links_inv:
  assumes "tls_alive (cn_ssl c) nt" "length (cn_additional c) = MAX_SE_CONNECTIONS" "cn_num_additional c = 0"
    and "\<forall>t \<in> set (cn_additional c). \<not> ts_active t \<and> ts_ssl t = None \<and> ts_ssl_ctx t = None"
  shows "links_inv c nt"
proof -
  have "\<not> ts_active (cn_additional c ! i) \<and> ts_ssl (cn_additional c ! i) = None \<and> ts_ssl_ctx (cn_additional c ! i) = None"
    if i: "i < MAX_SE_CONNECTIONS" for i
  proof -
    have "cn_additional c ! i \<in> set (cn_additional c)" using assms(2) i by simp
    then show ?thesis using bspec [OF assms(4)] by simp
  qed
  moreover have "filter ts_active (cn_additional c) = []" using assms(4) by (simp add: filter_empty_conv)
  ultimately show ?thesis using assms(1-3) by (simp add: links_inv_def slot_ok_def own_contexts_def tls_alive_def)
qed

lemma close_additional_ok:
  assumes inv: "conn_inv c nt" and nb: "\<not> cn_additional_connecting c"
  shows "\<exists>nt'. softether_close_additional bg c nt = Some (close_conn c, nt') \<and> conn_inv (close_conn c) nt' \<and>
     frees (slot_contexts c) (fold close_fd (saved_fds c) nt) nt'"
proof -
  let ?c = "c\<lparr>cn_additional := map mark_closed (cn_additional c)\<rparr>" let ?nt = "fold close_fd (saved_fds c) nt"
  note s = inv_slots [OF inv]
  have nth: "cn_additional ?c ! i = mark_closed (cn_additional c ! i)" if "i < MAX_SE_CONNECTIONS" for i using that s(1) by simp
  have mc: "ts_ssl_ctx (mark_closed t) = ts_ssl_ctx t" for t by (simp add: mark_closed_def)
  have sc: "slot_ctx ?c i = slot_ctx c i" if "i < MAX_SE_CONNECTIONS" for i unfolding slot_ctx_def nth [OF that] mc ..
  have al: "\<forall>i \<in> set [0..<MAX_SE_CONNECTIONS]. tls_alive (ts_ssl_ctx (cn_additional ?c ! i)) ?nt"
    using s(4) nth mc by (simp add: slot_ok_def tls_alive_def close_fds)
  have dj: "\<forall>i \<in> set [0..<MAX_SE_CONNECTIONS]. \<forall>j \<in> set [0..<MAX_SE_CONNECTIONS]. i \<noteq> j \<longrightarrow> slot_ctx ?c i \<inter> slot_ctx ?c j = {}"
    using own_apart(1) [OF s(2)] sc by simp
  have ln: "\<forall>i \<in> set [0..<MAX_SE_CONNECTIONS]. i < length (cn_additional ?c)" using s(1) by simp
  obtain l nt' where d: "destroy_slots [0..<MAX_SE_CONNECTIONS] ?c ?nt = Some (?c\<lparr>cn_additional := l\<rparr>, nt')"
      "length l = length (cn_additional ?c)"
      "\<forall>k < length l. l ! k = (if k \<in> set [0..<MAX_SE_CONNECTIONS] then (cn_additional ?c ! k)\<lparr>ts_ssl_ctx := None\<rparr> else cn_additional ?c ! k)"
      "frees (\<Union>i \<in> set [0..<MAX_SE_CONNECTIONS]. slot_ctx ?c i) ?nt nt'"
    using destroy_slots_ok [OF distinct_upt ln al dj] by blast
  have l: "l = map closed_slot (cn_additional c)"
    using d(2,3) s(1) by (intro nth_equalityI) (simp_all add: closed_slot_def)
  have f: "frees (slot_contexts c) ?nt nt'" using d(4) sc by (simp add: slot_contexts_def lessThan_atLeast0)
  have e: "?c\<lparr>cn_additional := l, cn_num_additional := 0, cn_additional_failed_count := 0\<rparr> = close_conn c"
    unfolding close_conn_def l by simp
  have "softether_close_additional bg c nt = Some (close_conn c, nt')"
    unfolding softether_close_additional_def join_additional_def using nb d(1) by (simp add: Let_def e [symmetric])
  moreover have "tls_alive (cn_ssl c) nt'"
    using frees_alive [OF f own_apart(2) [OF s(2)]] s(3) by (simp add: tls_alive_def close_fds)
  then have "links_inv (close_conn c) nt'"
  proof (intro idle_links_inv)
    show "\<forall>t \<in> set (cn_additional (close_conn c)). \<not> ts_active t \<and> ts_ssl t = None \<and> ts_ssl_ctx t = None"
    proof
      fix t assume "t \<in> set (cn_additional (close_conn c))"
      then obtain i where i: "i < MAX_SE_CONNECTIONS" "t = closed_slot (cn_additional c ! i)"
        using s(1) by (auto simp: close_conn_def in_set_conv_nth)
      then show "\<not> ts_active t \<and> ts_ssl t = None \<and> ts_ssl_ctx t = None"
        using s(4) [OF i(1)] by (simp add: closed_slot_def mark_closed_def slot_ok_def)
    qed
  qed (simp_all add: close_conn_def s(1))
  then have "conn_inv (close_conn c) nt'" using inv by (simp add: conn_inv_def close_conn_def)
  ultimately show ?thesis using f by blast
qed

lemma close_primary_ok:
  assumes inv: "conn_inv c nt" and idle: "slot_contexts c = {}"
  shows "\<exists>v1 v2 nt'. close_primary_tls c nt = Some (c\<lparr>cn_ssl := v1, cn_ssl_ctx := v2\<rparr>, nt') \<and>
     conn_inv (c\<lparr>cn_ssl := v1, cn_ssl_ctx := v2\<rparr>) nt' \<and> frees (primary_context c) nt nt' \<and>
     (v1 = None \<or> v2 = None)"
proof (cases "cn_ssl c \<noteq> None \<and> cn_ssl_ctx c \<noteq> None")
  case False
  then have p: "primary_context c = {}" by (auto simp: primary_context_def)
  have e: "c = c\<lparr>cn_ssl := cn_ssl c, cn_ssl_ctx := cn_ssl_ctx c\<rparr>" by simp
  show ?thesis using False inv
    by (intro exI [where P = "\<lambda>v. \<exists>w nt'. P v w nt'" for P, of _ "cn_ssl c"]
        exI [where P = "\<lambda>w. \<exists>nt'. P w nt'" for P, of _ "cn_ssl_ctx c"] exI [of _ nt]) (auto simp: close_primary_tls_def p)
next
  case True
  note s = inv_slots [OF inv]
  obtain nt1 nt2 where k: "ssl_shutdown (cn_ssl c) nt = Some nt1" "ssl_destroy (cn_ssl c) nt1 = Some nt2" "frees (set_option (cn_ssl c)) nt nt2"
    using kill_ok [OF s(3)] by blast
  let ?v = "if cn_ssl_ctx c = cn_ssl c then None else cn_ssl_ctx c"
  let ?c = "c\<lparr>cn_ssl := None, cn_ssl_ctx := ?v\<rparr>"
  have "(if cn_ssl_ctx c = cn_ssl c then c\<lparr>cn_ssl := None, cn_ssl_ctx := None\<rparr> else c\<lparr>cn_ssl := None\<rparr>) = ?c" by simp
  then have r: "close_primary_tls c nt = Some (?c, nt2)"
    using True k unfolding close_primary_tls_def by (simp add: Let_def del: not_None_eq split del: if_split)
  have sl: "ts_ssl_ctx (cn_additional c ! i) = None" if "i < MAX_SE_CONNECTIONS" for i
    using idle that by (cases "ts_ssl_ctx (cn_additional c ! i)") (auto simp: slot_contexts_def slot_ctx_def)
  then have sl2: "slot_ok (cn_additional c ! i) nt2" if "i < MAX_SE_CONNECTIONS" for i
    using s(4) [OF that] that by (auto simp: slot_ok_def tls_alive_def)
  have "links_inv ?c nt2" using inv sl sl2 unfolding conn_inv_def links_inv_def own_contexts_def by (simp add: tls_alive_def)
  then have "conn_inv ?c nt2" using inv by (simp add: conn_inv_def)
  moreover have "frees (primary_context c) nt nt2" using k(3) True by (simp add: primary_context_def)
  ultimately show ?thesis using r by blast
qed

definition transport_fds :: "softether_connection \<Rightarrow> int list" where
  "transport_fds c =
     (case cn_nat_t_transport c of None \<Rightarrow> [] | Some t \<Rightarrow> [th_worker_fd t, th_app_fd t, th_udp_fd t]) @
     (case cn_rudp c of None \<Rightarrow> [] | Some r \<Rightarrow> if ru_refcount r = 1 then [ru_udp_fd r] else [])"

lemma transport_ok:
  assumes "close_transports c nt = (c', nt')" "conn_inv c nt"
  shows "conn_inv c' nt'" "nt_trace nt' = nt_trace nt" "nt_tls nt' = nt_tls nt"
    "nt_closed nt' = nt_closed nt @ filter (\<lambda>fd. 0 \<le> fd) (transport_fds c)"
    "c' = c\<lparr>cn_nat_t_transport := None, cn_using_nat_t := False, cn_rudp := None, cn_rudp_enabled := False\<rparr>"
proof -
  show c: "c' = c\<lparr>cn_nat_t_transport := None, cn_using_nat_t := False, cn_rudp := None, cn_rudp_enabled := False\<rparr>"
    using assms(1) by (simp add: close_transports_def take_nat_t_transport_def take_rudp_ctx_def Let_def)
  show t: "nt_tls nt' = nt_tls nt" "nt_trace nt' = nt_trace nt"
    "nt_closed nt' = nt_closed nt @ filter (\<lambda>fd. 0 \<le> fd) (transport_fds c)"
    using assms(1) by (auto simp: close_transports_def take_nat_t_transport_def take_rudp_ctx_def Let_def rudp_transport_destroy_def
        close_fd_def net_close_def rudp_destroy_def rudp_ref_release_def rudp_destroy_final_def transport_fds_def split: option.splits)
  have "links_inv c' nt = links_inv c nt" unfolding c by (simp add: links_inv_def own_contexts_def)
  then have "conn_inv c' nt" using assms(2) unfolding c by (simp add: conn_inv_def)
  then show "conn_inv c' nt'" using conn_inv_tls [OF t(1)] by blast
qed


section \<open>Disconnecting\<close>

text \<open>The descriptors of a connection in the order \<open>softether_disconnect\<close> closes them.\<close>

definition conn_fds :: "softether_connection \<Rightarrow> int list" where
  "conn_fds c = filter (\<lambda>fd. 0 \<le> fd) (cn_socket_fd c # saved_fds c @ transport_fds c)"

definition owned_contexts :: "softether_connection \<Rightarrow> nat set" where
  "owned_contexts c = slot_contexts c \<union> primary_context c"

text \<open>From a state \<open>nt1\<close> in which the background thread has been joined.\<close>

definition torn_down :: "softether_connection \<Rightarrow> net \<Rightarrow> softether_connection \<Rightarrow> net \<Rightarrow> bool" where
  "torn_down c nt c' nt' \<longleftrightarrow> conn_inv c' nt' \<and> cn_state c' = STATE_DISCONNECTED \<and> owned_contexts c' = {} \<and> conn_fds c' = [] \<and>
     cn_additional_connecting c' = cn_additional_connecting c \<and> nt_closed nt' = nt_closed nt @ conn_fds c \<and>
     (\<forall>x \<in> owned_contexts c. sc_freed (nt_tls nt' x)) \<and> (\<forall>x. x \<notin> owned_contexts c \<longrightarrow> nt_tls nt' x = nt_tls nt x)"

definition teardown :: "softether_connection \<Rightarrow> net \<Rightarrow> (softether_connection \<times> net) option" where
  "teardown c nt = do {
     let nt = close_fd (cn_socket_fd c) nt;
     let c = (if 0 \<le> cn_socket_fd c then c\<lparr>cn_socket_fd := -1\<rparr> else c);
     let nt = fold (\<lambda>l. net_ev (Lock l)) teardown_locks nt;
     (c, nt) \<leftarrow> softether_close_additional (\<lambda>c nt. None) c nt;
     (c, nt) \<leftarrow> close_primary_tls c nt;
     let nt = fold (\<lambda>l. net_ev (Unlock l)) (rev teardown_locks) nt;
     let (c, nt) = close_transports c nt;
     Some (c\<lparr>cn_state := STATE_DISCONNECTED, cn_session_id := 0, cn_sequence_num := 0\<rparr>, net_ev (Unlock L_connect) nt) }"

lemma close_additional_joined:
  "\<not> cn_additional_connecting c \<Longrightarrow> softether_close_additional bg c nt = softether_close_additional bg' c nt"
  by (simp add: softether_close_additional_def join_additional_def)

lemma disconnect_unfold:
  assumes "conn_going c" "join_additional bg (c\<lparr>cn_state := STATE_DISCONNECTING\<rparr>) (net_ev (Lock L_connect) nt) = Some (c1, nt1)"
    and "\<not> cn_additional_connecting c1"
  shows "softether_disconnect bg c nt = teardown c1 nt1"
proof -
  have "softether_close_additional bg (if 0 \<le> cn_socket_fd c1 then c1\<lparr>cn_socket_fd := -1\<rparr> else c1) nt' =
      softether_close_additional (\<lambda>c nt. None) (if 0 \<le> cn_socket_fd c1 then c1\<lparr>cn_socket_fd := -1\<rparr> else c1) nt'" for nt'
    using assms(3) by (intro close_additional_joined) simp
  moreover have "\<not> (cn_state c = STATE_DISCONNECTED \<or> cn_state c = STATE_DISCONNECTING)" using assms(1) by (simp add: conn_going_def)
  ultimately show ?thesis
    unfolding softether_disconnect_def teardown_def Let_def by (simp only: assms(2) if_False Option.bind.bind_lunit prod.case)
qed

lemma conn_inv_fields [simp]:
  "conn_inv (c\<lparr>cn_socket_fd := v1\<rparr>) nt = conn_inv c nt" "conn_inv (c\<lparr>cn_session_id := v2\<rparr>) nt = conn_inv c nt"
  "conn_inv (c\<lparr>cn_sequence_num := v3\<rparr>) nt = conn_inv c nt" "conn_inv (c\<lparr>cn_abort_connect := v4\<rparr>) nt = conn_inv c nt"
  "conn_inv (c\<lparr>cn_client_mac := v5\<rparr>) nt = conn_inv c nt"
  by (rule conn_inv_cong; simp add: links_inv_def own_contexts_def)+

lemma slot_contexts_closed: "length (cn_additional c) = MAX_SE_CONNECTIONS \<Longrightarrow> slot_contexts (close_conn c) = {}"
  by (simp add: slot_contexts_def slot_ctx_def close_conn_def closed_slot_def)

lemma teardown_ok:
  assumes inv: "conn_inv c nt1" and nb: "\<not> cn_additional_connecting c"
    and seg: "seg_of b 3 (net_ev (Lock L_connect) nt) nt1"
  shows "\<exists>c' nt'. teardown c nt1 = Some (c', nt') \<and> torn_down c nt1 c' nt' \<and> seg_of b 0 nt nt'"
proof -
  let ?c = "c\<lparr>cn_socket_fd := -1\<rparr>"
  define c0 where "c0 = (if 0 \<le> cn_socket_fd c then ?c else c)"
  define nt2 where "nt2 = close_fd (cn_socket_fd c) nt1"
  let ?nt = "fold (\<lambda>l. net_ev (Lock l)) teardown_locks nt2"
  have t2: "nt_tls nt2 = nt_tls nt1" "nt_trace nt2 = nt_trace nt1" "nt_closed nt2 = nt_closed nt1 @ filter (\<lambda>fd. 0 \<le> fd) [cn_socket_fd c]"
    by (simp_all add: nt2_def close_fd_def net_close_def)
  have i0: "conn_inv c0 ?nt" using inv conn_inv_tls [of ?nt nt1 c0] by (simp add: c0_def fold_ev t2)
  have nb0: "\<not> cn_additional_connecting c0" using nb by (simp add: c0_def)
  have f0: "saved_fds c0 = saved_fds c" "transport_fds c0 = transport_fds c" "slot_contexts c0 = slot_contexts c"
      "primary_context c0 = primary_context c" "cn_additional c0 = cn_additional c"
    by (simp_all add: c0_def saved_fds_def transport_fds_def slot_contexts_def slot_ctx_def primary_context_def del: not_None_eq)
  obtain nt3 where a: "softether_close_additional (\<lambda>c nt. None) c0 ?nt = Some (close_conn c0, nt3)" "conn_inv (close_conn c0) nt3"
      "frees (slot_contexts c0) (fold close_fd (saved_fds c0) ?nt) nt3"
    using close_additional_ok [OF i0 nb0] by blast
  have len: "length (cn_additional c0) = MAX_SE_CONNECTIONS" using inv_slots(1) [OF i0] .
  obtain v1 v2 nt4 where p: "close_primary_tls (close_conn c0) nt3 = Some ((close_conn c0)\<lparr>cn_ssl := v1, cn_ssl_ctx := v2\<rparr>, nt4)"
      "conn_inv ((close_conn c0)\<lparr>cn_ssl := v1, cn_ssl_ctx := v2\<rparr>) nt4" "frees (primary_context (close_conn c0)) nt3 nt4" "v1 = None \<or> v2 = None"
    using close_primary_ok [OF a(2) slot_contexts_closed [OF len]] by blast
  let ?c5 = "(close_conn c0)\<lparr>cn_ssl := v1, cn_ssl_ctx := v2\<rparr>"
  define nt5 where "nt5 = fold (\<lambda>l. net_ev (Unlock l)) (rev teardown_locks) nt4"
  have t5: "nt_tls nt5 = nt_tls nt4" "nt_closed nt5 = nt_closed nt4" by (simp_all add: nt5_def fold_ev)
  have i5: "conn_inv ?c5 nt5" using conn_inv_tls [OF t5(1)] p(2) by blast
  obtain c6 nt6 where t: "close_transports ?c5 nt5 = (c6, nt6)" by fastforce
  note tr = transport_ok [OF t i5]
  let ?c7 = "c6\<lparr>cn_state := STATE_DISCONNECTED, cn_session_id := 0, cn_sequence_num := 0\<rparr>" let ?nt7 = "net_ev (Unlock L_connect) nt6"
  have run: "teardown c nt1 = Some (?c7, ?nt7)"
    unfolding teardown_def Let_def c0_def [symmetric] nt2_def [symmetric] by (simp only: a(1) p(1) Option.bind.bind_lunit prod.case nt5_def [symmetric] t)
  have pc: "primary_context (close_conn c0) = primary_context c" by (simp add: close_conn_def primary_context_def c0_def del: not_None_eq)
  have tf: "transport_fds ?c5 = transport_fds c" by (simp add: transport_fds_def close_conn_def c0_def)
  have fr: "frees (owned_contexts c) (fold close_fd (saved_fds c) ?nt) nt4"
    using frees_Un [OF a(3) p(3)] unfolding f0 pc owned_contexts_def .
  have seg4: "seg_of b 3 ?nt nt4"
    by (rule seg_of_weaken) (use fr in \<open>simp add: frees_def lock_seg_def close_fds\<close>)
  have "seg_of b 0 nt ?nt7" by (rule teardown_seg [OF seg t2(2) seg4]) (simp add: tr(2) nt5_def)
  moreover have "torn_down c nt1 ?c7 ?nt7"
    unfolding torn_down_def
  proof (intro conjI)
    show "conn_inv ?c7 ?nt7" using tr(1) by simp
    show "owned_contexts ?c7 = {}"
      using slot_contexts_closed [OF len] p(4)
      by (auto simp: owned_contexts_def primary_context_def slot_contexts_def slot_ctx_def tr(5))
    show "conn_fds ?c7 = []"
      using len nth_mem by (auto simp: conn_fds_def tr(5) transport_fds_def saved_fds_def close_conn_def closed_slot_def mark_closed_def c0_def
          filter_empty_conv)
    show "nt_closed ?nt7 = nt_closed nt1 @ conn_fds c"
      using fr by (simp add: net_ev_def tr(4) t5(2) frees_def close_fds fold_ev t2(3) conn_fds_def tf)
    show "\<forall>x \<in> owned_contexts c. sc_freed (nt_tls ?nt7 x)" "\<forall>x. x \<notin> owned_contexts c \<longrightarrow> nt_tls ?nt7 x = nt_tls nt1 x"
      using fr by (simp_all add: tr(3) t5(1) frees_def close_fds fold_ev t2(1))
  qed (simp_all add: tr(5) close_conn_def c0_def)
  ultimately show ?thesis using run by blast
qed

text \<open>
  What is known of the background thread, whatever answers \<open>e\<close> it gets from outside: it keeps the connection
  well-formed and the state, and takes only the locks of the TLS layer. The provider is
  \<open>additional_connect_thread_routine\<close>.
\<close>

locale background =
  fixes bg :: "'e \<Rightarrow> softether_connection \<Rightarrow> net \<Rightarrow> (softether_connection \<times> net) option"
    and env :: "'e \<Rightarrow> bool"
  assumes bg_ok: "env e \<Longrightarrow> conn_inv c nt \<Longrightarrow> \<exists>c' nt'. bg e c nt = Some (c', nt') \<and> conn_inv c' nt' \<and> order_seg 3 nt nt' \<and> cn_state c' = cn_state c"
begin

lemma join_ok:
  assumes "env e" "conn_inv c nt"
  shows "\<exists>c' nt'. join_additional (bg e) c nt = Some (c', nt') \<and> conn_inv c' nt' \<and> order_seg 3 nt nt' \<and> cn_state c' = cn_state c \<and>
     \<not> cn_additional_connecting c'"
proof (cases "cn_additional_connecting c")
  case True
  then show ?thesis using bg_ok [OF assms] by (auto simp: join_additional_def)
qed (simp add: join_additional_def assms(2) order_seg_def)

lemma disconnect_ok:
  assumes "env e" "conn_inv c nt"
  shows "\<exists>c' nt'. softether_disconnect (bg e) c nt = Some (c', nt') \<and> conn_inv c' nt' \<and> order_seg 0 nt nt' \<and>
     (conn_going c \<longrightarrow> cn_state c' = STATE_DISCONNECTED \<and> owned_contexts c' = {} \<and> conn_fds c' = [])"
proof (cases "conn_going c")
  case False
  then have "softether_disconnect (bg e) c nt = Some (c, net_ev (Unlock L_connect) (net_ev (Lock L_connect) nt))"
    by (auto simp: softether_disconnect_def conn_going_def)
  moreover have "lock_seg 0 nt (net_ev (Unlock L_connect) (net_ev (Lock L_connect) nt))" by (rule lock_seg_bracket) simp_all
  ultimately show ?thesis using assms False by (simp add: order_seg_def seg_of_weaken)
next
  case True
  obtain c1 nt1 where j: "join_additional (bg e) (c\<lparr>cn_state := STATE_DISCONNECTING\<rparr>) (net_ev (Lock L_connect) nt) = Some (c1, nt1)"
      "conn_inv c1 nt1" "order_seg 3 (net_ev (Lock L_connect) nt) nt1" "\<not> cn_additional_connecting c1"
    using join_ok [OF assms(1), of "c\<lparr>cn_state := STATE_DISCONNECTING\<rparr>" "net_ev (Lock L_connect) nt"] assms(2) by auto
  then show ?thesis using teardown_ok [OF j(2,4) j(3) [unfolded order_seg_def]] disconnect_unfold [OF True j(1,4)]
    by (auto simp: order_seg_def torn_down_def)
qed

lemma close_additional_safe:
  assumes "env e" "conn_inv c nt"
  shows "\<exists>c' nt'. softether_close_additional (bg e) c nt = Some (c', nt') \<and> conn_inv c' nt' \<and> order_seg 0 nt nt'"
proof -
  obtain c1 nt1 where j: "join_additional (bg e) c nt = Some (c1, nt1)" "conn_inv c1 nt1" "order_seg 3 nt nt1" "\<not> cn_additional_connecting c1"
    using join_ok [OF assms] by blast
  have "softether_close_additional (bg e) c nt = softether_close_additional (bg e) c1 nt1"
    using j(1,4) by (simp add: softether_close_additional_def join_additional_def)
  moreover obtain nt' where a: "softether_close_additional (bg e) c1 nt1 = Some (close_conn c1, nt')" "conn_inv (close_conn c1) nt'"
      "frees (slot_contexts c1) (fold close_fd (saved_fds c1) nt1) nt'"
    using close_additional_ok [OF j(2,4)] by blast
  moreover have "lock_seg 3 nt1 nt'" using a(3) unfolding frees_def lock_seg_def by (simp add: close_fds)
  then have "order_seg 0 nt nt'" using j(3) unfolding order_seg_def
    by (blast intro: seg_of_weaken seg_of_trans seg_of_mono [of False 3 _ _ 0])
  ultimately show ?thesis by auto
qed

end

end
