(* ===== verification/Login_Props.thy ===== *)
theory Login_Props
  imports Login Rudp_Proofs
begin

text \<open>
  The login exchange: the two copies of the PACK reader agree on every input, the login PACK is written inside
  its buffer, announces the elements it has, and every field is read back by the reader; the server's Hello is
  parsed within bounds and as the server wrote it.
\<close>

section \<open>The two readers\<close>

lemma match_element_header:
  "pack_match_element p field ty =
     (case read_elem_header p of
        None \<Rightarrow> Malformed
      | Some (elem, et, nv, p) \<Rightarrow>
          if elem = c_str field \<and> et = ty \<and> 1 \<le> nv then Match p
          else (case pack_skip_values (unat nv) p et of None \<Rightarrow> Malformed | Some p \<Rightarrow> NoMatch p))"
  by (auto simp: pack_match_element_def read_elem_header_def Let_def PACK_MAX_VALUES_def split: option.splits)

lemma proto_find_eq: "proto_find n field ty p = pack_find n p field ty"
  by (induction n arbitrary: p) (auto simp: match_element_header split: option.splits)

lemma proto_locate_eq: "proto_locate body n field ty = pack_locate body n field ty"
  by (auto simp: proto_locate_def pack_locate_def proto_find_eq PACK_MAX_ELEMENTS_def cong: if_cong split: option.splits)

lemma pack_get_proto_eq:
  "pack_get_int_proto body n field = pack_get_int body n field"
  "pack_get_str_proto body n field m = pack_get_str body n field m"
  "pack_get_data_proto body n field m = pack_get_data body n field m"
proof -
  have "(do { (l, p) \<leftarrow> pack_read_uint32_safe q; if length p < unat l then None
              else Some (take (if l < m - 1 then unat l else unat m - 1) p @ [0]) }) =
      (do { (s, _) \<leftarrow> pack_read_string_safe q m; Some s })" for q
    by (auto simp: pack_read_string_safe_def Let_def split: Option.bind_splits)
  then show "pack_get_str_proto body n field m = pack_get_str body n field m"
    by (simp add: pack_get_str_proto_def pack_get_str_def proto_locate_eq)
qed (simp_all add: pack_get_int_proto_def pack_get_int_def pack_get_data_proto_def pack_get_data_def proto_locate_eq)

section \<open>Writing the login PACK\<close>

fun call_elem :: "add_call \<Rightarrow> pack_elem" where
  "call_elem (Add_int n v) = (n, PInt v)"
| "call_elem (Add_str n v) = (n, PStr v)"
| "call_elem (Add_data n d l) = (n, PData (case d of None \<Rightarrow> [] | Some d \<Rightarrow> take (unat l) d))"

fun call_ok :: "add_call \<Rightarrow> bool" where
  "call_ok (Add_data n d l) = (\<exists>x. d = Some x \<and> unat l \<le> length x)"
| "call_ok (Add_str n v) = (length v < 2 ^ 32)"
| "call_ok (Add_int n v) = True"

lemma writes_data_prefix:
  assumes "unat l \<le> length d"
  shows "writes (\<lambda>c. pack_write_data_val c (Some d) l) (be32 l @ take (unat l) d)"
proof (cases "l = 0")
  case True
  then show ?thesis using writes_bind [OF writes_uint32 [of 0] writes_Nil] by (simp add: pack_write_data_val_def)
next
  case False
  then have "0 < l" by (simp add: word_gt_0)
  then show ?thesis using writes_bind [OF writes_uint32 [of l] writes_bytes [of "take (unat l) d"]] assms
    by (simp add: pack_write_data_val_def mem_read_def)
qed

lemma writes_call:
  assumes "call_ok a"
  shows "writes (run_call a) (enc_elem (call_elem a))"
proof -
  have w: "writes (\<lambda>c. pack_write_elem_name c n \<bind> (\<lambda>c. pack_write_uint32 c ty \<bind> (\<lambda>c. pack_write_uint32 c 1 \<bind> f)))
      ((be32 (strlen32 n + 1) @ n) @ be32 ty @ be32 1 @ bs)" if "writes f bs" for n ty f bs
    by (intro writes_bind writes_elem_name writes_uint32 that)
  have run: "run_call (Add_int n v) = pack_add_int_proto n v" "run_call (Add_str n s) = pack_add_str_proto n s"
    "run_call (Add_data n d l) = pack_add_data_proto n d l" for n v s d l by (rule ext, simp)+
  show ?thesis
  proof (cases a)
    case (Add_int n v)
    then show ?thesis using w [OF writes_uint32, of n PACK_TYPE_INT v]
      by (simp add: enc_elem_def strlen32_def run pack_add_int_proto_def [abs_def])
  next
    case (Add_str n v)
    then show ?thesis using w [OF writes_str_val, of n PACK_TYPE_STR v]
      by (simp add: enc_elem_def strlen32_def run pack_add_str_proto_def [abs_def])
  next
    case (Add_data n d l)
    then obtain x where x: "d = Some x" "unat l \<le> length x" using assms by auto
    then show ?thesis using Add_data w [OF writes_data_prefix [OF x(2)], of n PACK_TYPE_DATA]
      by (simp add: enc_elem_def strlen32_def run pack_add_data_proto_def [abs_def] min_absorb2)
  qed
qed

lemma writes_calls: "list_all call_ok cs \<Longrightarrow> writes (run_calls cs) (enc_elems (map call_elem cs))"
proof (induction cs)
  case Nil
  then show ?case using writes_Nil by (simp add: enc_elems_def writes_def)
next
  case (Cons a cs)
  then have "writes (\<lambda>c. run_call a c \<bind> run_calls cs) (enc_elem (call_elem a) @ enc_elems (map call_elem cs))"
    by (intro writes_bind writes_call) auto
  then show ?case by (simp add: enc_elems_def writes_def)
qed

text \<open>The size the code adds up for a call.\<close>

fun call_size :: "add_call \<Rightarrow> u32" where
  "call_size (Add_int n v) = PACK_INT_SZ n"
| "call_size (Add_str n v) = PACK_STR_SZ n v"
| "call_size (Add_data n d l) = PACK_DATA_SZ n l"

lemma call_size_word: "call_ok a \<Longrightarrow> call_size a = word_of_nat (length (enc_elem (call_elem a)))"
  by (cases a) (auto simp: pack_sizes strlen32_def enc_elem_length size_simps min_absorb2)

lemma calls_size: "list_all call_ok cs \<Longrightarrow> sum_list (map call_size cs) = word_of_nat (length (enc_elems (map call_elem cs)))"
  by (induction cs) (simp_all add: enc_elems_def call_size_word)

lemma login_size_calls:
  "login_size hub user auth secure plain (rudp \<noteq> None) ci pn =
     4 + sum_list (map call_size (login_calls E uid hub user auth secure plain rudp ci pn pd))"
  by (cases rudp; cases plain) (simp_all add: login_size_def login_calls_def add.assoc del: not_None_eq)

lemma login_num_calls:
  "login_num_elems auth secure plain (rudp \<noteq> None) ci =
     word_of_nat (length (login_calls E uid hub user auth secure plain rudp ci pn pd))"
  by (cases rudp; cases plain) (simp_all add: login_num_elems_def login_calls_def del: not_None_eq)


section \<open>Literal strings\<close>

lemma of_char_byte: "(of_char c :: byte) = word_of_nat (of_char c)"
  by (simp add: of_nat_of_char)

lemma of_char_byte_eq [simp]: "(of_char c :: byte) = of_char d \<longleftrightarrow> c = d"
proof
  assume "(of_char c :: byte) = of_char d"
  then have "unat (word_of_nat (of_char c) :: byte) = unat (word_of_nat (of_char d) :: byte)" by (simp only: of_char_byte)
  then have "(of_char c :: nat) = of_char d"
    using nat_of_char_less_256 [of c] nat_of_char_less_256 [of d] by (simp add: unat_of_nat del: of_nat_of_char)
  then show "c = d" by simp
qed simp

lemma str_inj [simp]: "str s = str t \<longleftrightarrow> s = t"
  unfolding str_def by (rule inj_map_eq_map) (simp add: inj_def)

lemma str_length [simp, size_simps]: "length (str s) = length s"
  by (simp add: str_def)

lemma str_take [simp]: "take n (str s) = str (take n s)"
  by (simp add: str_def take_map)

lemma of_char_byte_zero: "(of_char c :: byte) = 0 \<longleftrightarrow> c = CHR 0x00"
  using of_char_byte_eq [of c "CHR 0x00"] by (simp del: of_char_byte_eq)

lemma str_c_str [simp]: "is_c_str (str s) \<longleftrightarrow> CHR 0x00 \<notin> set s"
proof (induction s)
  case (Cons c s)
  have "is_c_str (str (c # s)) \<longleftrightarrow> (of_char c :: byte) \<noteq> 0 \<and> is_c_str (str s)"
    unfolding is_c_str_def str_def list.map list.set insert_iff by metis
  then show ?case unfolding Cons of_char_byte_zero list.set insert_iff by metis
qed (simp add: is_c_str_def str_def)

lemma elem_match_str:
  "CHR 0x00 \<notin> set f \<Longrightarrow> length n \<le> 63 \<Longrightarrow> elem_match (str f) ty (str n, v) \<longleftrightarrow> n = f \<and> value_type v = ty"
  by (simp add: elem_match_def)

lemma find_elem_append:
  "find_elem f ty (xs @ ys) = (case find_elem f ty xs of None \<Rightarrow> find_elem f ty ys | Some v \<Rightarrow> Some v)"
  by (induction xs) (auto simp: find_elem_def)

lemma find_elem_Cons: "find_elem f ty (e # es) = (if elem_match f ty e then Some (snd e) else find_elem f ty es)"
  by (simp add: find_elem_def)

lemma find_elem_Nil: "find_elem f ty [] = None"
  by (simp add: find_elem_def)

section \<open>The login PACK\<close>

text \<open>The strings come from arrays of at most 256 bytes; the password hash is a SHA-1 value.\<close>

definition login_fits :: "byte list \<Rightarrow> byte list \<Rightarrow> byte list option \<Rightarrow> byte list option \<Rightarrow> rudp_context option \<Rightarrow> client_info \<Rightarrow> bool" where
  "login_fits hub user secure plain rudp ci \<longleftrightarrow>
     (\<forall>s \<in> {hub, user, ci_product_name ci, ci_os_name ci, ci_os_version ci, ci_os_product_id ci, ci_host_name ci,
             ci_server_host_name ci, ci_ip_v6 ci}. length s < 256) \<and>
     (\<forall>p. plain = Some p \<longrightarrow> length p < 256) \<and> (\<forall>p. secure = Some p \<longrightarrow> length p = SHA1_SIZE) \<and>
     (\<forall>r. rudp = Some r \<longrightarrow> rudp_inv r)"

definition call_small :: "add_call \<Rightarrow> bool" where
  "call_small a \<longleftrightarrow> call_ok a \<and> is_c_str (fst (call_elem a)) \<and> length (enc_elem (call_elem a)) \<le> 2048"

lemma small_int: "CHR 0x00 \<notin> set n \<Longrightarrow> length n \<le> 1024 \<Longrightarrow> call_small (Add_int (str n) v)"
  by (simp add: call_small_def enc_elem_length size_simps)

lemma small_str: "CHR 0x00 \<notin> set n \<Longrightarrow> length n \<le> 1024 \<Longrightarrow> length v < 256 \<Longrightarrow> call_small (Add_str (str n) v)"
  by (simp add: call_small_def enc_elem_length size_simps)

lemma small_data:
  "CHR 0x00 \<notin> set n \<Longrightarrow> length n \<le> 64 \<Longrightarrow> unat l < 1000 \<Longrightarrow> unat l \<le> length d \<Longrightarrow> call_small (Add_data (str n) (Some d) l)"
  by (simp add: call_small_def enc_elem_length size_simps)

lemma login_calls_small:
  assumes "login_fits hub user secure plain rudp ci" "length uid = SHA1_SIZE" "unat pn < 1000" "unat pn \<le> length pd"
  shows "list_all call_small (login_calls E uid hub user auth secure plain rudp ci pn (Some pd))"
proof -
  have k: "length (ru_my_key r) = 20" "length (ru_my_key_v2 r) = 128" if "rudp = Some r" for r
    using assms(1) that by (auto simp: login_fits_def rudp_inv_def rudp_sizes)
  show ?thesis
    using assms k unfolding login_calls_def login_fits_def
    by (auto simp: SHA1_SIZE_def client_hello_def rudp_sizes small_int small_str small_data split: option.splits)
qed

lemma calls_length: "list_all call_small cs \<Longrightarrow> length (enc_elems (map call_elem cs)) \<le> length cs * 2048"
  by (induction cs) (auto simp: enc_elems_def call_small_def)

lemma login_calls_length: "length (login_calls E uid hub user auth secure plain rudp ci pn pd) \<le> 60"
  by (auto simp: login_calls_def split: option.splits)

lemma calls_fit: "list_all call_small cs \<Longrightarrow> list_all elem_fits (map call_elem cs)"
  by (auto simp: list_all_iff call_small_def elem_fits_def)


text \<open>The buffer that is returned, seen as a PACK of the elements that were added.\<close>

lemma login_pack_rep:
  assumes fit: "login_fits hub user secure plain rudp ci" and L: "\<forall>x. length (lb_sha1 L x) = SHA1_SIZE" and m: "nt_malloc nt = []"
  shows "\<exists>p pn pd nt'. build_login_pack L E (Some hub) (Some user) auth secure plain rudp ci nt = Some (Some (pk_data p, pk_len p), nt') \<and>
     pack_rep p (map call_elem (login_calls E (lb_sha1 L (str ''SoftEtherVPN_Android_Client'')) hub user auth secure plain rudp ci pn (Some pd))) \<and>
     list_all call_small (login_calls E (lb_sha1 L (str ''SoftEtherVPN_Android_Client'')) hub user auth secure plain rudp ci pn (Some pd)) \<and>
     length (pk_data p) = unat (pk_len p) + 64"
proof -
  obtain r nt1 where r: "c_rand nt = (r, nt1)" by fastforce
  let ?pn = "word_of_nat (r mod 1000) :: u32"
  have pn: "unat ?pn < 1000" using mod_less_divisor [of 1000 r] by (simp add: unat_of_nat)
  have m1: "nt_malloc nt1 = []" using r m by (auto simp: c_rand_def)
  obtain pd nt2 where b: "rand_bytes (unat ?pn) nt1 = (pd, nt2)" by fastforce
  have rb: "rand_bytes n w = (bs, w') \<Longrightarrow> length bs = n \<and> nt_malloc w' = nt_malloc w" for n w bs w'
    by (induction n arbitrary: w bs w') (auto simp: c_rand_def Let_def split: prod.splits)
  note pd = rb [OF b]
  have pc: "pencore nt = (?pn, Some pd, nt2)" by (simp add: pencore_def r net_malloc_def m1 b)
  define uid where "uid = lb_sha1 L (str ''SoftEtherVPN_Android_Client'')"
  define cs where "cs = login_calls E uid hub user auth secure plain rudp ci ?pn (Some pd)"
  have sm: "list_all call_small cs"
    unfolding cs_def by (rule login_calls_small [OF fit]) (use L pn pd in \<open>simp_all add: uid_def\<close>)
  then have ok: "list_all call_ok cs" by (simp add: list_all_iff call_small_def)
  let ?es = "map call_elem cs" let ?size = "login_size hub user auth secure plain (rudp \<noteq> None) ci ?pn"
  let ?N = "login_num_elems auth secure plain (rudp \<noteq> None) ci"
  have num: "?N = word_of_nat (length ?es)" unfolding cs_def length_map by (rule login_num_calls)
  have bound: "length (enc_elems ?es) \<le> 122880"
    using calls_length [OF sm] login_calls_length [of E uid hub user auth secure plain rudp ci ?pn "Some pd"] by (simp add: cs_def)
  have "?size = 4 + sum_list (map call_size cs)" unfolding cs_def by (rule login_size_calls)
  then have sz: "?size = word_of_nat (4 + length (enc_elems ?es))" using calls_size [OF ok] by simp
  then have usz: "unat ?size = 4 + length (enc_elems ?es)" using bound by (simp only: unat_of_nat) simp
  have u64: "unat (?size + 64) = unat ?size + 64" using usz bound by (subst unat_add32) simp_all
  let ?buf = "replicate (unat (?size + 64)) (0 :: byte)"
  have "writes (\<lambda>c. pack_write_uint32 c ?N \<bind> run_calls cs) (be32 ?N @ enc_elems ?es)"
    by (intro writes_bind writes_uint32 writes_calls ok)
  then have w: "(pack_write_uint32 (?buf, 0) ?N \<bind> run_calls cs) =
      Some (be32 ?N @ enc_elems ?es @ replicate 64 0, unat ?size)"
    unfolding writes_def using usz u64 by (simp add: size_simps)
  let ?data = "be32 ?N @ enc_elems ?es @ replicate 64 0"
  let ?p = "\<lparr>pk_data = ?data, pk_len = ?size, pk_cap = ?size + 64, pk_num_elements = ?N\<rparr>"
  have run: "build_login_pack L E (Some hub) (Some user) auth secure plain rudp ci nt = Some (Some (?data, ?size), nt2)"
    using w pd m1 unfolding build_login_pack_def
    by (simp add: pc Let_def net_malloc_def uid_def [symmetric] cs_def [symmetric] bind_assoc [symmetric] del: bind_assoc not_None_eq)
  then have 1: "build_login_pack L E (Some hub) (Some user) auth secure plain rudp ci nt = Some (Some (pk_data ?p, pk_len ?p), nt2)"
    by (simp only: softether_pack.simps)
  have 2: "pack_rep ?p ?es"
    using usz u64 num by (simp add: pack_rep_def size_simps word_le_nat_alt be32_def [of ?N])
  have 3: "length (pk_data ?p) = unat (pk_len ?p) + 64" using usz by (simp add: size_simps)
  show ?thesis using 1 2 3 sm unfolding cs_def uid_def by blast
qed


lemmas find_elem_simps = find_elem_append find_elem_Cons find_elem_Nil elem_match_str pack_types SHA1_SIZE_def rudp_sizes

lemma login_lookup:
  assumes "es = map call_elem (login_calls E uid hub user auth secure plain rudp ci pn pd)"
  shows "find_elem (str ''hubname'') PACK_TYPE_STR es = Some (PStr hub)"
    "find_elem (str ''username'') PACK_TYPE_STR es = Some (PStr user)"
    "find_elem (str ''authtype'') PACK_TYPE_INT es = Some (PInt (word_of_int auth))"
    "find_elem (str ''max_connection'') PACK_TYPE_INT es = Some (PInt (ci_max_connection ci))"
    "find_elem (str ''ClientHostName'') PACK_TYPE_STR es = Some (PStr (ci_host_name ci))"
  unfolding assms login_calls_def by (simp_all add: find_elem_simps)

lemma login_lookup_auth:
  assumes "es = map call_elem (login_calls E uid hub user auth secure plain rudp ci pn pd)"
  shows "auth = 1 \<Longrightarrow> secure = Some sp \<Longrightarrow> length sp = SHA1_SIZE \<Longrightarrow> find_elem (str ''secure_password'') PACK_TYPE_DATA es = Some (PData sp)"
    "auth = 2 \<Longrightarrow> plain = Some pw \<Longrightarrow> find_elem (str ''plain_password'') PACK_TYPE_STR es = Some (PStr pw)"
    "rudp = Some r \<Longrightarrow> find_elem (str ''udp_acceleration_client_cookie'') PACK_TYPE_INT es = Some (PInt (ru_my_cookie r))"
    "rudp = Some r \<Longrightarrow> length (ru_my_key r) = 20 \<Longrightarrow>
       find_elem (str ''udp_acceleration_client_key'') PACK_TYPE_DATA es = Some (PData (ru_my_key r))"
    "rudp = None \<Longrightarrow> find_elem (str ''use_udp_acceleration'') PACK_TYPE_INT es = None"
proof -
  note d = assms [unfolded login_calls_def]
  show "auth = 1 \<Longrightarrow> secure = Some sp \<Longrightarrow> length sp = SHA1_SIZE \<Longrightarrow> find_elem (str ''secure_password'') PACK_TYPE_DATA es = Some (PData sp)"
    unfolding d by (cases rudp) (simp_all add: find_elem_simps)
  show "auth = 2 \<Longrightarrow> plain = Some pw \<Longrightarrow> find_elem (str ''plain_password'') PACK_TYPE_STR es = Some (PStr pw)"
    unfolding d by (cases rudp) (simp_all add: find_elem_simps)
  show "rudp = Some r \<Longrightarrow> find_elem (str ''udp_acceleration_client_cookie'') PACK_TYPE_INT es = Some (PInt (ru_my_cookie r))"
    unfolding d by (simp add: find_elem_simps)
  show "rudp = Some r \<Longrightarrow> length (ru_my_key r) = 20 \<Longrightarrow>
       find_elem (str ''udp_acceleration_client_key'') PACK_TYPE_DATA es = Some (PData (ru_my_key r))"
    unfolding d by (simp add: find_elem_simps)
  show "rudp = None \<Longrightarrow> find_elem (str ''use_udp_acceleration'') PACK_TYPE_INT es = None"
    unfolding d by (cases plain) (simp_all add: find_elem_simps)
qed



definition demo_client :: client_info where
  "demo_client = \<lparr>ci_product_name = str ''VPN'', ci_product_version = str ''2.3.2'', ci_product_build = 1, ci_os_name = str ''Android'',
     ci_os_version = str ''14'', ci_os_product_id = [], ci_host_name = str ''phone'', ci_ip_address = [], ci_port = 0,
     ci_server_host_name = [], ci_server_ip_address = [], ci_server_port_reported = 443, ci_ip_v6 = [], ci_max_connection = 8,
     ci_half_connection = False, ci_socket_fd = 10\<rparr>"


section \<open>The server's Hello\<close>

text \<open>What an element contributes, as a reference definition on the abstract view of a PACK.\<close>

fun hello_of :: "server_hello_info \<Rightarrow> pack_elem list \<Rightarrow> server_hello_info" where
  "hello_of info [] = info"
| "hello_of info ((nm, v) # es) =
     hello_of (case v of
                 PStr s \<Rightarrow> if take 63 nm = str ''hello''
                           then info\<lparr>sh_hello_string := take 63 s @ [0], sh_has_hello := True\<rparr> else info
               | PInt n \<Rightarrow> if take 63 nm = str ''version'' then info\<lparr>sh_version := n, sh_has_version := True\<rparr> else info
               | PData d \<Rightarrow> if take 63 nm = str ''random''
                            then info\<lparr>sh_random := take SHA1_SIZE d @ drop (length (take SHA1_SIZE d)) (sh_random info), sh_has_random := True\<rparr> else info
               | PInt64 _ \<Rightarrow> info) es"

lemma header_enc:
  assumes "elem_fits (nm, v)"
  shows "read_elem_header (enc_elem (nm, v) @ xs) = Some (take 63 nm, value_type v, 1, enc_value v @ xs)"
proof -
  note b = elem_fits_bounds [OF assms]
  let ?n = "word_of_nat (length nm) :: u32"
  have "take (if ?n < 63 then unat ?n else 63) (nm @ ys) = take 63 nm" for ys using b(1) by (auto simp: word_less_nat_alt)
  then have "c_str (take (if ?n < 63 then unat ?n else 63) (nm @ ys)) = take 63 nm" for ys using b(4) by simp
  then show ?thesis using b by (simp add: read_elem_header_def enc_elem_def wire_simps Let_def del: take_append)
qed


lemma hello_value_enc:
  assumes "length (enc_value v) < 2 ^ 32"
  shows "hello_value (take 63 nm) (value_type v) info (enc_value v @ xs) = Some (hello_of info [(nm, v)], xs)"
proof (cases v)
  case (PStr s)
  then have u: "unat (word_of_nat (length s) :: u32) = length s" using assms by (simp add: size_simps unat_of_nat32)
  have "take (if (word_of_nat (length s) :: u32) < 63 then length s else 63) (s @ xs) = take 63 s"
    using u by (auto simp: word_less_nat_alt)
  then show ?thesis using PStr u
    by (cases "(word_of_nat (length s) :: u32) < 63")
      (simp_all del: take_append add: hello_value_def pack_types pack_read_string_safe_def pack_skip_value_safe_def pack_skip_bytes_safe_def wire_simps Let_def)
next
  case (PData d)
  then have u: "unat (word_of_nat (length d) :: u32) = length d" using assms by (simp add: size_simps unat_of_nat32)
  have "take (if (word_of_nat (length d) :: u32) < 20 then length d else 20) (d @ xs) = take 20 d"
    using u by (auto simp: word_less_nat_alt)
  then show ?thesis using PData u
    by (cases "(word_of_nat (length d) :: u32) < 20")
      (simp_all del: take_append add: word_less_nat_alt min_def hello_value_def pack_types pack_read_data_safe_def pack_skip_value_safe_def pack_skip_bytes_safe_def wire_simps SHA1_SIZE_def)
qed (simp_all add: hello_value_def pack_types pack_skip_value_safe_def pack_skip_bytes_safe_def wire_simps size_simps)

lemma hello_of_Cons: "hello_of info (e # es) = hello_of (hello_of info [e]) es"
  by (cases e) simp

lemma hello_elements_enc:
  "list_all elem_fits es \<Longrightarrow> hello_elements (length es) info (enc_elems es @ xs) = Some (hello_of info es)"
proof (induction es arbitrary: info)
  case (Cons e es)
  obtain nm v where e: "e = (nm, v)" by fastforce
  have f: "elem_fits (nm, v)" using Cons.prems e by simp
  have "hello_elements (length (e # es)) info (enc_elems (e # es) @ xs) = hello_elements (length es) (hello_of info [(nm, v)]) (enc_elems es @ xs)"
    using header_enc [OF f] hello_value_enc [OF elem_fits_bounds(3) [OF f]] by (simp add: e enc_elems_def)
  also have "\<dots> = Some (hello_of (hello_of info [(nm, v)]) es)" using Cons.IH Cons.prems by simp
  also have "hello_of (hello_of info [(nm, v)]) es = hello_of info (e # es)" unfolding e by (rule hello_of_Cons [symmetric])
  finally show ?case .
qed (simp add: enc_elems_def)

text \<open>
  C20. The server's Hello. Of every well-formed PACK of at most 4096 elements, whatever bytes follow it, the parser
  takes exactly what the reference definition \<open>hello_of\<close> describes: the last \<open>hello\<close> string cut to 63 bytes, the last
  \<open>version\<close> and the first 20 bytes of the last \<open>random\<close>; an element of another name or type is skipped.
\<close>

theorem server_hello_parsed:
  assumes "list_all elem_fits es" "length es \<le> 4096" "unat n = length (enc_pack es @ xs)"
  shows "parse_server_hello (Some (enc_pack es @ xs @ ys)) n = Some (hello_of hello_zero es)"
proof -
  have u: "unat (word_of_nat (length es) :: u32) = length es" using assms(2) by (simp add: unat_of_nat32)
  have "4 \<le> unat n" using assms(3) by (simp add: enc_pack_def size_simps)
  moreover have "\<not> (4096 :: u32) < word_of_nat (length es)" using assms(2) u by (simp add: word_less_nat_alt)
  moreover have "take (unat n) (enc_pack es @ xs @ ys) = be32 (word_of_nat (length es)) @ enc_elems es @ xs"
    using assms(3) by (simp add: enc_pack_def)
  ultimately show ?thesis using u hello_elements_enc [OF assms(1)]
    by (simp add: parse_server_hello_def wire_simps word_less_nat_alt)
qed


theorem server_hello_parsed_witness:
  "parse_server_hello (Some (enc_pack [(str ''hello'', PStr (str ''VPN'')), (str ''version'', PInt 443), (str ''random'', PData (replicate 20 5))])) 93 =
     Some (hello_zero\<lparr>sh_hello_string := str ''VPN'' @ [0], sh_has_hello := True, sh_version := 443, sh_has_version := True,
       sh_random := replicate 20 5, sh_has_random := True\<rparr>)"
proof -
  let ?es = "[(str ''hello'', PStr (str ''VPN'')), (str ''version'', PInt 443), (str ''random'', PData (replicate 20 5))]"
  have "list_all elem_fits ?es" by (simp add: elem_fits_def enc_elem_length size_simps)
  moreover have "length (enc_pack ?es) = 93" by (simp add: enc_pack_def enc_elems_def enc_elem_length size_simps)
  ultimately show ?thesis using server_hello_parsed [of ?es 93 "[]" "[]"] by (simp add: hello_zero_def SHA1_SIZE_def)
qed

end
