(* ===== verification/Additional_Run.thy ===== *)
theory Additional_Run
  imports Additional Lifecycle_Run Login_Props "HOL-Library.Multiset"
begin

text \<open>
  Opening an additional link either adds a live link to a well-formed connection or leaves it as it was, with no
  descriptor and no TLS context left behind or released twice.
\<close>

section \<open>Descriptors of the dialler\<close>

text \<open>Everything that was opened has been closed once, except the descriptor the socket holds.\<close>

definition held :: "softether_socket option \<Rightarrow> int multiset" where
  "held sock = (case sock of None \<Rightarrow> {#} | Some s \<Rightarrow> if 0 \<le> sk_fd s then {#sk_fd s#} else {#})"

definition balanced :: "softether_socket option \<Rightarrow> dialer \<Rightarrow> bool" where
  "balanced sock d \<longleftrightarrow> mset (dl_opened d) = mset (dl_closed d) + held sock"

lemma same_fds [simp]:
  "dl_opened (snd (os_connect d)) = dl_opened d" "dl_closed (snd (os_connect d)) = dl_closed d"
  "dl_opened (snd (os_poll d)) = dl_opened d" "dl_closed (snd (os_poll d)) = dl_closed d"
  "dl_opened (snd (os_so_error d)) = dl_opened d" "dl_closed (snd (os_so_error d)) = dl_closed d"
  "dl_opened (snd (read_cancel d)) = dl_opened d" "dl_closed (snd (read_cancel d)) = dl_closed d"
  by (simp_all add: os_connect_def os_poll_def os_so_error_def read_cancel_def split: list.split)

lemma cancel_wait_fds [simp]:
  "dl_opened (snd (cancel_wait t w d)) = dl_opened d \<and> dl_closed (snd (cancel_wait t w d)) = dl_closed d"
proof (induction t w d rule: cancel_wait.induct)
  case (1 t w d)
  obtain c d1 where c: "read_cancel d = (c, d1)" by fastforce
  obtain a d2 where a: "os_poll d1 = (a, d2)" by fastforce
  have "dl_opened d1 = dl_opened d" "dl_closed d1 = dl_closed d" "dl_opened d2 = dl_opened d1" "dl_closed d2 = dl_closed d1"
    using same_fds [of d] same_fds [of d1] c a by simp_all
  moreover note IH = 1 [OF c [symmetric] refl _ refl _ refl a [symmetric] refl]
  ultimately show ?case using IH
    by (subst (1 2) cancel_wait.simps) (auto simp add: c a Let_def simp del: cancel_wait.simps)
qed

lemma wait_fds:
  assumes "wait_connected b t d = (r, d')"
  shows "dl_opened d' = dl_opened d \<and> dl_closed d' = dl_closed d"
proof (cases b)
  case False
  then show ?thesis using assms same_fds [of d] by (cases "os_poll d") (simp add: wait_connected_def)
next
  case True
  obtain r1 d1 where w: "cancel_wait t 0 d = (r1, d1)" by fastforce
  then have "dl_opened d1 = dl_opened d \<and> dl_closed d1 = dl_closed d" using cancel_wait_fds [of t 0 d] by (simp del: cancel_wait.simps)
  then show ?thesis using assms True same_fds [of d1]
    by (cases "read_cancel d1") (simp add: wait_connected_def w Let_def del: cancel_wait.simps split: if_splits)
qed

lemma recreate_balanced:
  assumes "balanced (Some s) d" "socket_recreate_for_family s fam d = (rc, s', d')"
  shows "balanced (Some s') d' \<and> (rc = 0 \<longrightarrow> 0 \<le> sk_fd s')"
  using assms by (auto simp: socket_recreate_for_family_def balanced_def held_def os_close_def os_socket_def Let_def
      split: if_splits list.splits)

lemma try_addr_balanced:
  assumes "balanced (Some s) d" "try_connect_addr s ai t b d = (rc, s', d')"
  shows "balanced (Some s') d' \<and> (rc = 0 \<longrightarrow> 0 \<le> sk_fd s')"
proof -
  obtain r1 s1 d1 where r: "socket_recreate_for_family s (addr_family ai) d = (r1, s1, d1)" by (metis prod_cases3)
  note b1 = recreate_balanced [OF assms(1) r]
  obtain a d2 where a: "os_connect d1 = (a, d2)" by fastforce
  obtain w d3 where w: "wait_connected b t d2 = (w, d3)" by fastforce
  obtain e d4 where e: "os_so_error d3 = (e, d4)" by fastforce
  have "dl_opened d2 = dl_opened d1" "dl_closed d2 = dl_closed d1" "dl_opened d4 = dl_opened d3" "dl_closed d4 = dl_closed d3"
    using same_fds [of d1] same_fds [of d3] a e by simp_all
  then show ?thesis using assms(2) b1 wait_fds [OF w]
    by (auto simp: try_connect_addr_def r a w e Let_def balanced_def held_def split: if_splits conn_answer.splits)
qed

lemma try_family_balanced:
  "balanced (Some s) d \<Longrightarrow> try_family fam ais s t b d = (rc, s', d') \<Longrightarrow> balanced (Some s') d' \<and> (rc = 0 \<longrightarrow> 0 \<le> sk_fd s')"
proof (induction ais arbitrary: s d)
  case (Cons ai ais)
  show ?case
  proof (cases "addr_family ai = fam")
    case True
    obtain r1 s1 d1 where t: "try_connect_addr s ai t b d = (r1, s1, d1)" by (metis prod_cases3)
    have b1: "balanced (Some s1) d1 \<and> (r1 = 0 \<longrightarrow> 0 \<le> sk_fd s1)" using try_addr_balanced [OF Cons.prems(1) t] .
    then show ?thesis using Cons.prems(2) True Cons.IH [of s1 d1]
      by (auto simp: t balanced_def held_def split: if_splits)
  qed (use Cons in auto)
qed auto

lemma connect_balanced:
  assumes "balanced (Some s) d" "socket_connect_timeout_cancel (Some s) ais t b d = (rc, sock, d')"
  shows "\<exists>s'. sock = Some s' \<and> balanced sock d' \<and> (rc = 0 \<longrightarrow> 0 \<le> sk_fd s')"
proof (cases ais)
  case Nil
  then show ?thesis using assms by (auto simp: socket_connect_timeout_cancel_def)
next
  case (Cons ai r)
  define f1 where "f1 = (if addr_family ai = AF_INET then AF_INET else AF_INET6)"
  define f2 where "f2 = (if f1 = AF_INET then AF_INET6 else AF_INET)"
  obtain r1 s1 d1 where t1: "try_family f1 ais s t b d = (r1, s1, d1)" by (metis prod_cases3)
  obtain r2 s2 d2 where t2: "try_family f2 ais s1 t b d1 = (r2, s2, d2)" by (metis prod_cases3)
  note b1 = try_family_balanced [OF assms(1) t1]
  have e: "socket_connect_timeout_cancel (Some s) ais t b d = (if r1 = 0 then (0, Some s1, d1) else (r2, Some s2, d2))"
    using t1 t2 Cons unfolding socket_connect_timeout_cancel_def f2_def f1_def by (simp add: Let_def)
  show ?thesis using assms(2) b1 try_family_balanced [OF conjunct1 [OF b1] t2] unfolding e by (auto split: if_splits)
qed

lemma dial_balanced:
  assumes "dial_link E = (fd, d)" "dl_opened (ae_dialer E) = []" "dl_closed (ae_dialer E) = []"
  shows "mset (dl_opened d) = mset (dl_closed d) + (case fd of None \<Rightarrow> {#} | Some f \<Rightarrow> {#f#}) \<and> (\<forall>f. fd = Some f \<longrightarrow> 0 \<le> f)"
proof -
  obtain sock d1 where c: "socket_create (ae_mem E) False (ae_dialer E) = (sock, d1)" by fastforce
  have b1: "balanced sock d1" using c assms(2,3)
    by (auto simp: socket_create_def os_socket_def balanced_def held_def Let_def split: if_splits list.splits)
  show ?thesis
  proof (cases sock)
    case None
    then show ?thesis using assms(1) c b1 by (auto simp: dial_link_def balanced_def held_def)
  next
    case (Some s)
    obtain rc sock2 d2 where t: "socket_connect_timeout_cancel (Some s) (ae_addrs E) (ae_timeout_ms E) False d1 = (rc, sock2, d2)"
      by (metis prod_cases3)
    obtain s2 where s2: "sock2 = Some s2" "balanced sock2 d2" "rc = 0 \<longrightarrow> 0 \<le> sk_fd s2"
      using connect_balanced [OF b1 [unfolded Some] t] by blast
    show ?thesis using assms(1) c t b1 s2
      by (auto simp: dial_link_def Some socket_connect_timeout_def socket_destroy_def os_close_def balanced_def held_def split: if_splits)
  qed
qed


section \<open>The exchange with the server\<close>

definition quiet :: "nat option \<Rightarrow> net \<Rightarrow> net \<Rightarrow> bool" where
  "quiet ssl nt nt' \<longleftrightarrow> io_step 3 ssl nt nt' \<and> nt_closed nt' = nt_closed nt"

lemma quiet_refl [simp]: "quiet ssl nt nt"
  by (simp add: quiet_def)

lemma quiet_trans: "quiet ssl a b \<Longrightarrow> quiet ssl b d \<Longrightarrow> quiet ssl a d"
  unfolding quiet_def by (metis io_step_trans)

lemma quiet_alive: "quiet ssl nt nt' \<Longrightarrow> tls_alive s nt' = tls_alive s nt"
  unfolding quiet_def using io_step_alive by blast

lemma closed_basic [simp]: "nt_closed (net_ev e nt) = nt_closed nt" "nt_closed (tls_set i c nt) = nt_closed nt"
  by (simp_all add: net_ev_def tls_set_def)

lemma read_loop_closed: "ssl_read_loop r i len nt = (ret, bs, nt') \<Longrightarrow> nt_closed nt' = nt_closed nt"
proof (induction r arbitrary: nt)
  case (Suc r)
  obtain a nt1 where a: "ssl_read_call i len nt = (a, nt1)" by fastforce
  have "nt_closed nt1 = nt_closed nt" using a by (auto simp: ssl_read_call_def Let_def split: option.splits prod.splits)
  then show ?case using Suc.prems Suc.IH [of "net_ev (Touch i) nt1"] a by (cases a) (auto simp: Let_def split: if_splits)
qed simp

lemma ssl_read_quiet:
  assumes "tls_alive ssl nt"
  shows "\<exists>r bs nt'. ssl_read ssl len nt = Some (r, bs, nt') \<and> quiet ssl nt nt' \<and> length bs \<le> len \<and> (0 < r \<longrightarrow> r = int (length bs))"
proof -
  obtain r bs nt' where r: "ssl_read ssl len nt = Some (r, bs, nt')" "io_step 3 ssl nt nt'" "length bs \<le> len" "0 < r \<longrightarrow> r = int (length bs)"
    using ssl_read_io [OF assms] by blast
  have "nt_closed nt' = nt_closed nt"
    using r(1) by (auto simp: ssl_read_def Let_def split: option.splits if_splits prod.splits dest: read_loop_closed)
  then show ?thesis using r by (auto simp: quiet_def)
qed

lemma ssl_write_quiet:
  assumes "tls_alive ssl nt"
  shows "\<exists>r nt'. ssl_write ssl bs nt = Some (r, nt') \<and> quiet ssl nt nt'"
proof -
  obtain r nt' where w: "ssl_write ssl bs nt = Some (r, nt')" "io_step 3 ssl nt nt'" using ssl_write_io [OF assms] by blast
  have "nt_closed nt' = nt_closed nt"
    using w(1) by (auto simp: ssl_write_def Let_def split: option.splits if_splits prod.splits tx_answer.splits)
  then show ?thesis using w by (auto simp: quiet_def)
qed

lemma malloc_quiet: "net_malloc nt = (b, nt') \<Longrightarrow> quiet ssl nt nt'"
  by (auto simp: net_malloc_def quiet_def io_step_def lock_seg_def same_life_def split: list.splits)

lemma read_all_quiet:
  "tls_alive ssl nt \<Longrightarrow> \<exists>ret bs nt'. ssl_read_all_ctx ssl len acc nt = Some (ret, bs, nt') \<and> quiet ssl nt nt' \<and> length bs \<le> length acc + len"
proof (induction len arbitrary: acc nt rule: less_induct)
  case (less len)
  show ?case
  proof (cases "len = 0")
    case True then show ?thesis by (subst ssl_read_all_ctx.simps) simp
  next
    case False
    obtain r bs nt1 where r: "ssl_read ssl len nt = Some (r, bs, nt1)" "quiet ssl nt nt1" "length bs \<le> len"
      "0 < r \<longrightarrow> r = int (length bs)" using ssl_read_quiet [OF less.prems] by blast
    show ?thesis
    proof (cases "r \<le> 0")
      case True
      then show ?thesis using r False by (subst ssl_read_all_ctx.simps) simp
    next
      case pos: False
      have *: "ssl_read_all_ctx ssl len acc nt = ssl_read_all_ctx ssl (len - length bs) (acc @ bs) nt1"
        using r pos False by (subst ssl_read_all_ctx.simps) (simp del: ssl_read_all_ctx.simps)
      have "len - length bs < len" "tls_alive ssl nt1" using r pos False less.prems by (auto simp: quiet_alive)
      from less.IH [OF this, of "acc @ bs"] show ?thesis
        unfolding * using r(2,3) quiet_trans [OF r(2)] by (auto simp del: ssl_read_all_ctx.simps)
    qed
  qed
qed

lemma read_headers_quiet:
  "tls_alive ssl nt \<Longrightarrow> \<exists>h nt'. read_headers n ssl acc nt = Some (h, nt') \<and> quiet ssl nt nt' \<and>
     (\<forall>x. h = Some x \<longrightarrow> length x \<le> length acc + n)"
proof (induction n arbitrary: acc nt)
  case (Suc n)
  obtain r bs nt1 where r: "ssl_read ssl 1 nt = Some (r, bs, nt1)" "quiet ssl nt nt1" "length bs \<le> 1"
    using ssl_read_quiet [OF Suc.prems, of 1] by blast
  have al: "tls_alive ssl nt1" using Suc.prems quiet_alive [OF r(2)] by simp
  obtain h nt' where h: "read_headers n ssl (acc @ bs) nt1 = Some (h, nt')" "quiet ssl nt1 nt'" "\<forall>x. h = Some x \<longrightarrow> length x \<le> length (acc @ bs) + n"
    using Suc.IH [OF al, of "acc @ bs"] by blast
  have q: "quiet ssl nt nt'" using quiet_trans [OF r(2) h(2)] .
  have le: "length (acc @ bs) \<le> length acc + Suc n" using r(3) by simp
  consider "r \<le> 0" | "\<not> r \<le> 0" "4 \<le> length (acc @ bs) \<and> drop (length (acc @ bs) - 4) (acc @ bs) = crlf @ crlf"
    | "\<not> r \<le> 0" "\<not> (4 \<le> length (acc @ bs) \<and> drop (length (acc @ bs) - 4) (acc @ bs) = crlf @ crlf)" by blast
  then show ?case
  proof cases
    case 1
    then show ?thesis using r by simp
  next
    case 2
    then have "read_headers (Suc n) ssl acc nt = Some (Some (acc @ bs), nt1)"
      using r(1) by (simp only: read_headers.simps Option.bind.bind_lunit prod.case if_False Let_def if_True simp_thms)
    then show ?thesis using r(2) le by simp
  next
    case 3
    then have "read_headers (Suc n) ssl acc nt = Some (h, nt')"
      using r(1) h(1) by (simp only: read_headers.simps Option.bind.bind_lunit prod.case if_False Let_def)
    moreover have "\<forall>x. h = Some x \<longrightarrow> length x \<le> length acc + Suc n" using h(3) r(3) by auto
    ultimately show ?thesis using q by blast
  qed
qed simp

text \<open>The array of the first reply has a NUL at its end; the second reply is terminated by the code.\<close>

definition stack_ok :: "byte list option \<Rightarrow> bool" where
  "stack_ok stack \<longleftrightarrow> (\<forall>s. stack = Some s \<longrightarrow> length s = REPLY_SIZE \<and> last s = 0)"

lemma read_reply_quiet:
  assumes "tls_alive ssl nt" "stack_ok stack"
  shows "\<exists>b nt'. read_reply stack ssl nt = Some (b, nt') \<and> quiet ssl nt nt' \<and> (\<forall>x. b = Some x \<longrightarrow> length x < REPLY_SIZE)"
proof -
  obtain h nt1 where h: "read_headers (REPLY_SIZE - 1) ssl [] nt = Some (h, nt1)" "quiet ssl nt nt1"
      "\<forall>x. h = Some x \<longrightarrow> length x \<le> REPLY_SIZE - 1"
    using read_headers_quiet [OF assms(1), of "REPLY_SIZE - 1" "[]"] by auto
  show ?thesis
  proof (cases h)
    case None
    then show ?thesis using h by (simp add: read_reply_def)
  next
    case (Some x)
    define hay where "hay = (case stack of None \<Rightarrow> x @ [0] | Some s \<Rightarrow> x @ drop (length x) s)"
    have nul: "0 \<in> set hay"
    proof (cases stack)
      case (Some s)
      have "length x < length s" using assms(2) h(3) \<open>h = Some x\<close> Some by (auto simp: stack_ok_def REPLY_SIZE_def)
      then have "last (drop (length x) s) = 0" "drop (length x) s \<noteq> []"
        using assms(2) Some by (simp_all add: stack_ok_def)
      then have "0 \<in> set (drop (length x) s)" using last_in_set by metis
      then show ?thesis using Some by (simp add: hay_def)
    qed (simp add: hay_def)
    have al: "tls_alive ssl nt1" using assms(1) quiet_alive [OF h(2)] by simp
    have u: "read_reply stack ssl nt = (case content_length (c_str hay) of
        None \<Rightarrow> Some (None, nt1)
      | Some cl \<Rightarrow> if 0 < cl \<and> length x + cl < REPLY_SIZE
          then do { (r, body, nt) \<leftarrow> ssl_read_all_ctx ssl cl [] nt1; Some (if r < 0 then None else Some body, nt) }
          else Some (Some [], nt1))"
      unfolding read_reply_def h(1) Some using nul by (simp add: hay_def [symmetric] Let_def del: ssl_read_all_ctx.simps)
    show ?thesis
    proof (cases "content_length (c_str hay)")
      case None
      then show ?thesis using u h(2) by simp
    next
      case (Some cl)
      obtain r body nt2 where b: "ssl_read_all_ctx ssl cl [] nt1 = Some (r, body, nt2)" "quiet ssl nt1 nt2" "length body \<le> cl"
        using read_all_quiet [OF al, of cl "[]"] by auto
      show ?thesis using u b h(2) quiet_trans [OF h(2) b(2)] by (auto simp: Some REPLY_SIZE_def simp del: ssl_read_all_ctx.simps)
    qed
  qed
qed


lemma dec_small: "n < 100 \<Longrightarrow> length (dec_digits n) \<le> 2"
  by (subst dec_digits.simps, subst dec_digits.simps) auto

lemma ip_length: "length (server_ip_str c) \<le> 64"
  unfolding server_ip_str_def using length_c_str_le [of "take 64 (cn_server_ip c)"] by simp

lemma watermark_fits: "c_snprintf 1024 (connect_cgi_request ip) = Some (connect_cgi_request ip)" if "length ip \<le> 64"
proof -
  have "length vpnconnect < 100" by (simp add: vpnconnect_def)
  from dec_small [OF this] that have "length (connect_cgi_request ip) < 1024"
    by (simp add: connect_cgi_request_def crlf_def del: dec_digits.simps)
  then show ?thesis by (simp add: c_snprintf_def)
qed

lemma vpn_request_fits: "length date \<le> 63 \<Longrightarrow> length ip \<le> 64 \<Longrightarrow> n < 100 \<Longrightarrow>
    c_snprintf 512 (vpn_cgi_request date ip n) = Some (vpn_cgi_request date ip n)"
  using dec_small [of n] by (simp add: c_snprintf_def vpn_cgi_request_def crlf_def del: dec_digits.simps)

text \<open>The PACK of the request: the session key under its name.\<close>

definition additional_elems :: "softether_connection \<Rightarrow> pack_elem list" where
  "additional_elems c = [(str ''method'', PStr (str ''additional_connect'')), (str ''session_key'', PData (arr SHA1_SIZE (cn_session_key c)))]"

lemma additional_pack_ok: "\<exists>buf. additional_pack c = Some (buf, 91) \<and> take 91 buf = enc_pack (additional_elems c) \<and> 91 \<le> length buf"
proof -
  let ?cs = "[Add_str (str ''method'') (str ''additional_connect''),
     Add_data (str ''session_key'') (Some (arr SHA1_SIZE (cn_session_key c))) (word_of_nat SHA1_SIZE)]"
  have e: "map call_elem ?cs = additional_elems c" by (simp add: additional_elems_def SHA1_SIZE_def)
  have ok: "list_all call_ok ?cs" by (simp add: SHA1_SIZE_def)
  have w: "writes (\<lambda>x. pack_write_uint32 x 2 \<bind> run_calls ?cs) (be32 2 @ enc_elems (additional_elems c))"
    unfolding e [symmetric] by (intro writes_bind writes_uint32 writes_calls ok)
  have len: "length (be32 2 @ enc_elems (additional_elems c)) = 91"
    by (simp add: enc_elems_def additional_elems_def enc_elem_length size_simps SHA1_SIZE_def)
  have sz: "4 + PACK_STR_SZ (str ''method'') (str ''additional_connect'') + PACK_DATA_SZ (str ''session_key'') (word_of_nat SHA1_SIZE) = (91 :: u32)"
    by (simp add: pack_sizes strlen32_def SHA1_SIZE_def)
  have "additional_pack c = (pack_write_uint32 (replicate 155 0, 0) 2 \<bind> run_calls ?cs)"
    unfolding additional_pack_def Let_def sz by simp
  also have "\<dots> = Some ((be32 2 @ enc_elems (additional_elems c)) @ replicate 64 0, 91)"
    using w len unfolding writes_def by (simp only: len) (simp add: len)
  finally show ?thesis using len by (intro exI [of _ "(be32 2 @ enc_elems (additional_elems c)) @ replicate 64 0"])
      (simp add: enc_pack_def additional_elems_def)
qed

lemma send_watermark_quiet:
  assumes "tls_alive ssl nt"
  shows "\<exists>b nt'. send_watermark ssl c nt = Some (b, nt') \<and> quiet ssl nt nt'"
proof -
  obtain ok nt1 where m: "net_malloc nt = (ok, nt1)" by fastforce
  note q1 = malloc_quiet [OF m, of ssl]
  have "tls_alive ssl nt1" using assms quiet_alive [OF q1] by simp
  then obtain r nt2 where w: "ssl_write ssl (connect_cgi_request (server_ip_str c) @ vpnconnect) nt1 = Some (r, nt2)" "quiet ssl nt1 nt2"
    using ssl_write_quiet by blast
  show ?thesis using q1 quiet_trans [OF q1 w(2)] m w(1) watermark_fits [OF ip_length [of c]]
    by (cases ok) (auto simp: send_watermark_def)
qed

lemma send_additional_quiet:
  assumes "tls_alive ssl nt"
  shows "\<exists>b nt'. send_additional E ssl c nt = Some (b, nt') \<and> quiet ssl nt nt'"
proof -
  obtain ok nt1 where m: "net_malloc nt = (ok, nt1)" by fastforce
  note q1 = malloc_quiet [OF m, of ssl]
  obtain buf where b: "additional_pack c = Some (buf, 91)" "91 \<le> length buf" using additional_pack_ok by blast
  obtain ok2 nt2 where m2: "net_malloc nt1 = (ok2, nt2)" by fastforce
  note q2 = quiet_trans [OF q1 malloc_quiet [OF m2]]
  have al: "tls_alive ssl nt2" using assms quiet_alive [OF q2] by simp
  obtain r nt3 where w: "ssl_write ssl (vpn_cgi_request (take 63 (ae_date E)) (server_ip_str c) 91 @ take 91 buf) nt2 = Some (r, nt3)" "quiet ssl nt2 nt3"
    using ssl_write_quiet [OF al] by blast
  show ?thesis using q1 q2 quiet_trans [OF q2 w(2)] m m2 w(1) b vpn_request_fits [OF _ ip_length [of c], of "take 63 (ae_date E)" 91]
    by (cases ok; cases ok2) (auto simp: send_additional_def mem_read_def)
qed

definition env_ok :: "link_env \<Rightarrow> bool" where
  "env_ok E \<longleftrightarrow> (\<forall>nt i. ae_alloc E nt = Some i \<longrightarrow> sc_freed (nt_tls nt i)) \<and> stack_ok (Some (ae_stack E)) \<and>
     dl_opened (ae_dialer E) = [] \<and> dl_closed (ae_dialer E) = []"

lemma negotiate_quiet:
  assumes "tls_alive ssl nt" "env_ok E"
  shows "\<exists>d nt'. negotiate_link E ssl c nt = Some (d, nt') \<and> quiet ssl nt nt'"
proof -
  obtain b1 nt1 where 1: "send_watermark ssl c nt = Some (b1, nt1)" "quiet ssl nt nt1" using send_watermark_quiet [OF assms(1)] by blast
  have a1: "tls_alive ssl nt1" using assms(1) quiet_alive [OF 1(2)] by simp
  have sk: "stack_ok (Some (ae_stack E))" "stack_ok None" using assms(2) by (simp_all add: env_ok_def stack_ok_def)
  obtain b2 nt2 where 2: "read_reply (Some (ae_stack E)) ssl nt1 = Some (b2, nt2)" "quiet ssl nt1 nt2" using read_reply_quiet [OF a1 sk(1)] by blast
  have a2: "tls_alive ssl nt2" using a1 quiet_alive [OF 2(2)] by simp
  obtain b3 nt3 where 3: "send_additional E ssl c nt2 = Some (b3, nt3)" "quiet ssl nt2 nt3" using send_additional_quiet [OF a2] by blast
  have a3: "tls_alive ssl nt3" using a2 quiet_alive [OF 3(2)] by simp
  obtain b4 nt4 where 4: "read_reply None ssl nt3 = Some (b4, nt4)" "quiet ssl nt3 nt4" using read_reply_quiet [OF a3 sk(2)] by blast
  have q2: "quiet ssl nt nt2" using quiet_trans [OF 1(2) 2(2)] .
  have q3: "quiet ssl nt nt3" using quiet_trans [OF q2 3(2)] .
  have q4: "quiet ssl nt nt4" using quiet_trans [OF q3 4(2)] .
  show ?thesis using 1 2(1) 3(1) 4(1) q2 q3 q4 by (cases b1; cases b2; cases b3) (simp_all add: negotiate_link_def)
qed


section \<open>The handshake\<close>

lemma in_tls_vis: "in_tls tr \<Longrightarrow> in_tls (vis b tr)"
  unfolding in_tls_def using run_vis by blast

lemma handshake_frame:
  "handshake_loop i n nt = (r, nt') \<Longrightarrow> nt_closed nt' = nt_closed nt \<and> sc_freed (nt_tls nt' i) = sc_freed (nt_tls nt i) \<and>
     (\<forall>j. j \<noteq> i \<longrightarrow> nt_tls nt' j = nt_tls nt j)"
proof (induction n arbitrary: nt)
  case (Suc n)
  let ?hs = "case sc_hs (nt_tls nt i) of [] \<Rightarrow> [] | a # hs \<Rightarrow> hs"
  define nt1 where "nt1 = tls_set i ((nt_tls nt i)\<lparr>sc_hs := ?hs\<rparr>) (net_ev (Unlock L_openssl) (net_ev (Touch i) (net_ev (Lock L_openssl) nt)))"
  have e: "nt_closed nt1 = nt_closed nt" "sc_freed (nt_tls nt1 i) = sc_freed (nt_tls nt i)" "j \<noteq> i \<Longrightarrow> nt_tls nt1 j = nt_tls nt j" for j
    by (simp_all add: nt1_def)
  have "(nt' = nt1 \<or> nt' = net_ev (Touch i) nt1) \<or> handshake_loop i n (net_ev (Touch i) nt1) = (r, nt')"
    using Suc.prems by (auto simp: Let_def nt1_def split: list.splits hs_answer.splits)
  then show ?case using e Suc.IH [of "net_ev (Touch i) nt1"] by auto
qed simp

lemma order_segI: "nt_trace nt' = nt_trace nt @ tr \<Longrightarrow> disciplined 3 (vis False tr) \<Longrightarrow> order_seg 3 nt nt'"
  by (auto simp: order_seg_def seg_of_def)

lemma connect_quiet:
  assumes "\<not> sc_freed (nt_tls nt i)"
  shows "\<exists>rc nt'. ssl_connect (Some i) s ok nt = Some (rc, nt') \<and> order_seg 3 nt nt' \<and> nt_closed nt' = nt_closed nt \<and>
     \<not> sc_freed (nt_tls nt' i) \<and> (\<forall>j. j \<noteq> i \<longrightarrow> nt_tls nt' j = nt_tls nt j)"
proof -
  have w: "disciplined 3 [Lock L_tls_wr, Unlock L_tls_wr]" using disciplined_tls [of "[]" L_tls_wr] by simp
  have w2: "disciplined 3 [Lock L_tls_wr, Lock L_openssl, Unlock L_openssl, Unlock L_tls_wr]"
    using disciplined_tls [of "[Lock L_openssl, Unlock L_openssl]" L_tls_wr] by simp
  have o: "disciplined 3 [Lock L_openssl, Unlock L_openssl]" using disciplined_bracket [of L_openssl "[]" 3] by simp
  show ?thesis
  proof (cases "sc_ctx (nt_tls nt i)")
    case False
    then show ?thesis using assms by (intro exI [of _ "-1"] exI [of _ nt]) (simp add: ssl_connect_def order_seg_def)
  next
    case ctx: True
    show ?thesis
    proof (cases "s \<noteq> None \<and> ok")
      case False
      have "order_seg 3 nt nt'" if "nt_trace nt' = nt_trace nt @ [Lock L_tls_wr, Unlock L_tls_wr]" for nt'
        by (rule order_segI [OF that]) (simp add: w)
      moreover have "order_seg 3 nt nt'" if "nt_trace nt' = nt_trace nt @ [Lock L_tls_wr, Lock L_openssl, Touch i, Unlock L_openssl, Unlock L_tls_wr]" for nt'
        by (rule order_segI [OF that]) (use w2 in \<open>simp add: vis_def\<close>)
      ultimately show ?thesis using False assms ctx by (auto simp: ssl_connect_def Let_def split: option.splits)
    next
      case True
      then obtain st where st: "s = Some st" "ok" by blast
      let ?n0 = "tls_set i ((nt_tls nt i)\<lparr>sc_ssl := Some st\<rparr>) (net_ev (Lock L_tls_wr) nt)"
      let ?n1 = "net_ev (Lock L_tls_rd) (net_ev (Unlock L_tls_wr) (net_ev (Touch i) ?n0))"
      obtain r n2 where h: "handshake_loop i 100 ?n1 = (r, n2)" by fastforce
      note fr = handshake_frame [OF h]
      obtain tr where tr: "nt_trace n2 = nt_trace nt @ [Lock L_tls_wr, Touch i, Unlock L_tls_wr, Lock L_tls_rd] @ tr" "in_tls tr"
        using handshake_trace [OF h] by (auto simp: tls_seg_def)
      have t: "disciplined 3 (Lock L_tls_rd # vis False tr @ [Unlock L_tls_rd])" by (rule disciplined_tls [OF in_tls_vis [OF tr(2)]]) simp
      have d1: "disciplined 3 ([Lock L_tls_wr, Unlock L_tls_wr] @ (Lock L_tls_rd # vis False tr @ [Unlock L_tls_rd]))"
        by (rule disciplined_append [OF w t])
      have d2: "disciplined 3 (([Lock L_tls_wr, Unlock L_tls_wr] @ (Lock L_tls_rd # vis False tr @ [Unlock L_tls_rd])) @ [Lock L_openssl, Unlock L_openssl])"
        by (rule disciplined_append [OF d1 o])
      have touch: "vis False (Touch j # x) = vis False x" for j x by (simp add: vis_def)
      show ?thesis
      proof (cases "r = 1")
        case True
        let ?n3 = "net_ev (Unlock L_tls_rd) (net_ev (Touch i) (tls_set i ((nt_tls n2 i)\<lparr>sc_connected := True\<rparr>) n2))"
        have "order_seg 3 nt ?n3"
          by (rule order_segI [where tr = "[Lock L_tls_wr, Touch i, Unlock L_tls_wr, Lock L_tls_rd] @ tr @ [Touch i, Unlock L_tls_rd]"])
            (use d1 in \<open>simp_all add: tr(1) touch\<close>)
        moreover have "ssl_connect (Some i) s ok nt = Some (0, ?n3)" using assms ctx h st True by (simp add: ssl_connect_def Let_def)
        ultimately show ?thesis using fr assms by simp
      next
        case False
        let ?n3 = "tls_set i ((nt_tls n2 i)\<lparr>sc_ssl := None\<rparr>) (net_ev (Unlock L_openssl) (net_ev (Touch i) (net_ev (Lock L_openssl)
          (net_ev (Unlock L_tls_rd) n2))))"
        have "order_seg 3 nt ?n3"
          by (rule order_segI [where tr = "[Lock L_tls_wr, Touch i, Unlock L_tls_wr, Lock L_tls_rd] @ tr @ [Unlock L_tls_rd, Lock L_openssl, Touch i, Unlock L_openssl]"])
            (use d2 in \<open>simp_all add: tr(1) touch\<close>)
        moreover have "ssl_connect (Some i) s ok nt = Some (-1, ?n3)" using assms ctx h st False by (simp add: ssl_connect_def Let_def)
        ultimately show ?thesis using fr assms by simp
      qed
    qed
  qed
qed


section \<open>Installing the link\<close>

lemma conn_inv_grow:
  assumes "conn_inv c nt" "\<And>x. \<not> sc_freed (nt_tls nt x) \<Longrightarrow> \<not> sc_freed (nt_tls nt' x)"
  shows "conn_inv c nt'"
proof -
  have "tls_alive s nt \<Longrightarrow> tls_alive s nt'" for s using assms(2) by (simp add: tls_alive_def)
  then show ?thesis using assms(1) unfolding conn_inv_def links_inv_def slot_ok_def by blast
qed

lemma filter_activate:
  assumes "i < length xs" "\<not> P (xs ! i)" "P x"
  shows "length (filter P (xs[i := x])) = length (filter P xs) + 1"
proof -
  have "filter P (xs[i := x]) = filter P (take i xs) @ x # filter P (drop (Suc i) xs)"
    using assms by (simp add: upd_conv_take_nth_drop)
  moreover have "filter P xs = filter P (take i xs) @ filter P (drop (Suc i) xs)"
    using assms id_take_nth_drop [of i xs] by (metis filter.simps(2) filter_append)
  ultimately show ?thesis by simp
qed

lemma install_inv:
  assumes inv: "conn_inv c nt" and sl: "slot < MAX_SE_CONNECTIONS" "\<not> ts_active (cn_additional c ! slot)" and fd: "0 \<le> fd"
    and fresh: "cn_ssl c \<noteq> Some i" "\<And>j. j < MAX_SE_CONNECTIONS \<Longrightarrow> ts_ssl_ctx (cn_additional c ! j) \<noteq> Some i"
    and al: "\<not> sc_freed (nt_tls nt i)"
  shows "conn_inv (install_link slot fd (Some i) dir now c) nt"
proof -
  note s = inv_slots [OF inv]
  let ?c = "install_link slot fd (Some i) dir now c"
  let ?ts = "(cn_additional c ! slot)\<lparr>ts_socket_fd := fd, ts_ssl_ctx := Some i, ts_ssl := Some i, ts_direction := sint dir, ts_last_recv := now,
      ts_late_count := 0, ts_active := True\<rparr>"
  have nth: "cn_additional ?c ! j = (if j = slot then ?ts else cn_additional c ! j)" for j
    using sl(1) s(1) by (simp add: install_link_def)
  have "slot_ok (cn_additional ?c ! j) nt" if "j < MAX_SE_CONNECTIONS" for j
    using s(4) [OF that] fd al unfolding nth by (simp add: slot_ok_def tls_alive_def)
  moreover have "own_contexts ?c"
    unfolding own_contexts_def nth
  proof (intro allI impI)
    fix j x assume j: "j < MAX_SE_CONNECTIONS" "ts_ssl_ctx (if j = slot then ?ts else cn_additional c ! j) = Some x"
    show "cn_ssl ?c \<noteq> Some x \<and> (\<forall>k < MAX_SE_CONNECTIONS. k \<noteq> j \<longrightarrow> ts_ssl_ctx (if k = slot then ?ts else cn_additional c ! k) \<noteq> Some x)"
    proof (cases "j = slot")
      case True
      then have "x = i" using j(2) by simp
      then show ?thesis using fresh True by (simp add: install_link_def)
    next
      case False
      then have "ts_ssl_ctx (cn_additional c ! j) = Some x" using j(2) by simp
      then have "x \<noteq> i" "cn_ssl c \<noteq> Some x" "\<forall>k < MAX_SE_CONNECTIONS. k \<noteq> j \<longrightarrow> ts_ssl_ctx (cn_additional c ! k) \<noteq> Some x"
        using fresh(2) [OF j(1)] s(2) j(1) unfolding own_contexts_def by blast+
      then show ?thesis by (simp add: install_link_def)
    qed
  qed
  moreover have "cn_num_additional ?c = int (length (filter ts_active (cn_additional ?c)))"
    using filter_activate [of slot "cn_additional c" ts_active ?ts] sl s(1) inv
    by (simp add: install_link_def conn_inv_def links_inv_def)
  ultimately have "links_inv ?c nt" using s(1,3) unfolding links_inv_def by (simp add: install_link_def)
  then show ?thesis using inv by (simp add: conn_inv_def install_link_def)
qed

lemma fold_close: "nt_closed (fold net_close fds nt) = nt_closed nt @ fds" "nt_tls (fold net_close fds nt) = nt_tls nt"
  "nt_trace (fold net_close fds nt) = nt_trace nt"
  by (induction fds arbitrary: nt) (simp_all add: net_close_def)

lemma failed_inv [simp]: "conn_inv (link_failed c) nt = conn_inv c nt"
  by (simp add: link_failed_def)

section \<open>The outcome\<close>

definition link_added :: "link_env \<Rightarrow> softether_connection \<Rightarrow> net \<Rightarrow> softether_connection \<Rightarrow> net \<Rightarrow> bool" where
  "link_added E c nt c' nt' \<longleftrightarrow>
     (\<exists>slot fd i dir now. free_slot c = Some slot \<and> fst (dial_link E) = Some fd \<and> c' = install_link slot fd (Some i) dir now c \<and>
        sc_freed (nt_tls nt i) \<and> \<not> sc_freed (nt_tls nt' i) \<and> (\<forall>x. x \<noteq> i \<longrightarrow> nt_tls nt' x = nt_tls nt x) \<and>
        mset (nt_closed nt') + {#fd#} = mset (nt_closed nt) + mset (dl_opened (snd (dial_link E))))"

definition link_refused :: "link_env \<Rightarrow> softether_connection \<Rightarrow> net \<Rightarrow> softether_connection \<Rightarrow> net \<Rightarrow> bool" where
  "link_refused E c nt c' nt' \<longleftrightarrow>
     (c' = c \<and> nt' = nt \<or>
      c' = link_failed c \<and> mset (nt_closed nt') = mset (nt_closed nt) + mset (dl_opened (snd (dial_link E)))) \<and>
     (\<forall>x. sc_freed (nt_tls nt' x) = sc_freed (nt_tls nt x) \<and> (\<not> sc_freed (nt_tls nt x) \<longrightarrow> nt_tls nt' x = nt_tls nt x))"


lemma order_seg_trans: "order_seg n a b \<Longrightarrow> order_seg n b c \<Longrightarrow> order_seg n a c"
  unfolding order_seg_def by (rule seg_of_trans)

lemma order_seg_lock: "lock_seg n a b \<Longrightarrow> order_seg n a b"
  unfolding order_seg_def by (rule seg_of_weaken)

lemma order_seg_trace: "nt_trace b = nt_trace a \<Longrightarrow> order_seg n a b"
  by (rule order_seg_lock) (simp add: lock_seg_def)

lemma quiet_order: "quiet ssl a b \<Longrightarrow> order_seg 3 a b"
  by (simp add: quiet_def io_step_def order_seg_lock)

text \<open>The link has been dialled: its descriptor is the only one that is still open, and only context \<open>i\<close> may differ.\<close>

definition dialled :: "link_env \<Rightarrow> softether_connection \<Rightarrow> net \<Rightarrow> int \<Rightarrow> nat \<Rightarrow> net \<Rightarrow> bool" where
  "dialled E c nt f i nt' \<longleftrightarrow> conn_inv c nt \<and> 0 \<le> f \<and> fst (dial_link E) = Some f \<and> order_seg 3 nt nt' \<and>
     mset (nt_closed nt') + {#f#} = mset (nt_closed nt) + mset (dl_opened (snd (dial_link E))) \<and>
     sc_freed (nt_tls nt i) \<and> (\<forall>x. x \<noteq> i \<longrightarrow> nt_tls nt' x = nt_tls nt x)"

definition connect_ends :: "link_env \<Rightarrow> softether_connection \<Rightarrow> net \<Rightarrow> (int \<times> softether_connection \<times> net) option \<Rightarrow> bool" where
  "connect_ends E c nt out \<longleftrightarrow> (\<exists>r c' nt'. out = Some (r, c', nt') \<and> conn_inv c' nt' \<and> order_seg 3 nt nt' \<and>
     (if r = 0 then link_added E c nt c' nt' else link_refused E c nt c' nt'))"

lemma connect_endsI:
  "conn_inv c' nt' \<Longrightarrow> order_seg 3 nt nt' \<Longrightarrow> (if r = 0 then link_added E c nt c' nt' else link_refused E c nt c' nt') \<Longrightarrow>
     connect_ends E c nt (Some (r, c', nt'))"
  unfolding connect_ends_def by blast

lemma dialled_step:
  assumes "dialled E c nt f i nt1" "order_seg 3 nt1 nt2" "nt_closed nt2 = nt_closed nt1" "\<forall>x. x \<noteq> i \<longrightarrow> nt_tls nt2 x = nt_tls nt1 x"
  shows "dialled E c nt f i nt2"
  using assms order_seg_trans [of 3 nt nt1 nt2] by (simp add: dialled_def)

lemma link_given_up:
  assumes "dialled E c nt f i nt4" "sc_freed (nt_tls nt4 i)"
  shows "connect_ends E c nt (Some (-1, link_failed c, net_close f nt4))"
proof (rule connect_endsI)
  note d = assms(1) [unfolded dialled_def]
  have k: "sc_freed (nt_tls nt4 x) = sc_freed (nt_tls nt x)" "\<not> sc_freed (nt_tls nt x) \<Longrightarrow> nt_tls nt4 x = nt_tls nt x" for x
    using assms(2) d by (cases "x = i"; simp)+
  then have "conn_inv c nt4" using conn_inv_grow [of c nt] d by metis
  then show "conn_inv (link_failed c) (net_close f nt4)" using conn_inv_tls [of "net_close f nt4" nt4] by simp
  show "order_seg 3 nt (net_close f nt4)" using order_seg_trans [of 3 nt nt4 "net_close f nt4"] order_seg_trace [of "net_close f nt4" nt4] d by simp
  show "if (-1 :: int) = 0 then link_added E c nt (link_failed c) (net_close f nt4) else link_refused E c nt (link_failed c) (net_close f nt4)"
    using k d by (simp add: link_refused_def net_close_def)
qed

text \<open>What follows the dialling.\<close>

definition secure_link :: "link_env \<Rightarrow> nat \<Rightarrow> int \<Rightarrow> softether_connection \<Rightarrow> net \<Rightarrow> (int \<times> softether_connection \<times> net) option" where
  "secure_link E slot fd c nt =
     (let (ssl, nt) = ssl_create_client (ae_alloc E nt) (ae_ctx_ok E) (ae_hs E) nt in
      if ssl = None then Some (-1, link_failed c, net_close fd nt)
      else do { (rc, nt) \<leftarrow> ssl_connect ssl (ae_ssl E) (ae_fd_ok E) nt;
                if rc \<noteq> 0 then do { nt \<leftarrow> ssl_destroy ssl nt; Some (-1, link_failed c, net_close fd nt) }
                else do { (dir, nt) \<leftarrow> negotiate_link E ssl c nt;
                          case dir of
                            None \<Rightarrow> abort_link fd ssl c nt
                          | Some direction \<Rightarrow>
                              let (now, nt) = softether_tick_ms nt
                              in Some (0, install_link slot fd ssl direction now c, nt) } })"

lemma connect_unfold:
  assumes "cn_state c = STATE_CONNECTED" "free_slot c = Some slot" "dial_link E = (fd, d)" "dl_closed (ae_dialer E) = []"
  shows "softether_additional_connect E c nt =
     (case fd of None \<Rightarrow> Some (-1, link_failed c, fold net_close (dl_closed d) nt)
      | Some fd \<Rightarrow> secure_link E slot fd c (fold net_close (dl_closed d) nt))"
  using assms unfolding secure_link_def by (simp add: softether_additional_connect_def) (simp only: Let_def)

lemma link_installed:
  assumes d: "dialled E c nt f i nt4" and al: "\<not> sc_freed (nt_tls nt4 i)" and sl: "free_slot c = Some slot"
    and tk: "softether_tick_ms nt4 = (now, nt5)"
  shows "connect_ends E c nt (Some (0, install_link slot f (Some i) dir now c, nt5))"
proof (rule connect_endsI)
  have t5: "nt_tls nt5 = nt_tls nt4" "nt_closed nt5 = nt_closed nt4" "nt_trace nt5 = nt_trace nt4"
    using tk by (auto simp: softether_tick_ms_def)
  have d5: "dialled E c nt f i nt5" using dialled_step [OF d order_seg_trace [OF t5(3)]] t5 by simp
  note e = d5 [unfolded dialled_def]
  have "\<not> sc_freed (nt_tls nt5 x)" if "\<not> sc_freed (nt_tls nt x)" for x
    using that e al t5(1) by (cases "x = i") auto
  then have g: "conn_inv c nt5" using conn_inv_grow [of c nt nt5] e by blast
  note s = inv_slots [of c nt]
  have f1: "cn_ssl c \<noteq> Some i" using s(3) e by (auto simp: tls_alive_def)
  have f2: "ts_ssl_ctx (cn_additional c ! j) \<noteq> Some i" if "j < MAX_SE_CONNECTIONS" for j
    using s(4) [of j] e that by (auto simp: slot_ok_def tls_alive_def)
  have "slot < MAX_SE_CONNECTIONS" "\<not> ts_active (cn_additional c ! slot)" using sl by (auto simp: free_slot_def find_Some_iff)
  then show "conn_inv (install_link slot f (Some i) dir now c) nt5"
    using install_inv [OF g _ _ _ f1 f2] e al t5(1) by simp
  show "order_seg 3 nt nt5" using e by blast
  show "if (0 :: int) = 0 then link_added E c nt (install_link slot f (Some i) dir now c) nt5
        else link_refused E c nt (install_link slot f (Some i) dir now c) nt5"
    using sl e al t5(1) by (auto simp: link_added_def)
qed

lemma secured_ends:
  assumes d: "dialled E c nt f i nt3" and E: "env_ok E" and al: "\<not> sc_freed (nt_tls nt3 i)" and sl: "free_slot c = Some slot"
  shows "connect_ends E c nt (do { (dir, nt) \<leftarrow> negotiate_link E (Some i) c nt3;
           case dir of
             None \<Rightarrow> abort_link f (Some i) c nt
           | Some direction \<Rightarrow> let (now, nt) = softether_tick_ms nt in Some (0, install_link slot f (Some i) direction now c, nt) })"
proof -
  have a3: "tls_alive (Some i) nt3" using al by (simp add: tls_alive_def)
  obtain dir nt4 where ng: "negotiate_link E (Some i) c nt3 = Some (dir, nt4)" "quiet (Some i) nt3 nt4"
    using negotiate_quiet [OF a3 E] by blast
  have q4: "nt_closed nt4 = nt_closed nt3" "\<forall>x. x \<noteq> i \<longrightarrow> nt_tls nt4 x = nt_tls nt3 x" "\<not> sc_freed (nt_tls nt4 i)"
    using ng(2) quiet_alive [OF ng(2), of "Some i"] a3 by (auto simp: quiet_def io_step_def tls_alive_def)
  have d4: "dialled E c nt f i nt4" using dialled_step [OF d quiet_order [OF ng(2)] q4(1,2)] .
  show ?thesis
  proof (cases dir)
    case None
    obtain nt5 nt6 where k: "ssl_shutdown (Some i) nt4 = Some nt5" "ssl_destroy (Some i) nt5 = Some nt6" "frees (set_option (Some i)) nt4 nt6"
      using kill_ok [of "Some i" nt4] q4(3) by (auto simp: tls_alive_def)
    have "dialled E c nt f i nt6" using dialled_step [OF d4 order_seg_lock] k(3) by (simp add: frees_def)
    then show ?thesis using link_given_up [of E c nt f i nt6] k None ng(1) by (simp add: abort_link_def frees_def)
  next
    case (Some direction)
    then show ?thesis using link_installed [OF d4 q4(3) sl] ng(1) by (cases "softether_tick_ms nt4") simp
  qed
qed

lemma secure_link_ends:
  assumes d: "\<And>i. sc_freed (nt_tls nt i) \<Longrightarrow> dialled E c nt f i nt1" and t1: "nt_tls nt1 = nt_tls nt" and E: "env_ok E"
    and inv: "conn_inv c nt" and sl: "free_slot c = Some slot"
    and close: "mset (nt_closed nt1) + {#f#} = mset (nt_closed nt) + mset (dl_opened (snd (dial_link E)))" "order_seg 3 nt nt1"
  shows "connect_ends E c nt (secure_link E slot f c nt1)"
proof -
  obtain ssl nt2 where ct: "ssl_create_client (ae_alloc E nt1) (ae_ctx_ok E) (ae_hs E) nt1 = (ssl, nt2)" by fastforce
  have fresh: "sc_freed (nt_tls nt j)" if "ae_alloc E nt1 = Some j" for j using that E t1 unfolding env_ok_def by metis
  have t2: "nt_closed nt2 = nt_closed nt1" "nt_trace nt2 = nt_trace nt1"
    using ct by (auto simp: ssl_create_client_def split: option.splits if_splits)
  show ?thesis
  proof (cases ssl)
    case None
    have s: "sc_freed (nt_tls nt2 x) = sc_freed (nt_tls nt x)" "\<not> sc_freed (nt_tls nt x) \<Longrightarrow> nt_tls nt2 x = nt_tls nt x" for x
      using ct None fresh t1 by (auto simp: ssl_create_client_def split: option.splits if_splits)
    then have "conn_inv c nt2" using conn_inv_grow [OF inv] by metis
    then have "conn_inv (link_failed c) (net_close f nt2)" using conn_inv_tls [of "net_close f nt2" nt2] by simp
    moreover have "order_seg 3 nt (net_close f nt2)" using order_seg_trans [OF close(2), of "net_close f nt2"] order_seg_trace [of "net_close f nt2" nt1] t2(2) by simp
    ultimately show ?thesis using connect_endsI [of "link_failed c" "net_close f nt2" nt "-1" E c] s ct None close(1) t2(1)
      by (simp add: secure_link_def link_refused_def net_close_def)
  next
    case (Some i)
    have fr: "sc_freed (nt_tls nt i)" "\<not> sc_freed (nt_tls nt2 i)" "\<forall>x. x \<noteq> i \<longrightarrow> nt_tls nt2 x = nt_tls nt1 x"
      using ct Some fresh by (auto simp: ssl_create_client_def tls_zero_def split: option.splits if_splits)
    obtain rc nt3 where cn: "ssl_connect (Some i) (ae_ssl E) (ae_fd_ok E) nt2 = Some (rc, nt3)" "order_seg 3 nt2 nt3"
        "nt_closed nt3 = nt_closed nt2" "\<not> sc_freed (nt_tls nt3 i)" "\<forall>j. j \<noteq> i \<longrightarrow> nt_tls nt3 j = nt_tls nt2 j"
      using connect_quiet [OF fr(2)] by blast
    have "dialled E c nt f i nt2" using dialled_step [OF d [OF fr(1)] order_seg_trace [OF t2(2)] t2(1) fr(3)] .
    then have d3: "dialled E c nt f i nt3" using dialled_step cn(2,3,5) by blast
    show ?thesis
    proof (cases "rc = 0")
      case True
      then show ?thesis using secured_ends [OF d3 E cn(4) sl] ct Some cn(1) by (simp add: secure_link_def)
    next
      case False
      obtain nt4 where ds: "ssl_destroy (Some i) nt3 = Some nt4" using ssl_destroy_total [of "Some i" nt3] cn(4) by (auto simp: tls_alive_def)
      note k = ssl_destroy_seg [OF ds]
      have "nt_closed nt4 = nt_closed nt3" using ds by (auto simp: ssl_destroy_def Let_def split: if_splits)
      then have "dialled E c nt f i nt4" using dialled_step [OF d3 order_seg_lock [OF k(1)]] k(2) by simp
      then show ?thesis using link_given_up [of E c nt f i nt4] k(2) [of i] ct Some cn(1) False ds by (simp add: secure_link_def)
    qed
  qed
qed

lemma additional_connect_ok:
  assumes E: "env_ok E" and inv: "conn_inv c nt"
  shows "connect_ends E c nt (softether_additional_connect E c nt)"
proof (cases "cn_state c \<noteq> STATE_CONNECTED \<or> free_slot c = None")
  case True
  then have "softether_additional_connect E c nt = Some (-1, c, nt)" by (auto simp: softether_additional_connect_def)
  then show ?thesis using connect_endsI [OF inv, of nt "-1" E c] by (simp add: link_refused_def order_seg_def)
next
  case False
  then obtain slot where slot: "cn_state c = STATE_CONNECTED" "free_slot c = Some slot" by auto
  obtain fd d where dl: "dial_link E = (fd, d)" by fastforce
  have e0: "dl_closed (ae_dialer E) = []" "dl_opened (ae_dialer E) = []" using E by (simp_all add: env_ok_def)
  have bal: "mset (dl_opened d) = mset (dl_closed d) + (case fd of None \<Rightarrow> {#} | Some f \<Rightarrow> {#f#})" "\<And>f. fd = Some f \<Longrightarrow> 0 \<le> f"
    using dial_balanced [OF dl e0(2,1)] by auto
  let ?nt = "fold net_close (dl_closed d) nt"
  have t: "nt_tls ?nt = nt_tls nt" "nt_trace ?nt = nt_trace nt" "nt_closed ?nt = nt_closed nt @ dl_closed d"
    by (simp_all add: fold_close)
  show ?thesis
  proof (cases fd)
    case None
    then show ?thesis using connect_unfold [OF slot dl e0(1)] inv bal(1) conn_inv_tls [OF t(1)] t dl
        connect_endsI [of "link_failed c" ?nt nt "-1" E c] by (simp add: link_refused_def order_seg_trace)
  next
    case (Some f)
    have "dialled E c nt f i ?nt" if "sc_freed (nt_tls nt i)" for i
      using that inv bal Some dl t by (simp add: dialled_def order_seg_trace)
    then show ?thesis using secure_link_ends [of nt E c f ?nt, OF _ t(1) E inv slot(2)] connect_unfold [OF slot dl e0(1)] bal(1) Some dl t
      by (simp add: order_seg_trace)
  qed
qed

lemma ends_state: "connect_ends E c nt out \<Longrightarrow> \<exists>r c' nt'. out = Some (r, c', nt') \<and> conn_inv c' nt' \<and> order_seg 3 nt nt' \<and> cn_state c' = cn_state c"
  unfolding connect_ends_def
  by (auto simp: link_added_def link_refused_def install_link_def link_failed_def split: if_splits)

lemma thread_ok:
  assumes "env_ok E" "conn_inv c nt"
  shows "\<exists>c' nt'. additional_connect_thread_routine E c nt = Some (c', nt') \<and> conn_inv c' nt' \<and> order_seg 3 nt nt' \<and> cn_state c' = cn_state c"
  using ends_state [OF additional_connect_ok [OF assms]] by (auto simp: additional_connect_thread_routine_def)

interpretation link_thread: background additional_connect_thread_routine env_ok
  by unfold_locales (rule thread_ok)

end
