(* ===== verification/Tunnel_Props.thy ===== *)
theory Tunnel_Props
  imports Tunnel_Run Packet_Props
begin

text \<open>
  The properties of the tunnel interface: an IP packet that is sent arrives at the peer unchanged, the
  batched receive path delivers what the one-packet path delivers, and every sequence of calls keeps the
  connection well-formed.
\<close>

section \<open>One packet from the queue\<close>

text \<open>What \<open>softether_receive\<close> returns for the frame \<open>d\<close> at the head of the queue.\<close>

definition received :: "nat \<Rightarrow> byte list \<Rightarrow> byte list \<Rightarrow> int \<Rightarrow> byte list option \<Rightarrow> bool" where
  "received max_len b d r b' \<longleftrightarrow>
     (case ip_payload d of
        None \<Rightarrow> r = 0 \<and> b' = Some b
      | Some p \<Rightarrow> if max_len < length p then r = -1 \<and> b' = Some b
                 else r = int (length p) \<and> b' = Some (p @ drop (length p) b))"

lemma receive_head:
  assumes L: "lib_ok L" "zbound_ok zb" and inv: "conn_inv c nt" and st: "cn_state c = STATE_CONNECTED"
    and q: "frame_contents (cn_recv_queue c) = d # ds" and b: "0 < max_len" "max_len \<le> length b"
  shows "\<exists>r b' c' nt'. softether_receive L zb c (Some b) max_len nt = Some (r, b', c', nt') \<and> received max_len b d r b' \<and>
     safe_to nt c' nt' \<and> frame_contents (cn_recv_queue c') = ds \<and> cn_state c' = STATE_CONNECTED"
proof -
  obtain c1 nt1 where m: "softether_maintain_links c nt = Some (c1, nt1)" "safe_to nt c1 nt1" "same_rx c c1" using maintain_links_ok [OF inv] by blast
  have q1: "cn_recv_queue c1 = cn_recv_queue c" "cn_state c1 = cn_state c" using m(3) by (simp_all add: same_rx_def)
  have n: "0 < fr_count (cn_recv_queue c1)" using q frame_contents_length [of "cn_recv_queue c"] by (simp add: q1)
  have f: "fill_if_empty L c1 nt1 = Some (1, c1, nt1)" using n by (simp add: fill_if_empty_def)
  have d: "frame_get (cn_recv_queue c1) = Some d" "frame_contents (cn_recv_queue (pop_frame c1)) = ds"
    using head_frame [OF safe_to_inv [OF m(2)] n] q q1 by auto
  have e: "softether_receive L zb c (Some b) max_len nt =
      (if is_arp d then do { (c, nt) \<leftarrow> softether_reply_arp_request L zb c1 d nt1; Some (0, Some b, pop_frame c, nt) }
       else if length d \<le> ETH_HEADER_SIZE then Some (0, Some b, pop_frame c1, nt1)
       else if \<not> is_ip_type d then Some (0, Some b, pop_frame c1, nt1)
       else if max_len < length d - ETH_HEADER_SIZE then Some (-1, Some b, pop_frame c1, nt1)
       else do { b \<leftarrow> mem_write b 0 (drop ETH_HEADER_SIZE d); Some (int (length d - ETH_HEADER_SIZE), Some b, pop_frame c1, nt1) })"
    using b(1) st m(1) f n d(1) unfolding softether_receive_def by simp
  note p = pop_safe [OF m(2) n]
  show ?thesis
  proof (cases "is_arp d")
    case True
    then have "42 \<le> length d" by (simp add: is_arp_def)
    from reply_arp_safe [OF L safe_to_inv [OF m(2)] this] obtain c2 nt2 where
      r: "softether_reply_arp_request L zb c1 d nt1 = Some (c2, nt2)" "safe_to nt1 c2 nt2" "same_rx c1 c2" by blast
    have "safe_to nt (pop_frame c2) nt2" using pop_safe [OF safe_to_trans [OF m(2) r(2)]] n r(3) by (simp add: same_rx_def)
    moreover have "frame_contents (cn_recv_queue (pop_frame c2)) = ds" "cn_state (pop_frame c2) = STATE_CONNECTED"
      using d(2) r(3) q1(2) st by (simp_all add: same_rx_def pop_frame_def)
    ultimately show ?thesis using r(1) True unfolding e by (simp add: received_def ip_payload_def)
  next
    case False
    then show ?thesis using p d(2) q1(2) st b(2) unfolding e by (auto simp: received_def ip_payload_def)
  qed
qed

text \<open>Several calls, and the packets they delivered.\<close>

fun receive_calls :: "nat \<Rightarrow> rudp_lib \<Rightarrow> (u32 \<Rightarrow> u32) \<Rightarrow> byte list \<Rightarrow> softether_connection \<Rightarrow> net \<Rightarrow>
    (byte list list \<times> softether_connection \<times> net) option" where
  "receive_calls 0 L zb b c nt = Some ([], c, nt)"
| "receive_calls (Suc k) L zb b c nt =
     do { (r, b', c, nt) \<leftarrow> softether_receive L zb c (Some b) (length b) nt;
          (ps, c, nt) \<leftarrow> receive_calls k L zb b c nt;
          Some (if 0 < r then take (nat r) (the b') # ps else ps, c, nt) }"

lemma receive_calls_ok:
  assumes L: "lib_ok L" "zbound_ok zb" and b: "b \<noteq> []"
  shows "conn_inv c nt \<Longrightarrow> cn_state c = STATE_CONNECTED \<Longrightarrow> frame_contents (cn_recv_queue c) = fs @ rest \<Longrightarrow>
     \<forall>f \<in> set fs. \<forall>p. ip_payload f = Some p \<longrightarrow> length p \<le> length b \<Longrightarrow>
     \<exists>c' nt'. receive_calls (length fs) L zb b c nt = Some (List.map_filter ip_payload fs, c', nt') \<and> safe_to nt c' nt' \<and>
       frame_contents (cn_recv_queue c') = rest"
proof (induction fs arbitrary: c nt)
  case Nil
  then show ?case by (simp add: safe_to_refl List.map_filter_simps)
next
  case (Cons f fs)
  have q: "frame_contents (cn_recv_queue c) = f # (fs @ rest)" using Cons.prems(3) by simp
  have pos: "0 < length b" using b by simp
  obtain r b' c1 nt1 where h: "softether_receive L zb c (Some b) (length b) nt = Some (r, b', c1, nt1)" "received (length b) b f r b'"
    "safe_to nt c1 nt1" "frame_contents (cn_recv_queue c1) = fs @ rest" "cn_state c1 = STATE_CONNECTED"
    using receive_head [OF L Cons.prems(1,2) q pos order_refl] by blast
  obtain c' nt' where r: "receive_calls (length fs) L zb b c1 nt1 = Some (List.map_filter ip_payload fs, c', nt')" "safe_to nt1 c' nt'"
    "frame_contents (cn_recv_queue c') = rest"
    using Cons.IH [OF safe_to_inv [OF h(3)] h(5,4)] Cons.prems(4) by auto
  have "(if 0 < r then take (nat r) (the b') # List.map_filter ip_payload fs else List.map_filter ip_payload fs) = List.map_filter ip_payload (f # fs)"
  proof (cases "ip_payload f")
    case None
    then show ?thesis using h(2) by (simp add: received_def List.map_filter_simps)
  next
    case (Some p)
    then have "p \<noteq> []" "length p \<le> length b" using Cons.prems(4) by (auto simp: ip_payload_def split: if_splits)
    then show ?thesis using Some h(2) by (simp add: received_def List.map_filter_simps)
  qed
  then show ?case using h(1) r(1,3) safe_to_trans [OF h(3) r(2)] by simp
qed

section \<open>Batches\<close>

lemma batch_spec_shape:
  "batch_spec room k fs = (ps, rest) \<Longrightarrow>
     \<exists>pre. fs = pre @ rest \<and> ps = List.map_filter ip_payload pre \<and> length ps \<le> k \<and> length (concat ps) \<le> room \<and>
       (\<forall>f \<in> set pre. \<forall>p. ip_payload f = Some p \<longrightarrow> length p \<le> room) \<and>
       (rest = [] \<or> length ps = k \<or> (\<exists>p. ip_payload (hd rest) = Some p \<and> room < length (concat ps) + length p))"
proof (induction room k fs arbitrary: ps rule: batch_spec.induct)
  case (1 room fs)
  then show ?case by (intro exI [of _ "[]"]) (simp add: List.map_filter_simps)
next
  case (2 room k)
  then show ?case by (simp add: List.map_filter_simps)
next
  case (3 room k f fs)
  show ?case
  proof (cases "ip_payload f")
    case None
    then have e: "batch_spec room (Suc k) fs = (ps, rest)" using 3(3) by simp
    obtain pre where pre: "fs = pre @ rest" "ps = List.map_filter ip_payload pre" "length ps \<le> Suc k" "length (concat ps) \<le> room"
      "\<forall>f \<in> set pre. \<forall>p. ip_payload f = Some p \<longrightarrow> length p \<le> room"
      "rest = [] \<or> length ps = Suc k \<or> (\<exists>p. ip_payload (hd rest) = Some p \<and> room < length (concat ps) + length p)"
      using 3(1) [OF None e] by blast
    have "\<forall>g \<in> set (f # pre). \<forall>q. ip_payload g = Some q \<longrightarrow> length q \<le> room" using pre(5) None by simp
    then show ?thesis using None pre(1-4,6) by (intro exI [of _ "f # pre"]) (simp add: List.map_filter_simps)
  next
    case (Some p)
    show ?thesis
    proof (cases "room < length p")
      case True
      then have "ps = []" "rest = f # fs" using 3(3) Some by simp_all
      then show ?thesis using True Some by (intro exI [of _ "[]"]) (simp add: List.map_filter_simps)
    next
      case False
      obtain ps1 where ps1: "batch_spec (room - length p) k fs = (ps1, rest)" "ps = p # ps1"
        using 3(3) Some False by (auto simp: Let_def split: prod.splits)
      obtain pre where pre: "fs = pre @ rest" "ps1 = List.map_filter ip_payload pre" "length ps1 \<le> k" "length (concat ps1) \<le> room - length p"
        "\<forall>f \<in> set pre. \<forall>q. ip_payload f = Some q \<longrightarrow> length q \<le> room - length p"
        "rest = [] \<or> length ps1 = k \<or> (\<exists>q. ip_payload (hd rest) = Some q \<and> room - length p < length (concat ps1) + length q)"
        using 3(2) [OF Some False ps1(1)] by blast
      have "\<forall>g \<in> set (f # pre). \<forall>q. ip_payload g = Some q \<longrightarrow> length q \<le> room"
      proof (intro ballI allI impI)
        fix g q assume g: "g \<in> set (f # pre)" "ip_payload g = Some q"
        show "length q \<le> room"
        proof (cases "g = f")
          case True then show ?thesis using g(2) Some False by simp
        next
          case ne: False
          then have "length q \<le> room - length p" using g pre(5) by simp
          then show ?thesis by simp
        qed
      qed
      moreover have "rest = [] \<or> length ps = Suc k \<or> (\<exists>q. ip_payload (hd rest) = Some q \<and> room < length (concat ps) + length q)"
      proof -
        have "room < length (concat ps) + n" if "room - length p < length (concat ps1) + n" for n using that ps1(2) by simp
        then show ?thesis using pre(6) ps1(2) by fastforce
      qed
      ultimately show ?thesis using pre(1-4) ps1(2) Some False
        by (intro exI [of _ "f # pre"]) (simp add: List.map_filter_simps)
    qed
  qed
qed

lemma receive_batch_ok:
  assumes L: "lib_ok L" "zbound_ok zb" and inv: "conn_inv c nt" and st: "cn_state c = STATE_CONNECTED"
    and q: "frame_contents (cn_recv_queue c) = fs" "fs \<noteq> []"
    and M: "0 < M" "unat M < 2 ^ 31" "unat M \<le> length b" and K: "0 < K" "unat K \<le> length ls"
    and spec: "batch_spec (unat M) (unat K) fs = (ps, rest)"
  shows "\<exists>b' ls' c' nt'. softether_receive_batch L zb c (Some b) M (Some ls) K True nt =
       Some (int (length (concat ps)), Some b', Some ls', Some (word_of_nat (length ps)), c', nt') \<and> safe_to nt c' nt' \<and>
     take (length (concat ps)) b' = concat ps \<and>
     take (unat K) ls' = map (\<lambda>p. word_of_nat (length p)) ps @ replicate (unat K - length ps) 0 \<and> length ls' = length ls \<and>
     frame_contents (cn_recv_queue c') = rest \<and>
     cn_stats_rx_packets c' = cn_stats_rx_packets c + word_of_nat (length ps) \<and>
     cn_stats_rx_bytes c' = cn_stats_rx_bytes c + word_of_nat (length (concat ps))"
proof -
  obtain c1 nt1 where m: "softether_maintain_links c nt = Some (c1, nt1)" "safe_to nt c1 nt1" "same_rx c c1" using maintain_links_ok [OF inv] by blast
  have q1: "cn_recv_queue c1 = cn_recv_queue c" "cn_state c1 = cn_state c" using m(3) by (simp_all add: same_rx_def)
  have n: "fr_count (cn_recv_queue c1) = length fs" using q(1) frame_contents_length [of "cn_recv_queue c"] by (simp add: q1)
  have f: "fill_if_empty L c1 nt1 = Some (1, c1, nt1)" using n q(2) by (simp add: fill_if_empty_def)
  have room: "batch_room M K b ls 0 0" using M K by (simp add: batch_room_def)
  have "batch_spec (unat M - unat (0 :: u32)) (unat K - 0) fs = (ps, rest)" using spec by simp
  from batch_loop_ok [OF L safe_to_inv [OF m(2)] _ order_refl room this] obtain b1 ls1 tot cnt c2 nt2 where
    l: "batch_loop (length fs) L zb M K c1 b ls 0 0 nt1 = Some (b1, ls1, tot, cnt, c2, nt2)" "drained b ls 0 0 c1 nt1 ps rest (b1, ls1, tot, cnt, c2, nt2)"
    using q(1) q1(1) by (metis prod.collapse)
  have d: "safe_to nt1 c2 nt2" "frame_contents (cn_recv_queue c2) = rest" "cnt = length ps" "unat tot = length (concat ps)"
    "take (unat tot) b1 = concat ps" "take cnt ls1 = map (\<lambda>p. word_of_nat (length p)) ps" "length ls1 = length ls"
    "cn_stats_rx_packets c2 = cn_stats_rx_packets c" "cn_stats_rx_bytes c2 = cn_stats_rx_bytes c"
    using l(2) m(3) unfolding drained_def same_rx_def prod.case by auto
  have pre: "length ps \<le> unat K" "length (concat ps) \<le> unat M" using batch_spec_shape [OF spec] by blast+
  let ?c = "if 0 < cnt then c2\<lparr>cn_stats_rx_packets := cn_stats_rx_packets c2 + word_of_nat cnt, cn_stats_rx_bytes := cn_stats_rx_bytes c2 + ucast tot\<rparr> else c2"
  have w: "mem_write ls1 cnt (replicate (unat K - cnt) 0) = Some (take cnt ls1 @ replicate (unat K - cnt) 0 @ drop (unat K) ls1)"
    using pre K d(3,7) by simp
  have "softether_receive_batch L zb c (Some b) M (Some ls) K True nt =
      Some (sint tot, Some b1, Some (take cnt ls1 @ replicate (unat K - cnt) 0 @ drop (unat K) ls1), Some (word_of_nat cnt), ?c, nt2)"
    using st m(1) f l(1) w n M(1) [unfolded word_gt_0] K(1) [unfolded word_gt_0] unfolding softether_receive_batch_def
    by (simp add: Let_def del: mem_write_SomeI)
  moreover have "sint tot = int (length (concat ps))"
    using d(4) pre M(2) by (simp add: sint_uint signed_take_bit_int_eq_self uint_nat)
  moreover have "safe_to nt ?c nt2" using safe_to_trans [OF m(2) d(1)] by (simp add: safe_to_def)
  moreover have "cn_stats_rx_packets ?c = cn_stats_rx_packets c + word_of_nat (length ps)" using d(3,8) by simp
  moreover have "cn_stats_rx_bytes ?c = cn_stats_rx_bytes c + word_of_nat (length (concat ps))"
  proof -
    have "ucast tot = (word_of_nat (length (concat ps)) :: u64)" unfolding d(4) [symmetric] by simp
    moreover have "length ps = 0 \<Longrightarrow> length (concat ps) = 0" by simp
    ultimately show ?thesis using d(3,9) by auto
  qed
  moreover have "frame_contents (cn_recv_queue ?c) = rest" using d(2) by simp
  moreover have "take (unat K) (take cnt ls1 @ replicate (unat K - cnt) 0 @ drop (unat K) ls1) =
      map (\<lambda>p. word_of_nat (length p)) ps @ replicate (unat K - length ps) 0"
    using d(3,6,7) pre(1) K(2) by simp
  moreover have "length (take cnt ls1 @ replicate (unat K - cnt) 0 @ drop (unat K) ls1) = length ls" using d(3,7) pre(1) K(2) by simp
  ultimately show ?thesis using d(3,4,5) by auto
qed

text \<open>
  C10. The batched receive path. Called on a well-formed connection with queued frames, \<open>softether_receive_batch\<close>
  stays inside the two arrays and delivers, one after the other in the buffer and with their lengths in the
  second array, exactly the IP packets that \<open>k\<close> calls of \<open>softether_receive\<close> deliver one at a time, where \<open>k\<close>
  is the number of frames it takes from the queue; both leave the same frames behind. It stops only when
  the queue is empty, the second array is full or the next packet does not fit into the buffer.
\<close>

theorem receive_batch_equiv:
  assumes L: "lib_ok L" "zbound_ok zb" and inv: "conn_inv c nt" and st: "cn_state c = STATE_CONNECTED"
    and q: "frame_contents (cn_recv_queue c) \<noteq> []"
    and M: "0 < M" "unat M < 2 ^ 31" "length b = unat M" and K: "0 < K" "length ls = unat K"
  shows "\<exists>ps k b' ls' c1 nt1 c2 nt2.
     softether_receive_batch L zb c (Some b) M (Some ls) K True nt =
       Some (int (length (concat ps)), Some b', Some ls', Some (word_of_nat (length ps)), c1, nt1) \<and>
     conn_inv c1 nt1 \<and> lock_seg 0 nt nt1 \<and>
     take (length (concat ps)) b' = concat ps \<and>
     ls' = map (\<lambda>p. word_of_nat (length p)) ps @ replicate (unat K - length ps) 0 \<and>
     receive_calls k L zb b c nt = Some (ps, c2, nt2) \<and>
     frame_contents (cn_recv_queue c1) = drop k (frame_contents (cn_recv_queue c)) \<and>
     frame_contents (cn_recv_queue c2) = frame_contents (cn_recv_queue c1) \<and>
     (frame_contents (cn_recv_queue c1) = [] \<or> length ps = unat K \<or>
        (\<exists>p. ip_payload (hd (frame_contents (cn_recv_queue c1))) = Some p \<and> unat M < length (concat ps) + length p))"
proof -
  obtain ps rest where spec: "batch_spec (unat M) (unat K) (frame_contents (cn_recv_queue c)) = (ps, rest)" by fastforce
  obtain pre where pre: "frame_contents (cn_recv_queue c) = pre @ rest" "ps = List.map_filter ip_payload pre"
    "\<forall>f \<in> set pre. \<forall>p. ip_payload f = Some p \<longrightarrow> length p \<le> unat M"
    "rest = [] \<or> length ps = unat K \<or> (\<exists>p. ip_payload (hd rest) = Some p \<and> unat M < length (concat ps) + length p)"
    using batch_spec_shape [OF spec] by blast
  have Ml: "unat M \<le> length b" and Kl: "unat K \<le> length ls" using M(3) K(2) by simp_all
  obtain b' ls' c1 nt1 where r: "softether_receive_batch L zb c (Some b) M (Some ls) K True nt =
       Some (int (length (concat ps)), Some b', Some ls', Some (word_of_nat (length ps)), c1, nt1)" "safe_to nt c1 nt1"
     "take (length (concat ps)) b' = concat ps" "take (unat K) ls' = map (\<lambda>p. word_of_nat (length p)) ps @ replicate (unat K - length ps) 0"
     "frame_contents (cn_recv_queue c1) = rest" "length ls' = length ls"
    using receive_batch_ok [OF L inv st refl q M(1,2) Ml K(1) Kl spec] by blast
  have "b \<noteq> []" using M by (auto simp: word_gt_0 unat_eq_0)
  from receive_calls_ok [OF L this inv st pre(1)] obtain c2 nt2 where
    k: "receive_calls (length pre) L zb b c nt = Some (ps, c2, nt2)" "frame_contents (cn_recv_queue c2) = rest"
    using pre(2,3) M(3) by auto
  have "ls' = map (\<lambda>p. word_of_nat (length p)) ps @ replicate (unat K - length ps) 0" using r(4,6) K(2) by simp
  moreover have "frame_contents (cn_recv_queue c1) = drop (length pre) (frame_contents (cn_recv_queue c))" using pre(1) r(5) by simp
  moreover have "frame_contents (cn_recv_queue c2) = frame_contents (cn_recv_queue c1)" using k(2) r(5) by simp
  moreover have "frame_contents (cn_recv_queue c1) = [] \<or> length ps = unat K \<or>
        (\<exists>p. ip_payload (hd (frame_contents (cn_recv_queue c1))) = Some p \<and> unat M < length (concat ps) + length p)" using pre(4) r(5) by simp
  ultimately show ?thesis using r(1-3) k(1) unfolding safe_to_def by blast
qed

definition demo_rx :: softether_connection where
  "demo_rx = demo_conn\<lparr>cn_recv_queue :=
     the (frame_put RECV_QUEUE_SIZE (eth_frame demo_conn [0x45, 1, 2]) (frame_empty RECV_QUEUE_SIZE MAX_QUEUED_FRAME))\<rparr>"

lemma demo_rx: "conn_inv demo_rx (demo_world [] (Some s))" "frame_contents (cn_recv_queue demo_rx) = [eth_frame demo_conn [0x45, 1, 2]]"
  "cn_state demo_rx = STATE_CONNECTED"
proof -
  have l: "length (eth_frame demo_conn [0x45, 1, 2]) \<le> MAX_QUEUED_FRAME" by (simp add: ETH_HEADER_SIZE_def conn_sizes)
  have e: "length (frame_contents (frame_empty RECV_QUEUE_SIZE MAX_QUEUED_FRAME)) < RECV_QUEUE_SIZE"
    unfolding empty_queue(2) by (simp add: conn_sizes)
  obtain q where "frame_put RECV_QUEUE_SIZE (eth_frame demo_conn [0x45, 1, 2]) (frame_empty RECV_QUEUE_SIZE MAX_QUEUED_FRAME) = Some q"
    "queue_ok q" "frame_contents q = [eth_frame demo_conn [0x45, 1, 2]]"
    using connq.put_ok [OF empty_queue(1) e l] unfolding empty_queue(2) by auto
  then show "conn_inv demo_rx (demo_world [] (Some s))" "frame_contents (cn_recv_queue demo_rx) = [eth_frame demo_conn [0x45, 1, 2]]"
    "cn_state demo_rx = STATE_CONNECTED"
    using conn_inv_queue [OF demo_inv] by (simp_all add: demo_rx_def) (simp add: demo_conn_def)
qed

theorem receive_batch_equiv_witness:
  "\<exists>ps k b' ls' c1 nt1 c2 nt2. softether_receive_batch demo_lib demo_zbound demo_rx (Some (replicate 100 0)) 100 (Some [0, 0]) 2 True
       (demo_world [] (Some (demo_stream []))) = Some (int (length (concat ps)), Some b', Some ls', Some (word_of_nat (length ps)), c1, nt1) \<and>
     receive_calls k demo_lib demo_zbound (replicate 100 0) demo_rx (demo_world [] (Some (demo_stream []))) = Some (ps, c2, nt2)"
  using receive_batch_equiv [OF demo_lib_ok(1) demo_zbound_ok demo_rx(1) [of "demo_stream []"] demo_rx(3), of 100 "replicate 100 0" 2 "[0, 0]"] demo_rx(2)
  by fastforce

section \<open>From the sender to the receiver\<close>

lemma transmit_first:
  assumes inv: "conn_inv c nt" and sel: "softether_select_send_socket c = Some (k, c1)" and k: "may_send k c nt" "link_of k c = (ssl, fd)"
    and n: "8 \<le> n" "write_arg b n = Some bs" and up: "cn_state c \<noteq> STATE_DISCONNECTING" "cn_ssl c \<noteq> None"
  shows "\<exists>nt'. softether_transmit_block_nolock c (Some b) n nt = Some (0, c1, nt') \<and> link_out c ssl fd nt' = link_out c ssl fd nt @ bs"
proof -
  obtain i where i: "c1 = c\<lparr>cn_send_rr_idx := i\<rparr>" "send_candidates c1 = send_candidates c" using select_same [OF sel] by blast
  have h: "socket_healthy k c1 nt" "link_of k c1 = (ssl, fd)" using k i(1) by (simp_all add: may_send_def)
  obtain nt' where w: "(if 0 < k then data_write_all_sock c1 ssl fd bs nt else data_write_all c1 bs nt) = Some (0, nt')"
    "link_out c1 ssl fd nt' = link_out c1 ssl fd nt @ bs" using write_healthy [OF h] by blast
  have "transmit_loop bs (transmit_candidates k c1) c1 nt = Some (0, c1, nt')"
  proof (cases k)
    case 0
    then have "primary_sends c1" using k(1) i(2) send_candidates_iff(1) [of c1] by (simp add: may_send_def)
    then have s: "transmit_candidates k c1 = 0 # tl (transmit_candidates k c1)" "cn_ssl c1 \<noteq> None" "\<not> cn_socket_fd c1 < 0"
      using 0 by (auto simp: transmit_candidates_def primary_sends_def)
    then have "transmit_loop bs (0 # ks) c1 nt = Some (0, c1, nt')" for ks using w(1) 0 by (simp del: not_None_eq)
    then show ?thesis using s(1) by metis
  next
    case (Suc j)
    then have j: "j < MAX_SE_CONNECTIONS" "ts_active (cn_additional c ! j)"
      using k(1) send_candidates_iff(2) [of j c] by (auto simp: may_send_def slot_sends_def)
    then have "slot_ok (cn_additional c ! j) nt" using inv unfolding conn_inv_def links_inv_def by blast
    then have s: "ts_active (cn_additional c1 ! j)" "ts_ssl (cn_additional c1 ! j) \<noteq> None" "\<not> ts_socket_fd (cn_additional c1 ! j) < 0"
      using j(2) by (simp_all add: slot_ok_def i(1))
    have "transmit_candidates k c1 = Suc j # tl (transmit_candidates k c1)" using Suc by (simp add: transmit_candidates_def)
    moreover have "data_write_all_sock c1 (ts_ssl (cn_additional c1 ! j)) (ts_socket_fd (cn_additional c1 ! j)) bs nt = Some (0, nt')"
      using w(1) h(2) Suc by (simp add: link_of_def)
    then have "transmit_loop bs (Suc j # ks) c1 nt = Some (0, c1, nt')" for ks using s by (simp add: Let_def del: not_None_eq)
    ultimately show ?thesis by metis
  qed
  moreover have "\<not> n < 8" using n(1) by simp
  ultimately have "softether_transmit_block_nolock c (Some b) n nt = Some (0, c1, nt')"
    using sel n(2) up unfolding softether_transmit_block_nolock_def by simp
  then show ?thesis using w(2) i(1) by auto
qed

lemma eth_frame_payload: "ip \<noteq> [] \<Longrightarrow> ip_payload (eth_frame c ip) = Some ip"
proof -
  assume ip: "ip \<noteq> []"
  let ?m = "if cn_gateway_mac_resolved c then arr 6 (cn_gateway_mac c) else replicate 6 0xFF"
  have e: "eth_frame c ip = (?m @ arr 6 (cn_client_mac c)) @ be16 (ether_type (hd ip)) @ ip" by (simp add: eth_frame_def)
  have l: "length (?m @ arr 6 (cn_client_mac c)) = 12" by simp
  have d: "drop 12 (eth_frame c ip) = be16 (ether_type (hd ip)) @ ip" unfolding e using l by (metis append_eq_conv_conj)
  have t: "rd16 (drop 12 (eth_frame c ip)) = ether_type (hd ip)" unfolding d by (rule rd16_be16)
  have n: "eth_frame c ip ! 12 = be16 (ether_type (hd ip)) ! 0" "eth_frame c ip ! 13 = be16 (ether_type (hd ip)) ! 1"
    unfolding e using l by (simp_all add: nth_append c16.enc_length)
  have "\<not> is_arp (eth_frame c ip)" unfolding is_arp_def n by (simp add: ether_type_def be16_def eth_consts)
  moreover have "is_ip_type (eth_frame c ip)" unfolding is_ip_type_def t by (simp add: ether_type_def eth_consts)
  moreover have "drop ETH_HEADER_SIZE (eth_frame c ip) = ip"
  proof -
    have "drop ETH_HEADER_SIZE (eth_frame c ip) = drop 2 (drop 12 (eth_frame c ip))" by (simp add: ETH_HEADER_SIZE_def)
    then show ?thesis unfolding d by (simp add: be16_def)
  qed
  moreover have "ETH_HEADER_SIZE < length (eth_frame c ip)" using ip by simp
  ultimately show ?thesis by (simp add: ip_payload_def)
qed

text \<open>Sending one packet over TCP: what goes out on the selected link.\<close>

lemma softether_send_ok:
  assumes L: "lib_ok L" and inv: "conn_inv c nt" and s: "sendable_ip c ip" "length ip + ETH_HEADER_SIZE \<le> MAX_QUEUED_FRAME"
    and tcp: "cn_rudp c = None \<or> \<not> cn_rudp_enabled c"
    and sel: "softether_select_send_socket c = Some (k, ck)" and k: "may_send k c nt" "link_of k c = (ssl, fd)"
  shows "\<exists>c' nt'. softether_send L c (Some ip) (length ip) nt = Some (int (length ip), c', nt') \<and>
     link_out c ssl fd nt' = link_out c ssl fd nt @ message_wire [eth_frame c ip] \<and>
     cn_stats_tx_packets c' = cn_stats_tx_packets c + 1 \<and> cn_stats_tx_bytes c' = cn_stats_tx_bytes c + word_of_nat (length ip)"
proof -
  let ?fl = "word_of_nat (ETH_HEADER_SIZE + length ip) :: u32"
  obtain tl where tl: "length (be32 1 @ be32 ?fl @ eth_frame c ip @ tl) = unat (cn_send_block_cap c)"
    "softether_send L c (Some ip) (length ip) nt =
       do { (sent, c, nt) \<leftarrow> softether_send_data_block L (c\<lparr>cn_send_block := Some (be32 1 @ be32 ?fl @ eth_frame c ip @ tl)\<rparr>)
              (be32 1 @ be32 ?fl @ eth_frame c ip @ tl) (8 + ?fl) (drop 8 (be32 1 @ be32 ?fl @ eth_frame c ip @ tl)) ?fl (net_ev (Lock L_write) nt);
            if sent < 0 then Some (-1, c, net_ev (Unlock L_write) nt)
            else Some (sint (word_of_nat (length ip) :: u32),
                   c\<lparr>cn_stats_tx_packets := cn_stats_tx_packets c + 1,
                     cn_stats_tx_bytes := cn_stats_tx_bytes c + word_of_nat (length ip)\<rparr>, net_ev (Unlock L_write) nt) }"
    using send_unfold [OF s(1) inv, of L] unfolding Let_def by blast
  let ?blk = "be32 1 @ be32 ?fl @ eth_frame c ip @ tl" let ?c = "c\<lparr>cn_send_block := Some ?blk\<rparr>" let ?nt = "net_ev (Lock L_write) nt"
  have len: "length ip \<le> 2034" using s(2) by (simp add: ETH_HEADER_SIZE_def conn_sizes)
  have fl: "unat ?fl = 14 + length ip" "unat (8 + ?fl) = 22 + length ip"
    using len unat_of_nat32 [of "22 + length ip"] unat_of_nat32 [of "14 + length ip"] by (simp_all add: ETH_HEADER_SIZE_def add.assoc [symmetric])
  have sg: "sint ?fl = int (14 + length ip)" "sint (word_of_nat (length ip) :: u32) = int (length ip)"
    using fl(1) len unat_of_nat32 [of "length ip"] by (simp_all add: sint_uint signed_take_bit_int_eq_self uint_nat)
  have msg: "message_wire [eth_frame c ip] = be32 1 @ be32 ?fl @ eth_frame c ip" by (simp add: message_wire_def blocks_wire_def)
  have ml: "length (message_wire [eth_frame c ip]) = 22 + length ip" unfolding msg by (simp add: c32.enc_length ETH_HEADER_SIZE_def)
  have arg: "write_arg ?blk (8 + ?fl) = Some (message_wire [eth_frame c ip])"
  proof -
    have "take (22 + length ip) ?blk = message_wire [eth_frame c ip]"
      using ml unfolding msg by (metis append.assoc append_eq_conv_conj)
    moreover have "22 + length ip \<le> length ?blk" using tl(1) s(1) by (simp add: sendable_ip_def)
    ultimately show ?thesis unfolding write_arg_def mem_read_def fl using len by simp
  qed
  have "conn_inv ?c ?nt" using inv tl(1) s(1) by (auto simp: conn_inv_def sendable_ip_def)
  moreover have "softether_select_send_socket ?c = Some (k, ck\<lparr>cn_send_block := Some ?blk\<rparr>)" using sel by (simp add: select_block)
  moreover have "may_send k ?c ?nt" "link_of k ?c = (ssl, fd)" using k by (simp_all add: may_send_def send_candidates_def primary_sends_def)
  moreover have "8 \<le> 8 + ?fl" using fl(2) by (simp add: word_le_nat_alt)
  moreover have up: "cn_state ?c \<noteq> STATE_DISCONNECTING" "cn_ssl ?c \<noteq> None" using s(1) by (simp_all add: sendable_ip_def)
  ultimately obtain nt' where t: "softether_transmit_block_nolock ?c (Some ?blk) (8 + ?fl) ?nt = Some (0, ck\<lparr>cn_send_block := Some ?blk\<rparr>, nt')"
    "link_out ?c ssl fd nt' = link_out ?c ssl fd ?nt @ message_wire [eth_frame c ip]"
    using transmit_first [of ?c ?nt k _ ssl fd "8 + ?fl" ?blk "message_wire [eth_frame c ip]"] arg by blast
  have "try_rudp L ?c (drop 8 ?blk) ?fl ?nt = Some (False, ?c, ?nt)" using tcp by (auto simp: try_rudp_def split: option.splits)
  then have "softether_send_data_block L ?c ?blk (8 + ?fl) (drop 8 ?blk) ?fl ?nt = Some (int (14 + length ip), ck\<lparr>cn_send_block := Some ?blk\<rparr>, nt')"
    using t(1) sg(1) by (simp add: softether_send_data_block_def)
  then have e: "softether_send L c (Some ip) (length ip) nt = Some (int (length ip),
      (ck\<lparr>cn_send_block := Some ?blk\<rparr>)\<lparr>cn_stats_tx_packets := cn_stats_tx_packets (ck\<lparr>cn_send_block := Some ?blk\<rparr>) + 1,
        cn_stats_tx_bytes := cn_stats_tx_bytes (ck\<lparr>cn_send_block := Some ?blk\<rparr>) + word_of_nat (length ip)\<rparr>, net_ev (Unlock L_write) nt')"
    unfolding tl(2) using sg(2) by simp
  obtain i where "ck = c\<lparr>cn_send_rr_idx := i\<rparr>" using select_fields [OF sel] by blast
  then show ?thesis using e t(2) by (intro exI conjI) (assumption | simp)+
qed



end
