(* ===== verification/Session_Run.thy ===== *)
theory Session_Run
  imports Additional_Run Tunnel_Props Dhcp_Run
begin

text \<open>
  A connection from \<open>softether_create\<close> to \<open>softether_disconnect\<close>: the calls of the tunnel interface, the
  background thread and the teardown as one step function, and the invariant along every sequence of them.
\<close>

section \<open>The batched receive and the gateway lookup\<close>

lemma batch_safe:
  assumes L: "lib_ok L" "zbound_ok zb" and inv: "conn_inv c nt"
    and M: "unat M < 2 ^ 31" "unat M \<le> length b" and K: "unat K \<le> length ls"
  shows "\<exists>r b' ls' n c' nt'. softether_receive_batch L zb c (Some b) M (Some ls) K True nt = Some (r, b', ls', n, c', nt') \<and> safe_to nt c' nt'"
proof (cases "M = 0 \<or> K = 0 \<or> cn_state c \<noteq> STATE_CONNECTED")
  case True
  then show ?thesis using safe_to_refl [OF inv] by (auto simp: softether_receive_batch_def)
next
  case False
  obtain c1 nt1 where m: "softether_maintain_links c nt = Some (c1, nt1)" "safe_to nt c1 nt1" using maintain_links_ok [OF inv] by blast
  obtain rc c2 nt2 where f: "fill_if_empty L c1 nt1 = Some (rc, c2, nt2)" "safe_to nt1 c2 nt2"
    using fill_if_empty_ok [OF L(1) safe_to_inv [OF m(2)]] by blast
  have s2: "safe_to nt c2 nt2" using safe_to_trans [OF m(2) f(2)] .
  show ?thesis
  proof (cases "rc < 0")
    case True
    then show ?thesis using False m(1) f(1) s2 by (auto simp: softether_receive_batch_def)
  next
    case rc: False
    define fs where "fs = frame_contents (cn_recv_queue c2)"
    have n: "fr_count (cn_recv_queue c2) = length fs" by (simp add: fs_def)
    obtain ps rest where spec: "batch_spec (unat M - unat (0 :: u32)) (unat K - 0) fs = (ps, rest)" by fastforce
    have room: "batch_room M K b ls 0 0" using M K by (simp add: batch_room_def)
    from batch_loop_ok [OF L safe_to_inv [OF f(2)] fs_def [symmetric] order_refl room spec]
    obtain b1 ls1 tot cnt c3 nt3 where
      l: "batch_loop (length fs) L zb M K c2 b ls 0 0 nt2 = Some (b1, ls1, tot, cnt, c3, nt3)" "drained b ls 0 0 c2 nt2 ps rest (b1, ls1, tot, cnt, c3, nt3)"
      by (metis prod.collapse)
    have d: "safe_to nt2 c3 nt3" "cnt = length ps" "length ls1 = length ls" using l(2) by (auto simp: drained_def)
    have "length ps \<le> unat K" using batch_spec_shape [OF spec] by auto
    then obtain ls2 where w: "mem_write ls1 cnt (replicate (unat K - cnt) 0) = Some ls2"
      using K d(2,3) mem_write_SomeI [of cnt "replicate (unat K - cnt) 0" ls1] by simp
    have "\<exists>r. softether_receive_batch L zb c (Some b) M (Some ls) K True nt = Some (r, Some b1, Some ls2, Some (word_of_nat cnt),
        (if 0 < cnt then c3\<lparr>cn_stats_rx_packets := cn_stats_rx_packets c3 + word_of_nat cnt, cn_stats_rx_bytes := cn_stats_rx_bytes c3 + ucast tot\<rparr> else c3), nt3)"
      using False rc m(1) f(1) l(1) w unfolding n [symmetric] by (simp add: softether_receive_batch_def Let_def del: mem_write_SomeI)
    moreover have "safe_to nt (if 0 < cnt then c3\<lparr>cn_stats_rx_packets := x, cn_stats_rx_bytes := y\<rparr> else c3) nt3" for x y
      using safe_to_trans [OF s2 d(1)] by (simp add: safe_to_def)
    ultimately show ?thesis by blast
  qed
qed

lemma arp_wait_safe:
  assumes L: "lib_ok L"
  shows "conn_inv c nt \<Longrightarrow> \<exists>f c' nt'. arp_wait n L gw c nt = Some (f, c', nt') \<and> safe_to nt c' nt'"
proof (induction n arbitrary: c nt)
  case (Suc n)
  have "MAX_QUEUED_FRAME \<le> length (replicate 2048 0 :: byte list)" by (simp add: conn_sizes)
  from receive_raw_safe [OF L Suc.prems this] obtain r b l c1 nt1 where
    r: "softether_receive_raw L c (Some (replicate 2048 0)) 2048 nt = Some (r, Some b, l, c1, nt1)" "safe_to nt c1 nt1" by blast
  have k: "safe_to nt (c1\<lparr>cn_gateway_mac := x, cn_gateway_mac_resolved := True\<rparr>) nt1" for x
    using r(2) by (simp add: safe_to_def)
  obtain f c2 nt2 where i: "arp_wait n L gw c1 nt1 = Some (f, c2, nt2)" "safe_to nt1 c2 nt2"
    using Suc.IH [OF safe_to_inv [OF r(2)]] by blast
  then show ?case using r(1) k safe_to_trans [OF r(2) i(2)] by (auto simp: Let_def)
qed (auto simp: safe_to_refl)

lemma arp_attempts_safe:
  assumes L: "lib_ok L" "zbound_ok zb" and req: "length req = 42"
  shows "conn_inv c nt \<Longrightarrow> \<exists>r c' nt'. arp_attempts n L zb gw req c nt = Some (r, c', nt') \<and> safe_to nt c' nt'"
proof (induction n arbitrary: c nt)
  case (Suc n)
  obtain f c1 nt1 where w: "arp_wait 40 L gw c nt = Some (f, c1, nt1)" "safe_to nt c1 nt1" using arp_wait_safe [OF L(1) Suc.prems] by blast
  obtain r c2 nt2 where s: "softether_send_raw L zb c1 (Some req) 42 nt1 = Some (r, c2, nt2)" "safe_to nt1 c2 nt2"
    using send_raw_safe [OF L safe_to_inv [OF w(2)], of req] req by auto
  obtain x c3 nt3 where i: "arp_attempts n L zb gw req c2 nt2 = Some (x, c3, nt3)" "safe_to nt2 c3 nt3"
    using Suc.IH [OF safe_to_inv [OF s(2)]] by blast
  show ?case using w s i safe_to_trans [OF w(2) safe_to_trans [OF s(2) i(2)]] by (simp del: arp_wait.simps)
qed (auto simp: safe_to_refl)

lemma resolve_gateway_safe:
  assumes L: "lib_ok L" "zbound_ok zb" and inv: "conn_inv c nt"
  shows "\<exists>r c' nt'. softether_resolve_gateway L zb c gw nt = Some (r, c', nt') \<and> safe_to nt c' nt'"
proof (cases "cn_state c = STATE_CONNECTED")
  case False
  then show ?thesis using safe_to_refl [OF inv] by (simp add: softether_resolve_gateway_def)
next
  case True
  let ?c = "c\<lparr>cn_gateway_ip := gw\<rparr>" let ?req = "arp_request ?c gw"
  have req: "length ?req = 42" unfolding arp_request_def by (rule arp_frame_length) (simp_all add: c32.enc_length)
  have i: "conn_inv ?c nt" using inv by simp
  obtain r c1 nt1 where s: "softether_send_raw L zb ?c (Some ?req) 42 nt = Some (r, c1, nt1)" "safe_to nt c1 nt1"
    using send_raw_safe [OF L i, of ?req] req by auto
  obtain x c2 nt2 where a: "arp_attempts 3 L zb gw ?req c1 nt1 = Some (x, c2, nt2)" "safe_to nt1 c2 nt2"
    using arp_attempts_safe [OF L req safe_to_inv [OF s(2)]] by blast
  then show ?thesis using True s(1) safe_to_trans [OF s(2) a(2)] by (simp add: softether_resolve_gateway_def Let_def del: arp_attempts.simps)
qed

section \<open>Creation\<close>

lemma created_ok:
  assumes "softether_create g nt = (Some c, nt')"
  shows "conn_inv c nt'" "cn_state c = STATE_DISCONNECTED" "owned_contexts c = {}" "conn_fds c = []" "nt_trace nt' = nt_trace nt"
    "nt_tls nt' = nt_tls nt" "nt_closed nt' = nt_closed nt" "free_slot c = Some 0" "cn_client_mac c 0 = 0x5E"
    "cn_send_block c = None \<or> cn_send_block_cap c = 8 + word_of_nat ETH_HEADER_SIZE + 65535"
proof -
  let ?cap = "8 + word_of_nat ETH_HEADER_SIZE + 65535 :: u32"
  have rm: "nt_trace (snd (rand_mac n m)) = nt_trace m" "nt_tls (snd (rand_mac n m)) = nt_tls m" "nt_closed (snd (rand_mac n m)) = nt_closed m"
    for n m by (induction n arbitrary: m) (auto simp: c_rand_def Let_def case_prod_beta)
  obtain ok nt1 where 1: "net_malloc nt = (ok, nt1)" by fastforce
  obtain mac nt2 where 2: "rand_mac 5 nt1 = (mac, nt2)" by fastforce
  obtain blk nt3 where 3: "net_malloc nt2 = (blk, nt3)" by fastforce
  have ok: ok using assms 1 by (auto simp: softether_create_def split: if_splits)
  have c: "c = \<lparr>cn_socket_fd = -1, cn_ssl_ctx = None, cn_ssl = None, cn_state = STATE_DISCONNECTED,
      cn_abort_connect = False, cn_session_id = 0, cn_sequence_num = 0, cn_server_ip = [],
      cn_session_key = (\<lambda>i. 0), cn_server_use_compress = False, cn_server_timeout = 0,
      cn_use_ssl_data = False, cn_session_established = False, cn_client_mac = arr_of (0x5E # mac),
      cn_gateway_mac = (\<lambda>i. 0), cn_gateway_mac_resolved = False, cn_gateway_ip = 0, cn_assigned_ip = 0,
      cn_recv_queue = frame_empty RECV_QUEUE_SIZE MAX_QUEUED_FRAME, cn_rx_skipped_blocks = 0,
      cn_rudp = None, cn_rudp_enabled = False, cn_nat_t_transport = None, cn_using_nat_t = False,
      cn_additional = replicate MAX_SE_CONNECTIONS idle_sock, cn_num_additional = 0,
      cn_max_connection = 8, cn_primary_direction = TCP_DIRECTION_BOTH, cn_next_connect_time = 0,
      cn_additional_failed_count = 0, cn_additional_connecting = False, cn_additional_connect_slot = -1,
      cn_additional_connect_result = -1, cn_send_rr_idx = 0, cn_next_tcp_keepalive_time = 0,
      cn_send_block = (if blk then Some (map g [0..<unat ?cap]) else None),
      cn_send_block_cap = (if blk then ?cap else 0), cn_stats_tx_packets = 0,
      cn_stats_tx_bytes = 0, cn_stats_rx_packets = 0, cn_stats_rx_bytes = 0\<rparr>" and nt': "nt' = nt3"
    using assms 1 2 3 ok by (auto simp: softether_create_def Let_def)
  have cap: "unat ?cap = 65557" by (simp add: ETH_HEADER_SIZE_def)
  have "links_inv c nt'" by (rule idle_links_inv) (simp_all add: c tls_alive_def idle_sock_def)
  moreover have "cn_recv_queue c = frame_empty RECV_QUEUE_SIZE MAX_QUEUED_FRAME" "cn_rudp c = None" "cn_send_rr_idx c = 0"
    "cn_send_block c = (if blk then Some (map g [0..<unat ?cap]) else None)" "cn_send_block_cap c = (if blk then ?cap else 0)"
    by (simp_all add: c)
  ultimately show "conn_inv c nt'" unfolding conn_inv_def by (simp add: cap ETH_HEADER_SIZE_def)
  show "cn_state c = STATE_DISCONNECTED" by (simp add: c)
  have "cn_additional c ! 0 = idle_sock" by (simp add: c conn_sizes)
  then show "free_slot c = Some 0" by (simp add: free_slot_def conn_sizes upt_rec idle_sock_def)
  show "cn_client_mac c 0 = 0x5E" by (simp add: c arr_of_def)
  show "cn_send_block c = None \<or> cn_send_block_cap c = 8 + word_of_nat ETH_HEADER_SIZE + 65535" by (simp add: c)
  show "owned_contexts c = {}" by (simp add: owned_contexts_def primary_context_def slot_contexts_def slot_ctx_def c idle_sock_def)
  show "conn_fds c = []" by (simp add: conn_fds_def saved_fds_def transport_fds_def c idle_sock_def)
  have t3: "nt_trace nt3 = nt_trace nt2" "nt_tls nt3 = nt_tls nt2" "nt_closed nt3 = nt_closed nt2"
    "nt_trace nt1 = nt_trace nt" "nt_tls nt1 = nt_tls nt" "nt_closed nt1 = nt_closed nt"
    using 1 3 by (auto simp: net_malloc_def split: list.splits)
  then show "nt_trace nt' = nt_trace nt" "nt_tls nt' = nt_tls nt" "nt_closed nt' = nt_closed nt"
    using rm [of 5 nt1] 2 nt' by simp_all
qed

section \<open>Sequences of calls\<close>

text \<open>
  One call, run to its end; what it returns is dropped. \<open>Call_thread\<close> is the background thread, whose work is
  done in one step between two other calls.
\<close>

datatype tunnel_op =
    Call_send "byte list"
  | Call_send_data "byte list"
  | Call_send_raw "byte list"
  | Call_receive "byte list"
  | Call_receive_raw "byte list" nat
  | Call_receive_batch "byte list" u32 "u32 list" u32
  | Call_resolve_gateway u32
  | Call_dhcp nat "nat \<Rightarrow> byte" dhcp_result
  | Call_set_mac "byte list"
  | Call_force_close
  | Call_thread link_env
  | Call_thread_wait link_env
  | Call_close_additional link_env
  | Call_disconnect link_env

fun tunnel_step :: "rudp_lib \<Rightarrow> (u32 \<Rightarrow> u32) \<Rightarrow> tunnel_op \<Rightarrow> softether_connection \<Rightarrow> net \<Rightarrow> (softether_connection \<times> net) option" where
  "tunnel_step L zb (Call_send ip) c nt = do { (r, c, nt) \<leftarrow> softether_send L c (Some ip) (length ip) nt; Some (c, nt) }"
| "tunnel_step L zb (Call_send_data d) c nt =
     do { (r, c, nt) \<leftarrow> softether_send_data L zb c (Some d) (word_of_nat (length d)) nt; Some (c, nt) }"
| "tunnel_step L zb (Call_send_raw f) c nt = do { (r, c, nt) \<leftarrow> softether_send_raw L zb c (Some f) (length f) nt; Some (c, nt) }"
| "tunnel_step L zb (Call_receive b) c nt = do { (r, b, c, nt) \<leftarrow> softether_receive L zb c (Some b) (length b) nt; Some (c, nt) }"
| "tunnel_step L zb (Call_receive_raw b n) c nt = do { (r, b, l, c, nt) \<leftarrow> softether_receive_raw L c (Some b) n nt; Some (c, nt) }"
| "tunnel_step L zb (Call_receive_batch b m ls k) c nt =
     do { (r, b, ls, n, c, nt) \<leftarrow> softether_receive_batch L zb c (Some b) m (Some ls) k True nt; Some (c, nt) }"
| "tunnel_step L zb (Call_resolve_gateway gw) c nt = do { (r, c, nt) \<leftarrow> softether_resolve_gateway L zb c gw nt; Some (c, nt) }"
| "tunnel_step L zb (Call_dhcp k g r) c nt = do { (t, r, c, nt) \<leftarrow> softether_do_dhcp k L zb g c r nt; Some (c, nt) }"
| "tunnel_step L zb (Call_set_mac m) c nt = do { c \<leftarrow> softether_set_client_mac (Some m) c; Some (c, nt) }"
| "tunnel_step L zb Call_force_close c nt = Some (snd (softether_force_close_socket c), nt)"
| "tunnel_step L zb (Call_thread E) c nt = additional_connect_thread_routine E c nt"
| "tunnel_step L zb (Call_thread_wait E) c nt = softether_additional_thread_wait (additional_connect_thread_routine E) c nt"
| "tunnel_step L zb (Call_close_additional E) c nt = softether_close_additional (additional_connect_thread_routine E) c nt"
| "tunnel_step L zb (Call_disconnect E) c nt = softether_disconnect (additional_connect_thread_routine E) c nt"

fun tunnel_run :: "rudp_lib \<Rightarrow> (u32 \<Rightarrow> u32) \<Rightarrow> tunnel_op list \<Rightarrow> softether_connection \<Rightarrow> net \<Rightarrow> (softether_connection \<times> net) option" where
  "tunnel_run L zb [] c nt = Some (c, nt)"
| "tunnel_run L zb (op # ops) c nt = do { (c, nt) \<leftarrow> tunnel_step L zb op c nt; tunnel_run L zb ops c nt }"

text \<open>What a caller owes: buffers of the sizes it names, frames below 2 GB, and what \<open>env_ok\<close> says of the outside.\<close>

fun call_well :: "tunnel_op \<Rightarrow> bool" where
  "call_well (Call_send_data d) = (length d < 2 ^ 31)"
| "call_well (Call_send_raw f) = (length f < 2 ^ 31)"
| "call_well (Call_receive_raw b n) = (MAX_QUEUED_FRAME \<le> length b)"
| "call_well (Call_receive_batch b m ls k) = (unat m < 2 ^ 31 \<and> unat m \<le> length b \<and> unat k \<le> length ls)"
| "call_well (Call_set_mac m) = (6 \<le> length m)"
| "call_well (Call_thread E) = env_ok E"
| "call_well (Call_thread_wait E) = env_ok E"
| "call_well (Call_close_additional E) = env_ok E"
| "call_well (Call_disconnect E) = env_ok E"
| "call_well op = True"

definition steps_to :: "net \<Rightarrow> (softether_connection \<times> net) option \<Rightarrow> bool" where
  "steps_to nt out \<longleftrightarrow> (\<exists>c' nt'. out = Some (c', nt') \<and> conn_inv c' nt' \<and> order_seg 0 nt nt')"

lemma steps_toI: "out = Some (c', nt') \<Longrightarrow> conn_inv c' nt' \<Longrightarrow> order_seg 0 nt nt' \<Longrightarrow> steps_to nt out"
  unfolding steps_to_def by blast

lemma steps_safe: "out = Some (c', nt') \<Longrightarrow> safe_to nt c' nt' \<Longrightarrow> steps_to nt out"
  unfolding safe_to_def by (blast intro: steps_toI order_seg_lock)

lemma order_seg_mono: "order_seg n a b \<Longrightarrow> m \<le> n \<Longrightarrow> order_seg m a b"
  unfolding order_seg_def by (rule seg_of_mono)

lemma tunnel_step_ok:
  assumes L: "lib_ok L" "zbound_ok zb" and w: "call_well op" and inv: "conn_inv c nt"
  shows "steps_to nt (tunnel_step L zb op c nt)"
proof (cases op)
  case (Call_send ip)
  then show ?thesis using softether_send_safe [OF L(1) inv, of ip] by (auto intro: steps_safe)
next
  case (Call_send_data d)
  then show ?thesis using send_data_safe [OF L inv, of d] w by (auto intro: steps_safe)
next
  case (Call_send_raw f)
  then show ?thesis using send_raw_safe [OF L inv, of f] w by (auto intro: steps_safe)
next
  case (Call_receive b)
  then show ?thesis using receive_safe [OF L inv, of "length b" b] by (auto intro: steps_safe)
next
  case (Call_receive_raw b n)
  then show ?thesis using receive_raw_safe [OF L(1) inv, of b n] w by (auto intro: steps_safe)
next
  case (Call_receive_batch b m ls k)
  then show ?thesis using batch_safe [OF L inv, of m b k ls] w by (auto intro: steps_safe)
next
  case (Call_resolve_gateway gw)
  then show ?thesis using resolve_gateway_safe [OF L inv, of gw] by (auto intro: steps_safe)
next
  case (Call_dhcp k g r)
  have "\<exists>t r' c' nt'. softether_do_dhcp k L zb g c r nt = Some (t, r', c', nt') \<and> safe_to nt c' nt'"
    using do_dhcp_safe [OF L inv] safe_to_refl [OF inv] by (cases "cn_state c = STATE_CONNECTED") (blast, simp add: softether_do_dhcp_def)
  then show ?thesis using Call_dhcp by (auto intro: steps_safe)
next
  case (Call_set_mac m)
  then show ?thesis using w inv safe_to_refl [of _ nt] by (auto simp: softether_set_client_mac_def mem_read_def intro!: steps_safe)
next
  case Call_force_close
  then show ?thesis using inv safe_to_refl [of _ nt] by (auto simp: softether_force_close_socket_def intro!: steps_safe)
next
  case (Call_thread E)
  then show ?thesis using thread_ok [OF _ inv, of E] w order_seg_mono [of 3 nt _ 0] by (auto intro: steps_toI)
next
  case (Call_thread_wait E)
  then show ?thesis using link_thread.join_ok [OF _ inv, of E] w order_seg_mono [of 3 nt _ 0]
    by (auto simp: softether_additional_thread_wait_def intro: steps_toI)
next
  case (Call_close_additional E)
  then show ?thesis using link_thread.close_additional_safe [OF _ inv, of E] w by (auto intro: steps_toI)
next
  case (Call_disconnect E)
  then show ?thesis using link_thread.disconnect_ok [OF _ inv, of E] w by (auto intro: steps_toI)
qed

section \<open>After the end\<close>

text \<open>A connection that has been torn down: it holds nothing, and no call brings anything back.\<close>

definition ended :: "softether_connection \<Rightarrow> bool" where
  "ended c \<longleftrightarrow> cn_state c = STATE_DISCONNECTED \<and> owned_contexts c = {} \<and> conn_fds c = []"

definition untouched :: "net \<Rightarrow> net \<Rightarrow> bool" where
  "untouched nt nt' \<longleftrightarrow> (\<exists>t. nt' = nt\<lparr>nt_trace := t\<rparr>)"

lemma untouched_refl [simp]: "untouched nt nt" "untouched nt (net_ev e nt)"
proof -
  have "nt = nt\<lparr>nt_trace := nt_trace nt\<rparr>" by simp
  then show "untouched nt nt" unfolding untouched_def by blast
  show "untouched nt (net_ev e nt)" unfolding untouched_def net_ev_def by blast
qed

lemma untouched_trans: "untouched a b \<Longrightarrow> untouched b d \<Longrightarrow> untouched a d"
  unfolding untouched_def by auto

lemma destroy_none: "\<forall>i \<in> set ix. ts_ssl_ctx (cn_additional c ! i) = None \<Longrightarrow> destroy_slots ix c nt = Some (c, nt)"
proof (induction ix)
  case (Cons i ix)
  let ?t = "cn_additional c ! i"
  have "?t\<lparr>ts_ssl_ctx := None\<rparr> = ?t" using Cons.prems by (cases ?t) simp
  then have "c\<lparr>cn_additional := (cn_additional c)[i := ?t\<lparr>ts_ssl_ctx := None\<rparr>]\<rparr> = c" by simp
  then show ?case using Cons by (simp add: Let_def ssl_shutdown_def ssl_destroy_def)
qed simp

lemma close_none: "filter (\<lambda>fd. 0 \<le> fd) fds = [] \<Longrightarrow> fold close_fd fds nt = nt"
  by (induction fds) (simp_all add: close_fd_def split: if_splits)

lemma ended_fields [simp]:
  "ended (c\<lparr>cn_abort_connect := v1\<rparr>) = ended c" "ended (c\<lparr>cn_client_mac := v2\<rparr>) = ended c"
  "ended (c\<lparr>cn_additional_connecting := v3\<rparr>) = ended c" "ended (c\<lparr>cn_additional_connect_result := v4\<rparr>) = ended c"
  by (simp_all add: ended_def owned_contexts_def primary_context_def slot_contexts_def slot_ctx_def conn_fds_def saved_fds_def transport_fds_def
      del: not_None_eq)

lemma ended_closed: "length (cn_additional c) = MAX_SE_CONNECTIONS \<Longrightarrow> ended c \<Longrightarrow> ended (close_conn c)"
proof -
  assume len: "length (cn_additional c) = MAX_SE_CONNECTIONS" and e: "ended c"
  have "primary_context (close_conn c) = primary_context c" "transport_fds (close_conn c) = transport_fds c"
    "cn_socket_fd (close_conn c) = cn_socket_fd c" "cn_state (close_conn c) = cn_state c"
    by (simp_all add: close_conn_def primary_context_def transport_fds_def del: not_None_eq)
  moreover have "filter (\<lambda>fd. 0 \<le> fd) (saved_fds (close_conn c)) = []"
    by (auto simp: filter_empty_conv saved_fds_def close_conn_def closed_slot_def mark_closed_def)
  ultimately show "ended (close_conn c)" using e slot_contexts_closed [OF len] by (simp add: ended_def owned_contexts_def conn_fds_def split: if_splits)
qed

lemma thread_ended:
  "cn_state c = STATE_DISCONNECTED \<Longrightarrow>
     additional_connect_thread_routine E c nt = Some (c\<lparr>cn_additional_connect_result := -1, cn_additional_connecting := False\<rparr>, nt)"
  by (simp add: additional_connect_thread_routine_def softether_additional_connect_def)

lemma join_ended:
  assumes "ended c" "conn_inv c nt"
  shows "\<exists>c'. join_additional (additional_connect_thread_routine E) c nt = Some (c', nt) \<and> ended c' \<and> conn_inv c' nt \<and> \<not> cn_additional_connecting c'"
  using assms thread_ended [of c E nt] by (auto simp: join_additional_def ended_def [of c])

definition stays_ended :: "net \<Rightarrow> (softether_connection \<times> net) option \<Rightarrow> bool" where
  "stays_ended nt out \<longleftrightarrow> (\<exists>c' nt'. out = Some (c', nt') \<and> ended c' \<and> untouched nt nt')"

lemma stays_endedI: "out = Some (c', nt') \<Longrightarrow> ended c' \<Longrightarrow> untouched nt nt' \<Longrightarrow> stays_ended nt out"
  unfolding stays_ended_def by blast

lemma close_additional_ended:
  assumes e: "ended c" and inv: "conn_inv c nt"
  shows "stays_ended nt (softether_close_additional (additional_connect_thread_routine E) c nt)"
proof -
  obtain c1 where j: "join_additional (additional_connect_thread_routine E) c nt = Some (c1, nt)" "ended c1" "conn_inv c1 nt"
      "\<not> cn_additional_connecting c1" using join_ended [OF e inv] by blast
  have "softether_close_additional (additional_connect_thread_routine E) c nt = softether_close_additional (additional_connect_thread_routine E) c1 nt"
    using j(1,4) by (simp add: softether_close_additional_def join_additional_def)
  moreover obtain nt' where a: "softether_close_additional (additional_connect_thread_routine E) c1 nt = Some (close_conn c1, nt')"
    using close_additional_ok [OF j(3,4)] by blast
  moreover have "nt' = nt"
  proof -
    have none: "slot_contexts c1 = {}" "filter (\<lambda>fd. 0 \<le> fd) (saved_fds c1) = []"
      using j(2) by (auto simp: ended_def owned_contexts_def conn_fds_def split: if_splits)
    have "ts_ssl_ctx (cn_additional c1 ! i) = None" if "i < MAX_SE_CONNECTIONS" for i
      using none(1) that by (auto simp: slot_contexts_def slot_ctx_def)
    then have "\<forall>i \<in> set [0..<MAX_SE_CONNECTIONS]. ts_ssl_ctx (map mark_closed (cn_additional c1) ! i) = None"
      using inv_slots(1) [OF j(3)] by (simp add: mark_closed_def)
    then show ?thesis using a j(4) destroy_none [of "[0..<MAX_SE_CONNECTIONS]" "c1\<lparr>cn_additional := map mark_closed (cn_additional c1)\<rparr>"]
      by (simp add: softether_close_additional_def join_additional_def close_none [OF none(2)])
  qed
  ultimately show ?thesis using ended_closed [OF inv_slots(1) [OF j(3)] j(2)] by (auto intro: stays_endedI)
qed

lemma tunnel_step_ended:
  assumes e: "ended c" and inv: "conn_inv c nt" and w: "call_well op"
  shows "stays_ended nt (tunnel_step L zb op c nt)"
proof -
  have st: "cn_state c = STATE_DISCONNECTED" using e by (simp add: ended_def)
  have same: "stays_ended nt (Some (c, nt))" using e by (rule stays_endedI [OF refl]) simp
  show ?thesis
  proof (cases op)
    case (Call_send_data d)
    then show ?thesis using same st by (simp add: softether_send_data_def)
  next
    case (Call_send_raw f)
    then show ?thesis using same st by (simp add: softether_send_raw_def softether_send_data_def)
  next
    case (Call_set_mac m)
    then show ?thesis using w e by (auto simp: softether_set_client_mac_def mem_read_def intro: stays_endedI)
  next
    case Call_force_close
    then show ?thesis using e by (auto simp: softether_force_close_socket_def intro: stays_endedI)
  next
    case (Call_thread E)
    then show ?thesis using e thread_ended [OF st] by (auto intro: stays_endedI)
  next
    case (Call_thread_wait E)
    then show ?thesis using join_ended [OF e inv, of E] by (auto simp: softether_additional_thread_wait_def intro: stays_endedI)
  next
    case (Call_close_additional E)
    then show ?thesis using close_additional_ended [OF e inv] by simp
  next
    case (Call_disconnect E)
    have "untouched nt (net_ev (Unlock L_connect) (net_ev (Lock L_connect) nt))" by (blast intro: untouched_refl untouched_trans)
    then show ?thesis using Call_disconnect e st by (auto simp: softether_disconnect_def intro: stays_endedI)
  qed (use same st in \<open>simp_all add: softether_send_def softether_receive_def softether_receive_raw_def softether_receive_batch_def
      softether_resolve_gateway_def softether_do_dhcp_def\<close>)
qed

end

