(* ===== verification/Session_Props.thy ===== *)
theory Session_Props
  imports Session_Run
begin

text \<open>The properties of a connection's life: opening links, calls in any order, teardown and what follows it.\<close>

section \<open>The invariant along a session\<close>

text \<open>
  C21. A fresh connection. \<open>softether_create\<close> either fails, when there is no memory for the connection, or returns
  a well-formed connection in the state \<open>STATE_DISCONNECTED\<close> that holds no TLS context and no descriptor, all
  of whose 32 link slots are free. Its staging buffer, when there was memory for it, takes a full frame with its headers. Its MAC
  address is locally administered and unicast. No socket or TLS object outside is touched.
\<close>

theorem create_well_formed:
  "case softether_create g nt of
     (None, nt') \<Rightarrow> \<not> fst (net_malloc nt)
   | (Some c, nt') \<Rightarrow> conn_inv c nt' \<and> ended c \<and> free_slot c = Some 0 \<and>
       (cn_send_block c = None \<or> unat (cn_send_block_cap c) = 4 + 4 + ETH_HEADER_SIZE + 65535) \<and>
       cn_client_mac c 0 AND 3 = 2 \<and>
       nt_trace nt' = nt_trace nt \<and> nt_tls nt' = nt_tls nt \<and> nt_closed nt' = nt_closed nt"
proof (cases "fst (softether_create g nt)")
  case None
  then show ?thesis by (auto simp: softether_create_def Let_def case_prod_beta split: if_splits)
next
  case (Some c)
  then obtain nt' where c: "softether_create g nt = (Some c, nt')" by (metis prod.collapse)
  then show ?thesis using created_ok [OF c] by (auto simp: ended_def ETH_HEADER_SIZE_def)
qed

text \<open>
  C2. Safety of a session. From any well-formed connection, every sequence of calls of the tunnel interface (sending,
  receiving one packet or a batch, raw frames, gateway lookup, DHCP, the background thread that opens links,
  closing links, disconnecting), against any behaviour of the network, the server and the allocator, returns:
  no buffer is overrun, no freed TLS context is used or freed again, and the connection is well-formed at
  the end. The locks are taken in the documented order and all released.
\<close>

theorem session_invariant:
  assumes "lib_ok L" "zbound_ok zb" "list_all call_well ops" "conn_inv c nt"
  shows "\<exists>c' nt'. tunnel_run L zb ops c nt = Some (c', nt') \<and> conn_inv c' nt' \<and> order_seg 0 nt nt'"
  using assms(3,4)
proof (induction ops arbitrary: c nt)
  case (Cons op ops)
  have w: "call_well op" "list_all call_well ops" using Cons.prems(1) by simp_all
  obtain c1 nt1 where s: "tunnel_step L zb op c nt = Some (c1, nt1)" "conn_inv c1 nt1" "order_seg 0 nt nt1"
    using tunnel_step_ok [OF assms(1,2) w(1) Cons.prems(2)] by (auto simp: steps_to_def)
  obtain c2 nt2 where r: "tunnel_run L zb ops c1 nt1 = Some (c2, nt2)" "conn_inv c2 nt2" "order_seg 0 nt1 nt2"
    using Cons.IH [OF w(2) s(2)] by blast
  show ?case using s(1) r(1,2) order_seg_trans [OF s(3) r(3)] by (simp del: tunnel_step.simps)
qed (simp add: order_seg_def)

text \<open>A link environment: the connection goes through, and no memory is left for its TLS context.\<close>

definition demo_env :: link_env where
  "demo_env = \<lparr>ae_mem = True, ae_dialer = \<lparr>dl_socket = [20, 21], dl_connect = [Conn_ok], dl_poll = [], dl_so_error = [], dl_cancel = [],
     dl_opened = [], dl_closed = []\<rparr>, ae_addrs = [], ae_protect = None, ae_timeout_ms = 10000,
     ae_alloc = (\<lambda>nt. if sc_freed (nt_tls nt 7) then Some 7 else None),
     ae_ctx_ok = True, ae_hs = [Hs_ok], ae_ssl = None, ae_fd_ok = True, ae_date = [], ae_stack = replicate 4096 0\<rparr>"

lemma demo_env_ok: "env_ok demo_env"
  by (simp add: env_ok_def demo_env_def stack_ok_def REPLY_SIZE_def split: if_splits)

theorem session_invariant_witness:
  "\<exists>c' nt'. tunnel_run demo_lib demo_zbound [Call_send [0x45, 1, 2], Call_thread demo_env, Call_receive (replicate 1500 0), Call_disconnect demo_env,
       Call_send [0x45, 1, 2]] demo_conn (demo_world [] (Some (demo_stream []))) = Some (c', nt') \<and> conn_inv c' nt'"
proof -
  have "list_all call_well [Call_send [0x45, 1, 2], Call_thread demo_env, Call_receive (replicate 1500 0), Call_disconnect demo_env,
       Call_send [0x45, 1, 2]]" by (simp add: demo_env_ok)
  then show ?thesis using session_invariant [OF demo_lib_ok(1) demo_zbound_ok _ demo_inv [of "demo_stream []"]] by blast
qed

section \<open>Teardown\<close>



text \<open>
  C11. Nothing comes back after a disconnect. On a connection that has been torn down, any sequence of calls,
  with the background thread at any point of it, leaves it disconnected and without descriptors and TLS
  contexts. No call sends or receives a byte, opens or closes a socket or uses a TLS context: all that changes
  outside is that locks are taken and released.
\<close>

theorem session_ended:
  assumes "lib_ok L" "zbound_ok zb" "list_all call_well ops" "conn_inv c nt" "ended c"
  shows "\<exists>c' nt'. tunnel_run L zb ops c nt = Some (c', nt') \<and> ended c' \<and> untouched nt nt'"
  using assms(3-5)
proof (induction ops arbitrary: c nt)
  case (Cons op ops)
  have w: "call_well op" "list_all call_well ops" using Cons.prems(1) by simp_all
  obtain c1 nt1 where s: "tunnel_step L zb op c nt = Some (c1, nt1)" "ended c1" "untouched nt nt1"
    using tunnel_step_ended [OF Cons.prems(3,2) w(1), of L zb] by (auto simp: stays_ended_def)
  moreover have "conn_inv c1 nt1" using tunnel_step_ok [OF assms(1,2) w(1) Cons.prems(2)] s(1) by (auto simp: steps_to_def)
  ultimately obtain c2 nt2 where r: "tunnel_run L zb ops c1 nt1 = Some (c2, nt2)" "ended c2" "untouched nt1 nt2"
    using Cons.IH [OF w(2)] by blast
  show ?case using s(1) r(1,2) untouched_trans [OF s(3) r(3)] by (simp del: tunnel_step.simps)
qed simp

theorem session_ended_witness:
  "\<exists>c nt c' nt'. softether_create (\<lambda>i. 0) (demo_world [] None) = (Some c, nt) \<and>
     tunnel_run demo_lib demo_zbound [Call_send [0x45, 1, 2], Call_thread demo_env, Call_close_additional demo_env] c nt = Some (c', nt') \<and> ended c'"
proof -
  have "\<exists>c nt. softether_create (\<lambda>i. 0) (demo_world [] None) = (Some c, nt)"
    by (simp add: softether_create_def net_malloc_def demo_world_def Let_def case_prod_beta)
  then obtain c nt where c: "softether_create (\<lambda>i. 0) (demo_world [] None) = (Some c, nt)" by blast
  moreover have "conn_inv c nt" "ended c" using created_ok [OF c] by (simp_all add: ended_def)
  moreover have "list_all call_well [Call_send [0x45, 1, 2], Call_thread demo_env, Call_close_additional demo_env]" by (simp add: demo_env_ok)
  ultimately show ?thesis using session_ended [OF demo_lib_ok(1) demo_zbound_ok] by blast
qed

section \<open>Opening a link\<close>

text \<open>
  C5. Opening an additional link. On a well-formed connection, \<open>softether_additional_connect\<close> returns, whatever the
  operating system, the server and the allocator answer, with the connection well-formed. When it returns 0,
  the first free slot holds the new link, active, with its own TLS context, and of the sockets that were
  opened on the way exactly that of the link is still open. Otherwise the connection is as before (but for the count of failures), every socket
  that was opened has been closed exactly once, and every context that was allocated has been freed.
\<close>

theorem additional_connect_outcome:
  assumes "env_ok E" "conn_inv c nt"
  shows "\<exists>r c' nt'. softether_additional_connect E c nt = Some (r, c', nt') \<and> conn_inv c' nt' \<and> order_seg 3 nt nt' \<and>
     (r = 0 \<and> (\<exists>slot fd i dir now. free_slot c = Some slot \<and> c' = install_link slot fd (Some i) dir now c \<and>
          sc_freed (nt_tls nt i) \<and> \<not> sc_freed (nt_tls nt' i) \<and> (\<forall>x. x \<noteq> i \<longrightarrow> nt_tls nt' x = nt_tls nt x) \<and>
          mset (nt_closed nt') + {#fd#} = mset (nt_closed nt) + mset (dl_opened (snd (dial_link E)))) \<or>
      r \<noteq> 0 \<and> (c' = c \<and> nt' = nt \<or>
          c' = link_failed c \<and> mset (nt_closed nt') = mset (nt_closed nt) + mset (dl_opened (snd (dial_link E)))) \<and>
        (\<forall>x. sc_freed (nt_tls nt' x) = sc_freed (nt_tls nt x) \<and> (\<not> sc_freed (nt_tls nt x) \<longrightarrow> nt_tls nt' x = nt_tls nt x)))"
proof -
  obtain r c' nt' where e: "softether_additional_connect E c nt = Some (r, c', nt')" "conn_inv c' nt'" "order_seg 3 nt nt'"
    "if r = 0 then link_added E c nt c' nt' else link_refused E c nt c' nt'"
    using additional_connect_ok [OF assms] unfolding connect_ends_def by blast
  show ?thesis
  proof (cases "r = 0")
    case True
    then have "link_added E c nt c' nt'" using e(4) by simp
    then show ?thesis using e(1-3) True unfolding link_added_def by blast
  next
    case False
    then have "link_refused E c nt c' nt'" using e(4) by simp
    then show ?thesis using e(1-3) False unfolding link_refused_def by blast
  qed
qed

theorem additional_connect_outcome_witness:
  "\<exists>r c' nt'. softether_additional_connect demo_env demo_conn (demo_world [] (Some (demo_stream []))) = Some (r, c', nt') \<and> conn_inv c' nt'"
  using additional_connect_outcome [OF demo_env_ok demo_inv [of "demo_stream []"]] by blast

end
