(* ===== verification/Auth.thy ===== *)
theory Auth
  imports Additional
begin

text \<open>
  From the TLS handshake of the primary link to the established session (\<open>softether_protocol.c\<close>): the watermark and the
  server's Hello, the login and the server's Welcome, and the setup of the session. The fields of
  \<open>softether_connection_t\<close> that only these steps use are the record \<open>login_data\<close>; what the outside decides beyond
  \<open>net\<close> is \<open>auth_env\<close>. The replies are searched as C strings: a search that would leave its array is \<open>None\<close>.
\<close>

definition ERR_NONE :: int where "ERR_NONE = 0"
definition ERR_TCP_CONNECT :: int where "ERR_TCP_CONNECT = 1"
definition ERR_TLS_HANDSHAKE :: int where "ERR_TLS_HANDSHAKE = 2"
definition ERR_PROTOCOL_VERSION :: int where "ERR_PROTOCOL_VERSION = 3"
definition ERR_AUTHENTICATION :: int where "ERR_AUTHENTICATION = 4"
definition ERR_SESSION :: int where "ERR_SESSION = 5"
definition ERR_DATA_TRANSMISSION :: int where "ERR_DATA_TRANSMISSION = 6"
definition ERR_TIMEOUT :: int where "ERR_TIMEOUT = 7"
definition ERR_UNKNOWN :: int where "ERR_UNKNOWN = 99"

definition CLIENT_AUTHTYPE_ANONYMOUS :: int where "CLIENT_AUTHTYPE_ANONYMOUS = 0"
definition CLIENT_AUTHTYPE_PASSWORD :: int where "CLIENT_AUTHTYPE_PASSWORD = 1"
definition CLIENT_AUTHTYPE_PLAIN_PASSWORD :: int where "CLIENT_AUTHTYPE_PLAIN_PASSWORD = 2"

fun softether_state_string :: "softether_state \<Rightarrow> string" where
  "softether_state_string STATE_DISCONNECTED = ''DISCONNECTED''"
| "softether_state_string STATE_CONNECTING = ''CONNECTING''"
| "softether_state_string STATE_TLS_HANDSHAKE = ''TLS_HANDSHAKE''"
| "softether_state_string STATE_PROTOCOL_HANDSHAKE = ''PROTOCOL_HANDSHAKE''"
| "softether_state_string STATE_AUTHENTICATING = ''AUTHENTICATING''"
| "softether_state_string STATE_SESSION_SETUP = ''SESSION_SETUP''"
| "softether_state_string STATE_CONNECTED = ''CONNECTED''"
| "softether_state_string STATE_DISCONNECTING = ''DISCONNECTING''"

definition softether_error_string :: "int \<Rightarrow> string" where
  "softether_error_string e =
     (if e = ERR_NONE then ''No error'' else if e = ERR_TCP_CONNECT then ''TCP connection failed''
      else if e = ERR_TLS_HANDSHAKE then ''TLS handshake failed'' else if e = ERR_PROTOCOL_VERSION then ''Protocol version mismatch''
      else if e = ERR_AUTHENTICATION then ''Authentication failed'' else if e = ERR_SESSION then ''Session setup failed''
      else if e = ERR_DATA_TRANSMISSION then ''Data transmission failed'' else if e = ERR_TIMEOUT then ''Operation timed out''
      else if e = ERR_UNKNOWN then ''Unknown error'' else ''Undefined error'')"

text \<open>Strings are without their NUL; the two server keys are the 128-byte arrays.\<close>

record login_data =
  lg_hub_name :: "byte list"
  lg_username :: "byte list"
  lg_password :: "byte list"
  lg_forced_auth_type :: int
  lg_has_server_random :: bool
  lg_server_random :: "byte list"
  lg_client :: client_info
  lg_is_ipv6 :: bool
  lg_session_name :: "byte list"
  lg_connection_name :: "byte list"
  lg_session_key_32 :: u32
  lg_server_max_connection :: u32
  lg_server_use_encrypt :: u32
  lg_server_use_fast_rc4 :: u32
  lg_rudp_version :: int
  lg_rudp_server_ip :: "byte list"
  lg_rudp_server_port :: u16
  lg_rudp_server_key :: "byte list"
  lg_rudp_server_key_size :: nat
  lg_rudp_server_key_v2 :: "byte list"
  lg_rudp_server_key_v2_size :: nat
  lg_rudp_server_cookie :: u32
  lg_rudp_client_cookie :: u32

text \<open>
  \<open>au_hello_stack\<close>, \<open>au_login_stack\<close> and \<open>au_hash_stack\<close> are what the arrays on the stack hold before they are written,
  \<open>au_stalled\<close> whether \<open>errno\<close> is \<open>EAGAIN\<close> after a failed handshake.
\<close>

record auth_env =
  au_login :: login_env
  au_date :: "byte list"
  au_hello_stack :: "byte list"
  au_login_stack :: "byte list"
  au_hash_stack :: "byte list"
  au_alloc :: "net \<Rightarrow> nat option"
  au_ctx_ok :: bool
  au_hs :: "hs_answer list"
  au_ssl :: "stream option"
  au_fd_ok :: bool
  au_stalled :: bool
  au_evp :: "bool \<times> bool"

section \<open>The TLS handshake\<close>

definition perform_tls_handshake :: "auth_env \<Rightarrow> softether_connection \<Rightarrow> net \<Rightarrow> (int \<times> softether_connection \<times> net) option" where
  "perform_tls_handshake E c nt =
     (if cn_socket_fd c < 0 then Some (ERR_TLS_HANDSHAKE, c, nt)
      else let c = c\<lparr>cn_state := STATE_TLS_HANDSHAKE\<rparr>;
               (ssl_ctx, nt) = ssl_create_client (au_alloc E nt) (au_ctx_ok E) (au_hs E) nt in
           if ssl_ctx = None then Some (ERR_TLS_HANDSHAKE, c, nt)
           else do { (rc, nt) \<leftarrow> ssl_connect ssl_ctx (au_ssl E) (au_fd_ok E) nt;
                     if rc \<noteq> 0
                     then do { nt \<leftarrow> ssl_destroy ssl_ctx nt;
                               Some (if au_stalled E then ERR_TIMEOUT else ERR_TLS_HANDSHAKE, c\<lparr>cn_ssl_ctx := None\<rparr>, nt) }
                     else Some (ERR_NONE, c\<lparr>cn_ssl_ctx := ssl_ctx, cn_ssl := ssl_ctx\<rparr>, nt) })"

section \<open>HTTP replies\<close>

text \<open>Headers and body, or \<open>None\<close>.\<close>

definition read_http_response :: "nat \<Rightarrow> nat option \<Rightarrow> net \<Rightarrow> ((byte list \<times> byte list) option \<times> net) option" where
  "read_http_response buf_size ssl nt =
     do { (hdr, nt) \<leftarrow> read_headers (buf_size - 1) ssl [] nt;
          case hdr of
            None \<Rightarrow> Some (None, nt)
          | Some h \<Rightarrow>
              (case content_length (c_str (h @ [0])) of
                 None \<Rightarrow> Some (None, nt)
               | Some cl \<Rightarrow>
                   if cl = 0 then Some (Some (h, []), nt)
                   else if buf_size < length h + cl then Some (None, nt)
                   else do { (r, body, nt) \<leftarrow> ssl_read_all_ctx ssl cl [] nt;
                             Some (if r < 0 then None else Some (h, body), nt) }) }"

text \<open>The array after the reply has been read: the body overwrites the NUL behind the headers.\<close>

definition reply_array :: "byte list \<Rightarrow> byte list \<times> byte list \<Rightarrow> byte list" where
  "reply_array stack hb =
     (let text = fst hb @ (if snd hb = [] then [0] else snd hb) in text @ drop (length text) stack)"

text \<open>\<open>strstr\<close> on an array: found before the first NUL, or not; \<open>None\<close> when there is no NUL to end the search.\<close>

definition array_has :: "string \<Rightarrow> byte list \<Rightarrow> bool option" where
  "array_has needle a =
     (if strstr (str needle) (c_str a) \<noteq> None then Some True else if 0 \<in> set a then Some False else None)"

definition http_200 :: "byte list \<Rightarrow> bool option" where
  "http_200 a = do { v11 \<leftarrow> array_has ''HTTP/1.1 200'' a; if v11 then Some True else array_has ''HTTP/1.0 200'' a }"

section \<open>The watermark\<close>

definition take_hello :: "byte list \<Rightarrow> login_data \<Rightarrow> login_data" where
  "take_hello body lg =
     (case parse_server_hello (Some body) (word_of_nat (length body)) of
        None \<Rightarrow> lg
      | Some info \<Rightarrow> if sh_has_random info then lg\<lparr>lg_server_random := sh_random info, lg_has_server_random := True\<rparr> else lg)"

definition send_vpnconnect_watermark ::
  "auth_env \<Rightarrow> softether_connection \<Rightarrow> login_data \<Rightarrow> byte list \<Rightarrow> net \<Rightarrow> (int \<times> login_data \<times> net) option" where
  "send_vpnconnect_watermark E c lg host nt =
     (if cn_ssl c = None then Some (-1, lg, nt)
      else do {
        http_post \<leftarrow> c_snprintf 1024 (connect_cgi_request host);
        let (ok, nt) = net_malloc nt;
        if \<not> ok then Some (-1, lg, nt)
        else do {
          (sent, nt) \<leftarrow> ssl_write (cn_ssl c) (http_post @ vpnconnect) nt;
          if sent \<le> 0 then Some (-1, lg, nt)
          else do {
            (reply, nt) \<leftarrow> read_http_response 4096 (cn_ssl c) nt;
            case reply of
              None \<Rightarrow> Some (-1, lg, nt)
            | Some hb \<Rightarrow>
                do { ok \<leftarrow> http_200 (reply_array (au_hello_stack E) hb);
                     if \<not> ok then Some (0, lg, nt)
                     else do { pack \<leftarrow> array_has ''application/octet-stream'' (reply_array (au_hello_stack E) hb);
                               if \<not> pack \<or> length (snd hb) < 4 then Some (0, lg, nt)
                               else Some (1, take_hello (snd hb) lg, nt) } } } } })"

section \<open>The credentials\<close>

definition upper_ascii :: "byte \<Rightarrow> byte" where
  "upper_ascii b = (if 0x61 \<le> b \<and> b \<le> 0x7A then b - 32 else b)"

definition login_auth_type :: "login_data \<Rightarrow> byte list \<Rightarrow> int" where
  "login_auth_type lg password =
     (if lg_forced_auth_type lg = CLIENT_AUTHTYPE_PLAIN_PASSWORD then CLIENT_AUTHTYPE_PLAIN_PASSWORD
      else if lg_forced_auth_type lg = CLIENT_AUTHTYPE_PASSWORD then CLIENT_AUTHTYPE_PASSWORD
      else if 0 < length password then CLIENT_AUTHTYPE_PASSWORD else CLIENT_AUTHTYPE_ANONYMOUS)"

text \<open>Each of the two buffers and each hash may fail for want of memory.\<close>

definition hash_credentials :: "auth_env \<Rightarrow> login_data \<Rightarrow> byte list \<Rightarrow> byte list \<Rightarrow> net \<Rightarrow> (byte list \<times> net) option" where
  "hash_credentials E lg username password nt =
     (let (ok, nt) = net_malloc nt in
      if \<not> ok then Some (replicate SHA1_SIZE 0, nt)
      else let (ok, nt) = net_malloc nt in
           if \<not> ok then Some (replicate SHA1_SIZE 0, nt)
           else do {
             let (ok, nt) = net_malloc nt;
             hashed_pw \<leftarrow> sha0_hash ok (password @ map upper_ascii username) (au_hash_stack E);
             if lg_has_server_random lg
             then do { let (ok, nt) = net_malloc nt;
                       s \<leftarrow> sha0_hash ok (hashed_pw @ lg_server_random lg) (replicate SHA1_SIZE 0);
                       Some (s, nt) }
             else Some (hashed_pw, nt) })"

section \<open>The Welcome\<close>

definition get_int :: "byte list \<Rightarrow> string \<Rightarrow> u32 option" where
  "get_int body f = pack_get_int_proto (Some body) (word_of_nat (length body)) (Some (str f))"

definition get_str :: "byte list \<Rightarrow> string \<Rightarrow> u32 \<Rightarrow> byte list option" where
  "get_str body f n = map_option c_str (pack_get_str_proto (Some body) (word_of_nat (length body)) (Some (str f)) n)"

definition get_data :: "byte list \<Rightarrow> string \<Rightarrow> u32 \<Rightarrow> byte list option" where
  "get_data body f n = pack_get_data_proto (Some body) (word_of_nat (length body)) (Some (str f)) n"

text \<open>A field that is missing leaves the variable as it was.\<close>

definition or_old :: "'a option \<Rightarrow> 'a \<Rightarrow> 'a" where
  "or_old v old = (case v of None \<Rightarrow> old | Some x \<Rightarrow> x)"

definition put_prefix :: "byte list \<Rightarrow> byte list \<Rightarrow> byte list" where
  "put_prefix d a = d @ drop (length d) a"

definition welcome_accepted :: "byte list \<Rightarrow> bool" where
  "welcome_accepted body \<longleftrightarrow>
     (case get_int body ''error'' of
        Some e \<Rightarrow> e = 0
      | None \<Rightarrow> buffer_contains_token (Some body) (word_of_nat (length body)) (Some (str ''session_key'')) \<or>
                buffer_contains_token (Some body) (word_of_nat (length body)) (Some (str ''session_name'')) \<or>
                buffer_contains_token (Some body) (word_of_nat (length body)) (Some (str ''connection_name'')))"

definition welcome_session :: "byte list \<Rightarrow> softether_connection \<Rightarrow> login_data \<Rightarrow> softether_connection \<times> login_data" where
  "welcome_session body c lg =
     (let lg = lg\<lparr>lg_session_name := or_old (get_str body ''session_name'' 128) (lg_session_name lg),
                  lg_connection_name := or_old (get_str body ''connection_name'' 128) (lg_connection_name lg),
                  lg_session_key_32 := or_old (get_int body ''session_key_32'') (lg_session_key_32 lg),
                  lg_server_max_connection := or_old (get_int body ''max_connection'') (lg_server_max_connection lg),
                  lg_server_use_encrypt := or_old (get_int body ''use_encrypt'') (lg_server_use_encrypt lg),
                  lg_server_use_fast_rc4 := or_old (get_int body ''use_fast_rc4'') (lg_server_use_fast_rc4 lg),
                  lg_client := (lg_client lg)\<lparr>ci_half_connection :=
                    (case get_int body ''half_connection'' of None \<Rightarrow> ci_half_connection (lg_client lg) | Some v \<Rightarrow> v \<noteq> 0)\<rparr>\<rparr>;
          c = c\<lparr>cn_session_key := (case get_data body ''session_key'' (word_of_nat SHA1_SIZE) of
                                     None \<Rightarrow> cn_session_key c
                                   | Some d \<Rightarrow> arr_of (put_prefix d (arr SHA1_SIZE (cn_session_key c)))),
                cn_server_use_compress := (case get_int body ''use_compress'' of None \<Rightarrow> cn_server_use_compress c | Some v \<Rightarrow> v \<noteq> 0),
                cn_server_timeout := or_old (get_int body ''timeout'') (cn_server_timeout c)\<rparr>;
          c = c\<lparr>cn_use_ssl_data := (lg_server_use_encrypt lg \<noteq> 0 \<and> lg_server_use_fast_rc4 lg = 0),
                cn_rudp := map_option (rudp_set_compress (cn_server_use_compress c)) (cn_rudp c)\<rparr>
      in (c, lg))"

text \<open>The parameters of UDP acceleration, when the server offers it.\<close>

definition welcome_rudp :: "byte list \<Rightarrow> softether_connection \<Rightarrow> login_data \<Rightarrow> softether_connection \<times> login_data" where
  "welcome_rudp body c lg =
     (if get_int body ''use_udp_acceleration'' \<in> {None, Some 0} then (c, lg)
      else let port = or_old (get_int body ''udp_acceleration_server_port'') 0;
               key = or_old (get_data body ''udp_acceleration_server_key'' 128) [];
               key_v2 = or_old (get_data body ''udp_acceleration_server_key_v2'' 128) [] in
           (c\<lparr>cn_rudp_enabled := True\<rparr>,
            lg\<lparr>lg_rudp_version := sint (or_old (get_int body ''udp_acceleration_version'') 1),
               lg_rudp_server_ip := or_old (get_str body ''udp_acceleration_server_ip'' 64) (take 63 (server_ip_str c)),
               lg_rudp_server_port := (if 0 < port \<and> port \<le> 65535 then ucast port else lg_rudp_server_port lg),
               lg_rudp_server_key := put_prefix key (lg_rudp_server_key lg),
               lg_rudp_server_key_size := (if 0 < length key then length key else lg_rudp_server_key_size lg),
               lg_rudp_server_key_v2 := put_prefix key_v2 (lg_rudp_server_key_v2 lg),
               lg_rudp_server_key_v2_size := (if 0 < length key_v2 then length key_v2 else lg_rudp_server_key_v2_size lg),
               lg_rudp_server_cookie := or_old (get_int body ''udp_acceleration_server_cookie'') (lg_rudp_server_cookie lg),
               lg_rudp_client_cookie := or_old (get_int body ''udp_acceleration_client_cookie'') (lg_rudp_client_cookie lg)\<rparr>))"

definition parse_welcome :: "byte list \<Rightarrow> softether_connection \<Rightarrow> login_data \<Rightarrow> softether_connection \<times> login_data" where
  "parse_welcome body c lg =
     (let (c, lg) = welcome_session body c lg; (c, lg) = welcome_rudp body c lg in (c\<lparr>cn_session_established := True\<rparr>, lg))"

section \<open>The login\<close>

definition auth_reply ::
  "auth_env \<Rightarrow> softether_connection \<Rightarrow> login_data \<Rightarrow> net \<Rightarrow> (int \<times> softether_connection \<times> login_data \<times> net) option" where
  "auth_reply E c lg nt =
     do { (reply, nt) \<leftarrow> read_http_response 8192 (cn_ssl c) nt;
          case reply of
            None \<Rightarrow> Some (ERR_AUTHENTICATION, c, lg, nt)
          | Some hb \<Rightarrow>
              do { ok \<leftarrow> http_200 (reply_array (au_login_stack E) hb);
                   if \<not> ok \<or> length (snd hb) < 4 \<or> \<not> welcome_accepted (snd hb) then Some (ERR_AUTHENTICATION, c, lg, nt)
                   else case parse_welcome (snd hb) c lg of (c, lg) \<Rightarrow> Some (ERR_NONE, c, lg, nt) } }"

definition perform_authentication_http ::
  "rudp_lib \<Rightarrow> auth_env \<Rightarrow> softether_connection \<Rightarrow> login_data \<Rightarrow> byte list \<Rightarrow> byte list \<Rightarrow> net \<Rightarrow>
     (int \<times> softether_connection \<times> login_data \<times> net) option" where
  "perform_authentication_http L E c lg username password nt =
     (let c = c\<lparr>cn_state := STATE_AUTHENTICATING\<rparr>;
          lg = lg\<lparr>lg_username := take 255 username, lg_password := take 255 password\<rparr>;
          auth_type = login_auth_type lg password in
      do { (secure, nt) \<leftarrow> (if auth_type = CLIENT_AUTHTYPE_PASSWORD
                             then map_option (\<lambda>(s, nt). (Some s, nt)) (hash_credentials E lg username password nt)
                             else Some (None, nt));
           (pack, nt) \<leftarrow> build_login_pack L (au_login E) (Some (lg_hub_name lg)) (Some username) auth_type secure
              (if auth_type = CLIENT_AUTHTYPE_PLAIN_PASSWORD then Some password else None) (cn_rudp c)
              ((lg_client lg)\<lparr>ci_max_connection := word_of_int (cn_max_connection c), ci_socket_fd := cn_socket_fd c\<rparr>) nt;
           case pack of
             None \<Rightarrow> Some (ERR_AUTHENTICATION, c, lg, nt)
           | Some (buf, n) \<Rightarrow>
               if n = 0 then Some (ERR_AUTHENTICATION, c, lg, nt)
               else do {
                 http_hdr \<leftarrow> c_snprintf 512 (vpn_cgi_request (take 63 (au_date E)) (server_ip_str c) (unat n));
                 body \<leftarrow> mem_read buf 0 (unat n);
                 let (ok, nt) = net_malloc nt;
                 if \<not> ok then Some (ERR_AUTHENTICATION, c, lg, nt)
                 else do { (sent, nt) \<leftarrow> ssl_write (cn_ssl c) (http_hdr @ body) nt;
                           if sent \<le> 0 then Some (ERR_AUTHENTICATION, c, lg, nt)
                           else auth_reply E c lg nt } } })"

text \<open>The context of UDP acceleration that is announced in the login.\<close>

definition login_rudp :: "bool \<Rightarrow> softether_connection \<Rightarrow> login_data \<Rightarrow> net \<Rightarrow> (softether_connection \<times> net) option" where
  "login_rudp use_tcp c lg nt =
     (if use_tcp \<or> cn_using_nat_t c then Some (c\<lparr>cn_rudp := None\<rparr>, nt)
      else do { let (mem, nt) = net_malloc nt;
                (ru, nt) \<leftarrow> rudp_create mem True nt;
                case ru of
                  None \<Rightarrow> Some (c\<lparr>cn_rudp := None\<rparr>, nt)
                | Some ru \<Rightarrow>
                    if \<not> lg_is_ipv6 lg then Some (c\<lparr>cn_rudp := Some ru\<rparr>, nt)
                    else case rudp_set_udp_family True ru nt of
                      (r, ru, nt) \<Rightarrow>
                        if r \<noteq> 0 then Some (c\<lparr>cn_rudp := None\<rparr>, snd (rudp_destroy ru nt))
                        else Some (c\<lparr>cn_rudp := Some ru\<rparr>, nt) })"

definition softether_protocol_login ::
  "rudp_lib \<Rightarrow> auth_env \<Rightarrow> softether_connection \<Rightarrow> login_data \<Rightarrow> byte list \<Rightarrow> byte list \<Rightarrow> byte list \<Rightarrow> bool \<Rightarrow> net \<Rightarrow>
     (int \<times> softether_connection \<times> login_data \<times> net) option" where
  "softether_protocol_login L E c lg host username password use_tcp nt =
     do { (w, lg, nt) \<leftarrow> send_vpnconnect_watermark E c lg host nt;
          if w < 0 then Some (ERR_TIMEOUT, c, lg, nt)
          else do { (c, nt) \<leftarrow> login_rudp use_tcp c lg nt;
                    perform_authentication_http L E c lg username password nt } }"

section \<open>The session\<close>

text \<open>The end of \<open>softether_connect_with_hub\<close>, from the successful login on.\<close>

definition start_rudp :: "rudp_lib \<Rightarrow> auth_env \<Rightarrow> bool \<Rightarrow> softether_connection \<Rightarrow> login_data \<Rightarrow> net \<Rightarrow> (softether_connection \<times> net) option" where
  "start_rudp L E use_tcp c lg nt =
     (case cn_rudp c of
        None \<Rightarrow> Some (c, nt)
      | Some ru \<Rightarrow>
          if use_tcp \<or> \<not> cn_rudp_enabled c then Some (c, nt)
          else if lg_rudp_server_port lg = 0 \<or> lg_rudp_server_key_size lg = 0 \<and> lg_rudp_server_key_v2_size lg = 0
          then Some (c\<lparr>cn_rudp_enabled := False\<rparr>, nt)
          else let key = (if 2 \<le> lg_rudp_version lg \<and> 0 < lg_rudp_server_key_v2_size lg
                          then take (lg_rudp_server_key_v2_size lg) (lg_rudp_server_key_v2 lg)
                          else take (lg_rudp_server_key_size lg) (lg_rudp_server_key lg));
                   ip = (if lg_rudp_server_ip lg \<noteq> [] then lg_rudp_server_ip lg else server_ip_str c) in
               (case rudp_init_client L (fst (au_evp E)) (snd (au_evp E)) key (Some ip) (lg_rudp_server_port lg)
                       (lg_rudp_server_cookie lg) (lg_rudp_client_cookie lg) ru nt of
                  (r, ru, nt) \<Rightarrow>
                    if r \<noteq> 0 then Some (c\<lparr>cn_rudp := Some ru, cn_rudp_enabled := False\<rparr>, nt)
                    else do { (ru, nt) \<leftarrow> rudp_poll L (rudp_set_version (lg_rudp_version lg) ru) nt;
                              Some (c\<lparr>cn_rudp := Some ru\<rparr>, nt) }))"

definition choose_session_id :: "softether_connection \<Rightarrow> login_data \<Rightarrow> net \<Rightarrow> softether_connection \<times> net" where
  "choose_session_id c lg nt =
     (let c = (if cn_session_established c \<and> lg_session_key_32 lg \<noteq> 0 then c\<lparr>cn_session_id := lg_session_key_32 lg\<rparr> else c) in
      if cn_session_id c \<noteq> 0 then (c, nt)
      else let (r1, nt) = c_rand nt; (r2, nt) = c_rand nt in
           (c\<lparr>cn_session_id := push_bit 16 (word_of_nat r1) XOR word_of_nat r2\<rparr>, nt))"

text \<open>The number of links: what was asked for, within what the server accepts and what there is room for.\<close>

definition session_limit :: "softether_connection \<Rightarrow> login_data \<Rightarrow> int" where
  "session_limit c lg =
     (let m = cn_max_connection c;
          m = (if 0 < lg_server_max_connection lg \<and> lg_server_max_connection lg < word_of_int m
               then sint (lg_server_max_connection lg) else m)
      in if int MAX_SE_CONNECTIONS < m then int MAX_SE_CONNECTIONS else m)"

definition start_session :: "softether_connection \<Rightarrow> login_data \<Rightarrow> net \<Rightarrow> softether_connection \<times> net" where
  "start_session c lg nt =
     (let (c, nt) = choose_session_id (c\<lparr>cn_state := STATE_SESSION_SETUP\<rparr>) lg nt;
          c = c\<lparr>cn_state := STATE_CONNECTED\<rparr> in
      if cn_using_nat_t c then (c\<lparr>cn_max_connection := 1, cn_next_connect_time := 0\<rparr>, nt)
      else let c = c\<lparr>cn_max_connection := session_limit c lg\<rparr>;
               (now, nt) = softether_tick_ms nt in
           (c\<lparr>cn_next_connect_time := now + word_of_int ADDITIONAL_CONNECT_INTERVAL_MS\<rparr>, nt))"

text \<open>The first additional link, opened at once when every link has one direction only.\<close>

definition softether_establish_first_additional ::
  "link_env \<Rightarrow> softether_connection \<Rightarrow> net \<Rightarrow> (int \<times> softether_connection \<times> net) option" where
  "softether_establish_first_additional LE c nt =
     do { (result, c, nt) \<leftarrow> softether_additional_connect LE c nt;
          Some (result,
                if result = 0 \<and> list_ex (\<lambda>ts. ts_active ts \<and> ts_direction ts = TCP_DIRECTION_SERVER_TO_CLIENT) (cn_additional c)
                then c\<lparr>cn_primary_direction := TCP_DIRECTION_CLIENT_TO_SERVER\<rparr> else c, nt) }"

text \<open>After the login with this result: an error, a cancel or a missing socket tears the connection down again.\<close>

definition establish_session ::
  "rudp_lib \<Rightarrow> auth_env \<Rightarrow> link_env \<Rightarrow> bool \<Rightarrow> int \<Rightarrow> softether_connection \<Rightarrow> login_data \<Rightarrow> net \<Rightarrow>
     (int \<times> softether_connection \<times> net) option" where
  "establish_session L E LE use_tcp result c lg nt =
     (if result \<noteq> ERR_NONE
      then do { (c, nt) \<leftarrow> softether_disconnect (additional_connect_thread_routine LE) c nt; Some (result, c, nt) }
      else if cn_abort_connect c
      then do { (c, nt) \<leftarrow> softether_disconnect (additional_connect_thread_routine LE) c nt; Some (ERR_TIMEOUT, c, nt) }
      else do {
        (c, nt) \<leftarrow> start_rudp L E use_tcp c lg nt;
        let (c, nt) = start_session c lg nt;
        (p, nt) \<leftarrow> ssl_has_pending (cn_ssl c) nt;
        if cn_socket_fd c < 0
        then do { (c, nt) \<leftarrow> softether_disconnect (additional_connect_thread_routine LE) c nt; Some (ERR_TCP_CONNECT, c, nt) }
        else if ci_half_connection (lg_client lg)
        then do { (_, c, nt) \<leftarrow> softether_establish_first_additional LE c nt; Some (ERR_NONE, c, nt) }
        else Some (ERR_NONE, c, nt) })"

end
