(* ===== verification/Auth_Props.thy ===== *)
theory Auth_Props
  imports Auth Additional_Run Pack_Fields Packet_Props
begin

text \<open>
  The login: the credentials, the Welcome of the server and its meaning, the verdict, and the session that is set up
  from it.
\<close>

section \<open>The Welcome\<close>

lemma welcome_get:
  assumes "message_ok es"
  shows "get_int (enc_pack es) f = int_field f es"
    "0 < n \<Longrightarrow> get_str (enc_pack es) f n = map_option (\<lambda>s. c_str (take (unat n - 1) s)) (str_field f es)"
    "0 < n \<Longrightarrow> get_data (enc_pack es) f n = map_option (take (unat n)) (data_field f es)"
  using message_fields [OF assms, where f = f]
  by (simp_all add: get_int_def get_str_def get_data_def pack_get_proto_eq option.map_comp comp_def c_str_NUL)

lemma welcome_session_fields:
  "lg_session_name (snd (welcome_session b c lg)) = or_old (get_str b ''session_name'' 128) (lg_session_name lg)"
  "lg_session_key_32 (snd (welcome_session b c lg)) = or_old (get_int b ''session_key_32'') (lg_session_key_32 lg)"
  "lg_server_max_connection (snd (welcome_session b c lg)) = or_old (get_int b ''max_connection'') (lg_server_max_connection lg)"
  "cn_session_key (fst (welcome_session b c lg)) = (case get_data b ''session_key'' (word_of_nat SHA1_SIZE) of
     None \<Rightarrow> cn_session_key c | Some d \<Rightarrow> arr_of (put_prefix d (arr SHA1_SIZE (cn_session_key c))))"
  "cn_server_timeout (fst (welcome_session b c lg)) = or_old (get_int b ''timeout'') (cn_server_timeout c)"
  "cn_use_ssl_data (fst (welcome_session b c lg)) = (or_old (get_int b ''use_encrypt'') (lg_server_use_encrypt lg) \<noteq> 0 \<and>
     or_old (get_int b ''use_fast_rc4'') (lg_server_use_fast_rc4 lg) = 0)"
  "cn_rudp_enabled (fst (welcome_session b c lg)) = cn_rudp_enabled c"
  "lg_rudp_server_key (snd (welcome_session b c lg)) = lg_rudp_server_key lg"
  by (simp_all add: welcome_session_def Let_def)

lemma welcome_rudp_fields:
  "lg_session_name (snd (welcome_rudp b c lg)) = lg_session_name lg" "lg_session_key_32 (snd (welcome_rudp b c lg)) = lg_session_key_32 lg"
  "lg_server_max_connection (snd (welcome_rudp b c lg)) = lg_server_max_connection lg" "cn_session_key (fst (welcome_rudp b c lg)) = cn_session_key c"
  "cn_server_timeout (fst (welcome_rudp b c lg)) = cn_server_timeout c" "cn_use_ssl_data (fst (welcome_rudp b c lg)) = cn_use_ssl_data c"
  "cn_rudp_enabled (fst (welcome_rudp b c lg)) = (cn_rudp_enabled c \<or> get_int b ''use_udp_acceleration'' \<notin> {None, Some 0})"
  by (simp_all add: welcome_rudp_def Let_def)

lemma welcome_rudp_offer:
  assumes "get_int b ''use_udp_acceleration'' \<notin> {None, Some 0}"
  shows "get_int b ''udp_acceleration_server_port'' = Some port \<Longrightarrow> 0 < port \<Longrightarrow> port \<le> 65535 \<Longrightarrow>
       lg_rudp_server_port (snd (welcome_rudp b c lg)) = ucast port"
    "get_data b ''udp_acceleration_server_key'' 128 = Some k \<Longrightarrow> k \<noteq> [] \<Longrightarrow>
       take (lg_rudp_server_key_size (snd (welcome_rudp b c lg))) (lg_rudp_server_key (snd (welcome_rudp b c lg))) = k"
  using assms unfolding welcome_rudp_def by (simp_all only: if_False Let_def) (simp_all add: or_old_def put_prefix_def)

lemma parse_welcome_fields:
  assumes "parse_welcome b c lg = (c', lg')"
  shows "lg' = snd (welcome_rudp b (fst (welcome_session b c lg)) (snd (welcome_session b c lg)))"
    "c' = (fst (welcome_rudp b (fst (welcome_session b c lg)) (snd (welcome_session b c lg))))\<lparr>cn_session_established := True\<rparr>"
  using assms by (simp_all add: parse_welcome_def Let_def case_prod_beta)


definition demo_login :: login_data where
  "demo_login = \<lparr>lg_hub_name = str ''VPNGATE'', lg_username = [], lg_password = [], lg_forced_auth_type = 0, lg_has_server_random = True,
     lg_server_random = replicate 20 3, lg_client = demo_client, lg_is_ipv6 = False, lg_session_name = [], lg_connection_name = [],
     lg_session_key_32 = 0, lg_server_max_connection = 0, lg_server_use_encrypt = 0, lg_server_use_fast_rc4 = 0, lg_rudp_version = 0,
     lg_rudp_server_ip = [], lg_rudp_server_port = 0, lg_rudp_server_key = replicate 128 0, lg_rudp_server_key_size = 0,
     lg_rudp_server_key_v2 = replicate 128 0, lg_rudp_server_key_v2_size = 0, lg_rudp_server_cookie = 0, lg_rudp_client_cookie = 0\<rparr>"

definition demo_welcome :: "pack_elem list" where
  "demo_welcome = [(str ''error'', PInt 0), (str ''session_key'', PData (replicate 20 7)), (str ''use_encrypt'', PInt 1),
     (str ''max_connection'', PInt 4)]"

lemma demo_welcome_ok: "message_ok demo_welcome"
  by (simp add: message_ok_def demo_welcome_def elem_fits_def enc_elem_def enc_elems_def enc_pack_def size_simps)


section \<open>The credentials\<close>

lemma hash_credentials_eq:
  assumes "nt_malloc nt = []"
  shows "hash_credentials E lg user pw nt =
     Some (let h = spec_sha0 (pw @ map upper_ascii user) in if lg_has_server_random lg then spec_sha0 (h @ lg_server_random lg) else h, nt)"
  using assms by (simp add: hash_credentials_def net_malloc_def sha0_hash_spec Let_def)

lemma length_spec_sha0: "length (spec_sha0 bs) = SHA1_SIZE"
  by (simp add: spec_sha0_def Let_def sha0_output_length SHA1_SIZE_def)


definition demo_auth :: auth_env where
  "demo_auth = \<lparr>au_login = \<lparr>le_inet_addr = (\<lambda>_. 0), le_local_port = Some 5555\<rparr>, au_date = [], au_hello_stack = replicate 4096 0,
     au_login_stack = replicate 8192 0, au_hash_stack = replicate 20 0, au_alloc = (\<lambda>_. None), au_ctx_ok = True, au_hs = [], au_ssl = None,
     au_fd_ok = True, au_stalled = False, au_evp = (True, True)\<rparr>"


section \<open>Replies over TLS\<close>

lemma read_response_quiet:
  assumes "tls_alive ssl nt" "0 < n"
  shows "\<exists>rep nt'. read_http_response n ssl nt = Some (rep, nt') \<and> quiet ssl nt nt' \<and>
     (\<forall>h b. rep = Some (h, b) \<longrightarrow> length h + length b \<le> n)"
proof -
  obtain h nt1 where h: "read_headers (n - 1) ssl [] nt = Some (h, nt1)" "quiet ssl nt nt1" "\<forall>x. h = Some x \<longrightarrow> length x \<le> n - 1"
    using read_headers_quiet [OF assms(1), of "n - 1" "[]"] by auto
  have al: "tls_alive ssl nt1" using assms(1) quiet_alive [OF h(2)] by simp
  show ?thesis
  proof (cases h)
    case None
    then show ?thesis using h by (simp add: read_http_response_def)
  next
    case (Some x)
    show ?thesis
    proof (cases "content_length (c_str (x @ [0]))")
      case None
      then show ?thesis using h Some by (simp add: read_http_response_def)
    next
      case cl: (Some cl)
      obtain r body nt2 where b: "ssl_read_all_ctx ssl cl [] nt1 = Some (r, body, nt2)" "quiet ssl nt1 nt2" "length body \<le> cl"
        using read_all_quiet [OF al, of cl "[]"] by auto
      have e: "read_http_response n ssl nt = (if cl = 0 then Some (Some (x, []), nt1) else if n < length x + cl then Some (None, nt1)
          else Some (if r < 0 then None else Some (x, body), nt2))"
        unfolding read_http_response_def by (simp only: h(1) Some Option.bind.bind_lunit prod.case option.case cl b(1))
      have q: "quiet ssl nt nt2" using quiet_trans [OF h(2) b(2)] .
      have x: "length x \<le> n" using h(3) Some by simp
      consider "cl = 0" | "cl \<noteq> 0" "n < length x + cl" | "cl \<noteq> 0" "\<not> n < length x + cl" by blast
      then show ?thesis by cases (use e q h(2) x b(3) in simp_all)
    qed
  qed
qed

lemma array_has_None: "array_has f a = None \<Longrightarrow> 0 \<notin> set a"
  by (auto simp: array_has_def split: if_splits)

lemma http_200_None: "http_200 a = None \<Longrightarrow> 0 \<notin> set a"
  by (cases "array_has ''HTTP/1.1 200'' a") (auto simp: http_200_def array_has_None split: if_splits)

text \<open>A reply that leaves no NUL in the array for the search to stop at, read in a state the login can reach.\<close>

definition unterminated :: "auth_env \<Rightarrow> nat option \<Rightarrow> net \<Rightarrow> bool" where
  "unterminated E ssl nt \<longleftrightarrow> (\<exists>nt1 h b nt2. quiet ssl nt nt1 \<and> read_http_response 8192 ssl nt1 = Some (Some (h, b), nt2) \<and>
     0 \<notin> set (reply_array (au_login_stack E) (h, b)))"

lemma unterminated_quiet: "quiet ssl nt nt1 \<Longrightarrow> unterminated E ssl nt1 \<Longrightarrow> unterminated E ssl nt"
  unfolding unterminated_def using quiet_trans by blast

definition verdict :: "auth_env \<Rightarrow> softether_connection \<Rightarrow> login_data \<Rightarrow> int \<Rightarrow> softether_connection \<Rightarrow> login_data \<Rightarrow> bool" where
  "verdict E c lg code c' lg' \<longleftrightarrow>
     code = ERR_AUTHENTICATION \<and> c' = c \<and> lg' = lg \<or>
     code = ERR_NONE \<and> (\<exists>h b. http_200 (reply_array (au_login_stack E) (h, b)) = Some True \<and> 4 \<le> length b \<and> welcome_accepted b \<and>
       parse_welcome b c lg = (c', lg'))"

lemma auth_reply_ok:
  assumes "tls_alive (cn_ssl c) nt"
  shows "auth_reply E c lg nt = None \<and> unterminated E (cn_ssl c) nt \<or>
     (\<exists>code c' lg' nt'. auth_reply E c lg nt = Some (code, c', lg', nt') \<and> quiet (cn_ssl c) nt nt' \<and> verdict E c lg code c' lg')"
proof -
  obtain rep nt1 where r: "read_http_response 8192 (cn_ssl c) nt = Some (rep, nt1)" "quiet (cn_ssl c) nt nt1"
    "\<forall>h b. rep = Some (h, b) \<longrightarrow> length h + length b \<le> 8192"
    using read_response_quiet [OF assms, of 8192] by auto
  show ?thesis
  proof (cases rep)
    case None
    then show ?thesis using r by (simp add: auth_reply_def verdict_def)
  next
    case (Some hb)
    obtain h b where hb: "hb = (h, b)" by fastforce
    let ?a = "reply_array (au_login_stack E) (h, b)"
    show ?thesis
    proof (cases "http_200 ?a")
      case None
      then have "0 \<notin> set ?a" by (rule http_200_None)
      then have "unterminated E (cn_ssl c) nt" using r(1) Some hb quiet_refl unfolding unterminated_def by blast
      then show ?thesis using r Some hb None by (simp add: auth_reply_def)
    next
      case ok: (Some ok)
      obtain c' lg' where p: "parse_welcome b c lg = (c', lg')" by fastforce
      show ?thesis using r Some hb ok p by (auto simp: auth_reply_def verdict_def)
    qed
  qed
qed

section \<open>The outcome of the login\<close>

lemma rand_bytes_quiet: "rand_bytes n nt = (bs, nt') \<Longrightarrow> quiet ssl nt nt'"
proof (induction n arbitrary: nt bs nt')
  case (Suc n)
  obtain r nt1 where r: "c_rand nt = (r, nt1)" by fastforce
  obtain bs1 nt2 where b: "rand_bytes n nt1 = (bs1, nt2)" by fastforce
  have "quiet ssl nt nt1" using r by (auto simp: c_rand_def quiet_def io_step_def lock_seg_def same_life_def)
  then show ?case using Suc.prems Suc.IH [OF b] r b quiet_trans [of ssl nt nt1 nt2] by simp
qed simp

lemma build_login_quiet:
  assumes "build_login_pack L LE hub user auth secure plain rudp ci nt = Some (p, nt')"
  shows "quiet ssl nt nt'"
proof -
  obtain r nt1 where r: "c_rand nt = (r, nt1)" by fastforce
  obtain ok nt2 where m: "net_malloc nt1 = (ok, nt2)" by fastforce
  obtain pn pd nt3 where pc: "pencore nt = (pn, pd, nt3)" by (metis prod_cases3)
  obtain bs nt4 where b: "rand_bytes (unat (word_of_nat (r mod 1000) :: u32)) nt2 = (bs, nt4)" by fastforce
  have "quiet ssl nt nt1" using r by (auto simp: c_rand_def quiet_def io_step_def lock_seg_def same_life_def)
  then have "quiet ssl nt nt2" using malloc_quiet [OF m] quiet_trans by blast
  then have q: "quiet ssl nt nt3"
    using pc r m b rand_bytes_quiet [OF b] quiet_trans by (auto simp: pencore_def Let_def split: if_splits)
  obtain ok5 nt5 where m5: "net_malloc nt3 = (ok5, nt5)" by fastforce
  have "quiet ssl nt nt5" using q malloc_quiet [OF m5] quiet_trans by blast
  then show ?thesis using assms quiet_refl [of ssl nt]
    by (cases hub; cases user) (auto simp: build_login_pack_def pc m5 Let_def split: if_splits option.splits bind_splits)
qed

lemma dec_digits_length: "n < 10 ^ Suc k \<Longrightarrow> length (dec_digits n) \<le> Suc k"
proof (induction k arbitrary: n)
  case (Suc k)
  then show ?case by (cases "n < 10") (subst dec_digits.simps, simp add: Suc.IH)+
qed (subst dec_digits.simps, simp)

lemma login_header_fits: "length date \<le> 63 \<Longrightarrow> length ip \<le> 64 \<Longrightarrow> n < 10 ^ 10 \<Longrightarrow>
    c_snprintf 512 (vpn_cgi_request date ip n) = Some (vpn_cgi_request date ip n)"
  using dec_digits_length [of n 9] by (simp add: c_snprintf_def vpn_cgi_request_def crlf_def del: dec_digits.simps)

text \<open>What the login needs of its arguments: strings within the arrays, a random value of 20 bytes, keys of their sizes.\<close>

definition login_args_ok :: "rudp_lib \<Rightarrow> softether_connection \<Rightarrow> login_data \<Rightarrow> byte list \<Rightarrow> byte list \<Rightarrow> bool" where
  "login_args_ok L c lg user pw \<longleftrightarrow> (\<forall>x. length (lb_sha1 L x) = SHA1_SIZE) \<and>
     login_fits (lg_hub_name lg) user None (Some pw) (cn_rudp c) (lg_client lg)"

lemma login_fits_args:
  assumes "login_args_ok L c lg user pw" "\<forall>s. secure = Some s \<longrightarrow> length s = SHA1_SIZE" "plain = None \<or> plain = Some pw"
  shows "login_fits (lg_hub_name lg) user secure plain (cn_rudp c) ((lg_client lg)\<lparr>ci_max_connection := m, ci_socket_fd := fd\<rparr>)"
  using assms by (auto simp: login_args_ok_def login_fits_def)

lemma login_secure:
  assumes "nt_malloc nt = []"
  obtains secure where "(if a = CLIENT_AUTHTYPE_PASSWORD then map_option (\<lambda>(s, nt). (Some s, nt)) (hash_credentials E lg user pw nt) else Some (None, nt)) =
      Some (secure, nt)" "\<forall>s. secure = Some s \<longrightarrow> length s = SHA1_SIZE"
  using hash_credentials_eq [OF assms, of E lg user pw] by (cases "a = CLIENT_AUTHTYPE_PASSWORD") (simp_all add: Let_def length_spec_sha0)

lemma auth_ok:
  assumes al: "tls_alive (cn_ssl c) nt" and m: "nt_malloc nt = []" and args: "login_args_ok L c lg user pw"
  defines "c0 \<equiv> c\<lparr>cn_state := STATE_AUTHENTICATING\<rparr>" and "lg0 \<equiv> lg\<lparr>lg_username := take 255 user, lg_password := take 255 pw\<rparr>"
  shows "perform_authentication_http L E c lg user pw nt = None \<and> unterminated E (cn_ssl c) nt \<or>
     (\<exists>code c' lg' nt'. perform_authentication_http L E c lg user pw nt = Some (code, c', lg', nt') \<and> quiet (cn_ssl c) nt nt' \<and>
        verdict E c0 lg0 code c' lg')"
proof -
  let ?a = "login_auth_type lg0 pw"
  let ?plain = "if ?a = CLIENT_AUTHTYPE_PLAIN_PASSWORD then Some pw else None"
  let ?ci = "(lg_client lg0)\<lparr>ci_max_connection := word_of_int (cn_max_connection c0), ci_socket_fd := cn_socket_fd c0\<rparr>"
  obtain secure where s: "(if ?a = CLIENT_AUTHTYPE_PASSWORD then map_option (\<lambda>(s, nt). (Some s, nt)) (hash_credentials E lg0 user pw nt)
      else Some (None, nt)) = Some (secure, nt)" "\<forall>s. secure = Some s \<longrightarrow> length s = SHA1_SIZE" by (rule login_secure [OF m])
  have args0: "login_args_ok L c0 lg0 user pw" using args by (simp add: login_args_ok_def c0_def lg0_def)
  have fit: "login_fits (lg_hub_name lg0) user secure ?plain (cn_rudp c0) ?ci" by (rule login_fits_args [OF args0 s(2)]) simp
  have L: "\<forall>x. length (lb_sha1 L x) = SHA1_SIZE" using args by (simp add: login_args_ok_def)
  let ?uid = "lb_sha1 L (str ''SoftEtherVPN_Android_Client'')"
  obtain p pn pd nt1 where b: "build_login_pack L (au_login E) (Some (lg_hub_name lg0)) (Some user) ?a secure ?plain (cn_rudp c0) ?ci nt =
      Some (Some (pk_data p, pk_len p), nt1)"
    and rep: "pack_rep p (map call_elem (login_calls (au_login E) ?uid (lg_hub_name lg0) user ?a secure ?plain (cn_rudp c0) ?ci pn (Some pd)))"
    and sm: "list_all call_small (login_calls (au_login E) ?uid (lg_hub_name lg0) user ?a secure ?plain (cn_rudp c0) ?ci pn (Some pd))"
    and len: "length (pk_data p) = unat (pk_len p) + 64"
    using login_pack_rep [OF fit L m, of "au_login E" ?a] by blast
  have n: "0 < unat (pk_len p)" "unat (pk_len p) < 10 ^ 10" using rep unat_lt32 [of "pk_len p"] by (auto simp: pack_rep_def)
  have q1: "quiet (cn_ssl c) nt nt1" by (rule build_login_quiet [OF b])
  have hdr: "c_snprintf 512 (vpn_cgi_request (take 63 (au_date E)) (server_ip_str c0) (unat (pk_len p))) =
      Some (vpn_cgi_request (take 63 (au_date E)) (server_ip_str c0) (unat (pk_len p)))"
    by (rule login_header_fits [OF _ ip_length n(2)]) simp
  let ?h = "vpn_cgi_request (take 63 (au_date E)) (server_ip_str c0) (unat (pk_len p))"
  have rd: "mem_read (pk_data p) 0 (unat (pk_len p)) = Some (take (unat (pk_len p)) (pk_data p))" using len by (simp add: mem_read_def)
  obtain ok nt2 where m2: "net_malloc nt1 = (ok, nt2)" by fastforce
  have q2: "quiet (cn_ssl c) nt nt2" using quiet_trans [OF q1 malloc_quiet [OF m2]] .
  have al2: "tls_alive (cn_ssl c) nt2" using al quiet_alive [OF q2] by simp
  obtain sent nt3 where w: "ssl_write (cn_ssl c) (?h @ take (unat (pk_len p)) (pk_data p)) nt2 = Some (sent, nt3)" "quiet (cn_ssl c) nt2 nt3"
    using ssl_write_quiet [OF al2] by blast
  have q3: "quiet (cn_ssl c) nt nt3" using quiet_trans [OF q2 w(2)] .
  have ssl: "cn_ssl c0 = cn_ssl c" by (simp add: c0_def)
  have step: "perform_authentication_http L E c lg user pw nt =
      (if \<not> ok then Some (ERR_AUTHENTICATION, c0, lg0, nt2) else if sent \<le> 0 then Some (ERR_AUTHENTICATION, c0, lg0, nt3) else auth_reply E c0 lg0 nt3)"
  proof -
    have nz: "pk_len p \<noteq> 0" using n(1) by auto
    show ?thesis unfolding perform_authentication_http_def Let_def c0_def [symmetric] lg0_def [symmetric]
      by (simp only: s(1) Option.bind.bind_lunit prod.case b option.case nz if_False hdr rd m2 w(1) ssl)
  qed
  have al3: "tls_alive (cn_ssl c0) nt3" using al quiet_alive [OF q3] ssl by simp
  show ?thesis using step q2 q3 auth_reply_ok [OF al3, of E lg0] quiet_trans [OF q3] unterminated_quiet [OF q3, of E] ssl
    by (auto simp: verdict_def)
qed

lemma welcome_session_inv: "conn_inv c nt \<Longrightarrow> conn_inv (fst (welcome_session b c lg)) nt"
  by (cases "cn_rudp c") (simp_all add: welcome_session_def Let_def conn_inv_def links_inv_def own_contexts_def rudp_set_compress_def)

lemma parse_welcome_inv: "conn_inv c nt \<Longrightarrow> conn_inv (fst (parse_welcome b c lg)) nt"
  using welcome_session_inv [of c nt b lg]
  by (simp add: parse_welcome_def Let_def case_prod_beta welcome_rudp_def conn_inv_def links_inv_def own_contexts_def)


lemma demo_unconnected: "quiet ssl (demo_world [] None) nt1 \<Longrightarrow> read_http_response n ssl nt1 = Some (Some hb, nt2) \<Longrightarrow> False"
proof -
  assume q: "quiet ssl (demo_world [] None) nt1" and r: "read_http_response n ssl nt1 = Some (Some hb, nt2)"
  have "sc_ssl (nt_tls nt1 i) = None" "\<not> sc_freed (nt_tls nt1 i)" for i
    using q by (simp_all add: quiet_def io_step_def same_life_def demo_world_def)
  then have "ssl_read ssl 1 nt1 = Some (-1, [], nt1)" by (cases ssl) (simp_all add: ssl_read_def)
  then show False using r by (cases "n - 1") (simp_all add: read_http_response_def)
qed


end
