(* ===== verification/Session_Start.thy ===== *)
theory Session_Start
  imports Auth_Props Session_Props
begin

text \<open>
  The setup of the session after the login: the start of UDP acceleration with the server's parameters, the limits
  that were negotiated, and the first additional link.
\<close>

section \<open>Starting UDP acceleration\<close>

lemma create_socket_inv:
  assumes "rudp_create_udp_socket ru v6 nt = (r, ru', nt')" "rudp_inv ru"
  shows "rudp_inv ru'" "udp_step nt nt'"
  using assms by (auto simp: rudp_create_udp_socket_def rudp_inv_def udp_step_def net_close_def Let_def split: if_splits sock_answer.splits)

lemma set_peer_inv:
  assumes "rudp_set_peer L ip port ru nt = (r, ru', nt')" "rudp_inv ru"
  shows "rudp_inv ru' \<and> udp_step nt nt'"
proof -
  obtain r1 ru1 nt1 where s: "(if (lb_pton6 L ip \<noteq> None) \<noteq> ru_is_ipv6 ru then rudp_create_udp_socket ru (lb_pton6 L ip \<noteq> None) nt else (0, ru, nt)) =
      (r1, ru1, nt1)" by (metis prod_cases3)
  have i: "rudp_inv ru1" "udp_step nt nt1" using s create_socket_inv assms(2) by (auto split: if_splits)
  have m: "rudp_inv (ru1\<lparr>ru_peer_addr := a, ru_peer_addr_set := True, ru_mss := m, ru_max_udp_packet_size := k\<rparr>)"
    if "k \<le> RUDP_MAX_UDP_PACKET_IPV4" for a m k using i(1) that by (simp add: rudp_inv_def)
  have le: "RUDP_MAX_UDP_PACKET_IPV6 \<le> RUDP_MAX_UDP_PACKET_IPV4" by (simp add: RUDP_MAX_UDP_PACKET_IPV6_def RUDP_MAX_UDP_PACKET_IPV4_def)
  show ?thesis using assms(1) i m le assms(2) unfolding rudp_set_peer_def s Let_def by (auto split: if_splits option.splits)
qed

lemma take_key_inv: "rudp_inv ru \<Longrightarrow> rudp_inv (rudp_set_version v (rudp_take_key enc dec key ru))"
  by (auto simp: rudp_take_key_def rudp_init_v2_cipher_def rudp_set_version_def rudp_inv_def Let_def)

lemma init_client_inv:
  assumes "rudp_init_client L enc dec key (Some ip) port sc cc ru nt = (r, ru', nt')" "rudp_inv ru"
  shows "udp_step nt nt' \<and> (if r = 0 then rudp_inv (rudp_set_version v ru') else rudp_inv ru')"
proof -
  obtain r1 ru1 nt1 where s: "rudp_set_peer L ip port ru nt = (r1, ru1, nt1)" by (metis prod_cases3)
  obtain now nt2 where t: "softether_tick_ms nt1 = (now, nt2)" by fastforce
  have u: "udp_step nt1 nt2" using udp_step_basic(1) [of nt1] t by simp
  note i = set_peer_inv [OF s assms(2)]
  have k: "rudp_inv (rudp_set_version v (k\<lparr>ru_your_cookie := a, ru_my_cookie := b, ru_inited := True, ru_now := now\<rparr>))"
    if "rudp_inv (rudp_set_version v k)" for k a b using that unfolding rudp_set_version_def rudp_inv_def by simp
  show ?thesis using assms(1) i k take_key_inv udp_step_trans [OF _ u]
    by (auto simp: rudp_init_client_def s t Let_def split: if_splits)
qed

lemma conn_inv_enabled: "conn_inv (c\<lparr>cn_rudp_enabled := b\<rparr>) nt = conn_inv c nt"
  by (simp add: conn_inv_def links_inv_def own_contexts_def)

lemma start_rudp_ok:
  assumes L: "lib_ok L" and inv: "conn_inv c nt"
  shows "\<exists>ru on nt'. start_rudp L E use_tcp c lg nt = Some (c\<lparr>cn_rudp := ru, cn_rudp_enabled := on\<rparr>, nt') \<and>
     conn_inv (c\<lparr>cn_rudp := ru, cn_rudp_enabled := on\<rparr>) nt' \<and> udp_step nt nt' \<and> (on \<longrightarrow> cn_rudp_enabled c)"
proof (cases "cn_rudp c")
  case None
  then have "start_rudp L E use_tcp c lg nt = Some (c, nt)" by (simp add: start_rudp_def)
  then show ?thesis using inv by (intro exI [of _ "cn_rudp c"] exI [of _ "cn_rudp_enabled c"] exI [of _ nt]) simp
next
  case (Some ru)
  let ?key = "if 2 \<le> lg_rudp_version lg \<and> 0 < lg_rudp_server_key_v2_size lg then take (lg_rudp_server_key_v2_size lg) (lg_rudp_server_key_v2 lg)
    else take (lg_rudp_server_key_size lg) (lg_rudp_server_key lg)"
  let ?ip = "if lg_rudp_server_ip lg \<noteq> [] then lg_rudp_server_ip lg else server_ip_str c"
  have ru: "rudp_inv ru" using inv Some by (simp add: conn_inv_def)
  have on: "conn_inv (c\<lparr>cn_rudp := Some x, cn_rudp_enabled := b\<rparr>) nt'" if "rudp_inv x" "udp_step nt nt'" for x b nt'
    using conn_inv_rudp [of c nt', OF _ that(1)] udp_step_inv [OF that(2), of c] inv
      conn_inv_enabled [where c = "c\<lparr>cn_rudp := Some x\<rparr>" and b = b and nt = nt'] by simp
  consider "use_tcp \<or> \<not> cn_rudp_enabled c"
    | "\<not> (use_tcp \<or> \<not> cn_rudp_enabled c)" "lg_rudp_server_port lg = 0 \<or> lg_rudp_server_key_size lg = 0 \<and> lg_rudp_server_key_v2_size lg = 0"
    | "\<not> (use_tcp \<or> \<not> cn_rudp_enabled c)" "\<not> (lg_rudp_server_port lg = 0 \<or> lg_rudp_server_key_size lg = 0 \<and> lg_rudp_server_key_v2_size lg = 0)" by blast
  then show ?thesis
  proof cases
    case 1
    then have "start_rudp L E use_tcp c lg nt = Some (c, nt)" using Some by (simp add: start_rudp_def)
    then show ?thesis using inv by (intro exI [of _ "cn_rudp c"] exI [of _ "cn_rudp_enabled c"] exI [of _ nt]) simp
  next
    case 2
    then have "start_rudp L E use_tcp c lg nt = Some (c\<lparr>cn_rudp_enabled := False\<rparr>, nt)" using Some by (auto simp: start_rudp_def)
    then show ?thesis using on [OF ru udp_step_refl] Some by (intro exI [of _ "cn_rudp c"] exI [of _ False] exI [of _ nt]) simp
  next
    case 3
    obtain r ru1 nt1 where i: "rudp_init_client L (fst (au_evp E)) (snd (au_evp E)) ?key (Some ?ip) (lg_rudp_server_port lg)
        (lg_rudp_server_cookie lg) (lg_rudp_client_cookie lg) ru nt = (r, ru1, nt1)" by (metis prod_cases3)
    note k = init_client_inv [OF i ru, of "lg_rudp_version lg"]
    have e: "start_rudp L E use_tcp c lg nt = (if r \<noteq> 0 then Some (c\<lparr>cn_rudp := Some ru1, cn_rudp_enabled := False\<rparr>, nt1)
        else do { (ru, nt) \<leftarrow> rudp_poll L (rudp_set_version (lg_rudp_version lg) ru1) nt1; Some (c\<lparr>cn_rudp := Some ru\<rparr>, nt) })"
      unfolding start_rudp_def Let_def using Some 3 by (simp only: i option.case prod.case if_False)
    show ?thesis
    proof (cases "r = 0")
      case False
      then show ?thesis using e k on [of ru1 nt1] by auto
    next
      case True
      obtain ru2 nt2 where p: "rudp_poll L (rudp_set_version (lg_rudp_version lg) ru1) nt1 = Some (ru2, nt2)" "rudp_inv ru2"
        using rudp_poll_ok [of "rudp_set_version (lg_rudp_version lg) ru1", OF _ L, of nt1] k True by auto
      have u: "udp_step nt nt2" using udp_step_trans [OF _ poll_udp [OF p(1)]] k by blast
      have "start_rudp L E use_tcp c lg nt = Some (c\<lparr>cn_rudp := Some ru2, cn_rudp_enabled := cn_rudp_enabled c\<rparr>, nt2)"
        using e True p(1) by simp
      then show ?thesis using on [OF p(2) u] u by blast
    qed
  qed
qed

section \<open>The limits of the session\<close>

lemma choose_session_id_eq:
  "\<exists>sid nt'. choose_session_id c lg nt = (c\<lparr>cn_session_id := sid\<rparr>, nt') \<and> udp_step nt nt' \<and>
     (cn_session_established c \<and> lg_session_key_32 lg \<noteq> 0 \<longrightarrow> sid = lg_session_key_32 lg)"
proof -
  obtain r1 nt1 where r1: "c_rand nt = (r1, nt1)" by fastforce
  obtain r2 nt2 where r2: "c_rand nt1 = (r2, nt2)" by fastforce
  have u: "udp_step nt nt2" using r1 r2 by (auto simp: c_rand_def udp_step_def)
  let ?kept = "choose_session_id c lg nt = (c\<lparr>cn_session_id := cn_session_id c\<rparr>, nt)"
  consider "cn_session_established c \<and> lg_session_key_32 lg \<noteq> 0"
    | "\<not> (cn_session_established c \<and> lg_session_key_32 lg \<noteq> 0)" "cn_session_id c \<noteq> 0"
    | "\<not> (cn_session_established c \<and> lg_session_key_32 lg \<noteq> 0)" "cn_session_id c = 0" by blast
  then show ?thesis
  proof cases
    case 1
    then have "choose_session_id c lg nt = (c\<lparr>cn_session_id := lg_session_key_32 lg\<rparr>, nt)"
      by (simp add: choose_session_id_def del: word_neq_0_conv)
    then show ?thesis using udp_step_refl [of nt] by blast
  next
    case 2
    then have ?kept unfolding choose_session_id_def Let_def by (simp only: if_False if_True) simp
    then show ?thesis using 2(1) udp_step_refl [of nt] by blast
  next
    case 3
    then have "choose_session_id c lg nt = (c\<lparr>cn_session_id := push_bit 16 (word_of_nat r1) XOR word_of_nat r2\<rparr>, nt2)"
      unfolding choose_session_id_def Let_def by (simp only: if_False if_True r1 r2 prod.case) simp
    then show ?thesis using 3(1) u by blast
  qed
qed

lemma start_session_eq:
  "\<exists>sid t nt'. start_session c lg nt = (c\<lparr>cn_session_id := sid, cn_state := STATE_CONNECTED,
       cn_max_connection := if cn_using_nat_t c then 1 else session_limit c lg, cn_next_connect_time := t\<rparr>, nt') \<and> udp_step nt nt' \<and>
     (cn_session_established c \<and> lg_session_key_32 lg \<noteq> 0 \<longrightarrow> sid = lg_session_key_32 lg)"
proof -
  obtain sid nt1 where s: "choose_session_id (c\<lparr>cn_state := STATE_SESSION_SETUP\<rparr>) lg nt = (c\<lparr>cn_state := STATE_SESSION_SETUP, cn_session_id := sid\<rparr>, nt1)"
    "udp_step nt nt1" "cn_session_established c \<and> lg_session_key_32 lg \<noteq> 0 \<longrightarrow> sid = lg_session_key_32 lg"
    using choose_session_id_eq [of "c\<lparr>cn_state := STATE_SESSION_SETUP\<rparr>" lg nt] by auto
  obtain now nt2 where t: "softether_tick_ms nt1 = (now, nt2)" by fastforce
  have u2: "udp_step nt nt2" using udp_step_trans [OF s(2)] udp_step_basic(1) [of nt1] t by (metis snd_conv)
  have e: "start_session c lg nt = (c\<lparr>cn_session_id := sid, cn_state := STATE_CONNECTED,
       cn_max_connection := if cn_using_nat_t c then 1 else session_limit c lg,
       cn_next_connect_time := if cn_using_nat_t c then 0 else now + word_of_int ADDITIONAL_CONNECT_INTERVAL_MS\<rparr>,
       if cn_using_nat_t c then nt1 else nt2)"
    using t by (cases "cn_using_nat_t c") (simp_all add: start_session_def s(1) session_limit_def Let_def)
  have "udp_step nt (if cn_using_nat_t c then nt1 else nt2)" using s(2) u2 by simp
  then show ?thesis using e s(3) by blast
qed

lemma session_limit_le: "session_limit c lg \<le> int MAX_SE_CONNECTIONS"
  by (simp add: session_limit_def MAX_SE_CONNECTIONS_def Let_def)

lemma session_limit_min:
  assumes "0 \<le> cn_max_connection c" "cn_max_connection c < 2 ^ 31"
  shows "session_limit c lg = min (min (cn_max_connection c) (int MAX_SE_CONNECTIONS))
     (if lg_server_max_connection lg = 0 then int MAX_SE_CONNECTIONS else uint (lg_server_max_connection lg))"
proof -
  let ?m = "cn_max_connection c" let ?s = "lg_server_max_connection lg"
  have lt: "?s < word_of_int ?m \<longleftrightarrow> uint ?s < ?m" using assms by (simp add: word_less_def uint_word_of_int)
  have si: "sint ?s = uint ?s" if "uint ?s < ?m"
  proof -
    have "uint ?s < 2 ^ 31" "- (2 ^ 31) \<le> uint ?s" using that assms uint_ge_0 [of ?s] by linarith+
    then show ?thesis using signed_take_bit_int_eq_self [of 31 "uint ?s"] by (simp add: sint_uint)
  qed
  have z: "0 < ?s \<longleftrightarrow> uint ?s \<noteq> 0" "?s = 0 \<longleftrightarrow> uint ?s = 0" by (simp_all add: word_gt_0 uint_0_iff)
  show ?thesis unfolding session_limit_def Let_def lt z using assms si by (simp add: min_def)
qed

section \<open>The session\<close>

lemma start_session_inv:
  assumes "conn_inv c nt" "udp_step nt nt'"
  shows "conn_inv (c\<lparr>cn_session_id := sid, cn_state := st, cn_max_connection := m, cn_next_connect_time := t\<rparr>) nt'"
  using assms(1) udp_step_inv [OF assms(2), of c] by (simp add: conn_inv_def links_inv_def own_contexts_def)

lemma pending_ok: "tls_alive ssl nt \<Longrightarrow> \<exists>p nt'. ssl_has_pending ssl nt = Some (p, nt') \<and> lock_seg 3 nt nt' \<and> nt_tls nt' = nt_tls nt"
proof -
  assume "tls_alive ssl nt"
  then obtain p nt' where "ssl_has_pending ssl nt = Some (p, nt')"
    by (cases ssl) (auto simp: ssl_has_pending_def tls_alive_def Let_def case_prod_beta)
  then show ?thesis using ssl_has_pending_seg by blast
qed

definition same_session :: "softether_connection \<Rightarrow> softether_connection \<Rightarrow> bool" where
  "same_session c c' \<longleftrightarrow> cn_state c' = cn_state c \<and> cn_socket_fd c' = cn_socket_fd c \<and> cn_max_connection c' = cn_max_connection c \<and>
     cn_rudp_enabled c' = cn_rudp_enabled c \<and> cn_session_id c' = cn_session_id c"

lemma first_additional_ok:
  assumes "env_ok LE" "conn_inv c nt"
  shows "\<exists>r c' nt'. softether_establish_first_additional LE c nt = Some (r, c', nt') \<and> conn_inv c' nt' \<and> order_seg 0 nt nt' \<and> same_session c c'"
proof -
  obtain r c1 nt1 where r: "softether_additional_connect LE c nt = Some (r, c1, nt1)" "conn_inv c1 nt1" "order_seg 3 nt nt1"
    "if r = 0 then link_added LE c nt c1 nt1 else link_refused LE c nt c1 nt1"
    using additional_connect_ok [OF assms] unfolding connect_ends_def by blast
  have "same_session c c1"
    using r(4) by (auto simp: same_session_def link_added_def link_refused_def install_link_def link_failed_def split: if_splits)
  moreover have "conn_inv (c1\<lparr>cn_primary_direction := d\<rparr>) nt1" "same_session c (c1\<lparr>cn_primary_direction := d\<rparr>) = same_session c c1" for d
    using r(2) by (simp_all add: conn_inv_def links_inv_def own_contexts_def same_session_def)
  ultimately show ?thesis using r(1,2) order_seg_mono [OF r(3), of 0] by (simp add: softether_establish_first_additional_def)
qed

lemma torn_down_ok:
  assumes "env_ok LE" "conn_inv c nt" "conn_going c"
  shows "\<exists>c' nt'. softether_disconnect (additional_connect_thread_routine LE) c nt = Some (c', nt') \<and> conn_inv c' nt' \<and> order_seg 0 nt nt' \<and> ended c'"
  using link_thread.disconnect_ok [OF assms(1,2)] assms(3) unfolding ended_def by blast

lemma err_codes: "ERR_TIMEOUT \<noteq> ERR_NONE" "ERR_TCP_CONNECT \<noteq> ERR_NONE"
  by (simp_all add: ERR_TIMEOUT_def ERR_TCP_CONNECT_def ERR_NONE_def)

text \<open>The session up to the first additional link.\<close>

lemma session_begins:
  assumes L: "lib_ok L" and inv: "conn_inv c nt"
  obtains ru on sid t nt1 nt2 p nt3 c2 where "start_rudp L E use_tcp c lg nt = Some (c\<lparr>cn_rudp := ru, cn_rudp_enabled := on\<rparr>, nt1)"
    "c2 = c\<lparr>cn_rudp := ru, cn_rudp_enabled := on, cn_session_id := sid, cn_state := STATE_CONNECTED,
       cn_max_connection := if cn_using_nat_t c then 1 else session_limit c lg, cn_next_connect_time := t\<rparr>"
    "start_session (c\<lparr>cn_rudp := ru, cn_rudp_enabled := on\<rparr>) lg nt1 = (c2, nt2)" "ssl_has_pending (cn_ssl c2) nt2 = Some (p, nt3)"
    "conn_inv c2 nt3" "order_seg 0 nt nt3" "on \<longrightarrow> cn_rudp_enabled c"
    "cn_session_established c \<and> lg_session_key_32 lg \<noteq> 0 \<longrightarrow> sid = lg_session_key_32 lg"
proof -
  obtain ru on nt1 where r: "start_rudp L E use_tcp c lg nt = Some (c\<lparr>cn_rudp := ru, cn_rudp_enabled := on\<rparr>, nt1)"
    "conn_inv (c\<lparr>cn_rudp := ru, cn_rudp_enabled := on\<rparr>) nt1" "udp_step nt nt1" "on \<longrightarrow> cn_rudp_enabled c"
    using start_rudp_ok [OF L inv] by blast
  let ?c = "c\<lparr>cn_rudp := ru, cn_rudp_enabled := on\<rparr>"
  obtain sid t nt2 where s: "start_session ?c lg nt1 = (?c\<lparr>cn_session_id := sid, cn_state := STATE_CONNECTED,
       cn_max_connection := if cn_using_nat_t ?c then 1 else session_limit ?c lg, cn_next_connect_time := t\<rparr>, nt2)" "udp_step nt1 nt2"
     "cn_session_established ?c \<and> lg_session_key_32 lg \<noteq> 0 \<longrightarrow> sid = lg_session_key_32 lg"
    using start_session_eq [of ?c lg nt1] by blast
  let ?c2 = "?c\<lparr>cn_session_id := sid, cn_state := STATE_CONNECTED,
       cn_max_connection := if cn_using_nat_t ?c then 1 else session_limit ?c lg, cn_next_connect_time := t\<rparr>"
  have i2: "conn_inv ?c2 nt2" by (rule start_session_inv [OF r(2) s(2)])
  then have "tls_alive (cn_ssl ?c2) nt2" by (simp add: conn_inv_def links_inv_def)
  then obtain p nt3 where p: "ssl_has_pending (cn_ssl ?c2) nt2 = Some (p, nt3)" "lock_seg 3 nt2 nt3" "nt_tls nt3 = nt_tls nt2"
    using pending_ok by blast
  have i3: "conn_inv ?c2 nt3" using i2 conn_inv_tls [OF p(3)] by blast
  have q: "lock_seg 0 nt nt3"
    using udp_step_seg [OF udp_step_trans [OF r(3) s(2)], of 0] lock_seg_mono [OF p(2), of 0] lock_seg_trans by blast
  have e: "?c2 = c\<lparr>cn_rudp := ru, cn_rudp_enabled := on, cn_session_id := sid, cn_state := STATE_CONNECTED,
       cn_max_connection := if cn_using_nat_t c then 1 else session_limit c lg, cn_next_connect_time := t\<rparr>"
    by (simp add: session_limit_def)
  show ?thesis by (rule that [OF r(1) e s(1) p(1) i3 order_seg_lock [OF q] r(4)]) (use s(3) in simp)
qed

text \<open>
  C14. The setup of the session. After a login with any result, on a well-formed connection that is not torn down, the setup of the
  session returns, with the connection well-formed and the locks taken in order and released. When it succeeds, the connection is in the state
  \<open>STATE_CONNECTED\<close>, has a socket, and its number of links is 1 over NAT-T and otherwise the least of what was asked for, what the server accepts
  (0 is no limit) and the 32 slots; UDP acceleration is on only if the server offered it, and the session number is the server's when it sent one. When it does not,
  because of the login, of a cancel or for want of a socket, everything the connection held has been released and the error says why.
\<close>

theorem session_established:
  assumes L: "lib_ok L" and E: "env_ok LE" and inv: "conn_inv c nt" and up: "conn_going c"
    and m: "0 \<le> cn_max_connection c" "cn_max_connection c < 2 ^ 31"
  shows "\<exists>r c' nt'. establish_session L E LE use_tcp result c lg nt = Some (r, c', nt') \<and> conn_inv c' nt' \<and> order_seg 0 nt nt' \<and>
     r = (if result \<noteq> ERR_NONE then result else if cn_abort_connect c then ERR_TIMEOUT else if cn_socket_fd c < 0 then ERR_TCP_CONNECT else ERR_NONE) \<and>
     (if r = ERR_NONE
      then cn_state c' = STATE_CONNECTED \<and> 0 \<le> cn_socket_fd c' \<and>
        cn_max_connection c' = (if cn_using_nat_t c then 1
          else min (min (cn_max_connection c) 32) (if lg_server_max_connection lg = 0 then 32 else uint (lg_server_max_connection lg))) \<and>
        (cn_rudp_enabled c' \<longrightarrow> cn_rudp_enabled c) \<and>
        (cn_session_established c \<and> lg_session_key_32 lg \<noteq> 0 \<longrightarrow> cn_session_id c' = lg_session_key_32 lg)
      else ended c')"
proof (cases "result \<noteq> ERR_NONE \<or> cn_abort_connect c")
  case True
  obtain c' nt' where d: "softether_disconnect (additional_connect_thread_routine LE) c nt = Some (c', nt')" "conn_inv c' nt'"
    "order_seg 0 nt nt'" "ended c'" using torn_down_ok [OF E inv up] by blast
  let ?r = "if result \<noteq> ERR_NONE then result else ERR_TIMEOUT"
  have "establish_session L E LE use_tcp result c lg nt = Some (?r, c', nt')" using True d(1) by (auto simp: establish_session_def)
  then show ?thesis using d(2-4) True err_codes by (intro exI [of _ ?r] exI [of _ c'] exI [of _ nt']) simp
next
  case na: False
  obtain ru on sid t nt1 nt2 p nt3 c2 where b: "start_rudp L E use_tcp c lg nt = Some (c\<lparr>cn_rudp := ru, cn_rudp_enabled := on\<rparr>, nt1)"
    and c2: "c2 = c\<lparr>cn_rudp := ru, cn_rudp_enabled := on, cn_session_id := sid, cn_state := STATE_CONNECTED,
       cn_max_connection := if cn_using_nat_t c then 1 else session_limit c lg, cn_next_connect_time := t\<rparr>"
    and s: "start_session (c\<lparr>cn_rudp := ru, cn_rudp_enabled := on\<rparr>) lg nt1 = (c2, nt2)" "ssl_has_pending (cn_ssl c2) nt2 = Some (p, nt3)"
    and i: "conn_inv c2 nt3" "order_seg 0 nt nt3"
    and g: "on \<longrightarrow> cn_rudp_enabled c" "cn_session_established c \<and> lg_session_key_32 lg \<noteq> 0 \<longrightarrow> sid = lg_session_key_32 lg"
    using session_begins [OF L inv] by metis
  have e: "establish_session L E LE use_tcp result c lg nt =
      (if cn_socket_fd c2 < 0 then do { (c, nt) \<leftarrow> softether_disconnect (additional_connect_thread_routine LE) c2 nt3; Some (ERR_TCP_CONNECT, c, nt) }
       else if ci_half_connection (lg_client lg)
       then do { (_, c, nt) \<leftarrow> softether_establish_first_additional LE c2 nt3; Some (ERR_NONE, c, nt) }
       else Some (ERR_NONE, c2, nt3))"
    using na unfolding establish_session_def by (simp only: b Option.bind.bind_lunit prod.case s Let_def if_False de_Morgan_disj not_not simp_thms)
  show ?thesis
  proof (cases "cn_socket_fd c < 0")
    case True
    have "conn_going c2" by (simp add: conn_going_def c2)
    then obtain c' nt' where d: "softether_disconnect (additional_connect_thread_routine LE) c2 nt3 = Some (c', nt')" "conn_inv c' nt'"
      "order_seg 0 nt3 nt'" "ended c'" using torn_down_ok [OF E i(1)] by blast
    have "establish_session L E LE use_tcp result c lg nt = Some (ERR_TCP_CONNECT, c', nt')" using e True d(1) by (simp add: c2)
    then show ?thesis using d(2,4) order_seg_trans [OF i(2) d(3)] True na err_codes
      by (intro exI [of _ ERR_TCP_CONNECT] exI [of _ c'] exI [of _ nt']) simp
  next
    case False
    have "\<exists>c' nt'. establish_session L E LE use_tcp result c lg nt = Some (ERR_NONE, c', nt') \<and> conn_inv c' nt' \<and> order_seg 0 nt nt' \<and> same_session c2 c'"
    proof (cases "ci_half_connection (lg_client lg)")
      case True
      obtain r c' nt' where f: "softether_establish_first_additional LE c2 nt3 = Some (r, c', nt')" "conn_inv c' nt'" "order_seg 0 nt3 nt'" "same_session c2 c'"
        using first_additional_ok [OF E i(1)] by blast
      then show ?thesis using e True False order_seg_trans [OF i(2) f(3)] by (simp add: c2)
    next
      case n: False
      have "same_session c2 c2" by (simp add: same_session_def)
      moreover have "establish_session L E LE use_tcp result c lg nt = Some (ERR_NONE, c2, nt3)" using e n False by (simp add: c2)
      ultimately show ?thesis using i by blast
    qed
    then obtain c' nt' where r: "establish_session L E LE use_tcp result c lg nt = Some (ERR_NONE, c', nt')" "conn_inv c' nt'" "order_seg 0 nt nt'" "same_session c2 c'" by blast
    have f: "cn_state c' = STATE_CONNECTED" "cn_socket_fd c' = cn_socket_fd c" "cn_rudp_enabled c' = on" "cn_session_id c' = sid"
      "cn_max_connection c' = (if cn_using_nat_t c then 1 else session_limit c lg)"
      using r(4) by (simp_all add: same_session_def c2)
    have lim: "session_limit c lg = min (min (cn_max_connection c) 32) (if lg_server_max_connection lg = 0 then 32 else uint (lg_server_max_connection lg))"
      using session_limit_min [OF m] by (simp add: MAX_SE_CONNECTIONS_def)
    show ?thesis using r(1-3) f g False na unfolding lim by (intro exI [of _ ERR_NONE] exI [of _ c'] exI [of _ nt']) simp
  qed
qed

theorem session_established_witness:
  "\<exists>c' nt'. establish_session demo_lib demo_auth demo_env False ERR_NONE demo_conn demo_login (demo_world [] (Some (demo_stream []))) = Some (ERR_NONE, c', nt') \<and>
     cn_max_connection c' = 2"
proof -
  have "conn_going demo_conn" "0 \<le> cn_max_connection demo_conn" "cn_max_connection demo_conn < 2 ^ 31" "\<not> cn_abort_connect demo_conn"
    "\<not> cn_socket_fd demo_conn < 0" "\<not> cn_using_nat_t demo_conn" "cn_max_connection demo_conn = 2"
    by (simp_all add: conn_going_def) (simp_all add: demo_conn_def)
  moreover have "lg_server_max_connection demo_login = 0" by (simp add: demo_login_def)
  ultimately show ?thesis
    using session_established [OF demo_lib_ok(1) demo_env_ok demo_inv [of "demo_stream []"], of demo_auth False ERR_NONE demo_login] by auto
qed

end
